(* ===== verification/SK_Prelude.thy ===== *)
theory SK_Prelude
  imports Main "HOL-Library.AList"
begin

text \<open>
  Shared ground of the development: the error codes, error objects and results of
  \<^verbatim>\<open>include/soul/core/error.h\<close> and \<^verbatim>\<open>result.h\<close>, the reading of
  \<^verbatim>\<open>std::chrono\<close> durations, the simp collections the component theories extend, and the
  generic facts on lists, association lists and transition systems that several components use.

  Strings (\<^verbatim>\<open>QString\<close>, \<^verbatim>\<open>std::string\<close>) are HOL strings.
  An \<^verbatim>\<open>unordered_map\<close> whose size or iteration matters is an association list with distinct
  keys; its list order stands for the iteration order of the container, which the sources do not
  rely on. A clock reading is an argument of the operation that reads the clock.
\<close>

named_theorems sk_defs \<open>definitions unfolded when one operation of a component is analysed\<close>
named_theorems sk_inv \<open>preservation facts of component invariants\<close>

section \<open>Errors and results\<close>

datatype error_code =
    EC_Ok | EC_Unknown
  | EC_NotFound | EC_AlreadyExists | EC_InvalidArgument | EC_InvalidState | EC_PermissionDenied
  | EC_Unauthorized | EC_AuthError | EC_TokenExpired
  | EC_NetworkError | EC_Timeout | EC_ConnectionRefused | EC_SSLHandshakeFailed | EC_NotConnected
  | EC_ParseError | EC_SerializationError | EC_DeserializationError
  | EC_DatabaseError | EC_QueryFailed | EC_ConstraintViolation | EC_ResourceExhausted
  | EC_FileError | EC_FileNotFound | EC_FileReadError | EC_FileWriteError
  | EC_InternalError | EC_NotImplemented | EC_OutOfMemory

text \<open>An error object: its code, its message and the error that caused it, if any.\<close>

datatype sc_error = Error (err_code: error_code) (err_message: string) (err_cause: "sc_error option")

abbreviation mk_error :: "error_code \<Rightarrow> string \<Rightarrow> sc_error" where
  "mk_error c m \<equiv> Error c m None"

type_synonym 'a result = "sc_error + 'a"

abbreviation Ok :: "'a \<Rightarrow> 'a result" where "Ok \<equiv> Inr"
abbreviation Err :: "sc_error \<Rightarrow> 'a result" where "Err \<equiv> Inl"

definition isOk :: "'a result \<Rightarrow> bool" where
  "isOk r = (case r of Inl _ \<Rightarrow> False | Inr _ \<Rightarrow> True)"

lemma isOk_simps [simp]: "isOk (Ok v)" "\<not> isOk (Err e)"
  by (simp_all add: isOk_def)

lemma isOkE: "isOk r \<Longrightarrow> (\<And>v. r = Ok v \<Longrightarrow> P) \<Longrightarrow> P"
  by (cases r) simp_all

lemma not_isOkE: "\<not> isOk r \<Longrightarrow> (\<And>e. r = Err e \<Longrightarrow> P) \<Longrightarrow> P"
  by (cases r) simp_all

text \<open>The single quote, which messages of the sources put around names.\<close>

abbreviation squote :: string where "squote \<equiv> [CHR 0x27]"

section \<open>Durations\<close>

text \<open>
  A \<^verbatim>\<open>steady_clock\<close> time point is an integer count of nanoseconds;
  \<^verbatim>\<open>duration_cast<milliseconds>\<close> divides by a million and truncates towards zero.
\<close>

definition ms_cast :: "int \<Rightarrow> int" where
  "ms_cast d = (if 0 \<le> d then d div 1000000 else - ((- d) div 1000000))"

lemma div_million_nonneg: "0 \<le> x \<Longrightarrow> 0 \<le> x div (1000000::int)"
  by (simp add: pos_imp_zdiv_nonneg_iff)

lemma ms_cast_mono:
  assumes "a \<le> b"
  shows "ms_cast a \<le> ms_cast b"
proof (cases "0 \<le> a")
  case True
  with assms show ?thesis by (simp add: ms_cast_def zdiv_mono1)
next
  case False
  with assms div_million_nonneg [of "- a"] div_million_nonneg [of b] zdiv_mono1 [of "- b" "- a" 1000000]
  show ?thesis unfolding ms_cast_def by auto
qed

lemma ms_cast_nonneg [simp]: "0 \<le> d \<Longrightarrow> 0 \<le> ms_cast d"
  by (simp add: ms_cast_def pos_imp_zdiv_nonneg_iff)

lemma ms_cast_ge_iff: "0 < k \<Longrightarrow> k \<le> ms_cast d \<longleftrightarrow> k * 1000000 \<le> d"
proof -
  assume k: "0 < k"
  show ?thesis
  proof (cases "0 \<le> d")
    case True
    then show ?thesis by (simp add: ms_cast_def pos_le_divide_eq) linarith
  next
    case False
    then have "ms_cast d \<le> 0" by (simp add: ms_cast_def pos_imp_zdiv_nonneg_iff)
    with k False show ?thesis by auto
  qed
qed

section \<open>Lists\<close>

lemma dropWhile_eq_filter_antimono:
  assumes "sorted xs" and "\<And>x y. x \<le> y \<Longrightarrow> P y \<Longrightarrow> P x"
  shows "dropWhile P xs = filter (\<lambda>x. \<not> P x) xs"
  using assms(1)
proof (induction xs)
  case Nil
  then show ?case by simp
next
  case (Cons a xs)
  show ?case
  proof (cases "P a")
    case True
    with Cons show ?thesis by simp
  next
    case False
    with assms(2) Cons.prems have "\<forall>x \<in> set xs. \<not> P x" by auto
    with False show ?thesis by simp
  qed
qed

declare sorted_dropWhile [simp]

lemma distinct_last_notin: "distinct xs \<Longrightarrow> xs \<noteq> [] \<Longrightarrow> last xs \<notin> set (butlast xs)"
  by (induction xs) (auto dest: in_set_butlastD)

lemma remove1_last: "distinct xs \<Longrightarrow> xs \<noteq> [] \<Longrightarrow> remove1 (last xs) xs = butlast xs"
  by (induction xs) auto

section \<open>Transition systems\<close>

text \<open>
  The reachable states of a component: those of an initial predicate, closed under a step
  relation. The locale proves once that an inductive invariant holds in all of them; every
  component with a step relation interprets it.
\<close>

inductive reach :: "('s \<Rightarrow> bool) \<Rightarrow> ('s \<Rightarrow> 's \<Rightarrow> bool) \<Rightarrow> 's \<Rightarrow> bool" for I T where
  reach_init: "I s \<Longrightarrow> reach I T s"
| reach_step: "reach I T s \<Longrightarrow> T s t \<Longrightarrow> reach I T t"

locale inductive_invariant =
  fixes Init :: "'s \<Rightarrow> bool"
    and Step :: "'s \<Rightarrow> 's \<Rightarrow> bool"
    and Inv :: "'s \<Rightarrow> bool"
  assumes inv_init: "Init s \<Longrightarrow> Inv s"
    and inv_step: "Inv s \<Longrightarrow> Step s t \<Longrightarrow> Inv t"
begin

lemma reach_inv: "reach Init Step s \<Longrightarrow> Inv s"
  by (induction rule: reach.induct) (auto intro: inv_init inv_step)

lemma reach_inv_steps: "Inv s \<Longrightarrow> Step\<^sup>*\<^sup>* s t \<Longrightarrow> Inv t"
  by (rotate_tac 1, induction rule: rtranclp_induct) (auto intro: inv_step)

end

text \<open>
  A component that appends its outputs to a log, and what every operation may output between which abstract states. \<open>trace_run\<close> chains the operations of a sequence.
\<close>

inductive trace_run :: "('op \<Rightarrow> 'a \<Rightarrow> 'e list \<Rightarrow> 'a \<Rightarrow> bool) \<Rightarrow> 'op list \<Rightarrow> 'a \<Rightarrow> 'e list \<Rightarrow> 'a \<Rightarrow> bool" for spec where
  trace_nil: "trace_run spec [] a [] a"
| trace_cons: "spec p a es b \<Longrightarrow> trace_run spec ops b fs c \<Longrightarrow> trace_run spec (p # ops) a (es @ fs) c"

inductive_cases trace_run_ConsE: "trace_run spec (p # ops) a es c"
inductive_simps trace_run_Nil [simp]: "trace_run spec [] a es c"

locale trace_refinement =
  fixes exec :: "'op \<Rightarrow> 's \<Rightarrow> 's"
    and inv :: "'s \<Rightarrow> bool"
    and abs :: "'s \<Rightarrow> 'a"
    and out :: "'s \<Rightarrow> 'e list"
    and spec :: "'op \<Rightarrow> 'a \<Rightarrow> 'e list \<Rightarrow> 'a \<Rightarrow> bool"
  assumes exec_inv: "inv s \<Longrightarrow> inv (exec p s)"
    and exec_refines: "inv s \<Longrightarrow> \<exists>es. out (exec p s) = out s @ es \<and> spec p (abs s) es (abs (exec p s))"
begin

lemma run_refines: "inv s \<Longrightarrow> \<exists>es. out (fold exec ops s) = out s @ es \<and> trace_run spec ops (abs s) es (abs (fold exec ops s))"
proof (induction ops arbitrary: s)
  case Nil
  show ?case by (auto intro: trace_nil)
next
  case (Cons p ops)
  obtain es where es: "out (exec p s) = out s @ es" "spec p (abs s) es (abs (exec p s))" using exec_refines [OF Cons.prems] by blast
  obtain fs where "out (fold exec ops (exec p s)) = out (exec p s) @ fs" "trace_run spec ops (abs (exec p s)) fs (abs (fold exec ops (exec p s)))"
    using Cons.IH [OF exec_inv [OF Cons.prems]] by blast
  with es show ?case using trace_cons by (intro exI [of _ "es @ fs"]) auto
qed

end

lemma fold_keeps: "(\<And>x s. P s \<Longrightarrow> P (f x s)) \<Longrightarrow> P s \<Longrightarrow> P (fold f xs s)"
  by (induction xs arbitrary: s) auto

end
