(* ===== verification/SK_CircuitBreaker.thy ===== *)
theory SK_CircuitBreaker
  imports SK_Prelude
begin

text \<open>
  The three-state circuit breaker of \<^verbatim>\<open>include/soul/network/policy/circuit_breaker.h\<close> and
  \<^verbatim>\<open>src/soul/network/policy/circuit_breaker.cpp\<close>.

  The record \<open>circuit_breaker\<close> holds the members of the class; \<open>cb_log\<close> lists the calls of the
  state change callback (made only when \<open>cb_callback\<close> says that one is set). Every clock reading
  of an operation is an argument of it, in the order in which the source reads the clock.
  Methods that take the mutex are one step. \<open>allowRequest\<close> reads the state before it takes the
  mutex, so it is split into the load and the rest (\<open>allowRequest_after\<close>).
\<close>

section \<open>Data\<close>

datatype CircuitBreakerState = Closed | Open | HalfOpen

definition cb_toString :: "CircuitBreakerState \<Rightarrow> string" where
  "cb_toString s = (case s of Closed \<Rightarrow> ''CLOSED'' | Open \<Rightarrow> ''OPEN'' | HalfOpen \<Rightarrow> ''HALF_OPEN'')"

record CircuitBreakerConfig =
  failureThreshold :: int
  resetTimeoutMs :: int
  halfOpenMaxCalls :: int
  windowDurationMs :: int

definition default_cb_config :: CircuitBreakerConfig where
  "default_cb_config = \<lparr>failureThreshold = 5, resetTimeoutMs = 30000, halfOpenMaxCalls = 3,
     windowDurationMs = 60000\<rparr>"

record circuit_breaker =
  cb_name :: string
  cb_config :: CircuitBreakerConfig
  cb_state :: CircuitBreakerState
  cb_failureCount :: int
  cb_halfOpenCalls :: int
  cb_failureTimestamps :: "int list"
  cb_openedAt :: int
  cb_callback :: bool
  cb_log :: "(string \<times> CircuitBreakerState \<times> CircuitBreakerState) list"

section \<open>Operations\<close>

definition mk_CircuitBreaker :: "string \<Rightarrow> CircuitBreakerConfig \<Rightarrow> circuit_breaker" where
  "mk_CircuitBreaker name config = \<lparr>cb_name = name, cb_config = config, cb_state = Closed,
     cb_failureCount = 0, cb_halfOpenCalls = 0, cb_failureTimestamps = [], cb_openedAt = 0,
     cb_callback = False, cb_log = []\<rparr>"

definition setFailureThreshold :: "int \<Rightarrow> circuit_breaker \<Rightarrow> circuit_breaker" where
  "setFailureThreshold threshold cb = cb\<lparr>cb_config := (cb_config cb)\<lparr>failureThreshold :=
     (if threshold > 0 then threshold else failureThreshold (cb_config cb))\<rparr>\<rparr>"

definition setResetTimeout :: "int \<Rightarrow> circuit_breaker \<Rightarrow> circuit_breaker" where
  "setResetTimeout ms cb = cb\<lparr>cb_config := (cb_config cb)\<lparr>resetTimeoutMs :=
     (if ms > 0 then ms else resetTimeoutMs (cb_config cb))\<rparr>\<rparr>"

definition setHalfOpenMaxCalls :: "int \<Rightarrow> circuit_breaker \<Rightarrow> circuit_breaker" where
  "setHalfOpenMaxCalls maxCalls cb = cb\<lparr>cb_config := (cb_config cb)\<lparr>halfOpenMaxCalls :=
     (if maxCalls > 0 then maxCalls else halfOpenMaxCalls (cb_config cb))\<rparr>\<rparr>"

definition setWindowDuration :: "int \<Rightarrow> circuit_breaker \<Rightarrow> circuit_breaker" where
  "setWindowDuration ms cb = cb\<lparr>cb_config := (cb_config cb)\<lparr>windowDurationMs :=
     (if ms > 0 then ms else windowDurationMs (cb_config cb))\<rparr>\<rparr>"

definition setStateChangeCallback :: "bool \<Rightarrow> circuit_breaker \<Rightarrow> circuit_breaker" where
  "setStateChangeCallback present cb = cb\<lparr>cb_callback := present\<rparr>"

text \<open>The private helper: the state is exchanged first; an unchanged state returns early.\<close>

definition transitionTo :: "int \<Rightarrow> CircuitBreakerState \<Rightarrow> circuit_breaker \<Rightarrow> circuit_breaker" where
  "transitionTo now newState cb =
     (let old = cb_state cb; cb1 = cb\<lparr>cb_state := newState\<rparr> in
      if old = newState then cb1
      else let cb2 = (if newState = Open then cb1\<lparr>cb_openedAt := now\<rparr> else cb1) in
        if cb_callback cb2 then cb2\<lparr>cb_log := cb_log cb2 @ [(cb_name cb2, old, newState)]\<rparr>
        else cb2)"

definition pruneExpiredFailures :: "int \<Rightarrow> circuit_breaker \<Rightarrow> circuit_breaker" where
  "pruneExpiredFailures now cb =
     (let ts = dropWhile (\<lambda>t. ms_cast (now - t) \<ge> windowDurationMs (cb_config cb))
                 (cb_failureTimestamps cb)
      in cb\<lparr>cb_failureTimestamps := ts, cb_failureCount := int (length ts)\<rparr>)"

definition allowRequest_after ::
    "CircuitBreakerState \<Rightarrow> int \<Rightarrow> circuit_breaker \<Rightarrow> bool \<times> circuit_breaker" where
  "allowRequest_after current now cb =
     (case current of
        Closed \<Rightarrow> (True, cb)
      | Open \<Rightarrow>
          if ms_cast (now - cb_openedAt cb) \<ge> resetTimeoutMs (cb_config cb) then
            let cb1 = transitionTo now HalfOpen (cb\<lparr>cb_halfOpenCalls := 0\<rparr>)
            in (True, cb1\<lparr>cb_halfOpenCalls := cb_halfOpenCalls cb1 + 1\<rparr>)
          else (False, cb)
      | HalfOpen \<Rightarrow>
          if cb_halfOpenCalls cb < halfOpenMaxCalls (cb_config cb)
          then (True, cb\<lparr>cb_halfOpenCalls := cb_halfOpenCalls cb + 1\<rparr>)
          else (False, cb))"

definition allowRequest :: "int \<Rightarrow> circuit_breaker \<Rightarrow> bool \<times> circuit_breaker" where
  "allowRequest now cb = allowRequest_after (cb_state cb) now cb"

definition onSuccess :: "int \<Rightarrow> circuit_breaker \<Rightarrow> circuit_breaker" where
  "onSuccess now cb =
     (if cb_state cb = HalfOpen then
        let remaining = cb_halfOpenCalls cb - 1; cb1 = cb\<lparr>cb_halfOpenCalls := remaining\<rparr> in
        if remaining \<le> 0
        then transitionTo now Closed (cb1\<lparr>cb_failureTimestamps := [], cb_failureCount := 0\<rparr>)
        else cb1
      else if cb_state cb = Closed then cb\<lparr>cb_failureTimestamps := [], cb_failureCount := 0\<rparr>
      else cb)"

definition onFailure :: "int \<Rightarrow> int \<Rightarrow> int \<Rightarrow> circuit_breaker \<Rightarrow> circuit_breaker" where
  "onFailure now now_prune now_open cb =
     (let current = cb_state cb;
          cb1 = pruneExpiredFailures now_prune
                  (cb\<lparr>cb_failureTimestamps := cb_failureTimestamps cb @ [now]\<rparr>)
      in case current of
           Closed \<Rightarrow> if cb_failureCount cb1 \<ge> failureThreshold (cb_config cb1)
                     then transitionTo now_open Open cb1 else cb1
         | HalfOpen \<Rightarrow> transitionTo now_open Open (cb1\<lparr>cb_halfOpenCalls := 0\<rparr>)
         | Open \<Rightarrow> cb1)"

definition cb_reset :: "int \<Rightarrow> circuit_breaker \<Rightarrow> circuit_breaker" where
  "cb_reset now cb = transitionTo now Closed
     (cb\<lparr>cb_failureTimestamps := [], cb_failureCount := 0, cb_halfOpenCalls := 0\<rparr>)"

definition forceOpen :: "int \<Rightarrow> circuit_breaker \<Rightarrow> circuit_breaker" where
  "forceOpen now cb = transitionTo now Open cb"

text \<open>
  The wrapper: the call is made only when the request is allowed, and its outcome is recorded.
  The result of the wrapped callable is an argument (\<open>func\<close>); whether it was run is returned.
\<close>

definition cb_call :: "int \<Rightarrow> int \<times> int \<times> int \<Rightarrow> 'a result \<Rightarrow> circuit_breaker
    \<Rightarrow> 'a result \<times> bool \<times> circuit_breaker" where
  "cb_call now done func cb =
     (case allowRequest now cb of
        (False, cb1) \<Rightarrow> (Err (mk_error EC_ResourceExhausted
            (''CircuitBreaker '' @ squote @ cb_name cb @ squote @ '' is OPEN'')), False, cb1)
      | (True, cb1) \<Rightarrow> (case done of (t1, t2, t3) \<Rightarrow>
            (func, True, if isOk func then onSuccess t1 cb1 else onFailure t1 t2 t3 cb1)))"

lemmas cb_op_defs [sk_defs] = transitionTo_def pruneExpiredFailures_def allowRequest_after_def
  allowRequest_def onSuccess_def onFailure_def cb_reset_def forceOpen_def Let_def

section \<open>Steps\<close>

text \<open>
  One step is one completed call; the second component of a state is the latest clock reading,
  and the clock never goes back (\<^verbatim>\<open>steady_clock\<close>). The event says which call it was.
\<close>

text \<open>These are the calls of one thread after the other, with the configuration of the constructor. The section after it has all calls.\<close>

datatype cb_event = EvAllow bool | EvSuccess | EvFailure | EvReset | EvForceOpen

inductive cb_step :: "circuit_breaker \<times> int \<Rightarrow> cb_event \<Rightarrow> circuit_breaker \<times> int \<Rightarrow> bool" where
  step_allow: "t \<le> now \<Longrightarrow> allowRequest now cb = (b, cb') \<Longrightarrow> cb_step (cb, t) (EvAllow b) (cb', now)"
| step_success: "t \<le> now \<Longrightarrow> cb_step (cb, t) EvSuccess (onSuccess now cb, now)"
| step_failure: "t \<le> n1 \<Longrightarrow> n1 \<le> n2 \<Longrightarrow> n2 \<le> n3 \<Longrightarrow>
     cb_step (cb, t) EvFailure (onFailure n1 n2 n3 cb, n3)"
| step_reset: "t \<le> now \<Longrightarrow> cb_step (cb, t) EvReset (cb_reset now cb, now)"
| step_force: "t \<le> now \<Longrightarrow> cb_step (cb, t) EvForceOpen (forceOpen now cb, now)"

inductive_cases cb_stepE: "cb_step s e s'"

definition cb_init :: "string \<Rightarrow> CircuitBreakerConfig \<Rightarrow> circuit_breaker \<times> int \<Rightarrow> bool" where
  "cb_init name config s \<longleftrightarrow> fst s = mk_CircuitBreaker name config \<and> 0 \<le> snd s"

definition cb_next :: "circuit_breaker \<times> int \<Rightarrow> circuit_breaker \<times> int \<Rightarrow> bool" where
  "cb_next s s' \<longleftrightarrow> (\<exists>e. cb_step s e s')"

definition cb_config_ok :: "CircuitBreakerConfig \<Rightarrow> bool" where
  "cb_config_ok c \<longleftrightarrow> 0 < failureThreshold c \<and> 0 < resetTimeoutMs c \<and> 0 < halfOpenMaxCalls c
     \<and> 0 < windowDurationMs c"

definition cb_inv :: "string \<Rightarrow> CircuitBreakerConfig \<Rightarrow> circuit_breaker \<times> int \<Rightarrow> bool" where
  "cb_inv name config s \<longleftrightarrow> (case s of (cb, t) \<Rightarrow>
     cb_name cb = name \<and> cb_config cb = config \<and>
     cb_failureCount cb = int (length (cb_failureTimestamps cb)) \<and>
     sorted (cb_failureTimestamps cb) \<and> (\<forall>x \<in> set (cb_failureTimestamps cb). x \<le> t) \<and>
     cb_openedAt cb \<le> t \<and>
     0 \<le> cb_halfOpenCalls cb \<and> cb_halfOpenCalls cb \<le> halfOpenMaxCalls config \<and>
     (cb_state cb = HalfOpen \<longrightarrow> 1 \<le> cb_halfOpenCalls cb) \<and>
     (cb_state cb = Closed \<longrightarrow> cb_halfOpenCalls cb = 0 \<and>
        int (length (cb_failureTimestamps cb)) < failureThreshold config))"

section \<open>Invariant\<close>

lemma transitionTo_simps [simp]:
  "cb_state (transitionTo now s cb) = s"
  "cb_name (transitionTo now s cb) = cb_name cb"
  "cb_config (transitionTo now s cb) = cb_config cb"
  "cb_failureCount (transitionTo now s cb) = cb_failureCount cb"
  "cb_halfOpenCalls (transitionTo now s cb) = cb_halfOpenCalls cb"
  "cb_failureTimestamps (transitionTo now s cb) = cb_failureTimestamps cb"
  "cb_openedAt (transitionTo now s cb) =
     (if s = Open \<and> cb_state cb \<noteq> Open then now else cb_openedAt cb)"
  by (simp_all add: transitionTo_def Let_def)

lemma pruneExpiredFailures_simps [simp]:
  "cb_state (pruneExpiredFailures now cb) = cb_state cb"
  "cb_name (pruneExpiredFailures now cb) = cb_name cb"
  "cb_config (pruneExpiredFailures now cb) = cb_config cb"
  "cb_halfOpenCalls (pruneExpiredFailures now cb) = cb_halfOpenCalls cb"
  "cb_openedAt (pruneExpiredFailures now cb) = cb_openedAt cb"
  "cb_failureCount (pruneExpiredFailures now cb)
     = int (length (cb_failureTimestamps (pruneExpiredFailures now cb)))"
  by (simp_all add: pruneExpiredFailures_def Let_def)

text \<open>On sorted time stamps the front-popping loop keeps exactly the failures in the window.\<close>

lemma prune_keeps_window:
  assumes "sorted (cb_failureTimestamps cb)"
  shows "cb_failureTimestamps (pruneExpiredFailures now cb)
    = filter (\<lambda>t. ms_cast (now - t) < windowDurationMs (cb_config cb)) (cb_failureTimestamps cb)"
proof -
  have "windowDurationMs c \<le> ms_cast (now - x)"
    if "x \<le> y" "windowDurationMs c \<le> ms_cast (now - y)" for x y c
    using ms_cast_mono [of "now - y" "now - x"] that by linarith
  then have "dropWhile (\<lambda>t. windowDurationMs (cb_config cb) \<le> ms_cast (now - t)) (cb_failureTimestamps cb)
      = filter (\<lambda>t. \<not> windowDurationMs (cb_config cb) \<le> ms_cast (now - t)) (cb_failureTimestamps cb)"
    by (intro dropWhile_eq_filter_antimono assms) blast
  then show ?thesis
    by (simp add: pruneExpiredFailures_def Let_def not_le)
qed

lemma prune_subset:
  "set (cb_failureTimestamps (pruneExpiredFailures now cb)) \<subseteq> set (cb_failureTimestamps cb)"
  by (auto simp: pruneExpiredFailures_def Let_def dest: set_dropWhileD)

lemma prune_sorted:
  "sorted (cb_failureTimestamps cb) \<Longrightarrow> sorted (cb_failureTimestamps (pruneExpiredFailures now cb))"
  by (simp add: pruneExpiredFailures_def Let_def)

lemma cb_inv_later: "cb_inv name config (cb, t) \<Longrightarrow> t \<le> now \<Longrightarrow> cb_inv name config (cb, now)"
  unfolding cb_inv_def by fastforce

lemma allowRequest_inv [sk_inv]:
  assumes "cb_config_ok config" "cb_inv name config (cb, now)" "allowRequest now cb = (b, cb')"
  shows "cb_inv name config (cb', now)"
  using assms
  by (cases "cb_state cb")
     (auto simp: cb_inv_def cb_config_ok_def allowRequest_def allowRequest_after_def Let_def
        split: if_splits)

lemma onSuccess_inv [sk_inv]:
  assumes "cb_config_ok config" "cb_inv name config (cb, now)"
  shows "cb_inv name config (onSuccess now cb, now)"
  using assms by (cases "cb_state cb") (auto simp: cb_inv_def cb_config_ok_def onSuccess_def Let_def)

lemma onFailure_inv:
  assumes "cb_config_ok config" "cb_inv name config (cb, n1)" "n1 \<le> n2" "n2 \<le> n3"
  shows "cb_inv name config (onFailure n1 n2 n3 cb, n3)"
proof -
  let ?cb = "cb\<lparr>cb_failureTimestamps := cb_failureTimestamps cb @ [n1]\<rparr>"
  let ?ts = "cb_failureTimestamps (pruneExpiredFailures n2 ?cb)"
  have "cb_inv name config (cb, n3)" using assms by (auto intro: cb_inv_later)
  moreover have le: "\<forall>x \<in> set (cb_failureTimestamps ?cb). x \<le> n3"
    and srt: "sorted (cb_failureTimestamps ?cb)"
    using assms calculation by (auto simp: cb_inv_def sorted_append)
  have "\<forall>x \<in> set ?ts. x \<le> n3" "sorted ?ts"
    using le prune_subset prune_sorted [OF srt] by blast+
  ultimately show ?thesis
    using assms(1) by (cases "cb_state cb") (auto simp: cb_inv_def cb_config_ok_def onFailure_def Let_def)
qed

lemma cb_reset_inv [sk_inv]:
  assumes "cb_config_ok config" "cb_inv name config (cb, now)"
  shows "cb_inv name config (cb_reset now cb, now)"
  using assms by (auto simp: cb_inv_def cb_config_ok_def cb_reset_def)

lemma forceOpen_inv [sk_inv]:
  assumes "cb_config_ok config" "cb_inv name config (cb, now)"
  shows "cb_inv name config (forceOpen now cb, now)"
  using assms by (auto simp: cb_inv_def cb_config_ok_def forceOpen_def)

lemma cb_step_inv:
  "cb_config_ok config \<Longrightarrow> cb_inv name config s \<Longrightarrow> cb_step s e s' \<Longrightarrow> cb_inv name config s'"
  by (erule cb_stepE) (auto intro: sk_inv onFailure_inv dest: cb_inv_later)

text \<open>
  The setters keep a configuration positive, so the assumption on the configuration is one on the
  constructor argument only.
\<close>

lemma setters_config_ok:
  "cb_config_ok (cb_config cb) \<Longrightarrow> cb_config_ok (cb_config (setFailureThreshold n cb))"
  "cb_config_ok (cb_config cb) \<Longrightarrow> cb_config_ok (cb_config (setResetTimeout n cb))"
  "cb_config_ok (cb_config cb) \<Longrightarrow> cb_config_ok (cb_config (setHalfOpenMaxCalls n cb))"
  "cb_config_ok (cb_config cb) \<Longrightarrow> cb_config_ok (cb_config (setWindowDuration n cb))"
  by (simp_all add: cb_config_ok_def setFailureThreshold_def setResetTimeout_def
      setHalfOpenMaxCalls_def setWindowDuration_def)

locale checked_breaker =
  fixes config :: CircuitBreakerConfig
  assumes config_ok: "cb_config_ok config"
begin

sublocale breaker: inductive_invariant "cb_init name config" cb_next "cb_inv name config" for name
proof unfold_locales
  show "cb_inv name config s" if "cb_init name config s" for s
    using that config_ok
    by (cases s) (simp add: cb_init_def cb_inv_def mk_CircuitBreaker_def cb_config_ok_def)
next
  show "cb_inv name config t" if "cb_inv name config s" "cb_next s t" for s t
    using that config_ok by (auto simp: cb_next_def intro: cb_step_inv)
qed

lemmas breaker_reach_inv = breaker.reach_inv

end

interpretation default_breaker: checked_breaker default_cb_config
  by unfold_locales (simp add: cb_config_ok_def default_cb_config_def)

section \<open>Probes in the half-open state\<close>

text \<open>The answers of a sequence of \<open>allowRequest\<close> calls with no outcome reported in between.\<close>

fun allow_many :: "int list \<Rightarrow> circuit_breaker \<Rightarrow> bool list \<times> circuit_breaker" where
  "allow_many [] cb = ([], cb)"
| "allow_many (now # nows) cb =
     (case allowRequest now cb of (b, cb1) \<Rightarrow>
        case allow_many nows cb1 of (bs, cb2) \<Rightarrow> (b # bs, cb2))"

definition admitted :: "bool list \<Rightarrow> nat" where
  "admitted bs = length (filter (\<lambda>b. b) bs)"

lemma allow_many_half_open:
  assumes "cb_state cb = HalfOpen" "cb_halfOpenCalls cb \<le> halfOpenMaxCalls (cb_config cb)"
  shows "admitted (fst (allow_many nows cb))
    = min (length nows) (nat (halfOpenMaxCalls (cb_config cb) - cb_halfOpenCalls cb))"
  using assms
proof (induction nows arbitrary: cb)
  case Nil
  then show ?case by (simp add: admitted_def)
next
  case (Cons now nows)
  let ?free = "halfOpenMaxCalls (cb_config cb) - cb_halfOpenCalls cb"
  show ?case
  proof (cases "0 < ?free")
    case True
    then have "nat ?free = Suc (nat (?free - 1))" by simp
    moreover from True Cons.prems Cons.IH [of "cb\<lparr>cb_halfOpenCalls := cb_halfOpenCalls cb + 1\<rparr>"]
    have "admitted (fst (allow_many nows (cb\<lparr>cb_halfOpenCalls := cb_halfOpenCalls cb + 1\<rparr>)))
        = min (length nows) (nat (?free - 1))"
      by (simp add: algebra_simps)
    ultimately show ?thesis
      using True Cons.prems
      by (simp add: allowRequest_def allowRequest_after_def admitted_def split_beta)
  next
    case False
    with Cons show ?thesis
      by (simp add: allowRequest_def allowRequest_after_def admitted_def split_beta)
  qed
qed

section \<open>Properties\<close>

text \<open>Calls one after the other, with the configuration of the constructor: then a closed breaker has no probe counted, and both bounds are those of the configuration.\<close>

theorem cb_sequential_invariant:
  assumes "cb_config_ok config" and "reach (cb_init name config) cb_next (cb, t)"
  shows "cb_failureCount cb = int (length (cb_failureTimestamps cb))
    \<and> 0 \<le> cb_halfOpenCalls cb \<and> cb_halfOpenCalls cb \<le> halfOpenMaxCalls config
    \<and> (cb_state cb = HalfOpen \<longrightarrow> 1 \<le> cb_halfOpenCalls cb)
    \<and> (cb_state cb = Closed \<longrightarrow> cb_halfOpenCalls cb = 0
          \<and> int (length (cb_failureTimestamps cb)) < failureThreshold config)"
proof -
  have "checked_breaker config" using assms(1) by unfold_locales
  then have "cb_inv name config (cb, t)"
    using assms(2) by (rule checked_breaker.breaker_reach_inv)
  then show ?thesis by (auto simp: cb_inv_def)
qed

text \<open>A half-open breaker: forced open, then probed after the reset timeout.\<close>

definition example_breaker :: circuit_breaker where
  "example_breaker = snd (allowRequest 30000000000
     (forceOpen 0 (mk_CircuitBreaker ''db'' default_cb_config)))"

section \<open>All calls, interleaved\<close>

text \<open>
  Threads call every method, the setters included. \<open>allowRequest\<close> loads the state without the mutex: the states loaded by calls that have not gone on yet are \<open>bs_loaded\<close>, and
  the rest of such a call runs later, with a clock reading taken at any time before. The largest threshold and the largest number of probes configured so far are kept beside the breaker.
\<close>

record breaker_sys =
  bs_cb :: circuit_breaker
  bs_clock :: int
  bs_loaded :: "CircuitBreakerState list"
  bs_maxThreshold :: int
  bs_maxCalls :: int

definition bs_init :: "string \<Rightarrow> CircuitBreakerConfig \<Rightarrow> breaker_sys \<Rightarrow> bool" where
  "bs_init name config s \<longleftrightarrow> bs_cb s = mk_CircuitBreaker name config \<and> 0 \<le> bs_clock s \<and> bs_loaded s = []
     \<and> bs_maxThreshold s = failureThreshold config \<and> bs_maxCalls s = halfOpenMaxCalls config"

definition bs_configured :: "circuit_breaker \<Rightarrow> breaker_sys \<Rightarrow> breaker_sys" where
  "bs_configured cb s = s\<lparr>bs_cb := cb, bs_maxThreshold := max (bs_maxThreshold s) (failureThreshold (cb_config cb)), bs_maxCalls := max (bs_maxCalls s) (halfOpenMaxCalls (cb_config cb))\<rparr>"

inductive bs_step :: "breaker_sys \<Rightarrow> breaker_sys \<Rightarrow> bool" where
  bs_tick: "bs_clock s \<le> t \<Longrightarrow> bs_step s (s\<lparr>bs_clock := t\<rparr>)"
| bs_load: "bs_step s (s\<lparr>bs_loaded := cb_state (bs_cb s) # bs_loaded s\<rparr>)"
| bs_allow: "c \<in> set (bs_loaded s) \<Longrightarrow> now \<le> bs_clock s \<Longrightarrow>
    bs_step s (s\<lparr>bs_cb := snd (allowRequest_after c now (bs_cb s)), bs_loaded := remove1 c (bs_loaded s)\<rparr>)"
| bs_success: "bs_step s (s\<lparr>bs_cb := onSuccess (bs_clock s) (bs_cb s)\<rparr>)"
| bs_failure: "bs_clock s \<le> n1 \<Longrightarrow> n1 \<le> n2 \<Longrightarrow> n2 \<le> n3 \<Longrightarrow> bs_step s (s\<lparr>bs_cb := onFailure n1 n2 n3 (bs_cb s), bs_clock := n3\<rparr>)"
| bs_reset: "bs_step s (s\<lparr>bs_cb := cb_reset (bs_clock s) (bs_cb s)\<rparr>)"
| bs_force: "bs_step s (s\<lparr>bs_cb := forceOpen (bs_clock s) (bs_cb s)\<rparr>)"
| bs_threshold: "bs_step s (bs_configured (setFailureThreshold n (bs_cb s)) s)"
| bs_calls: "bs_step s (bs_configured (setHalfOpenMaxCalls n (bs_cb s)) s)"
| bs_timeout: "bs_step s (bs_configured (setResetTimeout n (bs_cb s)) s)"
| bs_window: "bs_step s (bs_configured (setWindowDuration n (bs_cb s)) s)"
| bs_callback: "bs_step s (s\<lparr>bs_cb := setStateChangeCallback p (bs_cb s)\<rparr>)"

definition shared_ok :: "int \<Rightarrow> int \<Rightarrow> int \<Rightarrow> circuit_breaker \<Rightarrow> bool" where
  "shared_ok maxT maxC clock cb \<longleftrightarrow>
     cb_config_ok (cb_config cb) \<and> failureThreshold (cb_config cb) \<le> maxT \<and> halfOpenMaxCalls (cb_config cb) \<le> maxC \<and>
     cb_failureCount cb = int (length (cb_failureTimestamps cb)) \<and>
     sorted (cb_failureTimestamps cb) \<and> (\<forall>x \<in> set (cb_failureTimestamps cb). x \<le> clock) \<and> cb_openedAt cb \<le> clock \<and>
     0 \<le> cb_halfOpenCalls cb \<and> cb_halfOpenCalls cb \<le> maxC \<and>
     (cb_state cb = HalfOpen \<longrightarrow> 1 \<le> cb_halfOpenCalls cb) \<and>
     (cb_state cb = Closed \<longrightarrow> int (length (cb_failureTimestamps cb)) < maxT)"

definition bs_inv :: "breaker_sys \<Rightarrow> bool" where
  "bs_inv s \<longleftrightarrow> shared_ok (bs_maxThreshold s) (bs_maxCalls s) (bs_clock s) (bs_cb s)"

lemma shared_later: "shared_ok mt mc t cb \<Longrightarrow> t \<le> t' \<Longrightarrow> shared_ok mt mc t' cb"
  unfolding shared_ok_def by fastforce

lemma shared_allow: "shared_ok mt mc t cb \<Longrightarrow> shared_ok mt mc t (snd (allowRequest_after c now cb))"
  unfolding shared_ok_def cb_config_ok_def
  by (cases c; cases "resetTimeoutMs (cb_config cb) \<le> ms_cast (now - cb_openedAt cb)"; cases "cb_halfOpenCalls cb < halfOpenMaxCalls (cb_config cb)")
    (simp_all add: allowRequest_after_def Let_def)

lemma shared_success: "shared_ok mt mc t cb \<Longrightarrow> shared_ok mt mc t (onSuccess now cb)"
  by (cases "cb_state cb") (auto simp: shared_ok_def cb_config_ok_def onSuccess_def Let_def)

lemma shared_failure:
  assumes "shared_ok mt mc t cb" "t \<le> n1" "n1 \<le> n2" "n2 \<le> n3"
  shows "shared_ok mt mc n3 (onFailure n1 n2 n3 cb)"
proof -
  let ?cb = "cb\<lparr>cb_failureTimestamps := cb_failureTimestamps cb @ [n1]\<rparr>"
  let ?ts = "cb_failureTimestamps (pruneExpiredFailures n2 ?cb)"
  have "shared_ok mt mc n3 cb" using assms by (auto intro: shared_later)
  moreover have le: "\<forall>x \<in> set (cb_failureTimestamps ?cb). x \<le> n3" and srt: "sorted (cb_failureTimestamps ?cb)"
    using assms by (auto simp: shared_ok_def sorted_append)
  have "\<forall>x \<in> set ?ts. x \<le> n3" "sorted ?ts" using le prune_subset prune_sorted [OF srt] by blast+
  ultimately show ?thesis by (cases "cb_state cb") (auto simp: shared_ok_def cb_config_ok_def onFailure_def Let_def)
qed

lemma shared_reset: "shared_ok mt mc t cb \<Longrightarrow> shared_ok mt mc t (cb_reset t cb)" "shared_ok mt mc t cb \<Longrightarrow> shared_ok mt mc t (forceOpen t cb)"
    "shared_ok mt mc t cb \<Longrightarrow> shared_ok mt mc t (setStateChangeCallback p cb)"
  by (auto simp: shared_ok_def cb_config_ok_def cb_reset_def forceOpen_def setStateChangeCallback_def)

lemma shared_configured:
  assumes "bs_inv s" "cb_config_ok c"
  shows "bs_inv (bs_configured ((bs_cb s)\<lparr>cb_config := c\<rparr>) s)"
  using assms by (auto simp: bs_inv_def shared_ok_def bs_configured_def)

lemma bs_step_inv: "bs_step s s' \<Longrightarrow> bs_inv s \<Longrightarrow> bs_inv s'"
proof (induction rule: bs_step.induct)
  case (bs_threshold s n)
  then show ?case unfolding setFailureThreshold_def by (intro shared_configured) (auto simp: bs_inv_def shared_ok_def cb_config_ok_def)
next
  case (bs_calls s n)
  then show ?case unfolding setHalfOpenMaxCalls_def by (intro shared_configured) (auto simp: bs_inv_def shared_ok_def cb_config_ok_def)
next
  case (bs_timeout s n)
  then show ?case unfolding setResetTimeout_def by (intro shared_configured) (auto simp: bs_inv_def shared_ok_def cb_config_ok_def)
next
  case (bs_window s n)
  then show ?case unfolding setWindowDuration_def by (intro shared_configured) (auto simp: bs_inv_def shared_ok_def cb_config_ok_def)
qed (simp_all add: bs_inv_def shared_later shared_allow shared_success shared_failure shared_reset)

interpretation shared_breaker: inductive_invariant "\<lambda>s. cb_config_ok config \<and> bs_init name config s" bs_step bs_inv for name config
proof unfold_locales
  show "bs_inv s" if "cb_config_ok config \<and> bs_init name config s" for s
    using that by (simp add: bs_init_def bs_inv_def shared_ok_def mk_CircuitBreaker_def cb_config_ok_def)
qed (rule bs_step_inv [rotated])


text \<open>A breaker forced open and probed after the reset timeout, by a thread that loaded the state before.\<close>

definition example_sys :: breaker_sys where
  "example_sys = \<lparr>bs_cb = example_breaker, bs_clock = 30000000000, bs_loaded = [], bs_maxThreshold = 5, bs_maxCalls = 3\<rparr>"

lemma example_sys_reachable: "reach (bs_init ''db'' default_cb_config) bs_step example_sys"
proof -
  let ?cb = "mk_CircuitBreaker ''db'' default_cb_config"
  let ?s = "\<lparr>bs_cb = ?cb, bs_clock = 0, bs_loaded = [], bs_maxThreshold = 5, bs_maxCalls = 3\<rparr>"
  have o: "cb_state (forceOpen 0 ?cb) = Open" by (simp add: forceOpen_def)
  have "reach (bs_init ''db'' default_cb_config) bs_step ?s" by (rule reach_init) (simp add: bs_init_def default_cb_config_def)
  from reach_step [OF this bs_force] have "reach (bs_init ''db'' default_cb_config) bs_step (?s\<lparr>bs_cb := forceOpen 0 ?cb\<rparr>)" by simp
  from reach_step [OF this bs_load] o have "reach (bs_init ''db'' default_cb_config) bs_step (?s\<lparr>bs_cb := forceOpen 0 ?cb, bs_loaded := [Open]\<rparr>)" by simp
  from reach_step [OF this bs_tick [of _ 30000000000]] have "reach (bs_init ''db'' default_cb_config) bs_step (?s\<lparr>bs_cb := forceOpen 0 ?cb, bs_loaded := [Open], bs_clock := 30000000000\<rparr>)" by simp
  from reach_step [OF this bs_allow [of Open _ 30000000000]] o show ?thesis by (simp add: example_sys_def example_breaker_def allowRequest_def)
qed


text \<open>Lowering the threshold does not open a closed breaker that is above it already.\<close>

theorem lowered_threshold_keeps_closed:
  "cb_state (setFailureThreshold 1 (onFailure 0 0 0 (mk_CircuitBreaker ''db'' default_cb_config))) = Closed
   \<and> cb_failureCount (setFailureThreshold 1 (onFailure 0 0 0 (mk_CircuitBreaker ''db'' default_cb_config))) = 1"
  by code_simp

text \<open>C6 (functional): a failure reported to a closed breaker opens it exactly when the failures that
  lie inside the sliding window, the new one included, reach the threshold; otherwise the breaker
  stays closed and keeps just those failures.\<close>

theorem cb_trips_iff_window_full:
  assumes "cb_inv name config (cb, n1)" and "cb_state cb = Closed" and "n1 \<le> n2"
  defines "window \<equiv> filter (\<lambda>x. ms_cast (n2 - x) < windowDurationMs config) (cb_failureTimestamps cb @ [n1])"
  shows "cb_state (onFailure n1 n2 n3 cb)
      = (if failureThreshold config \<le> int (length window) then Open else Closed)
    \<and> cb_failureTimestamps (onFailure n1 n2 n3 cb) = window"
proof -
  let ?cb = "cb\<lparr>cb_failureTimestamps := cb_failureTimestamps cb @ [n1]\<rparr>"
  have "sorted (cb_failureTimestamps ?cb)" using assms(1) by (auto simp: cb_inv_def sorted_append)
  from prune_keeps_window [OF this, of n2]
  have "cb_failureTimestamps (pruneExpiredFailures n2 ?cb) = window"
    using assms(1) by (simp add: window_def cb_inv_def)
  moreover have "cb_config cb = config" using assms(1) by (simp add: cb_inv_def)
  ultimately show ?thesis using assms(2) by (simp add: onFailure_def Let_def)
qed

theorem cb_trips_iff_window_full_witness:
  "cb_state (onFailure 5 6 7 (mk_CircuitBreaker ''db'' (default_cb_config\<lparr>failureThreshold := 1\<rparr>))) = Open"
proof -
  let ?c = "default_cb_config\<lparr>failureThreshold := 1\<rparr>"
  have "cb_inv ''db'' ?c (mk_CircuitBreaker ''db'' ?c, 5)"
    by (simp add: cb_inv_def mk_CircuitBreaker_def default_cb_config_def)
  from cb_trips_iff_window_full [OF this, of 6 7]
  show ?thesis by (simp add: mk_CircuitBreaker_def default_cb_config_def ms_cast_def)
qed

text \<open>Once a failure has tripped the breaker at clock reading \<open>n3\<close>, every request is
  rejected without any effect until \<open>resetTimeoutMs\<close> has passed, and the first request from then
  on is admitted as the single outstanding probe of the half-open state.\<close>

theorem cb_open_gate:
  assumes "cb_config_ok (cb_config cb)" and "cb_state cb = Closed"
    and "cb_state (onFailure n1 n2 n3 cb) = Open" and "allowRequest now (onFailure n1 n2 n3 cb) = (b, cb')"
  shows "(b \<longleftrightarrow> n3 + resetTimeoutMs (cb_config cb) * 1000000 \<le> now)
    \<and> (\<not> b \<longrightarrow> cb' = onFailure n1 n2 n3 cb)
    \<and> (b \<longrightarrow> cb_state cb' = HalfOpen \<and> cb_halfOpenCalls cb' = 1)"
proof -
  let ?cb = "onFailure n1 n2 n3 cb"
  have "cb_openedAt ?cb = n3" "cb_config ?cb = cb_config cb"
    using assms(2,3) by (auto simp: onFailure_def Let_def split: if_splits)
  moreover have "resetTimeoutMs (cb_config cb) \<le> ms_cast (now - n3)
      \<longleftrightarrow> n3 + resetTimeoutMs (cb_config cb) * 1000000 \<le> now"
    using assms(1) by (subst ms_cast_ge_iff) (auto simp: cb_config_ok_def)
  ultimately show ?thesis
    using assms(3,4) by (auto simp: allowRequest_def allowRequest_after_def Let_def split: if_splits)
qed

theorem cb_open_gate_witness:
  "\<not> fst (allowRequest 29999999999
       (onFailure 0 0 0 (mk_CircuitBreaker ''db'' (default_cb_config\<lparr>failureThreshold := 1\<rparr>))))
   \<and> fst (allowRequest 30000000000
       (onFailure 0 0 0 (mk_CircuitBreaker ''db'' (default_cb_config\<lparr>failureThreshold := 1\<rparr>))))"
proof -
  let ?cb = "mk_CircuitBreaker ''db'' (default_cb_config\<lparr>failureThreshold := 1\<rparr>)"
  have "cb_config_ok (cb_config ?cb)" "cb_state ?cb = Closed" "cb_state (onFailure 0 0 0 ?cb) = Open"
    "resetTimeoutMs (cb_config ?cb) = 30000"
    by (simp_all add: cb_config_ok_def mk_CircuitBreaker_def default_cb_config_def onFailure_def
        pruneExpiredFailures_def Let_def ms_cast_def)
  then show ?thesis
    using cb_open_gate [of ?cb 0 0 0 29999999999, OF _ _ _ surjective_pairing]
      cb_open_gate [of ?cb 0 0 0 30000000000, OF _ _ _ surjective_pairing] by simp
qed

text \<open>Of any number of requests made one after the other to an open breaker whose reset
  timeout has passed, with no outcome reported in between, exactly
  \<open>min (number of requests) halfOpenMaxCalls\<close> are admitted.\<close>

theorem cb_probe_budget:
  assumes "cb_config_ok (cb_config cb)" and "cb_state cb = Open"
    and "resetTimeoutMs (cb_config cb) \<le> ms_cast (now - cb_openedAt cb)"
  shows "admitted (fst (allow_many (now # nows) cb))
    = min (Suc (length nows)) (nat (halfOpenMaxCalls (cb_config cb)))"
proof -
  obtain cb1 where cb1: "allowRequest now cb = (True, cb1)" "cb_state cb1 = HalfOpen"
      "cb_halfOpenCalls cb1 = 1" "cb_config cb1 = cb_config cb"
    using assms by (simp add: allowRequest_def allowRequest_after_def Let_def)
  have pos: "0 < halfOpenMaxCalls (cb_config cb)" using assms(1) by (simp add: cb_config_ok_def)
  then have "admitted (fst (allow_many nows cb1))
      = min (length nows) (nat (halfOpenMaxCalls (cb_config cb) - 1))"
    using allow_many_half_open [of cb1 nows] cb1 by simp
  moreover have "nat (halfOpenMaxCalls (cb_config cb)) = Suc (nat (halfOpenMaxCalls (cb_config cb) - 1))"
    using pos by simp
  ultimately show ?thesis
    using cb1(1) by (simp add: admitted_def split_beta)
qed

theorem cb_probe_budget_witness:
  "admitted (fst (allow_many [30000000000, 30000000001, 30000000002, 30000000003, 30000000004]
     (forceOpen 0 (mk_CircuitBreaker ''db'' default_cb_config)))) = 3"
proof -
  let ?cb = "forceOpen 0 (mk_CircuitBreaker ''db'' default_cb_config)"
  have "cb_config_ok (cb_config ?cb)" "cb_state ?cb = Open"
    "resetTimeoutMs (cb_config ?cb) \<le> ms_cast (30000000000 - cb_openedAt ?cb)"
    "halfOpenMaxCalls (cb_config ?cb) = 3"
    by (simp_all add: cb_config_ok_def forceOpen_def mk_CircuitBreaker_def default_cb_config_def
        ms_cast_def)
  then show ?thesis
    using cb_probe_budget [of ?cb 30000000000 "[30000000001, 30000000002, 30000000003, 30000000004]"]
    by simp
qed

text \<open>An open breaker whose reset timeout has passed closes again after one admitted
  request and one reported success, with an empty failure history, whatever \<open>halfOpenMaxCalls\<close> is.
  (The header of the class asks for \<open>halfOpenMaxCalls\<close> successful probes.)\<close>

theorem cb_one_success_recovers:
  assumes "cb_state cb = Open" and "resetTimeoutMs (cb_config cb) \<le> ms_cast (now - cb_openedAt cb)"
    and "allowRequest now cb = (b, cb')"
  shows "b \<and> cb_state (onSuccess now' cb') = Closed \<and> cb_failureTimestamps (onSuccess now' cb') = []
    \<and> cb_failureCount (onSuccess now' cb') = 0 \<and> fst (allowRequest now'' (onSuccess now' cb'))"
  using assms by (auto simp: allowRequest_def allowRequest_after_def onSuccess_def Let_def split: if_splits)

theorem cb_one_success_recovers_witness:
  "1 < halfOpenMaxCalls (cb_config example_breaker) \<and> cb_state (onSuccess 30000000001 example_breaker) = Closed"
proof -
  let ?cb = "forceOpen 0 (mk_CircuitBreaker ''db'' default_cb_config)"
  have "cb_state ?cb = Open" "resetTimeoutMs (cb_config ?cb) \<le> ms_cast (30000000000 - cb_openedAt ?cb)"
    by (simp_all add: forceOpen_def mk_CircuitBreaker_def default_cb_config_def ms_cast_def)
  from cb_one_success_recovers [OF this surjective_pairing, of 30000000001]
  have "cb_state (onSuccess 30000000001 example_breaker) = Closed"
    by (simp add: example_breaker_def)
  moreover have "1 < halfOpenMaxCalls (cb_config example_breaker)" by code_simp
  ultimately show ?thesis by simp
qed

text \<open>The state is loaded before the mutex is taken, so two threads that both load
  \<open>Open\<close> are both admitted once the reset timeout has passed, one after the other under the mutex,
  and the probe counter ends at 1: with \<open>halfOpenMaxCalls = 1\<close> the probe budget is exceeded.\<close>

theorem cb_open_race_admits_two:
  assumes "cb_state cb = Open" and "resetTimeoutMs (cb_config cb) \<le> ms_cast (now1 - cb_openedAt cb)"
    and "now1 \<le> now2"
    and "allowRequest_after Open now1 cb = (b1, cb1)" and "allowRequest_after Open now2 cb1 = (b2, cb2)"
  shows "b1 \<and> b2 \<and> cb_state cb2 = HalfOpen \<and> cb_halfOpenCalls cb2 = 1"
proof -
  have "ms_cast (now1 - cb_openedAt cb) \<le> ms_cast (now2 - cb_openedAt cb)"
    using assms(3) by (intro ms_cast_mono) simp
  with assms show ?thesis
    by (auto simp: allowRequest_after_def Let_def split: if_splits)
qed

theorem cb_open_race_admits_two_witness:
  "let cb = forceOpen 0 (mk_CircuitBreaker ''db'' (default_cb_config\<lparr>halfOpenMaxCalls := 1\<rparr>));
       cb1 = snd (allowRequest_after Open 30000000000 cb)
   in cb_state cb = Open \<and> fst (allowRequest_after Open 30000000000 cb)
      \<and> fst (allowRequest_after Open 30000000001 cb1) \<and> \<not> fst (allowRequest 30000000001 cb1)"
proof -
  let ?cb = "forceOpen 0 (mk_CircuitBreaker ''db'' (default_cb_config\<lparr>halfOpenMaxCalls := 1\<rparr>))"
  have pre: "cb_state ?cb = Open" "resetTimeoutMs (cb_config ?cb) \<le> ms_cast (30000000000 - cb_openedAt ?cb)"
    by (simp_all add: forceOpen_def mk_CircuitBreaker_def default_cb_config_def ms_cast_def)
  have "\<not> fst (allowRequest 30000000001 (snd (allowRequest_after Open 30000000000 ?cb)))"
    by code_simp
  then show ?thesis
    using cb_open_race_admits_two [OF pre _ surjective_pairing surjective_pairing, of 30000000001] pre
    by (simp add: Let_def)
qed

end
