(* ===== verification/SK_TopoSort.thy ===== *)
theory SK_TopoSort
  imports SK_Prelude "HOL-Library.Multiset"
begin

text \<open>
  The module record of \<^verbatim>\<open>include/soul/core/module.h\<close> and the sort
  \<^verbatim>\<open>topoSortWithPriority\<close> of \<^verbatim>\<open>src/soul/core/scaffold.cpp\<close>: the adjacency lists and
  in-degrees are built as the source builds them, and the selection loop picks, among the unvisited
  modules of in-degree 0, the one with the greatest priority, the earliest registered first.
  The lemmas show that the order lists every module once, dependencies first, that it exists exactly
  when every dependency is known and no module depends on itself through others, and that each pick
  is the best ready module.
\<close>

section \<open>Modules\<close>

text \<open>
  What the scaffold asks of a module. The outcomes of the two hooks that can fail are fields: the
  hooks are code of the module's author.
\<close>

text \<open>What a hook of a module does: it returns, or it throws an exception derived from \<^verbatim>\<open>std::exception\<close> or another one.\<close>

datatype thrown_kind = StdExn | OtherExn

datatype hook_outcome = Returned "unit result" | Throws thrown_kind

definition hook_ok :: "hook_outcome \<Rightarrow> bool" where
  "hook_ok h = (case h of Returned r \<Rightarrow> isOk r | Throws _ \<Rightarrow> False)"

definition hook_fails :: "hook_outcome \<Rightarrow> bool" where
  "hook_fails h = (case h of Returned r \<Rightarrow> \<not> isOk r | Throws _ \<Rightarrow> False)"

record module =
  mod_name :: string
  mod_dependsOn :: "string list"
  mod_priority :: int
  mod_isEnabled :: bool
  mod_init :: hook_outcome
  mod_onStart :: hook_outcome
  mod_onStop :: "thrown_kind option"
  mod_cleanup :: "thrown_kind option"

section \<open>The sort\<close>

text \<open>Later registrations overwrite earlier ones of the same name.\<close>

definition nameToIdx :: "module list \<Rightarrow> string \<rightharpoonup> nat" where
  "nameToIdx ms = map_of (rev (zip (map mod_name ms) [0..<length ms]))"

text \<open>The inner loop over the dependencies of module \<open>i\<close>; \<open>None\<close> is the return on an unknown name.\<close>

fun add_deps :: "(string \<rightharpoonup> nat) \<Rightarrow> nat \<Rightarrow> string list \<Rightarrow> nat list list \<times> nat list
    \<Rightarrow> (nat list list \<times> nat list) option" where
  "add_deps idx i [] st = Some st"
| "add_deps idx i (dep # deps) (graph, indegree) =
     (case idx dep of
        None \<Rightarrow> None
      | Some d \<Rightarrow> add_deps idx i deps (graph[d := graph ! d @ [i]], indegree[i := Suc (indegree ! i)]))"

fun build_graph :: "(string \<rightharpoonup> nat) \<Rightarrow> nat \<Rightarrow> module list \<Rightarrow> nat list list \<times> nat list
    \<Rightarrow> (nat list list \<times> nat list) option" where
  "build_graph idx i [] st = Some st"
| "build_graph idx i (m # ms) st =
     (case add_deps idx i (mod_dependsOn m) st of
        None \<Rightarrow> None
      | Some st' \<Rightarrow> build_graph idx (Suc i) ms st')"

definition pick_better :: "module list \<Rightarrow> bool list \<Rightarrow> nat list \<Rightarrow> nat option \<Rightarrow> nat \<Rightarrow> nat option" where
  "pick_better ms visited indegree best i =
     (if \<not> visited ! i \<and> indegree ! i = 0 then
        case best of
          None \<Rightarrow> Some i
        | Some j \<Rightarrow> if mod_priority (ms ! i) > mod_priority (ms ! j) then Some i else best
      else best)"

definition pick_best :: "module list \<Rightarrow> bool list \<Rightarrow> nat list \<Rightarrow> nat option" where
  "pick_best ms visited indegree = foldl (pick_better ms visited indegree) None [0..<length ms]"

definition dec_all :: "nat list \<Rightarrow> nat list \<Rightarrow> nat list" where
  "dec_all nexts indegree =
     foldl (\<lambda>deg nx. if deg ! nx > 0 then deg[nx := deg ! nx - 1] else deg) indegree nexts"

function topo_loop :: "module list \<Rightarrow> nat list list \<Rightarrow> bool list \<Rightarrow> nat list \<Rightarrow> nat list \<Rightarrow> nat list option" where
  "topo_loop ms graph visited indegree res =
     (if length res < length ms then
        case pick_best ms visited indegree of
          None \<Rightarrow> None
        | Some b \<Rightarrow> topo_loop ms graph (visited[b := True]) (dec_all (graph ! b) indegree) (res @ [b])
      else Some res)"
  by pat_completeness auto
termination
  by (relation "measure (\<lambda>(ms, graph, visited, indegree, res). length ms - length res)") auto

declare topo_loop.simps [simp del]

text \<open>The order as positions in the module list; \<open>None\<close> on an unknown dependency or a cycle.\<close>

definition topo_order :: "module list \<Rightarrow> nat list option" where
  "topo_order ms =
     (case build_graph (nameToIdx ms) 0 ms (replicate (length ms) [], replicate (length ms) 0) of
        None \<Rightarrow> None
      | Some (graph, indegree) \<Rightarrow> topo_loop ms graph (replicate (length ms) False) indegree [])"

definition topoSortWithPriority :: "module list \<Rightarrow> module list" where
  "topoSortWithPriority ms =
     (case topo_order ms of None \<Rightarrow> [] | Some is \<Rightarrow> map (\<lambda>i. ms ! i) is)"

section \<open>Specification\<close>

text \<open>\<open>dep_idx ms i\<close> lists the positions module \<open>i\<close> depends on; \<open>dep_rel\<close> is the edge relation.\<close>

definition deps_known :: "module list \<Rightarrow> bool" where
  "deps_known ms \<longleftrightarrow> (\<forall>m \<in> set ms. \<forall>d \<in> set (mod_dependsOn m). nameToIdx ms d \<noteq> None)"

definition dep_idx :: "module list \<Rightarrow> nat \<Rightarrow> nat list" where
  "dep_idx ms i = map (\<lambda>d. the (nameToIdx ms d)) (mod_dependsOn (ms ! i))"

definition dep_rel :: "module list \<Rightarrow> (nat \<times> nat) set" where
  "dep_rel ms = {(d, i). i < length ms \<and> d \<in> set (dep_idx ms i)}"

definition deps_first :: "module list \<Rightarrow> nat list \<Rightarrow> bool" where
  "deps_first ms is \<longleftrightarrow> (\<forall>k < length is. set (dep_idx ms (is ! k)) \<subseteq> set (take k is))"

text \<open>The module at position \<open>b\<close> is ready, and no ready module beats it.\<close>

definition ready :: "module list \<Rightarrow> nat list \<Rightarrow> nat \<Rightarrow> bool" where
  "ready ms done i \<longleftrightarrow> i < length ms \<and> i \<notin> set done \<and> set (dep_idx ms i) \<subseteq> set done"

definition best_ready :: "module list \<Rightarrow> nat list \<Rightarrow> nat \<Rightarrow> bool" where
  "best_ready ms done b \<longleftrightarrow> ready ms done b \<and> (\<forall>i. ready ms done i \<longrightarrow>
     mod_priority (ms ! i) < mod_priority (ms ! b) \<or>
     mod_priority (ms ! i) = mod_priority (ms ! b) \<and> b \<le> i)"

section \<open>Building the graph\<close>

lemma nameToIdx_bound: "nameToIdx ms d = Some j \<Longrightarrow> j < length ms \<and> mod_name (ms ! j) = d"
  unfolding nameToIdx_def
  by (drule map_of_SomeD) (auto simp: set_zip)

lemma dec_all_length [simp]: "length (dec_all ns deg) = length deg"
  unfolding dec_all_def by (induction ns arbitrary: deg) auto

lemma dec_all_nth: "i < length deg \<Longrightarrow> dec_all ns deg ! i = deg ! i - count_list ns i"
proof (induction ns arbitrary: deg)
  case Nil
  then show ?case by (simp add: dec_all_def)
next
  case (Cons n ns)
  let ?deg = "if deg ! n > 0 then deg[n := deg ! n - 1] else deg"
  have "dec_all (n # ns) deg = dec_all ns ?deg" by (simp add: dec_all_def)
  moreover have "i < length ?deg" using Cons.prems by simp
  ultimately show ?case using Cons.IH [of ?deg] Cons.prems by (auto simp: nth_list_update)
qed

text \<open>What the graph under construction says after the first \<open>k\<close> modules and \<open>ds\<close> of the next.\<close>

lemma add_deps_Some:
  assumes "add_deps idx i deps (g, deg) = Some (g', deg')" and "i < length deg" and "length g = length deg"
    and "\<And>d j. idx d = Some j \<Longrightarrow> j < length g"
  shows "length g' = length g \<and> length deg' = length deg
    \<and> (\<forall>d \<in> set deps. idx d \<noteq> None)
    \<and> (\<forall>j < length g. \<forall>k. count_list (g' ! j) k = count_list (g ! j) k
         + (if k = i then count_list (map (\<lambda>d. the (idx d)) deps) j else 0))
    \<and> (\<forall>k < length deg. deg' ! k = deg ! k + (if k = i then length deps else 0))"
  using assms
proof (induction idx i deps "(g, deg)" arbitrary: g deg rule: add_deps.induct)
  case (1 idx i)
  then show ?case by simp
next
  case (2 idx i dep deps g deg)
  from 2(2) obtain d where d: "idx dep = Some d" by (auto split: option.splits)
  let ?g = "g[d := g ! d @ [i]]" and ?deg = "deg[i := Suc (deg ! i)]"
  have "add_deps idx i deps (?g, ?deg) = Some (g', deg')" using 2(2) d by simp
  from 2(1) [OF d this] 2(3-5) d 2(5) [OF d]
  show ?case by (auto simp: nth_list_update)
qed

lemma add_deps_None_iff: "add_deps idx i deps st = None \<longleftrightarrow> (\<exists>d \<in> set deps. idx d = None)"
  by (induction idx i deps st rule: add_deps.induct) (auto split: option.splits)

lemma build_graph_None_iff:
  "build_graph idx i ms st = None \<longleftrightarrow> (\<exists>m \<in> set ms. \<exists>d \<in> set (mod_dependsOn m). idx d = None)"
proof (induction idx i ms st rule: build_graph.induct)
  case (2 idx i m ms st)
  then show ?case
    by (cases "add_deps idx i (mod_dependsOn m) st")
       (auto simp: add_deps_None_iff [of idx i "mod_dependsOn m" st, symmetric])
qed simp

lemma build_graph_Some_iff:
  "(\<exists>g deg. build_graph idx i ms st = Some (g, deg)) \<longleftrightarrow>
     (\<forall>m \<in> set ms. \<forall>d \<in> set (mod_dependsOn m). idx d \<noteq> None)"
  using build_graph_None_iff [of idx i ms st] by (cases "build_graph idx i ms st") auto

lemma build_graph_Some:
  assumes "build_graph idx i ms (g, deg) = Some (g', deg')" and "i + length ms \<le> length deg"
    and "length g = length deg" and "\<And>d j. idx d = Some j \<Longrightarrow> j < length g"
  shows "length g' = length g \<and> length deg' = length deg
    \<and> (\<forall>j < length g. \<forall>k. count_list (g' ! j) k = count_list (g ! j) k
         + (if i \<le> k \<and> k < i + length ms
            then count_list (map (\<lambda>d. the (idx d)) (mod_dependsOn (ms ! (k - i)))) j else 0))
    \<and> (\<forall>k < length deg. deg' ! k = deg ! k
         + (if i \<le> k \<and> k < i + length ms then length (mod_dependsOn (ms ! (k - i))) else 0))"
  using assms
proof (induction idx i ms "(g, deg)" arbitrary: g deg rule: build_graph.induct)
  case (1 idx i)
  then show ?case by auto
next
  case (2 idx i m ms g deg)
  from 2(2) obtain g1 deg1 where a: "add_deps idx i (mod_dependsOn m) (g, deg) = Some (g1, deg1)"
    by (auto split: option.splits)
  have b: "build_graph idx (Suc i) ms (g1, deg1) = Some (g', deg')" using 2(2) a by simp
  have A: "length g1 = length g \<and> length deg1 = length deg
    \<and> (\<forall>j < length g. \<forall>k. count_list (g1 ! j) k = count_list (g ! j) k
         + (if k = i then count_list (map (\<lambda>d. the (idx d)) (mod_dependsOn m)) j else 0))
    \<and> (\<forall>k < length deg. deg1 ! k = deg ! k + (if k = i then length (mod_dependsOn m) else 0))"
    using add_deps_Some [OF a] 2(3-5) by simp
  from 2(1) [OF a b] A 2(3-5)
  have B: "length g' = length g1 \<and> length deg' = length deg1
    \<and> (\<forall>j < length g1. \<forall>k. count_list (g' ! j) k = count_list (g1 ! j) k
         + (if Suc i \<le> k \<and> k < Suc i + length ms
            then count_list (map (\<lambda>d. the (idx d)) (mod_dependsOn (ms ! (k - Suc i)))) j else 0))
    \<and> (\<forall>k < length deg1. deg' ! k = deg1 ! k
         + (if Suc i \<le> k \<and> k < Suc i + length ms then length (mod_dependsOn (ms ! (k - Suc i))) else 0))"
    by simp
  have N: "(m # ms) ! (k - i) = (if k = i then m else ms ! (k - Suc i))" if "i \<le> k" for k
    using that by (auto simp: nth_Cons' )
  from A B N show ?case by auto
qed

section \<open>Picking a module\<close>

lemma pick_better_foldl:
  fixes ms visited indegree
  defines "cand \<equiv> \<lambda>i. \<not> visited ! i \<and> indegree ! i = 0"
  shows "case foldl (pick_better ms visited indegree) None [0..<m] of
      None \<Rightarrow> \<forall>i < m. \<not> cand i
    | Some b \<Rightarrow> b < m \<and> cand b \<and> (\<forall>i < m. cand i \<longrightarrow>
        mod_priority (ms ! i) < mod_priority (ms ! b) \<or>
        mod_priority (ms ! i) = mod_priority (ms ! b) \<and> b \<le> i)"
proof (induction m)
  case 0
  then show ?case by simp
next
  case (Suc m)
  let ?acc = "foldl (pick_better ms visited indegree) None [0..<m]"
  show ?case
  proof (cases ?acc)
    case None
    with Suc show ?thesis
      by (auto simp: pick_better_def [of ms visited indegree None m] cand_def less_Suc_eq)
  next
    case (Some b)
    with Suc show ?thesis
      by (auto simp: pick_better_def [of ms visited indegree "Some b" m] cand_def less_Suc_eq; force)
  qed
qed

section \<open>The loop\<close>

definition topo_inv :: "module list \<Rightarrow> nat list list \<Rightarrow> bool list \<Rightarrow> nat list \<Rightarrow> nat list \<Rightarrow> bool" where
  "topo_inv ms graph visited indegree res \<longleftrightarrow>
     length visited = length ms \<and> length indegree = length ms
     \<and> distinct res \<and> set res \<subseteq> {..<length ms}
     \<and> (\<forall>i < length ms. visited ! i \<longleftrightarrow> i \<in> set res)
     \<and> (\<forall>i < length ms. indegree ! i = length (filter (\<lambda>d. d \<notin> set res) (dep_idx ms i)))
     \<and> (\<forall>j < length ms. \<forall>k < length ms. count_list (graph ! j) k = count_list (dep_idx ms k) j)
     \<and> (\<forall>k < length res. best_ready ms (take k res) (res ! k))"

lemma candidate_iff_ready:
  assumes "topo_inv ms graph visited indegree res" and "i < length ms"
  shows "\<not> visited ! i \<and> indegree ! i = 0 \<longleftrightarrow> ready ms res i"
proof -
  have "indegree ! i = 0 \<longleftrightarrow> set (dep_idx ms i) \<subseteq> set res"
    using assms by (auto simp: topo_inv_def filter_empty_conv)
  with assms show ?thesis by (auto simp: topo_inv_def ready_def)
qed

lemma pick_best_Some:
  assumes "topo_inv ms graph visited indegree res" and "pick_best ms visited indegree = Some b"
  shows "best_ready ms res b"
  using pick_better_foldl [where ms = ms and visited = visited and indegree = indegree and m = "length ms"] assms(2)
    candidate_iff_ready [OF assms(1)]
  by (auto simp: pick_best_def best_ready_def ready_def)

lemma pick_best_None:
  assumes "topo_inv ms graph visited indegree res" and "pick_best ms visited indegree = None"
  shows "\<not> ready ms res i"
  using pick_better_foldl [where ms = ms and visited = visited and indegree = indegree and m = "length ms"] assms(2)
    candidate_iff_ready [OF assms(1), of i]
  by (auto simp: pick_best_def ready_def)

lemma length_filter_drop:
  "length (filter (\<lambda>d. d \<noteq> b \<and> d \<notin> S) ds)
    = length (filter (\<lambda>d. d \<notin> S) ds) - (if b \<in> S then 0 else count_list ds b)"
proof (induction ds)
  case (Cons d ds)
  have "count_list ds b \<le> length (filter (\<lambda>d. d \<notin> S) ds)" if "b \<notin> S"
    using that by (induction ds) auto
  with Cons show ?case by auto
qed simp

lemma topo_inv_step:
  assumes inv: "topo_inv ms graph visited indegree res" and pick: "pick_best ms visited indegree = Some b"
  shows "topo_inv ms graph (visited[b := True]) (dec_all (graph ! b) indegree) (res @ [b])"
proof -
  have best: "best_ready ms res b" by (rule pick_best_Some [OF inv pick])
  then have b: "b < length ms" "b \<notin> set res" by (auto simp: best_ready_def ready_def)
  have "dec_all (graph ! b) indegree ! i = length (filter (\<lambda>d. d \<notin> set (res @ [b])) (dep_idx ms i))"
    if "i < length ms" for i
    using that inv b length_filter_drop [of b "set res" "dep_idx ms i"]
    by (simp add: topo_inv_def dec_all_nth)
  moreover have "best_ready ms (take k (res @ [b])) ((res @ [b]) ! k)" if "k < length (res @ [b])" for k
    using that inv best by (cases "k < length res") (auto simp: topo_inv_def nth_append less_Suc_eq)
  ultimately show ?thesis
    using inv b by (auto simp: topo_inv_def nth_list_update)
qed

lemma topo_loop_Some:
  assumes "topo_inv ms graph visited indegree res" and "topo_loop ms graph visited indegree res = Some is"
  shows "distinct is \<and> set is = {..<length ms} \<and> (\<forall>k < length is. best_ready ms (take k is) (is ! k))"
  using assms
proof (induction ms graph visited indegree res rule: topo_loop.induct)
  case (1 ms graph visited indegree res)
  show ?case
  proof (cases "length res < length ms")
    case True
    with 1(3) obtain b where b: "pick_best ms visited indegree = Some b"
      "topo_loop ms graph (visited[b := True]) (dec_all (graph ! b) indegree) (res @ [b]) = Some is"
      by (auto simp: topo_loop.simps [of ms graph visited indegree res] split: option.splits)
    from 1(1) [OF True b(1) topo_inv_step [OF 1(2) b(1)] b(2)] show ?thesis .
  next
    case False
    with 1(3) have "is = res" by (simp add: topo_loop.simps)
    moreover have "set res = {..<length ms}"
    proof (rule card_subset_eq)
      show "set res \<subseteq> {..<length ms}" using 1(2) by (simp add: topo_inv_def)
      then have "card (set res) \<le> length ms" using card_mono [of "{..<length ms}" "set res"] by simp
      then show "card (set res) = card {..<length ms}"
        using 1(2) False by (simp add: topo_inv_def distinct_card)
    qed simp
    ultimately show ?thesis using 1(2) by (simp add: topo_inv_def)
  qed
qed

lemma ready_exists:
  assumes "acyclic (dep_rel ms)" and "deps_known ms" and "length res < length ms"
    and "distinct res" and "set res \<subseteq> {..<length ms}"
  shows "\<exists>i. ready ms res i"
proof -
  have idx: "d < length ms" if "i < length ms" "d \<in> set (dep_idx ms i)" for d i
    using that assms(2) nameToIdx_bound [of ms] unfolding dep_idx_def deps_known_def
    by (auto dest!: nth_mem)
  have fin: "finite (dep_rel ms)"
    by (rule finite_subset [of _ "{..<length ms} \<times> {..<length ms}"]) (auto simp: dep_rel_def idx)
  have wf: "wf (dep_rel ms)" by (rule finite_acyclic_wf [OF fin assms(1)])
  have "card (set res) < card {..<length ms}" using assms(3,4) by (simp add: distinct_card)
  then obtain x where x: "x \<in> {..<length ms} - set res"
    using card_mono [of "set res" "{..<length ms}"] by fastforce
  obtain z where z: "z \<in> {..<length ms} - set res"
    "\<And>y. (y, z) \<in> dep_rel ms \<Longrightarrow> y \<notin> {..<length ms} - set res"
    using wfE_min [OF wf x] by metis
  have "set (dep_idx ms z) \<subseteq> set res"
  proof
    fix d assume d: "d \<in> set (dep_idx ms z)"
    with z(1) have "(d, z) \<in> dep_rel ms" and "d < length ms" by (auto simp: dep_rel_def idx)
    with z(2) show "d \<in> set res" by blast
  qed
  with z(1) show ?thesis by (auto simp: ready_def)
qed

lemma topo_loop_total:
  assumes "topo_inv ms graph visited indegree res" and "acyclic (dep_rel ms)" and "deps_known ms"
  shows "topo_loop ms graph visited indegree res \<noteq> None"
  using assms
proof (induction ms graph visited indegree res rule: topo_loop.induct)
  case (1 ms graph visited indegree res)
  show ?case
  proof (cases "length res < length ms")
    case True
    have "\<exists>i. ready ms res i"
      using True 1(2-4) by (intro ready_exists) (auto simp: topo_inv_def)
    then obtain b where b: "pick_best ms visited indegree = Some b"
      using pick_best_None [OF 1(2)] by (cases "pick_best ms visited indegree") auto
    show ?thesis
      using 1(1) [OF True b topo_inv_step [OF 1(2) b] 1(3,4)] True b
      by (simp add: topo_loop.simps [of ms graph visited indegree res])
  next
    case False
    then show ?thesis by (simp add: topo_loop.simps)
  qed
qed

lemma topo_inv_initial:
  assumes "build_graph (nameToIdx ms) 0 ms (replicate (length ms) [], replicate (length ms) 0)
    = Some (graph, indegree)"
  shows "topo_inv ms graph (replicate (length ms) False) indegree []"
proof -
  have "length graph = length ms \<and> length indegree = length ms
    \<and> (\<forall>j < length ms. \<forall>k. count_list (graph ! j) k
        = (if k < length ms then count_list (map (\<lambda>d. the (nameToIdx ms d)) (mod_dependsOn (ms ! k))) j else 0))
    \<and> (\<forall>k < length ms. indegree ! k = length (mod_dependsOn (ms ! k)))"
    using build_graph_Some [OF assms] nameToIdx_bound [of ms] by simp
  then show ?thesis by (simp add: topo_inv_def dep_idx_def)
qed

lemma topo_order_Some:
  assumes "topo_order ms = Some is"
  shows "deps_known ms \<and> distinct is \<and> set is = {..<length ms}
    \<and> (\<forall>k < length is. best_ready ms (take k is) (is ! k))"
proof -
  from assms obtain g deg where b: "build_graph (nameToIdx ms) 0 ms
      (replicate (length ms) [], replicate (length ms) 0) = Some (g, deg)"
    and l: "topo_loop ms g (replicate (length ms) False) deg [] = Some is"
    by (auto simp: topo_order_def split: option.splits)
  have "deps_known ms"
    using iffD1 [OF build_graph_Some_iff, OF exI, OF exI, OF b] by (simp add: deps_known_def)
  with topo_loop_Some [OF topo_inv_initial [OF b] l] show ?thesis by simp
qed

lemma greedy_deps_first:
  "(\<forall>k < length is. best_ready ms (take k is) (is ! k)) \<Longrightarrow> deps_first ms is"
  by (simp add: deps_first_def best_ready_def ready_def)

text \<open>An order with dependencies first ranks the modules, so the dependency relation has no cycle.\<close>

lemma deps_first_acyclic:
  assumes "deps_first ms is" and "distinct is" and "set is = {..<length ms}"
  shows "acyclic (dep_rel ms)"
proof -
  define pos where "pos i = (LEAST k. k < length is \<and> is ! k = i)" for i
  have pos: "pos (is ! k) = k" if "k < length is" for k
    unfolding pos_def using that assms(2) by (intro Least_equality) (auto simp: nth_eq_iff_index_eq)
  have "pos d < pos i" if "(d, i) \<in> dep_rel ms" for d i
  proof -
    from that have i: "i < length ms" "d \<in> set (dep_idx ms i)" by (auto simp: dep_rel_def)
    then obtain k where k: "k < length is" "is ! k = i"
      using assms(3) by (metis in_set_conv_nth lessThan_iff)
    with assms(1) i have "d \<in> set (take k is)" by (auto simp: deps_first_def)
    then obtain j where "j < k" "is ! j = d" using k by (auto simp: in_set_conv_nth)
    with pos [of j] pos [of k] k show ?thesis by auto
  qed
  then have "dep_rel ms \<subseteq> measure pos" by auto
  then show ?thesis by (meson wf_acyclic wf_measure wf_subset)
qed

section \<open>Properties\<close>

text \<open>C1 (termination): the sort succeeds exactly when every declared dependency names a module of the
  list and no module depends on itself through any chain of dependencies; in all other cases the
  result is the empty list.\<close>

theorem topo_order_exists_iff:
  "topo_order ms \<noteq> None \<longleftrightarrow> deps_known ms \<and> acyclic (dep_rel ms)"
proof
  assume "topo_order ms \<noteq> None"
  then obtain ord where "topo_order ms = Some ord" by auto
  from topo_order_Some [OF this] show "deps_known ms \<and> acyclic (dep_rel ms)"
    by (blast intro: deps_first_acyclic greedy_deps_first)
next
  assume ok: "deps_known ms \<and> acyclic (dep_rel ms)"
  then obtain g deg where b: "build_graph (nameToIdx ms) 0 ms
      (replicate (length ms) [], replicate (length ms) 0) = Some (g, deg)"
    using build_graph_Some_iff [of "nameToIdx ms" 0 ms] unfolding deps_known_def by fastforce
  with topo_loop_total [OF topo_inv_initial [OF b]] ok show "topo_order ms \<noteq> None"
    by (simp add: topo_order_def)
qed

text \<open>C2 (functional): a successful sort is a permutation of the modules in which every module comes
  after all modules it depends on.\<close>

theorem topo_sort_sound:
  assumes "topo_order ms = Some is"
  shows "mset (topoSortWithPriority ms) = mset ms \<and> deps_first ms is
    \<and> topoSortWithPriority ms = map ((!) ms) is"
proof -
  note S = topo_order_Some [OF assms]
  have "set is = set [0..<length ms]" using S by (simp add: atLeast0LessThan)
  then have "mset is = mset [0..<length ms]"
    using S set_eq_iff_mset_eq_distinct [of "is" "[0..<length ms]"] by simp
  then have "mset (map ((!) ms) is) = mset (map ((!) ms) [0..<length ms])"
    by (metis mset_map)
  moreover have "topoSortWithPriority ms = map ((!) ms) is"
    using assms by (simp add: topoSortWithPriority_def)
  moreover have "deps_first ms is" using S by (blast intro: greedy_deps_first)
  ultimately show ?thesis by (simp only: map_nth)
qed

text \<open>Three modules: \<open>web\<close> needs \<open>db\<close>, \<open>db\<close> needs \<open>log\<close>, and \<open>web\<close> has the greatest priority.\<close>

definition example_modules :: "module list" where
  "example_modules =
    [\<lparr>mod_name = ''web'', mod_dependsOn = [''db''], mod_priority = 9, mod_isEnabled = True,
       mod_init = Returned (Ok ()), mod_onStart = Returned (Ok ()), mod_onStop = None, mod_cleanup = None\<rparr>,
     \<lparr>mod_name = ''db'', mod_dependsOn = [''log''], mod_priority = 0, mod_isEnabled = True,
       mod_init = Returned (Ok ()), mod_onStart = Returned (Ok ()), mod_onStop = None, mod_cleanup = None\<rparr>,
     \<lparr>mod_name = ''log'', mod_dependsOn = [], mod_priority = 0, mod_isEnabled = True,
       mod_init = Returned (Ok ()), mod_onStart = Returned (Ok ()), mod_onStop = None, mod_cleanup = None\<rparr>]"

lemma example_order: "topo_order example_modules = Some [2, 1, 0]"
  by code_simp

theorem topo_sort_sound_witness:
  "map mod_name (topoSortWithPriority example_modules) = [''log'', ''db'', ''web'']
   \<and> deps_first example_modules [2, 1, 0]"
  using topo_sort_sound [OF example_order] by (simp add: example_modules_def)

text \<open>The order is the greedy one: each next module is ready (all it depends on come
  before it), and no other module ready at that point has a greater priority, or the same
  priority and an earlier registration.\<close>

theorem topo_sort_greedy:
  assumes "topo_order ms = Some is" and "k < length is"
  shows "best_ready ms (take k is) (is ! k)"
  using topo_order_Some [OF assms(1)] assms(2) by blast

theorem topo_sort_greedy_witness: "best_ready example_modules [] 2"
  using topo_sort_greedy [OF example_order, of 0] by simp

end
