(* ===== verification/SK_OrderedMap.thy ===== *)
theory SK_OrderedMap
  imports SK_Prelude "HOL-Library.List_Lexorder" "HOL-Library.Char_ord"
begin

text \<open>
  The \<^verbatim>\<open>std::map\<close> with string keys that several components keep: an association list in ascending key order, which is its iteration order.
\<close>

fun omap_put :: "string \<Rightarrow> 'v \<Rightarrow> (string \<times> 'v) list \<Rightarrow> (string \<times> 'v) list" where
  "omap_put name x [] = [(name, x)]"
| "omap_put name x ((k, y) # m) =
     (if name < k then (name, x) # (k, y) # m
      else if name = k then (name, x) # m
      else (k, y) # omap_put name x m)"

definition omap_del :: "string \<Rightarrow> (string \<times> 'v) list \<Rightarrow> (string \<times> 'v) list" where
  "omap_del name m = filter (\<lambda>(k, y). k \<noteq> name) m"

definition omap_inv :: "(string \<times> 'v) list \<Rightarrow> bool" where
  "omap_inv m \<longleftrightarrow> sorted (map fst m) \<and> distinct (map fst m)"

lemma set_omap_put: "set (map fst (omap_put name x m)) = insert name (set (map fst m))"
  by (induction name x m rule: omap_put.induct) auto

lemma omap_put_inv [sk_inv]: "omap_inv m \<Longrightarrow> omap_inv (omap_put name x m)"
proof (induction name x m rule: omap_put.induct)
  case (2 name x k y m)
  then show ?case
    using set_omap_put [of name x m]
    by (auto simp: omap_inv_def simp del: set_map)
qed (simp add: omap_inv_def)

lemma omap_put_lookup: "omap_inv m \<Longrightarrow> map_of (omap_put name x m) = (map_of m)(name \<mapsto> x)"
proof (induction name x m rule: omap_put.induct)
  case (2 name x k y m)
  then show ?case by (auto simp: omap_inv_def fun_eq_iff)
qed (simp add: fun_eq_iff)

lemma omap_del_inv [sk_inv]: "omap_inv m \<Longrightarrow> omap_inv (omap_del name m)"
  unfolding omap_inv_def omap_del_def
  by (induction m) (auto simp: split_def)

lemma omap_del_lookup: "map_of (omap_del name m) = (map_of m)(name := None)"
  unfolding omap_del_def by (induction m) (auto simp: fun_eq_iff)

lemma omap_empty_inv [sk_inv]: "omap_inv []"
  by (simp add: omap_inv_def)

text \<open>What a registry promises: a finite map in key order. The map above provides it.\<close>

locale ordered_registry =
  fixes invar :: "'r \<Rightarrow> bool"
    and put :: "string \<Rightarrow> 'v \<Rightarrow> 'r \<Rightarrow> 'r"
    and del :: "string \<Rightarrow> 'r \<Rightarrow> 'r"
    and entries :: "'r \<Rightarrow> (string \<times> 'v) list"
  assumes invar_put: "invar r \<Longrightarrow> invar (put k v r)"
    and invar_del: "invar r \<Longrightarrow> invar (del k r)"
    and entries_ordered: "invar r \<Longrightarrow> sorted (map fst (entries r)) \<and> distinct (map fst (entries r))"
    and lookup_put: "invar r \<Longrightarrow> map_of (entries (put k v r)) = (map_of (entries r))(k \<mapsto> v)"
    and lookup_del: "invar r \<Longrightarrow> map_of (entries (del k r)) = (map_of (entries r))(k := None)"
begin

text \<open>The order of registration does not matter: two registries with the same bindings scan alike.\<close>

lemma entries_unique:
  assumes "invar r" "invar r'" "map_of (entries r) = map_of (entries r')"
  shows "entries r = entries r'"
proof -
  have same: "set (entries r) = set (entries r')"
    using assms entries_ordered by (metis map_of_eqI map_of_inject_set)
  have "inj_on fst (set (entries r))"
    using entries_ordered [OF assms(1)] by (simp add: distinct_map)
  with same show ?thesis
    using entries_ordered [OF assms(1)] entries_ordered [OF assms(2)]
    by (intro map_sorted_distinct_set_unique [of fst]) auto
qed

lemma put_commute:
  assumes "invar r" "k \<noteq> k'"
  shows "entries (put k v (put k' v' r)) = entries (put k' v' (put k v r))"
  using assms by (intro entries_unique) (auto simp: invar_put lookup_put fun_upd_twist)

end

lemma omap_registry: "ordered_registry omap_inv omap_put omap_del (\<lambda>m. m)"
  by unfold_locales (simp_all add: omap_put_inv omap_del_inv omap_put_lookup omap_del_lookup, simp add: omap_inv_def)

end
