(* ===== verification/SK_Scaffold.thy ===== *)
theory SK_Scaffold
  imports SK_TopoSort SK_OrderedMap
begin

text \<open>
  The application entry points: \<^verbatim>\<open>ModuleRegistry\<close> (\<^verbatim>\<open>src/soul/core/module_registry.cpp\<close>),
  \<^verbatim>\<open>Application\<close> (\<^verbatim>\<open>application.cpp\<close>) and \<^verbatim>\<open>Scaffold\<close> (\<^verbatim>\<open>scaffold.cpp\<close>).

  Hooks of modules and callbacks are code of the user; the model records in which order they are
  called (\<open>sc_trace\<close>, \<open>app_trace\<close>) and takes their outcomes from the module record and from the
  lists of callbacks. Every hook may throw. \<open>run\<close> catches nothing that \<^verbatim>\<open>init\<close> and \<^verbatim>\<open>onStart\<close> throw; of what \<^verbatim>\<open>onStop\<close> and
  \<^verbatim>\<open>cleanup\<close> throw, only what derives from \<^verbatim>\<open>std::exception\<close> is caught and logged. The result of \<^verbatim>\<open>QCoreApplication::exec\<close> is an argument.
\<close>

section \<open>Module registry\<close>

text \<open>
  The \<^verbatim>\<open>std::map\<close> from names to factories is an association list in ascending key order, which
  is its iteration order. A factory is modelled by the module it makes (\<open>None\<close> for a null pointer).
\<close>

type_synonym registry = "(string \<times> module option) list"

definition registerModule :: "string \<Rightarrow> module option \<Rightarrow> registry \<Rightarrow> registry" where
  "registerModule name factory reg = omap_put name factory reg"

definition unregisterModule :: "string \<Rightarrow> registry \<Rightarrow> registry" where
  "unregisterModule name reg = omap_del name reg"

definition registry_clear :: "registry \<Rightarrow> registry" where
  "registry_clear reg = []"

interpretation module_registry: ordered_registry omap_inv registerModule unregisterModule "\<lambda>r. r"
  unfolding registerModule_def [abs_def] unregisterModule_def [abs_def] by (rule omap_registry)

section \<open>Application\<close>

datatype startup_outcome = Returns bool | ThrowsStd | ThrowsOther

datatype exec_outcome = Exits int | ExecThrowsStd | ExecThrowsOther

datatype app_event = StartupCb nat | Exec | ExceptionHandler | UnhandledHandler | ShutdownCb nat

record application =
  app_exitCode :: int
  app_startupCallbacks :: "startup_outcome list"
  app_shutdownCallbacks :: nat
  app_exceptionHandler :: bool
  app_unhandledHandler :: bool
  app_trace :: "app_event list"

definition mk_Application :: application where
  "mk_Application = \<lparr>app_exitCode = 0, app_startupCallbacks = [], app_shutdownCallbacks = 0,
     app_exceptionHandler = False, app_unhandledHandler = False, app_trace = []\<rparr>"

definition setExitCode :: "int \<Rightarrow> application \<Rightarrow> application" where
  "setExitCode code a = a\<lparr>app_exitCode := code\<rparr>"

definition addStartupCallback :: "startup_outcome \<Rightarrow> application \<Rightarrow> application" where
  "addStartupCallback cb a = a\<lparr>app_startupCallbacks := app_startupCallbacks a @ [cb]\<rparr>"

definition addShutdownCallback :: "application \<Rightarrow> application" where
  "addShutdownCallback a = a\<lparr>app_shutdownCallbacks := Suc (app_shutdownCallbacks a)\<rparr>"

text \<open>Callbacks run in order; the first that returns false or throws ends the loop.\<close>

fun executeStartupCallbacks :: "nat \<Rightarrow> startup_outcome list \<Rightarrow> startup_outcome \<times> app_event list" where
  "executeStartupCallbacks i [] = (Returns True, [])"
| "executeStartupCallbacks i (cb # cbs) =
     (case cb of
        Returns True \<Rightarrow> (case executeStartupCallbacks (Suc i) cbs of (r, tr) \<Rightarrow> (r, StartupCb i # tr))
      | _ \<Rightarrow> (cb, [StartupCb i]))"

definition executeShutdownCallbacks :: "application \<Rightarrow> application" where
  "executeShutdownCallbacks a =
     a\<lparr>app_trace := app_trace a @ map ShutdownCb [0..<app_shutdownCallbacks a]\<rparr>"

definition app_catch_std :: "application \<Rightarrow> int \<times> application" where
  "app_catch_std a =
     (- 1, if app_exceptionHandler a then a\<lparr>app_trace := app_trace a @ [ExceptionHandler]\<rparr> else a)"

definition app_catch_other :: "application \<Rightarrow> int \<times> application" where
  "app_catch_other a =
     (- 1, if app_unhandledHandler a then a\<lparr>app_trace := app_trace a @ [UnhandledHandler]\<rparr> else a)"

definition app_run :: "exec_outcome \<Rightarrow> application \<Rightarrow> int \<times> application" where
  "app_run exec a =
     (case executeStartupCallbacks 0 (app_startupCallbacks a) of (r, tr) \<Rightarrow>
        let a1 = a\<lparr>app_trace := app_trace a @ tr\<rparr> in
        case r of
          Returns True \<Rightarrow>
            let a2 = a1\<lparr>app_trace := app_trace a1 @ [Exec]\<rparr> in
            (case exec of
               Exits code \<Rightarrow> (code, a2\<lparr>app_exitCode := code\<rparr>)
             | ExecThrowsStd \<Rightarrow> app_catch_std a2
             | ExecThrowsOther \<Rightarrow> app_catch_other a2)
        | Returns False \<Rightarrow> (- 1, a1)
        | ThrowsStd \<Rightarrow> app_catch_std a1
        | ThrowsOther \<Rightarrow> app_catch_other a1)"

section \<open>Scaffold\<close>

datatype scaffold_state = Uninitialized | Running | Shutdown

datatype life_event = LInit module | LStart module | LStop module | LCleanup module

record scaffold =
  sc_app :: application
  sc_modules :: "module list"
  sc_ownedModules :: "module list"
  sc_sortedModules :: "module list"
  sc_initialized :: bool
  sc_state :: scaffold_state
  sc_trace :: "life_event list"

definition mk_Scaffold :: scaffold where
  "mk_Scaffold = \<lparr>sc_app = mk_Application, sc_modules = [], sc_ownedModules = [],
     sc_sortedModules = [], sc_initialized = False, sc_state = Uninitialized, sc_trace = []\<rparr>"

text \<open>\<^verbatim>\<open>use(Module*)\<close> ignores a null pointer.\<close>

definition sc_use :: "module option \<Rightarrow> scaffold \<Rightarrow> scaffold" where
  "sc_use m s = (case m of None \<Rightarrow> s | Some m \<Rightarrow> s\<lparr>sc_modules := sc_modules s @ [m]\<rparr>)"

definition sc_scan :: "registry \<Rightarrow> scaffold \<Rightarrow> scaffold" where
  "sc_scan reg s =
     foldl (\<lambda>s (name, factory). case factory of
         None \<Rightarrow> s
       | Some m \<Rightarrow> s\<lparr>sc_modules := sc_modules s @ [m], sc_ownedModules := sc_ownedModules s @ [m]\<rparr>) s reg"

text \<open>
  The loops that call \<open>cleanup\<close>, \<open>onStop\<close>, or both, on each module of a list. An exception that is not a \<^verbatim>\<open>std::exception\<close> leaves the
  loop (\<open>True\<close>) and skips the rest of it.
\<close>

definition uncaught :: "thrown_kind option \<Rightarrow> bool" where
  "uncaught t \<longleftrightarrow> t = Some OtherExn"

fun cleanup_all :: "module list \<Rightarrow> bool \<times> life_event list" where
  "cleanup_all [] = (False, [])"
| "cleanup_all (m # ms) =
     (if uncaught (mod_cleanup m) then (True, [LCleanup m])
      else case cleanup_all ms of (esc, tr) \<Rightarrow> (esc, LCleanup m # tr))"

fun stop_all :: "module list \<Rightarrow> bool \<times> life_event list" where
  "stop_all [] = (False, [])"
| "stop_all (m # ms) =
     (if uncaught (mod_onStop m) then (True, [LStop m])
      else case stop_all ms of (esc, tr) \<Rightarrow> (esc, LStop m # tr))"

fun stop_cleanup_all :: "module list \<Rightarrow> bool \<times> life_event list" where
  "stop_cleanup_all [] = (False, [])"
| "stop_cleanup_all (m # ms) =
     (if uncaught (mod_onStop m) then (True, [LStop m])
      else if uncaught (mod_cleanup m) then (True, [LStop m, LCleanup m])
      else case stop_cleanup_all ms of (esc, tr) \<Rightarrow> (esc, LStop m # LCleanup m # tr))"

text \<open>
  Step 3 of \<^verbatim>\<open>run\<close>: \<open>init\<close> in order; the first failure cleans up the modules initialised before, in
  reverse. The result says how the phase ended, which modules are initialised and the calls made. A phase that is left by an exception does nothing more.
\<close>

datatype phase = PhaseOk | PhaseFailed | PhaseThrew

fun init_all :: "module list \<Rightarrow> module list \<Rightarrow> phase \<times> module list \<times> life_event list" where
  "init_all [] done = (PhaseOk, done, [])"
| "init_all (m # ms) done =
     (case mod_init m of
        Throws _ \<Rightarrow> (PhaseThrew, done, [LInit m])
      | Returned r \<Rightarrow>
          if isOk r then (case init_all ms (done @ [m]) of (ph, ini, tr) \<Rightarrow> (ph, ini, LInit m # tr))
          else (case cleanup_all (rev done) of (esc, tr) \<Rightarrow> (if esc then PhaseThrew else PhaseFailed, done, LInit m # tr)))"

text \<open>Step 4: \<open>onStart\<close> in order; the first failure stops the started modules and cleans up all.\<close>

fun start_all :: "module list \<Rightarrow> module list \<Rightarrow> module list \<Rightarrow> phase \<times> life_event list" where
  "start_all ini [] done = (PhaseOk, [])"
| "start_all ini (m # ms) done =
     (case mod_onStart m of
        Throws _ \<Rightarrow> (PhaseThrew, [LStart m])
      | Returned r \<Rightarrow>
          if isOk r then (case start_all ini ms (done @ [m]) of (ph, tr) \<Rightarrow> (ph, LStart m # tr))
          else (case stop_all (rev done) of (esc, tr) \<Rightarrow>
                  if esc then (PhaseThrew, LStart m # tr)
                  else (case cleanup_all (rev ini) of (esc', tr') \<Rightarrow> (if esc' then PhaseThrew else PhaseFailed, LStart m # tr @ tr'))))"

text \<open>The result of \<open>run\<close>; \<open>None\<close> when an exception leaves it.\<close>

definition phase_exit :: "phase \<Rightarrow> int option" where
  "phase_exit ph = (if ph = PhaseThrew then None else Some (- 1))"

definition sc_run :: "exec_outcome \<Rightarrow> scaffold \<Rightarrow> int option \<times> scaffold" where
  "sc_run exec s =
     (if sc_state s \<noteq> Uninitialized then (Some (- 1), s)
      else
        let enabled = filter mod_isEnabled (sc_modules s);
            sorted = topoSortWithPriority enabled in
        if sorted = [] \<and> enabled \<noteq> [] then (Some (- 1), s)
        else
          let s1 = s\<lparr>sc_sortedModules := sorted\<rparr> in
          case init_all sorted [] of (ph, ini, tr) \<Rightarrow>
            let s2 = s1\<lparr>sc_trace := sc_trace s1 @ tr\<rparr> in
            if ph \<noteq> PhaseOk then (phase_exit ph, s2)
            else case start_all ini ini [] of (ph', tr') \<Rightarrow>
              let s3 = s2\<lparr>sc_trace := sc_trace s2 @ tr'\<rparr> in
              if ph' \<noteq> PhaseOk then (phase_exit ph', s3)
              else
                let s4 = s3\<lparr>sc_initialized := True, sc_state := Running\<rparr> in
                case app_run exec (sc_app s4) of (code, a) \<Rightarrow> (Some code, s4\<lparr>sc_app := a\<rparr>))"

text \<open>Whether an exception leaves \<open>shutdown\<close>, in which case the scaffold goes on counting as running.\<close>

definition sc_shutdown :: "scaffold \<Rightarrow> bool \<times> scaffold" where
  "sc_shutdown s =
     (if \<not> sc_initialized s then (False, s)
      else case stop_cleanup_all (rev (sc_sortedModules s)) of (esc, tr) \<Rightarrow>
        let s1 = s\<lparr>sc_trace := sc_trace s @ tr\<rparr>
        in if esc then (True, s1) else (False, s1\<lparr>sc_initialized := False, sc_state := Shutdown\<rparr>))"

text \<open>The destructor body is \<open>shutdown\<close>; the application is destroyed afterwards. An exception ends the process there.\<close>

definition sc_destroy :: "scaffold \<Rightarrow> bool \<times> scaffold" where
  "sc_destroy s = (case sc_shutdown s of (esc, s1) \<Rightarrow> if esc then (True, s1) else (False, s1\<lparr>sc_app := executeShutdownCallbacks (sc_app s1)\<rparr>))"

section \<open>Traces of one run\<close>

text \<open>The modules whose \<open>init\<close> (\<open>onStart\<close>) succeeded and those stopped and cleaned up, in call order.\<close>

fun inits_ok :: "life_event list \<Rightarrow> module list" where
  "inits_ok [] = []"
| "inits_ok (LInit m # tr) = (if hook_ok (mod_init m) then m # inits_ok tr else inits_ok tr)"
| "inits_ok (e # tr) = inits_ok tr"

fun starts_ok :: "life_event list \<Rightarrow> module list" where
  "starts_ok [] = []"
| "starts_ok (LStart m # tr) = (if hook_ok (mod_onStart m) then m # starts_ok tr else starts_ok tr)"
| "starts_ok (e # tr) = starts_ok tr"

fun stops :: "life_event list \<Rightarrow> module list" where
  "stops [] = []"
| "stops (LStop m # tr) = m # stops tr"
| "stops (e # tr) = stops tr"

fun cleanups :: "life_event list \<Rightarrow> module list" where
  "cleanups [] = []"
| "cleanups (LCleanup m # tr) = m # cleanups tr"
| "cleanups (e # tr) = cleanups tr"

lemma trace_append [simp]:
  "inits_ok (tr @ tr') = inits_ok tr @ inits_ok tr'"
  "starts_ok (tr @ tr') = starts_ok tr @ starts_ok tr'"
  "stops (tr @ tr') = stops tr @ stops tr'"
  "cleanups (tr @ tr') = cleanups tr @ cleanups tr'"
  by (induction tr rule: inits_ok.induct) auto

lemma trace_map [simp]:
  "inits_ok (map LCleanup ms) = []" "inits_ok (map LStop ms) = []"
  "starts_ok (map LCleanup ms) = []" "starts_ok (map LStop ms) = []"
  "stops (map LCleanup ms) = []" "stops (map LStop ms) = ms"
  "cleanups (map LCleanup ms) = ms" "cleanups (map LStop ms) = []"
  by (induction ms) auto

lemma trace_shutdown [simp]:
  "inits_ok (concat (map (\<lambda>m. [LStop m, LCleanup m]) ms)) = []"
  "starts_ok (concat (map (\<lambda>m. [LStop m, LCleanup m]) ms)) = []"
  "stops (concat (map (\<lambda>m. [LStop m, LCleanup m]) ms)) = ms"
  "cleanups (concat (map (\<lambda>m. [LStop m, LCleanup m]) ms)) = ms"
  by (induction ms) auto

text \<open>Modules whose hooks throw nothing that escapes.\<close>

definition tame :: "module \<Rightarrow> bool" where
  "tame m \<longleftrightarrow> (\<forall>k. mod_init m \<noteq> Throws k) \<and> (\<forall>k. mod_onStart m \<noteq> Throws k) \<and> \<not> uncaught (mod_onStop m) \<and> \<not> uncaught (mod_cleanup m)"

lemma cleanup_all_tame: "\<forall>m\<in>set ms. \<not> uncaught (mod_cleanup m) \<Longrightarrow> cleanup_all ms = (False, map LCleanup ms)"
  by (induction ms) auto

lemma stop_all_tame: "\<forall>m\<in>set ms. \<not> uncaught (mod_onStop m) \<Longrightarrow> stop_all ms = (False, map LStop ms)"
  by (induction ms) auto

lemma stop_cleanup_all_tame: "\<forall>m\<in>set ms. tame m \<Longrightarrow> stop_cleanup_all ms = (False, concat (map (\<lambda>m. [LStop m, LCleanup m]) ms))"
  by (induction ms) (auto simp: tame_def)

lemma init_all_trace:
  assumes "init_all ms done = (ph, ini, tr)" "\<forall>m\<in>set (ms @ done). tame m"
  shows "ph \<noteq> PhaseThrew \<and> ini = done @ inits_ok tr \<and> starts_ok tr = [] \<and> stops tr = []
    \<and> (ph = PhaseOk \<longrightarrow> ini = done @ ms \<and> cleanups tr = []) \<and> (ph = PhaseFailed \<longrightarrow> cleanups tr = rev ini)"
  using assms
proof (induction ms "done" arbitrary: ph ini tr rule: init_all.induct)
  case (2 m ms "done")
  have "cleanup_all (rev done) = (False, map LCleanup (rev done))" using 2(3) by (intro cleanup_all_tame) (simp add: tame_def)
  with 2 show ?case by (auto simp: hook_ok_def tame_def split: hook_outcome.splits if_splits prod.splits)
qed simp

lemma start_all_trace:
  assumes "start_all ini ms done = (ph, tr)" "\<forall>m\<in>set (ini @ ms @ done). tame m"
  shows "ph \<noteq> PhaseThrew \<and> inits_ok tr = [] \<and> (ph = PhaseOk \<longrightarrow> starts_ok tr = ms \<and> stops tr = [] \<and> cleanups tr = [])
    \<and> (ph = PhaseFailed \<longrightarrow> stops tr = rev (done @ starts_ok tr) \<and> cleanups tr = rev ini)"
  using assms
proof (induction ini ms "done" arbitrary: ph tr rule: start_all.induct)
  case (2 ini m ms "done")
  have "stop_all (rev done) = (False, map LStop (rev done))" "cleanup_all (rev ini) = (False, map LCleanup (rev ini))"
    using 2(3) by (intro stop_all_tame cleanup_all_tame; simp add: tame_def)+
  with 2 show ?case by (auto simp: hook_ok_def tame_def split: hook_outcome.splits if_splits prod.splits)
qed simp

lemma init_all_failure:
  "hook_fails (mod_init m) \<Longrightarrow> \<forall>x \<in> set pre. hook_ok (mod_init x) \<Longrightarrow> \<forall>x \<in> set (pre @ done). \<not> uncaught (mod_cleanup x) \<Longrightarrow>
     init_all (pre @ m # post) done
       = (PhaseFailed, done @ pre, map LInit pre @ LInit m # map LCleanup (rev (done @ pre)))"
  by (induction pre arbitrary: "done") (auto simp: hook_ok_def hook_fails_def cleanup_all_tame split: hook_outcome.splits)

section \<open>Balance of the lifecycle\<close>

text \<open>
  Over any sequence of calls: a module initialised successfully and not yet cleaned up is one of the
  sorted modules of a running scaffold; the same for start and stop.
\<close>

definition sc_balanced :: "scaffold \<Rightarrow> bool" where
  "sc_balanced s \<longleftrightarrow> (sc_initialized s \<longleftrightarrow> sc_state s = Running) \<and> (sc_initialized s \<longrightarrow> set (sc_sortedModules s) \<subseteq> set (sc_modules s))
     \<and> mset (inits_ok (sc_trace s)) = mset (cleanups (sc_trace s))
         + (if sc_initialized s then mset (sc_sortedModules s) else {#})
     \<and> mset (starts_ok (sc_trace s)) = mset (stops (sc_trace s))
         + (if sc_initialized s then mset (sc_sortedModules s) else {#})"

inductive sc_step :: "scaffold \<Rightarrow> scaffold \<Rightarrow> bool" where
  sc_step_use: "sc_step s (sc_use m s)"
| sc_step_scan: "sc_step s (sc_scan reg s)"
| sc_step_run: "sc_step s (snd (sc_run exec s))"
| sc_step_shutdown: "sc_step s (snd (sc_shutdown s))"

definition all_tame :: "scaffold \<Rightarrow> bool" where
  "all_tame s \<longleftrightarrow> (\<forall>m\<in>set (sc_modules s). tame m)"

lemma set_sorted: "set (topoSortWithPriority ms) \<subseteq> set ms"
proof (cases "topo_order ms")
  case (Some ord)
  then show ?thesis using topo_order_Some [OF Some] by (auto simp: topoSortWithPriority_def)
qed (simp add: topoSortWithPriority_def)

lemma sc_scan_frame [simp]:
  "sc_initialized (sc_scan reg s) = sc_initialized s" "sc_state (sc_scan reg s) = sc_state s"
  "sc_trace (sc_scan reg s) = sc_trace s" "sc_sortedModules (sc_scan reg s) = sc_sortedModules s"
  unfolding sc_scan_def by (induction reg arbitrary: s) (auto split: option.splits)

lemma sc_scan_modules: "set (sc_modules s) \<subseteq> set (sc_modules (sc_scan reg s))"
proof (induction reg arbitrary: s)
  case (Cons r reg)
  obtain n f where r: "r = (n, f)" by (cases r)
  show ?case
  proof (cases f)
    case None
    with r Cons show ?thesis by (simp add: sc_scan_def)
  next
    case (Some m)
    with r Cons [of "s\<lparr>sc_modules := sc_modules s @ [m], sc_ownedModules := sc_ownedModules s @ [m]\<rparr>"] show ?thesis by (simp add: sc_scan_def)
  qed
qed (simp add: sc_scan_def)

lemma sc_use_balanced [sk_inv]: "sc_balanced s \<Longrightarrow> sc_balanced (sc_use m s)"
  by (cases m) (auto simp: sc_balanced_def sc_use_def)

lemma sc_scan_balanced [sk_inv]: "sc_balanced s \<Longrightarrow> sc_balanced (sc_scan reg s)"
  using sc_scan_modules [of s reg] by (auto simp: sc_balanced_def)

lemma sc_shutdown_tame:
  assumes "sc_balanced s" "all_tame s"
  shows "sc_balanced (snd (sc_shutdown s)) \<and> \<not> fst (sc_shutdown s) \<and> \<not> sc_initialized (snd (sc_shutdown s))"
proof (cases "sc_initialized s")
  case True
  with assms have "stop_cleanup_all (rev (sc_sortedModules s)) = (False, concat (map (\<lambda>m. [LStop m, LCleanup m]) (rev (sc_sortedModules s))))"
    by (intro stop_cleanup_all_tame) (auto simp: sc_balanced_def all_tame_def)
  with True assms(1) show ?thesis by (simp add: sc_balanced_def sc_shutdown_def)
qed (use assms in \<open>simp add: sc_shutdown_def\<close>)

lemma sc_run_balanced:
  assumes "sc_balanced s" "all_tame s"
  shows "sc_balanced (snd (sc_run exec s))"
proof (cases "sc_state s = Uninitialized")
  case True
  then have ini: "\<not> sc_initialized s" using assms by (auto simp: sc_balanced_def)
  let ?sorted = "topoSortWithPriority (filter mod_isEnabled (sc_modules s))"
  have sub: "set ?sorted \<subseteq> set (sc_modules s)" using set_sorted [of "filter mod_isEnabled (sc_modules s)"] by auto
  then have tame: "\<forall>m\<in>set ?sorted. tame m" using assms(2) by (auto simp: all_tame_def)
  obtain ph ini tr where I: "init_all ?sorted [] = (ph, ini, tr)" by (rule prod_cases3)
  obtain ph' tr' where S: "start_all ini ini [] = (ph', tr')" by fastforce
  have T: "ph \<noteq> PhaseThrew \<and> ini = inits_ok tr \<and> starts_ok tr = [] \<and> stops tr = [] \<and> (ph = PhaseOk \<longrightarrow> ini = ?sorted \<and> cleanups tr = []) \<and> (ph = PhaseFailed \<longrightarrow> cleanups tr = rev ini)"
    using init_all_trace [OF I] tame by auto
  show ?thesis
  proof (cases ph)
    case PhaseOk
    with T have "ini = ?sorted" by blast
    with tame start_all_trace [OF S] show ?thesis
      using True ini assms(1) T I S PhaseOk sub by (cases ph') (auto simp: sc_run_def sc_balanced_def Let_def split: prod.split)
  qed (use True ini assms(1) T I in \<open>auto simp: sc_run_def sc_balanced_def Let_def\<close>)
next
  case False
  then show ?thesis using assms by (simp add: sc_run_def)
qed

lemma sc_step_modules: "sc_step s t \<Longrightarrow> set (sc_modules s) \<subseteq> set (sc_modules t)"
proof (induction rule: sc_step.induct)
  case (sc_step_use s m)
  show ?case by (cases m) (auto simp: sc_use_def)
next
  case (sc_step_run s exec)
  show ?case by (auto simp: sc_run_def Let_def split: prod.splits)
next
  case (sc_step_shutdown s)
  show ?case by (auto simp: sc_shutdown_def Let_def split: prod.splits)
qed (rule sc_scan_modules)

interpretation scaffold_life: inductive_invariant "\<lambda>s. s = mk_Scaffold" sc_step "\<lambda>s. all_tame s \<longrightarrow> sc_balanced s"
proof unfold_locales
  show "all_tame s \<longrightarrow> sc_balanced s" if "s = mk_Scaffold" for s
    using that by (simp add: sc_balanced_def mk_Scaffold_def)
next
  fix s t
  assume inv: "all_tame s \<longrightarrow> sc_balanced s" and st: "sc_step s t"
  show "all_tame t \<longrightarrow> sc_balanced t"
  proof
    assume "all_tame t"
    with sc_step_modules [OF st] have "all_tame s" by (auto simp: all_tame_def)
    with inv have "sc_balanced s" by simp
    from st this \<open>all_tame s\<close> show "sc_balanced t"
      by (cases rule: sc_step.cases) (auto intro: sk_inv sc_run_balanced sc_shutdown_tame [THEN conjunct1])
  qed
qed

section \<open>Properties\<close>

text \<open>C3 (safety): after any sequence of \<open>use\<close>, \<open>scan\<close>, \<open>run\<close> and \<open>shutdown\<close> calls, with modules whose \<open>init\<close> and \<open>onStart\<close> report failures
  by their results and whose \<open>onStop\<close> and \<open>cleanup\<close> throw nothing but a \<^verbatim>\<open>std::exception\<close>, destroying the scaffold leaves no module behind: no exception comes out,
  each successful \<open>init\<close> has exactly one \<open>cleanup\<close> and each successful \<open>onStart\<close> exactly one \<open>onStop\<close>.\<close>

theorem scaffold_no_leak:
  assumes "reach (\<lambda>s. s = mk_Scaffold) sc_step s" "\<forall>m\<in>set (sc_modules s). tame m"
  shows "\<not> fst (sc_destroy s) \<and> mset (cleanups (sc_trace (snd (sc_destroy s)))) = mset (inits_ok (sc_trace (snd (sc_destroy s))))
    \<and> mset (stops (sc_trace (snd (sc_destroy s)))) = mset (starts_ok (sc_trace (snd (sc_destroy s))))"
proof -
  have "all_tame s" using assms(2) by (simp add: all_tame_def)
  moreover from this have "sc_balanced s" using scaffold_life.reach_inv [OF assms(1)] by simp
  ultimately have "sc_balanced (snd (sc_shutdown s)) \<and> \<not> fst (sc_shutdown s) \<and> \<not> sc_initialized (snd (sc_shutdown s))" by (intro sc_shutdown_tame)
  then show ?thesis by (cases "sc_shutdown s") (auto simp: sc_balanced_def sc_destroy_def)
qed

text \<open>A scaffold over the three example modules that has been run; their \<open>onStop\<close> throws a \<^verbatim>\<open>std::exception\<close>.\<close>

definition example_scaffold :: scaffold where
  "example_scaffold = snd (sc_run (Exits 0)
     (foldl (\<lambda>s m. sc_use (Some m) s) mk_Scaffold (map (\<lambda>m. m\<lparr>mod_onStop := Some StdExn\<rparr>) example_modules)))"

lemma reach_use_all:
  "reach I sc_step s \<Longrightarrow> reach I sc_step (foldl (\<lambda>s m. sc_use (Some m) s) s ms)"
  by (induction ms arbitrary: s) (auto intro: reach_step sc_step_use)

lemma example_scaffold_reachable: "reach (\<lambda>s. s = mk_Scaffold) sc_step example_scaffold"
proof -
  have "reach (\<lambda>s. s = mk_Scaffold) sc_step mk_Scaffold" by (rule reach_init) simp
  then show ?thesis
    unfolding example_scaffold_def by (rule reach_step [OF reach_use_all sc_step_run])
qed

theorem scaffold_no_leak_witness:
  "length (inits_ok (sc_trace (snd (sc_destroy example_scaffold)))) = 3
   \<and> mset (cleanups (sc_trace (snd (sc_destroy example_scaffold))))
      = mset (inits_ok (sc_trace (snd (sc_destroy example_scaffold))))"
proof -
  have "length (inits_ok (sc_trace (snd (sc_destroy example_scaffold)))) = 3" by code_simp
  moreover have "sc_modules example_scaffold = map (\<lambda>m. m\<lparr>mod_onStop := Some StdExn\<rparr>) example_modules" by code_simp
  then have "\<forall>m\<in>set (sc_modules example_scaffold). tame m" by (simp add: example_modules_def tame_def uncaught_def)
  ultimately show ?thesis using scaffold_no_leak [OF example_scaffold_reachable] by simp
qed

text \<open>A module whose \<open>init\<close> throws leaves the modules initialised before it behind: no later call cleans them up.\<close>

definition throwing_scaffold :: scaffold where
  "throwing_scaffold = mk_Scaffold\<lparr>sc_modules := example_modules[1 := (example_modules ! 1)\<lparr>mod_init := Throws StdExn\<rparr>]\<rparr>"

theorem scaffold_throwing_init_leaks:
  "fst (sc_run (Exits 0) throwing_scaffold) = None
   \<and> map mod_name (inits_ok (sc_trace (snd (sc_destroy (snd (sc_run (Exits 0) throwing_scaffold)))))) = [''log'']
   \<and> cleanups (sc_trace (snd (sc_destroy (snd (sc_run (Exits 0) throwing_scaffold))))) = []"
  by code_simp

text \<open>C4 (error): if the \<open>init\<close> of some module in the sorted order fails, \<open>run\<close> returns -1 without
  starting anything; it has called \<open>init\<close> on the modules up to the failing one and then \<open>cleanup\<close> on
  exactly the ones before it, in reverse order, and the scaffold is not running. (An exception of a \<open>cleanup\<close> that is not a \<^verbatim>\<open>std::exception\<close>
  would end the rollback.)\<close>

theorem scaffold_init_failure_rolls_back:
  assumes "sc_state s = Uninitialized" and "\<not> sc_initialized s"
    and "topoSortWithPriority (filter mod_isEnabled (sc_modules s)) = pre @ m # post"
    and "\<forall>x \<in> set pre. hook_ok (mod_init x)" and "hook_fails (mod_init m)" and "\<forall>x \<in> set pre. \<not> uncaught (mod_cleanup x)"
  shows "fst (sc_run exec s) = Some (- 1)
    \<and> sc_trace (snd (sc_run exec s)) = sc_trace s @ map LInit pre @ [LInit m] @ map LCleanup (rev pre)
    \<and> sc_state (snd (sc_run exec s)) = Uninitialized \<and> \<not> sc_initialized (snd (sc_run exec s))"
  using assms by (simp add: sc_run_def Let_def init_all_failure phase_exit_def)

text \<open>The example modules with a failing \<open>db\<close>.\<close>

definition failing_scaffold :: scaffold where
  "failing_scaffold = mk_Scaffold\<lparr>sc_modules :=
     example_modules[1 := (example_modules ! 1)\<lparr>mod_init := Returned (Err (mk_error EC_Unknown ''down''))\<rparr>]\<rparr>"

theorem scaffold_init_failure_rolls_back_witness:
  "fst (sc_run (Exits 0) failing_scaffold) = Some (- 1)
   \<and> sc_trace (snd (sc_run (Exits 0) failing_scaffold))
      = map LInit [example_modules ! 2] @ [LInit (sc_modules failing_scaffold ! 1)]
        @ map LCleanup [example_modules ! 2]"
proof -
  have "topoSortWithPriority (filter mod_isEnabled (sc_modules failing_scaffold))
      = [example_modules ! 2] @ (sc_modules failing_scaffold ! 1) # [example_modules ! 0]"
    by code_simp
  moreover have "hook_ok (mod_init (example_modules ! 2))" "hook_fails (mod_init (sc_modules failing_scaffold ! 1))" "\<not> uncaught (mod_cleanup (example_modules ! 2))"
    "sc_state failing_scaffold = Uninitialized" "\<not> sc_initialized failing_scaffold"
    "sc_trace failing_scaffold = []"
    by code_simp+
  ultimately show ?thesis
    using scaffold_init_failure_rolls_back [of failing_scaffold "[example_modules ! 2]"] by simp
qed

text \<open>When the dependencies of the enabled modules can be ordered and every hook
  succeeds, \<open>run\<close> enters the event loop with the modules initialised and then started in the sorted
  order, dependencies first, and the later shutdown stops and cleans them up one by one in the
  reverse order, so a module is torn down before the modules it depends on.\<close>

theorem scaffold_lifecycle_order:
  assumes "sc_state s = Uninitialized" and "\<not> sc_initialized s" and "sc_trace s = []"
    and "topo_order (filter mod_isEnabled (sc_modules s)) = Some ord"
    and "\<forall>m \<in> set (sc_modules s). hook_ok (mod_init m) \<and> hook_ok (mod_onStart m) \<and> tame m"
  shows "let en = filter mod_isEnabled (sc_modules s); xs = map ((!) en) ord; s' = snd (sc_run exec s) in
    deps_first en ord \<and> sc_state s' = Running \<and> fst (sc_run exec s) = Some (fst (app_run exec (sc_app s)))
    \<and> sc_trace (snd (sc_shutdown s')) = map LInit xs @ map LStart xs
        @ concat (map (\<lambda>m. [LStop m, LCleanup m]) (rev xs))"
proof -
  let ?en = "filter mod_isEnabled (sc_modules s)"
  let ?xs = "map ((!) ?en) ord"
  note T = topo_order_Some [OF assms(4)]
  have xs: "topoSortWithPriority ?en = ?xs" using assms(4) by (simp add: topoSortWithPriority_def)
  have "set ?xs \<subseteq> set ?en" using T nth_mem [of _ ?en] by auto
  then have ok: "\<forall>m \<in> set ?xs. hook_ok (mod_init m)" "\<forall>m \<in> set ?xs. hook_ok (mod_onStart m)" and tm: "\<forall>m \<in> set ?xs. tame m" using assms(5) by auto
  have "init_all ms d = (PhaseOk, d @ ms, map LInit ms)" if "\<forall>m \<in> set ms. hook_ok (mod_init m)" for ms d
    using that by (induction ms arbitrary: d) (auto simp: hook_ok_def split: hook_outcome.splits)
  moreover have "start_all ini ms d = (PhaseOk, map LStart ms)" if "\<forall>m \<in> set ms. hook_ok (mod_onStart m)" for ini ms d
    using that by (induction ms arbitrary: d) (auto simp: hook_ok_def split: hook_outcome.splits)
  moreover have "stop_cleanup_all (rev ?xs) = (False, concat (map (\<lambda>m. [LStop m, LCleanup m]) (rev ?xs)))" using tm by (intro stop_cleanup_all_tame) simp
  moreover have "\<not> (?xs = [] \<and> ?en \<noteq> [])" using T by (cases ord) auto
  moreover have "deps_first ?en ord" using T by (blast intro: greedy_deps_first)
  ultimately show ?thesis
    using assms(1-3) ok by (simp add: sc_run_def sc_shutdown_def Let_def xs split_beta)
qed

text \<open>The order in which modules register does not matter: registering two names in
  either order gives registries that \<open>scan\<close> adds to a scaffold in the same way.\<close>

theorem scan_ignores_registration_order:
  assumes "omap_inv reg" and "k \<noteq> k'"
  shows "sc_scan (registerModule k f (registerModule k' f' reg)) s
    = sc_scan (registerModule k' f' (registerModule k f reg)) s"
  using module_registry.put_commute [OF assms, of f f'] by simp

theorem scan_ignores_registration_order_witness:
  "sc_scan (registerModule ''b'' None (registerModule ''a'' (Some (example_modules ! 0)) [])) mk_Scaffold
   = sc_scan (registerModule ''a'' (Some (example_modules ! 0)) (registerModule ''b'' None [])) mk_Scaffold"
  using scan_ignores_registration_order [of "[]" "''b''" "''a''"] by (simp add: omap_inv_def)

end
