(* ===== verification/SK_MemoryCache.thy ===== *)
theory SK_MemoryCache
  imports SK_Prelude
begin

text \<open>
  The in-memory LRU cache with time to live of \<^verbatim>\<open>include/soul/cache/memory_cache.h\<close> and the
  statistics of \<^verbatim>\<open>icache.h\<close>.

  The hash map is an association list with distinct keys. An entry of the source also holds an
  iterator to the node of its key in the recency list; keys occur once in that list, so the
  iterator is the key itself: splicing the node to the front is \<open>touch\<close>, erasing it is \<open>remove1\<close>.
  An expiry time is \<open>None\<close> for \<^verbatim>\<open>time_point::max()\<close>, which no clock reading exceeds. Counters of
  type \<^verbatim>\<open>size_t\<close> are natural numbers; the invariant shows that no subtraction on them underflows.
  The loop of \<open>evictToFit\<close> may fail to end when the recency list misses a key, so it is a partial
  function; \<open>put\<close> returns \<open>None\<close> when it does not return.
\<close>

section \<open>Data\<close>

record CacheStats =
  hitCount :: nat
  missCount :: nat
  evictionCount :: nat
  totalBytes :: nat

definition empty_stats :: CacheStats where
  "empty_stats = \<lparr>hitCount = 0, missCount = 0, evictionCount = 0, totalBytes = 0\<rparr>"

record mc_config =
  maxEntries :: nat
  maxBytes :: nat
  defaultTtl :: "int option"

definition default_mc_config :: mc_config where
  "default_mc_config = \<lparr>maxEntries = 10000, maxBytes = 100 * 1024 * 1024, defaultTtl = None\<rparr>"

record 'v mc_entry =
  e_value :: 'v
  e_expireTime :: "int option"
  e_size :: nat
  e_accessCount :: nat

record ('k, 'v) memory_cache =
  mc_cfg :: mc_config
  mc_entries :: "('k \<times> 'v mc_entry) list"
  mc_lru :: "'k list"
  mc_stats :: CacheStats

definition mk_MemoryCache :: "mc_config \<Rightarrow> ('k, 'v) memory_cache" where
  "mk_MemoryCache config = \<lparr>mc_cfg = config, mc_entries = [], mc_lru = [], mc_stats = empty_stats\<rparr>"

section \<open>Operations\<close>

definition mc_isExpired :: "int \<Rightarrow> 'v mc_entry \<Rightarrow> bool" where
  "mc_isExpired now e = (case e_expireTime e of None \<Rightarrow> False | Some t \<Rightarrow> now > t)"

definition computeExpireTime :: "mc_config \<Rightarrow> int \<Rightarrow> int option \<Rightarrow> int option" where
  "computeExpireTime cfg now ttl =
     (let effectiveTtl = (case ttl of Some t \<Rightarrow> t | None \<Rightarrow> (case defaultTtl cfg of Some t \<Rightarrow> t | None \<Rightarrow> 0))
      in if effectiveTtl \<le> 0 then None else Some (now + effectiveTtl * 1000000))"

definition mc_touch :: "'k \<Rightarrow> ('k, 'v) memory_cache \<Rightarrow> ('k, 'v) memory_cache" where
  "mc_touch k c = c\<lparr>mc_lru := k # remove1 k (mc_lru c)\<rparr>"

definition mc_evictEntry :: "'k \<Rightarrow> 'v mc_entry \<Rightarrow> ('k, 'v) memory_cache \<Rightarrow> ('k, 'v) memory_cache" where
  "mc_evictEntry k e c = c\<lparr>mc_lru := remove1 k (mc_lru c),
     mc_stats := (mc_stats c)\<lparr>totalBytes := totalBytes (mc_stats c) - e_size e,
                              evictionCount := Suc (evictionCount (mc_stats c))\<rparr>,
     mc_entries := AList.delete k (mc_entries c)\<rparr>"

definition mc_evictLru :: "('k, 'v) memory_cache \<Rightarrow> ('k, 'v) memory_cache" where
  "mc_evictLru c =
     (if mc_lru c = [] then c
      else let lruKey = last (mc_lru c) in
        case map_of (mc_entries c) lruKey of
          Some e \<Rightarrow> mc_evictEntry lruKey e c
        | None \<Rightarrow> c\<lparr>mc_stats := (mc_stats c)\<lparr>evictionCount := Suc (evictionCount (mc_stats c))\<rparr>,
                    mc_lru := butlast (mc_lru c)\<rparr>)"

definition mc_over :: "nat \<Rightarrow> ('k, 'v) memory_cache \<Rightarrow> bool" where
  "mc_over incomingSize c \<longleftrightarrow>
     length (mc_entries c) \<ge> maxEntries (mc_cfg c) \<or>
     (maxBytes (mc_cfg c) > 0 \<and> totalBytes (mc_stats c) + incomingSize > maxBytes (mc_cfg c))"

partial_function (option) mc_evictToFit :: "nat \<Rightarrow> ('k, 'v) memory_cache \<Rightarrow> ('k, 'v) memory_cache option" where
  "mc_evictToFit incomingSize c =
     (if mc_entries c = [] then Some c
      else if \<not> mc_over incomingSize c then Some c
      else mc_evictToFit incomingSize (mc_evictLru c))"

definition mc_bump_miss :: "('k, 'v) memory_cache \<Rightarrow> ('k, 'v) memory_cache" where
  "mc_bump_miss c = c\<lparr>mc_stats := (mc_stats c)\<lparr>missCount := Suc (missCount (mc_stats c))\<rparr>\<rparr>"

definition mc_bump_hit :: "('k, 'v) memory_cache \<Rightarrow> ('k, 'v) memory_cache" where
  "mc_bump_hit c = c\<lparr>mc_stats := (mc_stats c)\<lparr>hitCount := Suc (hitCount (mc_stats c))\<rparr>\<rparr>"

definition mc_get :: "int \<Rightarrow> 'k \<Rightarrow> ('k, 'v) memory_cache \<Rightarrow> 'v option \<times> ('k, 'v) memory_cache" where
  "mc_get now key c =
     (case map_of (mc_entries c) key of
        None \<Rightarrow> (None, mc_bump_miss c)
      | Some e \<Rightarrow>
          if mc_isExpired now e then (None, mc_bump_miss (mc_evictEntry key e c))
          else (Some (e_value e), mc_bump_hit (mc_touch key c)))"

text \<open>The branch of \<open>put\<close> for a key that is present: the entry is overwritten, nothing is evicted.\<close>

definition mc_update :: "'k \<Rightarrow> 'v \<Rightarrow> nat \<Rightarrow> int option \<Rightarrow> 'v mc_entry \<Rightarrow> ('k, 'v) memory_cache
    \<Rightarrow> ('k, 'v) memory_cache" where
  "mc_update key value entrySize expireTime e c =
     (let c1 = c\<lparr>mc_stats := (mc_stats c)\<lparr>totalBytes := totalBytes (mc_stats c) - e_size e\<rparr>,
                 mc_entries := AList.update key
                   (e\<lparr>e_value := value, e_size := entrySize, e_expireTime := expireTime,
                      e_accessCount := Suc (e_accessCount e)\<rparr>) (mc_entries c)\<rparr>;
          c2 = mc_touch key c1
      in c2\<lparr>mc_stats := (mc_stats c2)\<lparr>totalBytes := totalBytes (mc_stats c2) + entrySize\<rparr>\<rparr>)"

text \<open>The branch for a new key, after the eviction.\<close>

definition mc_insert :: "'k \<Rightarrow> 'v \<Rightarrow> nat \<Rightarrow> int option \<Rightarrow> ('k, 'v) memory_cache \<Rightarrow> ('k, 'v) memory_cache" where
  "mc_insert key value entrySize expireTime c =
     c\<lparr>mc_lru := key # mc_lru c,
       mc_stats := (mc_stats c)\<lparr>totalBytes := totalBytes (mc_stats c) + entrySize\<rparr>,
       mc_entries := (key, \<lparr>e_value = value, e_expireTime = expireTime, e_size = entrySize,
                            e_accessCount = 1\<rparr>) # mc_entries c\<rparr>"

definition mc_store :: "'k \<Rightarrow> 'v \<Rightarrow> nat \<Rightarrow> int option \<Rightarrow> ('k, 'v) memory_cache \<Rightarrow> ('k, 'v) memory_cache option" where
  "mc_store key value entrySize expireTime c =
     (case map_of (mc_entries c) key of
        Some e \<Rightarrow> Some (mc_update key value entrySize expireTime e c)
      | None \<Rightarrow> map_option (mc_insert key value entrySize expireTime) (mc_evictToFit entrySize c))"

definition mc_put :: "('v \<Rightarrow> nat) \<Rightarrow> int \<Rightarrow> 'k \<Rightarrow> 'v \<Rightarrow> int option \<Rightarrow> ('k, 'v) memory_cache
    \<Rightarrow> ('k, 'v) memory_cache option" where
  "mc_put estimateSize now key value ttl c =
     mc_store key value (estimateSize value) (computeExpireTime (mc_cfg c) now ttl) c"

definition mc_remove :: "'k \<Rightarrow> ('k, 'v) memory_cache \<Rightarrow> unit result \<times> ('k, 'v) memory_cache" where
  "mc_remove key c =
     (case map_of (mc_entries c) key of
        None \<Rightarrow> (Err (mk_error EC_NotFound ''Cache key not found''), c)
      | Some e \<Rightarrow> (Ok (), mc_evictEntry key e c))"

definition mc_contains :: "int \<Rightarrow> 'k \<Rightarrow> ('k, 'v) memory_cache \<Rightarrow> bool \<times> ('k, 'v) memory_cache" where
  "mc_contains now key c =
     (case map_of (mc_entries c) key of
        None \<Rightarrow> (False, c)
      | Some e \<Rightarrow> if mc_isExpired now e then (False, mc_evictEntry key e c) else (True, c))"

definition mc_clear :: "('k, 'v) memory_cache \<Rightarrow> ('k, 'v) memory_cache" where
  "mc_clear c = c\<lparr>mc_entries := [], mc_lru := [], mc_stats := (mc_stats c)\<lparr>totalBytes := 0\<rparr>\<rparr>"

text \<open>
  \<open>getMany\<close> collects the hits key by key (a repeated key is looked up again and \<^verbatim>\<open>emplace\<close> keeps the
  value already there); \<open>putMany\<close> takes the entries in the iteration order of the argument.
\<close>

fun mc_getMany :: "int \<Rightarrow> 'k list \<Rightarrow> ('k, 'v) memory_cache \<Rightarrow> ('k \<times> 'v) list \<times> ('k, 'v) memory_cache" where
  "mc_getMany now [] c = ([], c)"
| "mc_getMany now (k # ks) c =
     (case mc_get now k c of
        (None, c1) \<Rightarrow> mc_getMany now ks c1
      | (Some v, c1) \<Rightarrow> (case mc_getMany now ks c1 of (hits, c2) \<Rightarrow> ((k, v) # AList.delete k hits, c2)))"

fun mc_putMany :: "('v \<Rightarrow> nat) \<Rightarrow> int \<Rightarrow> ('k \<times> 'v) list \<Rightarrow> int option \<Rightarrow> ('k, 'v) memory_cache
    \<Rightarrow> ('k, 'v) memory_cache option" where
  "mc_putMany est now [] ttl c = Some c"
| "mc_putMany est now ((k, v) # kvs) ttl c =
     (case mc_put est now k v ttl c of None \<Rightarrow> None | Some c1 \<Rightarrow> mc_putMany est now kvs ttl c1)"

definition mc_size :: "('k, 'v) memory_cache \<Rightarrow> nat" where
  "mc_size c = length (mc_entries c)"

section \<open>Invariant\<close>

definition mc_bytes :: "('k \<times> 'v mc_entry) list \<Rightarrow> nat" where
  "mc_bytes es = sum_list (map (e_size \<circ> snd) es)"

definition mc_inv :: "('k, 'v) memory_cache \<Rightarrow> bool" where
  "mc_inv c \<longleftrightarrow> distinct (map fst (mc_entries c)) \<and> distinct (mc_lru c)
     \<and> set (mc_lru c) = fst ` set (mc_entries c)
     \<and> totalBytes (mc_stats c) = mc_bytes (mc_entries c)"

text \<open>The capacity a cache keeps: one entry is always stored, even with \<open>maxEntries = 0\<close>.\<close>

definition mc_within :: "('k, 'v) memory_cache \<Rightarrow> bool" where
  "mc_within c \<longleftrightarrow> length (mc_entries c) \<le> max 1 (maxEntries (mc_cfg c))"

text \<open>What a reader sees at a clock reading.\<close>

definition mc_view :: "int \<Rightarrow> ('k, 'v) memory_cache \<Rightarrow> 'k \<rightharpoonup> 'v" where
  "mc_view now c k =
     (case map_of (mc_entries c) k of
        None \<Rightarrow> None
      | Some e \<Rightarrow> if mc_isExpired now e then None else Some (e_value e))"

lemma mc_bytes_simps [simp]: "mc_bytes [] = 0" "mc_bytes ((k, e) # es) = e_size e + mc_bytes es"
  by (simp_all add: mc_bytes_def)

lemma mc_bytes_delete:
  "distinct (map fst es) \<Longrightarrow> map_of es k = Some e \<Longrightarrow> mc_bytes (AList.delete k es) + e_size e = mc_bytes es"
proof (induction es)
  case (Cons a es)
  obtain k' e' where a: "a = (k', e')" by (cases a)
  have "AList.delete k es = es" if "k \<notin> fst ` set es"
    using that by (simp add: AList.delete_id)
  with Cons a show ?case by (auto split: if_splits simp: dom_map_of_conv_image_fst)
qed simp

lemma mc_bytes_update:
  "distinct (map fst es) \<Longrightarrow> map_of es k = Some e \<Longrightarrow>
     mc_bytes (AList.update k e' es) + e_size e = mc_bytes es + e_size e'"
  by (induction es) (auto split: if_splits)

lemma length_delete_key:
  "distinct (map fst es) \<Longrightarrow> map_of es k = Some e \<Longrightarrow> Suc (length (AList.delete k es)) = length es"
proof (induction es)
  case (Cons a es)
  have "AList.delete k es = es" if "k \<notin> fst ` set es"
    using that by (simp add: AList.delete_id)
  with Cons show ?case by (cases a) (auto split: if_splits)
qed simp

lemma keys_delete: "fst ` set (AList.delete k es) = fst ` set es - {k}"
  by (induction es) auto

lemma length_update_key: "map_of es k = Some e \<Longrightarrow> length (AList.update k e' es) = length es"
  by (induction es) (auto split: if_splits)

lemma keys_update: "fst ` set (AList.update k e es) = insert k (fst ` set es)"
  by (induction es) auto

lemma map_of_keys: "map_of es k = Some e \<Longrightarrow> k \<in> fst ` set es"
  by (induction es) (auto split: if_splits)

lemmas alist_facts = mc_bytes_delete mc_bytes_update length_delete_key keys_delete length_update_key
  keys_update map_of_keys AList.delete_conv' AList.update_conv' distinct_delete distinct_update

lemma mc_touch_inv [sk_inv]: "mc_inv c \<Longrightarrow> k \<in> set (mc_lru c) \<Longrightarrow> mc_inv (mc_touch k c)"
  by (auto simp: mc_inv_def mc_touch_def)

lemma mc_evictEntry_inv [sk_inv]:
  assumes "mc_inv c" "map_of (mc_entries c) k = Some e"
  shows "mc_inv (mc_evictEntry k e c)"
  using assms mc_bytes_delete [of "mc_entries c" k e]
  by (auto simp: mc_inv_def mc_evictEntry_def keys_delete distinct_delete)

lemma mc_bump_inv [sk_inv]: "mc_inv (mc_bump_miss c) = mc_inv c" "mc_inv (mc_bump_hit c) = mc_inv c"
  by (simp_all add: mc_inv_def mc_bump_miss_def mc_bump_hit_def)

lemma mc_get_inv [sk_inv]:
  assumes "mc_inv c"
  shows "mc_inv (snd (mc_get now k c))"
proof (cases "map_of (mc_entries c) k")
  case (Some e)
  then have "k \<in> set (mc_lru c)" using assms map_of_keys [OF Some] by (simp add: mc_inv_def)
  with Some assms show ?thesis
    by (simp add: mc_get_def mc_bump_inv mc_touch_inv mc_evictEntry_inv)
qed (simp add: assms mc_get_def mc_bump_inv)

lemma mc_update_inv [sk_inv]:
  assumes "mc_inv c" "map_of (mc_entries c) k = Some e"
  shows "mc_inv (mc_update k v sz ex e c)"
proof -
  let ?e = "e\<lparr>e_value := v, e_size := sz, e_expireTime := ex, e_accessCount := Suc (e_accessCount e)\<rparr>"
  have "k \<in> fst ` set (mc_entries c)" using assms(2) by (rule map_of_keys)
  with assms mc_bytes_update [of "mc_entries c" k e ?e] mc_bytes_delete [of "mc_entries c" k e]
  show ?thesis
    by (auto simp: mc_inv_def mc_update_def mc_touch_def Let_def keys_update distinct_update)
qed

lemma mc_insert_inv [sk_inv]:
  assumes "mc_inv c" "map_of (mc_entries c) k = None"
  shows "mc_inv (mc_insert k v sz ex c)"
  using assms by (auto simp: mc_inv_def mc_insert_def map_of_eq_None_iff)

section \<open>Eviction\<close>

text \<open>Under the invariant one round of the loop drops the last key of the recency list.\<close>

lemma mc_evictLru_step:
  assumes "mc_inv c" "mc_entries c \<noteq> []"
  shows "mc_inv (mc_evictLru c) \<and> mc_lru (mc_evictLru c) = butlast (mc_lru c)
    \<and> mc_entries (mc_evictLru c) = AList.delete (last (mc_lru c)) (mc_entries c)
    \<and> length (mc_entries (mc_evictLru c)) < length (mc_entries c) \<and> mc_cfg (mc_evictLru c) = mc_cfg c"
proof -
  have ne: "mc_lru c \<noteq> []" using assms by (auto simp: mc_inv_def)
  then have "last (mc_lru c) \<in> fst ` set (mc_entries c)"
    using assms(1) last_in_set [OF ne] by (simp add: mc_inv_def)
  then obtain e where e: "map_of (mc_entries c) (last (mc_lru c)) = Some e"
    using assms(1) by (cases "map_of (mc_entries c) (last (mc_lru c))") (auto simp: map_of_eq_None_iff)
  have "remove1 (last (mc_lru c)) (mc_lru c) = butlast (mc_lru c)"
    using assms(1) ne by (simp add: mc_inv_def remove1_last)
  then show ?thesis
    using e ne mc_evictEntry_inv [OF assms(1) e] length_delete_key [OF _ e] assms(1)
    by (auto simp: mc_evictLru_def mc_evictEntry_def Let_def mc_inv_def)
qed

definition keep_keys :: "'k list \<Rightarrow> ('k \<times> 'e) list \<Rightarrow> ('k \<times> 'e) list" where
  "keep_keys ks es = filter (\<lambda>kv. fst kv \<in> set ks) es"

text \<open>The stop test of the loop, on the entries of a set of keys.\<close>

definition mc_fits :: "mc_config \<Rightarrow> nat \<Rightarrow> ('k \<times> 'v mc_entry) list \<Rightarrow> bool" where
  "mc_fits cfg sz es \<longleftrightarrow> es = [] \<or>
     (length es < maxEntries cfg \<and> (maxBytes cfg > 0 \<longrightarrow> mc_bytes es + sz \<le> maxBytes cfg))"

lemma mc_fits_iff:
  "mc_inv c \<Longrightarrow> mc_fits (mc_cfg c) sz (mc_entries c) \<longleftrightarrow> mc_entries c = [] \<or> \<not> mc_over sz c"
  by (auto simp: mc_fits_def mc_over_def mc_inv_def)

lemma map_of_keep_keys: "map_of (filter (\<lambda>kv. fst kv \<in> S) es) = map_of es |` S"
  by (induction es) (auto simp: restrict_map_def)

lemma keep_keys_all: "mc_inv c \<Longrightarrow> keep_keys (mc_lru c) (mc_entries c) = mc_entries c"
  by (auto simp: keep_keys_def mc_inv_def)

lemma keep_keys_delete: "k \<notin> set ks \<Longrightarrow> keep_keys ks (AList.delete k es) = keep_keys ks es"
  by (auto simp: keep_keys_def AList.delete_eq intro!: filter_cong)

text \<open>
  The loop ends, keeps the invariant and a prefix of the recency list with exactly its entries,
  and that prefix is the longest one that leaves room for the new entry.
\<close>

lemma mc_evictToFit_spec:
  assumes "mc_inv c"
  shows "\<exists>c' n. mc_evictToFit sz c = Some c' \<and> mc_inv c' \<and> mc_cfg c' = mc_cfg c \<and> n \<le> length (mc_lru c)
    \<and> mc_lru c' = take n (mc_lru c) \<and> mc_entries c' = keep_keys (take n (mc_lru c)) (mc_entries c)
    \<and> mc_fits (mc_cfg c) sz (mc_entries c')
    \<and> (\<forall>m. n < m \<and> m \<le> length (mc_lru c) \<longrightarrow>
          \<not> mc_fits (mc_cfg c) sz (keep_keys (take m (mc_lru c)) (mc_entries c)))"
  using assms
proof (induction "length (mc_entries c)" arbitrary: c rule: less_induct)
  case less
  note all = keep_keys_all [OF less.prems]
  show ?case
  proof (cases "mc_fits (mc_cfg c) sz (mc_entries c)")
    case True
    then have "mc_evictToFit sz c = Some c"
      using mc_fits_iff [OF less.prems] by (subst mc_evictToFit.simps) auto
    with True less.prems all show ?thesis by (intro exI [of _ c] exI [of _ "length (mc_lru c)"]) simp
  next
    case False
    let ?d = "mc_evictLru c"
    have ne: "mc_entries c \<noteq> []" "mc_over sz c" using False mc_fits_iff [OF less.prems] by auto
    have st: "mc_inv ?d" "mc_lru ?d = butlast (mc_lru c)"
      "mc_entries ?d = AList.delete (last (mc_lru c)) (mc_entries c)"
      "length (mc_entries ?d) < length (mc_entries c)" "mc_cfg ?d = mc_cfg c"
      using mc_evictLru_step [OF less.prems ne(1)] by auto
    have lru: "mc_lru c \<noteq> []" "distinct (mc_lru c)" using ne(1) less.prems by (auto simp: mc_inv_def)
    have pre: "take m (butlast (mc_lru c)) = take m (mc_lru c)
        \<and> keep_keys (take m (mc_lru c)) (mc_entries ?d) = keep_keys (take m (mc_lru c)) (mc_entries c)"
      if "m < length (mc_lru c)" for m
    proof
      show eq: "take m (butlast (mc_lru c)) = take m (mc_lru c)" using that by (simp add: take_butlast)
      have "last (mc_lru c) \<notin> set (take m (mc_lru c))"
        using distinct_last_notin [OF lru(2,1)] unfolding eq [symmetric] by (auto dest: in_set_takeD)
      then show "keep_keys (take m (mc_lru c)) (mc_entries ?d) = keep_keys (take m (mc_lru c)) (mc_entries c)"
        unfolding st(3) by (rule keep_keys_delete)
    qed
    from less.hyps [OF st(4,1)] obtain c' n where c':
      "mc_evictToFit sz ?d = Some c'" "mc_inv c'" "mc_cfg c' = mc_cfg c" "n \<le> length (butlast (mc_lru c))"
      "mc_lru c' = take n (butlast (mc_lru c))"
      "mc_entries c' = keep_keys (take n (butlast (mc_lru c))) (mc_entries ?d)"
      "mc_fits (mc_cfg c) sz (mc_entries c')"
      and mx: "\<forall>m. n < m \<and> m \<le> length (butlast (mc_lru c)) \<longrightarrow>
          \<not> mc_fits (mc_cfg c) sz (keep_keys (take m (butlast (mc_lru c))) (mc_entries ?d))"
      unfolding st(2) st(5) by blast
    have n: "n < length (mc_lru c)" using c'(4) lru(1) by (metis Suc_pred length_butlast length_greater_0_conv less_Suc_eq_le One_nat_def)
    have "\<not> mc_fits (mc_cfg c) sz (keep_keys (take m (mc_lru c)) (mc_entries c))"
      if "n < m" "m \<le> length (mc_lru c)" for m
    proof (cases "m = length (mc_lru c)")
      case True
      then show ?thesis using False all by simp
    next
      case neq: False
      then have m: "m < length (mc_lru c)" using that by simp
      then have "m \<le> length (butlast (mc_lru c))" by simp
      with mx that(1) have "\<not> mc_fits (mc_cfg c) sz (keep_keys (take m (butlast (mc_lru c))) (mc_entries ?d))" by blast
      with pre [OF m] show ?thesis by simp
    qed
    moreover have "mc_evictToFit sz c = Some c'"
      using ne c'(1) by (subst mc_evictToFit.simps) simp
    ultimately show ?thesis
      using c' n pre [OF n] by (intro exI [of _ c'] exI [of _ n]) simp
  qed
qed

section \<open>Every operation keeps the invariant\<close>

lemma mc_evictToFit_inv:
  assumes "mc_inv c" "mc_evictToFit sz c = Some c'"
  shows "mc_inv c' \<and> mc_cfg c' = mc_cfg c \<and> mc_fits (mc_cfg c) sz (mc_entries c')
    \<and> set (mc_entries c') \<subseteq> set (mc_entries c)"
  using mc_evictToFit_spec [OF assms(1), of sz] assms(2) by (auto simp: keep_keys_def)

lemma mc_evictEntry_frame:
  "mc_cfg (mc_evictEntry k e c) = mc_cfg c" "length (mc_entries (mc_evictEntry k e c)) \<le> length (mc_entries c)"
  by (simp_all add: mc_evictEntry_def length_delete_le)

lemma mc_bump_frame [simp]:
  "mc_cfg (mc_bump_miss c) = mc_cfg c" "mc_entries (mc_bump_miss c) = mc_entries c" "mc_lru (mc_bump_miss c) = mc_lru c"
  "mc_cfg (mc_bump_hit c) = mc_cfg c" "mc_entries (mc_bump_hit c) = mc_entries c" "mc_lru (mc_bump_hit c) = mc_lru c"
  by (simp_all add: mc_bump_miss_def mc_bump_hit_def)

lemma mc_touch_frame [simp]: "mc_cfg (mc_touch k c) = mc_cfg c" "mc_entries (mc_touch k c) = mc_entries c"
  by (simp_all add: mc_touch_def)

text \<open>
  The facts of a state that the operations preserve: the invariant, the capacity and the
  configuration the cache was built with.
\<close>

definition mc_ok :: "mc_config \<Rightarrow> ('k, 'v) memory_cache \<Rightarrow> bool" where
  "mc_ok cfg c \<longleftrightarrow> mc_inv c \<and> mc_within c \<and> mc_cfg c = cfg"

lemma mc_ok_init: "mc_ok cfg (mk_MemoryCache cfg)"
  by (simp add: mc_ok_def mk_MemoryCache_def mc_inv_def mc_within_def empty_stats_def)

lemma mc_ok_evictEntry [sk_inv]:
  "mc_ok cfg c \<Longrightarrow> map_of (mc_entries c) k = Some e \<Longrightarrow> mc_ok cfg (mc_evictEntry k e c)"
  using mc_evictEntry_inv [of c k e] mc_evictEntry_frame [of k e c]
  by (auto simp: mc_ok_def mc_within_def)

lemma mc_ok_bump [sk_inv]: "mc_ok cfg (mc_bump_miss c) = mc_ok cfg c" "mc_ok cfg (mc_bump_hit c) = mc_ok cfg c"
  by (simp_all add: mc_ok_def mc_within_def mc_bump_inv)

lemma mc_ok_get [sk_inv]:
  assumes "mc_ok cfg c"
  shows "mc_ok cfg (snd (mc_get now k c))"
proof (cases "map_of (mc_entries c) k")
  case (Some e)
  then have "k \<in> set (mc_lru c)" using assms map_of_keys [OF Some] by (simp add: mc_inv_def mc_ok_def)
  then have "mc_ok cfg (mc_touch k c)" using assms mc_touch_inv by (auto simp: mc_ok_def mc_within_def)
  with Some assms show ?thesis by (simp add: mc_get_def mc_ok_bump mc_ok_evictEntry)
qed (simp add: assms mc_get_def mc_ok_bump)

lemma mc_ok_getMany [sk_inv]: "mc_ok cfg c \<Longrightarrow> mc_ok cfg (snd (mc_getMany now ks c))"
proof (induction ks arbitrary: c)
  case (Cons k ks)
  have "mc_ok cfg (snd (mc_get now k c))" using Cons.prems by (rule mc_ok_get)
  from Cons.IH [OF this] show ?case by (auto split: prod.splits option.splits)
qed simp

lemma mc_ok_store [sk_inv]:
  assumes "mc_ok cfg c" "mc_store k v sz ex c = Some c'"
  shows "mc_ok cfg c'"
proof (cases "map_of (mc_entries c) k")
  case (Some e)
  with assms have "c' = mc_update k v sz ex e c" by (simp add: mc_store_def)
  moreover have "mc_cfg (mc_update k v sz ex e c) = mc_cfg c"
    "length (mc_entries (mc_update k v sz ex e c)) = length (mc_entries c)"
    using length_update_key [OF Some] by (simp_all add: mc_update_def Let_def mc_touch_def)
  ultimately show ?thesis using assms(1) mc_update_inv [OF _ Some] by (auto simp: mc_ok_def mc_within_def)
next
  case None
  with assms(2) obtain d where d: "mc_evictToFit sz c = Some d" "c' = mc_insert k v sz ex d"
    by (auto simp: mc_store_def)
  with assms(1) mc_evictToFit_inv [of c sz d] have i: "mc_inv d" "mc_cfg d = cfg"
    "mc_fits cfg sz (mc_entries d)" "set (mc_entries d) \<subseteq> set (mc_entries c)" by (auto simp: mc_ok_def)
  then have "map_of (mc_entries d) k = None" using None by (auto simp: map_of_eq_None_iff)
  with i d(2) mc_insert_inv [of d k v sz ex] show ?thesis
    by (auto simp: mc_ok_def mc_within_def mc_fits_def mc_insert_def)
qed

lemma mc_ok_put [sk_inv]: "mc_ok cfg c \<Longrightarrow> mc_put est now k v ttl c = Some c' \<Longrightarrow> mc_ok cfg c'"
  unfolding mc_put_def by (rule mc_ok_store)

lemma mc_ok_putMany [sk_inv]: "mc_ok cfg c \<Longrightarrow> mc_putMany est now kvs ttl c = Some c' \<Longrightarrow> mc_ok cfg c'"
  by (induction est now kvs ttl c rule: mc_putMany.induct) (auto split: option.splits dest: mc_ok_put)

lemma mc_ok_remove [sk_inv]: "mc_ok cfg c \<Longrightarrow> mc_ok cfg (snd (mc_remove k c))"
  by (auto simp: mc_remove_def mc_ok_evictEntry split: option.splits)

lemma mc_ok_contains [sk_inv]: "mc_ok cfg c \<Longrightarrow> mc_ok cfg (snd (mc_contains now k c))"
  by (auto simp: mc_contains_def mc_ok_evictEntry split: option.splits)

lemma mc_ok_clear [sk_inv]: "mc_ok cfg c \<Longrightarrow> mc_ok cfg (mc_clear c)"
  by (simp add: mc_ok_def mc_clear_def mc_inv_def mc_within_def)

text \<open>The invariant alone is enough for \<open>put\<close> to return, to keep it and to store the value.\<close>

lemma mc_store_total:
  assumes "mc_inv c"
  shows "\<exists>c' e. mc_store k v sz ex c = Some c' \<and> mc_inv c' \<and> mc_cfg c' = mc_cfg c
    \<and> map_of (mc_entries c') k = Some e \<and> e_value e = v \<and> e_expireTime e = ex"
proof (cases "map_of (mc_entries c) k")
  case (Some e)
  have "map_of (mc_entries (mc_update k v sz ex e c)) k = Some (e\<lparr>e_value := v, e_size := sz,
      e_expireTime := ex, e_accessCount := Suc (e_accessCount e)\<rparr>)" "mc_cfg (mc_update k v sz ex e c) = mc_cfg c"
    by (simp_all add: mc_update_def Let_def mc_touch_def AList.update_conv')
  with mc_update_inv [OF assms Some] Some show ?thesis by (simp add: mc_store_def)
next
  case None
  obtain d where d: "mc_evictToFit sz c = Some d" using mc_evictToFit_spec [OF assms] by blast
  note i = mc_evictToFit_inv [OF assms d]
  then have "map_of (mc_entries d) k = None" using None by (auto simp: map_of_eq_None_iff)
  with d i mc_insert_inv [of d k v sz ex] None show ?thesis
    by (simp add: mc_store_def) (simp add: mc_insert_def)
qed

text \<open>The transition system of one cache: any operation at any clock reading.\<close>

inductive mc_step :: "('v \<Rightarrow> nat) \<Rightarrow> ('k, 'v) memory_cache \<Rightarrow> ('k, 'v) memory_cache \<Rightarrow> bool" for est where
  step_get: "mc_step est c (snd (mc_get now k c))"
| step_put: "mc_put est now k v ttl c = Some c' \<Longrightarrow> mc_step est c c'"
| step_remove: "mc_step est c (snd (mc_remove k c))"
| step_contains: "mc_step est c (snd (mc_contains now k c))"
| step_clear: "mc_step est c (mc_clear c)"
| step_getMany: "mc_step est c (snd (mc_getMany now ks c))"
| step_putMany: "mc_putMany est now kvs ttl c = Some c' \<Longrightarrow> mc_step est c c'"

interpretation mc_life: inductive_invariant "\<lambda>c. c = mk_MemoryCache cfg" "mc_step est" "mc_ok cfg" for cfg est
proof
  fix c c' assume ok: "mc_ok cfg c" and "mc_step est c c'"
  from this(2) show "mc_ok cfg c'" by (cases rule: mc_step.cases) (use ok in \<open>auto intro: sk_inv\<close>)
qed (simp add: mc_ok_init)

abbreviation mc_reach :: "('v \<Rightarrow> nat) \<Rightarrow> mc_config \<Rightarrow> ('k, 'v) memory_cache \<Rightarrow> bool" where
  "mc_reach est cfg \<equiv> reach (\<lambda>c. c = mk_MemoryCache cfg) (mc_step est)"

section \<open>Properties\<close>

text \<open>C7 (invariant). Whatever operations ran, in whatever order and at whatever clock readings, the
  recency list holds exactly the stored keys, each once; \<open>totalBytes\<close> is the sum of the stored sizes
  (so no decrement of it ever wraps); and the number of entries stays within \<open>maxEntries\<close> (one
  entry is still stored when \<open>maxEntries\<close> is 0).\<close>

theorem mc_reachable_invariant:
  assumes "mc_reach est cfg c"
  shows "distinct (mc_lru c) \<and> set (mc_lru c) = fst ` set (mc_entries c)
    \<and> distinct (map fst (mc_entries c))
    \<and> totalBytes (mc_stats c) = sum_list (map (e_size \<circ> snd) (mc_entries c))
    \<and> mc_size c \<le> max 1 (maxEntries cfg) \<and> mc_cfg c = cfg"
  using mc_life.reach_inv [OF assms]
  by (auto simp: mc_ok_def mc_inv_def mc_within_def mc_bytes_def mc_size_def)

definition tiny_config :: mc_config where
  "tiny_config = \<lparr>maxEntries = 2, maxBytes = 10, defaultTtl = None\<rparr>"

lemma tiny_run:
  "mc_put id 0 (1::nat) 4 None (mk_MemoryCache tiny_config) =
     Some (mc_insert 1 4 4 None (mk_MemoryCache tiny_config))"
  by (simp add: mc_put_def mc_store_def mk_MemoryCache_def mc_evictToFit.simps [of _ "\<lparr>mc_cfg = _, mc_entries = [], mc_lru = _, mc_stats = _\<rparr>"]
      computeExpireTime_def tiny_config_def)

lemma tiny_reach: "mc_reach id tiny_config (mc_insert (1::nat) (4::nat) 4 None (mk_MemoryCache tiny_config))"
  using reach_step [of "\<lambda>c. c = mk_MemoryCache tiny_config" "mc_step id", OF _ step_put [OF tiny_run]]
  by (simp add: reach_init)

theorem mc_reachable_invariant_witness:
  "mc_size (mc_insert (1::nat) (4::nat) 4 None (mk_MemoryCache tiny_config)) \<le> max 1 (maxEntries tiny_config)"
  using mc_reachable_invariant [OF tiny_reach] by blast

text \<open>C8 (termination, functional). \<open>put\<close> of a new key always returns. In a cache in which no entry has expired, it keeps the longest run of most
  recently used entries that leaves room for the new one, drops the rest, stores the new entry at the
  front, and a new entry no larger than \<open>maxBytes\<close> leaves the total within \<open>maxBytes\<close>.\<close>

theorem mc_put_new_key:
  assumes "mc_reach est cfg c" "map_of (mc_entries c) k = None" "\<forall>(k', e)\<in>set (mc_entries c). \<not> mc_isExpired now e"
  shows "\<exists>c' n. mc_put est now k v ttl c = Some c' \<and> n \<le> length (mc_lru c)
    \<and> mc_lru c' = k # take n (mc_lru c)
    \<and> map_of (mc_entries c') = (map_of (mc_entries c) |` set (take n (mc_lru c)))
        (k \<mapsto> \<lparr>e_value = v, e_expireTime = computeExpireTime cfg now ttl, e_size = est v, e_accessCount = 1\<rparr>)
    \<and> mc_fits cfg (est v) (keep_keys (take n (mc_lru c)) (mc_entries c))
    \<and> (\<forall>m. n < m \<and> m \<le> length (mc_lru c) \<longrightarrow>
          \<not> mc_fits cfg (est v) (keep_keys (take m (mc_lru c)) (mc_entries c)))
    \<and> (maxBytes cfg > 0 \<and> est v \<le> maxBytes cfg \<longrightarrow> totalBytes (mc_stats c') \<le> maxBytes cfg)"
proof -
  have ok: "mc_inv c" "mc_cfg c = cfg" using mc_life.reach_inv [OF assms(1)] by (simp_all add: mc_ok_def)
  obtain d n where d: "mc_evictToFit (est v) c = Some d" "mc_inv d" "mc_cfg d = cfg" "n \<le> length (mc_lru c)"
      "mc_lru d = take n (mc_lru c)" "mc_entries d = keep_keys (take n (mc_lru c)) (mc_entries c)"
      "mc_fits cfg (est v) (mc_entries d)"
    and mx: "\<forall>m. n < m \<and> m \<le> length (mc_lru c) \<longrightarrow>
          \<not> mc_fits cfg (est v) (keep_keys (take m (mc_lru c)) (mc_entries c))"
    using mc_evictToFit_spec [OF ok(1), of "est v"] unfolding ok(2) by blast
  let ?c' = "mc_insert k v (est v) (computeExpireTime cfg now ttl) d"
  have "mc_put est now k v ttl c = Some ?c'" using assms(2) d(1) ok(2) by (simp add: mc_put_def mc_store_def)
  moreover have "map_of (mc_entries d) = map_of (mc_entries c) |` set (take n (mc_lru c))"
    unfolding d(6) keep_keys_def by (rule map_of_keep_keys)
  moreover have "maxBytes cfg > 0 \<and> est v \<le> maxBytes cfg \<longrightarrow> totalBytes (mc_stats ?c') \<le> maxBytes cfg"
    using d(2,7) by (auto simp: mc_insert_def mc_fits_def mc_inv_def)
  ultimately show ?thesis
    using d mx by (intro exI [of _ ?c'] exI [of _ n]) (simp add: mc_insert_def)
qed

theorem mc_put_new_key_witness:
  "\<exists>c' n. mc_put id 0 (2::nat) (7::nat) None (mc_insert 1 4 4 None (mk_MemoryCache tiny_config)) = Some c'
     \<and> mc_lru c' = 2 # take n [1] \<and> totalBytes (mc_stats c') \<le> 10"
proof -
  let ?c = "mc_insert (1::nat) (4::nat) 4 None (mk_MemoryCache tiny_config)"
  note r = tiny_reach
  have "map_of (mc_entries ?c) 2 = None" "mc_lru ?c = [1]" "\<forall>(k', e)\<in>set (mc_entries ?c). \<not> mc_isExpired 0 e"
    by (simp_all add: mc_insert_def mk_MemoryCache_def mc_isExpired_def)
  with mc_put_new_key [OF r, of 2 0 7 None] show ?thesis by (fastforce simp: tiny_config_def)
qed

text \<open>Expired entries are not dropped first, as the header of the class says: here 2 has expired at time 9 but was used last, and the live entry 1 goes.\<close>

definition expired_cache :: "(nat, nat) memory_cache" where
  "expired_cache = mc_insert 2 5 5 (Some 3) (mc_insert 1 5 5 None (mk_MemoryCache tiny_config))"

declare mc_evictToFit.simps [code]

theorem mc_evicts_live_before_expired:
  "map_of (mc_entries expired_cache) 2 \<noteq> None \<and> mc_isExpired 9 (the (map_of (mc_entries expired_cache) 2))
   \<and> map_option mc_lru (mc_put id 9 3 5 None expired_cache) = Some [3, 2]"
  by code_simp

text \<open>\<open>put\<close> of a key that is stored overwrites it, moves it to the front and evicts nothing:
  every other entry stays, so the total may exceed \<open>maxBytes\<close> by any amount.\<close>

theorem mc_put_existing_key:
  assumes "mc_reach est cfg c" "map_of (mc_entries c) k = Some e"
  shows "\<exists>c'. mc_put est now k v ttl c = Some c' \<and> mc_lru c' = k # remove1 k (mc_lru c)
    \<and> map_of (mc_entries c') = (map_of (mc_entries c))
        (k \<mapsto> \<lparr>e_value = v, e_expireTime = computeExpireTime cfg now ttl, e_size = est v,
              e_accessCount = Suc (e_accessCount e)\<rparr>)
    \<and> totalBytes (mc_stats c') + e_size e = totalBytes (mc_stats c) + est v"
proof -
  have ok: "mc_inv c" "mc_cfg c = cfg" using mc_life.reach_inv [OF assms(1)] by (simp_all add: mc_ok_def)
  have "e_size e \<le> totalBytes (mc_stats c)"
    using mc_bytes_delete [OF _ assms(2)] ok(1) by (auto simp: mc_inv_def)
  then show ?thesis using assms(2) ok(2)
    by (cases e) (simp add: mc_put_def mc_store_def mc_update_def mc_touch_def Let_def AList.update_conv')
qed

theorem mc_put_existing_key_witness:
  "\<exists>c'. mc_put id 0 (1::nat) (1000::nat) None (mc_insert 1 4 4 None (mk_MemoryCache tiny_config)) = Some c'
     \<and> totalBytes (mc_stats c') = 1000 \<and> maxBytes tiny_config = 10"
proof -
  let ?c = "mc_insert (1::nat) (4::nat) 4 None (mk_MemoryCache tiny_config)"
  note r = tiny_reach
  have "map_of (mc_entries ?c) 1 = Some \<lparr>e_value = 4, e_expireTime = None, e_size = 4, e_accessCount = 1\<rparr>"
    "totalBytes (mc_stats ?c) = 4"
    by (simp_all add: mc_insert_def mk_MemoryCache_def empty_stats_def)
  with mc_put_existing_key [OF r this(1), of 0 1000 None] show ?thesis by (fastforce simp: tiny_config_def)
qed

end
