(* ===== verification/SK_Int32.thy ===== *)
theory SK_Int32
  imports "HOL-Library.Word"
begin

text \<open>
  The conversion of a 64-bit integer to an \<^verbatim>\<open>int\<close>, which several components perform.
\<close>

text \<open>\<^verbatim>\<open>static_cast<int>\<close> of a 64-bit number keeps its low 32 bits.\<close>

definition to_int32 :: "int \<Rightarrow> int" where
  "to_int32 x = sint (word_of_int x :: 32 word)"

lemma to_int32_mod: "to_int32 x = signed_take_bit 31 x"
  by (simp add: to_int32_def signed_of_int)

lemma to_int32_wrap: "to_int32 (x - 2 ^ 32) = to_int32 x"
  unfolding to_int32_mod by (rule signed_take_bit_eq_iff_take_bit_eq [THEN iffD2]) (simp add: take_bit_eq_mod mod_diff_right_eq [symmetric])

lemma to_int32_small: "- (2 ^ 31) \<le> x \<Longrightarrow> x < 2 ^ 31 \<Longrightarrow> to_int32 x = x"
  by (simp add: to_int32_mod signed_take_bit_int_eq_self)

lemma to_int32_range: "- (2 ^ 31) \<le> to_int32 x \<and> to_int32 x < 2 ^ 31"
  unfolding to_int32_def using sint_range_size [of "word_of_int x :: 32 word"] by (simp add: word_size)

end
