(* ===== verification/SK_DiskCache.thy ===== *)
theory SK_DiskCache
  imports SK_MemoryCache SK_Int32 "HOL-Library.Sublist"
begin

text \<open>
  The disk cache of \<^verbatim>\<open>src/soul/cache/disk_cache.cpp\<close>.

  The files, their times and the path and number conversions belong to Qt: they are the fields of
  a record \<open>qfs\<close> over an abstract file-system state, which every operation takes as an argument.
  \<open>qfs_contract\<close> collects what the Qt documentation promises of them, as hypotheses of the theorems;
  any of the operations may fail. The hash of a key is a parameter as well.
  The two clocks the code reads are arguments: the steady clock in nanoseconds, the wall clock in
  milliseconds since the epoch.
\<close>

section \<open>The interface to Qt's files\<close>

datatype write_outcome = Written | OpenFailed | ShortWrite | CloseError

record 'fs qfs =
  q_exists :: "string \<Rightarrow> 'fs \<Rightarrow> bool"
  q_size :: "string \<Rightarrow> 'fs \<Rightarrow> nat"
  q_lastModified :: "string \<Rightarrow> 'fs \<Rightarrow> int"
  q_readAll :: "string \<Rightarrow> 'fs \<Rightarrow> string option"
  q_writeAll :: "string \<Rightarrow> string \<Rightarrow> 'fs \<Rightarrow> write_outcome \<times> 'fs"
  q_remove :: "string \<Rightarrow> 'fs \<Rightarrow> bool \<times> 'fs"
  q_rename :: "string \<Rightarrow> string \<Rightarrow> 'fs \<Rightarrow> bool \<times> 'fs"
  q_mkpath :: "string \<Rightarrow> 'fs \<Rightarrow> bool \<times> 'fs"
  q_dirExists :: "string \<Rightarrow> 'fs \<Rightarrow> bool"
  q_subDirs :: "string \<Rightarrow> 'fs \<Rightarrow> string list"
  q_datFiles :: "string \<Rightarrow> 'fs \<Rightarrow> string list"
  q_files :: "string \<Rightarrow> 'fs \<Rightarrow> string list"
  q_removeRecursively :: "string \<Rightarrow> 'fs \<Rightarrow> 'fs"
  q_filePath :: "string \<Rightarrow> string \<Rightarrow> string"
  q_absolutePath :: "string \<Rightarrow> string"
  q_number :: "int \<Rightarrow> string"
  q_toLongLong :: "string \<Rightarrow> int option"
  q_sha256Hex :: "string \<Rightarrow> string"

section \<open>State\<close>

record dc_config =
  d_cacheDir :: string
  d_maxBytes :: nat
  d_defaultTtl :: "int option"

record 'fs disk_cache =
  dc_cfg :: dc_config
  dc_stats :: CacheStats
  dc_lruIndex :: "(string \<times> int) list"
  dc_fs :: 'fs

section \<open>Helpers\<close>

definition readExpiryMSecs :: "'fs qfs \<Rightarrow> string \<Rightarrow> 'fs \<Rightarrow> int" where
  "readExpiryMSecs q ttlPath fs =
     (if \<not> q_exists q ttlPath fs then -1
      else case q_readAll q ttlPath fs of
        None \<Rightarrow> -1
      | Some s \<Rightarrow> (case q_toLongLong q s of Some expiry \<Rightarrow> expiry | None \<Rightarrow> -1))"

definition writeExpiryMSecs :: "'fs qfs \<Rightarrow> string \<Rightarrow> int \<Rightarrow> 'fs \<Rightarrow> bool \<times> 'fs" where
  "writeExpiryMSecs q ttlPath expiry fs =
     (case q_writeAll q ttlPath (q_number q expiry) fs of (r, fs') \<Rightarrow> (r \<noteq> OpenFailed, fs'))"

definition dataSizeOnDisk :: "'fs qfs \<Rightarrow> string \<Rightarrow> 'fs \<Rightarrow> nat" where
  "dataSizeOnDisk q dataPath fs = (if q_exists q dataPath fs then q_size q dataPath fs else 0)"

definition keyToDataPath :: "'fs qfs \<Rightarrow> dc_config \<Rightarrow> string \<Rightarrow> string" where
  "keyToDataPath q cfg key =
     (let h = q_sha256Hex q key
      in q_filePath q (d_cacheDir cfg) (take 2 h @ ''/'' @ drop 2 h @ ''.dat''))"

definition ttlOf :: "string \<Rightarrow> string" where
  "ttlOf dataPath = dataPath @ ''.ttl''"

definition keyToTtlPath :: "'fs qfs \<Rightarrow> dc_config \<Rightarrow> string \<Rightarrow> string" where
  "keyToTtlPath q cfg key = ttlOf (keyToDataPath q cfg key)"

definition dc_isExpired :: "'fs qfs \<Rightarrow> int \<Rightarrow> string \<Rightarrow> 'fs disk_cache \<Rightarrow> bool" where
  "dc_isExpired q wall key c =
     (let ttlPath = keyToTtlPath q (dc_cfg c) key
      in if \<not> q_exists q ttlPath (dc_fs c) then False
         else let expiry = readExpiryMSecs q ttlPath (dc_fs c)
              in if expiry < 0 then True else wall > expiry)"

definition ensureCacheDir :: "'fs qfs \<Rightarrow> dc_config \<Rightarrow> 'fs \<Rightarrow> 'fs" where
  "ensureCacheDir q cfg fs =
     (if d_cacheDir cfg = [] then fs
      else if q_dirExists q (d_cacheDir cfg) fs then fs
      else snd (q_mkpath q (d_cacheDir cfg) fs))"

text \<open>\<open>totalBytes -= oldSize\<close>, guarded against underflow as everywhere in the source.\<close>

definition dc_drop_bytes :: "nat \<Rightarrow> 'fs disk_cache \<Rightarrow> 'fs disk_cache" where
  "dc_drop_bytes oldSize c =
     (if oldSize > 0 \<and> totalBytes (dc_stats c) \<ge> oldSize
      then c\<lparr>dc_stats := (dc_stats c)\<lparr>totalBytes := totalBytes (dc_stats c) - oldSize\<rparr>\<rparr> else c)"

definition dc_miss :: "'fs disk_cache \<Rightarrow> 'fs disk_cache" where
  "dc_miss c = c\<lparr>dc_stats := (dc_stats c)\<lparr>missCount := Suc (missCount (dc_stats c))\<rparr>\<rparr>"

definition dc_hit :: "'fs disk_cache \<Rightarrow> 'fs disk_cache" where
  "dc_hit c = c\<lparr>dc_stats := (dc_stats c)\<lparr>hitCount := Suc (hitCount (dc_stats c))\<rparr>\<rparr>"

definition dc_touch :: "'fs qfs \<Rightarrow> int \<Rightarrow> string \<Rightarrow> 'fs disk_cache \<Rightarrow> 'fs disk_cache" where
  "dc_touch q steady key c =
     c\<lparr>dc_lruIndex := AList.update (keyToDataPath q (dc_cfg c) key) steady (dc_lruIndex c)\<rparr>"

section \<open>Recovery and eviction\<close>

definition dc_recover_file :: "'fs qfs \<Rightarrow> int \<Rightarrow> int \<Rightarrow> string \<Rightarrow> string \<Rightarrow> 'fs disk_cache \<Rightarrow> 'fs disk_cache" where
  "dc_recover_file q steady wall subDir f c =
     (let filePath = q_filePath q subDir f in
      if \<not> q_exists q filePath (dc_fs c) then c
      else let mtime = q_lastModified q filePath (dc_fs c);
               age = (if wall > mtime then wall - mtime else 0)
           in c\<lparr>dc_stats := (dc_stats c)\<lparr>totalBytes := totalBytes (dc_stats c) + q_size q filePath (dc_fs c)\<rparr>,
                dc_lruIndex := AList.update filePath (steady - age * 1000000) (dc_lruIndex c)\<rparr>)"

definition recoverFromDisk :: "'fs qfs \<Rightarrow> int \<Rightarrow> int \<Rightarrow> 'fs disk_cache \<Rightarrow> 'fs disk_cache" where
  "recoverFromDisk q steady wall c =
     (if \<not> q_dirExists q (d_cacheDir (dc_cfg c)) (dc_fs c) then c
      else fold (\<lambda>sub. let subDir = q_filePath q (d_cacheDir (dc_cfg c)) sub
                       in fold (dc_recover_file q steady wall subDir) (q_datFiles q subDir (dc_fs c)))
             (q_subDirs q (d_cacheDir (dc_cfg c)) (dc_fs c)) c)"

definition mk_DiskCache :: "'fs qfs \<Rightarrow> int \<Rightarrow> int \<Rightarrow> dc_config \<Rightarrow> 'fs \<Rightarrow> 'fs disk_cache" where
  "mk_DiskCache q steady wall config fs =
     recoverFromDisk q steady wall
       \<lparr>dc_cfg = config, dc_stats = empty_stats, dc_lruIndex = [], dc_fs = ensureCacheDir q config fs\<rparr>"

text \<open>\<^verbatim>\<open>std::min_element\<close>: the first entry with the smallest time stamp.\<close>

fun oldest_entry :: "(string \<times> int) list \<Rightarrow> (string \<times> int) option" where
  "oldest_entry [] = None"
| "oldest_entry (x # xs) =
     (case oldest_entry xs of None \<Rightarrow> Some x | Some m \<Rightarrow> if snd m < snd x then Some m else Some x)"

definition dc_evictLru :: "'fs qfs \<Rightarrow> 'fs disk_cache \<Rightarrow> 'fs disk_cache" where
  "dc_evictLru q c =
     (case oldest_entry (dc_lruIndex c) of
        None \<Rightarrow> c
      | Some (path, _) \<Rightarrow>
          let oldSize = dataSizeOnDisk q path (dc_fs c);
              (dataRemoved, fs1) = q_remove q path (dc_fs c);
              (_, fs2) = q_remove q (ttlOf path) fs1;
              c1 = c\<lparr>dc_fs := fs2, dc_lruIndex := AList.delete path (dc_lruIndex c)\<rparr>
          in if dataRemoved \<and> oldSize > 0 \<and> totalBytes (dc_stats c) \<ge> oldSize
             then c1\<lparr>dc_stats := (dc_stats c)\<lparr>totalBytes := totalBytes (dc_stats c) - oldSize,
                                             evictionCount := Suc (evictionCount (dc_stats c))\<rparr>\<rparr>
             else c1)"

lemma oldest_entry_mem: "oldest_entry xs = Some m \<Longrightarrow> m \<in> set xs"
  by (induction xs arbitrary: m) (auto split: option.splits if_splits)

lemma oldest_entry_None [simp]: "oldest_entry xs = None \<longleftrightarrow> xs = []"
  by (cases xs) (auto split: option.splits)

lemma length_delete_mem: "(k, v) \<in> set xs \<Longrightarrow> length (AList.delete k xs) < length xs"
  by (simp add: AList.delete_eq) (metis (mono_tags, lifting) case_prod_conv length_filter_less)

lemma dc_evictLru_index:
  assumes "dc_lruIndex c \<noteq> []"
  shows "length (dc_lruIndex (dc_evictLru q c)) < length (dc_lruIndex c)"
proof -
  obtain p t where "oldest_entry (dc_lruIndex c) = Some (p, t)" using assms oldest_entry_None
    by (metis not_None_eq surj_pair)
  then show ?thesis using length_delete_mem [OF oldest_entry_mem]
    by (auto simp: dc_evictLru_def Let_def split: prod.splits)
qed

function dc_evictLoop :: "'fs qfs \<Rightarrow> nat \<Rightarrow> 'fs disk_cache \<Rightarrow> 'fs disk_cache" where
  "dc_evictLoop q incomingSize c =
     (if totalBytes (dc_stats c) + incomingSize > d_maxBytes (dc_cfg c) \<and> dc_lruIndex c \<noteq> []
      then dc_evictLoop q incomingSize (dc_evictLru q c) else c)"
  by pat_completeness auto
termination
  by (relation "measure (\<lambda>(q, n, c). length (dc_lruIndex c))") (auto simp: dc_evictLru_index)

declare dc_evictLoop.simps [simp del]

definition dc_evictToFit :: "'fs qfs \<Rightarrow> nat \<Rightarrow> 'fs disk_cache \<Rightarrow> bool \<times> 'fs disk_cache" where
  "dc_evictToFit q incomingSize c =
     (if d_maxBytes (dc_cfg c) = 0 then (True, c)
      else if incomingSize > d_maxBytes (dc_cfg c) then (False, c)
      else let c1 = dc_evictLoop q incomingSize c
           in (totalBytes (dc_stats c1) + incomingSize \<le> d_maxBytes (dc_cfg c1), c1))"

definition writeAtomically :: "'fs qfs \<Rightarrow> string \<Rightarrow> string \<Rightarrow> 'fs \<Rightarrow> bool \<times> 'fs" where
  "writeAtomically q targetPath data fs =
     (let tmpPath = targetPath @ ''.tmp'' in
      case q_writeAll q tmpPath data fs of
        (OpenFailed, fs1) \<Rightarrow> (False, fs1)
      | (ShortWrite, fs1) \<Rightarrow> (False, snd (q_remove q tmpPath fs1))
      | (CloseError, fs1) \<Rightarrow> (False, snd (q_remove q tmpPath fs1))
      | (Written, fs1) \<Rightarrow>
          (case q_rename q tmpPath targetPath fs1 of
             (True, fs2) \<Rightarrow> (True, fs2)
           | (False, fs2) \<Rightarrow> (False, snd (q_remove q tmpPath fs2))))"

section \<open>Operations\<close>

text \<open>The clean-up of an expired entry, which three operations repeat.\<close>

definition dc_drop_expired :: "'fs qfs \<Rightarrow> string \<Rightarrow> 'fs disk_cache \<Rightarrow> 'fs disk_cache" where
  "dc_drop_expired q key c =
     (let dataPath = keyToDataPath q (dc_cfg c) key;
          oldSize = dataSizeOnDisk q dataPath (dc_fs c);
          fs1 = snd (q_remove q dataPath (dc_fs c));
          fs2 = snd (q_remove q (keyToTtlPath q (dc_cfg c) key) fs1);
          c1 = dc_drop_bytes oldSize (c\<lparr>dc_fs := fs2\<rparr>)
      in c1\<lparr>dc_lruIndex := AList.delete dataPath (dc_lruIndex c1)\<rparr>)"

definition dc_get :: "'fs qfs \<Rightarrow> int \<Rightarrow> int \<Rightarrow> string \<Rightarrow> 'fs disk_cache \<Rightarrow> string option result \<times> 'fs disk_cache" where
  "dc_get q steady wall key c =
     (let dataPath = keyToDataPath q (dc_cfg c) key in
      if \<not> q_exists q dataPath (dc_fs c) then (Ok None, dc_miss c)
      else if dc_isExpired q wall key c then (Ok None, dc_miss (dc_drop_expired q key c))
      else case q_readAll q dataPath (dc_fs c) of
        None \<Rightarrow> (Err (mk_error EC_InternalError ''DiskCache: cannot open data file''), c)
      | Some data \<Rightarrow> (Ok (Some data), dc_touch q steady key (dc_hit c)))"

text \<open>
  The body of \<open>put\<close>, which \<open>putMany\<close> repeats for every entry with another message for a failed write.
\<close>

definition dc_write_ttl :: "'fs qfs \<Rightarrow> int \<Rightarrow> string \<Rightarrow> int option \<Rightarrow> 'fs disk_cache \<Rightarrow> 'fs disk_cache" where
  "dc_write_ttl q wall key ttl c =
     (let effectiveTtl = (case ttl of Some t \<Rightarrow> t
                          | None \<Rightarrow> (case d_defaultTtl (dc_cfg c) of Some t \<Rightarrow> t | None \<Rightarrow> 0));
          ttlPath = keyToTtlPath q (dc_cfg c) key
      in if effectiveTtl > 0 then c\<lparr>dc_fs := snd (writeExpiryMSecs q ttlPath (wall + effectiveTtl) (dc_fs c))\<rparr>
         else c\<lparr>dc_fs := snd (q_remove q ttlPath (dc_fs c))\<rparr>)"

definition dc_commit :: "'fs qfs \<Rightarrow> int \<Rightarrow> int \<Rightarrow> string \<Rightarrow> string \<Rightarrow> int option \<Rightarrow> nat \<Rightarrow> 'fs disk_cache
    \<Rightarrow> 'fs disk_cache" where
  "dc_commit q steady wall key value ttl oldSize c =
     (let c1 = dc_drop_bytes oldSize c;
          c2 = c1\<lparr>dc_stats := (dc_stats c1)\<lparr>totalBytes := totalBytes (dc_stats c1) + length value\<rparr>\<rparr>
      in dc_write_ttl q wall key ttl (dc_touch q steady key c2))"

text \<open>\<^verbatim>\<open>QByteArray(data, static_cast<int>(size))\<close>: a negative size means the bytes up to the first zero.\<close>

definition to_bytearray :: "string \<Rightarrow> string" where
  "to_bytearray v = (let n = to_int32 (int (length v)) in if n < 0 then takeWhile (\<lambda>c. c \<noteq> CHR 0x00) v else take (nat n) v)"

lemma to_bytearray_small: "length v < 2 ^ 31 \<Longrightarrow> to_bytearray v = v"
  by (simp add: to_bytearray_def to_int32_small)

definition dc_put_as :: "string \<Rightarrow> 'fs qfs \<Rightarrow> int \<Rightarrow> int \<Rightarrow> string \<Rightarrow> string \<Rightarrow> int option \<Rightarrow> 'fs disk_cache
    \<Rightarrow> unit result \<times> 'fs disk_cache" where
  "dc_put_as writeFailed q steady wall key value ttl c =
     (let dataPath = keyToDataPath q (dc_cfg c) key in
      case q_mkpath q (q_absolutePath q dataPath) (dc_fs c) of
        (False, fs1) \<Rightarrow> (Err (mk_error EC_InternalError ''DiskCache: cannot create directory''), c\<lparr>dc_fs := fs1\<rparr>)
      | (True, fs1) \<Rightarrow>
          let c1 = c\<lparr>dc_fs := fs1\<rparr>;
              oldSize = dataSizeOnDisk q dataPath fs1
          in case dc_evictToFit q (length value) c1 of
               (False, c2) \<Rightarrow> (Err (mk_error EC_InternalError ''DiskCache: cache full, cannot evict enough space''), c2)
             | (True, c2) \<Rightarrow>
                 (case writeAtomically q dataPath (to_bytearray value) (dc_fs c2) of
                    (False, fs2) \<Rightarrow> (Err (mk_error EC_InternalError writeFailed), c2\<lparr>dc_fs := fs2\<rparr>)
                  | (True, fs2) \<Rightarrow> (Ok (), dc_commit q steady wall key value ttl oldSize (c2\<lparr>dc_fs := fs2\<rparr>))))"

definition dc_put :: "'fs qfs \<Rightarrow> int \<Rightarrow> int \<Rightarrow> string \<Rightarrow> string \<Rightarrow> int option \<Rightarrow> 'fs disk_cache
    \<Rightarrow> unit result \<times> 'fs disk_cache" where
  "dc_put = dc_put_as ''DiskCache: atomic write failed''"

definition dc_remove :: "'fs qfs \<Rightarrow> string \<Rightarrow> 'fs disk_cache \<Rightarrow> unit result \<times> 'fs disk_cache" where
  "dc_remove q key c =
     (let dataPath = keyToDataPath q (dc_cfg c) key;
          ttlPath = keyToTtlPath q (dc_cfg c) key;
          (removed, c1) =
            (if q_exists q dataPath (dc_fs c)
             then let oldSize = dataSizeOnDisk q dataPath (dc_fs c);
                      (r, fs1) = q_remove q dataPath (dc_fs c)
                  in (r, if r then dc_drop_bytes oldSize (c\<lparr>dc_fs := fs1\<rparr>) else c\<lparr>dc_fs := fs1\<rparr>)
             else (False, c));
          c2 = (if q_exists q ttlPath (dc_fs c1) then c1\<lparr>dc_fs := snd (q_remove q ttlPath (dc_fs c1))\<rparr> else c1);
          c3 = c2\<lparr>dc_lruIndex := AList.delete dataPath (dc_lruIndex c2)\<rparr>
      in (if removed then Ok () else Err (mk_error EC_NotFound ''DiskCache: key not found''), c3))"

definition dc_contains :: "'fs qfs \<Rightarrow> int \<Rightarrow> int \<Rightarrow> string \<Rightarrow> 'fs disk_cache \<Rightarrow> bool result \<times> 'fs disk_cache" where
  "dc_contains q steady wall key c =
     (if \<not> q_exists q (keyToDataPath q (dc_cfg c) key) (dc_fs c) then (Ok False, c)
      else if dc_isExpired q wall key c then (Ok False, dc_drop_expired q key c)
      else (Ok True, dc_touch q steady key c))"

definition dc_clear :: "'fs qfs \<Rightarrow> 'fs disk_cache \<Rightarrow> unit result \<times> 'fs disk_cache" where
  "dc_clear q c =
     (let dir = d_cacheDir (dc_cfg c) in
      if \<not> q_dirExists q dir (dc_fs c) then (Ok (), c)
      else let fs1 = fold (\<lambda>sub. q_removeRecursively q (q_filePath q dir sub)) (q_subDirs q dir (dc_fs c)) (dc_fs c);
               fs2 = fold (\<lambda>f fs. snd (q_remove q (q_filePath q dir f) fs)) (q_files q dir fs1) fs1
           in (Ok (), c\<lparr>dc_fs := fs2, dc_stats := (dc_stats c)\<lparr>totalBytes := 0\<rparr>, dc_lruIndex := []\<rparr>))"

fun dc_getMany :: "'fs qfs \<Rightarrow> int \<Rightarrow> int \<Rightarrow> string list \<Rightarrow> 'fs disk_cache
    \<Rightarrow> (string \<times> string) list \<times> 'fs disk_cache" where
  "dc_getMany q steady wall [] c = ([], c)"
| "dc_getMany q steady wall (k # ks) c =
     (let dataPath = keyToDataPath q (dc_cfg c) k in
      if \<not> q_exists q dataPath (dc_fs c) then dc_getMany q steady wall ks (dc_miss c)
      else if dc_isExpired q wall k c then dc_getMany q steady wall ks (dc_miss (dc_drop_expired q k c))
      else case q_readAll q dataPath (dc_fs c) of
        None \<Rightarrow> dc_getMany q steady wall ks (dc_miss c)
      | Some data \<Rightarrow>
          (case dc_getMany q steady wall ks (dc_touch q steady k (dc_hit c)) of
             (hits, c2) \<Rightarrow> ((k, data) # AList.delete k hits, c2)))"

fun dc_putMany :: "'fs qfs \<Rightarrow> int \<Rightarrow> int \<Rightarrow> (string \<times> string) list \<Rightarrow> int option \<Rightarrow> 'fs disk_cache
    \<Rightarrow> unit result \<times> 'fs disk_cache" where
  "dc_putMany q steady wall [] ttl c = (Ok (), c)"
| "dc_putMany q steady wall ((k, v) # kvs) ttl c =
     (case dc_put_as ''DiskCache: atomic write failed in putMany'' q steady wall k v ttl c of
        (Inl e, c1) \<Rightarrow> (Err e, c1)
      | (Inr _, c1) \<Rightarrow> dc_putMany q steady wall kvs ttl c1)"

definition dc_size :: "'fs qfs \<Rightarrow> 'fs disk_cache \<Rightarrow> nat" where
  "dc_size q c =
     (let dir = d_cacheDir (dc_cfg c) in
      if \<not> q_dirExists q dir (dc_fs c) then 0
      else sum_list (map (\<lambda>sub. length (q_datFiles q (q_filePath q dir sub) (dc_fs c))) (q_subDirs q dir (dc_fs c))))"

section \<open>What Qt promises\<close>

text \<open>
  \<open>content fs\<close> is the abstract view of a file-system state: which paths hold a file, and its bytes.
  An operation that reports failure has changed no file it was not asked to write. In particular
  \<^verbatim>\<open>QFile::rename\<close> is documented to fail, and to change nothing, when the target exists, and \<^verbatim>\<open>readAll\<close> to return an empty array when
  it fails. \<^verbatim>\<open>filePath\<close> puts the name of the directory before that of the file; removing a directory makes files go, and none come. \<open>reads_whole\<close> says
  in addition that no read of a file that was opened fails.
\<close>

definition qfs_contract :: "'fs qfs \<Rightarrow> ('fs \<Rightarrow> string \<rightharpoonup> string) \<Rightarrow> bool" where
  "qfs_contract q content \<longleftrightarrow>
     (\<forall>p fs. q_exists q p fs \<longleftrightarrow> content fs p \<noteq> None)
   \<and> (\<forall>p fs d. content fs p = Some d \<longrightarrow> q_size q p fs = length d)
   \<and> (\<forall>p fs d. q_readAll q p fs = Some d \<longrightarrow> content fs p = Some d \<or> content fs p \<noteq> None \<and> d = [])
   \<and> (\<forall>d f. suffix f (q_filePath q d f))
   \<and> (\<forall>p fs x d. content (q_removeRecursively q p fs) x = Some d \<longrightarrow> content fs x = Some d)
   \<and> (\<forall>p d fs r fs'. q_writeAll q p d fs = (r, fs') \<longrightarrow>
        (if r = Written then content fs' = (content fs)(p \<mapsto> d) else \<forall>x. x \<noteq> p \<longrightarrow> content fs' x = content fs x))
   \<and> (\<forall>p fs b fs'. q_remove q p fs = (b, fs') \<longrightarrow>
        content fs' = (if b then (content fs)(p := None) else content fs))
   \<and> (\<forall>a b fs r fs'. q_rename q a b fs = (r, fs') \<longrightarrow>
        (if r then content fs b = None \<and> content fs' = ((content fs)(b := content fs a))(a := None)
         else content fs' = content fs))
   \<and> (\<forall>p fs b fs'. q_mkpath q p fs = (b, fs') \<longrightarrow> content fs' = content fs)"

definition reads_whole :: "'fs qfs \<Rightarrow> ('fs \<Rightarrow> string \<rightharpoonup> string) \<Rightarrow> bool" where
  "reads_whole q content \<longleftrightarrow> (\<forall>p fs d. q_readAll q p fs = Some d \<longrightarrow> content fs p = Some d)"

lemma qfs_existsD: "qfs_contract q content \<Longrightarrow> q_exists q p fs \<longleftrightarrow> content fs p \<noteq> None"
  unfolding qfs_contract_def by (drule conjunct1) blast

lemma qfs_readD: "reads_whole q content \<Longrightarrow> q_readAll q p fs = Some d \<Longrightarrow> content fs p = Some d"
  by (simp add: reads_whole_def)

lemma qfs_read_or_empty:
  assumes "qfs_contract q content" "q_readAll q p fs = Some d"
  shows "content fs p = Some d \<or> d = []"
  using assms(1) [unfolded qfs_contract_def, THEN conjunct2, THEN conjunct2, THEN conjunct1, rule_format, OF assms(2)] by blast

lemma qfs_filePathD:
  assumes "qfs_contract q content"
  shows "suffix f (q_filePath q d f)"
  using assms [unfolded qfs_contract_def, THEN conjunct2, THEN conjunct2, THEN conjunct2, THEN conjunct1] by blast

lemma qfs_recursiveD:
  assumes "qfs_contract q content"
  shows "content (q_removeRecursively q p fs) x = None \<or> content (q_removeRecursively q p fs) x = content fs x"
  using assms [unfolded qfs_contract_def, THEN conjunct2, THEN conjunct2, THEN conjunct2, THEN conjunct2, THEN conjunct1, rule_format, of p fs x]
  by (cases "content (q_removeRecursively q p fs) x") simp_all

lemma qfs_writeD:
  assumes "qfs_contract q content" "q_writeAll q p d fs = (r, fs')"
  shows "(r = Written \<longrightarrow> content fs' p = Some d) \<and> (\<forall>x. x \<noteq> p \<longrightarrow> content fs' x = content fs x)"
proof -
  have "if r = Written then content fs' = (content fs)(p \<mapsto> d) else \<forall>x. x \<noteq> p \<longrightarrow> content fs' x = content fs x"
    using assms unfolding qfs_contract_def by blast
  then show ?thesis by (auto split: if_splits)
qed

lemma qfs_removeD: "qfs_contract q content \<Longrightarrow> q_remove q p fs = (b, fs') \<Longrightarrow>
    content fs' = (if b then (content fs)(p := None) else content fs)"
  unfolding qfs_contract_def by blast

lemma qfs_remove_other:
  assumes "qfs_contract q content" "x \<noteq> p"
  shows "content (snd (q_remove q p fs)) x = content fs x"
  using qfs_removeD [OF assms(1), of p fs] assms(2) by (cases "q_remove q p fs") (auto split: if_splits)

lemma qfs_renameD: "qfs_contract q content \<Longrightarrow> q_rename q a b fs = (r, fs') \<Longrightarrow>
    (if r then content fs b = None \<and> content fs' = ((content fs)(b := content fs a))(a := None)
     else content fs' = content fs)"
  unfolding qfs_contract_def by blast

lemma qfs_mkpathD: "qfs_contract q content \<Longrightarrow> q_mkpath q p fs = (b, fs') \<Longrightarrow> content fs' = content fs"
  unfolding qfs_contract_def by blast

lemma suffix_paths [simp]:
  "ttlOf p \<noteq> p" "p \<noteq> ttlOf p" "ttlOf p \<noteq> p @ ''.tmp''" "p @ ''.tmp'' \<noteq> ttlOf p"
  by (simp_all add: ttlOf_def)

section \<open>Lemmas\<close>

text \<open>
  The atomic write: it succeeds only onto a free path, which then holds the data; it never changes
  the target on failure, nor any third file.
\<close>

lemma writeAtomically_spec:
  assumes "qfs_contract q content" "writeAtomically q p d fs = (r, fs')"
  shows "(if r then content fs p = None \<and> content fs' p = Some d else content fs' p = content fs p)
    \<and> (\<forall>x. x \<noteq> p \<and> x \<noteq> p @ ''.tmp'' \<longrightarrow> content fs' x = content fs x)"
proof -
  let ?t = "p @ ''.tmp''"
  obtain w fs1 where w: "q_writeAll q ?t d fs = (w, fs1)" by fastforce
  note W = qfs_writeD [OF assms(1) w]
  note rm = qfs_remove_other [OF assms(1)]
  show ?thesis
  proof (cases w)
    case Written
    obtain b fs2 where b: "q_rename q ?t p fs1 = (b, fs2)" by fastforce
    note R = qfs_renameD [OF assms(1) b]
    show ?thesis using assms(2) w b W R Written
      by (cases b) (auto simp: writeAtomically_def rm)
  qed (use assms(2) w W in \<open>auto simp: writeAtomically_def rm\<close>)
qed

lemma dc_evictLru_cfg [simp]: "dc_cfg (dc_evictLru q c) = dc_cfg c"
  by (auto simp: dc_evictLru_def Let_def split: option.splits prod.splits)

lemma dc_evictLoop_cfg [simp]: "dc_cfg (dc_evictLoop q n c) = dc_cfg c"
  by (induction q n c rule: dc_evictLoop.induct) (subst dc_evictLoop.simps, simp)

lemma dc_evictToFit_cfg: "dc_evictToFit q n c = (b, c') \<Longrightarrow> dc_cfg c' = dc_cfg c"
  by (auto simp: dc_evictToFit_def Let_def split: if_splits)

lemma dc_evictToFit_ok:
  "dc_evictToFit q n c = (True, c') \<Longrightarrow> d_maxBytes (dc_cfg c') = 0 \<or> totalBytes (dc_stats c') + n \<le> d_maxBytes (dc_cfg c')"
  by (auto simp: dc_evictToFit_def Let_def split: if_splits)

lemma dc_evictToFit_idle:
  assumes "d_maxBytes (dc_cfg c) = 0 \<or> totalBytes (dc_stats c) + n \<le> d_maxBytes (dc_cfg c)"
  shows "dc_evictToFit q n c = (True, c)"
proof -
  have "dc_evictLoop q n c = c" if "totalBytes (dc_stats c) + n \<le> d_maxBytes (dc_cfg c)"
    using that by (subst dc_evictLoop.simps) simp
  with assms show ?thesis by (auto simp: dc_evictToFit_def Let_def)
qed

lemma dc_commit_frame:
  assumes "qfs_contract q content"
  shows "content (dc_fs (dc_commit q s w k v ttl old c)) (keyToDataPath q (dc_cfg c) k)
           = content (dc_fs c) (keyToDataPath q (dc_cfg c) k)
    \<and> dc_cfg (dc_commit q s w k v ttl old c) = dc_cfg c
    \<and> totalBytes (dc_stats (dc_commit q s w k v ttl old c)) \<le> totalBytes (dc_stats c) + length v"
proof -
  have wr: "content (snd (writeExpiryMSecs q (ttlOf p) n fs)) p = content fs p" for p n fs
    using qfs_writeD [OF assms, of "ttlOf p" "q_number q n" fs]
    by (cases "q_writeAll q (ttlOf p) (q_number q n) fs") (auto simp: writeExpiryMSecs_def)
  show ?thesis
    by (auto simp: dc_commit_def dc_write_ttl_def dc_touch_def dc_drop_bytes_def Let_def keyToTtlPath_def
        wr qfs_remove_other [OF assms])
qed

text \<open>The successful path of \<open>put\<close>, taken apart.\<close>

lemma dc_put_okE:
  assumes "qfs_contract q content" "dc_put q s w k v ttl c = (Ok (), c')"
  obtains c2 fs2 old where "dc_cfg c2 = dc_cfg c"
    "d_maxBytes (dc_cfg c) = 0 \<or> totalBytes (dc_stats c2) + length v \<le> d_maxBytes (dc_cfg c)"
    "writeAtomically q (keyToDataPath q (dc_cfg c) k) (to_bytearray v) (dc_fs c2) = (True, fs2)"
    "c' = dc_commit q s w k v ttl old (c2\<lparr>dc_fs := fs2\<rparr>)"
proof -
  let ?p = "keyToDataPath q (dc_cfg c) k"
  obtain fs1 where m: "q_mkpath q (q_absolutePath q ?p) (dc_fs c) = (True, fs1)"
    using assms(2) by (cases "q_mkpath q (q_absolutePath q ?p) (dc_fs c)")
      (auto simp: dc_put_def dc_put_as_def Let_def split: bool.splits)
  obtain c2 where e: "dc_evictToFit q (length v) (c\<lparr>dc_fs := fs1\<rparr>) = (True, c2)"
    using assms(2) m by (auto simp: dc_put_def dc_put_as_def Let_def split: bool.splits prod.splits)
  then have cfg: "dc_cfg c2 = dc_cfg c" using dc_evictToFit_cfg by fastforce
  obtain fs2 where w: "writeAtomically q ?p (to_bytearray v) (dc_fs c2) = (True, fs2)"
    using assms(2) m e by (auto simp: dc_put_def dc_put_as_def Let_def split: bool.splits prod.splits)
  show ?thesis
    using that [OF cfg _ w] dc_evictToFit_ok [OF e] cfg assms(2) m e w
    by (auto simp: dc_put_def dc_put_as_def Let_def)
qed

lemma dc_put_ok_state:
  assumes "qfs_contract q content" "dc_put q s w k v ttl c = (Ok (), c')"
  shows "content (dc_fs c') (keyToDataPath q (dc_cfg c) k) = Some (to_bytearray v) \<and> dc_cfg c' = dc_cfg c
    \<and> (d_maxBytes (dc_cfg c) = 0 \<or> totalBytes (dc_stats c') \<le> d_maxBytes (dc_cfg c))"
proof -
  let ?p = "keyToDataPath q (dc_cfg c) k"
  from assms obtain c2 fs2 old where c2: "dc_cfg c2 = dc_cfg c"
    "d_maxBytes (dc_cfg c) = 0 \<or> totalBytes (dc_stats c2) + length v \<le> d_maxBytes (dc_cfg c)"
    "writeAtomically q ?p (to_bytearray v) (dc_fs c2) = (True, fs2)"
    "c' = dc_commit q s w k v ttl old (c2\<lparr>dc_fs := fs2\<rparr>)" by (rule dc_put_okE)
  have "content fs2 ?p = Some (to_bytearray v)" using writeAtomically_spec [OF assms(1) c2(3)] by simp
  then have "content (dc_fs c') ?p = Some (to_bytearray v)" "dc_cfg c' = dc_cfg c"
    "totalBytes (dc_stats c') \<le> totalBytes (dc_stats c2) + length v"
    using dc_commit_frame [OF assms(1), of s w k v ttl old "c2\<lparr>dc_fs := fs2\<rparr>"] c2(1,4) by auto
  with c2(2) show ?thesis by auto
qed

lemma dc_put_refused:
  assumes "qfs_contract q content"
    and "content (dc_fs c) (keyToDataPath q (dc_cfg c) k) = Some old"
    and "d_maxBytes (dc_cfg c) = 0 \<or> totalBytes (dc_stats c) + length v \<le> d_maxBytes (dc_cfg c)"
  shows "\<exists>e c'. dc_put q s w k v ttl c = (Err e, c') \<and> err_code e = EC_InternalError
    \<and> content (dc_fs c') (keyToDataPath q (dc_cfg c) k) = Some old \<and> dc_cfg c' = dc_cfg c"
proof -
  let ?p = "keyToDataPath q (dc_cfg c) k"
  obtain b fs1 where m: "q_mkpath q (q_absolutePath q ?p) (dc_fs c) = (b, fs1)" by fastforce
  then have c1: "content fs1 ?p = Some old" using qfs_mkpathD [OF assms(1) m] assms(2) by simp
  obtain r fs2 where w: "writeAtomically q ?p (to_bytearray v) fs1 = (r, fs2)" by fastforce
  have "\<not> r" "content fs2 ?p = Some old"
    using writeAtomically_spec [OF assms(1) w] c1 by (auto split: if_splits)
  moreover have "dc_evictToFit q (length v) (c\<lparr>dc_fs := fs1\<rparr>) = (True, c\<lparr>dc_fs := fs1\<rparr>)"
    using assms(3) by (intro dc_evictToFit_idle) simp
  ultimately show ?thesis using m w c1
    by (cases b) (simp_all add: dc_put_def dc_put_as_def Let_def)
qed

section \<open>Properties\<close>

text \<open>The calls a client can make, one after the other, and what they leave of the file of a key.\<close>

datatype dc_op = OpGet int int string | OpPut int int string string "int option" | OpRemove string | OpContains int int string | OpClear
  | OpGetMany int int "string list" | OpPutMany int int "(string \<times> string) list" "int option"

fun dc_exec :: "'fs qfs \<Rightarrow> dc_op \<Rightarrow> 'fs disk_cache \<Rightarrow> 'fs disk_cache" where
  "dc_exec q (OpGet s w k) c = snd (dc_get q s w k c)"
| "dc_exec q (OpPut s w k v ttl) c = snd (dc_put q s w k v ttl c)"
| "dc_exec q (OpRemove k) c = snd (dc_remove q k c)"
| "dc_exec q (OpContains s w k) c = snd (dc_contains q s w k c)"
| "dc_exec q OpClear c = snd (dc_clear q c)"
| "dc_exec q (OpGetMany s w ks) c = snd (dc_getMany q s w ks c)"
| "dc_exec q (OpPutMany s w kvs ttl) c = snd (dc_putMany q s w kvs ttl c)"

fun written_keys :: "dc_op \<Rightarrow> string set" where
  "written_keys (OpPut s w k v ttl) = {k}"
| "written_keys (OpPutMany s w kvs ttl) = fst ` set kvs"
| "written_keys _ = {}"

text \<open>The file is as it was, or gone.\<close>

definition keeps_file :: "('fs \<Rightarrow> string \<rightharpoonup> string) \<Rightarrow> string \<Rightarrow> 'fs \<Rightarrow> 'fs \<Rightarrow> bool" where
  "keeps_file content p fs fs' \<longleftrightarrow> content fs' p = None \<or> content fs' p = content fs p"

lemma keeps_file_refl [simp]: "keeps_file content p fs fs"
  by (simp add: keeps_file_def)

lemma keeps_file_trans: "keeps_file content p a b \<Longrightarrow> keeps_file content p b c \<Longrightarrow> keeps_file content p a c"
  by (auto simp: keeps_file_def)

lemma keeps_remove: "qfs_contract q content \<Longrightarrow> keeps_file content p fs (snd (q_remove q x fs))"
  using qfs_removeD [of q content x fs] by (cases "q_remove q x fs") (auto simp: keeps_file_def)

lemma keeps_recursive: "qfs_contract q content \<Longrightarrow> keeps_file content p fs (q_removeRecursively q x fs)"
  using qfs_recursiveD by (fastforce simp: keeps_file_def)

lemma keeps_fold: "(\<And>x fs. keeps_file content p fs (f x fs)) \<Longrightarrow> keeps_file content p fs (fold f xs fs)"
  by (induction xs arbitrary: fs) (auto intro: keeps_file_trans)

lemma data_path_suffix: "qfs_contract q content \<Longrightarrow> suffix ''.dat'' (keyToDataPath q cfg k)"
  unfolding keyToDataPath_def Let_def
  by (rule suffix_order.trans [OF _ qfs_filePathD [of q content]]) (auto intro!: suffix_appendI suffix_ConsI)

text \<open>The files of two keys with different data files are different, the temporary and the expiry files included.\<close>

lemma data_paths_apart:
  assumes "qfs_contract q content"
  shows "keyToDataPath q cfg k \<noteq> keyToDataPath q cfg k' @ ''.tmp''" "keyToDataPath q cfg k \<noteq> ttlOf (keyToDataPath q cfg k')"
  using data_path_suffix [OF assms, of cfg k] by (auto simp: ttlOf_def suffix_def append_eq_append_conv2 Cons_eq_append_conv)

lemma keeps_evictLru:
  assumes "qfs_contract q content"
  shows "keeps_file content p (dc_fs c) (dc_fs (dc_evictLru q c))"
proof (cases "oldest_entry (dc_lruIndex c)")
  case (Some e)
  obtain path t where e: "e = (path, t)" by fastforce
  have "dc_fs (dc_evictLru q c) = snd (q_remove q (ttlOf path) (snd (q_remove q path (dc_fs c))))"
    using Some e by (auto simp: dc_evictLru_def Let_def split: prod.splits)
  then show ?thesis using keeps_remove [OF assms] by (auto intro: keeps_file_trans)
qed (simp add: dc_evictLru_def)

lemma keeps_evictLoop:
  assumes "qfs_contract q content"
  shows "keeps_file content p (dc_fs c) (dc_fs (dc_evictLoop q n c))"
  using assms
proof (induction q n c rule: dc_evictLoop.induct)
  case (1 q n c)
  show ?case
  proof (cases "totalBytes (dc_stats c) + n > d_maxBytes (dc_cfg c) \<and> dc_lruIndex c \<noteq> []")
    case True
    then have "dc_evictLoop q n c = dc_evictLoop q n (dc_evictLru q c)" by (subst dc_evictLoop.simps) simp
    with 1 True keeps_evictLru [OF 1(2), of p c] show ?thesis by (auto intro: keeps_file_trans)
  next
    case False
    then have "dc_evictLoop q n c = c" by (subst dc_evictLoop.simps) auto
    then show ?thesis by simp
  qed
qed

lemma keeps_evictToFit:
  "qfs_contract q content \<Longrightarrow> dc_evictToFit q n c = (b, c') \<Longrightarrow> keeps_file content p (dc_fs c) (dc_fs c')"
  by (auto simp: dc_evictToFit_def Let_def keeps_evictLoop split: if_splits)

text \<open>What a call leaves of the configuration and of the file.\<close>

definition keeps :: "('fs \<Rightarrow> string \<rightharpoonup> string) \<Rightarrow> string \<Rightarrow> 'fs disk_cache \<Rightarrow> 'fs disk_cache \<Rightarrow> bool" where
  "keeps content p c c' \<longleftrightarrow> dc_cfg c' = dc_cfg c \<and> keeps_file content p (dc_fs c) (dc_fs c')"

lemma keeps_same [simp]: "dc_cfg c' = dc_cfg c \<Longrightarrow> dc_fs c' = dc_fs c \<Longrightarrow> keeps content p c c'"
  by (simp add: keeps_def)

lemma keeps_trans: "keeps content p a b \<Longrightarrow> keeps content p b c \<Longrightarrow> keeps content p a c"
  by (auto simp: keeps_def intro: keeps_file_trans)

lemma same_files [simp]:
  "dc_cfg (dc_miss c) = dc_cfg c" "dc_fs (dc_miss c) = dc_fs c" "dc_cfg (dc_hit c) = dc_cfg c" "dc_fs (dc_hit c) = dc_fs c"
  "dc_cfg (dc_touch q s k c) = dc_cfg c" "dc_fs (dc_touch q s k c) = dc_fs c"
  "dc_cfg (dc_drop_bytes n c) = dc_cfg c" "dc_fs (dc_drop_bytes n c) = dc_fs c"
  by (simp_all add: dc_miss_def dc_hit_def dc_touch_def dc_drop_bytes_def)

lemma keeps_drop_expired: "qfs_contract q content \<Longrightarrow> keeps content p c (dc_drop_expired q k c)"
  by (auto simp: keeps_def dc_drop_expired_def Let_def intro: keeps_file_trans keeps_remove)

lemma keeps_miss: "keeps content p c c' \<Longrightarrow> keeps content p c (dc_miss c')"
  by (simp add: keeps_def)

lemma keeps_get: "qfs_contract q content \<Longrightarrow> keeps content p c (snd (dc_get q s w k c))"
  using keeps_drop_expired [of q content p c k] by (auto simp: dc_get_def Let_def keeps_miss split: option.splits)

lemma keeps_contains: "qfs_contract q content \<Longrightarrow> keeps content p c (snd (dc_contains q s w k c))"
  using keeps_drop_expired [of q content p c k] by (auto simp: dc_contains_def)

lemma keeps_getMany:
  assumes "qfs_contract q content"
  shows "keeps content p c (snd (dc_getMany q s w ks c))"
proof (induction ks arbitrary: c)
  case (Cons k ks)
  have "keeps content p c (snd (dc_getMany q s w ks c1))" if "keeps content p c c1" for c1
    using keeps_trans [OF that Cons.IH] .
  from this [of "dc_miss c"] this [of "dc_miss (dc_drop_expired q k c)"] this [of "dc_touch q s k (dc_hit c)"]
    keeps_drop_expired [OF assms, of p c k] show ?case
    by (auto simp: Let_def keeps_miss split: option.splits prod.splits)
qed simp

lemma keeps_remove_op:
  assumes "qfs_contract q content"
  shows "keeps content p c (snd (dc_remove q k c))"
  using keeps_remove [OF assms, of p "dc_fs c" "keyToDataPath q (dc_cfg c) k"] keeps_remove [OF assms, of p _ "keyToTtlPath q (dc_cfg c) k"]
  by (auto simp: dc_remove_def Let_def keeps_def split: prod.splits intro: keeps_file_trans)

lemma keeps_clear: "qfs_contract q content \<Longrightarrow> keeps content p c (snd (dc_clear q c))"
  by (auto simp: dc_clear_def Let_def keeps_def intro!: keeps_file_trans [OF keeps_fold keeps_fold] keeps_recursive keeps_remove)

text \<open>A write for another data file.\<close>

lemma keeps_write_ttl:
  assumes "qfs_contract q content" "p \<noteq> keyToTtlPath q (dc_cfg c) k"
  shows "keeps content p c (dc_write_ttl q w k ttl c)"
proof -
  have "keeps_file content p (dc_fs c) (snd (writeExpiryMSecs q (keyToTtlPath q (dc_cfg c) k) n (dc_fs c)))" for n
    using qfs_writeD [OF assms(1), of "keyToTtlPath q (dc_cfg c) k" "q_number q n" "dc_fs c"] assms(2)
    by (auto simp: writeExpiryMSecs_def keeps_file_def split: prod.splits)
  with keeps_remove [OF assms(1)] show ?thesis by (simp add: dc_write_ttl_def Let_def keeps_def)
qed

lemma keeps_put_as:
  assumes "qfs_contract q content" "p = keyToDataPath q (dc_cfg c) k0" "keyToDataPath q (dc_cfg c) k \<noteq> p"
  shows "keeps content p c (snd (dc_put_as msg q s w k v ttl c))"
proof -
  let ?d = "keyToDataPath q (dc_cfg c) k"
  note apart = data_paths_apart [OF assms(1), of "dc_cfg c" k0 k]
  obtain b fs1 where m: "q_mkpath q (q_absolutePath q ?d) (dc_fs c) = (b, fs1)" by fastforce
  obtain b2 c2 where e: "dc_evictToFit q (length v) (c\<lparr>dc_fs := fs1\<rparr>) = (b2, c2)" by fastforce
  obtain b3 fs2 where w: "writeAtomically q ?d (to_bytearray v) (dc_fs c2) = (b3, fs2)" by fastforce
  have fs1: "keeps content p c (c\<lparr>dc_fs := fs1\<rparr>)" using qfs_mkpathD [OF assms(1) m] by (simp add: keeps_def keeps_file_def)
  have "keeps content p (c\<lparr>dc_fs := fs1\<rparr>) c2"
    using keeps_evictToFit [OF assms(1) e] dc_evictToFit_cfg [OF e] by (simp add: keeps_def)
  from keeps_trans [OF fs1 this] have c2: "keeps content p c c2" .
  have "keeps content p c2 (c2\<lparr>dc_fs := fs2\<rparr>)"
    using writeAtomically_spec [OF assms(1) w, THEN conjunct2, rule_format, of p] apart(1) assms(2,3) by (simp add: keeps_def keeps_file_def)
  from keeps_trans [OF c2 this] have fs2: "keeps content p c (c2\<lparr>dc_fs := fs2\<rparr>)" .
  have "keeps content p x (dc_write_ttl q w k ttl x)" if "dc_cfg x = dc_cfg c" for x
    using that apart(2) assms(2) by (intro keeps_write_ttl [OF assms(1)]) (simp add: keyToTtlPath_def)
  then have ttl: "keeps content p c (dc_write_ttl q w k ttl x)" if "dc_cfg x = dc_cfg c" "dc_fs x = fs2" for x
    using that fs2 keeps_file_trans unfolding keeps_def by fastforce
  have "keeps content p c (dc_commit q s w k v ttl old (c2\<lparr>dc_fs := fs2\<rparr>))" for old
    unfolding dc_commit_def Let_def using fs2 by (intro ttl) (simp_all add: keeps_def)
  with fs1 c2 fs2 m e w show ?thesis
    by (cases b; cases b2; cases b3) (simp_all add: dc_put_as_def Let_def)
qed

lemma keeps_putMany:
  assumes "qfs_contract q content"
  shows "p = keyToDataPath q (dc_cfg c) k0 \<Longrightarrow> (\<And>k. k \<in> fst ` set kvs \<Longrightarrow> keyToDataPath q (dc_cfg c) k \<noteq> p)
    \<Longrightarrow> keeps content p c (snd (dc_putMany q s w kvs ttl c))"
proof (induction kvs arbitrary: c)
  case (Cons kv kvs)
  obtain k v where kv: "kv = (k, v)" by fastforce
  obtain r c1 where c1: "dc_put_as ''DiskCache: atomic write failed in putMany'' q s w k v ttl c = (r, c1)" by fastforce
  from keeps_put_as [OF assms Cons.prems(1), of k "''DiskCache: atomic write failed in putMany''" s w v ttl] Cons.prems(2) [of k] c1 kv
  have K: "keeps content p c c1" by simp
  then have "keeps content p c1 (snd (dc_putMany q s w kvs ttl c1))"
    using Cons.prems by (intro Cons.IH) (auto simp: keeps_def)
  with K keeps_trans [OF K] c1 kv show ?case by (auto split: sum.splits)
qed simp

lemma keeps_exec:
  assumes "qfs_contract q content" "p = keyToDataPath q (dc_cfg c) k0"
    and "\<And>k. k \<in> written_keys x \<Longrightarrow> keyToDataPath q (dc_cfg c) k \<noteq> p"
  shows "keeps content p c (dc_exec q x c)"
  using assms keeps_put_as [OF assms(1,2)] keeps_putMany [OF assms(1,2)]
  by (cases x) (auto simp: dc_put_def keeps_get keeps_contains keeps_getMany keeps_remove_op keeps_clear)

lemma keeps_execs:
  assumes "qfs_contract q content"
  shows "p = keyToDataPath q (dc_cfg c) k0 \<Longrightarrow> (\<And>x k. x \<in> set xs \<Longrightarrow> k \<in> written_keys x \<Longrightarrow> keyToDataPath q (dc_cfg c) k \<noteq> p)
    \<Longrightarrow> keeps content p c (fold (dc_exec q) xs c)"
proof (induction xs arbitrary: c)
  case (Cons x xs)
  from Cons.prems have K: "keeps content p c (dc_exec q x c)" by (intro keeps_exec [OF assms, of _ _ k0]) auto
  have "keeps content p (dc_exec q x c) (fold (dc_exec q) xs (dc_exec q x c))"
    using K Cons.prems by (intro Cons.IH) (auto simp: keeps_def)
  with keeps_trans [OF K] show ?case by simp
qed simp

text \<open>C9 (functional, bounds). A \<open>put\<close> of a value below 2 GiB that reports success has the value on disk and keeps the byte count within a positive \<open>maxBytes\<close>. However many calls follow,
  with any outcome, as long as none of them writes a key with the same data file, a \<open>get\<close> of the key never returns another value: it returns this one, a miss, an error for a file that cannot be opened,
  or the empty value, the latter only where \<^verbatim>\<open>readAll\<close> itself failed. A \<open>get\<close> that finds the entry neither removed nor expired and reads its file returns the value.\<close>

theorem dc_put_success:
  assumes "qfs_contract q content" "length v < 2 ^ 31" "dc_put q s w k v ttl c = (Ok (), c')"
    and "p = keyToDataPath q (dc_cfg c) k"
    and "\<forall>x \<in> set xs. \<forall>j \<in> written_keys x. keyToDataPath q (dc_cfg c) j \<noteq> p"
    and "c'' = fold (dc_exec q) xs c'"
  shows "content (dc_fs c') p = Some v
    \<and> (d_maxBytes (dc_cfg c) = 0 \<or> totalBytes (dc_stats c') \<le> d_maxBytes (dc_cfg c))
    \<and> (case fst (dc_get q s' w' k c'') of
         Inl e \<Rightarrow> err_code e = EC_InternalError \<and> q_readAll q p (dc_fs c'') = None
       | Inr r \<Rightarrow> r = None \<or> r = Some v \<or> r = Some [] \<and> content (dc_fs c'') p = Some v)
    \<and> (content (dc_fs c'') p \<noteq> None \<and> \<not> dc_isExpired q w' k c'' \<and> q_readAll q p (dc_fs c'') = content (dc_fs c'') p
         \<longrightarrow> fst (dc_get q s' w' k c'') = Ok (Some v))"
proof -
  have v: "content (dc_fs c') p = Some v" and cfg: "dc_cfg c' = dc_cfg c"
    and b: "d_maxBytes (dc_cfg c) = 0 \<or> totalBytes (dc_stats c') \<le> d_maxBytes (dc_cfg c)"
    using dc_put_ok_state [OF assms(1,3)] to_bytearray_small [OF assms(2)] assms(4) by auto
  have "keeps content p c' c''" unfolding assms(6) using assms(4,5) cfg by (intro keeps_execs [OF assms(1)]) auto
  then have c: "dc_cfg c'' = dc_cfg c" "content (dc_fs c'') p = None \<or> content (dc_fs c'') p = Some v"
    using cfg v by (auto simp: keeps_def keeps_file_def)
  have "q_readAll q p (dc_fs c'') = Some d \<Longrightarrow> content (dc_fs c'') p = Some d \<or> d = []" for d
    by (rule qfs_read_or_empty [OF assms(1)])
  then show ?thesis
    using v b c assms(4) by (auto simp: dc_get_def Let_def qfs_existsD [OF assms(1)] split: option.splits)
qed

text \<open>Because \<^verbatim>\<open>QFile::rename\<close> does not replace an existing file, a \<open>put\<close> onto a key that
  is already on disk fails whenever it does not have to evict anything first: it reports an error and
  the old value stays.\<close>

theorem dc_put_never_overwrites:
  assumes "qfs_contract q content"
    and "content (dc_fs c) (keyToDataPath q (dc_cfg c) k) = Some old"
    and "d_maxBytes (dc_cfg c) = 0 \<or> totalBytes (dc_stats c) + length v \<le> d_maxBytes (dc_cfg c)"
  shows "\<exists>e c'. dc_put q s w k v ttl c = (Err e, c') \<and> err_code e = EC_InternalError
    \<and> content (dc_fs c') (keyToDataPath q (dc_cfg c) k) = Some old"
  using dc_put_refused [OF assms, of s w ttl] by blast

text \<open>When the operating system refuses to delete the data file of an expired entry, the
  clean-up of \<open>get\<close> still deletes its expiry file: the entry is then taken for one without expiry and
  every later \<open>get\<close> that can read the file returns the expired value.\<close>

theorem dc_expired_entry_resurrects:
  assumes "qfs_contract q content"
    and "p = keyToDataPath q (dc_cfg c) k" "content (dc_fs c) p = Some d" "dc_isExpired q w k c"
    and "q_remove q p (dc_fs c) = (False, fs1)" "q_remove q (ttlOf p) fs1 = (True, fs2)"
    and "q_readAll q p fs2 = content fs2 p"
  shows "\<exists>c'. dc_get q s w k c = (Ok None, c') \<and> (\<forall>s' w'. fst (dc_get q s' w' k c') = Ok (Some d))"
proof -
  let ?c' = "dc_miss (dc_drop_expired q k c)"
  have ex: "q_exists q p (dc_fs c)" using assms(1,3) by (simp add: qfs_existsD)
  then have "dc_get q s w k c = (Ok None, ?c')" using assms(2,4) by (simp add: dc_get_def Let_def)
  moreover have fs: "dc_fs ?c' = fs2" "dc_cfg ?c' = dc_cfg c"
    using assms(2,5,6)
    by (simp_all add: dc_drop_expired_def dc_miss_def dc_drop_bytes_def Let_def keyToTtlPath_def)
  have "content fs2 = (content (dc_fs c))(ttlOf p := None)"
    using qfs_removeD [OF assms(1) assms(5)] qfs_removeD [OF assms(1) assms(6)] by simp
  then have "q_exists q p fs2" "\<not> q_exists q (ttlOf p) fs2" "q_readAll q p fs2 = Some d"
    using assms(3,7) by (auto simp: qfs_existsD [OF assms(1)])
  then have "fst (dc_get q s' w' k ?c') = Ok (Some d)" for s' w'
    using fs assms(2) by (simp add: dc_get_def Let_def dc_isExpired_def keyToTtlPath_def)
  ultimately show ?thesis by blast
qed

section \<open>A simulated file system\<close>

text \<open>
  Association lists of files with a list of paths that cannot be deleted meet the contract; the
  witnesses run on it. Numbers are written in unary.
\<close>

type_synonym sim_fs = "(string \<times> string) list \<times> string list"

definition sim_remove :: "string \<Rightarrow> sim_fs \<Rightarrow> bool \<times> sim_fs" where
  "sim_remove p fs = (if map_of (fst fs) p = None \<or> p \<in> set (snd fs) then (False, fs)
     else (True, (AList.delete p (fst fs), snd fs)))"

definition sim_rename :: "string \<Rightarrow> string \<Rightarrow> sim_fs \<Rightarrow> bool \<times> sim_fs" where
  "sim_rename a b fs = (case map_of (fst fs) a of
      None \<Rightarrow> (False, fs)
    | Some d \<Rightarrow> if map_of (fst fs) b \<noteq> None then (False, fs)
                else (True, (AList.delete a (AList.update b d (fst fs)), snd fs)))"

definition sim_qfs :: "sim_fs qfs" where
  "sim_qfs = \<lparr>q_exists = (\<lambda>p fs. map_of (fst fs) p \<noteq> None),
     q_size = (\<lambda>p fs. case map_of (fst fs) p of None \<Rightarrow> 0 | Some d \<Rightarrow> length d),
     q_lastModified = (\<lambda>p fs. 0),
     q_readAll = (\<lambda>p fs. map_of (fst fs) p),
     q_writeAll = (\<lambda>p d fs. (Written, (AList.update p d (fst fs), snd fs))),
     q_remove = sim_remove, q_rename = sim_rename, q_mkpath = (\<lambda>p fs. (True, fs)),
     q_dirExists = (\<lambda>p fs. True), q_subDirs = (\<lambda>p fs. []), q_datFiles = (\<lambda>p fs. []), q_files = (\<lambda>p fs. []),
     q_removeRecursively = (\<lambda>p fs. fs), q_filePath = (\<lambda>d f. d @ ''/'' @ f), q_absolutePath = id,
     q_number = (\<lambda>n. replicate (nat n) (CHR ''1'')), q_toLongLong = (\<lambda>s. Some (int (length s))),
     q_sha256Hex = (\<lambda>k. ''00'' @ k)\<rparr>"

lemma sim_reads_whole: "reads_whole sim_qfs (\<lambda>fs. map_of (fst fs))"
  by (simp add: reads_whole_def sim_qfs_def)

lemma sim_contract: "qfs_contract sim_qfs (\<lambda>fs. map_of (fst fs))"
  unfolding qfs_contract_def
  by (auto simp: suffix_def sim_qfs_def sim_remove_def sim_rename_def AList.update_conv' AList.delete_conv'
      split: option.splits if_splits)

definition sim_cache :: "(string \<times> string) list \<Rightarrow> string list \<Rightarrow> sim_fs disk_cache" where
  "sim_cache files locked = \<lparr>dc_cfg = \<lparr>d_cacheDir = ''d'', d_maxBytes = 10, d_defaultTtl = None\<rparr>,
     dc_stats = empty_stats, dc_lruIndex = [], dc_fs = (files, locked)\<rparr>"

lemmas sim_defs = sim_cache_def sim_qfs_def sim_remove_def sim_rename_def keyToDataPath_def keyToTtlPath_def
  ttlOf_def Let_def empty_stats_def

lemma sim_put_fresh: "fst (dc_put sim_qfs 0 0 ''k'' ''v'' None (sim_cache [] [])) = Ok ()"
  by (simp add: dc_put_def dc_put_as_def dc_evictToFit_idle writeAtomically_def sim_defs)

text \<open>The value is read back after another key was written and one was removed.\<close>

theorem dc_put_success_witness:
  "fst (dc_get sim_qfs 0 7 ''k'' (fold (dc_exec sim_qfs) [OpPut 1 1 ''j'' ''x'' (Some 1), OpRemove ''i'']
      (snd (dc_put sim_qfs 0 0 ''k'' ''v'' None (sim_cache [] []))))) = Ok (Some ''v'')"
proof -
  let ?c = "snd (dc_put sim_qfs 0 0 ''k'' ''v'' None (sim_cache [] []))" and ?xs = "[OpPut 1 1 ''j'' ''x'' (Some 1), OpRemove ''i'']"
  have ok: "dc_put sim_qfs 0 0 ''k'' ''v'' None (sim_cache [] []) = (Ok (), ?c)"
    using sim_put_fresh by (simp add: prod_eq_iff)
  have r: "map_of (fst (dc_fs (fold (dc_exec sim_qfs) ?xs ?c))) ''d/00/k.dat'' \<noteq> None"
    "\<not> dc_isExpired sim_qfs 7 ''k'' (fold (dc_exec sim_qfs) ?xs ?c)"
    "q_readAll sim_qfs p fs = map_of (fst fs) p" for p fs
    by (simp_all add: dc_put_def dc_put_as_def dc_evictToFit_idle writeAtomically_def dc_commit_def dc_drop_bytes_def dc_touch_def dc_write_ttl_def
        dataSizeOnDisk_def to_bytearray_def to_int32_small writeExpiryMSecs_def dc_remove_def dc_isExpired_def sim_defs)
  from dc_put_success [OF sim_contract _ ok refl _ refl, of ?xs 0 7] r show ?thesis
    by (simp add: keyToDataPath_def sim_qfs_def Let_def sim_cache_def)
qed

theorem dc_put_never_overwrites_witness:
  "\<exists>e c'. dc_put sim_qfs 0 0 ''k'' ''v'' None (sim_cache [(''d/00/k.dat'', ''old'')] []) = (Err e, c')
    \<and> map_of (fst (dc_fs c')) ''d/00/k.dat'' = Some ''old''"
  using dc_put_never_overwrites [OF sim_contract, of "sim_cache [(''d/00/k.dat'', ''old'')] []" "''k''" "''old''" "''v''" 0 0 None]
  by (auto simp: sim_defs)

theorem dc_expired_entry_resurrects_witness:
  "\<exists>c'. dc_get sim_qfs 0 5 ''k''
       (sim_cache [(''d/00/k.dat'', ''old''), (''d/00/k.dat.ttl'', ''1'')] [''d/00/k.dat'']) = (Ok None, c')
    \<and> fst (dc_get sim_qfs 0 9 ''k'' c') = Ok (Some ''old'')"
  using dc_expired_entry_resurrects [OF sim_contract, of "''d/00/k.dat''"
      "sim_cache [(''d/00/k.dat'', ''old''), (''d/00/k.dat.ttl'', ''1'')] [''d/00/k.dat'']" "''k''" "''old''" 5
      "([(''d/00/k.dat'', ''old''), (''d/00/k.dat.ttl'', ''1'')], [''d/00/k.dat''])"
      "([(''d/00/k.dat'', ''old'')], [''d/00/k.dat''])" 0]
  by (simp add: dc_isExpired_def readExpiryMSecs_def sim_defs) blast

end
