(* ===== verification/SK_MultiLevelCache.thy ===== *)
theory SK_MultiLevelCache
  imports SK_DiskCache "HOL-Library.Monad_Syntax"
begin

text \<open>
  The cache interface of \<^verbatim>\<open>include/soul/cache/icache.h\<close> and the composition of caches of
  \<^verbatim>\<open>multi_level_cache.h\<close>.

  The interface is a record of operations over the state of one cache object (a vtable). A \<open>put\<close> gives
  \<open>None\<close> when it does not return. \<open>level_ops\<close> is the dispatch over the two implementations of the
  repository, so that a list of levels may mix them. One clock reading (steady, wall) serves one
  operation of the composition. The locales state what the composition relies on: \<open>icache\<close> is what
  every implementation keeps even when its storage fails, \<open>reliable_icache\<close> what the memory cache
  keeps in addition.
\<close>

section \<open>The interface\<close>

type_synonym clock = "int \<times> int"

record ('s, 'k, 'v) icache_ops =
  ic_get :: "clock \<Rightarrow> 'k \<Rightarrow> 's \<Rightarrow> 'v option result \<times> 's"
  ic_put :: "clock \<Rightarrow> 'k \<Rightarrow> 'v \<Rightarrow> int option \<Rightarrow> 's \<Rightarrow> (unit result \<times> 's) option"
  ic_remove :: "'k \<Rightarrow> 's \<Rightarrow> unit result \<times> 's"
  ic_contains :: "clock \<Rightarrow> 'k \<Rightarrow> 's \<Rightarrow> bool result \<times> 's"
  ic_clear :: "'s \<Rightarrow> unit result \<times> 's"
  ic_getMany :: "clock \<Rightarrow> 'k list \<Rightarrow> 's \<Rightarrow> ('k \<times> 'v) list result \<times> 's"
  ic_putMany :: "clock \<Rightarrow> ('k \<times> 'v) list \<Rightarrow> int option \<Rightarrow> 's \<Rightarrow> (unit result \<times> 's) option"
  ic_size :: "'s \<Rightarrow> nat"
  ic_stats :: "'s \<Rightarrow> CacheStats"

text \<open>The memory cache never reports a failure of its own.\<close>

definition mc_ops :: "('v \<Rightarrow> nat) \<Rightarrow> (('k, 'v) memory_cache, 'k, 'v) icache_ops" where
  "mc_ops est = \<lparr>
     ic_get = (\<lambda>t k c. case mc_get (fst t) k c of (r, c') \<Rightarrow> (Ok r, c')),
     ic_put = (\<lambda>t k v ttl c. map_option (Pair (Ok ())) (mc_put est (fst t) k v ttl c)),
     ic_remove = mc_remove,
     ic_contains = (\<lambda>t k c. case mc_contains (fst t) k c of (b, c') \<Rightarrow> (Ok b, c')),
     ic_clear = (\<lambda>c. (Ok (), mc_clear c)),
     ic_getMany = (\<lambda>t ks c. case mc_getMany (fst t) ks c of (r, c') \<Rightarrow> (Ok r, c')),
     ic_putMany = (\<lambda>t kvs ttl c. map_option (Pair (Ok ())) (mc_putMany est (fst t) kvs ttl c)),
     ic_size = mc_size, ic_stats = mc_stats\<rparr>"

definition dc_ops :: "'fs qfs \<Rightarrow> ('fs disk_cache, string, string) icache_ops" where
  "dc_ops q = \<lparr>
     ic_get = (\<lambda>t. dc_get q (fst t) (snd t)),
     ic_put = (\<lambda>t k v ttl c. Some (dc_put q (fst t) (snd t) k v ttl c)),
     ic_remove = dc_remove q,
     ic_contains = (\<lambda>t. dc_contains q (fst t) (snd t)),
     ic_clear = dc_clear q,
     ic_getMany = (\<lambda>t ks c. case dc_getMany q (fst t) (snd t) ks c of (r, c') \<Rightarrow> (Ok r, c')),
     ic_putMany = (\<lambda>t kvs ttl c. Some (dc_putMany q (fst t) (snd t) kvs ttl c)),
     ic_size = dc_size q, ic_stats = dc_stats\<rparr>"

text \<open>Virtual dispatch over two implementations.\<close>

definition sum_ops :: "('a, 'k, 'v) icache_ops \<Rightarrow> ('b, 'k, 'v) icache_ops \<Rightarrow> ('a + 'b, 'k, 'v) icache_ops" where
  "sum_ops A B = \<lparr>
     ic_get = (\<lambda>t k s. case s of Inl a \<Rightarrow> apsnd Inl (ic_get A t k a) | Inr b \<Rightarrow> apsnd Inr (ic_get B t k b)),
     ic_put = (\<lambda>t k v ttl s. case s of Inl a \<Rightarrow> map_option (apsnd Inl) (ic_put A t k v ttl a)
                                     | Inr b \<Rightarrow> map_option (apsnd Inr) (ic_put B t k v ttl b)),
     ic_remove = (\<lambda>k s. case s of Inl a \<Rightarrow> apsnd Inl (ic_remove A k a) | Inr b \<Rightarrow> apsnd Inr (ic_remove B k b)),
     ic_contains = (\<lambda>t k s. case s of Inl a \<Rightarrow> apsnd Inl (ic_contains A t k a) | Inr b \<Rightarrow> apsnd Inr (ic_contains B t k b)),
     ic_clear = (\<lambda>s. case s of Inl a \<Rightarrow> apsnd Inl (ic_clear A a) | Inr b \<Rightarrow> apsnd Inr (ic_clear B b)),
     ic_getMany = (\<lambda>t ks s. case s of Inl a \<Rightarrow> apsnd Inl (ic_getMany A t ks a) | Inr b \<Rightarrow> apsnd Inr (ic_getMany B t ks b)),
     ic_putMany = (\<lambda>t kvs ttl s. case s of Inl a \<Rightarrow> map_option (apsnd Inl) (ic_putMany A t kvs ttl a)
                                         | Inr b \<Rightarrow> map_option (apsnd Inr) (ic_putMany B t kvs ttl b)),
     ic_size = (\<lambda>s. case s of Inl a \<Rightarrow> ic_size A a | Inr b \<Rightarrow> ic_size B b),
     ic_stats = (\<lambda>s. case s of Inl a \<Rightarrow> ic_stats A a | Inr b \<Rightarrow> ic_stats B b)\<rparr>"

definition level_ops :: "(string \<Rightarrow> nat) \<Rightarrow> 'fs qfs
    \<Rightarrow> ((string, string) memory_cache + 'fs disk_cache, string, string) icache_ops" where
  "level_ops est q = sum_ops (mc_ops est) (dc_ops q)"

section \<open>Operations of the composition\<close>

text \<open>The constructor throws \<^verbatim>\<open>std::invalid_argument\<close> on an empty list of levels.\<close>

definition mk_MultiLevelCache :: "'s list \<Rightarrow> 's list option" where
  "mk_MultiLevelCache levels = (if levels = [] then None else Some levels)"

text \<open>The query loop of \<open>get\<close>: the index and value of the first hit, failing levels skipped.\<close>

fun mlc_find :: "('s, 'k, 'v) icache_ops \<Rightarrow> clock \<Rightarrow> 'k \<Rightarrow> 's list \<Rightarrow> (nat \<times> 'v) option \<times> 's list" where
  "mlc_find ops t key [] = (None, [])"
| "mlc_find ops t key (l # ls) =
     (case ic_get ops t key l of
        (Inr (Some v), l') \<Rightarrow> (Some (0, v), l' # ls)
      | (_, l') \<Rightarrow> (case mlc_find ops t key ls of
           (None, ls') \<Rightarrow> (None, l' # ls')
         | (Some (i, v), ls') \<Rightarrow> (Some (Suc i, v), l' # ls')))"

fun backfillUpper :: "('s, 'k, 'v) icache_ops \<Rightarrow> clock \<Rightarrow> 'k \<Rightarrow> 'v \<Rightarrow> nat \<Rightarrow> 's list \<Rightarrow> 's list option" where
  "backfillUpper ops t key value (Suc i) (l # ls) =
     do { (_, l') \<leftarrow> ic_put ops t key value None l;
          ls' \<leftarrow> backfillUpper ops t key value i ls;
          Some (l' # ls') }"
| "backfillUpper ops t key value _ ls = Some ls"

definition mlc_get :: "('s, 'k, 'v) icache_ops \<Rightarrow> clock \<Rightarrow> 'k \<Rightarrow> 's list \<Rightarrow> ('v option result \<times> 's list) option" where
  "mlc_get ops t key ls =
     (case mlc_find ops t key ls of
        (None, ls') \<Rightarrow> Some (Ok None, ls')
      | (Some (i, v), ls') \<Rightarrow> map_option (Pair (Ok (Some v))) (backfillUpper ops t key v i ls'))"

text \<open>The broadcast of \<open>put\<close>: every level is written, the last error is reported.\<close>

fun mlc_put_loop :: "('s, 'k, 'v) icache_ops \<Rightarrow> clock \<Rightarrow> 'k \<Rightarrow> 'v \<Rightarrow> int option \<Rightarrow> unit result \<Rightarrow> 's list
    \<Rightarrow> (unit result \<times> 's list) option" where
  "mlc_put_loop ops t key value ttl lastError [] = Some (lastError, [])"
| "mlc_put_loop ops t key value ttl lastError (l # ls) =
     do { (r, l') \<leftarrow> ic_put ops t key value ttl l;
          (res, ls') \<leftarrow> mlc_put_loop ops t key value ttl (if isOk r then lastError else r) ls;
          Some (res, l' # ls') }"

definition mlc_put :: "('s, 'k, 'v) icache_ops \<Rightarrow> clock \<Rightarrow> 'k \<Rightarrow> 'v \<Rightarrow> int option \<Rightarrow> 's list
    \<Rightarrow> (unit result \<times> 's list) option" where
  "mlc_put ops t key value ttl ls = mlc_put_loop ops t key value ttl (Ok ()) ls"

text \<open>\<open>remove\<close> stops at the first level that fails with anything but \<open>NotFound\<close>.\<close>

fun mlc_remove :: "('s, 'k, 'v) icache_ops \<Rightarrow> 'k \<Rightarrow> 's list \<Rightarrow> unit result \<times> 's list" where
  "mlc_remove ops key [] = (Ok (), [])"
| "mlc_remove ops key (l # ls) =
     (case ic_remove ops key l of
        (Inl e, l') \<Rightarrow>
          if err_code e \<noteq> EC_NotFound then (Err e, l' # ls)
          else (case mlc_remove ops key ls of (r, ls') \<Rightarrow> (r, l' # ls'))
      | (Inr _, l') \<Rightarrow> (case mlc_remove ops key ls of (r, ls') \<Rightarrow> (r, l' # ls')))"

fun mlc_contains :: "('s, 'k, 'v) icache_ops \<Rightarrow> clock \<Rightarrow> 'k \<Rightarrow> 's list \<Rightarrow> bool result \<times> 's list" where
  "mlc_contains ops t key [] = (Ok False, [])"
| "mlc_contains ops t key (l # ls) =
     (case ic_contains ops t key l of
        (Inr True, l') \<Rightarrow> (Ok True, l' # ls)
      | (_, l') \<Rightarrow> (case mlc_contains ops t key ls of (r, ls') \<Rightarrow> (r, l' # ls')))"

fun mlc_clear_loop :: "('s, 'k, 'v) icache_ops \<Rightarrow> unit result \<Rightarrow> 's list \<Rightarrow> unit result \<times> 's list" where
  "mlc_clear_loop ops lastError [] = (lastError, [])"
| "mlc_clear_loop ops lastError (l # ls) =
     (case ic_clear ops l of (r, l') \<Rightarrow>
        case mlc_clear_loop ops (if isOk r then lastError else r) ls of (res, ls') \<Rightarrow> (res, l' # ls'))"

definition mlc_clear :: "('s, 'k, 'v) icache_ops \<Rightarrow> 's list \<Rightarrow> unit result \<times> 's list" where
  "mlc_clear ops ls = mlc_clear_loop ops (Ok ()) ls"

fun backfillUpperMany :: "('s, 'k, 'v) icache_ops \<Rightarrow> clock \<Rightarrow> ('k \<times> 'v) list \<Rightarrow> nat \<Rightarrow> 's list \<Rightarrow> 's list option" where
  "backfillUpperMany ops t entries (Suc i) (l # ls) =
     do { (_, l') \<leftarrow> ic_putMany ops t entries None l;
          ls' \<leftarrow> backfillUpperMany ops t entries i ls;
          Some (l' # ls') }"
| "backfillUpperMany ops t entries _ ls = Some ls"

definition emplace :: "'k \<Rightarrow> 'v \<Rightarrow> ('k \<times> 'v) list \<Rightarrow> ('k \<times> 'v) list" where
  "emplace k v m = (if map_of m k = None then m @ [(k, v)] else m)"

definition collect_hits :: "('k \<times> 'v) list \<Rightarrow> 'k list \<Rightarrow> ('k \<times> 'v) list \<Rightarrow> ('k \<times> 'v) list" where
  "collect_hits hits remaining result =
     fold (\<lambda>k m. case map_of hits k of Some v \<Rightarrow> emplace k v m | None \<Rightarrow> m) remaining result"

text \<open>\<open>getMany\<close>: the loop over the levels below index \<open>i\<close>; \<open>up\<close> are the levels already visited.\<close>

fun mlc_getMany_loop :: "('s, 'k, 'v) icache_ops \<Rightarrow> clock \<Rightarrow> 'k list \<Rightarrow> ('k \<times> 'v) list \<Rightarrow> 's list \<Rightarrow> 's list
    \<Rightarrow> (('k \<times> 'v) list \<times> 's list) option" where
  "mlc_getMany_loop ops t remaining result up [] = Some (result, up)"
| "mlc_getMany_loop ops t remaining result up (l # ls) =
     (if remaining = [] then Some (result, up @ l # ls)
      else case ic_getMany ops t remaining l of
        (Inl _, l') \<Rightarrow> mlc_getMany_loop ops t remaining result (up @ [l']) ls
      | (Inr hits, l') \<Rightarrow>
          do { up' \<leftarrow> (if up \<noteq> [] \<and> hits \<noteq> [] then backfillUpperMany ops t hits (length up) up else Some up);
               mlc_getMany_loop ops t (filter (\<lambda>k. map_of hits k = None) remaining)
                 (collect_hits hits remaining result) (up' @ [l']) ls })"

definition mlc_getMany :: "('s, 'k, 'v) icache_ops \<Rightarrow> clock \<Rightarrow> 'k list \<Rightarrow> 's list
    \<Rightarrow> (('k \<times> 'v) list \<times> 's list) option" where
  "mlc_getMany ops t keys ls = mlc_getMany_loop ops t keys [] [] ls"

fun mlc_putMany_loop :: "('s, 'k, 'v) icache_ops \<Rightarrow> clock \<Rightarrow> ('k \<times> 'v) list \<Rightarrow> int option \<Rightarrow> unit result \<Rightarrow> 's list
    \<Rightarrow> (unit result \<times> 's list) option" where
  "mlc_putMany_loop ops t entries ttl lastError [] = Some (lastError, [])"
| "mlc_putMany_loop ops t entries ttl lastError (l # ls) =
     do { (r, l') \<leftarrow> ic_putMany ops t entries ttl l;
          (res, ls') \<leftarrow> mlc_putMany_loop ops t entries ttl (if isOk r then lastError else r) ls;
          Some (res, l' # ls') }"

definition mlc_size :: "('s, 'k, 'v) icache_ops \<Rightarrow> 's list \<Rightarrow> nat" where
  "mlc_size ops ls = (case ls of [] \<Rightarrow> 0 | l # _ \<Rightarrow> ic_size ops l)"

definition mlc_stats :: "('s, 'k, 'v) icache_ops \<Rightarrow> 's list \<Rightarrow> CacheStats" where
  "mlc_stats ops ls = fold (\<lambda>l m. let s = ic_stats ops l in
      \<lparr>hitCount = hitCount m + hitCount s, missCount = missCount m + missCount s,
       evictionCount = evictionCount m + evictionCount s, totalBytes = totalBytes m + totalBytes s\<rparr>) ls empty_stats"

section \<open>Contracts\<close>

text \<open>
  \<open>view t s\<close> is what a reader may see at clock reading \<open>t\<close>. An implementation may fail, but a
  successful \<open>get\<close> tells the truth and after a successful \<open>put\<close> of a value that \<open>fits\<close> the implementation the key shows the new
  value or nothing.
\<close>

locale icache =
  fixes ops :: "('s, 'k, 'v) icache_ops"
    and inv :: "'s \<Rightarrow> bool"
    and view :: "clock \<Rightarrow> 's \<Rightarrow> 'k \<rightharpoonup> 'v"
    and fits :: "'v \<Rightarrow> bool"
  assumes get_ok: "inv s \<Longrightarrow> ic_get ops t k s = (Ok r, s') \<Longrightarrow> r = view t s k"
    and put_returns: "inv s \<Longrightarrow> ic_put ops t k v ttl s \<noteq> None"
    and put_inv: "inv s \<Longrightarrow> ic_put ops t k v ttl s = Some (res, s') \<Longrightarrow> inv s'"
    and get_inv: "inv s \<Longrightarrow> inv (snd (ic_get ops t k s))"
    and put_ok: "inv s \<Longrightarrow> fits v \<Longrightarrow> ic_put ops t k v ttl s = Some (Ok (), s') \<Longrightarrow> view t' s' k = None \<or> view t' s' k = Some v"
begin

text \<open>A value that \<open>mlc_find\<close> returns is seen at its level, and the levels keep their invariant.\<close>

lemma find_inv: "list_all inv ls \<Longrightarrow> list_all inv (snd (mlc_find ops t k ls))"
proof (induction ls)
  case (Cons l ls)
  have "inv (snd (ic_get ops t k l))" using Cons.prems by (intro get_inv) simp
  with Cons show ?case by (auto split: prod.splits sum.splits option.splits)
qed simp

lemma find_hit:
  "list_all inv ls \<Longrightarrow> mlc_find ops t k ls = (Some (i, v), ls') \<Longrightarrow> i < length ls \<and> view t (ls ! i) k = Some v"
proof (induction ls arbitrary: i ls')
  case (Cons l ls)
  obtain r l' where g: "ic_get ops t k l = (r, l')" by fastforce
  show ?case
  proof (cases "\<exists>w. r = Ok (Some w)")
    case True
    with Cons.prems g get_ok [of l t k] show ?thesis by fastforce
  next
    case False
    with Cons.prems g obtain j ls'' where "mlc_find ops t k ls = (Some (j, v), ls'')" "i = Suc j"
      by (auto split: prod.splits sum.splits option.splits)
    with Cons.IH Cons.prems show ?thesis by auto
  qed
qed simp

lemma backfill_returns: "list_all inv ls \<Longrightarrow> \<exists>ls'. backfillUpper ops t k v i ls = Some ls' \<and> list_all inv ls'"
proof (induction ls arbitrary: i)
  case (Cons l ls)
  show ?case
  proof (cases i)
    case (Suc j)
    from Cons.prems obtain r l' where p: "ic_put ops t k v None l = Some (r, l')"
      using put_returns [of l t k v None] by auto
    moreover have "inv l'" using put_inv [OF _ p] Cons.prems by simp
    ultimately show ?thesis using Cons.IH [of j] Cons.prems Suc by auto
  qed (use Cons.prems in simp)
qed (cases i; simp)

lemma get_returns: "list_all inv ls \<Longrightarrow> \<exists>r ls'. mlc_get ops t k ls = Some (Ok r, ls') \<and> list_all inv ls'"
proof -
  assume ls: "list_all inv ls"
  obtain f ls1 where f: "mlc_find ops t k ls = (f, ls1)" by fastforce
  with find_inv [OF ls, of t k] have "list_all inv ls1" by simp
  with f backfill_returns [of ls1 t k] show ?thesis by (cases f) (auto simp: mlc_get_def)
qed

lemma put_loop_ok:
  "list_all inv ls \<Longrightarrow> fits v \<Longrightarrow> mlc_put_loop ops t k v ttl le ls = Some (Ok (), ls') \<Longrightarrow>
     le = Ok () \<and> list_all inv ls' \<and> (\<forall>l \<in> set ls'. \<forall>t'. view t' l k = None \<or> view t' l k = Some v)"
proof (induction ls arbitrary: le ls')
  case (Cons l ls)
  then obtain r l' ls'' where s: "ic_put ops t k v ttl l = Some (r, l')"
    "mlc_put_loop ops t k v ttl (if isOk r then le else r) ls = Some (Ok (), ls'')" "ls' = l' # ls''"
    by (auto simp: bind_eq_Some_conv)
  from Cons.IH [OF _ _ s(2)] Cons.prems have I: "(if isOk r then le else r) = Ok ()"
    "list_all inv ls''" "\<forall>l \<in> set ls''. \<forall>t'. view t' l k = None \<or> view t' l k = Some v" by auto
  then have r: "r = Ok ()" "le = Ok ()" by (cases r; simp)+
  have "inv l'" using put_inv [OF _ s(1)] Cons.prems by simp
  moreover have "\<forall>t'. view t' l' k = None \<or> view t' l' k = Some v"
    using put_ok [OF _ _ s(1) [unfolded r(1)]] Cons.prems by simp
  ultimately show ?case using I r s(3) by auto
qed simp

text \<open>Coherence of the composition: after a \<open>put\<close> that reports success no \<open>get\<close> returns another value.\<close>

lemma put_no_stale:
  assumes "list_all inv ls" "fits v" "mlc_put ops t k v ttl ls = Some (Ok (), ls')"
  shows "\<exists>r ls''. mlc_get ops t' k ls' = Some (Ok r, ls'') \<and> (r = None \<or> r = Some v)"
proof -
  from put_loop_ok [OF assms(1,2), of t k ttl "Ok ()" ls'] assms(3)
  have I: "list_all inv ls'" "\<forall>l \<in> set ls'. \<forall>t'. view t' l k = None \<or> view t' l k = Some v" by (auto simp: mlc_put_def)
  obtain r ls'' where g: "mlc_get ops t' k ls' = Some (Ok r, ls'')" using get_returns [OF I(1)] by blast
  have "r = None \<or> r = Some v"
  proof (cases "mlc_find ops t' k ls'")
    case (Pair f ls3)
    show ?thesis
    proof (cases f)
      case None
      with g Pair show ?thesis by (simp add: mlc_get_def)
    next
      case (Some iw)
      obtain i w where "iw = (i, w)" by fastforce
      with find_hit [OF I(1)] Some Pair have "i < length ls'" "view t' (ls' ! i) k = Some w" by auto
      with I(2) nth_mem [of i ls'] have "view t' (ls' ! i) k = Some v" by (metis option.distinct(1))
      with \<open>view t' (ls' ! i) k = Some w\<close> have "w = v" by simp
      with g Pair Some \<open>iw = (i, w)\<close> show ?thesis by (auto simp: mlc_get_def)
    qed
  qed
  with g show ?thesis by blast
qed

end

text \<open>
  An implementation whose storage does not fail: \<open>get\<close> always answers, \<open>remove\<close> takes the key away and
  complains at most that it was not there; every value fits.
\<close>

locale reliable_icache = icache +
  assumes all_fit: "fits v"
    and get_total: "inv s \<Longrightarrow> fst (ic_get ops t k s) = Ok (view t s k)"
    and remove_inv: "inv s \<Longrightarrow> inv (snd (ic_remove ops k s))"
    and remove_gone: "inv s \<Longrightarrow> view t (snd (ic_remove ops k s)) k = None"
    and remove_err: "inv s \<Longrightarrow> ic_remove ops k s = (Err e, s') \<Longrightarrow> err_code e = EC_NotFound"
begin

lemma find_miss:
  "list_all inv ls \<Longrightarrow> \<forall>l \<in> set ls. view t l k = None \<Longrightarrow> fst (mlc_find ops t k ls) = None"
proof (induction ls)
  case (Cons l ls)
  obtain l' where "ic_get ops t k l = (Ok None, l')" using get_total [of l t k] Cons.prems
    by (cases "ic_get ops t k l") auto
  with Cons show ?case by (auto split: prod.splits option.splits)
qed simp

lemma remove_all:
  "list_all inv ls \<Longrightarrow> \<exists>ls'. mlc_remove ops k ls = (Ok (), ls') \<and> list_all inv ls' \<and> length ls' = length ls
     \<and> (\<forall>l \<in> set ls'. \<forall>t. view t l k = None)"
proof (induction ls)
  case (Cons l ls)
  then obtain ls' where I: "mlc_remove ops k ls = (Ok (), ls')" "list_all inv ls'" "length ls' = length ls"
    "\<forall>l \<in> set ls'. \<forall>t. view t l k = None" by auto
  obtain r l' where r: "ic_remove ops k l = (r, l')" by fastforce
  have "inv l'" "view t l' k = None" for t
    using remove_inv [of l k] remove_gone [of l t k] r Cons.prems by auto
  with I r remove_err [of l k] Cons.prems show ?case by (cases r) auto
qed simp

lemma remove_then_get:
  assumes "list_all inv ls"
  shows "\<exists>ls'. mlc_remove ops k ls = (Ok (), ls') \<and> (\<exists>ls''. mlc_get ops t k ls' = Some (Ok None, ls''))"
proof -
  obtain ls' where l: "mlc_remove ops k ls = (Ok (), ls')" "list_all inv ls'"
    "\<forall>l \<in> set ls'. \<forall>t. view t l k = None" using remove_all [OF assms] by blast
  with find_miss [of ls' t k] have "fst (mlc_find ops t k ls') = None" by blast
  with l(1) show ?thesis by (cases "mlc_find ops t k ls'") (auto simp: mlc_get_def)
qed

end

section \<open>The implementations\<close>

abbreviation mem_view :: "clock \<Rightarrow> ('k, 'v) memory_cache \<Rightarrow> 'k \<rightharpoonup> 'v" where
  "mem_view t \<equiv> mc_view (fst t)"

lemma mc_put_view:
  assumes "mc_inv c" "mc_put est now k v ttl c = Some c'"
  shows "mc_inv c' \<and> (mc_view t' c' k = None \<or> mc_view t' c' k = Some v)"
proof -
  obtain e where "mc_inv c'" "map_of (mc_entries c') k = Some e" "e_value e = v"
    using mc_store_total [OF assms(1), of k v "est v" "computeExpireTime (mc_cfg c) now ttl"] assms(2)
    unfolding mc_put_def by auto
  then show ?thesis by (simp add: mc_view_def)
qed

interpretation mem_level: reliable_icache
  "mc_ops est :: (('k, 'v) memory_cache, 'k, 'v) icache_ops" mc_inv mem_view "\<lambda>_. True" for est :: "'v \<Rightarrow> nat"
proof
  fix s s' :: "('k, 'v) memory_cache" and t t' :: clock and k v ttl and r :: "'v option" assume i: "mc_inv s"
  show "ic_get (mc_ops est) t k s = (Ok r, s') \<Longrightarrow> r = mc_view (fst t) s k"
    by (auto simp: mc_ops_def mc_get_def mc_view_def split: option.splits if_splits)
  show "ic_put (mc_ops est) t k v ttl s \<noteq> None"
    using mc_store_total [OF i] by (fastforce simp: mc_ops_def mc_put_def)
  show "ic_put (mc_ops est) t k v ttl s = Some (Ok (), s') \<Longrightarrow>
      mc_view (fst t') s' k = None \<or> mc_view (fst t') s' k = Some v"
    using mc_put_view [OF i] by (fastforce simp: mc_ops_def)
  show "fst (ic_get (mc_ops est) t k s) = Ok (mc_view (fst t) s k)"
    by (auto simp: mc_ops_def mc_get_def mc_view_def split: option.splits)
  show "mc_inv (snd (ic_get (mc_ops est) t k s))"
    using mc_get_inv [OF i, of "fst t" k] by (auto simp: mc_ops_def split: prod.splits)
  show "mc_inv (snd (ic_remove (mc_ops est) k s))"
    using mc_evictEntry_inv [OF i] i by (auto simp: mc_ops_def mc_remove_def split: option.splits)
  show "mc_view (fst t) (snd (ic_remove (mc_ops est) k s)) k = None"
    by (auto simp: mc_ops_def mc_remove_def mc_view_def mc_evictEntry_def AList.delete_conv' split: option.splits)
next
  fix s s' :: "('k, 'v) memory_cache" and t :: clock and k v ttl res assume i: "mc_inv s"
  show "ic_put (mc_ops est) t k v ttl s = Some (res, s') \<Longrightarrow> mc_inv s'"
    using mc_put_view [OF i] by (fastforce simp: mc_ops_def)
next
  fix s s' :: "('k, 'v) memory_cache" and k e
  show "ic_remove (mc_ops est) k s = (Err e, s') \<Longrightarrow> err_code e = EC_NotFound"
    by (auto simp: mc_ops_def mc_remove_def split: option.splits)
qed simp

definition dc_view :: "'fs qfs \<Rightarrow> ('fs \<Rightarrow> string \<rightharpoonup> string) \<Rightarrow> clock \<Rightarrow> 'fs disk_cache \<Rightarrow> string \<rightharpoonup> string" where
  "dc_view q content t c k =
     (if dc_isExpired q (snd t) k c then None else content (dc_fs c) (keyToDataPath q (dc_cfg c) k))"

text \<open>The disk: no read fails, and a value fits whose size is an \<^verbatim>\<open>int\<close>.\<close>

lemma disk_icache:
  assumes "qfs_contract q content" "reads_whole q content"
  shows "icache (dc_ops q) (\<lambda>_. True) (dc_view q content) (\<lambda>v. length v < 2 ^ 31)"
proof
  fix s s' and t t' :: clock and k v ttl r
  show "ic_get (dc_ops q) t k s = (Ok r, s') \<Longrightarrow> r = dc_view q content t s k"
    using qfs_readD [OF assms(2)]
    by (auto simp: dc_ops_def dc_get_def dc_view_def Let_def qfs_existsD [OF assms(1)] split: if_splits option.splits)
  show "length v < 2 ^ 31 \<Longrightarrow> ic_put (dc_ops q) t k v ttl s = Some (Ok (), s') \<Longrightarrow>
      dc_view q content t' s' k = None \<or> dc_view q content t' s' k = Some v"
    using dc_put_ok_state [OF assms(1), of "fst t" "snd t" k v ttl s s'] to_bytearray_small [of v] by (simp add: dc_ops_def dc_view_def)
qed (simp_all add: dc_ops_def)

lemma sum_icache:
  assumes "icache A ia va fa" "icache B ib vb fb"
  shows "icache (sum_ops A B) (case_sum ia ib) (\<lambda>t. case_sum (va t) (vb t)) (\<lambda>v. fa v \<and> fb v)"
proof
  fix s s' and t t' :: clock and k v ttl and r :: "'c option" assume i: "case_sum ia ib s"
  note G = icache.get_ok [OF assms(1)] icache.get_ok [OF assms(2)]
  note I = icache.get_inv [OF assms(1), of _ t k] icache.get_inv [OF assms(2), of _ t k]
  note R = icache.put_returns [OF assms(1), of _ t k v ttl] icache.put_returns [OF assms(2), of _ t k v ttl]
  note P = icache.put_ok [OF assms(1), of _ v t k ttl _ t'] icache.put_ok [OF assms(2), of _ v t k ttl _ t']
  show "ic_get (sum_ops A B) t k s = (Ok r, s') \<Longrightarrow> r = case_sum (va t) (vb t) s k"
    using G i by (cases s) (auto simp: sum_ops_def apsnd_def map_prod_def split: prod.splits)
  show "ic_put (sum_ops A B) t k v ttl s \<noteq> None"
    using R i by (cases s) (auto simp: sum_ops_def)
  show "case_sum ia ib (snd (ic_get (sum_ops A B) t k s))"
    using I i by (cases s) (auto simp: sum_ops_def)
  show "fa v \<and> fb v \<Longrightarrow> ic_put (sum_ops A B) t k v ttl s = Some (Ok (), s') \<Longrightarrow>
      case_sum (va t') (vb t') s' k = None \<or> case_sum (va t') (vb t') s' k = Some v"
    using P i by (cases s) (fastforce simp: sum_ops_def)+
next
  fix s s' t k v ttl res assume i: "case_sum ia ib s"
  show "ic_put (sum_ops A B) t k v ttl s = Some (res, s') \<Longrightarrow> case_sum ia ib s'"
    using icache.put_inv [OF assms(1), of _ t k v ttl res] icache.put_inv [OF assms(2), of _ t k v ttl res] i
    by (cases s) (auto simp: sum_ops_def)
qed

lemma level_icache:
  assumes "qfs_contract q content" "reads_whole q content"
  shows "icache (level_ops est q) (case_sum mc_inv (\<lambda>_. True)) (\<lambda>t. case_sum (mem_view t) (dc_view q content t)) (\<lambda>v. True \<and> length v < 2 ^ 31)"
  unfolding level_ops_def by (rule sum_icache [OF mem_level.icache_axioms disk_icache [OF assms]])

section \<open>Properties\<close>

text \<open>C10 (functional). Over any mix of memory and disk levels, whichever files cannot be opened, written, renamed or deleted, as long as no read of an opened file fails: after a \<open>put\<close> of a value below
  2 GiB that reports success, with no other call in progress, a \<open>get\<close> of the key returns, and its answer is the new value or a miss, never an older value left in some level.\<close>

theorem mlc_put_coherent:
  assumes "qfs_contract q content" "reads_whole q content" "list_all (case_sum mc_inv (\<lambda>_. True)) ls" "length v < 2 ^ 31"
    and "mlc_put (level_ops est q) t k v ttl ls = Some (Ok (), ls')"
  shows "\<exists>r ls''. mlc_get (level_ops est q) t' k ls' = Some (Ok r, ls'') \<and> (r = None \<or> r = Some v)"
  using icache.put_no_stale [OF level_icache [OF assms(1,2)] assms(3) _ assms(5)] assms(4) by blast

text \<open>The lock of the class covers the back-filling only. A \<open>get\<close> that has found the old value in the lower level while a complete \<open>put\<close> of a new value comes in between writes the old value back over
  the new one: although the \<open>put\<close> has succeeded, the next \<open>get\<close> returns the old value.\<close>

theorem mlc_concurrent_backfill_restores_old:
  assumes "mc_inv a" "mc_inv b" "map_of (mc_entries a) k = None" "map_of (mc_entries b) k = Some e" "\<not> mc_isExpired (fst t) e"
    and "defaultTtl (mc_cfg a) = None" "mlc_find (mc_ops est) t k [a, b] = (hit, ls)" "mlc_put (mc_ops est) t k new ttl ls = Some (Ok (), ls1)"
  shows "hit = Some (1, e_value e) \<and> (\<exists>ls2. backfillUpper (mc_ops est) t k (e_value e) 1 ls1 = Some ls2
    \<and> (\<forall>t'. \<exists>ls3. mlc_get (mc_ops est) t' k ls2 = Some (Ok (Some (e_value e)), ls3)))"
proof -
  have f: "mlc_find (mc_ops est) t k [a, b] = (Some (1, e_value e), [mc_bump_miss a, mc_bump_hit (mc_touch k b)])"
    using assms(3-5) by (simp add: mc_ops_def mc_get_def)
  have ia: "mc_inv (mc_bump_miss a)" using assms(1) by (simp add: mc_bump_inv)
  from f assms(7,8) obtain a1 b1 where p: "mc_put est (fst t) k new ttl (mc_bump_miss a) = Some a1" "ls1 = [a1, b1]"
    by (auto simp: mlc_put_def mc_ops_def bind_eq_Some_conv)
  have a1: "mc_inv a1" "defaultTtl (mc_cfg a1) = None"
    using mc_store_total [OF ia, of k new "est new" "computeExpireTime (mc_cfg (mc_bump_miss a)) (fst t) ttl"] p(1) assms(6) by (auto simp: mc_put_def)
  then have ex: "computeExpireTime (mc_cfg a1) (fst t) None = None" by (simp add: computeExpireTime_def)
  obtain a2 e2 where a2: "mc_put est (fst t) k (e_value e) None a1 = Some a2"
    "map_of (mc_entries a2) k = Some e2" "e_value e2 = e_value e" "e_expireTime e2 = None"
    using mc_store_total [OF a1(1), of k "e_value e" "est (e_value e)" None] unfolding mc_put_def ex by auto
  then have "backfillUpper (mc_ops est) t k (e_value e) 1 ls1 = Some [a2, b1]" using p(2) by (simp add: mc_ops_def)
  moreover have "\<exists>ls3. mlc_get (mc_ops est) t' k [a2, b1] = Some (Ok (Some (e_value e)), ls3)" for t'
    using a2(2-4) by (simp add: mlc_get_def mc_ops_def mc_get_def mc_isExpired_def)
  ultimately show ?thesis using f assms(7) by auto
qed

text \<open>After \<open>remove\<close> on memory levels the key is gone from all of them: \<open>remove\<close> reports success
  and no lower level brings the key back, whenever the next \<open>get\<close> comes.\<close>

theorem mlc_remove_no_resurrection:
  assumes "list_all mc_inv ls"
  shows "\<exists>ls'. mlc_remove (mc_ops est) k ls = (Ok (), ls')
    \<and> (\<exists>ls''. mlc_get (mc_ops est) t k ls' = Some (Ok None, ls''))"
  using mem_level.remove_then_get [OF assms] .

text \<open>A memory level over a disk level, the key already on disk and no eviction due: \<open>put\<close> writes
  the memory level, the disk refuses, and the call reports an error. Once the memory level has lost
  the entry, \<open>get\<close> returns the old value and writes it back to the memory level.\<close>

theorem mlc_failed_update_serves_old_value:
  assumes "qfs_contract q content" "mc_inv m"
    and "p = keyToDataPath q (dc_cfg d) k" "content (dc_fs d) p = Some old"
    and "d_maxBytes (dc_cfg d) = 0 \<or> totalBytes (dc_stats d) + length v \<le> d_maxBytes (dc_cfg d)"
  shows "\<exists>e m' d'. mlc_put (level_ops est q) t k v ttl [Inl m, Inr d] = Some (Err e, [Inl m', Inr d'])
    \<and> (\<not> dc_isExpired q (snd t') k d' \<and> q_readAll q p (dc_fs d') = Some old \<longrightarrow>
        (\<exists>ls. mlc_get (level_ops est q) t' k [Inl (snd (mc_remove k m')), Inr d'] = Some (Ok (Some old), ls)))"
proof -
  obtain m' where m': "mc_put est (fst t) k v ttl m = Some m'"
    using mc_store_total [OF assms(2)] by (fastforce simp: mc_put_def)
  with mc_put_view [OF assms(2)] have im: "mc_inv m'" by blast
  obtain e d' where d': "dc_put q (fst t) (snd t) k v ttl d = (Err e, d')"
    "content (dc_fs d') p = Some old" "dc_cfg d' = dc_cfg d"
    using dc_put_refused [OF assms(1) assms(4) [unfolded assms(3)] assms(5), of "fst t" "snd t" ttl] assms(3) by blast
  have put: "mlc_put (level_ops est q) t k v ttl [Inl m, Inr d] = Some (Err e, [Inl m', Inr d'])"
    using m' d' by (simp add: mlc_put_def level_ops_def sum_ops_def mc_ops_def dc_ops_def)
  moreover have "\<exists>ls. mlc_get (level_ops est q) t' k [Inl (snd (mc_remove k m')), Inr d'] = Some (Ok (Some old), ls)"
    if "\<not> dc_isExpired q (snd t') k d'" "q_readAll q p (dc_fs d') = Some old"
  proof -
    have ir: "mc_inv (snd (mc_remove k m'))"
      using mem_level.remove_inv [OF im, of est k] by (simp add: mc_ops_def)
    have "mc_get (fst t') k (snd (mc_remove k m')) = (None, mc_bump_miss (snd (mc_remove k m')))"
      by (auto simp: mc_get_def mc_remove_def mc_evictEntry_def AList.delete_conv' split: option.splits)
    moreover have "fst (dc_get q (fst t') (snd t') k d') = Ok (Some old)"
      using that d' assms(3)
      by (auto simp: dc_get_def Let_def qfs_existsD [OF assms(1)])
    ultimately have "mlc_find (level_ops est q) t' k [Inl (snd (mc_remove k m')), Inr d']
        = (Some (1, old), [Inl (mc_bump_miss (snd (mc_remove k m'))), Inr (snd (dc_get q (fst t') (snd t') k d'))])"
      by (cases "dc_get q (fst t') (snd t') k d'") (simp add: level_ops_def sum_ops_def mc_ops_def dc_ops_def)
    moreover obtain m'' where "mc_put est (fst t') k old None (mc_bump_miss (snd (mc_remove k m'))) = Some m''"
      using mc_store_total [of "mc_bump_miss (snd (mc_remove k m'))"] ir by (fastforce simp: mc_put_def mc_bump_inv)
    ultimately show ?thesis by (simp add: mlc_get_def level_ops_def sum_ops_def mc_ops_def)
  qed
  ultimately show ?thesis by blast
qed

text \<open>Back-filling forgets the time to live: when the upper memory level has no default time to
  live, a hit in the lower level stores the value above for ever, so every later \<open>get\<close> returns it, also
  after the lower level's entry has expired.\<close>

theorem mlc_backfill_outlives_ttl:
  assumes "mc_inv a" "map_of (mc_entries a) k = None" "defaultTtl (mc_cfg a) = None"
    and "map_of (mc_entries b) k = Some e" "\<not> mc_isExpired (fst t) e"
  shows "\<exists>a' b'. mlc_get (mc_ops est) t k [a, b] = Some (Ok (Some (e_value e)), [a', b'])
    \<and> (\<forall>t'. \<exists>ls. mlc_get (mc_ops est) t' k [a', b'] = Some (Ok (Some (e_value e)), ls))"
proof -
  have i: "mc_inv (mc_bump_miss a)" using assms(1) by (simp add: mc_bump_inv)
  have ex: "computeExpireTime (mc_cfg (mc_bump_miss a)) (fst t) None = None"
    using assms(3) by (simp add: computeExpireTime_def)
  obtain a' e' where a': "mc_put est (fst t) k (e_value e) None (mc_bump_miss a) = Some a'"
    "map_of (mc_entries a') k = Some e'" "e_value e' = e_value e" "e_expireTime e' = None"
    using mc_store_total [OF i, of k "e_value e" "est (e_value e)" None] unfolding mc_put_def ex by auto
  let ?b = "mc_bump_hit (mc_touch k b)"
  have "mlc_find (mc_ops est) t k [a, b] = (Some (1, e_value e), [mc_bump_miss a, ?b])"
    using assms by (simp add: mc_ops_def mc_get_def)
  then have "mlc_get (mc_ops est) t k [a, b] = Some (Ok (Some (e_value e)), [a', ?b])"
    using a'(1) by (simp add: mlc_get_def) (simp add: mc_ops_def)
  moreover have "\<exists>ls. mlc_get (mc_ops est) t' k [a', ?b] = Some (Ok (Some (e_value e)), ls)" for t'
    using a'(2-4) by (simp add: mlc_get_def mc_ops_def mc_get_def mc_isExpired_def)
  ultimately show ?thesis by blast
qed

section \<open>Witnesses\<close>

lemma fresh_memory_inv: "mc_inv (mk_MemoryCache cfg)"
  using mc_ok_init by (auto simp: mc_ok_def)

theorem mlc_put_coherent_witness:
  "\<exists>ls' r ls''. mlc_put (level_ops length sim_qfs) (0, 0) ''k'' ''v'' None [Inr (sim_cache [] [])] = Some (Ok (), ls')
    \<and> mlc_get (level_ops length sim_qfs) (0, 7) ''k'' ls' = Some (Ok r, ls'') \<and> (r = None \<or> r = Some ''v'')"
proof -
  obtain c' where "dc_put sim_qfs 0 0 ''k'' ''v'' None (sim_cache [] []) = (Ok (), c')"
    using sim_put_fresh by (cases "dc_put sim_qfs 0 0 ''k'' ''v'' None (sim_cache [] [])") simp
  then have "mlc_put (level_ops length sim_qfs) (0, 0) ''k'' ''v'' None [Inr (sim_cache [] [])] = Some (Ok (), [Inr c'])"
    by (simp add: mlc_put_def level_ops_def sum_ops_def dc_ops_def)
  with mlc_put_coherent [OF sim_contract sim_reads_whole _ _ this, of "(0, 7)"] show ?thesis by fastforce
qed

theorem mlc_remove_no_resurrection_witness:
  "\<exists>ls'. mlc_remove (mc_ops id) (1::nat)
      [mk_MemoryCache tiny_config, mc_insert 1 (4::nat) 4 None (mk_MemoryCache tiny_config)] = (Ok (), ls')
    \<and> (\<exists>ls''. mlc_get (mc_ops id) (9, 9) 1 ls' = Some (Ok None, ls''))"
proof -
  have "list_all mc_inv [mk_MemoryCache tiny_config, mc_insert (1::nat) (4::nat) 4 None (mk_MemoryCache tiny_config)]"
    by (simp add: fresh_memory_inv mc_insert_inv mk_MemoryCache_def mc_insert_def mc_inv_def empty_stats_def)
  from mlc_remove_no_resurrection [OF this] show ?thesis .
qed

theorem mlc_failed_update_serves_old_value_witness:
  "\<exists>e m' d'. mlc_put (level_ops length sim_qfs) (0, 0) ''k'' ''new'' None
      [Inl (mk_MemoryCache tiny_config), Inr (sim_cache [(''d/00/k.dat'', ''old'')] [])] = Some (Err e, [Inl m', Inr d'])"
  using mlc_failed_update_serves_old_value [OF sim_contract fresh_memory_inv [of tiny_config], of "''d/00/k.dat''"
      "sim_cache [(''d/00/k.dat'', ''old'')] []" "''k''" "''old''" "''new''" length "(0, 0)" None]
  by (simp add: sim_defs) blast

theorem mlc_backfill_outlives_ttl_witness:
  "\<exists>a' b' ls. mlc_get (mc_ops id) (50, 0) (1::nat)
      [mk_MemoryCache tiny_config, mc_insert 1 (4::nat) 4 (Some 100) (mk_MemoryCache tiny_config)]
        = Some (Ok (Some 4), [a', b'])
    \<and> mlc_get (mc_ops id) (100000, 0) 1 [a', b'] = Some (Ok (Some 4), ls)"
proof -
  let ?b = "mc_insert 1 (4::nat) 4 (Some 100) (mk_MemoryCache tiny_config)"
  let ?e = "\<lparr>e_value = 4::nat, e_expireTime = Some 100, e_size = 4, e_accessCount = 1\<rparr>"
  have "map_of (mc_entries (mk_MemoryCache tiny_config)) (1::nat) = None"
    "defaultTtl (mc_cfg (mk_MemoryCache tiny_config)) = None" "map_of (mc_entries ?b) 1 = Some ?e"
    "\<not> mc_isExpired (fst (50::int, 0::int)) ?e"
    by (simp_all add: mk_MemoryCache_def mc_insert_def tiny_config_def mc_isExpired_def)
  from mlc_backfill_outlives_ttl [OF fresh_memory_inv this, of id] show ?thesis by fastforce
qed

end
