(* ===== verification/SK_Amqp.thy ===== *)
theory SK_Amqp
  imports SK_Prelude "HOL-Library.Multiset"
begin

text \<open>
  The in-memory AMQP broker of \<^verbatim>\<open>src/soul/mq/inmemory_amqp_backend.cpp\<close>.

  One operation under \<^verbatim>\<open>m_mutex\<close> is one function on the state. The dispatch thread gives up the
  mutex around every callback, so it is cut there: \<open>disp_select\<close> enters a queue and copies the
  callback and prefetch count of its consumer into the locals \<open>disp_cur\<close>, \<open>disp_next\<close> is one round of the
  inner loop up to the callback. Any other operation may run between two of these steps, in particular
  the calls a callback makes. Hash maps are association lists, the set of bound queues a list; the
  delivery tag is an integer (2^63 deliveries are needed to wrap it). Callbacks are values of an
  arbitrary type; calling one is an output of \<open>disp_next\<close>.
\<close>

section \<open>Data\<close>

datatype ExchangeType = Direct | Fanout | Topic | Headers

record AmqpMessage =
  am_exchange :: string
  am_routingKey :: string
  am_body :: string
  am_messageId :: string
  am_correlationId :: string
  am_replyTo :: string
  am_deliveryMode :: int
  am_priority :: int
  am_contentType :: string
  am_contentEncoding :: string
  am_timestamp :: int

record AmqpDelivery =
  ad_deliveryTag :: int
  ad_redelivered :: bool
  ad_exchange :: string
  ad_routingKey :: string
  ad_queue :: string
  ad_message :: AmqpMessage

record ExchangeInfo =
  ex_type :: ExchangeType
  ex_durable :: bool
  ex_autoDelete :: bool
  ex_boundQueues :: "string list"

record BindingInfo =
  bi_queue :: string
  bi_exchange :: string
  bi_routingKey :: string

record QueuedMessage =
  qm_deliveryTag :: int
  qm_message :: AmqpMessage
  qm_exchange :: string
  qm_routingKey :: string

record 'cb ConsumerInfo =
  ci_callback :: 'cb
  ci_prefetchCount :: int
  ci_unackedCount :: int

record UnackedMessage =
  ua_deliveryTag :: int
  ua_queue :: string
  ua_msg :: QueuedMessage

record 'cb amqp =
  aq_connected :: bool
  aq_consuming :: bool
  aq_nextDeliveryTag :: int
  aq_exchanges :: "(string \<times> ExchangeInfo) list"
  aq_queues :: "(string \<times> QueuedMessage list) list"
  aq_bindings :: "BindingInfo list"
  aq_consumers :: "(string \<times> 'cb ConsumerInfo) list"
  aq_unacked :: "(int \<times> UnackedMessage) list"
  disp_cur :: "(string \<times> 'cb \<times> int) option"

definition mk_InMemoryAmqpBackend :: "'cb amqp" where
  "mk_InMemoryAmqpBackend = \<lparr>aq_connected = False, aq_consuming = False, aq_nextDeliveryTag = 1,
     aq_exchanges = [], aq_queues = [], aq_bindings = [], aq_consumers = [], aq_unacked = [], disp_cur = None\<rparr>"

section \<open>Topic patterns\<close>

text \<open>\<^verbatim>\<open>split('.', KeepEmptyParts)\<close>: cut at every dot, empty parts kept.\<close>

fun split_dot :: "string \<Rightarrow> string list" where
  "split_dot [] = [[]]"
| "split_dot (c # cs) =
     (if c = CHR ''.'' then [] # split_dot cs
      else case split_dot cs of w # ws \<Rightarrow> (c # w) # ws | [] \<Rightarrow> [[c]])"

text \<open>
  The loop with its two cursors, as recursion on the parts not yet consumed, and the test after it.
\<close>

fun matchTopicParts :: "string list \<Rightarrow> string list \<Rightarrow> bool" where
  "matchTopicParts (p # ps) (k # ks) =
     (if p = ''#'' then
        (case ps of
           [] \<Rightarrow> True
         | nextP # _ \<Rightarrow>
             (case dropWhile (\<lambda>w. w \<noteq> nextP) (k # ks) of
                [] \<Rightarrow> False
              | _ # rest \<Rightarrow> matchTopicParts ps rest))
      else if p = ''*'' then matchTopicParts ps ks
      else if p = k then matchTopicParts ps ks
      else False)"
| "matchTopicParts [] ks = (ks = [])"
| "matchTopicParts (p # ps) [] = (p = ''#'' \<and> ps = [])"

definition matchTopicPattern :: "string \<Rightarrow> string \<Rightarrow> bool" where
  "matchTopicPattern pattern key =
     (if pattern = key then True
      else if pattern = [] \<or> key = [] then False
      else matchTopicParts (split_dot pattern) (split_dot key))"

section \<open>Operations\<close>

abbreviation not_connected :: sc_error where
  "not_connected \<equiv> mk_error EC_NotConnected ''InMemoryAmqpBackend: not connected''"

definition aq_connect :: "'cb amqp \<Rightarrow> unit result \<times> 'cb amqp" where
  "aq_connect s = (Ok (), s\<lparr>aq_connected := True\<rparr>)"

definition startConsuming :: "'cb amqp \<Rightarrow> 'cb amqp" where
  "startConsuming s = (if aq_consuming s then s else s\<lparr>aq_consuming := True, disp_cur := None\<rparr>)"

text \<open>\<open>stopConsuming\<close> returns when the dispatch thread has ended.\<close>

definition stopConsuming :: "'cb amqp \<Rightarrow> 'cb amqp" where
  "stopConsuming s = s\<lparr>aq_consuming := False, disp_cur := None\<rparr>"

definition aq_disconnect :: "'cb amqp \<Rightarrow> 'cb amqp" where
  "aq_disconnect s =
     (if \<not> aq_connected s then s
      else (stopConsuming (s\<lparr>aq_connected := False\<rparr>))
        \<lparr>aq_exchanges := [], aq_queues := [], aq_bindings := [], aq_consumers := [], aq_unacked := []\<rparr>)"

definition declareExchange :: "string \<Rightarrow> ExchangeType \<Rightarrow> bool \<Rightarrow> bool \<Rightarrow> 'cb amqp \<Rightarrow> unit result \<times> 'cb amqp" where
  "declareExchange name type durable autoDelete s =
     (if \<not> aq_connected s then (Err not_connected, s)
      else if name = [] then
        (Err (mk_error EC_InvalidArgument ''InMemoryAmqpBackend: exchange name must not be empty''), s)
      else if map_of (aq_exchanges s) name \<noteq> None then (Ok (), s)
      else (Ok (), s\<lparr>aq_exchanges := (name, \<lparr>ex_type = type, ex_durable = durable, ex_autoDelete = autoDelete,
                                            ex_boundQueues = []\<rparr>) # aq_exchanges s\<rparr>))"

definition generateQueueName :: "string \<Rightarrow> string" where
  "generateQueueName uuid = ''amq.gen-'' @ take 22 uuid"

definition declareQueue :: "string \<Rightarrow> string \<Rightarrow> 'cb amqp \<Rightarrow> string result \<times> 'cb amqp" where
  "declareQueue uuid name s =
     (if \<not> aq_connected s then (Err not_connected, s)
      else let queueName = (if name = [] then generateQueueName uuid else name)
           in (Ok queueName,
               if map_of (aq_queues s) queueName = None then s\<lparr>aq_queues := (queueName, []) # aq_queues s\<rparr> else s))"

definition bindQueue :: "string \<Rightarrow> string \<Rightarrow> string \<Rightarrow> 'cb amqp \<Rightarrow> unit result \<times> 'cb amqp" where
  "bindQueue queue exchange routingKey s =
     (if \<not> aq_connected s then (Err not_connected, s)
      else case map_of (aq_exchanges s) exchange of
        None \<Rightarrow> (Err (mk_error EC_NotFound
                   (''InMemoryAmqpBackend: exchange '' @ squote @ exchange @ squote @ '' not found'')), s)
      | Some ex \<Rightarrow>
          if map_of (aq_queues s) queue = None
          then (Err (mk_error EC_NotFound
                   (''InMemoryAmqpBackend: queue '' @ squote @ queue @ squote @ '' not found'')), s)
          else (Ok (), s\<lparr>aq_bindings := aq_bindings s @ [\<lparr>bi_queue = queue, bi_exchange = exchange, bi_routingKey = routingKey\<rparr>],
                         aq_exchanges := AList.update exchange (ex\<lparr>ex_boundQueues := List.insert queue (ex_boundQueues ex)\<rparr>)
                                           (aq_exchanges s)\<rparr>))"

definition unbindQueue :: "string \<Rightarrow> string \<Rightarrow> string \<Rightarrow> 'cb amqp \<Rightarrow> unit result \<times> 'cb amqp" where
  "unbindQueue queue exchange routingKey s =
     (if \<not> aq_connected s then (Err not_connected, s)
      else let keep = filter (\<lambda>b. \<not> (bi_queue b = queue \<and> bi_exchange b = exchange \<and> bi_routingKey b = routingKey))
                        (aq_bindings s)
           in if length keep = length (aq_bindings s)
              then (Err (mk_error EC_NotFound ''InMemoryAmqpBackend: binding not found''), s)
              else let s1 = s\<lparr>aq_bindings := keep\<rparr>;
                       hasOtherBinding = list_ex (\<lambda>b. bi_exchange b = exchange \<and> bi_queue b = queue) keep
                   in (Ok (), if hasOtherBinding then s1
                              else case map_of (aq_exchanges s1) exchange of
                                     None \<Rightarrow> s1
                                   | Some ex \<Rightarrow> s1\<lparr>aq_exchanges := AList.update exchange
                                       (ex\<lparr>ex_boundQueues := removeAll queue (ex_boundQueues ex)\<rparr>) (aq_exchanges s1)\<rparr>))"

definition targetQueues :: "string \<Rightarrow> string \<Rightarrow> ExchangeInfo \<Rightarrow> BindingInfo list \<Rightarrow> string list" where
  "targetQueues exchangeName routingKey ex bindings =
     (case ex_type ex of
        Direct \<Rightarrow> map bi_queue (filter (\<lambda>b. bi_exchange b = exchangeName \<and> bi_routingKey b = routingKey) bindings)
      | Fanout \<Rightarrow> ex_boundQueues ex
      | Topic \<Rightarrow> map bi_queue (filter (\<lambda>b. bi_exchange b = exchangeName \<and> matchTopicPattern (bi_routingKey b) routingKey) bindings)
      | Headers \<Rightarrow> [])"

definition enqueue_to :: "QueuedMessage \<Rightarrow> string \<Rightarrow> (string \<times> QueuedMessage list) list
    \<Rightarrow> (string \<times> QueuedMessage list) list" where
  "enqueue_to qmsg queueName qs =
     (case map_of qs queueName of None \<Rightarrow> qs | Some xs \<Rightarrow> AList.update queueName (xs @ [qmsg]) qs)"

definition routeMessage :: "AmqpMessage \<Rightarrow> string \<Rightarrow> string \<Rightarrow> 'cb amqp \<Rightarrow> 'cb amqp" where
  "routeMessage message exchangeName routingKey s =
     (case map_of (aq_exchanges s) exchangeName of
        None \<Rightarrow> s
      | Some ex \<Rightarrow> s\<lparr>aq_queues := fold
          (enqueue_to \<lparr>qm_deliveryTag = 0, qm_message = message, qm_exchange = exchangeName, qm_routingKey = routingKey\<rparr>)
          (targetQueues exchangeName routingKey ex (aq_bindings s)) (aq_queues s)\<rparr>)"

definition publish :: "AmqpMessage \<Rightarrow> 'cb amqp \<Rightarrow> unit result \<times> 'cb amqp" where
  "publish message s =
     (if \<not> aq_connected s then (Err not_connected, s)
      else (Ok (), routeMessage message (am_exchange message) (am_routingKey message) s))"

definition int_max :: int where "int_max = 2147483647"

definition aq_consume :: "string \<Rightarrow> 'cb option \<Rightarrow> int \<Rightarrow> 'cb amqp \<Rightarrow> unit result \<times> 'cb amqp" where
  "aq_consume queue callback prefetchCount s =
     (if \<not> aq_connected s then (Err not_connected, s)
      else case callback of
        None \<Rightarrow> (Err (mk_error EC_InvalidArgument ''InMemoryAmqpBackend: consume callback must not be null''), s)
      | Some cb \<Rightarrow>
          if map_of (aq_queues s) queue = None
          then (Err (mk_error EC_NotFound
                   (''InMemoryAmqpBackend: queue '' @ squote @ queue @ squote @ '' not found'')), s)
          else (Ok (), s\<lparr>aq_consumers := AList.update queue
                  \<lparr>ci_callback = cb, ci_prefetchCount = (if prefetchCount > 0 then prefetchCount else int_max),
                   ci_unackedCount = 0\<rparr> (aq_consumers s)\<rparr>))"

definition cancelConsume :: "string \<Rightarrow> 'cb amqp \<Rightarrow> unit result \<times> 'cb amqp" where
  "cancelConsume queue s =
     (if \<not> aq_connected s then (Err not_connected, s)
      else (Ok (), s\<lparr>aq_consumers := AList.delete queue (aq_consumers s)\<rparr>))"

text \<open>The decrement of the consumer of a queue, guarded as in the source.\<close>

definition dec_unacked :: "string \<Rightarrow> 'cb amqp \<Rightarrow> 'cb amqp" where
  "dec_unacked queue s =
     (case map_of (aq_consumers s) queue of
        None \<Rightarrow> s
      | Some ci \<Rightarrow> if ci_unackedCount ci > 0
          then s\<lparr>aq_consumers := AList.update queue (ci\<lparr>ci_unackedCount := ci_unackedCount ci - 1\<rparr>) (aq_consumers s)\<rparr>
          else s)"

text \<open>Acknowledge the message with one tag.\<close>

definition ackOne :: "int \<Rightarrow> 'cb amqp \<Rightarrow> 'cb amqp" where
  "ackOne tag s =
     (case map_of (aq_unacked s) tag of
        None \<Rightarrow> s
      | Some u \<Rightarrow> dec_unacked (ua_queue u) (s\<lparr>aq_unacked := AList.delete tag (aq_unacked s)\<rparr>))"

definition tags_upto :: "int \<Rightarrow> 'cb amqp \<Rightarrow> int list" where
  "tags_upto deliveryTag s = filter (\<lambda>t. t \<le> deliveryTag) (map fst (aq_unacked s))"

definition aq_ack :: "int \<Rightarrow> bool \<Rightarrow> 'cb amqp \<Rightarrow> unit result \<times> 'cb amqp" where
  "aq_ack deliveryTag multiple s =
     (if \<not> aq_connected s then (Err not_connected, s)
      else if multiple then (Ok (), fold ackOne (tags_upto deliveryTag s) s)
      else if map_of (aq_unacked s) deliveryTag = None
        then (Err (mk_error EC_NotFound ''InMemoryAmqpBackend: delivery tag not found''), s)
        else (Ok (), ackOne deliveryTag s))"

definition nackOne :: "bool \<Rightarrow> int \<Rightarrow> 'cb amqp \<Rightarrow> 'cb amqp" where
  "nackOne requeue tag s =
     (case map_of (aq_unacked s) tag of
        None \<Rightarrow> s
      | Some u \<Rightarrow>
          let s1 = s\<lparr>aq_unacked := AList.delete tag (aq_unacked s)\<rparr>;
              s2 = (if requeue then
                      case map_of (aq_queues s1) (ua_queue u) of
                        None \<Rightarrow> s1
                      | Some xs \<Rightarrow> s1\<lparr>aq_nextDeliveryTag := aq_nextDeliveryTag s1 + 1,
                          aq_queues := AList.update (ua_queue u)
                            ((ua_msg u)\<lparr>qm_deliveryTag := aq_nextDeliveryTag s1\<rparr> # xs) (aq_queues s1)\<rparr>
                    else s1)
          in dec_unacked (ua_queue u) s2)"

definition aq_nack :: "int \<Rightarrow> bool \<Rightarrow> bool \<Rightarrow> 'cb amqp \<Rightarrow> unit result \<times> 'cb amqp" where
  "aq_nack deliveryTag requeue multiple s =
     (if \<not> aq_connected s then (Err not_connected, s)
      else if multiple then (Ok (), fold (nackOne requeue) (tags_upto deliveryTag s) s)
      else (Ok (), nackOne requeue deliveryTag s))"

definition aq_reject :: "int \<Rightarrow> bool \<Rightarrow> 'cb amqp \<Rightarrow> unit result \<times> 'cb amqp" where
  "aq_reject deliveryTag requeue s = aq_nack deliveryTag requeue False s"

section \<open>The dispatch thread\<close>

definition disp_select :: "string \<Rightarrow> 'cb amqp \<Rightarrow> 'cb amqp" where
  "disp_select queueName s =
     (if \<not> aq_consuming s \<or> disp_cur s \<noteq> None then s
      else case map_of (aq_consumers s) queueName of
        None \<Rightarrow> s
      | Some ci \<Rightarrow> s\<lparr>disp_cur := Some (queueName, ci_callback ci, ci_prefetchCount ci)\<rparr>)"

definition disp_next :: "'cb amqp \<Rightarrow> ('cb \<times> AmqpDelivery) option \<times> 'cb amqp" where
  "disp_next s =
     (case disp_cur s of
        None \<Rightarrow> (None, s)
      | Some (queueName, callback, prefetchCount) \<Rightarrow>
          (case map_of (aq_queues s) queueName of
             None \<Rightarrow> (None, s\<lparr>disp_cur := None\<rparr>)
           | Some [] \<Rightarrow> (None, s\<lparr>disp_cur := None\<rparr>)
           | Some (qmsg # rest) \<Rightarrow>
               (case map_of (aq_consumers s) queueName of
                  None \<Rightarrow> (None, s\<lparr>disp_cur := None\<rparr>)
                | Some ci \<Rightarrow>
                    if ci_unackedCount ci \<ge> prefetchCount then (None, s\<lparr>disp_cur := None\<rparr>)
                    else let tag = aq_nextDeliveryTag s;
                             qmsg' = qmsg\<lparr>qm_deliveryTag := tag\<rparr>;
                             delivery = \<lparr>ad_deliveryTag = tag, ad_redelivered = False, ad_exchange = qm_exchange qmsg,
                               ad_routingKey = qm_routingKey qmsg, ad_queue = queueName, ad_message = qm_message qmsg\<rparr>
                         in (Some (callback, delivery),
                             s\<lparr>aq_queues := AList.update queueName rest (aq_queues s),
                               aq_nextDeliveryTag := tag + 1,
                               aq_unacked := AList.update tag \<lparr>ua_deliveryTag = tag, ua_queue = queueName, ua_msg = qmsg'\<rparr> (aq_unacked s),
                               aq_consumers := AList.update queueName (ci\<lparr>ci_unackedCount := ci_unackedCount ci + 1\<rparr>) (aq_consumers s)\<rparr>))))"

section \<open>Topic matching against the protocol\<close>

text \<open>The AMQP 0.9.1 rule: a star stands for one word, a hash for any number of words.\<close>

fun topic_spec :: "string list \<Rightarrow> string list \<Rightarrow> bool" where
  "topic_spec [] ks = (ks = [])"
| "topic_spec (p # ps) [] = (p = ''#'' \<and> topic_spec ps [])"
| "topic_spec (p # ps) (k # ks) =
     (if p = ''#'' then topic_spec ps (k # ks) \<or> topic_spec (p # ps) ks
      else (p = ''*'' \<or> p = k) \<and> topic_spec ps ks)"

lemma topic_spec_hash_drop: "topic_spec ps (drop n ks) \<Longrightarrow> topic_spec (''#'' # ps) ks"
proof (induction n arbitrary: ks)
  case 0
  then show ?case by (cases ks) auto
next
  case (Suc n)
  then show ?case by (cases ks) auto
qed

lemma topic_spec_hash_last: "topic_spec [''#''] ks"
  by (induction ks) auto

lemma topic_spec_refl: "topic_spec ws ws"
proof (induction ws)
  case (Cons w ws)
  then show ?case using topic_spec_hash_drop [of ws 0 ws] by auto
qed simp

lemma dropWhile_suffix:
  assumes "dropWhile P xs = y # ys"
  shows "\<exists>n. ys = drop n xs"
proof
  have "xs = takeWhile P xs @ y # ys" using assms by (metis takeWhile_dropWhile_id)
  then show "ys = drop (Suc (length (takeWhile P xs))) xs"
    by (metis append_Nil drop_Suc_Cons drop_all drop_append drop0 le_refl length_Cons Suc_leI lessI diff_Suc_1 length_append_singleton append_eq_conv_conj append.assoc append_Cons)
qed

lemma matchTopicParts_sound: "matchTopicParts ps ks \<Longrightarrow> topic_spec ps ks"
proof (induction ps ks rule: matchTopicParts.induct)
  case (1 p ps k ks)
  show ?case
  proof (cases "p = ''#''")
    case True
    show ?thesis
    proof (cases ps)
      case Nil
      with True show ?thesis using topic_spec_hash_last by simp
    next
      case (Cons nextP ps')
      with "1.prems" True obtain w rest where d: "dropWhile (\<lambda>w. w \<noteq> nextP) (k # ks) = w # rest" "matchTopicParts ps rest"
        by (auto split: list.splits if_splits)
      with "1.IH"(1) [OF True Cons] have "topic_spec ps rest" by blast
      moreover obtain n where "rest = drop n (k # ks)" using dropWhile_suffix [OF d(1)] by blast
      ultimately show ?thesis using topic_spec_hash_drop True by blast
    qed
  qed (use 1 in \<open>auto split: if_splits\<close>)
qed (auto simp: topic_spec_hash_last)

lemma matchTopicParts_complete:
  "''#'' \<notin> set (butlast ps) \<Longrightarrow> topic_spec ps ks \<Longrightarrow> matchTopicParts ps ks"
proof (induction ps ks rule: topic_spec.induct)
  case (2 p ps)
  from "2.prems" show ?case by (cases "ps = []") simp_all
next
  case (3 p ps k ks)
  show ?case
  proof (cases "ps = []")
    case True
    with 3 show ?thesis by (auto split: if_splits)
  next
    case False
    with "3.prems"(1) have "p \<noteq> ''#''" "''#'' \<notin> set (butlast ps)" by auto
    with 3 show ?thesis by auto
  qed
qed auto

lemma split_dot_ne [simp]: "split_dot k \<noteq> []"
  by (induction k) (auto split: list.splits)

lemma split_dot_empty_word: "split_dot k = [[]] \<longleftrightarrow> k = []"
  by (cases k) (auto split: list.splits)

lemma matchTopicPattern_sound: "matchTopicPattern pattern key \<Longrightarrow> topic_spec (split_dot pattern) (split_dot key)"
  by (auto simp: matchTopicPattern_def topic_spec_refl split: if_splits intro: matchTopicParts_sound)

lemma matchTopicPattern_complete:
  assumes "key \<noteq> []" "''#'' \<notin> set (butlast (split_dot pattern))"
  shows "matchTopicPattern pattern key = topic_spec (split_dot pattern) (split_dot key)"
proof
  assume t: "topic_spec (split_dot pattern) (split_dot key)"
  show "matchTopicPattern pattern key"
  proof (cases "pattern = []")
    case True
    with t have "split_dot key = [[]]" by (cases "split_dot key") auto
    with assms(1) show ?thesis by (simp add: split_dot_empty_word)
  next
    case False
    with assms matchTopicParts_complete [OF assms(2) t] show ?thesis by (simp add: matchTopicPattern_def)
  qed
qed (rule matchTopicPattern_sound)

lemma split_dot_word: "CHR ''.'' \<notin> set w \<Longrightarrow> split_dot w = [w]"
  by (induction w) auto

lemma split_dot_append: "CHR ''.'' \<notin> set w \<Longrightarrow> split_dot (w @ CHR ''.'' # k) = w # split_dot k"
  by (induction w) auto

section \<open>Invariant\<close>

text \<open>
  Keys are unique; every unacknowledged delivery has a tag that was issued and a queue that exists;
  every binding connects an existing exchange and queue, and the set of bound queues of an exchange is
  what its bindings say; consumers sit on existing queues with sane counters.
\<close>

definition aq_keys_ok :: "'cb amqp \<Rightarrow> bool" where
  "aq_keys_ok s \<longleftrightarrow> distinct (map fst (aq_exchanges s)) \<and> distinct (map fst (aq_queues s))
     \<and> distinct (map fst (aq_consumers s)) \<and> distinct (map fst (aq_unacked s))"

definition unacked_ok :: "int \<Rightarrow> string set \<Rightarrow> (int \<rightharpoonup> UnackedMessage) \<Rightarrow> bool" where
  "unacked_ok nextTag queues ua \<longleftrightarrow> (\<forall>t u. ua t = Some u \<longrightarrow>
     t < nextTag \<and> ua_deliveryTag u = t \<and> ua_queue u \<in> queues)"

definition bound_to :: "string \<Rightarrow> BindingInfo list \<Rightarrow> string set" where
  "bound_to n bs = bi_queue ` {b \<in> set bs. bi_exchange b = n}"

definition bindings_ok :: "(string \<rightharpoonup> ExchangeInfo) \<Rightarrow> string set \<Rightarrow> BindingInfo list \<Rightarrow> bool" where
  "bindings_ok exs queues bs \<longleftrightarrow>
     (\<forall>b \<in> set bs. exs (bi_exchange b) \<noteq> None \<and> bi_queue b \<in> queues)
   \<and> (\<forall>n ex. exs n = Some ex \<longrightarrow> distinct (ex_boundQueues ex) \<and> set (ex_boundQueues ex) = bound_to n bs)"

definition consumers_ok :: "string set \<Rightarrow> (string \<rightharpoonup> 'cb ConsumerInfo) \<Rightarrow> bool" where
  "consumers_ok queues cs \<longleftrightarrow> (\<forall>n ci. cs n = Some ci \<longrightarrow>
     n \<in> queues \<and> 0 < ci_prefetchCount ci \<and> 0 \<le> ci_unackedCount ci)"

definition aq_inv :: "'cb amqp \<Rightarrow> bool" where
  "aq_inv s \<longleftrightarrow> aq_keys_ok s
     \<and> unacked_ok (aq_nextDeliveryTag s) (dom (map_of (aq_queues s))) (map_of (aq_unacked s))
     \<and> bindings_ok (map_of (aq_exchanges s)) (dom (map_of (aq_queues s))) (aq_bindings s)
     \<and> consumers_ok (dom (map_of (aq_queues s))) (map_of (aq_consumers s))"

declare map_of_eq_Some_iff [simp del] Some_eq_map_of_iff [simp del]

lemmas alist_simps = AList.update_conv' AList.delete_conv' distinct_update distinct_delete

lemma enqueue_to_dom [simp]:
  "dom (map_of (enqueue_to m q qs)) = dom (map_of qs)" "distinct (map fst qs) \<Longrightarrow> distinct (map fst (enqueue_to m q qs))"
  by (auto simp: enqueue_to_def alist_simps split: option.splits)

lemma fold_enqueue_dom [simp]:
  "dom (map_of (fold (enqueue_to m) ts qs)) = dom (map_of qs)"
  "distinct (map fst qs) \<Longrightarrow> distinct (map fst (fold (enqueue_to m) ts qs))"
  by (induction ts arbitrary: qs) auto

lemma unacked_ok_mono: "unacked_ok n Q ua \<Longrightarrow> n \<le> n' \<Longrightarrow> Q \<subseteq> Q' \<Longrightarrow> unacked_ok n' Q' ua"
  by (fastforce simp: unacked_ok_def)

lemma unacked_ok_upd:
  "unacked_ok n Q ua \<Longrightarrow> unacked_ok n Q (ua(t := None))"
  "unacked_ok n Q ua \<Longrightarrow> t < n \<Longrightarrow> ua_deliveryTag u = t \<Longrightarrow> ua_queue u \<in> Q \<Longrightarrow> unacked_ok n Q (ua(t \<mapsto> u))"
  by (simp_all add: unacked_ok_def)

lemma bindings_ok_mono: "bindings_ok exs Q bs \<Longrightarrow> Q \<subseteq> Q' \<Longrightarrow> bindings_ok exs Q' bs"
  unfolding bindings_ok_def by blast

lemma bindings_ok_new_exchange:
  "bindings_ok exs Q bs \<Longrightarrow> exs n = None \<Longrightarrow> ex_boundQueues ex = [] \<Longrightarrow> bindings_ok (exs(n \<mapsto> ex)) Q bs"
  by (auto simp: bindings_ok_def bound_to_def)

lemma bound_to_snoc [simp]:
  "bound_to n (bs @ [b]) = (if bi_exchange b = n then insert (bi_queue b) (bound_to n bs) else bound_to n bs)"
  by (auto simp: bound_to_def)

lemma bindings_ok_bind:
  assumes "bindings_ok exs Q bs" "exs e = Some ex" "q \<in> Q"
  shows "bindings_ok (exs(e \<mapsto> ex\<lparr>ex_boundQueues := List.insert q (ex_boundQueues ex)\<rparr>)) Q
    (bs @ [\<lparr>bi_queue = q, bi_exchange = e, bi_routingKey = r\<rparr>])"
  using assms by (auto simp: bindings_ok_def)

lemma consumers_ok_mono: "consumers_ok Q cs \<Longrightarrow> Q \<subseteq> Q' \<Longrightarrow> consumers_ok Q' cs"
  by (fastforce simp: consumers_ok_def)

lemma consumers_ok_upd:
  "consumers_ok Q cs \<Longrightarrow> consumers_ok Q (cs(q := None))"
  "consumers_ok Q cs \<Longrightarrow> q \<in> Q \<Longrightarrow> 0 < ci_prefetchCount ci \<Longrightarrow> 0 \<le> ci_unackedCount ci \<Longrightarrow> consumers_ok Q (cs(q \<mapsto> ci))"
  by (simp_all add: consumers_ok_def)

lemma consumers_okD: "consumers_ok Q cs \<Longrightarrow> cs q = Some ci \<Longrightarrow> q \<in> Q \<and> 0 < ci_prefetchCount ci \<and> 0 \<le> ci_unackedCount ci"
  by (simp add: consumers_ok_def)

lemma unacked_okD: "unacked_ok n Q ua \<Longrightarrow> ua t = Some u \<Longrightarrow> t < n \<and> ua_deliveryTag u = t \<and> ua_queue u \<in> Q"
  by (simp add: unacked_ok_def)

section \<open>Every operation keeps the invariant\<close>

lemma aq_inv_init: "aq_inv mk_InMemoryAmqpBackend"
  by (simp add: aq_inv_def aq_keys_ok_def unacked_ok_def bindings_ok_def consumers_ok_def mk_InMemoryAmqpBackend_def)

lemma aq_inv_flags [simp]:
  "aq_inv (s\<lparr>aq_connected := c\<rparr>) = aq_inv s" "aq_inv (s\<lparr>disp_cur := d\<rparr>) = aq_inv s"
  "aq_inv (s\<lparr>aq_consuming := b\<rparr>) = aq_inv s" "aq_inv (s\<lparr>aq_consuming := b, disp_cur := d\<rparr>) = aq_inv s"
  by (simp_all add: aq_inv_def aq_keys_ok_def)

lemma aq_disconnect_inv [sk_inv]: "aq_inv s \<Longrightarrow> aq_inv (aq_disconnect s)"
  by (auto simp: aq_disconnect_def)
    (simp add: stopConsuming_def aq_inv_def aq_keys_ok_def unacked_ok_def bindings_ok_def consumers_ok_def)

lemma start_stop_inv [sk_inv]: "aq_inv s \<Longrightarrow> aq_inv (startConsuming s)" "aq_inv s \<Longrightarrow> aq_inv (stopConsuming s)"
  by (simp_all add: startConsuming_def stopConsuming_def)

lemma declareExchange_inv [sk_inv]:
  assumes "aq_inv s"
  shows "aq_inv (snd (declareExchange n ty d a s))"
proof (cases "map_of (aq_exchanges s) n")
  case None
  then have "n \<notin> fst ` set (aq_exchanges s)" by (simp add: map_of_eq_None_iff)
  with assms None show ?thesis
    by (simp add: declareExchange_def aq_inv_def aq_keys_ok_def bindings_ok_new_exchange)
qed (use assms in \<open>simp add: declareExchange_def\<close>)

lemma declareQueue_inv [sk_inv]: "aq_inv s \<Longrightarrow> aq_inv (snd (declareQueue uuid n s))"
  by (auto simp: declareQueue_def aq_inv_def aq_keys_ok_def Let_def map_of_eq_None_iff
      elim: unacked_ok_mono bindings_ok_mono consumers_ok_mono)

lemma bindQueue_inv [sk_inv]:
  assumes "aq_inv s"
  shows "aq_inv (snd (bindQueue q e r s))"
  using assms
  by (auto simp: bindQueue_def aq_inv_def aq_keys_ok_def alist_simps split: option.splits intro!: bindings_ok_bind)

lemma bindings_ok_unbind:
  assumes "bindings_ok exs Q bs" "keep = filter (\<lambda>b. \<not> (bi_queue b = q \<and> bi_exchange b = e \<and> bi_routingKey b = r)) bs"
  shows "list_ex (\<lambda>b. bi_exchange b = e \<and> bi_queue b = q) keep \<Longrightarrow> bindings_ok exs Q keep"
    and "\<not> list_ex (\<lambda>b. bi_exchange b = e \<and> bi_queue b = q) keep \<Longrightarrow> exs e = Some ex \<Longrightarrow>
      bindings_ok (exs(e \<mapsto> ex\<lparr>ex_boundQueues := removeAll q (ex_boundQueues ex)\<rparr>)) Q keep"
proof -
  have other: "bound_to n keep = bound_to n bs" if "n \<noteq> e" for n
    using that assms(2) by (auto simp: bound_to_def)
  have minus: "bound_to e keep - {q} = bound_to e bs - {q}"
    using assms(2) by (auto simp: bound_to_def)
  have sub: "set keep \<subseteq> set bs" using assms(2) by auto
  have mem: "list_ex (\<lambda>b. bi_exchange b = e \<and> bi_queue b = q) keep \<longleftrightarrow> q \<in> bound_to e keep"
    by (auto simp: bound_to_def list_ex_iff)
  have up: "bound_to e keep \<subseteq> bound_to e bs" using sub by (auto simp: bound_to_def)
  show "bindings_ok exs Q keep" if "list_ex (\<lambda>b. bi_exchange b = e \<and> bi_queue b = q) keep"
  proof -
    have "bound_to n keep = bound_to n bs" for n
      using other minus up that mem by (cases "n = e") auto
    with assms(1) sub show ?thesis unfolding bindings_ok_def by auto
  qed
  assume "\<not> list_ex (\<lambda>b. bi_exchange b = e \<and> bi_queue b = q) keep" "exs e = Some ex"
  with minus mem have "bound_to e keep = bound_to e bs - {q}" by auto
  with other assms(1) sub \<open>exs e = Some ex\<close>
  show "bindings_ok (exs(e \<mapsto> ex\<lparr>ex_boundQueues := removeAll q (ex_boundQueues ex)\<rparr>)) Q keep"
    unfolding bindings_ok_def by (auto simp: distinct_removeAll)
qed

lemma unbindQueue_inv [sk_inv]:
  assumes "aq_inv s"
  shows "aq_inv (snd (unbindQueue q e r s))"
proof (cases "map_of (aq_exchanges s) e")
  case None
  with assms have "filter (\<lambda>b. \<not> (bi_queue b = q \<and> bi_exchange b = e \<and> bi_routingKey b = r)) (aq_bindings s) = aq_bindings s"
    by (auto simp: aq_inv_def bindings_ok_def intro!: filter_True)
  with assms show ?thesis by (simp add: unbindQueue_def Let_def)
next
  case (Some ex)
  note B = bindings_ok_unbind [OF _ refl, where q = q and e = e and r = r and bs = "aq_bindings s"]
  show ?thesis using assms Some B
    by (auto simp: unbindQueue_def Let_def aq_inv_def aq_keys_ok_def alist_simps)
qed

lemma publish_inv [sk_inv]: "aq_inv s \<Longrightarrow> aq_inv (snd (publish m s))"
  by (auto simp: publish_def routeMessage_def aq_inv_def aq_keys_ok_def split: option.splits)

lemma aq_consume_inv [sk_inv]: "aq_inv s \<Longrightarrow> aq_inv (snd (aq_consume q cb n s))"
  by (auto simp: aq_consume_def aq_inv_def aq_keys_ok_def alist_simps int_max_def split: option.splits
      intro!: consumers_ok_upd)

lemma cancelConsume_inv [sk_inv]: "aq_inv s \<Longrightarrow> aq_inv (snd (cancelConsume q s))"
  by (simp add: cancelConsume_def aq_inv_def aq_keys_ok_def alist_simps consumers_ok_upd)

lemma dec_unacked_inv [sk_inv]: "aq_inv s \<Longrightarrow> aq_inv (dec_unacked q s)"
  by (auto simp: dec_unacked_def aq_inv_def aq_keys_ok_def alist_simps split: option.splits
      intro!: consumers_ok_upd dest: consumers_okD)

lemma ackOne_inv [sk_inv]: "aq_inv s \<Longrightarrow> aq_inv (ackOne t s)"
  by (auto simp: ackOne_def split: option.splits intro!: dec_unacked_inv)
    (simp add: aq_inv_def aq_keys_ok_def alist_simps unacked_ok_upd)

lemma nackOne_inv [sk_inv]:
  assumes "aq_inv s"
  shows "aq_inv (nackOne b t s)"
proof (cases "map_of (aq_unacked s) t")
  case (Some u)
  let ?s1 = "s\<lparr>aq_unacked := AList.delete t (aq_unacked s)\<rparr>"
  have 1: "aq_inv ?s1" using assms by (simp add: aq_inv_def aq_keys_ok_def alist_simps unacked_ok_upd)
  have "aq_inv (?s1\<lparr>aq_nextDeliveryTag := aq_nextDeliveryTag s + 1, aq_queues := AList.update (ua_queue u) xs (aq_queues s)\<rparr>)"
    if "map_of (aq_queues s) (ua_queue u) = Some ys" for xs ys
    using 1 that by (auto simp: aq_inv_def aq_keys_ok_def alist_simps insert_absorb
        elim: unacked_ok_mono bindings_ok_mono consumers_ok_mono)
  with 1 Some show ?thesis
    by (auto simp: nackOne_def Let_def split: option.splits intro!: dec_unacked_inv)
qed (use assms in \<open>simp add: nackOne_def\<close>)

lemma fold_inv: "(\<And>x s. aq_inv s \<Longrightarrow> aq_inv (f x s)) \<Longrightarrow> aq_inv s \<Longrightarrow> aq_inv (fold f xs s)"
  by (induction xs arbitrary: s) auto

lemma ack_nack_inv [sk_inv]:
  "aq_inv s \<Longrightarrow> aq_inv (snd (aq_ack t m s))" "aq_inv s \<Longrightarrow> aq_inv (snd (aq_nack t r m s))"
  "aq_inv s \<Longrightarrow> aq_inv (snd (aq_reject t r s))"
  by (auto simp: aq_ack_def aq_nack_def aq_reject_def intro!: fold_inv sk_inv)

lemma disp_select_inv [sk_inv]: "aq_inv s \<Longrightarrow> aq_inv (disp_select q s)"
  by (auto simp: disp_select_def split: option.splits)

lemma disp_next_cases:
  obtains (idle) "disp_next s = (None, s\<lparr>disp_cur := disp_cur (snd (disp_next s))\<rparr>)"
  | (deliver) q cb pf m rest ci where "disp_cur s = Some (q, cb, pf)" "map_of (aq_queues s) q = Some (m # rest)"
    "map_of (aq_consumers s) q = Some ci" "ci_unackedCount ci < pf"
    "snd (disp_next s) = s\<lparr>aq_queues := AList.update q rest (aq_queues s),
       aq_nextDeliveryTag := aq_nextDeliveryTag s + 1,
       aq_unacked := AList.update (aq_nextDeliveryTag s) \<lparr>ua_deliveryTag = aq_nextDeliveryTag s, ua_queue = q,
          ua_msg = m\<lparr>qm_deliveryTag := aq_nextDeliveryTag s\<rparr>\<rparr> (aq_unacked s),
       aq_consumers := AList.update q (ci\<lparr>ci_unackedCount := ci_unackedCount ci + 1\<rparr>) (aq_consumers s)\<rparr>"
    "fst (disp_next s) = Some (cb, \<lparr>ad_deliveryTag = aq_nextDeliveryTag s, ad_redelivered = False,
       ad_exchange = qm_exchange m, ad_routingKey = qm_routingKey m, ad_queue = q, ad_message = qm_message m\<rparr>)"
proof (cases "disp_cur s")
  case None
  then show ?thesis using idle by (simp add: disp_next_def)
next
  case (Some c)
  obtain q cb pf where c: "c = (q, cb, pf)" by (cases c)
  show ?thesis
  proof (cases "\<exists>m rest ci. map_of (aq_queues s) q = Some (m # rest) \<and> map_of (aq_consumers s) q = Some ci
      \<and> ci_unackedCount ci < pf")
    case True
    then obtain m rest ci where "map_of (aq_queues s) q = Some (m # rest)"
      "map_of (aq_consumers s) q = Some ci" "ci_unackedCount ci < pf" by blast
    with Some c show ?thesis by (intro deliver) (simp_all add: disp_next_def Let_def)
  next
    case False
    with Some c have "disp_next s = (None, s\<lparr>disp_cur := None\<rparr>)"
      by (auto simp: disp_next_def split: option.splits list.splits)
    then show ?thesis using idle by simp
  qed
qed

lemma disp_next_inv [sk_inv]:
  assumes "aq_inv s"
  shows "aq_inv (snd (disp_next s))"
proof (cases rule: disp_next_cases [of s])
  case idle
  then show ?thesis using assms by (metis aq_inv_flags(2) snd_conv)
next
  case (deliver q cb pf m rest ci)
  have q: "insert q (dom (map_of (aq_queues s))) = dom (map_of (aq_queues s))" "q \<in> dom (map_of (aq_queues s))"
    using deliver(2) by auto
  have "0 < ci_prefetchCount ci" "0 \<le> ci_unackedCount ci"
    using assms deliver(3) consumers_okD [of _ "map_of (aq_consumers s)" q ci] by (auto simp: aq_inv_def)
  then show ?thesis using assms q unfolding deliver(5)
    by (auto simp: aq_inv_def aq_keys_ok_def alist_simps intro!: consumers_ok_upd unacked_ok_upd elim: unacked_ok_mono)
qed

text \<open>The transition system: any client call, and the steps of the dispatch thread.\<close>

datatype 'cb aq_op =
    OpConnect | OpDisconnect | OpDeclareExchange string ExchangeType bool bool | OpDeclareQueue string string
  | OpBind string string string | OpUnbind string string string | OpPublish AmqpMessage
  | OpConsume string "'cb option" int | OpCancel string | OpAck int bool | OpNack int bool bool | OpReject int bool
  | OpStart | OpStop | OpSelect string | OpNext

fun aq_exec :: "'cb aq_op \<Rightarrow> 'cb amqp \<Rightarrow> 'cb amqp" where
  "aq_exec OpConnect s = snd (aq_connect s)"
| "aq_exec OpDisconnect s = aq_disconnect s"
| "aq_exec (OpDeclareExchange n ty d a) s = snd (declareExchange n ty d a s)"
| "aq_exec (OpDeclareQueue uuid n) s = snd (declareQueue uuid n s)"
| "aq_exec (OpBind q e r) s = snd (bindQueue q e r s)"
| "aq_exec (OpUnbind q e r) s = snd (unbindQueue q e r s)"
| "aq_exec (OpPublish m) s = snd (publish m s)"
| "aq_exec (OpConsume q cb pf) s = snd (aq_consume q cb pf s)"
| "aq_exec (OpCancel q) s = snd (cancelConsume q s)"
| "aq_exec (OpAck t mu) s = snd (aq_ack t mu s)"
| "aq_exec (OpNack t rq mu) s = snd (aq_nack t rq mu s)"
| "aq_exec (OpReject t rq) s = snd (aq_reject t rq s)"
| "aq_exec OpStart s = startConsuming s"
| "aq_exec OpStop s = stopConsuming s"
| "aq_exec (OpSelect q) s = disp_select q s"
| "aq_exec OpNext s = snd (disp_next s)"

lemma aq_exec_inv [sk_inv]: "aq_inv s \<Longrightarrow> aq_inv (aq_exec op s)"
  by (cases op) (auto simp: aq_connect_def intro: sk_inv)

definition aq_step :: "'cb amqp \<Rightarrow> 'cb amqp \<Rightarrow> bool" where
  "aq_step s t \<longleftrightarrow> (\<exists>op. t = aq_exec op s)"

interpretation broker_life: inductive_invariant "\<lambda>s. s = mk_InMemoryAmqpBackend" aq_step aq_inv
  by unfold_locales (auto simp: aq_inv_init aq_step_def intro: aq_exec_inv)

abbreviation aq_reach :: "'cb amqp \<Rightarrow> bool" where
  "aq_reach \<equiv> reach (\<lambda>s. s = mk_InMemoryAmqpBackend) aq_step"

section \<open>Conservation of messages\<close>

text \<open>The messages the broker still owes: those in queues and those delivered but not settled, by queue.\<close>

definition queued :: "(string \<times> QueuedMessage list) list \<Rightarrow> (string \<times> AmqpMessage) multiset" where
  "queued qs = sum_list (map (\<lambda>(n, ms). mset (map (\<lambda>m. (n, qm_message m)) ms)) qs)"

definition in_flight :: "(int \<times> UnackedMessage) list \<Rightarrow> (string \<times> AmqpMessage) multiset" where
  "in_flight ua = mset (map (\<lambda>(t, u). (ua_queue u, qm_message (ua_msg u))) ua)"

definition owed :: "'cb amqp \<Rightarrow> (string \<times> AmqpMessage) multiset" where
  "owed s = queued (aq_queues s) + in_flight (aq_unacked s)"

lemma queued_simps [simp]:
  "queued [] = {#}" "queued ((n, ms) # qs) = mset (map (\<lambda>m. (n, qm_message m)) ms) + queued qs"
  by (simp_all add: queued_def)

lemma in_flight_simps [simp]:
  "in_flight [] = {#}" "in_flight ((t, u) # ua) = add_mset (ua_queue u, qm_message (ua_msg u)) (in_flight ua)"
  by (simp_all add: in_flight_def)

lemma queued_update:
  assumes "distinct (map fst qs)" "map_of qs q = Some ms"
  shows "queued (AList.update q ms' qs) + mset (map (\<lambda>m. (q, qm_message m)) ms)
    = queued qs + mset (map (\<lambda>m. (q, qm_message m)) ms')"
  using assms
proof (induction qs)
  case (Cons x qs)
  then show ?case by (cases x) (auto split: if_splits simp: ac_simps)
qed simp

lemma in_flight_delete:
  assumes "distinct (map fst ua)" "map_of ua t = Some u"
  shows "in_flight ua = add_mset (ua_queue u, qm_message (ua_msg u)) (in_flight (AList.delete t ua))"
  using assms
proof (induction ua)
  case (Cons x ua)
  have "AList.delete t ua = ua" if "t \<notin> fst ` set ua" using that by (simp add: AList.delete_id)
  with Cons show ?case by (cases x) (auto split: if_splits)
qed simp

lemma in_flight_update_new: "t \<notin> fst ` set ua \<Longrightarrow> in_flight (AList.update t u ua) = add_mset (ua_queue u, qm_message (ua_msg u)) (in_flight ua)"
  by (induction ua) auto

lemma dec_unacked_frame [simp]:
  "aq_queues (dec_unacked q s) = aq_queues s" "aq_unacked (dec_unacked q s) = aq_unacked s"
  "aq_nextDeliveryTag (dec_unacked q s) = aq_nextDeliveryTag s" "disp_cur (dec_unacked q s) = disp_cur s"
  by (simp_all add: dec_unacked_def split: option.splits)

lemma aq_inv_distinct:
  "aq_inv s \<Longrightarrow> distinct (map fst (aq_queues s))" "aq_inv s \<Longrightarrow> distinct (map fst (aq_unacked s))"
  by (simp_all add: aq_inv_def aq_keys_ok_def)

lemma aq_inv_unackedD:
  "aq_inv s \<Longrightarrow> map_of (aq_unacked s) t = Some u \<Longrightarrow>
     t < aq_nextDeliveryTag s \<and> (\<exists>ms. map_of (aq_queues s) (ua_queue u) = Some ms)"
  using unacked_okD [of _ _ "map_of (aq_unacked s)" t u] by (fastforce simp: aq_inv_def)

lemma owed_nackOne:
  assumes "aq_inv s"
  shows "owed (nackOne True t s) = owed s"
proof (cases "map_of (aq_unacked s) t")
  case (Some u)
  with aq_inv_unackedD [OF assms] obtain ms where q: "map_of (aq_queues s) (ua_queue u) = Some ms" by blast
  show ?thesis
    using Some q queued_update [OF aq_inv_distinct(1) [OF assms] q, of "(ua_msg u)\<lparr>qm_deliveryTag := aq_nextDeliveryTag s\<rparr> # ms"]
      in_flight_delete [OF aq_inv_distinct(2) [OF assms] Some]
    by (simp add: owed_def nackOne_def Let_def)
qed (simp add: nackOne_def)

lemma owed_fold_nack: "aq_inv s \<Longrightarrow> owed (fold (nackOne True) ts s) = owed s"
  by (induction ts arbitrary: s) (auto simp: owed_nackOne nackOne_inv)

lemma owed_disp_next:
  assumes "aq_inv s"
  shows "owed (snd (disp_next s)) = owed s"
proof (cases rule: disp_next_cases [of s])
  case idle
  then show ?thesis by (metis owed_def amqp.select_convs(5,8) amqp.update_convs(9) amqp.surjective snd_conv)
next
  case (deliver q cb pf m rest ci)
  have "aq_nextDeliveryTag s \<notin> fst ` set (aq_unacked s)"
    using aq_inv_unackedD [OF assms, of "aq_nextDeliveryTag s"]
    by (cases "map_of (aq_unacked s) (aq_nextDeliveryTag s)") (auto simp: map_of_eq_None_iff)
  then show ?thesis
    using queued_update [OF aq_inv_distinct(1) [OF assms] deliver(2), of rest] unfolding deliver(5)
    by (simp add: owed_def in_flight_update_new)
qed

definition route_targets :: "AmqpMessage \<Rightarrow> 'cb amqp \<Rightarrow> string list" where
  "route_targets m s = (case map_of (aq_exchanges s) (am_exchange m) of
      None \<Rightarrow> [] | Some ex \<Rightarrow> targetQueues (am_exchange m) (am_routingKey m) ex (aq_bindings s))"

lemma queued_enqueue:
  assumes "distinct (map fst qs)" "q \<in> dom (map_of qs)"
  shows "queued (enqueue_to m q qs) = add_mset (q, qm_message m) (queued qs)"
proof -
  obtain ms where q: "map_of qs q = Some ms" using assms(2) by auto
  with queued_update [OF assms(1) q, of "ms @ [m]"] show ?thesis by (simp add: enqueue_to_def)
qed

lemma queued_fold_enqueue:
  "distinct (map fst qs) \<Longrightarrow> set ts \<subseteq> dom (map_of qs) \<Longrightarrow>
     queued (fold (enqueue_to m) ts qs) = queued qs + mset (map (\<lambda>q. (q, qm_message m)) ts)"
  by (induction ts arbitrary: qs) (auto simp: queued_enqueue)

lemma route_targets_exist:
  assumes "aq_inv s"
  shows "set (route_targets m s) \<subseteq> dom (map_of (aq_queues s))"
proof (cases "map_of (aq_exchanges s) (am_exchange m)")
  case (Some ex)
  have "bindings_ok (map_of (aq_exchanges s)) (dom (map_of (aq_queues s))) (aq_bindings s)"
    using assms by (simp add: aq_inv_def)
  with Some show ?thesis
    by (cases "ex_type ex") (auto simp: route_targets_def targetQueues_def bindings_ok_def bound_to_def)
qed (simp add: route_targets_def)

lemma owed_publish:
  assumes "aq_inv s" "aq_connected s"
  shows "owed (snd (publish m s)) = owed s + mset (map (\<lambda>q. (q, m)) (route_targets m s))"
  using queued_fold_enqueue [OF aq_inv_distinct(1) [OF assms(1)] route_targets_exist [OF assms(1), of m],
      of "\<lparr>qm_deliveryTag = 0, qm_message = m, qm_exchange = am_exchange m, qm_routingKey = am_routingKey m\<rparr>"] assms(2)
  by (auto simp: publish_def routeMessage_def route_targets_def owed_def split: option.splits)

lemma owed_ackOne:
  assumes "aq_inv s" "map_of (aq_unacked s) t = Some u"
  shows "owed s = add_mset (ua_queue u, qm_message (ua_msg u)) (owed (ackOne t s))
    \<and> aq_unacked (ackOne t s) = AList.delete t (aq_unacked s)"
  using in_flight_delete [OF aq_inv_distinct(2) [OF assms(1)] assms(2)] assms(2)
  by (simp add: owed_def ackOne_def)

text \<open>Acknowledging a list of outstanding tags settles exactly their messages.\<close>

lemma owed_fold_ack:
  "aq_inv s \<Longrightarrow> distinct ts \<Longrightarrow> set ts \<subseteq> dom (map_of (aq_unacked s)) \<Longrightarrow>
     owed s = owed (fold ackOne ts s) + in_flight (map (\<lambda>t. (t, the (map_of (aq_unacked s) t))) ts)"
proof (induction ts arbitrary: s)
  case (Cons t ts)
  then obtain u where u: "map_of (aq_unacked s) t = Some u" by auto
  note a = owed_ackOne [OF Cons.prems(1) u]
  have I: "owed (ackOne t s) = owed (fold ackOne ts (ackOne t s))
      + in_flight (map (\<lambda>x. (x, the (map_of (aq_unacked (ackOne t s)) x))) ts)"
    using Cons.prems a by (intro Cons.IH) (auto simp: ackOne_inv alist_simps)
  have "map (\<lambda>x. (x, the (map_of (aq_unacked (ackOne t s)) x))) ts = map (\<lambda>x. (x, the (map_of (aq_unacked s) x))) ts"
    using a Cons.prems(2) by (auto simp: alist_simps)
  with a I u show ?case by simp
qed simp

section \<open>Quality of service\<close>

definition n_unacked :: "string \<Rightarrow> (int \<times> UnackedMessage) list \<Rightarrow> int" where
  "n_unacked q ua = int (length (filter (\<lambda>(t, u). ua_queue u = q) ua))"

lemma n_unacked_simps [simp]:
  "n_unacked q [] = 0" "n_unacked q ((t, u) # ua) = (if ua_queue u = q then 1 else 0) + n_unacked q ua"
  by (simp_all add: n_unacked_def)

lemma n_unacked_nonneg [simp]: "0 \<le> n_unacked q ua"
  by (simp add: n_unacked_def)

lemma n_unacked_delete:
  assumes "distinct (map fst ua)" "map_of ua t = Some u"
  shows "n_unacked q ua = n_unacked q (AList.delete t ua) + (if ua_queue u = q then 1 else 0)"
  using assms
proof (induction ua)
  case (Cons x ua)
  have "AList.delete t ua = ua" if "t \<notin> fst ` set ua" using that by (simp add: AList.delete_id)
  with Cons show ?case by (cases x) (auto split: if_splits)
qed simp

lemma n_unacked_update_new:
  "t \<notin> fst ` set ua \<Longrightarrow> n_unacked q (AList.update t u ua) = n_unacked q ua + (if ua_queue u = q then 1 else 0)"
  by (induction ua) auto

text \<open>
  The counter of a consumer is the number of its outstanding deliveries and within its prefetch
  count, which the dispatch thread holds a current copy of.
\<close>

definition qos_one :: "int \<Rightarrow> (string \<times> 'cb \<times> int) option \<Rightarrow> string \<Rightarrow> 'cb ConsumerInfo \<Rightarrow> bool" where
  "qos_one n cur q ci \<longleftrightarrow> ci_unackedCount ci = n \<and> n \<le> ci_prefetchCount ci
     \<and> (\<forall>cb pf. cur = Some (q, cb, pf) \<longrightarrow> pf = ci_prefetchCount ci)"

definition qos :: "(string \<rightharpoonup> 'cb ConsumerInfo) \<Rightarrow> (string \<Rightarrow> int) \<Rightarrow> (string \<times> 'cb \<times> int) option \<Rightarrow> bool" where
  "qos cs nf cur \<longleftrightarrow> (\<forall>q ci. cs q = Some ci \<longrightarrow> qos_one (nf q) cur q ci)"

definition aq_qos :: "'cb amqp \<Rightarrow> bool" where
  "aq_qos s \<longleftrightarrow> qos (map_of (aq_consumers s)) (\<lambda>q. n_unacked q (aq_unacked s)) (disp_cur s)"

lemma qosD: "qos cs nf cur \<Longrightarrow> cs q = Some ci \<Longrightarrow> qos_one (nf q) cur q ci"
  by (simp add: qos_def)

lemma qos_del: "qos cs nf cur \<Longrightarrow> qos (cs(q := None)) nf cur"
  by (simp add: qos_def)

lemma qos_leave: "qos cs nf cur \<Longrightarrow> qos cs nf None"
  by (auto simp: qos_def qos_one_def)

lemma qos_enter: "qos cs nf cur \<Longrightarrow> cs q = Some ci \<Longrightarrow> qos cs nf (Some (q, cb, ci_prefetchCount ci))"
  by (auto simp: qos_def qos_one_def)

lemma qos_put:
  assumes "qos cs nf cur" "\<And>x. x \<noteq> q \<Longrightarrow> nf' x = nf x" "qos_one (nf' q) cur q ci"
  shows "qos (cs(q \<mapsto> ci)) nf' cur"
  using assms unfolding qos_def by auto

lemma qos_other:
  assumes "qos cs nf cur" "\<And>x. x \<noteq> q \<Longrightarrow> nf' x = nf x" "cs q = None"
  shows "qos cs nf' cur"
  using assms unfolding qos_def by (metis option.distinct(1))

text \<open>
  A disciplined client subscribes to a queue only when no delivery of it is outstanding and the
  dispatch thread is not inside it.
\<close>

definition fresh_subscription :: "'cb aq_op \<Rightarrow> 'cb amqp \<Rightarrow> bool" where
  "fresh_subscription op s = (case op of
      OpConsume q cb pf \<Rightarrow> n_unacked q (aq_unacked s) = 0 \<and> (case disp_cur s of Some (q', _) \<Rightarrow> q' \<noteq> q | None \<Rightarrow> True)
    | _ \<Rightarrow> True)"

definition aq_calm_step :: "'cb amqp \<Rightarrow> 'cb amqp \<Rightarrow> bool" where
  "aq_calm_step s t \<longleftrightarrow> (\<exists>op. t = aq_exec op s \<and> fresh_subscription op s)"

lemma qos_same:
  "aq_qos s \<Longrightarrow> aq_consumers t = aq_consumers s \<Longrightarrow> aq_unacked t = aq_unacked s \<Longrightarrow>
    disp_cur t = disp_cur s \<or> disp_cur t = None \<Longrightarrow> aq_qos t"
  by (auto simp: aq_qos_def intro: qos_leave)

lemma qos_settle:
  assumes "aq_inv s" "aq_qos s" "map_of (aq_unacked s) t = Some u"
    and "aq_consumers s' = aq_consumers s" "aq_unacked s' = AList.delete t (aq_unacked s)" "disp_cur s' = disp_cur s"
  shows "aq_qos (dec_unacked (ua_queue u) s')"
proof -
  let ?q = "ua_queue u" and ?nf = "\<lambda>q. n_unacked q (aq_unacked s)"
  note n = n_unacked_delete [OF aq_inv_distinct(2) [OF assms(1)] assms(3)]
  have other: "n_unacked x (AList.delete t (aq_unacked s)) = ?nf x" if "x \<noteq> ?q" for x using n [of x] that by auto
  note Q = assms(2) [unfolded aq_qos_def]
  show ?thesis
  proof (cases "map_of (aq_consumers s) ?q")
    case None
    with qos_other [OF Q other None] assms(4-6) show ?thesis by (simp add: aq_qos_def dec_unacked_def)
  next
    case (Some ci)
    from qosD [OF Q Some] have o: "qos_one (?nf ?q) (disp_cur s) ?q ci" .
    have pos: "0 < ci_unackedCount ci" using o n [of ?q] n_unacked_nonneg [of ?q "AList.delete t (aq_unacked s)"]
      by (simp add: qos_one_def)
    have "qos_one (n_unacked ?q (AList.delete t (aq_unacked s))) (disp_cur s) ?q (ci\<lparr>ci_unackedCount := ci_unackedCount ci - 1\<rparr>)"
      using o n [of ?q] by (auto simp: qos_one_def)
    with qos_put [OF Q other this] Some pos assms(4-6) show ?thesis
      by (simp add: aq_qos_def dec_unacked_def alist_simps)
  qed
qed

lemma qos_ackOne: "aq_inv s \<Longrightarrow> aq_qos s \<Longrightarrow> aq_qos (ackOne t s)"
  by (cases "map_of (aq_unacked s) t") (auto simp: ackOne_def intro!: qos_settle)

lemma qos_nackOne: "aq_inv s \<Longrightarrow> aq_qos s \<Longrightarrow> aq_qos (nackOne b t s)"
  by (cases "map_of (aq_unacked s) t") (auto simp: nackOne_def Let_def split: option.splits intro!: qos_settle)

lemma qos_fold:
  assumes "\<And>x s. aq_inv s \<Longrightarrow> aq_qos s \<Longrightarrow> aq_inv (f x s) \<and> aq_qos (f x s)" "aq_inv s" "aq_qos s"
  shows "aq_qos (fold f xs s)"
  using assms(2,3) by (induction xs arbitrary: s) (auto simp: assms(1))

lemma next_tag_fresh: "aq_inv s \<Longrightarrow> aq_nextDeliveryTag s \<notin> fst ` set (aq_unacked s)"
  using aq_inv_unackedD [of s "aq_nextDeliveryTag s"]
  by (cases "map_of (aq_unacked s) (aq_nextDeliveryTag s)") (auto simp: map_of_eq_None_iff)

lemma qos_disp_next:
  assumes "aq_inv s" "aq_qos s"
  shows "aq_qos (snd (disp_next s))"
proof (cases rule: disp_next_cases [of s])
  case idle
  have cur: "disp_cur (snd (disp_next s)) = disp_cur s \<or> disp_cur (snd (disp_next s)) = None"
    by (simp add: disp_next_def Let_def split: option.splits list.splits)
  from idle have "snd (disp_next s) = s\<lparr>disp_cur := disp_cur (snd (disp_next s))\<rparr>" by (metis snd_conv)
  then have "aq_consumers (snd (disp_next s)) = aq_consumers s" "aq_unacked (snd (disp_next s)) = aq_unacked s"
    by (metis amqp.select_convs(7) amqp.surjective amqp.update_convs(9), metis amqp.select_convs(8) amqp.surjective amqp.update_convs(9))
  with cur assms(2) show ?thesis using qos_same by blast
next
  case (deliver q cb pf m rest ci)
  note Q = assms(2) [unfolded aq_qos_def]
  note o = qosD [OF Q deliver(3)]
  note new = n_unacked_update_new [OF next_tag_fresh [OF assms(1)]]
  have "qos_one (n_unacked q (aq_unacked s) + 1) (disp_cur s) q (ci\<lparr>ci_unackedCount := ci_unackedCount ci + 1\<rparr>)"
    using o deliver(1,4) by (auto simp: qos_one_def)
  then show ?thesis unfolding deliver(5) aq_qos_def
    by (simp add: alist_simps) (rule qos_put [OF Q], simp_all add: new)
qed

lemma qos_exec:
  assumes "aq_inv s" "aq_qos s" "fresh_subscription op s"
  shows "aq_qos (aq_exec op s)"
proof (cases op)
  case (OpConsume q cb pf)
  note Q = assms(2) [unfolded aq_qos_def]
  have "qos_one (n_unacked q (aq_unacked s)) (disp_cur s) q
      \<lparr>ci_callback = c, ci_prefetchCount = (if pf > 0 then pf else int_max), ci_unackedCount = 0\<rparr>" for c
    using assms(3) OpConsume by (auto simp: fresh_subscription_def qos_one_def int_max_def split: option.splits)
  from qos_put [where nf' = "\<lambda>q. n_unacked q (aq_unacked s)" and q = q, OF Q _ this] show ?thesis using OpConsume assms(2)
    by (auto simp: aq_consume_def aq_qos_def alist_simps split: option.splits)
next
  case (OpSelect q)
  with assms(2) show ?thesis by (auto simp: disp_select_def aq_qos_def split: option.splits intro: qos_enter)
next
  case OpDisconnect
  with assms(2) show ?thesis by (auto simp: aq_disconnect_def stopConsuming_def aq_qos_def qos_def)
next
  case (OpCancel q)
  with assms(2) show ?thesis by (simp add: cancelConsume_def aq_qos_def alist_simps qos_del)
next
  case (OpAck t mu)
  with assms show ?thesis by (auto simp: aq_ack_def intro!: qos_fold qos_ackOne ackOne_inv)
next
  case (OpNack t rq mu)
  with assms show ?thesis by (auto simp: aq_nack_def intro!: qos_fold qos_nackOne nackOne_inv)
next
  case (OpReject t rq)
  with assms show ?thesis by (auto simp: aq_reject_def aq_nack_def intro!: qos_nackOne)
next
  case OpNext
  with assms show ?thesis by (simp add: qos_disp_next)
qed (use assms(2) in \<open>auto simp: aq_connect_def declareExchange_def declareQueue_def Let_def bindQueue_def unbindQueue_def
      publish_def routeMessage_def startConsuming_def stopConsuming_def split: option.splits elim!: qos_same\<close>)

lemma aq_qos_init: "aq_qos mk_InMemoryAmqpBackend"
  by (simp add: aq_qos_def qos_def mk_InMemoryAmqpBackend_def)

interpretation calm_broker: inductive_invariant "\<lambda>s. s = mk_InMemoryAmqpBackend" aq_calm_step "\<lambda>s. aq_inv s \<and> aq_qos s"
  by unfold_locales (auto simp: aq_inv_init aq_qos_init aq_calm_step_def intro: aq_exec_inv qos_exec)

section \<open>Properties\<close>

text \<open>Whatever clients call and wherever the dispatch thread is: every unacknowledged delivery
  has an issued tag and an existing queue, every binding joins an existing exchange and an existing
  queue, and the bound queues of an exchange (the targets of a fanout) are exactly the queues some
  binding attaches to it, each once.\<close>

theorem amqp_reachable_consistent:
  assumes "aq_reach s"
  shows "(\<forall>t u. map_of (aq_unacked s) t = Some u \<longrightarrow>
           t < aq_nextDeliveryTag s \<and> ua_deliveryTag u = t \<and> map_of (aq_queues s) (ua_queue u) \<noteq> None)
    \<and> (\<forall>b \<in> set (aq_bindings s). map_of (aq_exchanges s) (bi_exchange b) \<noteq> None \<and> map_of (aq_queues s) (bi_queue b) \<noteq> None)
    \<and> (\<forall>n ex. map_of (aq_exchanges s) n = Some ex \<longrightarrow> distinct (ex_boundQueues ex)
         \<and> set (ex_boundQueues ex) = bi_queue ` {b \<in> set (aq_bindings s). bi_exchange b = n})"
  using broker_life.reach_inv [OF assms] unfolding aq_inv_def unacked_ok_def bindings_ok_def bound_to_def
  by (auto 0 3 simp: dom_def)

definition demo_message :: AmqpMessage where
  "demo_message = \<lparr>am_exchange = ''x'', am_routingKey = ''a.b'', am_body = ''hello'', am_messageId = [], am_correlationId = [],
     am_replyTo = [], am_deliveryMode = 2, am_priority = 0, am_contentType = [], am_contentEncoding = [], am_timestamp = 0\<rparr>"

definition demo_ops :: "nat aq_op list" where
  "demo_ops = [OpConnect, OpDeclareExchange ''x'' Topic True False, OpDeclareQueue ''u'' ''q'', OpBind ''q'' ''x'' ''a.*'',
     OpPublish demo_message, OpPublish demo_message, OpConsume ''q'' (Some 7) 1, OpStart, OpSelect ''q'', OpNext]"

definition demo_state :: "nat amqp" where
  "demo_state = fold aq_exec demo_ops mk_InMemoryAmqpBackend"

lemma reach_fold: "aq_reach s \<Longrightarrow> aq_reach (fold aq_exec ops s)"
proof (induction ops arbitrary: s)
  case (Cons op ops)
  have "aq_reach (aq_exec op s)" by (rule reach_step [OF Cons.prems]) (auto simp: aq_step_def)
  then show ?case using Cons.IH by simp
qed simp

lemma demo_reach: "aq_reach demo_state"
  unfolding demo_state_def by (rule reach_fold) (simp add: reach_init)

theorem amqp_reachable_consistent_witness:
  "\<exists>ex. map_of (aq_exchanges demo_state) ''x'' = Some ex
     \<and> set (ex_boundQueues ex) = bi_queue ` {b \<in> set (aq_bindings demo_state). bi_exchange b = ''x''}"
proof -
  have "map_option ex_type (map_of (aq_exchanges demo_state) ''x'') = Some Topic" by code_simp
  then obtain ex where "map_of (aq_exchanges demo_state) ''x'' = Some ex" by (auto simp: map_option_case split: option.splits)
  moreover from this have "set (ex_boundQueues ex) = bi_queue ` {b \<in> set (aq_bindings demo_state). bi_exchange b = ''x''}"
    using conjunct2 [OF conjunct2 [OF amqp_reachable_consistent [OF demo_reach]]] by simp
  ultimately show ?thesis by simp
qed

text \<open>How many copies of a message the protocol puts into a queue: one per binding of the exchange to the queue whose key is the routing key (direct) or whose pattern matches it (topic), one if there is any
  binding (fanout). The repository announces that header exchanges are not implemented. \<open>hash_last\<close> is the class of patterns that the matcher treats as the protocol does.\<close>

definition amqp_copies :: "AmqpMessage \<Rightarrow> 'cb amqp \<Rightarrow> string \<Rightarrow> nat" where
  "amqp_copies m s q = (case map_of (aq_exchanges s) (am_exchange m) of
      None \<Rightarrow> 0
    | Some ex \<Rightarrow>
        let bs = filter (\<lambda>b. bi_exchange b = am_exchange m \<and> bi_queue b = q) (aq_bindings s)
        in (case ex_type ex of
              Direct \<Rightarrow> length (filter (\<lambda>b. bi_routingKey b = am_routingKey m) bs)
            | Topic \<Rightarrow> length (filter (\<lambda>b. topic_spec (split_dot (bi_routingKey b)) (split_dot (am_routingKey m))) bs)
            | Fanout \<Rightarrow> if bs = [] then 0 else 1
            | Headers \<Rightarrow> 0))"

definition hash_last :: "AmqpMessage \<Rightarrow> 'cb amqp \<Rightarrow> bool" where
  "hash_last m s \<longleftrightarrow> am_routingKey m \<noteq> []
     \<and> list_all (\<lambda>b. bi_exchange b = am_exchange m \<longrightarrow> ''#'' \<notin> set (butlast (split_dot (bi_routingKey b)))) (aq_bindings s)"

lemma count_list_bindings:
  "count_list (map bi_queue (filter (\<lambda>b. bi_exchange b = e \<and> P b) bs)) q = length (filter P (filter (\<lambda>b. bi_exchange b = e \<and> bi_queue b = q) bs))"
  by (induction bs) auto

lemma length_filter_mono: "(\<And>x. x \<in> set xs \<Longrightarrow> P x \<Longrightarrow> Q x) \<Longrightarrow> length (filter P xs) \<le> length (filter Q xs)"
  by (induction xs) auto

lemma count_list_distinct: "distinct xs \<Longrightarrow> count_list xs q = (if q \<in> set xs then 1 else 0)"
  by (induction xs) auto

lemma count_targets:
  assumes "aq_inv s"
  shows "count_list (route_targets m s) q \<le> amqp_copies m s q"
    and "hash_last m s \<Longrightarrow> count_list (route_targets m s) q = amqp_copies m s q"
proof -
  let ?bs = "filter (\<lambda>b. bi_exchange b = am_exchange m \<and> bi_queue b = q) (aq_bindings s)"
  have fan: "count_list (ex_boundQueues ex) q = (if ?bs = [] then 0 else 1)" if "map_of (aq_exchanges s) (am_exchange m) = Some ex" for ex
  proof -
    have d: "distinct (ex_boundQueues ex)" "set (ex_boundQueues ex) = bound_to (am_exchange m) (aq_bindings s)"
      using assms that by (auto simp: aq_inv_def bindings_ok_def)
    then have "q \<in> set (ex_boundQueues ex) \<longleftrightarrow> ?bs \<noteq> []" by (auto simp: bound_to_def filter_empty_conv)
    with count_list_distinct [OF d(1), of q] show ?thesis by simp
  qed
  have "length (filter (\<lambda>b. matchTopicPattern (bi_routingKey b) (am_routingKey m)) ?bs)
      \<le> length (filter (\<lambda>b. topic_spec (split_dot (bi_routingKey b)) (split_dot (am_routingKey m))) ?bs)"
    by (intro length_filter_mono) (simp add: matchTopicPattern_sound)
  with fan show "count_list (route_targets m s) q \<le> amqp_copies m s q"
    by (simp add: route_targets_def amqp_copies_def targetQueues_def count_list_bindings del: filter_filter split: option.split ExchangeType.split)
  have "filter (\<lambda>b. matchTopicPattern (bi_routingKey b) (am_routingKey m)) ?bs
      = filter (\<lambda>b. topic_spec (split_dot (bi_routingKey b)) (split_dot (am_routingKey m))) ?bs" if "hash_last m s"
    using that by (intro filter_cong) (auto simp: hash_last_def list_all_iff matchTopicPattern_complete)
  with fan show "hash_last m s \<Longrightarrow> count_list (route_targets m s) q = amqp_copies m s q"
    by (simp add: route_targets_def amqp_copies_def targetQueues_def count_list_bindings del: filter_filter split: option.split ExchangeType.split)
qed

lemma count_copies: "count (mset (map (\<lambda>q. (q, m)) ts)) (q, x) = (if x = m then count_list ts q else 0)"
  by (induction ts) auto


lemma demo_connected: "aq_connected demo_state"
  by code_simp


text \<open>C12 (bounds). If every subscription to a queue is made while none of its deliveries is outstanding and the
  dispatch thread is outside the queue, the number of unacknowledged deliveries of a queue never
  exceeds the prefetch count of its consumer, however calls and deliveries interleave.\<close>

theorem amqp_prefetch_respected:
  assumes "reach (\<lambda>s. s = mk_InMemoryAmqpBackend) aq_calm_step s" "map_of (aq_consumers s) q = Some ci"
  shows "int (length (filter (\<lambda>(t, u). ua_queue u = q) (aq_unacked s))) \<le> ci_prefetchCount ci"
proof -
  have "qos (map_of (aq_consumers s)) (\<lambda>q. n_unacked q (aq_unacked s)) (disp_cur s)"
    using calm_broker.reach_inv [OF assms(1)] by (simp add: aq_qos_def)
  from qosD [OF this, of q ci] assms(2) show ?thesis by (auto simp: qos_one_def n_unacked_def)
qed

text \<open>Subscribing again resets the count of outstanding deliveries: the next dispatch hands out one
  more message although \<open>n\<close> are still unacknowledged, for any prefetch count, so \<open>n + 1\<close> are outstanding.\<close>

theorem amqp_resubscribe_overcommits:
  assumes "aq_reach s" "aq_connected s" "aq_consuming s" "disp_cur s = None"
    and "map_of (aq_queues s) q = Some (m # rest)" "0 < pf"
  shows "\<exists>d s'. disp_next (disp_select q (snd (aq_consume q (Some cb) pf s))) = (Some (cb, d), s') \<and> ad_queue d = q
    \<and> length (filter (\<lambda>(t, u). ua_queue u = q) (aq_unacked s'))
        = Suc (length (filter (\<lambda>(t, u). ua_queue u = q) (aq_unacked s)))"
proof -
  let ?t = "aq_nextDeliveryTag s"
  have "n_unacked q (AList.update ?t \<lparr>ua_deliveryTag = ?t, ua_queue = q, ua_msg = m\<lparr>qm_deliveryTag := ?t\<rparr>\<rparr> (aq_unacked s))
      = n_unacked q (aq_unacked s) + 1"
    using n_unacked_update_new [OF next_tag_fresh [OF broker_life.reach_inv [OF assms(1)]]] by simp
  then show ?thesis using assms(2-6)
    by (simp add: aq_consume_def disp_select_def disp_next_def Let_def alist_simps n_unacked_def)
qed

text \<open>C13 (equivalence). The topic matcher never accepts a key the AMQP rule rejects, and it agrees with the rule for
  a non-empty key whenever the pattern has its hash, if any, in the last position.\<close>

theorem topic_match_correct:
  "(matchTopicPattern pattern key \<longrightarrow> topic_spec (split_dot pattern) (split_dot key))
   \<and> (key \<noteq> [] \<and> ''#'' \<notin> set (butlast (split_dot pattern)) \<longrightarrow>
        matchTopicPattern pattern key = topic_spec (split_dot pattern) (split_dot key))"
  using matchTopicPattern_sound matchTopicPattern_complete by blast

text \<open>A hash that is not last is mishandled: \<^verbatim>\<open>#.w\<close> does not match \<^verbatim>\<open>x.w\<close> for any other word
  \<^verbatim>\<open>x\<close>, although the AMQP rule says it does.\<close>

theorem topic_leading_hash_rejects:
  assumes "CHR ''.'' \<notin> set x" "CHR ''.'' \<notin> set w" "w \<noteq> ''#''" "w \<noteq> ''*''" "x \<noteq> w" "x \<noteq> ''#''"
  shows "\<not> matchTopicPattern (''#.'' @ w) (x @ ''.'' @ w) \<and> topic_spec (split_dot (''#.'' @ w)) (split_dot (x @ ''.'' @ w))"
proof -
  have k: "split_dot (x @ ''.'' @ w) = [x, w]" "split_dot (''#.'' @ w) = [''#'', w]"
    using assms(1,2) split_dot_append [of "''#''" w] by (simp_all add: split_dot_append split_dot_word)
  then have "''#.'' @ w \<noteq> x @ ''.'' @ w" using assms(6) by (metis list.inject)
  with k assms show ?thesis by (simp add: matchTopicPattern_def)
qed

theorem topic_match_correct_witness:
  "matchTopicPattern ''a.*'' ''a.b'' = topic_spec (split_dot ''a.*'') (split_dot ''a.b'')"
proof -
  have "''#'' \<notin> set (butlast (split_dot ''a.*''))" by simp
  with topic_match_correct [of "''a.*''" "''a.b''"] show ?thesis by simp
qed

theorem topic_leading_hash_rejects_witness:
  "\<not> matchTopicPattern ''#.error'' ''kern.error'' \<and> topic_spec (split_dot ''#.error'') (split_dot ''kern.error'')"
  using topic_leading_hash_rejects [of "''kern''" "''error''"] by simp

lemma calm_fold:
  "reach I aq_calm_step s \<Longrightarrow> (\<And>i. i < length ops \<Longrightarrow> fresh_subscription (ops ! i) (fold aq_exec (take i ops) s)) \<Longrightarrow>
     reach I aq_calm_step (fold aq_exec ops s)"
proof (induction ops arbitrary: s)
  case (Cons op ops)
  have "fresh_subscription op s" using Cons.prems(2) [of 0] by simp
  then have "reach I aq_calm_step (aq_exec op s)"
    by (intro reach_step [OF Cons.prems(1)]) (auto simp: aq_calm_step_def)
  then show ?case using Cons.prems(2) [of "Suc i" for i] by (auto intro!: Cons.IH)
qed simp

lemma demo_calm: "reach (\<lambda>s. s = mk_InMemoryAmqpBackend) aq_calm_step demo_state"
proof -
  have "\<forall>i < length demo_ops. fresh_subscription (demo_ops ! i) (fold aq_exec (take i demo_ops) mk_InMemoryAmqpBackend)"
    by code_simp
  then show ?thesis unfolding demo_state_def by (intro calm_fold reach_init) auto
qed

theorem amqp_prefetch_respected_witness:
  "length (filter (\<lambda>(t, u). ua_queue u = ''q'') (aq_unacked demo_state)) = 1
   \<and> int (length (filter (\<lambda>(t, u). ua_queue u = ''q'') (aq_unacked demo_state))) \<le> 1"
proof -
  have "map_of (aq_consumers demo_state) ''q'' = Some \<lparr>ci_callback = 7, ci_prefetchCount = 1, ci_unackedCount = 1\<rparr>"
    by code_simp
  from amqp_prefetch_respected [OF demo_calm this]
  have "int (length (filter (\<lambda>(t, u). ua_queue u = ''q'') (aq_unacked demo_state))) \<le> 1" by simp
  moreover have "length (filter (\<lambda>(t, u). ua_queue u = ''q'') (aq_unacked demo_state)) = 1" by code_simp
  ultimately show ?thesis by blast
qed

theorem amqp_resubscribe_overcommits_witness:
  "\<exists>d s'. disp_next (disp_select ''q'' (snd (aq_consume ''q'' (Some 8) 1 (snd (disp_next demo_state))))) = (Some (8, d), s')
    \<and> length (filter (\<lambda>(t, u). ua_queue u = ''q'') (aq_unacked s')) = 2"
proof -
  let ?s = "snd (disp_next demo_state)"
  have r: "aq_reach ?s" using reach_fold [OF demo_reach, of "[OpNext]"] by simp
  have "aq_connected ?s" "aq_consuming ?s" "disp_cur ?s = None" by code_simp+
  moreover obtain m rest where "map_of (aq_queues ?s) ''q'' = Some (m # rest)"
  proof -
    have "map_option length (map_of (aq_queues ?s) ''q'') = Some 1" by code_simp
    then show ?thesis using that by (auto simp: length_Suc_conv)
  qed
  moreover have "length (filter (\<lambda>(t, u). ua_queue u = ''q'') (aq_unacked ?s)) = 1" by code_simp
  ultimately show ?thesis using amqp_resubscribe_overcommits [OF r, of "''q''" _ _ 1 8] by fastforce
qed

end
