(* ===== verification/SK_ConnectionPool.thy ===== *)
theory SK_ConnectionPool
  imports SK_Prelude
begin

text \<open>
  The network connection pool of \<^verbatim>\<open>src/soul/network/pool/connection_pool.cpp\<close>.

  \<open>acquire\<close> gives up the mutex twice: while it waits for a release and while it creates a connection.
  It is cut there: \<open>acquire_begin\<close> runs to the first unlock, \<open>acquire_woken\<close> after a wake-up,
  \<open>acquire_finish\<close> after the creation. A connection (a \<^verbatim>\<open>shared_ptr<INetwork>\<close>) is a value of an
  arbitrary type compared by identity; whether it is connected belongs to the network layer and is a
  parameter. \<open>closeAll\<close> and \<open>cleanupIdleConnections\<close> also return the connections they disconnect.
  Times are milliseconds of the steady clock, kept as 64-bit unsigned values.
\<close>

section \<open>State\<close>

record cp_config =
  maxConnections :: int
  minConnections :: int
  idleTimeoutMs :: int
  connectionTimeoutMs :: int

definition default_cp_config :: cp_config where
  "default_cp_config = \<lparr>maxConnections = 10, minConnections = 2, idleTimeoutMs = 30000, connectionTimeoutMs = 5000\<rparr>"

record 'c conn_entry =
  ce_connection :: "'c option"
  ce_inUse :: bool
  ce_lastUsedTime :: int

record 'c conn_pool =
  cp_pools :: "(string \<times> 'c conn_entry list) list"
  cp_config :: cp_config

definition mk_ConnectionPool :: "cp_config \<Rightarrow> 'c conn_pool" where
  "mk_ConnectionPool config = \<lparr>cp_pools = [], cp_config = config\<rparr>"

section \<open>Operations\<close>

definition countTotal :: "'c conn_pool \<Rightarrow> int" where
  "countTotal s = sum_list (map (\<lambda>(k, es). int (length es)) (cp_pools s))"

definition countActive :: "'c conn_pool \<Rightarrow> int" where
  "countActive s = sum_list (map (\<lambda>(k, es). int (length (filter ce_inUse es))) (cp_pools s))"

definition idleCount :: "'c conn_pool \<Rightarrow> int" where
  "idleCount s = (let total = countTotal s; active = countActive s in if total > active then total - active else 0)"

text \<open>\<^verbatim>\<open>m_pools[key]\<close> creates an empty list for a new key.\<close>

definition pool_at :: "string \<Rightarrow> 'c conn_pool \<Rightarrow> 'c conn_pool" where
  "pool_at key s = (if map_of (cp_pools s) key = None then s\<lparr>cp_pools := (key, []) # cp_pools s\<rparr> else s)"

definition set_pool :: "string \<Rightarrow> 'c conn_entry list \<Rightarrow> 'c conn_pool \<Rightarrow> 'c conn_pool" where
  "set_pool key es s = s\<lparr>cp_pools := AList.update key es (cp_pools s)\<rparr>"

text \<open>The search for an idle, connected entry; it marks the first one.\<close>

fun tryAcquire :: "('c \<Rightarrow> bool) \<Rightarrow> int \<Rightarrow> 'c conn_entry list \<Rightarrow> 'c option \<times> 'c conn_entry list" where
  "tryAcquire isConnected now [] = (None, [])"
| "tryAcquire isConnected now (e # es) =
     (case ce_connection e of
        Some c \<Rightarrow>
          if \<not> ce_inUse e \<and> isConnected c then (Some c, e\<lparr>ce_inUse := True, ce_lastUsedTime := now\<rparr> # es)
          else (case tryAcquire isConnected now es of (r, es') \<Rightarrow> (r, e # es'))
      | None \<Rightarrow> (case tryAcquire isConnected now es of (r, es') \<Rightarrow> (r, e # es')))"

datatype 'c acquire_step = Got 'c | MustWait | Creating

definition acquire_begin :: "('c \<Rightarrow> bool) \<Rightarrow> int \<Rightarrow> string \<Rightarrow> 'c conn_pool \<Rightarrow> 'c acquire_step \<times> 'c conn_pool" where
  "acquire_begin isConnected now key s =
     (let s1 = pool_at key s; pool = the (map_of (cp_pools s1) key) in
      case tryAcquire isConnected now pool of
        (Some c, pool') \<Rightarrow> (Got c, set_pool key pool' s1)
      | (None, _) \<Rightarrow>
          if countTotal s1 \<ge> maxConnections (cp_config s1) then (MustWait, s1)
          else (Creating, set_pool key (pool @ [\<lparr>ce_connection = None, ce_inUse = True, ce_lastUsedTime = 0\<rparr>]) s1))"

definition acquire_woken :: "('c \<Rightarrow> bool) \<Rightarrow> int \<Rightarrow> string \<Rightarrow> bool \<Rightarrow> 'c conn_pool \<Rightarrow> 'c option \<times> 'c conn_pool" where
  "acquire_woken isConnected now key timedOut s =
     (if timedOut then (None, s)
      else case map_of (cp_pools s) key of
        None \<Rightarrow> (None, s)
      | Some pool \<Rightarrow> (case tryAcquire isConnected now pool of
            (Some c, pool') \<Rightarrow> (Some c, set_pool key pool' s)
          | (None, _) \<Rightarrow> (None, s)))"

definition is_placeholder :: "'c conn_entry \<Rightarrow> bool" where
  "is_placeholder e \<longleftrightarrow> ce_inUse e \<and> ce_connection e = None"

fun erase_placeholder :: "'c conn_entry list \<Rightarrow> 'c conn_entry list" where
  "erase_placeholder [] = []"
| "erase_placeholder (e # es) = (if is_placeholder e then es else e # erase_placeholder es)"

fun fill_placeholder :: "'c \<Rightarrow> int \<Rightarrow> 'c conn_entry list \<Rightarrow> 'c conn_entry list" where
  "fill_placeholder c now [] = [\<lparr>ce_connection = Some c, ce_inUse = True, ce_lastUsedTime = now\<rparr>]"
| "fill_placeholder c now (e # es) =
     (if is_placeholder e then e\<lparr>ce_connection := Some c, ce_lastUsedTime := now\<rparr> # es
      else e # fill_placeholder c now es)"

text \<open>\<open>network\<close> is what the factory produced: \<open>None\<close> for a null pointer or an exception.\<close>

definition acquire_finish :: "int \<Rightarrow> string \<Rightarrow> 'c option \<Rightarrow> 'c conn_pool \<Rightarrow> 'c option \<times> 'c conn_pool" where
  "acquire_finish now key network s =
     (case map_of (cp_pools s) key of
        None \<Rightarrow> (network, s)
      | Some pool \<Rightarrow>
          (case network of
             None \<Rightarrow> (None, set_pool key (erase_placeholder pool) s)
           | Some c \<Rightarrow> (Some c, set_pool key (fill_placeholder c now pool) s)))"

definition acquireGuarded :: "'c option \<Rightarrow> 'c result" where
  "acquireGuarded conn = (case conn of
      None \<Rightarrow> Err (mk_error EC_ResourceExhausted ''ConnectionPool::acquireGuarded: no connection available within timeout'')
    | Some c \<Rightarrow> Ok c)"

text \<open>\<open>release\<close> frees the first entry of the first pool that holds the connection.\<close>

fun release_in :: "'c \<Rightarrow> int \<Rightarrow> 'c conn_entry list \<Rightarrow> 'c conn_entry list option" where
  "release_in c now [] = None"
| "release_in c now (e # es) =
     (if ce_connection e = Some c then Some (e\<lparr>ce_inUse := False, ce_lastUsedTime := now\<rparr> # es)
      else map_option ((#) e) (release_in c now es))"

fun release_pools :: "'c \<Rightarrow> int \<Rightarrow> (string \<times> 'c conn_entry list) list \<Rightarrow> (string \<times> 'c conn_entry list) list" where
  "release_pools c now [] = []"
| "release_pools c now ((k, es) # ps) =
     (case release_in c now es of Some es' \<Rightarrow> (k, es') # ps | None \<Rightarrow> (k, es) # release_pools c now ps)"

definition cp_release :: "int \<Rightarrow> 'c option \<Rightarrow> 'c conn_pool \<Rightarrow> 'c conn_pool" where
  "cp_release now connection s =
     (case connection of None \<Rightarrow> s | Some c \<Rightarrow> s\<lparr>cp_pools := release_pools c now (cp_pools s)\<rparr>)"

definition connections_of :: "'c conn_entry list \<Rightarrow> 'c list" where
  "connections_of es = List.map_filter ce_connection es"

definition closeAll :: "'c conn_pool \<Rightarrow> 'c list \<times> 'c conn_pool" where
  "closeAll s = (concat (map (connections_of \<circ> snd) (cp_pools s)), s\<lparr>cp_pools := []\<rparr>)"

definition cp_setConfig :: "cp_config \<Rightarrow> 'c conn_pool \<Rightarrow> 'c conn_pool" where
  "cp_setConfig config s = s\<lparr>cp_config := config\<rparr>"

text \<open>Unsigned 64-bit subtraction, and the conversion of the \<^verbatim>\<open>int\<close> timeout.\<close>

definition idle_expired :: "int \<Rightarrow> int \<Rightarrow> 'c conn_entry \<Rightarrow> bool" where
  "idle_expired now timeout e \<longleftrightarrow> \<not> ce_inUse e \<and> (now - ce_lastUsedTime e) mod 2 ^ 64 > timeout mod 2 ^ 64"

definition cleanupIdleConnections :: "int \<Rightarrow> 'c conn_pool \<Rightarrow> 'c list \<times> 'c conn_pool" where
  "cleanupIdleConnections now s =
     (let dead = idle_expired now (idleTimeoutMs (cp_config s))
      in (concat (map (connections_of \<circ> filter dead \<circ> snd) (cp_pools s)),
          s\<lparr>cp_pools := map (\<lambda>(k, es). (k, filter (\<lambda>e. \<not> dead e) es)) (cp_pools s)\<rparr>))"

section \<open>Guards\<close>

text \<open>
  \<^verbatim>\<open>ConnectionGuard\<close>: the connection and whether the weak pointer to the pool is set; \<open>alive\<close> says whether
  the pool still exists when the pointer is locked. Moving returns the new and the emptied guard.
\<close>

record 'c conn_guard =
  g_bound :: bool
  g_conn :: "'c option"

definition guard_drop :: "bool \<Rightarrow> int \<Rightarrow> 'c conn_guard \<Rightarrow> 'c conn_pool \<Rightarrow> 'c conn_pool" where
  "guard_drop alive now g s = (if g_conn g \<noteq> None \<and> g_bound g \<and> alive then cp_release now (g_conn g) s else s)"

definition guard_move :: "'c conn_guard \<Rightarrow> 'c conn_guard \<times> 'c conn_guard" where
  "guard_move g = (g, \<lparr>g_bound = False, g_conn = None\<rparr>)"

definition guard_assign :: "bool \<Rightarrow> int \<Rightarrow> bool \<Rightarrow> 'c conn_guard \<Rightarrow> 'c conn_guard \<Rightarrow> 'c conn_pool
    \<Rightarrow> 'c conn_guard \<times> 'c conn_guard \<times> 'c conn_pool" where
  "guard_assign alive now same this other s =
     (if same then (this, other, s)
      else (other, \<lparr>g_bound = False, g_conn = None\<rparr>, guard_drop alive now this s))"

definition guard_release :: "'c conn_guard \<Rightarrow> 'c option \<times> 'c conn_guard" where
  "guard_release g = (g_conn g, \<lparr>g_bound = False, g_conn = None\<rparr>)"

text \<open>Dropping a moved-from or released guard leaves the pool alone: no connection is returned twice.\<close>

lemma guard_no_double_release:
  "guard_drop alive now (snd (guard_move g)) s = s" "guard_drop alive now (snd (guard_release g)) s = s"
  by (simp_all add: guard_drop_def guard_move_def guard_release_def)

section \<open>Threads\<close>

text \<open>
  The pool with its clients: \<open>creating\<close> holds the keys of the threads between the two locked parts of
  \<open>acquire\<close>, \<open>held\<close> the connections handed out and not yet released. Any connection may be released at any time, also one that
  is not held (a second release) or that the pool does not know; a release ends the hold. With \<open>closing\<close> the pool may be closed and its configuration replaced.
\<close>

record 'c pool_sys =
  sys_pool :: "'c conn_pool"
  sys_creating :: "string list"
  sys_held :: "'c list"

definition all_entries :: "'c conn_pool \<Rightarrow> 'c conn_entry list" where
  "all_entries s = concat (map snd (cp_pools s))"

definition pool_conns :: "'c conn_pool \<Rightarrow> 'c set" where
  "pool_conns s = {c. \<exists>e \<in> set (all_entries s). ce_connection e = Some c}"

inductive sys_step :: "bool \<Rightarrow> 'c pool_sys \<Rightarrow> 'c pool_sys \<Rightarrow> bool" for closing where
  sys_got: "acquire_begin conn now key (sys_pool s) = (Got c, p) \<Longrightarrow>
     sys_step closing s (s\<lparr>sys_pool := p, sys_held := c # sys_held s\<rparr>)"
| sys_wait: "acquire_begin conn now key (sys_pool s) = (MustWait, p) \<Longrightarrow> sys_step closing s (s\<lparr>sys_pool := p\<rparr>)"
| sys_create: "acquire_begin conn now key (sys_pool s) = (Creating, p) \<Longrightarrow>
     sys_step closing s (s\<lparr>sys_pool := p, sys_creating := key # sys_creating s\<rparr>)"
| sys_woken: "acquire_woken conn now key False (sys_pool s) = (Some c, p) \<Longrightarrow>
     sys_step closing s (s\<lparr>sys_pool := p, sys_held := c # sys_held s\<rparr>)"
| sys_failed: "key \<in> set (sys_creating s) \<Longrightarrow> acquire_finish now key None (sys_pool s) = (None, p) \<Longrightarrow>
     sys_step closing s (s\<lparr>sys_pool := p, sys_creating := remove1 key (sys_creating s)\<rparr>)"
| sys_created: "key \<in> set (sys_creating s) \<Longrightarrow> c \<notin> pool_conns (sys_pool s) \<Longrightarrow> c \<notin> set (sys_held s) \<Longrightarrow>
     acquire_finish now key (Some c) (sys_pool s) = (Some c, p) \<Longrightarrow>
     sys_step closing s (s\<lparr>sys_pool := p, sys_creating := remove1 key (sys_creating s), sys_held := c # sys_held s\<rparr>)"
| sys_release: "sys_step closing s (s\<lparr>sys_pool := cp_release now (Some c) (sys_pool s), sys_held := remove1 c (sys_held s)\<rparr>)"
| sys_cleanup: "sys_step closing s (s\<lparr>sys_pool := snd (cleanupIdleConnections now (sys_pool s))\<rparr>)"
| sys_close: "closing \<Longrightarrow> sys_step closing s (s\<lparr>sys_pool := snd (closeAll (sys_pool s))\<rparr>)"
| sys_config: "closing \<Longrightarrow> sys_step closing s (s\<lparr>sys_pool := cp_setConfig config (sys_pool s)\<rparr>)"

definition mk_sys :: "cp_config \<Rightarrow> 'c pool_sys" where
  "mk_sys cfg = \<lparr>sys_pool = mk_ConnectionPool cfg, sys_creating = [], sys_held = []\<rparr>"

section \<open>Lemmas on entries\<close>

lemma connections_of_simps [simp]:
  "connections_of [] = []"
  "connections_of (e # es) = (case ce_connection e of None \<Rightarrow> connections_of es | Some c \<Rightarrow> c # connections_of es)"
  by (simp_all add: connections_of_def List.map_filter_simps split: option.splits)

lemma connections_of_append [simp]: "connections_of (xs @ ys) = connections_of xs @ connections_of ys"
  by (induction xs) (auto split: option.splits)

lemma set_connections_of: "c \<in> set (connections_of es) \<longleftrightarrow> (\<exists>e \<in> set es. ce_connection e = Some c)"
  by (induction es) (auto split: option.splits)

lemma pool_conns_alt: "pool_conns s = set (connections_of (all_entries s))"
  by (auto simp: pool_conns_def set_connections_of)

lemma countTotal_entries: "countTotal s = int (length (all_entries s))"
proof -
  have "sum_list (map (\<lambda>(k, es). int (length es)) ps) = int (length (concat (map snd ps)))"
    for ps :: "(string \<times> 'a conn_entry list) list" by (induction ps) auto
  then show ?thesis by (simp add: countTotal_def all_entries_def)
qed

text \<open>Replacing the list of one key replaces a segment of all entries.\<close>

lemma segment:
  assumes "map_of ps k = Some es"
  shows "\<exists>A B. concat (map snd ps) = A @ es @ B \<and> (\<forall>es'. concat (map snd (AList.update k es' ps)) = A @ es' @ B)"
  using assms
proof (induction ps)
  case (Cons p ps)
  obtain k' x where p: "p = (k', x)" by (cases p)
  show ?case
  proof (cases "k' = k")
    case True
    with Cons.prems p show ?thesis by (intro exI [of _ "[]"] exI [of _ "concat (map snd ps)"]) auto
  next
    case False
    with Cons p obtain A B where "concat (map snd ps) = A @ es @ B"
      "\<forall>es'. concat (map snd (AList.update k es' ps)) = A @ es' @ B" by auto
    with False p show ?thesis by (intro exI [of _ "x @ A"] exI [of _ B]) auto
  qed
qed simp

lemma set_pool_segment:
  assumes "map_of (cp_pools s) k = Some es"
  obtains A B where "all_entries s = A @ es @ B" "\<And>es'. all_entries (set_pool k es' s) = A @ es' @ B"
  using segment [OF assms] by (auto simp: all_entries_def set_pool_def)

lemma pool_at_frame [simp]: "all_entries (pool_at k s) = all_entries s" "cp_config (pool_at k s) = cp_config s"
  by (simp_all add: pool_at_def all_entries_def)

lemma pool_at_found: "\<exists>es. map_of (cp_pools (pool_at k s)) k = Some es"
  by (auto simp: pool_at_def)

lemma tryAcquire_Some:
  "tryAcquire conn now es = (Some c, es') \<Longrightarrow>
     \<exists>X e Y. es = X @ e # Y \<and> ce_connection e = Some c \<and> \<not> ce_inUse e \<and> conn c
       \<and> es' = X @ e\<lparr>ce_inUse := True, ce_lastUsedTime := now\<rparr> # Y"
proof (induction es arbitrary: es')
  case (Cons e es)
  show ?case
  proof (cases "\<exists>d. ce_connection e = Some d \<and> \<not> ce_inUse e \<and> conn d")
    case True
    with Cons.prems show ?thesis by (intro exI [of _ "[]"] exI [of _ e] exI [of _ es]) auto
  next
    case False
    with Cons.prems obtain es'' where "tryAcquire conn now es = (Some c, es'')" "es' = e # es''"
      by (auto split: option.splits prod.splits if_splits)
    with Cons.IH obtain X d Y where "es = X @ d # Y" "ce_connection d = Some c" "\<not> ce_inUse d" "conn c"
      "es'' = X @ d\<lparr>ce_inUse := True, ce_lastUsedTime := now\<rparr> # Y" by blast
    with \<open>es' = e # es''\<close> show ?thesis by (intro exI [of _ "e # X"] exI [of _ d] exI [of _ Y]) simp
  qed
qed simp

lemma fill_cases:
  "(\<exists>X e Y. es = X @ e # Y \<and> is_placeholder e \<and> fill_placeholder c now es = X @ e\<lparr>ce_connection := Some c, ce_lastUsedTime := now\<rparr> # Y)
   \<or> (filter is_placeholder es = [] \<and> fill_placeholder c now es = es @ [\<lparr>ce_connection = Some c, ce_inUse = True, ce_lastUsedTime = now\<rparr>])"
proof (induction es)
  case (Cons e es)
  show ?case
  proof (cases "is_placeholder e")
    case True
    then show ?thesis by (intro disjI1 exI [of _ "[]"] exI [of _ e] exI [of _ es]) simp
  next
    case False
    from Cons.IH show ?thesis
    proof
      assume "\<exists>X e Y. es = X @ e # Y \<and> is_placeholder e \<and> fill_placeholder c now es = X @ e\<lparr>ce_connection := Some c, ce_lastUsedTime := now\<rparr> # Y"
      then obtain X d Y where "es = X @ d # Y" "is_placeholder d"
        "fill_placeholder c now es = X @ d\<lparr>ce_connection := Some c, ce_lastUsedTime := now\<rparr> # Y" by blast
      with False show ?thesis by (intro disjI1 exI [of _ "e # X"] exI [of _ d] exI [of _ Y]) simp
    qed (use False in simp)
  qed
qed simp

lemma erase_cases: "(\<exists>X e Y. es = X @ e # Y \<and> is_placeholder e \<and> erase_placeholder es = X @ Y) \<or> erase_placeholder es = es"
proof (induction es)
  case (Cons e es)
  show ?case
  proof (cases "is_placeholder e")
    case True
    then show ?thesis by (intro disjI1 exI [of _ "[]"] exI [of _ e] exI [of _ es]) simp
  next
    case False
    from Cons.IH show ?thesis
    proof
      assume "\<exists>X e Y. es = X @ e # Y \<and> is_placeholder e \<and> erase_placeholder es = X @ Y"
      then obtain X d Y where "es = X @ d # Y" "is_placeholder d" "erase_placeholder es = X @ Y" by blast
      with False show ?thesis by (intro disjI1 exI [of _ "e # X"] exI [of _ d] exI [of _ Y]) simp
    qed (use False in simp)
  qed
qed simp

lemma release_in_cases:
  "(release_in c now es = None \<and> c \<notin> set (connections_of es))
   \<or> (\<exists>X e Y. es = X @ e # Y \<and> ce_connection e = Some c \<and> c \<notin> set (connections_of X)
        \<and> release_in c now es = Some (X @ e\<lparr>ce_inUse := False, ce_lastUsedTime := now\<rparr> # Y))"
proof (induction es)
  case (Cons e es)
  show ?case
  proof (cases "ce_connection e = Some c")
    case True
    then show ?thesis by (intro disjI2 exI [of _ "[]"] exI [of _ e] exI [of _ es]) simp
  next
    case False
    from Cons.IH show ?thesis
    proof
      assume "\<exists>X e Y. es = X @ e # Y \<and> ce_connection e = Some c \<and> c \<notin> set (connections_of X)
        \<and> release_in c now es = Some (X @ e\<lparr>ce_inUse := False, ce_lastUsedTime := now\<rparr> # Y)"
      then obtain X d Y where "es = X @ d # Y" "ce_connection d = Some c" "c \<notin> set (connections_of X)"
        "release_in c now es = Some (X @ d\<lparr>ce_inUse := False, ce_lastUsedTime := now\<rparr> # Y)" by blast
      with False show ?thesis
        by (intro disjI2 exI [of _ "e # X"] exI [of _ d] exI [of _ Y]) (auto split: option.splits)
    qed (use False in \<open>auto split: option.splits\<close>)
  qed
qed simp

lemma release_pools_cases:
  "(concat (map snd (release_pools c now ps)) = concat (map snd ps) \<and> c \<notin> set (connections_of (concat (map snd ps))))
   \<or> (\<exists>X e Y. concat (map snd ps) = X @ e # Y \<and> ce_connection e = Some c
        \<and> concat (map snd (release_pools c now ps)) = X @ e\<lparr>ce_inUse := False, ce_lastUsedTime := now\<rparr> # Y)"
proof (induction c now ps rule: release_pools.induct)
  case (2 c now k es ps)
  from release_in_cases [of c now es] show ?case
  proof
    assume n: "release_in c now es = None \<and> c \<notin> set (connections_of es)"
    then have "release_in c now es = None" by simp
    from 2 [OF this] show ?thesis
    proof
      assume "\<exists>X e Y. concat (map snd ps) = X @ e # Y \<and> ce_connection e = Some c
        \<and> concat (map snd (release_pools c now ps)) = X @ e\<lparr>ce_inUse := False, ce_lastUsedTime := now\<rparr> # Y"
      then obtain X e Y where "concat (map snd ps) = X @ e # Y" "ce_connection e = Some c"
        "concat (map snd (release_pools c now ps)) = X @ e\<lparr>ce_inUse := False, ce_lastUsedTime := now\<rparr> # Y" by blast
      with n show ?thesis by (intro disjI2 exI [of _ "es @ X"] exI [of _ e] exI [of _ Y]) simp
    qed (use n in simp)
  next
    assume "\<exists>X e Y. es = X @ e # Y \<and> ce_connection e = Some c \<and> c \<notin> set (connections_of X)
        \<and> release_in c now es = Some (X @ e\<lparr>ce_inUse := False, ce_lastUsedTime := now\<rparr> # Y)"
    then obtain X e Y where "es = X @ e # Y" "ce_connection e = Some c"
      "release_in c now es = Some (X @ e\<lparr>ce_inUse := False, ce_lastUsedTime := now\<rparr> # Y)" by blast
    then show ?thesis
      by (intro disjI2 exI [of _ X] exI [of _ e] exI [of _ "Y @ concat (map snd ps)"]) simp
  qed
qed simp

section \<open>Exclusive use\<close>

text \<open>
  No connection has two entries, nothing is held twice, and an entry is marked in use exactly when its
  connection is held.
\<close>

definition excl :: "'c conn_entry list \<Rightarrow> 'c list \<Rightarrow> bool" where
  "excl E held \<longleftrightarrow> distinct (connections_of E) \<and> distinct held
     \<and> (\<forall>e \<in> set E. \<forall>c. ce_connection e = Some c \<longrightarrow> (ce_inUse e \<longleftrightarrow> c \<in> set held))"

lemma excl_take:
  assumes "excl (X @ e # Y) held" "ce_connection e = Some c" "\<not> ce_inUse e"
  shows "c \<notin> set held \<and> excl (X @ e\<lparr>ce_inUse := True, ce_lastUsedTime := now\<rparr> # Y) (c # held)"
proof -
  have "c \<notin> set (connections_of X)" "c \<notin> set (connections_of Y)" using assms(1,2) by (auto simp: excl_def)
  with assms show ?thesis by (auto simp: excl_def set_connections_of)
qed

lemma excl_fill:
  assumes "excl (X @ e # Y) held" "is_placeholder e" "c \<notin> set (connections_of (X @ e # Y))" "c \<notin> set held"
  shows "excl (X @ e\<lparr>ce_connection := Some c, ce_lastUsedTime := now\<rparr> # Y) (c # held)"
  using assms by (auto simp: excl_def is_placeholder_def set_connections_of split: option.splits)

lemma excl_add:
  assumes "excl (X @ Y) held" "c \<notin> set (connections_of (X @ Y))" "c \<notin> set held"
  shows "excl (X @ \<lparr>ce_connection = Some c, ce_inUse = True, ce_lastUsedTime = now\<rparr> # Y) (c # held)"
  using assms by (auto simp: excl_def set_connections_of)

lemma excl_hold_outside: "excl E held \<Longrightarrow> c \<notin> set (connections_of E) \<Longrightarrow> c \<notin> set held \<Longrightarrow> excl E (c # held)"
  by (auto simp: excl_def set_connections_of)

lemma excl_give_back:
  assumes "excl (X @ e # Y) held" "ce_connection e = Some c"
  shows "excl (X @ e\<lparr>ce_inUse := False, ce_lastUsedTime := now\<rparr> # Y) (remove1 c held)"
proof -
  have "c \<notin> set (connections_of X)" "c \<notin> set (connections_of Y)" using assms by (auto simp: excl_def)
  with assms show ?thesis by (auto simp: excl_def set_connections_of set_remove1_eq)
qed

lemma excl_drop_held: "excl E held \<Longrightarrow> c \<notin> set (connections_of E) \<Longrightarrow> excl E (remove1 c held)"
  by (auto simp: excl_def set_connections_of set_remove1_eq)

lemma excl_filter: "excl E held \<Longrightarrow> excl (filter P E) held"
proof -
  have "distinct (connections_of E) \<Longrightarrow> distinct (connections_of (filter P E))" for E :: "'a conn_entry list"
    by (induction E) (auto split: option.splits simp: set_connections_of)
  then show "excl E held \<Longrightarrow> excl (filter P E) held" by (auto simp: excl_def)
qed

lemma excl_placeholder:
  "excl (X @ e # Y) held \<longleftrightarrow> excl (X @ Y) held" if "ce_connection e = None"
  using that by (auto simp: excl_def)

lemma cleanup_concat: "concat (map (snd \<circ> (\<lambda>(k, es). (k, filter P es))) ps) = filter P (concat (map snd ps))"
  by (induction ps) auto

definition sys_excl :: "'c pool_sys \<Rightarrow> bool" where
  "sys_excl s \<longleftrightarrow> excl (all_entries (sys_pool s)) (sys_held s)"

lemma acquire_begin_cases:
  obtains (got) c A X e Y B where "fst (acquire_begin conn now k s) = Got c"
      "all_entries s = A @ (X @ e # Y) @ B" "ce_connection e = Some c" "\<not> ce_inUse e" "conn c"
      "all_entries (snd (acquire_begin conn now k s)) = A @ (X @ e\<lparr>ce_inUse := True, ce_lastUsedTime := now\<rparr> # Y) @ B"
  | (wait) "fst (acquire_begin conn now k s) = MustWait" "all_entries (snd (acquire_begin conn now k s)) = all_entries s"
  | (create) A B where "fst (acquire_begin conn now k s) = Creating" "all_entries s = A @ B" "countTotal s < maxConnections (cp_config s)"
      "all_entries (snd (acquire_begin conn now k s)) = A @ \<lparr>ce_connection = None, ce_inUse = True, ce_lastUsedTime = 0\<rparr> # B"
proof -
  obtain es where es: "map_of (cp_pools (pool_at k s)) k = Some es" using pool_at_found by blast
  obtain A B where "all_entries (pool_at k s) = A @ es @ B"
    and AB2: "\<And>es'. all_entries (set_pool k es' (pool_at k s)) = A @ es' @ B" using set_pool_segment [OF es] by blast
  then have AB: "all_entries s = A @ es @ B" "\<And>es'. all_entries (set_pool k es' (pool_at k s)) = A @ es' @ B" by simp_all
  have tot: "countTotal (pool_at k s) = countTotal s" by (simp add: countTotal_entries)
  obtain r es' where t: "tryAcquire conn now es = (r, es')" by fastforce
  show ?thesis
  proof (cases r)
    case (Some c)
    from tryAcquire_Some [OF t [unfolded Some]]
    obtain X e Y where X: "es = X @ e # Y" "ce_connection e = Some c" "\<not> ce_inUse e" "conn c"
      "es' = X @ e\<lparr>ce_inUse := True, ce_lastUsedTime := now\<rparr> # Y" by blast
    have ab: "acquire_begin conn now k s = (Got c, set_pool k es' (pool_at k s))"
      using t Some es by (simp add: acquire_begin_def Let_def)
    show ?thesis
      by (rule got [of c A X e Y B]) (use ab X(2-4) AB(1) AB(2) [of es'] in \<open>simp_all add: X(1,5)\<close>)
  next
    case None
    show ?thesis
    proof (cases "countTotal s \<ge> maxConnections (cp_config s)")
      case True
      then have "acquire_begin conn now k s = (MustWait, pool_at k s)"
        using t None es tot by (simp add: acquire_begin_def Let_def)
      then show ?thesis by (intro wait) simp_all
    next
      case False
      then have ab: "acquire_begin conn now k s
          = (Creating, set_pool k (es @ [\<lparr>ce_connection = None, ce_inUse = True, ce_lastUsedTime = 0\<rparr>]) (pool_at k s))"
        using t None es tot by (simp add: acquire_begin_def Let_def)
      show ?thesis
        by (rule create [of "A @ es" B])
          (use ab False AB(1) AB(2) [of "es @ [\<lparr>ce_connection = None, ce_inUse = True, ce_lastUsedTime = 0\<rparr>]"] in simp_all)
    qed
  qed
qed

lemma acquire_woken_got:
  assumes "acquire_woken conn now k False s = (Some c, p)"
  obtains A X e Y B where "all_entries s = A @ (X @ e # Y) @ B" "ce_connection e = Some c" "\<not> ce_inUse e" "conn c"
    "all_entries p = A @ (X @ e\<lparr>ce_inUse := True, ce_lastUsedTime := now\<rparr> # Y) @ B"
proof -
  obtain es where es: "map_of (cp_pools s) k = Some es" using assms by (auto simp: acquire_woken_def split: option.splits)
  then obtain A B where AB: "all_entries s = A @ es @ B" "\<And>es'. all_entries (set_pool k es' s) = A @ es' @ B"
    using set_pool_segment by blast
  obtain es' where t: "tryAcquire conn now es = (Some c, es')" "p = set_pool k es' s"
    using assms es by (auto simp: acquire_woken_def split: option.splits prod.splits)
  from tryAcquire_Some [OF t(1)] AB t(2) that show ?thesis by blast
qed

lemma excl_exec:
  assumes "sys_excl s" "sys_step closing s t"
  shows "sys_excl t"
  using assms(2,1)
proof (cases rule: sys_step.cases)
  case (sys_got conn now key c p)
  from acquire_begin_cases [of conn now key "sys_pool s"] show ?thesis
  proof cases
    case (got d A X e Y B)
    with assms(1) sys_got excl_take [of "A @ X" e "Y @ B" "sys_held s" d now] show ?thesis
      by (simp add: sys_excl_def)
  qed (use sys_got in auto)
next
  case (sys_wait conn now key p)
  from acquire_begin_cases [of conn now key "sys_pool s"] show ?thesis
    by cases (use sys_wait assms(1) in \<open>auto simp: sys_excl_def\<close>)
next
  case (sys_create conn now key p)
  from acquire_begin_cases [of conn now key "sys_pool s"] show ?thesis
    by cases (use sys_create assms(1) in \<open>auto simp: sys_excl_def excl_placeholder\<close>)
next
  case (sys_woken conn now key c p)
  from acquire_woken_got [OF sys_woken(2)] obtain A X e Y B where "all_entries (sys_pool s) = A @ (X @ e # Y) @ B"
    "ce_connection e = Some c" "\<not> ce_inUse e" "conn c" "all_entries p = A @ (X @ e\<lparr>ce_inUse := True, ce_lastUsedTime := now\<rparr> # Y) @ B" .
  with assms(1) sys_woken(1) excl_take [of "A @ X" e "Y @ B" "sys_held s" c now] show ?thesis
    by (simp add: sys_excl_def)
next
  case (sys_failed key now p)
  show ?thesis
  proof (cases "map_of (cp_pools (sys_pool s)) key")
    case (Some es)
    then obtain A B where AB: "all_entries (sys_pool s) = A @ es @ B" "\<And>es'. all_entries (set_pool key es' (sys_pool s)) = A @ es' @ B"
      using set_pool_segment by blast
    with erase_cases [of es] assms(1) sys_failed(1,3) Some show ?thesis
      by (auto simp: sys_excl_def acquire_finish_def) (metis append.assoc append_Cons excl_placeholder is_placeholder_def)+
  qed (use sys_failed assms(1) in \<open>auto simp: sys_excl_def acquire_finish_def\<close>)
next
  case (sys_created key c now p)
  have c: "c \<notin> set (connections_of (all_entries (sys_pool s)))" using sys_created(3) by (simp add: pool_conns_alt)
  show ?thesis
  proof (cases "map_of (cp_pools (sys_pool s)) key")
    case (Some es)
    then obtain A B where AB: "all_entries (sys_pool s) = A @ es @ B" "\<And>es'. all_entries (set_pool key es' (sys_pool s)) = A @ es' @ B"
      using set_pool_segment by blast
    have p: "p = set_pool key (fill_placeholder c now es) (sys_pool s)" using sys_created(5) Some by (simp add: acquire_finish_def)
    from fill_cases [of es c now] have "excl (A @ fill_placeholder c now es @ B) (c # sys_held s)"
    proof
      assume "\<exists>X e Y. es = X @ e # Y \<and> is_placeholder e \<and> fill_placeholder c now es = X @ e\<lparr>ce_connection := Some c, ce_lastUsedTime := now\<rparr> # Y"
      then obtain X e Y where "es = X @ e # Y" "is_placeholder e"
        "fill_placeholder c now es = X @ e\<lparr>ce_connection := Some c, ce_lastUsedTime := now\<rparr> # Y" by blast
      with excl_fill [of "A @ X" e "Y @ B" "sys_held s" c now] assms(1) AB c sys_created(4) show ?thesis
        by (simp add: sys_excl_def)
    next
      assume "filter is_placeholder es = [] \<and> fill_placeholder c now es = es @ [\<lparr>ce_connection = Some c, ce_inUse = True, ce_lastUsedTime = now\<rparr>]"
      with excl_add [of "A @ es" B "sys_held s" c now] assms(1) AB c sys_created(4) show ?thesis
        by (simp add: sys_excl_def)
    qed
    with AB p sys_created(1) show ?thesis by (simp add: sys_excl_def)
  next
    case None
    with sys_created assms(1) c excl_hold_outside show ?thesis by (auto simp: sys_excl_def acquire_finish_def)
  qed
next
  case (sys_release c now)
  from release_pools_cases [of c now "cp_pools (sys_pool s)"] assms(1) sys_release show ?thesis
    by (auto simp: sys_excl_def all_entries_def cp_release_def excl_drop_held excl_give_back)
next
  case (sys_cleanup now)
  with assms(1) excl_filter show ?thesis
    by (simp add: sys_excl_def all_entries_def cleanupIdleConnections_def Let_def cleanup_concat)
next
  case sys_close
  with assms(1) show ?thesis by (auto simp: sys_excl_def all_entries_def closeAll_def excl_def)
next
  case sys_config
  with assms(1) show ?thesis by (simp add: sys_excl_def all_entries_def cp_setConfig_def)
qed

section \<open>Capacity\<close>

text \<open>Without \<open>closeAll\<close> every thread that creates a connection still has its placeholder.\<close>

definition ph :: "(string \<times> 'c conn_entry list) list \<Rightarrow> string \<Rightarrow> nat" where
  "ph ps k = (case map_of ps k of None \<Rightarrow> 0 | Some es \<Rightarrow> length (filter is_placeholder es))"

definition sys_cap :: "cp_config \<Rightarrow> 'c pool_sys \<Rightarrow> bool" where
  "sys_cap cfg s \<longleftrightarrow> cp_config (sys_pool s) = cfg \<and> countTotal (sys_pool s) \<le> maxConnections cfg
     \<and> (\<forall>k. count_list (sys_creating s) k \<le> ph (cp_pools (sys_pool s)) k)"

lemma ph_pool_at [simp]: "ph (cp_pools (pool_at k s)) = ph (cp_pools s)"
  by (auto simp: ph_def pool_at_def fun_eq_iff)

lemma ph_set_pool [simp]: "ph (cp_pools (set_pool k es s)) = (ph (cp_pools s))(k := length (filter is_placeholder es))"
  by (auto simp: ph_def set_pool_def fun_eq_iff AList.update_conv')

lemma ph_at: "map_of ps k = Some es \<Longrightarrow> ph ps k = length (filter is_placeholder es)"
  by (simp add: ph_def)

lemma set_pool_config [simp]: "cp_config (set_pool k es s) = cp_config s"
  by (simp add: set_pool_def)

lemma ph_tryAcquire:
  "tryAcquire conn now es = (Some c, es') \<Longrightarrow> length (filter is_placeholder es') = length (filter is_placeholder es)"
  using tryAcquire_Some [of conn now es c es'] by (auto simp: is_placeholder_def)

lemma ph_release_in:
  "release_in c now es = Some es' \<Longrightarrow> length (filter is_placeholder es') = length (filter is_placeholder es)"
  using release_in_cases [of c now es] by (auto simp: is_placeholder_def)

lemma ph_release: "ph (release_pools c now ps) k = ph ps k"
  by (induction c now ps rule: release_pools.induct) (auto simp: ph_def ph_release_in split: option.splits)

lemma filter_placeholder_filter:
  "(\<And>e. is_placeholder e \<Longrightarrow> P e) \<Longrightarrow> filter is_placeholder (filter P es) = filter is_placeholder es"
  by (induction es) auto

lemma ph_cleanup:
  "(\<And>e. is_placeholder e \<Longrightarrow> P e) \<Longrightarrow> ph (map (\<lambda>(k, es). (k, filter P es)) ps) k = ph ps k"
  by (induction ps) (auto simp: ph_def filter_placeholder_filter simp del: filter_filter)

lemma erase_sizes:
  "length (erase_placeholder es) \<le> length es
   \<and> length (filter is_placeholder (erase_placeholder es)) = length (filter is_placeholder es) - 1"
  by (induction es) auto

lemma fill_sizes:
  "filter is_placeholder es \<noteq> [] \<Longrightarrow> length (fill_placeholder c now es) = length es
   \<and> length (filter is_placeholder (fill_placeholder c now es)) = length (filter is_placeholder es) - 1"
  by (induction es) (auto simp: is_placeholder_def)

lemma countTotal_set_pool:
  assumes "map_of (cp_pools s) k = Some es"
  shows "countTotal (set_pool k es' s) = countTotal s + int (length es') - int (length es)"
proof -
  obtain A B where "all_entries s = A @ es @ B" "all_entries (set_pool k es' s) = A @ es' @ B"
    using set_pool_segment [OF assms] by metis
  then show ?thesis by (simp add: countTotal_entries)
qed

lemma cap_acquire_begin:
  assumes "sys_cap cfg s" "acquire_begin conn now key (sys_pool s) = (r, p)"
  shows "cp_config p = cfg \<and> countTotal p \<le> maxConnections cfg
    \<and> (\<forall>k. ph (cp_pools p) k = ph (cp_pools (sys_pool s)) k + (if r = Creating \<and> k = key then 1 else 0))"
proof -
  obtain es where es: "map_of (cp_pools (pool_at key (sys_pool s))) key = Some es" using pool_at_found by blast
  have phk: "ph (cp_pools (sys_pool s)) key = length (filter is_placeholder es)"
    using ph_at [OF es] by simp
  obtain g es' where t: "tryAcquire conn now es = (g, es')" by fastforce
  have cfg: "cp_config p = cfg"
    and ph: "ph (cp_pools p) k = ph (cp_pools (sys_pool s)) k + (if r = Creating \<and> k = key then 1 else 0)" for k
    using assms t es phk ph_tryAcquire [of conn now es] unfolding acquire_begin_def Let_def sys_cap_def
    by (auto split: option.splits if_splits simp: is_placeholder_def)
  have "countTotal p \<le> maxConnections cfg"
    using acquire_begin_cases [of conn now key "sys_pool s"]
    by cases (use assms in \<open>auto simp: sys_cap_def countTotal_entries\<close>)
  with cfg ph show ?thesis by blast
qed

lemma cap_exec:
  assumes "sys_cap cfg s" "sys_step False s t"
  shows "sys_cap cfg t"
  using assms(2,1)
proof (cases rule: sys_step.cases)
  case (sys_got conn now key c p)
  with cap_acquire_begin [OF assms(1) sys_got(2)] assms(1) show ?thesis by (simp add: sys_cap_def)
next
  case (sys_wait conn now key p)
  with cap_acquire_begin [OF assms(1) sys_wait(2)] assms(1) show ?thesis by (simp add: sys_cap_def)
next
  case (sys_create conn now key p)
  with cap_acquire_begin [OF assms(1) sys_create(2)] assms(1) show ?thesis by (simp add: sys_cap_def)
next
  case (sys_woken conn now key c p)
  obtain es es' where es: "map_of (cp_pools (sys_pool s)) key = Some es" "tryAcquire conn now es = (Some c, es')"
    "p = set_pool key es' (sys_pool s)"
    using sys_woken(2) by (auto simp: acquire_woken_def split: option.splits prod.splits)
  have "length es' = length es" using tryAcquire_Some [OF es(2)] by auto
  with es assms(1) sys_woken(1) show ?thesis
    by (auto simp: sys_cap_def countTotal_set_pool [OF es(1)] ph_tryAcquire [OF es(2)] simp flip: ph_at [OF es(1)])
next
  case (sys_failed key now p)
  show ?thesis
  proof (cases "map_of (cp_pools (sys_pool s)) key")
    case (Some es)
    with sys_failed(3) have p: "p = set_pool key (erase_placeholder es) (sys_pool s)" by (simp add: acquire_finish_def)
    have "count_list (sys_creating s) key \<le> length (filter is_placeholder es)"
      using assms(1) ph_at [OF Some] by (metis sys_cap_def)
    with p erase_sizes [of es] assms(1) sys_failed(1) show ?thesis
      by (auto simp: sys_cap_def countTotal_set_pool [OF Some] diff_le_mono)
  next
    case None
    with assms(1) sys_failed(1,3) show ?thesis
      by (auto simp: sys_cap_def acquire_finish_def intro: le_trans [OF diff_le_self])
  qed
next
  case (sys_created key c now p)
  have "0 < count_list (sys_creating s) key" using sys_created(2) by (simp add: count_list_0_iff flip: neq0_conv)
  also have "\<dots> \<le> ph (cp_pools (sys_pool s)) key" using assms(1) by (simp add: sys_cap_def)
  finally obtain es where es: "map_of (cp_pools (sys_pool s)) key = Some es" "filter is_placeholder es \<noteq> []"
    by (auto simp: ph_def split: option.splits)
  with sys_created(5) have p: "p = set_pool key (fill_placeholder c now es) (sys_pool s)" by (simp add: acquire_finish_def)
  have "count_list (sys_creating s) key \<le> length (filter is_placeholder es)"
    using assms(1) ph_at [OF es(1)] by (metis sys_cap_def)
  with p fill_sizes [OF es(2), of c now] assms(1) sys_created(1) show ?thesis
    by (auto simp: sys_cap_def countTotal_set_pool [OF es(1)] diff_le_mono)
next
  case (sys_release c now)
  have "length (all_entries (cp_release now (Some c) (sys_pool s))) = length (all_entries (sys_pool s))"
    using release_pools_cases [of c now "cp_pools (sys_pool s)"] by (auto simp: all_entries_def cp_release_def)
  with sys_release assms(1) show ?thesis
    by (simp add: sys_cap_def countTotal_entries ph_release) (simp add: cp_release_def ph_release)
next
  case (sys_cleanup now)
  let ?P = "\<lambda>e. \<not> idle_expired now (idleTimeoutMs (cp_config (sys_pool s))) e"
  have "length (concat (map snd (map (\<lambda>(k, es). (k, filter P es)) ps))) \<le> length (concat (map snd ps))"
    for P and ps :: "(string \<times> 'a conn_entry list) list"
    by (induction ps) (auto intro: add_mono)
  moreover have "ph (map (\<lambda>(k, es). (k, filter ?P es)) (cp_pools (sys_pool s))) k = ph (cp_pools (sys_pool s)) k" for k
    by (rule ph_cleanup) (simp add: is_placeholder_def idle_expired_def)
  ultimately show ?thesis using sys_cleanup assms(1)
    by (auto simp: sys_cap_def countTotal_entries cleanupIdleConnections_def Let_def all_entries_def
        intro: order_trans [OF of_nat_mono])
qed simp_all

interpretation pool_exclusion: inductive_invariant "\<lambda>s. s = mk_sys cfg" "sys_step closing" sys_excl for cfg closing
proof
  show "sys_excl s" if "s = mk_sys cfg" for s
    using that by (simp add: sys_excl_def excl_def mk_sys_def mk_ConnectionPool_def all_entries_def)
qed (rule excl_exec)

interpretation pool_capacity: inductive_invariant
  "\<lambda>s. s = mk_sys cfg \<and> 0 \<le> maxConnections cfg" "sys_step False" "sys_cap cfg" for cfg
proof
  show "sys_cap cfg s" if "s = mk_sys cfg \<and> 0 \<le> maxConnections cfg" for s
    using that by (simp add: sys_cap_def mk_sys_def mk_ConnectionPool_def countTotal_def)
qed (rule cap_exec)

section \<open>Properties\<close>

text \<open>C14 (safety). Whatever the interleaving of acquisitions, creations, releases, idle clean-ups and
  \<open>closeAll\<close> and changes of the configuration, and whatever is released when: no connection is held twice, and a connection that \<open>acquire\<close> takes from the pool, at once or after a wait, is not in
  anybody's hands, and it was connected when it was taken.\<close>

theorem pool_hands_out_exclusively:
  assumes "reach (\<lambda>s. s = mk_sys cfg) (sys_step closing) s"
  shows "distinct (sys_held s)
    \<and> (\<forall>conn now key c p. acquire_begin conn now key (sys_pool s) = (Got c, p) \<longrightarrow> c \<notin> set (sys_held s) \<and> conn c)
    \<and> (\<forall>conn now key c p. acquire_woken conn now key False (sys_pool s) = (Some c, p) \<longrightarrow> c \<notin> set (sys_held s) \<and> conn c)"
proof -
  have x: "excl (all_entries (sys_pool s)) (sys_held s)"
    using pool_exclusion.reach_inv [OF assms] by (simp add: sys_excl_def)
  have "c \<notin> set (sys_held s) \<and> conn c" if "acquire_begin conn now key (sys_pool s) = (Got c, p)" for conn now key c p
    using acquire_begin_cases [of conn now key "sys_pool s"]
  proof cases
    case (got d A X e Y B)
    with that x excl_take [of "A @ X" e "Y @ B" "sys_held s" d now] show ?thesis by simp
  qed (use that in simp_all)
  moreover have "c \<notin> set (sys_held s) \<and> conn c" if "acquire_woken conn now key False (sys_pool s) = (Some c, p)" for conn now key c p
  proof -
    from acquire_woken_got [OF that] obtain A X e Y B where "all_entries (sys_pool s) = A @ (X @ e # Y) @ B"
      "ce_connection e = Some c" "\<not> ce_inUse e" "conn c" .
    with x excl_take [of "A @ X" e "Y @ B" "sys_held s" c now] show ?thesis by simp
  qed
  ultimately show ?thesis using x unfolding excl_def by blast
qed

text \<open>As long as \<open>closeAll\<close> is not called and the configuration stays, the pool never has more
  than \<open>maxConnections\<close> entries, connections under creation included, however threads interleave.\<close>

theorem pool_capacity_respected:
  assumes "reach (\<lambda>s. s = mk_sys cfg \<and> 0 \<le> maxConnections cfg) (sys_step False) s"
  shows "countTotal (sys_pool s) \<le> maxConnections cfg"
  using pool_capacity.reach_inv [OF assms] by (simp add: sys_cap_def)

text \<open>A \<open>closeAll\<close> during a creation breaks the bound: with room for one connection, thread 1
  creates, the pool is closed, thread 2 creates and finishes, and then thread 1 finds no placeholder and
  adds its connection as a second entry.\<close>

definition one_cfg :: cp_config where
  "one_cfg = default_cp_config\<lparr>maxConnections := 1\<rparr>"

definition race_run :: "nat conn_pool" where
  "race_run =
     (let p1 = snd (acquire_begin (\<lambda>_. True) 0 ''u'' (mk_ConnectionPool one_cfg));
          p2 = snd (closeAll p1);
          p3 = snd (acquire_begin (\<lambda>_. True) 1 ''u'' p2);
          p4 = snd (acquire_finish 2 ''u'' (Some 2) p3)
      in snd (acquire_finish 3 ''u'' (Some 1) p4))"

theorem pool_closeAll_overflows:
  "countTotal race_run = 2 \<and> maxConnections (cp_config race_run) = 1
   \<and> fst (acquire_begin (\<lambda>_. True) 0 ''u'' (mk_ConnectionPool one_cfg) :: nat acquire_step \<times> nat conn_pool) = Creating"
  by code_simp

text \<open>The idle clean-up keeps what is in use and what was used within the timeout.\<close>

lemma cleanup_keeps_recent:
  assumes "e \<in> set (all_entries s)" "ce_inUse e \<or> (0 \<le> now - ce_lastUsedTime e \<and> now - ce_lastUsedTime e \<le> idleTimeoutMs (cp_config s))"
    and "0 \<le> idleTimeoutMs (cp_config s)" "idleTimeoutMs (cp_config s) < 2 ^ 64"
  shows "e \<in> set (all_entries (snd (cleanupIdleConnections now s)))"
proof -
  have "\<not> idle_expired now (idleTimeoutMs (cp_config s)) e"
    using assms(2-4) by (auto simp: idle_expired_def)
  moreover have "all_entries (snd (cleanupIdleConnections now s))
      = filter (\<lambda>e. \<not> idle_expired now (idleTimeoutMs (cp_config s)) e) (all_entries s)"
    by (simp add: all_entries_def cleanupIdleConnections_def Let_def cleanup_concat)
  ultimately show ?thesis using assms(1) by simp
qed

section \<open>Witnesses\<close>

lemma first_create:
  "sys_step closing (mk_sys one_cfg)
     ((mk_sys one_cfg :: nat pool_sys)\<lparr>sys_pool := snd (acquire_begin (\<lambda>_. True) 0 ''u'' (mk_ConnectionPool one_cfg)), sys_creating := [''u'']\<rparr>)"
proof -
  have "fst (acquire_begin (\<lambda>_. True) 0 ''u'' (mk_ConnectionPool one_cfg) :: nat acquire_step \<times> nat conn_pool) = Creating"
    by code_simp
  then have "acquire_begin (\<lambda>_. True) 0 ''u'' (sys_pool (mk_sys one_cfg :: nat pool_sys))
      = (Creating, snd (acquire_begin (\<lambda>_. True) 0 ''u'' (mk_ConnectionPool one_cfg)))"
    by (simp add: mk_sys_def prod_eq_iff)
  from sys_create [OF this] show ?thesis by (simp add: mk_sys_def)
qed

text \<open>Two connections are created for one address, the second one is released; the next caller gets the second one.\<close>

definition created_as :: "nat \<Rightarrow> nat pool_sys \<Rightarrow> nat pool_sys" where
  "created_as c s = (let s1 = s\<lparr>sys_pool := snd (acquire_begin (\<lambda>_. True) 0 ''u'' (sys_pool s)), sys_creating := ''u'' # sys_creating s\<rparr>
     in s1\<lparr>sys_pool := snd (acquire_finish 1 ''u'' (Some c) (sys_pool s1)), sys_creating := remove1 ''u'' (sys_creating s1), sys_held := c # sys_held s1\<rparr>)"

lemma created_as_reach:
  assumes "reach I (sys_step closing) s" "acquire_begin (\<lambda>_. True) 0 ''u'' (sys_pool s) = (Creating, p)"
    and "c \<notin> pool_conns p" "c \<notin> set (sys_held s)"
  shows "reach I (sys_step closing) (created_as c s)"
proof -
  let ?s = "s\<lparr>sys_pool := p, sys_creating := ''u'' # sys_creating s\<rparr>"
  have r: "reach I (sys_step closing) ?s" by (rule reach_step [OF assms(1) sys_create [OF assms(2)]])
  obtain q where q: "acquire_finish 1 ''u'' (Some c) p = (Some c, q)" by (cases "map_of (cp_pools p) ''u''") (simp_all add: acquire_finish_def)
  have t: "sys_step closing ?s (?s\<lparr>sys_pool := q, sys_creating := remove1 ''u'' (sys_creating ?s), sys_held := c # sys_held ?s\<rparr>)"
    by (rule sys_created [where now = 1]) (use assms(3,4) q in simp_all)
  have "created_as c s = ?s\<lparr>sys_pool := q, sys_creating := remove1 ''u'' (sys_creating ?s), sys_held := c # sys_held ?s\<rparr>"
    by (simp add: created_as_def Let_def assms(2) q)
  then show ?thesis using reach_step r t by metis
qed

definition two_held :: "nat pool_sys" where
  "two_held = created_as 2 (created_as 1 (mk_sys default_cp_config))"

definition one_back :: "nat pool_sys" where
  "one_back = two_held\<lparr>sys_pool := cp_release 5 (Some 2) (sys_pool two_held), sys_held := remove1 2 (sys_held two_held)\<rparr>"

lemma one_back_reach: "reach (\<lambda>s. s = mk_sys default_cp_config) (sys_step True) one_back"
proof -
  have f: "fst (acquire_begin (\<lambda>_. True) 0 ''u'' (sys_pool (mk_sys default_cp_config :: nat pool_sys))) = Creating"
    "fst (acquire_begin (\<lambda>_. True) 0 ''u'' (sys_pool (created_as 1 (mk_sys default_cp_config)))) = Creating" by code_simp+
  have "1 \<notin> set (connections_of (all_entries (snd (acquire_begin (\<lambda>_. True) 0 ''u'' (sys_pool (mk_sys default_cp_config :: nat pool_sys))))))"
    "2 \<notin> set (connections_of (all_entries (snd (acquire_begin (\<lambda>_. True) 0 ''u'' (sys_pool (created_as 1 (mk_sys default_cp_config)))))))"
    "1 \<notin> set (sys_held (mk_sys default_cp_config :: nat pool_sys))" "2 \<notin> set (sys_held (created_as 1 (mk_sys default_cp_config)))" by code_simp+
  then have "reach (\<lambda>s. s = mk_sys default_cp_config) (sys_step True) two_held"
    unfolding two_held_def using f
    by (intro created_as_reach [OF created_as_reach [OF reach_init _ _ _] _ _ _] prod_eqI) (simp_all add: pool_conns_alt)
  from reach_step [OF this sys_release [of True two_held 2 5]] show ?thesis by (simp add: one_back_def)
qed

theorem pool_hands_out_exclusively_witness:
  "sys_held one_back = [1]
    \<and> (\<exists>p. acquire_begin (\<lambda>c. c \<ge> 2) 9 ''u'' (sys_pool one_back) = (Got 2, p) \<and> (2::nat) \<notin> set (sys_held one_back))
    \<and> (\<exists>p. acquire_woken (\<lambda>c. c \<ge> 2) 9 ''u'' False (sys_pool one_back) = (Some 2, p) \<and> (2::nat) \<notin> set (sys_held one_back))"
proof -
  have h: "sys_held one_back = [1]" "fst (acquire_begin (\<lambda>c. c \<ge> 2) 9 ''u'' (sys_pool one_back)) = Got 2"
    "fst (acquire_woken (\<lambda>c. c \<ge> 2) 9 ''u'' False (sys_pool one_back)) = Some 2" by code_simp+
  obtain p p' where "acquire_begin (\<lambda>c. c \<ge> 2) 9 ''u'' (sys_pool one_back) = (Got 2, p)"
    "acquire_woken (\<lambda>c. c \<ge> 2) 9 ''u'' False (sys_pool one_back) = (Some 2, p')" using h by (metis prod.collapse)
  with pool_hands_out_exclusively [OF one_back_reach] h(1) show ?thesis by blast
qed

theorem pool_capacity_respected_witness:
  "countTotal (sys_pool ((mk_sys one_cfg :: nat pool_sys)\<lparr>sys_pool := snd (acquire_begin (\<lambda>_. True) 0 ''u'' (mk_ConnectionPool one_cfg)), sys_creating := [''u'']\<rparr>)) \<le> 1"
proof -
  have m: "maxConnections one_cfg = 1" by (simp add: one_cfg_def default_cp_config_def)
  have "reach (\<lambda>s. s = mk_sys one_cfg \<and> 0 \<le> maxConnections one_cfg) (sys_step False)
     ((mk_sys one_cfg :: nat pool_sys)\<lparr>sys_pool := snd (acquire_begin (\<lambda>_. True) 0 ''u'' (mk_ConnectionPool one_cfg)), sys_creating := [''u'']\<rparr>)"
    by (rule reach_step [where s = "mk_sys one_cfg"], rule reach_init, simp add: m, rule first_create)
  from pool_capacity_respected [OF this] show ?thesis unfolding m .
qed

end
