(* ===== verification/SK_Text.thy ===== *)
theory SK_Text
  imports SK_Prelude "HOL-Library.Sublist"
begin

text \<open>
  Text the components share: decimal numbers as \<^verbatim>\<open>QString::arg\<close> and \<^verbatim>\<open>std::to_string\<close> print them, reading them back, splitting and joining.
\<close>

section \<open>Decimal numbers and joining\<close>

definition digit_char :: "nat \<Rightarrow> char" where
  "digit_char n = char_of (48 + n)"

fun dec_nat :: "nat \<Rightarrow> string" where
  "dec_nat n = (if n < 10 then [digit_char n] else dec_nat (n div 10) @ [digit_char (n mod 10)])"

declare dec_nat.simps [simp del]

definition dec_int :: "int \<Rightarrow> string" where
  "dec_int i = (if i < 0 then ''-'' @ dec_nat (nat (- i)) else dec_nat (nat i))"

fun join :: "string \<Rightarrow> string list \<Rightarrow> string" where
  "join sep [] = []"
| "join sep [x] = x"
| "join sep (x # y # xs) = x @ sep @ join sep (y # xs)"

section \<open>Decimal printing\<close>

fun read_nat :: "nat \<Rightarrow> string \<Rightarrow> nat" where
  "read_nat acc [] = acc"
| "read_nat acc (c # cs) = read_nat (10 * acc + (of_char c - 48)) cs"

lemma read_nat_append: "read_nat acc (xs @ ys) = read_nat (read_nat acc xs) ys"
  by (induction xs arbitrary: acc) auto

lemma digit_of_char: "n < 10 \<Longrightarrow> (of_char (digit_char n) :: nat) = 48 + n"
  by (simp add: digit_char_def)

lemma read_dec_nat: "read_nat 0 (dec_nat n) = n"
proof (induction n rule: dec_nat.induct)
  case (1 n)
  then show ?case
    by (subst dec_nat.simps) (auto simp: read_nat_append digit_of_char)
qed

lemma dec_nat_chars: "c \<in> set (dec_nat n) \<Longrightarrow> 48 \<le> (of_char c :: nat) \<and> (of_char c :: nat) < 58"
proof (induction n rule: dec_nat.induct)
  case (1 n)
  show ?case
  proof (cases "n < 10")
    case True
    with 1(2) show ?thesis by (subst (asm) dec_nat.simps) (simp add: digit_of_char)
  next
    case False
    from 1(2) have "c \<in> set (dec_nat (n div 10)) \<or> c = digit_char (n mod 10)"
      by (subst (asm) dec_nat.simps) (auto simp: False)
    with 1(1) [OF False] show ?thesis using digit_of_char [of "n mod 10"] by auto
  qed
qed

section \<open>Characters and splitting\<close>

definition is_digit :: "char \<Rightarrow> bool" where
  "is_digit c \<longleftrightarrow> 48 \<le> (of_char c :: nat) \<and> (of_char c :: nat) < 58"

definition is_blank :: "char \<Rightarrow> bool" where
  "is_blank c \<longleftrightarrow> of_char c \<in> {32, 9, 10, 11, 12, 13 :: nat}"

definition lower_char :: "char \<Rightarrow> char" where
  "lower_char c = (if 65 \<le> (of_char c :: nat) \<and> (of_char c :: nat) \<le> 90 then char_of ((of_char c :: nat) + 32) else c)"

definition trimmed :: "string \<Rightarrow> string" where
  "trimmed s = rev (dropWhile is_blank (rev (dropWhile is_blank s)))"

text \<open>The text before and after the first occurrence of a character.\<close>

fun split_at :: "char \<Rightarrow> string \<Rightarrow> (string \<times> string) option" where
  "split_at d [] = None"
| "split_at d (c # cs) = (if c = d then Some ([], cs) else map_option (apfst ((#) c)) (split_at d cs))"

text \<open>\<^verbatim>\<open>split\<close> of Qt, for texts and for bytes: it keeps empty parts.\<close>

fun split_all :: "'a \<Rightarrow> 'a list \<Rightarrow> 'a list list" where
  "split_all d [] = [[]]"
| "split_all d (c # cs) =
     (if c = d then [] # split_all d cs else case split_all d cs of [] \<Rightarrow> [[c]] | p # ps \<Rightarrow> (c # p) # ps)"

lemma dec_nat_nonempty: "dec_nat n \<noteq> []"
  by (subst dec_nat.simps) simp

lemma dec_nat_digits: "c \<in> set (dec_nat n) \<Longrightarrow> is_digit c"
  using dec_nat_chars by (simp add: is_digit_def)

lemma not_digit: "c \<in> {CHR ''-'', CHR ''/'', CHR '','', CHR ''*'', CHR ''+''} \<Longrightarrow> \<not> is_digit c"
  by (auto simp: is_digit_def)

lemma dec_nat_avoids: "d \<in> {CHR ''-'', CHR ''/'', CHR '','', CHR ''*'', CHR ''+''} \<Longrightarrow> d \<notin> set (dec_nat n)"
  using dec_nat_digits not_digit by blast

lemma digit_not_blank: "is_digit c \<Longrightarrow> \<not> is_blank c"
  by (auto simp: is_digit_def is_blank_def)

lemma split_at_none: "d \<notin> set s \<Longrightarrow> split_at d s = None"
  by (induction s) auto

lemma split_at_some: "d \<notin> set a \<Longrightarrow> split_at d (a @ d # b) = Some (a, b)"
  by (induction a) auto

lemma split_all_whole: "d \<notin> set s \<Longrightarrow> split_all d s = [s]"
  by (induction s) auto

lemma split_all_append: "d \<notin> set s \<Longrightarrow> split_all d (s @ d # t) = s # split_all d t"
  by (induction s) auto

lemma split_all_avoids: "p \<in> set (split_all d s) \<Longrightarrow> d \<notin> set p"
  by (induction s arbitrary: p) (auto split: if_splits list.splits)

section \<open>Searching\<close>

text \<open>\<^verbatim>\<open>find\<close> of \<^verbatim>\<open>std::string\<close>, asked only whether there is an occurrence.\<close>

definition str_contains :: "'a list \<Rightarrow> 'a list \<Rightarrow> bool" where
  "str_contains pat s = list_ex (\<lambda>i. prefix pat (drop i s)) [0..<Suc (length s)]"

lemma str_contains_iff: "str_contains pat s \<longleftrightarrow> sublist pat s"
proof
  assume "str_contains pat s"
  then obtain i where "prefix pat (drop i s)" by (auto simp: str_contains_def list_ex_iff)
  then show "sublist pat s" by (metis append_take_drop_id prefix_def sublist_def)
next
  assume "sublist pat s"
  then obtain a b where s: "s = a @ pat @ b" by (auto simp: sublist_def)
  then have "prefix pat (drop (length a) s)" "length a < Suc (length s)" by simp_all
  then show "str_contains pat s" by (auto simp: str_contains_def list_ex_iff simp del: upt_Suc)
qed

lemma str_contains_char: "str_contains [c] s \<longleftrightarrow> c \<in> set s"
  by (auto simp: str_contains_iff sublist_def in_set_conv_decomp)

end
