(* ===== verification/SK_SqlDialect.thy ===== *)
theory SK_SqlDialect
  imports SK_Text
begin

text \<open>
  The SQL dialects of \<^verbatim>\<open>src/soul/orm/sql_dialect.cpp\<close>: the interface \<^verbatim>\<open>ISqlDialect\<close> as a record of its
  virtual functions, the three implementations, and the factory. \<^verbatim>\<open>QString::arg\<close> with an integer prints
  it in decimal (\<open>dec_int\<close>). The locale \<open>literal_quoting\<close> states what a client of \<open>escapeString\<close> needs: the
  quoted text read back by the rules of the database is the text, and reading stops at its end.
\<close>

section \<open>Replacement\<close>

definition replace_char :: "char \<Rightarrow> string \<Rightarrow> string \<Rightarrow> string" where
  "replace_char c by s = concat (map (\<lambda>x. if x = c then by else [x]) s)"

section \<open>The interface\<close>

datatype SqlDialectType = SQLite | MySQL | PostgreSQL | MSSQL | Oracle

record SoftDeleteConfig =
  sd_enabled :: bool
  sd_columnName :: string
  sd_logicNotDeletedValue :: string
  sd_logicDeletedValue :: string

definition default_soft_delete :: SoftDeleteConfig where
  "default_soft_delete = \<lparr>sd_enabled = True, sd_columnName = ''deleted'', sd_logicNotDeletedValue = ''0'', sd_logicDeletedValue = ''1''\<rparr>"

record sql_dialect =
  getDriverName :: string
  getType :: SqlDialectType
  buildLimitOffset :: "int \<Rightarrow> int \<Rightarrow> string"
  getAutoIncrementKeyword :: string
  getPrimaryKeyKeyword :: string
  escapeIdentifier :: "string \<Rightarrow> string"
  escapeString :: "string \<Rightarrow> string"
  castToDateTime :: "string \<Rightarrow> string"
  castToString :: "string \<Rightarrow> string"
  castToInt :: "string \<Rightarrow> string"
  castToFloat :: "string \<Rightarrow> string"
  getCurrentTimestampFunction :: string
  getNowFunction :: string
  getConcatFunction :: "string list \<Rightarrow> string"
  getLikeEscapeClause :: string
  getCreateTableSuffix :: string
  getDropTableIfExists :: "string \<Rightarrow> string"
  convertPlaceholder :: "int \<Rightarrow> string"
  softDeleteConfig :: SoftDeleteConfig

definition setSoftDeleteConfig :: "SoftDeleteConfig \<Rightarrow> sql_dialect \<Rightarrow> sql_dialect" where
  "setSoftDeleteConfig config d = d\<lparr>softDeleteConfig := config\<rparr>"

section \<open>The implementations\<close>

definition limit_offset_std :: "int \<Rightarrow> int \<Rightarrow> string" where
  "limit_offset_std limit offset =
     (if limit > 0 \<and> offset > 0 then ''LIMIT '' @ dec_int limit @ '' OFFSET '' @ dec_int offset
      else if limit > 0 then ''LIMIT '' @ dec_int limit
      else if offset > 0 then ''OFFSET '' @ dec_int offset
      else [])"

definition limit_offset_mysql :: "int \<Rightarrow> int \<Rightarrow> string" where
  "limit_offset_mysql limit offset =
     (if limit > 0 \<and> offset > 0 then ''LIMIT '' @ dec_int offset @ '', '' @ dec_int limit
      else if limit > 0 then ''LIMIT '' @ dec_int limit
      else [])"

abbreviation bslash :: char where "bslash \<equiv> CHR 0x5C"

definition escape_std :: "string \<Rightarrow> string" where
  "escape_std s = squote @ replace_char (CHR 0x27) (squote @ squote) s @ squote"

definition escape_mysql :: "string \<Rightarrow> string" where
  "escape_mysql s = squote @ replace_char bslash [bslash, bslash] (replace_char (CHR 0x27) (squote @ squote) s) @ squote"

definition concat_pipes :: "string list \<Rightarrow> string" where
  "concat_pipes args = (if args = [] then squote @ squote else join '' || '' args)"

definition SQLiteDialect :: sql_dialect where
  "SQLiteDialect = \<lparr>getDriverName = ''QSQLITE'', getType = SQLite, buildLimitOffset = limit_offset_std,
     getAutoIncrementKeyword = ''AUTOINCREMENT'', getPrimaryKeyKeyword = ''PRIMARY KEY'',
     escapeIdentifier = (\<lambda>i. [CHR 0x22] @ i @ [CHR 0x22]), escapeString = escape_std,
     castToDateTime = id, castToString = id, castToInt = id, castToFloat = id,
     getCurrentTimestampFunction = ''CURRENT_TIMESTAMP'', getNowFunction = ''datetime('' @ squote @ ''now'' @ squote @ '')'',
     getConcatFunction = concat_pipes, getLikeEscapeClause = ''ESCAPE '' @ squote @ [bslash] @ squote,
     getCreateTableSuffix = [], getDropTableIfExists = (\<lambda>t. ''DROP TABLE IF EXISTS '' @ t),
     convertPlaceholder = (\<lambda>_. ''?''), softDeleteConfig = default_soft_delete\<rparr>"

definition MySqlDialect :: sql_dialect where
  "MySqlDialect = \<lparr>getDriverName = ''QMYSQL'', getType = MySQL, buildLimitOffset = limit_offset_mysql,
     getAutoIncrementKeyword = ''AUTO_INCREMENT'', getPrimaryKeyKeyword = ''PRIMARY KEY'',
     escapeIdentifier = (\<lambda>i. [CHR 0x60] @ i @ [CHR 0x60]), escapeString = escape_mysql,
     castToDateTime = (\<lambda>v. ''CAST('' @ v @ '' AS DATETIME)''), castToString = (\<lambda>v. ''CAST('' @ v @ '' AS CHAR)''),
     castToInt = (\<lambda>v. ''CAST('' @ v @ '' AS SIGNED)''), castToFloat = (\<lambda>v. ''CAST('' @ v @ '' AS DECIMAL(20,6))''),
     getCurrentTimestampFunction = ''CURRENT_TIMESTAMP'', getNowFunction = ''NOW()'',
     getConcatFunction = (\<lambda>args. ''CONCAT('' @ join '', '' args @ '')''), getLikeEscapeClause = [],
     getCreateTableSuffix = ''ENGINE=InnoDB DEFAULT CHARSET=utf8mb4'', getDropTableIfExists = (\<lambda>t. ''DROP TABLE IF EXISTS '' @ t),
     convertPlaceholder = (\<lambda>_. ''?''), softDeleteConfig = default_soft_delete\<rparr>"

definition PostgreSqlDialect :: sql_dialect where
  "PostgreSqlDialect = \<lparr>getDriverName = ''QPSQL'', getType = PostgreSQL, buildLimitOffset = limit_offset_std,
     getAutoIncrementKeyword = ''SERIAL'', getPrimaryKeyKeyword = ''PRIMARY KEY'',
     escapeIdentifier = (\<lambda>i. [CHR 0x22] @ i @ [CHR 0x22]), escapeString = escape_std,
     castToDateTime = (\<lambda>v. v @ ''::timestamp''), castToString = (\<lambda>v. v @ ''::text''),
     castToInt = (\<lambda>v. v @ ''::integer''), castToFloat = (\<lambda>v. v @ ''::double precision''),
     getCurrentTimestampFunction = ''CURRENT_TIMESTAMP'', getNowFunction = ''NOW()'',
     getConcatFunction = concat_pipes, getLikeEscapeClause = [],
     getCreateTableSuffix = [], getDropTableIfExists = (\<lambda>t. ''DROP TABLE IF EXISTS '' @ t),
     convertPlaceholder = (\<lambda>i. ''$'' @ dec_int i), softDeleteConfig = default_soft_delete\<rparr>"

text \<open>The factory throws \<^verbatim>\<open>std::invalid_argument\<close> for the types without an implementation.\<close>

definition dialect_create :: "SqlDialectType \<Rightarrow> sql_dialect option" where
  "dialect_create type = (case type of
      SQLite \<Rightarrow> Some SQLiteDialect | MySQL \<Rightarrow> Some MySqlDialect | PostgreSQL \<Rightarrow> Some PostgreSqlDialect | _ \<Rightarrow> None)"

section \<open>Reading a string literal back\<close>

text \<open>
  The standard rule after the opening quote: two quotes stand for one, a single one ends the literal.
  MySQL also gives the backslash its meaning.
\<close>

fun read_std :: "string \<Rightarrow> (string \<times> string) option" where
  "read_std [] = None"
| "read_std (c # cs) =
     (if c \<noteq> CHR 0x27 then map_option (apfst ((#) c)) (read_std cs)
      else case cs of
        [] \<Rightarrow> Some ([], [])
      | d # ds \<Rightarrow> if d = CHR 0x27 then map_option (apfst ((#) d)) (read_std ds) else Some ([], cs))"

definition mysql_unescape :: "char \<Rightarrow> char" where
  "mysql_unescape c = (if c = CHR ''0'' then CHR 0x00 else if c = CHR ''b'' then CHR 0x08 else if c = CHR ''n'' then CHR 0x0A
     else if c = CHR ''r'' then CHR 0x0D else if c = CHR ''t'' then CHR 0x09 else if c = CHR ''Z'' then CHR 0x1A else c)"

fun read_mysql :: "string \<Rightarrow> (string \<times> string) option" where
  "read_mysql [] = None"
| "read_mysql (c # cs) =
     (if c = bslash then (case cs of [] \<Rightarrow> None | d # ds \<Rightarrow> map_option (apfst ((#) (mysql_unescape d))) (read_mysql ds))
      else if c \<noteq> CHR 0x27 then map_option (apfst ((#) c)) (read_mysql cs)
      else case cs of
        [] \<Rightarrow> Some ([], [])
      | d # ds \<Rightarrow> if d = CHR 0x27 then map_option (apfst ((#) d)) (read_mysql ds) else Some ([], cs))"

definition read_literal :: "SqlDialectType \<Rightarrow> string \<Rightarrow> (string \<times> string) option" where
  "read_literal type s = (case s of
      [] \<Rightarrow> None
    | c # cs \<Rightarrow> if c \<noteq> CHR 0x27 then None else if type = MySQL then read_mysql cs else read_std cs)"

locale literal_quoting =
  fixes escape :: "string \<Rightarrow> string"
    and read :: "string \<Rightarrow> (string \<times> string) option"
  assumes read_escape: "rest = [] \<or> hd rest \<noteq> CHR 0x27 \<Longrightarrow> read (escape s @ rest) = Some (s, rest)"
begin

lemma escape_inject: "escape s = escape t \<longleftrightarrow> s = t"
proof
  assume "escape s = escape t"
  then have "Some (s, []) = Some (t, ([] :: string))"
    using read_escape [of "[]" s] read_escape [of "[]" t] by simp
  then show "s = t" by simp
qed simp

end

lemma replace_char_simps [simp]:
  "replace_char c by [] = []" "replace_char c by (x # xs) = (if x = c then by else [x]) @ replace_char c by xs"
  by (simp_all add: replace_char_def)

lemma replace_char_append [simp]: "replace_char c by (xs @ ys) = replace_char c by xs @ replace_char c by ys"
  by (simp add: replace_char_def)

lemma read_std_body:
  "rest = [] \<or> hd rest \<noteq> CHR 0x27 \<Longrightarrow> read_std (replace_char (CHR 0x27) (squote @ squote) s @ squote @ rest) = Some (s, rest)"
  by (induction s) (auto split: list.splits)

lemma read_mysql_body:
  "rest = [] \<or> hd rest \<noteq> CHR 0x27 \<Longrightarrow>
     read_mysql (replace_char bslash [bslash, bslash] (replace_char (CHR 0x27) (squote @ squote) s) @ squote @ rest) = Some (s, rest)"
  by (induction s) (auto split: list.splits simp: mysql_unescape_def)

interpretation sqlite_quoting: literal_quoting "escapeString SQLiteDialect" "read_literal SQLite"
  by unfold_locales (use read_std_body in \<open>simp add: SQLiteDialect_def escape_std_def read_literal_def\<close>)

interpretation mysql_quoting: literal_quoting "escapeString MySqlDialect" "read_literal MySQL"
  by unfold_locales (use read_mysql_body in \<open>simp add: MySqlDialect_def escape_mysql_def read_literal_def\<close>)

interpretation postgres_quoting: literal_quoting "escapeString PostgreSqlDialect" "read_literal PostgreSQL"
  by unfold_locales (use read_std_body in \<open>simp add: PostgreSqlDialect_def escape_std_def read_literal_def\<close>)

text \<open>For every dialect the factory makes: a string quoted by \<open>escapeString\<close> and placed in front of any
  text that does not start with a quote is read back by the database as exactly that string, and the
  rest of the text is untouched, whatever quotes and backslashes the string contains.\<close>

theorem sql_literal_roundtrip:
  assumes "dialect_create type = Some d" "rest = [] \<or> hd rest \<noteq> CHR 0x27"
  shows "read_literal type (escapeString d s @ rest) = Some (s, rest)"
  using assms(1) sqlite_quoting.read_escape [OF assms(2)] mysql_quoting.read_escape [OF assms(2)]
    postgres_quoting.read_escape [OF assms(2)]
  by (cases type) (auto simp: dialect_create_def)

theorem sql_literal_roundtrip_witness:
  "read_literal MySQL (escapeString MySqlDialect ([bslash] @ squote @ ''; DROP'') @ '' OR 1'') = Some ([bslash] @ squote @ ''; DROP'', '' OR 1'')"
  using sql_literal_roundtrip [of MySQL MySqlDialect "'' OR 1''" "[bslash] @ squote @ ''; DROP''"]
  by (simp add: dialect_create_def)

end
