(* ===== verification/SK_QueryWrapper.thy ===== *)
theory SK_QueryWrapper
  imports SK_SqlDialect
begin

text \<open>
  The SQL builder of \<^verbatim>\<open>src/soul/orm/query_wrapper.cpp\<close>: conditions, grouping by nested builders, the four
  statements and their bind values. Statements are the strings the code concatenates. A nested builder
  (\<^verbatim>\<open>std::function<void(QueryWrapper&)>\<close>) is a function on wrappers. A thrown \<^verbatim>\<open>runtime_error\<close> is \<open>None\<close>.
\<close>

section \<open>Data\<close>

datatype SqlKeyword = KW_EQ | KW_NE | KW_GT | KW_GE | KW_LT | KW_LE | KW_LIKE | KW_NOT_LIKE | KW_LIKE_LEFT | KW_LIKE_RIGHT
  | KW_IN | KW_NOT_IN | KW_IS_NULL | KW_IS_NOT_NULL | KW_AND | KW_OR

datatype qvariant = QInvalid | QText string | QNumber int | QBool bool

record condition =
  cd_column :: string
  cd_op :: SqlKeyword
  cd_value :: qvariant
  cd_logic :: SqlKeyword
  cd_inValues :: "qvariant list"
  cd_openParens :: nat
  cd_closeParens :: nat

definition mk_Condition :: "string \<Rightarrow> SqlKeyword \<Rightarrow> qvariant \<Rightarrow> condition" where
  "mk_Condition col opr val = \<lparr>cd_column = col, cd_op = opr, cd_value = val, cd_logic = KW_AND, cd_inValues = [],
     cd_openParens = 0, cd_closeParens = 0\<rparr>"

record query_wrapper =
  qw_conditions :: "condition list"
  qw_orderBy :: "string list"
  qw_groupBy :: "string list"
  qw_limit :: int
  qw_offset :: int
  qw_allowFullTable :: bool
  qw_dialect :: "sql_dialect option"

definition mk_QueryWrapper :: query_wrapper where
  "mk_QueryWrapper = \<lparr>qw_conditions = [], qw_orderBy = [], qw_groupBy = [], qw_limit = -1, qw_offset = -1,
     qw_allowFullTable = False, qw_dialect = None\<rparr>"

section \<open>Builder calls\<close>

definition push_condition :: "condition \<Rightarrow> query_wrapper \<Rightarrow> query_wrapper" where
  "push_condition c qw = qw\<lparr>qw_conditions := qw_conditions qw @ [c]\<rparr>"

definition qw_eq :: "string \<Rightarrow> qvariant \<Rightarrow> query_wrapper \<Rightarrow> query_wrapper" where
  "qw_eq column v = push_condition (mk_Condition column KW_EQ v)"

definition qw_ne :: "string \<Rightarrow> qvariant \<Rightarrow> query_wrapper \<Rightarrow> query_wrapper" where
  "qw_ne column v = push_condition (mk_Condition column KW_NE v)"

definition qw_gt :: "string \<Rightarrow> qvariant \<Rightarrow> query_wrapper \<Rightarrow> query_wrapper" where
  "qw_gt column v = push_condition (mk_Condition column KW_GT v)"

definition qw_ge :: "string \<Rightarrow> qvariant \<Rightarrow> query_wrapper \<Rightarrow> query_wrapper" where
  "qw_ge column v = push_condition (mk_Condition column KW_GE v)"

definition qw_lt :: "string \<Rightarrow> qvariant \<Rightarrow> query_wrapper \<Rightarrow> query_wrapper" where
  "qw_lt column v = push_condition (mk_Condition column KW_LT v)"

definition qw_le :: "string \<Rightarrow> qvariant \<Rightarrow> query_wrapper \<Rightarrow> query_wrapper" where
  "qw_le column v = push_condition (mk_Condition column KW_LE v)"

definition qw_like :: "string \<Rightarrow> string \<Rightarrow> query_wrapper \<Rightarrow> query_wrapper" where
  "qw_like column v = push_condition (mk_Condition column KW_LIKE (QText (''%'' @ v @ ''%'')))"

definition qw_notLike :: "string \<Rightarrow> string \<Rightarrow> query_wrapper \<Rightarrow> query_wrapper" where
  "qw_notLike column v = push_condition (mk_Condition column KW_NOT_LIKE (QText (''%'' @ v @ ''%'')))"

definition qw_likeLeft :: "string \<Rightarrow> string \<Rightarrow> query_wrapper \<Rightarrow> query_wrapper" where
  "qw_likeLeft column v = push_condition (mk_Condition column KW_LIKE (QText (''%'' @ v)))"

definition qw_likeRight :: "string \<Rightarrow> string \<Rightarrow> query_wrapper \<Rightarrow> query_wrapper" where
  "qw_likeRight column v = push_condition (mk_Condition column KW_LIKE (QText (v @ ''%'')))"

definition in_condition :: "SqlKeyword \<Rightarrow> string \<Rightarrow> qvariant list \<Rightarrow> condition" where
  "in_condition opr column values = (mk_Condition column opr (case values of [] \<Rightarrow> QInvalid | v # _ \<Rightarrow> v))\<lparr>cd_inValues := values\<rparr>"

definition qw_in :: "string \<Rightarrow> qvariant list \<Rightarrow> query_wrapper \<Rightarrow> query_wrapper" where
  "qw_in column values = push_condition (in_condition KW_IN column values)"

definition qw_notIn :: "string \<Rightarrow> qvariant list \<Rightarrow> query_wrapper \<Rightarrow> query_wrapper" where
  "qw_notIn column values = push_condition (in_condition KW_NOT_IN column values)"

definition qw_isNull :: "string \<Rightarrow> query_wrapper \<Rightarrow> query_wrapper" where
  "qw_isNull column = push_condition (mk_Condition column KW_IS_NULL QInvalid)"

definition qw_isNotNull :: "string \<Rightarrow> query_wrapper \<Rightarrow> query_wrapper" where
  "qw_isNotNull column = push_condition (mk_Condition column KW_IS_NOT_NULL QInvalid)"

text \<open>Both nested builders wrap the conditions of the inner wrapper in one pair of parentheses.\<close>

definition wrap_parens :: "condition list \<Rightarrow> condition list" where
  "wrap_parens cs =
     (if length cs > 1
      then let cs1 = cs[0 := (cs ! 0)\<lparr>cd_openParens := cd_openParens (cs ! 0) + 1\<rparr>]; n = length cs - 1
           in cs1[n := (cs1 ! n)\<lparr>cd_closeParens := cd_closeParens (cs1 ! n) + 1\<rparr>]
      else cs)"

definition qw_and :: "(query_wrapper \<Rightarrow> query_wrapper) \<Rightarrow> query_wrapper \<Rightarrow> query_wrapper" where
  "qw_and func qw =
     (let sub = qw_conditions (func mk_QueryWrapper) in
      if sub = [] then qw
      else qw\<lparr>qw_conditions := qw_conditions qw @ map (\<lambda>c. c\<lparr>cd_logic := KW_AND\<rparr>) (wrap_parens sub)\<rparr>)"

definition qw_or :: "(query_wrapper \<Rightarrow> query_wrapper) \<Rightarrow> query_wrapper \<Rightarrow> query_wrapper" where
  "qw_or func qw =
     (let sub = qw_conditions (func mk_QueryWrapper) in
      if sub = [] then qw
      else let sub1 = wrap_parens sub
           in qw\<lparr>qw_conditions := qw_conditions qw @ sub1[0 := (sub1 ! 0)\<lparr>cd_logic := KW_OR\<rparr>]\<rparr>)"

definition qw_addOrderBy :: "string \<Rightarrow> bool \<Rightarrow> query_wrapper \<Rightarrow> query_wrapper" where
  "qw_addOrderBy column asc qw = qw\<lparr>qw_orderBy := qw_orderBy qw @ [column @ (if asc then '' ASC'' else '' DESC'')]\<rparr>"

definition qw_addGroupBy :: "string \<Rightarrow> query_wrapper \<Rightarrow> query_wrapper" where
  "qw_addGroupBy column qw = qw\<lparr>qw_groupBy := qw_groupBy qw @ [column]\<rparr>"

definition qw_setLimit :: "int \<Rightarrow> query_wrapper \<Rightarrow> query_wrapper" where
  "qw_setLimit n qw = qw\<lparr>qw_limit := n\<rparr>"

definition qw_setOffset :: "int \<Rightarrow> query_wrapper \<Rightarrow> query_wrapper" where
  "qw_setOffset n qw = qw\<lparr>qw_offset := n\<rparr>"

definition allowFullTableOperation :: "bool \<Rightarrow> query_wrapper \<Rightarrow> query_wrapper" where
  "allowFullTableOperation allow qw = qw\<lparr>qw_allowFullTable := allow\<rparr>"

definition qw_setDialect :: "sql_dialect option \<Rightarrow> query_wrapper \<Rightarrow> query_wrapper" where
  "qw_setDialect d qw = qw\<lparr>qw_dialect := d\<rparr>"

section \<open>Statements\<close>

definition placeholder :: "query_wrapper \<Rightarrow> int \<Rightarrow> string" where
  "placeholder qw i = (case qw_dialect qw of Some d \<Rightarrow> convertPlaceholder d i | None \<Rightarrow> ''?'')"

fun opToString :: "SqlKeyword \<Rightarrow> string" where
  "opToString KW_EQ = ''=''"
| "opToString KW_NE = ''<>''"
| "opToString KW_GT = ''>''"
| "opToString KW_GE = ''>=''"
| "opToString KW_LT = ''<''"
| "opToString KW_LE = ''<=''"
| "opToString KW_LIKE = ''LIKE''"
| "opToString KW_NOT_LIKE = ''NOT LIKE''"
| "opToString KW_IN = ''IN''"
| "opToString KW_NOT_IN = ''NOT IN''"
| "opToString KW_IS_NULL = ''IS NULL''"
| "opToString KW_IS_NOT_NULL = ''IS NOT NULL''"
| "opToString _ = ''=''"

text \<open>Case-insensitive substring search, for ASCII search texts such as \<open>WHERE\<close>.\<close>

fun contains_ci :: "string \<Rightarrow> string \<Rightarrow> bool" where
  "contains_ci [] sub = (sub = [])"
| "contains_ci (c # cs) sub =
     (map lower_char (take (length sub) (c # cs)) = map lower_char sub \<or> contains_ci cs sub)"

definition is_in_op :: "SqlKeyword \<Rightarrow> bool" where
  "is_in_op opr \<longleftrightarrow> opr = KW_IN \<or> opr = KW_NOT_IN"

definition is_null_op :: "SqlKeyword \<Rightarrow> bool" where
  "is_null_op opr \<longleftrightarrow> opr = KW_IS_NULL \<or> opr = KW_IS_NOT_NULL"

fun placeholders_from :: "query_wrapper \<Rightarrow> int \<Rightarrow> nat \<Rightarrow> string list" where
  "placeholders_from qw i 0 = []"
| "placeholders_from qw i (Suc n) = placeholder qw i # placeholders_from qw (i + 1) n"

text \<open>The clause and the next placeholder index.\<close>

definition buildValueClause :: "query_wrapper \<Rightarrow> condition \<Rightarrow> int \<Rightarrow> string \<times> int" where
  "buildValueClause qw c i =
     (if is_null_op (cd_op c) then ([], i)
      else if is_in_op (cd_op c) then
        let count = (if cd_inValues c = [] then 1 else length (cd_inValues c))
        in (''('' @ join '','' (placeholders_from qw i count) @ '')'', i + int count)
      else (placeholder qw i, i + 1))"

definition conditionStr :: "condition \<Rightarrow> string \<Rightarrow> string" where
  "conditionStr c valueClause =
     (if valueClause = [] then cd_column c @ '' '' @ opToString (cd_op c)
      else cd_column c @ '' '' @ opToString (cd_op c) @ '' '' @ valueClause)"

fun append_loop :: "query_wrapper \<Rightarrow> bool \<Rightarrow> int \<Rightarrow> condition list \<Rightarrow> string" where
  "append_loop qw first i [] = []"
| "append_loop qw first i (c # cs) =
     (case buildValueClause qw c i of (clause, j) \<Rightarrow>
        (if first then [] else if cd_logic c = KW_OR then '' OR '' else '' AND '')
        @ replicate (cd_openParens c) (CHR ''('') @ conditionStr c clause @ replicate (cd_closeParens c) (CHR '')'')
        @ append_loop qw False j cs)"

definition appendConditions :: "query_wrapper \<Rightarrow> string \<Rightarrow> int \<Rightarrow> string" where
  "appendConditions qw sql startIndex =
     (if qw_conditions qw = [] then sql
      else let hasOr = list_ex (\<lambda>c. cd_logic c = KW_OR) (qw_conditions qw);
               hasWhere = contains_ci sql ''WHERE'';
               lead = (if hasOr then (if hasWhere then '' AND ('' else '' WHERE ('')
                       else (if hasWhere then '' AND '' else '' WHERE ''))
           in sql @ lead @ append_loop qw True startIndex (qw_conditions qw) @ (if hasOr then '')'' else []))"

definition sd_config :: "query_wrapper \<Rightarrow> SoftDeleteConfig" where
  "sd_config qw = (case qw_dialect qw of Some d \<Rightarrow> softDeleteConfig d | None \<Rightarrow> default_soft_delete)"

definition sd_where :: "query_wrapper \<Rightarrow> string" where
  "sd_where qw = (let sd = sd_config qw in
     if sd_enabled sd then '' WHERE '' @ sd_columnName sd @ '' = '' @ sd_logicNotDeletedValue sd else [])"

definition qw_limitOffset :: "query_wrapper \<Rightarrow> string" where
  "qw_limitOffset qw =
     (if qw_limit qw > 0 \<or> qw_offset qw > 0 then
        '' '' @ (case qw_dialect qw of
           Some d \<Rightarrow> buildLimitOffset d (qw_limit qw) (qw_offset qw)
         | None \<Rightarrow>
             if qw_limit qw > 0 \<and> qw_offset qw > 0
             then ''LIMIT '' @ dec_int (qw_limit qw) @ '' OFFSET '' @ dec_int (qw_offset qw)
             else if qw_limit qw > 0 then ''LIMIT '' @ dec_int (qw_limit qw)
             else ''OFFSET '' @ dec_int (qw_offset qw))
      else [])"

definition buildSelectSql :: "query_wrapper \<Rightarrow> string \<Rightarrow> string" where
  "buildSelectSql qw tableName =
     appendConditions qw (''SELECT * FROM '' @ tableName @ sd_where qw) 1
     @ (if qw_groupBy qw \<noteq> [] then '' GROUP BY '' @ join '', '' (qw_groupBy qw) else [])
     @ (if qw_orderBy qw \<noteq> [] then '' ORDER BY '' @ join '', '' (qw_orderBy qw) else [])
     @ qw_limitOffset qw"

definition buildCountSql :: "query_wrapper \<Rightarrow> string \<Rightarrow> string" where
  "buildCountSql qw tableName = appendConditions qw (''SELECT COUNT(*) FROM '' @ tableName @ sd_where qw) 1"

definition delete_head :: "query_wrapper \<Rightarrow> string \<Rightarrow> string" where
  "delete_head qw tableName = (let sd = sd_config qw in
     if sd_enabled sd
     then ''UPDATE '' @ tableName @ '' SET '' @ sd_columnName sd @ '' = '' @ sd_logicDeletedValue sd
          @ '' WHERE '' @ sd_columnName sd @ '' = '' @ sd_logicNotDeletedValue sd
     else ''DELETE FROM '' @ tableName)"

definition full_table_guard :: "query_wrapper \<Rightarrow> string \<Rightarrow> string option" where
  "full_table_guard qw sql = (if \<not> contains_ci sql ''WHERE'' \<and> \<not> qw_allowFullTable qw then None else Some sql)"

definition buildDeleteSql :: "query_wrapper \<Rightarrow> string \<Rightarrow> string option" where
  "buildDeleteSql qw tableName = full_table_guard qw (appendConditions qw (delete_head qw tableName) 1)"

text \<open>\<open>updates\<close> is the \<^verbatim>\<open>std::map\<close> of column values in key order.\<close>

fun set_parts :: "query_wrapper \<Rightarrow> int \<Rightarrow> (string \<times> qvariant) list \<Rightarrow> string list" where
  "set_parts qw i [] = []"
| "set_parts qw i ((col, v) # us) = (col @ '' = '' @ placeholder qw i) # set_parts qw (i + 1) us"

definition buildUpdateSql :: "query_wrapper \<Rightarrow> string \<Rightarrow> (string \<times> qvariant) list \<Rightarrow> string option" where
  "buildUpdateSql qw tableName updates =
     (let n = int (length updates);
          sql = ''UPDATE '' @ tableName @ '' SET '' @ join '', '' (set_parts qw 1 updates)
                @ '', update_time = '' @ placeholder qw (n + 1) @ sd_where qw
      in full_table_guard qw (appendConditions qw sql (n + 2)))"

definition cond_values :: "condition \<Rightarrow> qvariant list" where
  "cond_values c =
     (if is_null_op (cd_op c) then []
      else if is_in_op (cd_op c) then (if cd_inValues c \<noteq> [] then cd_inValues c else [cd_value c])
      else [cd_value c])"

definition getBindValues :: "query_wrapper \<Rightarrow> qvariant list" where
  "getBindValues qw = concat (map cond_values (qw_conditions qw))"

definition getUpdateBindValues :: "string \<Rightarrow> query_wrapper \<Rightarrow> (string \<times> qvariant) list \<Rightarrow> qvariant list" where
  "getUpdateBindValues nowIso qw updates = map snd updates @ [QText nowIso] @ getBindValues qw"

section \<open>Placeholders and bind values\<close>

text \<open>The dialects the factory makes, with any soft-delete configuration, or none.\<close>

definition standard_dialect :: "query_wrapper \<Rightarrow> bool" where
  "standard_dialect qw \<longleftrightarrow> qw_dialect qw = None
     \<or> (\<exists>sd. qw_dialect qw \<in> {Some (setSoftDeleteConfig sd SQLiteDialect), Some (setSoftDeleteConfig sd MySqlDialect),
                               Some (setSoftDeleteConfig sd PostgreSqlDialect)})"

definition question_marks :: "query_wrapper \<Rightarrow> bool" where
  "question_marks qw \<longleftrightarrow> standard_dialect qw \<and> (\<forall>d. qw_dialect qw = Some d \<longrightarrow> getType d \<noteq> PostgreSQL)"

text \<open>A character occurs in none of the names the caller supplies.\<close>

definition names_avoid :: "char \<Rightarrow> query_wrapper \<Rightarrow> string \<Rightarrow> bool" where
  "names_avoid x qw tableName \<longleftrightarrow> x \<notin> set tableName
     \<and> list_all (\<lambda>c. x \<notin> set (cd_column c)) (qw_conditions qw)
     \<and> list_all (\<lambda>s. x \<notin> set s) (qw_groupBy qw) \<and> list_all (\<lambda>s. x \<notin> set s) (qw_orderBy qw)
     \<and> x \<notin> set (sd_columnName (sd_config qw)) \<and> x \<notin> set (sd_logicNotDeletedValue (sd_config qw))
     \<and> x \<notin> set (sd_logicDeletedValue (sd_config qw))"

abbreviation qmarks :: "string \<Rightarrow> nat" where
  "qmarks s \<equiv> count_list s (CHR ''?'')"

lemma count_list_absent: "x \<notin> set s \<Longrightarrow> count_list s x = 0"
  by (simp add: count_list_0_iff)

lemma dec_int_avoid: "(of_char x :: nat) < 45 \<or> (of_char x :: nat) > 57 \<Longrightarrow> x \<notin> set (dec_int i)"
  using dec_nat_chars [of x] by (auto simp: dec_int_def)

lemma qmark_placeholder: "question_marks qw \<Longrightarrow> placeholder qw i = ''?''"
  by (auto simp: question_marks_def standard_dialect_def placeholder_def setSoftDeleteConfig_def
      SQLiteDialect_def MySqlDialect_def PostgreSqlDialect_def split: option.splits)

lemma limitOffset_avoid:
  assumes "standard_dialect qw" "x \<in> {CHR ''?'', CHR ''('', CHR '')''}"
  shows "x \<notin> set (qw_limitOffset qw)"
proof -
  have d: "x \<notin> set (dec_int i)" for i using assms(2) by (intro dec_int_avoid) auto
  show ?thesis using assms d
    by (auto simp: qw_limitOffset_def standard_dialect_def setSoftDeleteConfig_def SQLiteDialect_def MySqlDialect_def
        PostgreSqlDialect_def limit_offset_std_def limit_offset_mysql_def)
qed

lemma join_avoid: "x \<notin> set sep \<Longrightarrow> list_all (\<lambda>s. x \<notin> set s) ss \<Longrightarrow> x \<notin> set (join sep ss)"
  by (induction sep ss rule: join.induct) auto

lemma opToString_avoid: "x \<in> {CHR ''?'', CHR ''('', CHR '')''} \<Longrightarrow> x \<notin> set (opToString opr)"
  by (cases opr) auto

lemma qmarks_join: "CHR ''?'' \<notin> set sep \<Longrightarrow> qmarks (join sep ss) = sum_list (map qmarks ss)"
  by (induction sep ss rule: join.induct) (auto simp: count_list_absent)

lemma qmarks_placeholders: "question_marks qw \<Longrightarrow> sum_list (map qmarks (placeholders_from qw i n)) = n"
  by (induction qw i n rule: placeholders_from.induct) (auto simp: qmark_placeholder)

lemma qmarks_valueClause: "question_marks qw \<Longrightarrow> qmarks (fst (buildValueClause qw c i)) = length (cond_values c)"
  by (auto simp: buildValueClause_def cond_values_def Let_def qmarks_join qmarks_placeholders qmark_placeholder)

lemma qmarks_conditionStr: "CHR ''?'' \<notin> set (cd_column c) \<Longrightarrow> qmarks (conditionStr c v) = qmarks v"
  using opToString_avoid [of "CHR ''?''" "cd_op c"] by (auto simp: conditionStr_def count_list_absent)

lemma qmarks_replicate: "x \<noteq> CHR ''?'' \<Longrightarrow> qmarks (replicate n x) = 0"
  by (induction n) auto

lemma qmarks_append_loop:
  assumes "question_marks qw" "list_all (\<lambda>c. CHR ''?'' \<notin> set (cd_column c)) cs"
  shows "qmarks (append_loop qw f i cs) = length (concat (map cond_values cs))"
  using assms(2)
proof (induction cs arbitrary: f i)
  case (Cons c cs)
  then show ?case using qmarks_valueClause [OF assms(1), of c i]
    by (cases "buildValueClause qw c i") (simp add: qmarks_conditionStr qmarks_replicate)
qed simp

lemma qmarks_appendConditions:
  assumes "question_marks qw" "list_all (\<lambda>c. CHR ''?'' \<notin> set (cd_column c)) (qw_conditions qw)"
  shows "qmarks (appendConditions qw sql i) = qmarks sql + length (getBindValues qw)"
  using qmarks_append_loop [OF assms] by (simp add: appendConditions_def getBindValues_def Let_def)

lemma qmarks_sd_where: "names_avoid (CHR ''?'') qw t \<Longrightarrow> qmarks (sd_where qw) = 0"
  by (simp add: names_avoid_def sd_where_def Let_def count_list_absent)

lemma qmarks_set_parts:
  "question_marks qw \<Longrightarrow> list_all (\<lambda>u. CHR ''?'' \<notin> set (fst u)) us \<Longrightarrow> sum_list (map qmarks (set_parts qw i us)) = length us"
  by (induction qw i us rule: set_parts.induct) (auto simp: qmark_placeholder count_list_absent)

lemma full_table_guard_Some: "full_table_guard qw sql = Some s \<Longrightarrow> s = sql"
  by (simp add: full_table_guard_def split: if_splits)

section \<open>Parentheses\<close>

text \<open>The nesting depth after a text; \<open>None\<close> when a parenthesis is closed that was not open.\<close>

fun depth :: "nat \<Rightarrow> string \<Rightarrow> nat option" where
  "depth d [] = Some d"
| "depth d (c # cs) =
     (if c = CHR ''('' then depth (Suc d) cs
      else if c = CHR '')'' then (case d of 0 \<Rightarrow> None | Suc e \<Rightarrow> depth e cs)
      else depth d cs)"

fun cdepth :: "nat \<Rightarrow> condition list \<Rightarrow> nat option" where
  "cdepth d [] = Some d"
| "cdepth d (c # cs) =
     (if d + cd_openParens c < cd_closeParens c then None else cdepth (d + cd_openParens c - cd_closeParens c) cs)"

definition no_parens :: "string \<Rightarrow> bool" where
  "no_parens s \<longleftrightarrow> CHR ''('' \<notin> set s \<and> CHR '')'' \<notin> set s"

lemma no_parens_simps [simp]: "no_parens []" "no_parens (c # s) \<longleftrightarrow> c \<noteq> CHR ''('' \<and> c \<noteq> CHR '')'' \<and> no_parens s"
  "no_parens (s @ t) \<longleftrightarrow> no_parens s \<and> no_parens t"
  by (auto simp: no_parens_def)

lemma depth_append: "depth d (xs @ ys) = Option.bind (depth d xs) (\<lambda>e. depth e ys)"
  by (induction d xs rule: depth.induct) (auto split: nat.splits)

lemma depth_flat: "no_parens s \<Longrightarrow> depth d s = Some d"
  by (induction s arbitrary: d) auto

lemma depth_open: "depth d (replicate n (CHR ''('')) = Some (d + n)"
  by (induction n arbitrary: d) auto

lemma depth_close: "depth d (replicate n (CHR '')'')) = (if d < n then None else Some (d - n))"
  by (induction n arbitrary: d) (auto split: nat.splits)

lemma no_parens_placeholder: "standard_dialect qw \<Longrightarrow> no_parens (placeholder qw i)"
  using dec_int_avoid [of "CHR ''(''" i] dec_int_avoid [of "CHR '')''" i]
  by (auto simp: standard_dialect_def placeholder_def setSoftDeleteConfig_def SQLiteDialect_def MySqlDialect_def
      PostgreSqlDialect_def no_parens_def)

lemma no_parens_join: "no_parens sep \<Longrightarrow> list_all no_parens ss \<Longrightarrow> no_parens (join sep ss)"
  by (induction sep ss rule: join.induct) auto

lemma no_parens_placeholders: "standard_dialect qw \<Longrightarrow> list_all no_parens (placeholders_from qw i n)"
  by (induction qw i n rule: placeholders_from.induct) (auto simp: no_parens_placeholder)

lemma depth_valueClause: "standard_dialect qw \<Longrightarrow> depth d (fst (buildValueClause qw c i)) = Some d"
  by (auto simp: buildValueClause_def Let_def depth_append depth_flat no_parens_placeholder no_parens_join no_parens_placeholders)

lemma no_parens_op: "no_parens (opToString opr)"
  by (cases opr) simp_all

lemma depth_append_loop:
  assumes "standard_dialect qw" "list_all (\<lambda>c. no_parens (cd_column c)) cs"
  shows "depth d (append_loop qw f i cs) = cdepth d cs"
  using assms(2)
proof (induction cs arbitrary: d f i)
  case (Cons c cs)
  obtain v j where v: "buildValueClause qw c i = (v, j)" by fastforce
  then have dv: "depth e v = Some e" for e using depth_valueClause [OF assms(1), of e c i] by simp
  have ds: "depth e (conditionStr c v) = Some e" for e
    using Cons.prems dv by (auto simp: conditionStr_def depth_append depth_flat no_parens_op)
  have dl: "depth e (if f then [] else if cd_logic c = KW_OR then '' OR '' else '' AND '') = Some e" for e
    by (rule depth_flat) simp
  show ?case using Cons dl ds by (simp add: v depth_append depth_open depth_close)
qed simp

text \<open>Nested builders keep the balance of conditions.\<close>

lemma cdepth_append: "cdepth d (xs @ ys) = Option.bind (cdepth d xs) (\<lambda>e. cdepth e ys)"
  by (induction d xs rule: cdepth.induct) auto

lemma cdepth_shift: "cdepth d cs = Some e \<Longrightarrow> cdepth (d + n) cs = Some (e + n)"
  by (induction d cs arbitrary: e rule: cdepth.induct) (auto split: if_splits simp: algebra_simps dest: less_imp_add_positive)

lemma cdepth_logic: "cdepth d (map (\<lambda>c. c\<lparr>cd_logic := l\<rparr>) cs) = cdepth d cs"
  by (induction d cs rule: cdepth.induct) auto

lemma cdepth_set_logic: "cdepth d (cs[0 := (cs ! 0)\<lparr>cd_logic := l\<rparr>]) = cdepth d cs"
  by (cases cs) auto

lemma ends_cases:
  assumes "length cs > 1"
  obtains c ms l where "cs = c # ms @ [l]"
  using assms by (metis One_nat_def append_butlast_last_id length_0_conv length_Suc_conv list.size(3) not_less_zero not_one_less_zero list.exhaust less_numeral_extra(4))

lemma wrap_parens_cases:
  "wrap_parens (c # ms @ [l]) = c\<lparr>cd_openParens := cd_openParens c + 1\<rparr> # ms @ [l\<lparr>cd_closeParens := cd_closeParens l + 1\<rparr>]"
  by (simp add: wrap_parens_def Let_def nth_append)

lemma cdepth_wrap:
  assumes "cdepth 0 cs = Some 0"
  shows "cdepth 0 (wrap_parens cs) = Some 0"
proof (cases "length cs > 1")
  case True
  then obtain c ms l where cs: "cs = c # ms @ [l]" by (rule ends_cases)
  have "cdepth 1 cs = Some 1" using cdepth_shift [OF assms, of 1] by simp
  then show ?thesis unfolding cs wrap_parens_cases by (auto simp: cdepth_append Suc_diff_le split: if_splits bind_splits)
qed (use assms in \<open>simp add: wrap_parens_def\<close>)

lemma wrap_parens_logic:
  "map (\<lambda>c. c\<lparr>cd_logic := l\<rparr>) (wrap_parens (map (\<lambda>c. c\<lparr>cd_logic := k\<rparr>) cs)) = map (\<lambda>c. c\<lparr>cd_logic := l\<rparr>) (wrap_parens cs)"
proof (cases "length cs > 1")
  case True
  then obtain c ms x where "cs = c # ms @ [x]" by (rule ends_cases)
  then show ?thesis by (simp add: wrap_parens_cases)
qed (simp add: wrap_parens_def)

definition simple_calls :: "(query_wrapper \<Rightarrow> query_wrapper) set" where
  "simple_calls = (\<Union>col v. {qw_eq col v, qw_ne col v, qw_gt col v, qw_ge col v, qw_lt col v, qw_le col v})
     \<union> (\<Union>col s. {qw_like col s, qw_notLike col s, qw_likeLeft col s, qw_likeRight col s})
     \<union> (\<Union>col vs. {qw_in col vs, qw_notIn col vs}) \<union> (\<Union>col. {qw_isNull col, qw_isNotNull col, qw_addGroupBy col})
     \<union> (\<Union>col b. {qw_addOrderBy col b, allowFullTableOperation b}) \<union> (\<Union>n. {qw_setLimit n, qw_setOffset n}) \<union> range qw_setDialect"

inductive built :: "query_wrapper \<Rightarrow> bool" where
  built_new: "built mk_QueryWrapper"
| built_call: "built qw \<Longrightarrow> f \<in> simple_calls \<Longrightarrow> built (f qw)"
| built_and: "built qw \<Longrightarrow> built (func mk_QueryWrapper) \<Longrightarrow> built (qw_and func qw)"
| built_or: "built qw \<Longrightarrow> built (func mk_QueryWrapper) \<Longrightarrow> built (qw_or func qw)"

lemma simple_call_conditions:
  assumes "f \<in> simple_calls"
  shows "qw_conditions (f qw) = qw_conditions qw \<or> (\<exists>c. qw_conditions (f qw) = qw_conditions qw @ [c] \<and> cd_openParens c = 0 \<and> cd_closeParens c = 0)"
  using assms
  by (auto simp: simple_calls_def push_condition_def mk_Condition_def in_condition_def qw_eq_def qw_ne_def qw_gt_def qw_ge_def
      qw_lt_def qw_le_def qw_like_def qw_notLike_def qw_likeLeft_def qw_likeRight_def qw_in_def qw_notIn_def qw_isNull_def
      qw_isNotNull_def qw_addOrderBy_def qw_addGroupBy_def qw_setLimit_def qw_setOffset_def allowFullTableOperation_def qw_setDialect_def)

lemma built_cdepth: "built qw \<Longrightarrow> cdepth 0 (qw_conditions qw) = Some 0"
proof (induction rule: built.induct)
  case (built_call qw f)
  from simple_call_conditions [OF built_call.hyps(2), of qw] built_call.IH show ?case by (auto simp: cdepth_append)
next
  case (built_and qw func)
  then show ?case by (auto simp: qw_and_def Let_def cdepth_append cdepth_logic cdepth_wrap)
next
  case (built_or qw func)
  then show ?case by (auto simp: qw_or_def Let_def cdepth_append cdepth_set_logic cdepth_wrap)
qed (simp add: mk_QueryWrapper_def)

section \<open>The statements\<close>

text \<open>With a dialect whose placeholder is a question mark and names without one, every statement holds
  exactly as many placeholders as the call that collects its bind values returns values: the values of the conditions for
  SELECT, COUNT and DELETE; for UPDATE also one for every updated column and one for the update time.\<close>

theorem sql_bind_count:
  assumes "question_marks qw" "names_avoid (CHR ''?'') qw t" "list_all (\<lambda>u. CHR ''?'' \<notin> set (fst u)) updates"
  shows "qmarks (buildSelectSql qw t) = length (getBindValues qw)
    \<and> qmarks (buildCountSql qw t) = length (getBindValues qw)
    \<and> (\<forall>del. buildDeleteSql qw t = Some del \<longrightarrow> qmarks del = length (getBindValues qw))
    \<and> (\<forall>upd. buildUpdateSql qw t updates = Some upd \<longrightarrow> qmarks upd = length (getUpdateBindValues now qw updates))"
proof (intro conjI allI impI)
  have st: "standard_dialect qw" using assms(1) by (simp add: question_marks_def)
  have t: "qmarks t = 0" and cols: "list_all (\<lambda>c. CHR ''?'' \<notin> set (cd_column c)) (qw_conditions qw)"
    and g: "CHR ''?'' \<notin> set (join '', '' (qw_groupBy qw))" and ob: "CHR ''?'' \<notin> set (join '', '' (qw_orderBy qw))"
    and dh: "qmarks (delete_head qw t) = 0"
    using assms(2) by (simp_all add: names_avoid_def join_avoid delete_head_def Let_def count_list_absent)
  note body = qmarks_appendConditions [OF assms(1) cols] qmarks_sd_where [OF assms(2)] t dh
  show "qmarks (buildSelectSql qw t) = length (getBindValues qw)"
    using g ob limitOffset_avoid [OF st, of "CHR ''?''"] by (simp add: buildSelectSql_def body count_list_absent)
  show "qmarks (buildCountSql qw t) = length (getBindValues qw)" by (simp add: buildCountSql_def body)
  show "qmarks del = length (getBindValues qw)" if "buildDeleteSql qw t = Some del" for del
    using full_table_guard_Some [OF that [unfolded buildDeleteSql_def]] by (simp add: body)
  show "qmarks upd = length (getUpdateBindValues now qw updates)" if "buildUpdateSql qw t updates = Some upd" for upd
    using full_table_guard_Some [OF that [unfolded buildUpdateSql_def Let_def]]
    by (simp add: body qmarks_join qmarks_set_parts [OF assms(1,3)] qmark_placeholder [OF assms(1)] getUpdateBindValues_def)
qed

definition demo_query :: query_wrapper where
  "demo_query = qw_setLimit 10 (qw_or (qw_isNull ''c'' \<circ> qw_eq ''b'' (QNumber 2)) (qw_in ''a'' [QNumber 1, QNumber 2, QNumber 3] mk_QueryWrapper))"


lemma demo_query_marks: "question_marks demo_query" "names_avoid x demo_query ''t'' \<longleftrightarrow> x \<notin> set ''tabcdeleted01''"
  by (auto simp: question_marks_def standard_dialect_def names_avoid_def sd_config_def default_soft_delete_def demo_query_def
      mk_QueryWrapper_def qw_setLimit_def qw_or_def qw_isNull_def qw_eq_def qw_in_def push_condition_def mk_Condition_def
      in_condition_def wrap_parens_def Let_def)

theorem sql_bind_count_witness:
  "qmarks (buildSelectSql demo_query ''t'') = 4 \<and> qmarks (buildCountSql demo_query ''t'') = 4"
proof -
  have len: "length (getBindValues demo_query) = 4" by code_simp
  have h: "names_avoid (CHR ''?'') demo_query ''t''" "list_all (\<lambda>u. CHR ''?'' \<notin> set (fst u)) [(''x'', QNumber 1)]"
    by (simp_all add: demo_query_marks)
  show ?thesis using sql_bind_count [OF demo_query_marks(1) h, of "[]"] len by simp
qed

lemma no_parens_names:
  assumes "names_avoid (CHR ''('') qw t" "names_avoid (CHR '')'') qw t"
  shows "no_parens t" "list_all (\<lambda>c. no_parens (cd_column c)) (qw_conditions qw)" "no_parens (join '', '' (qw_groupBy qw))"
    "no_parens (join '', '' (qw_orderBy qw))" "no_parens (sd_where qw)" "no_parens (delete_head qw t)"
  using assms by (simp_all add: names_avoid_def no_parens_def list_all_iff sd_where_def delete_head_def Let_def join_avoid)

text \<open>However a wrapper is built, by condition calls and by AND and OR groups nested to any depth, the parentheses of its
  SELECT and of its DELETE statement match: never one closed that is not open, and none left open at the end.\<close>

theorem sql_parens_balanced:
  assumes "built qw" "standard_dialect qw" "names_avoid (CHR ''('') qw t" "names_avoid (CHR '')'') qw t"
  shows "depth 0 (buildSelectSql qw t) = Some 0 \<and> (\<forall>del. buildDeleteSql qw t = Some del \<longrightarrow> depth 0 del = Some 0)"
proof (intro conjI allI impI)
  note nm = no_parens_names [OF assms(3,4)]
  have c0: "cdepth 0 (qw_conditions qw) = Some 0" using assms(1) by (rule built_cdepth)
  then have c1: "cdepth 1 (qw_conditions qw) = Some 1" using cdepth_shift [of 0 _ 0 1] by simp
  have ap: "depth 0 (appendConditions qw sql i) = Some 0" if "no_parens sql" for sql i
    using that c0 c1 by (simp add: appendConditions_def Let_def depth_append depth_flat depth_append_loop [OF assms(2) nm(2)])
  have lo: "no_parens (qw_limitOffset qw)"
    using limitOffset_avoid [OF assms(2), of "CHR ''(''"] limitOffset_avoid [OF assms(2), of "CHR '')''"] by (simp add: no_parens_def)
  show "depth 0 (buildSelectSql qw t) = Some 0"
    using nm lo by (simp add: buildSelectSql_def depth_append ap depth_flat)
  show "depth 0 del = Some 0" if "buildDeleteSql qw t = Some del" for del
    using full_table_guard_Some [OF that [unfolded buildDeleteSql_def]] nm by (simp add: ap)
qed

theorem sql_parens_balanced_witness: "depth 0 (buildSelectSql demo_query ''t'') = Some 0"
proof -
  have c: "qw_in ''a'' [QNumber 1, QNumber 2, QNumber 3] \<in> simple_calls" "qw_eq ''b'' (QNumber 2) \<in> simple_calls"
    "qw_isNull ''c'' \<in> simple_calls" "qw_setLimit 10 \<in> simple_calls"
    by (auto simp: simple_calls_def)
  have "built (qw_isNull ''c'' (qw_eq ''b'' (QNumber 2) mk_QueryWrapper))"
    by (rule built_call [OF built_call [OF built_new c(2)] c(3)])
  then have "built demo_query"
    unfolding demo_query_def by (intro built_call [OF _ c(4)] built_or built_call [OF built_new c(1)]) simp
  moreover have "standard_dialect demo_query" using demo_query_marks(1) by (simp add: question_marks_def)
  ultimately show ?thesis using sql_parens_balanced [of demo_query "''t''"] by (simp add: demo_query_marks)
qed

text \<open>With soft delete disabled, no condition and no opt-in, DELETE is refused, unless the table name contains the letters of
  WHERE in any case: then the statement that empties the table is returned, for the guard looks for the text, not the clause.\<close>

theorem sql_full_table_guard:
  assumes "\<not> sd_enabled (sd_config qw)" "qw_conditions qw = []" "\<not> qw_allowFullTable qw"
  shows "buildDeleteSql qw t = (if contains_ci t ''WHERE'' then Some (''DELETE FROM '' @ t) else None)"
proof -
  have "contains_ci (''DELETE FROM '' @ t) ''WHERE'' = contains_ci t ''WHERE''"
    by (simp add: lower_char_def) (simp add: char_of_def)
  then show ?thesis using assms by (simp add: buildDeleteSql_def delete_head_def appendConditions_def full_table_guard_def)
qed

theorem sql_full_table_guard_witness:
  "buildDeleteSql (qw_setDialect (Some (setSoftDeleteConfig (default_soft_delete\<lparr>sd_enabled := False\<rparr>) SQLiteDialect)) mk_QueryWrapper)
     ''elsewhere'' = Some ''DELETE FROM elsewhere''"
proof -
  have "contains_ci ''elsewhere'' ''WHERE''" by code_simp
  then show ?thesis
    using sql_full_table_guard [of "qw_setDialect (Some (setSoftDeleteConfig (default_soft_delete\<lparr>sd_enabled := False\<rparr>) SQLiteDialect)) mk_QueryWrapper" "''elsewhere''"]
    by (simp add: qw_setDialect_def mk_QueryWrapper_def sd_config_def setSoftDeleteConfig_def)
qed

text \<open>An AND group does not see how its conditions are linked: whatever the nested builder does with \<open>or_\<close>, the group is the same
  as one whose conditions are all linked by AND, so \<open>a OR b\<close> written inside a group selects \<open>a AND b\<close>.\<close>

lemma sql_and_flattens_or:
  "qw_and func qw = qw_and (\<lambda>w. (func w)\<lparr>qw_conditions := map (\<lambda>c. c\<lparr>cd_logic := KW_AND\<rparr>) (qw_conditions (func w))\<rparr>) qw"
  by (simp add: qw_and_def Let_def wrap_parens_logic)

end
