(* ===== verification/SK_Migration.thy ===== *)
theory SK_Migration
  imports SK_QueryWrapper "HOL-Library.Multiset" "HOL-Library.List_Lexorder" "HOL-Library.Char_ord"
begin

text \<open>
  The schema migrations of \<^verbatim>\<open>src/soul/orm/migration.cpp\<close>. The database driver is an interface whose implementations call Qt SQL: it is a record
  of functions on a database state, an argument of every operation that uses it. A migration is its version, its description and its two directions as functions
  on the database. Versions are compared as strings. A clock reading (\<open>now\<close>, already printed) is an argument.

  What the theorems need of a driver is the predicate \<open>driver_contract\<close>, over a view of the database: the schema, the recorded versions and
  the state saved by an open transaction.
\<close>

section \<open>Data\<close>

type_synonym row = "(string \<times> qvariant) list"

record 'd driver =
  dr_isConnected :: "'d \<Rightarrow> bool"
  dr_executeUpdate :: "string \<Rightarrow> qvariant list \<Rightarrow> 'd \<Rightarrow> int result \<times> 'd"
  dr_executeQuery :: "string \<Rightarrow> qvariant list \<Rightarrow> 'd \<Rightarrow> row list result"
  dr_beginTransaction :: "'d \<Rightarrow> unit result \<times> 'd"
  dr_commit :: "'d \<Rightarrow> unit result \<times> 'd"
  dr_rollback :: "'d \<Rightarrow> unit result \<times> 'd"

record 'd migration =
  mg_version :: string
  mg_description :: string
  mg_up :: "'d \<Rightarrow> unit result \<times> 'd"
  mg_down :: "'d \<Rightarrow> unit result \<times> 'd"

record MigrationRecord =
  mr_version :: string
  mr_description :: string
  mr_appliedAt :: string

record 'd migration_manager =
  mm_migrations :: "'d migration list"
  mm_tableEnsured :: bool

definition mk_MigrationManager :: "'d migration_manager" where
  "mk_MigrationManager = \<lparr>mm_migrations = [], mm_tableEnsured = False\<rparr>"

definition kTableName :: string where "kTableName = ''schema_migrations''"

text \<open>\<^verbatim>\<open>QVariant::toString\<close>, used on the columns of the version table.\<close>

fun toString :: "qvariant \<Rightarrow> string" where
  "toString QInvalid = []"
| "toString (QText s) = s"
| "toString (QNumber i) = dec_int i"
| "toString (QBool b) = (if b then ''true'' else ''false'')"

section \<open>Private operations\<close>

definition create_sql :: string where
  "create_sql = ''CREATE TABLE IF NOT EXISTS '' @ kTableName @ '' (version     TEXT PRIMARY KEY, description TEXT NOT NULL, applied_at  TEXT NOT NULL)''"

definition insert_sql :: string where
  "insert_sql = ''INSERT INTO '' @ kTableName @ '' (version, description, applied_at) VALUES (?, ?, ?)''"

definition delete_sql :: string where
  "delete_sql = ''DELETE FROM '' @ kTableName @ '' WHERE version = ?''"

definition versions_sql :: string where
  "versions_sql = ''SELECT version FROM '' @ kTableName"

definition ensureMigrationsTable :: "'d driver \<Rightarrow> 'd migration_manager \<Rightarrow> 'd \<Rightarrow> unit result \<times> 'd migration_manager \<times> 'd" where
  "ensureMigrationsTable drv mm d =
     (if mm_tableEnsured mm then (Ok (), mm, d)
      else case dr_executeUpdate drv create_sql [] d of
        (Inl e, d') \<Rightarrow> (Err e, mm, d')
      | (Inr _, d') \<Rightarrow> (Ok (), mm\<lparr>mm_tableEnsured := True\<rparr>, d'))"

definition isApplied :: "'d driver \<Rightarrow> string \<Rightarrow> 'd \<Rightarrow> bool result" where
  "isApplied drv version d =
     (case dr_executeQuery drv (versions_sql @ '' WHERE version = ?'') [QText version] d of
        Inl e \<Rightarrow> Err e | Inr rows \<Rightarrow> Ok (rows \<noteq> []))"

definition recordMigration :: "'d driver \<Rightarrow> string \<Rightarrow> string \<Rightarrow> string \<Rightarrow> 'd \<Rightarrow> unit result \<times> 'd" where
  "recordMigration drv now version description d =
     (case dr_executeUpdate drv insert_sql [QText version, QText description, QText now] d of
        (Inl e, d') \<Rightarrow> (Err e, d') | (Inr _, d') \<Rightarrow> (Ok (), d'))"

definition removeMigrationRecord :: "'d driver \<Rightarrow> string \<Rightarrow> 'd \<Rightarrow> unit result \<times> 'd" where
  "removeMigrationRecord drv version d =
     (case dr_executeUpdate drv delete_sql [QText version] d of
        (Inl e, d') \<Rightarrow> (Err e, d') | (Inr _, d') \<Rightarrow> (Ok (), d'))"

definition row_versions :: "row list \<Rightarrow> string list" where
  "row_versions rows = concat (map (\<lambda>r. case map_of r ''version'' of None \<Rightarrow> [] | Some v \<Rightarrow> [toString v]) rows)"

definition appliedVersions :: "'d driver \<Rightarrow> 'd \<Rightarrow> string list result" where
  "appliedVersions drv d =
     (case dr_executeQuery drv versions_sql [] d of Inl e \<Rightarrow> Err e | Inr rows \<Rightarrow> Ok (row_versions rows))"

definition applyMigration :: "'d driver \<Rightarrow> string \<Rightarrow> 'd migration \<Rightarrow> bool \<Rightarrow> 'd \<Rightarrow> unit result \<times> 'd" where
  "applyMigration drv now m isUp d =
     (case dr_beginTransaction drv d of
        (Inl e, d1) \<Rightarrow> (Err e, d1)
      | (Inr _, d1) \<Rightarrow>
          (case (if isUp then mg_up m d1 else mg_down m d1) of
             (Inl e, d2) \<Rightarrow> (Err e, snd (dr_rollback drv d2))
           | (Inr _, d2) \<Rightarrow>
               (case (if isUp then recordMigration drv now (mg_version m) (mg_description m) d2
                      else removeMigrationRecord drv (mg_version m) d2) of
                  (Inl e, d3) \<Rightarrow> (Err e, snd (dr_rollback drv d3))
                | (Inr _, d3) \<Rightarrow>
                    (case dr_commit drv d3 of (Inl e, d4) \<Rightarrow> (Err e, d4) | (Inr _, d4) \<Rightarrow> (Ok (), d4)))))"

section \<open>Public operations\<close>

definition addMigration :: "'d migration option \<Rightarrow> 'd migration_manager \<Rightarrow> 'd migration_manager" where
  "addMigration migration mm =
     (case migration of
        None \<Rightarrow> mm
      | Some m \<Rightarrow> if list_ex (\<lambda>x. mg_version x = mg_version m) (mm_migrations mm) then mm
                  else mm\<lparr>mm_migrations := mm_migrations mm @ [m]\<rparr>)"

text \<open>The common opening: a connected driver, the table, the recorded versions.\<close>

definition with_applied :: "string \<Rightarrow> 'd driver \<Rightarrow> 'd migration_manager \<Rightarrow> 'd \<Rightarrow> string list result \<times> 'd migration_manager \<times> 'd" where
  "with_applied msg drv mm d =
     (if \<not> dr_isConnected drv d then (Err (mk_error EC_NotConnected msg), mm, d)
      else case ensureMigrationsTable drv mm d of
        (Inl e, mm1, d1) \<Rightarrow> (Err e, mm1, d1)
      | (Inr _, mm1, d1) \<Rightarrow> (appliedVersions drv d1, mm1, d1))"

fun apply_all :: "'d driver \<Rightarrow> string list \<Rightarrow> 'd migration list \<Rightarrow> 'd \<Rightarrow> unit result \<times> 'd" where
  "apply_all drv nows [] d = (Ok (), d)"
| "apply_all drv nows (m # ms) d =
     (case applyMigration drv (case nows of [] \<Rightarrow> [] | n # _ \<Rightarrow> n) m True d of
        (Inl e, d') \<Rightarrow> (Err e, d')
      | (Inr _, d') \<Rightarrow> apply_all drv (tl nows) ms d')"

definition pending_migrations :: "string list \<Rightarrow> 'd migration list \<Rightarrow> 'd migration list" where
  "pending_migrations applied ms = sort_key mg_version (filter (\<lambda>m. mg_version m \<notin> set applied) ms)"

text \<open>\<open>nows\<close> are the clock readings of the records in turn.\<close>

definition migrate :: "'d driver \<Rightarrow> string list \<Rightarrow> 'd migration_manager \<Rightarrow> 'd \<Rightarrow> unit result \<times> 'd migration_manager \<times> 'd" where
  "migrate drv nows mm d =
     (case with_applied ''MigrationManager::migrate: driver not connected'' drv mm d of
        (Inl e, mm1, d1) \<Rightarrow> (Err e, mm1, d1)
      | (Inr applied, mm1, d1) \<Rightarrow>
          (case apply_all drv nows (pending_migrations applied (mm_migrations mm1)) d1 of (r, d2) \<Rightarrow> (r, mm1, d2)))"

definition find_migration :: "'d migration list \<Rightarrow> string \<Rightarrow> 'd migration option" where
  "find_migration ms version = List.find (\<lambda>m. mg_version m = version) ms"

definition not_registered :: "string \<Rightarrow> unit result" where
  "not_registered version = Err (mk_error EC_InvalidState (''Migration '' @ version @ '' applied but not registered''))"

text \<open>Both rollbacks walk down the recorded versions while \<open>go_on\<close> holds of the number undone and the version.\<close>

fun rollback_loop :: "'d driver \<Rightarrow> 'd migration list \<Rightarrow> (int \<Rightarrow> string \<Rightarrow> bool) \<Rightarrow> int \<Rightarrow> string list \<Rightarrow> 'd \<Rightarrow> unit result \<times> 'd" where
  "rollback_loop drv ms go_on n [] d = (Ok (), d)"
| "rollback_loop drv ms go_on n (v # vs) d =
     (if \<not> go_on n v then (Ok (), d)
      else case find_migration ms v of
        None \<Rightarrow> (not_registered v, d)
      | Some m \<Rightarrow>
          (case applyMigration drv [] m False d of
             (Inl e, d') \<Rightarrow> (Err e, d')
           | (Inr _, d') \<Rightarrow> rollback_loop drv ms go_on (n + 1) vs d'))"

definition rollback_with :: "string \<Rightarrow> (int \<Rightarrow> string \<Rightarrow> bool) \<Rightarrow> 'd driver \<Rightarrow> 'd migration_manager \<Rightarrow> 'd \<Rightarrow> unit result \<times> 'd migration_manager \<times> 'd" where
  "rollback_with msg go_on drv mm d =
     (case with_applied msg drv mm d of
        (Inl e, mm1, d1) \<Rightarrow> (Err e, mm1, d1)
      | (Inr applied, mm1, d1) \<Rightarrow>
          (case rollback_loop drv (mm_migrations mm1) go_on 0 (rev (sort applied)) d1 of (r, d2) \<Rightarrow> (r, mm1, d2)))"

definition mm_rollback :: "int \<Rightarrow> 'd driver \<Rightarrow> 'd migration_manager \<Rightarrow> 'd \<Rightarrow> unit result \<times> 'd migration_manager \<times> 'd" where
  "mm_rollback steps drv mm d =
     (if steps \<le> 0 then (Ok (), mm, d)
      else rollback_with ''MigrationManager::rollback: driver not connected'' (\<lambda>n v. n < steps) drv mm d)"

definition rollbackTo :: "string \<Rightarrow> 'd driver \<Rightarrow> 'd migration_manager \<Rightarrow> 'd \<Rightarrow> unit result \<times> 'd migration_manager \<times> 'd" where
  "rollbackTo targetVersion =
     rollback_with ''MigrationManager::rollbackTo: driver not connected'' (\<lambda>n v. \<not> v \<le> targetVersion)"

definition record_of_row :: "row \<Rightarrow> MigrationRecord" where
  "record_of_row row = (let col = (\<lambda>c. case map_of row c of None \<Rightarrow> [] | Some v \<Rightarrow> toString v)
     in \<lparr>mr_version = col ''version'', mr_description = col ''description'', mr_appliedAt = col ''applied_at''\<rparr>)"

definition appliedMigrations :: "'d driver \<Rightarrow> 'd migration_manager \<Rightarrow> 'd \<Rightarrow> MigrationRecord list result \<times> 'd migration_manager \<times> 'd" where
  "appliedMigrations drv mm d =
     (if \<not> dr_isConnected drv d
      then (Err (mk_error EC_NotConnected ''MigrationManager::appliedMigrations: driver not connected''), mm, d)
      else case ensureMigrationsTable drv mm d of
        (Inl e, mm1, d1) \<Rightarrow> (Err e, mm1, d1)
      | (Inr _, mm1, d1) \<Rightarrow>
          (case dr_executeQuery drv (''SELECT version, description, applied_at FROM '' @ kTableName @ '' ORDER BY applied_at ASC'') [] d1 of
             Inl e \<Rightarrow> (Err e, mm1, d1) | Inr rows \<Rightarrow> (Ok (map record_of_row rows), mm1, d1)))"

definition pendingMigrations :: "'d driver \<Rightarrow> 'd migration_manager \<Rightarrow> 'd \<Rightarrow> string list result \<times> 'd migration_manager \<times> 'd" where
  "pendingMigrations drv mm d =
     (case with_applied ''MigrationManager::pendingMigrations: driver not connected'' drv mm d of
        (Inl e, mm1, d1) \<Rightarrow> (Err e, mm1, d1)
      | (Inr applied, mm1, d1) \<Rightarrow> (Ok (sort (filter (\<lambda>v. v \<notin> set applied) (map mg_version (mm_migrations mm1)))), mm1, d1))"

definition currentVersion :: "'d driver \<Rightarrow> 'd migration_manager \<Rightarrow> 'd \<Rightarrow> string result \<times> 'd migration_manager \<times> 'd" where
  "currentVersion drv mm d =
     (case appliedMigrations drv mm d of
        (Inl e, mm1, d1) \<Rightarrow> (Err e, mm1, d1)
      | (Inr records, mm1, d1) \<Rightarrow> (Ok (if records = [] then [] else mr_version (last records)), mm1, d1))"

definition registeredCount :: "'d migration_manager \<Rightarrow> nat" where
  "registeredCount mm = length (mm_migrations mm)"

section \<open>What the driver and the migrations promise\<close>

text \<open>
  A view of the database: its schema, the versions in the version table (the primary key: a set), and the schema and versions saved by an open transaction. The contract is the
  documented behaviour of SQL transactions and of the statements above, on a database whose schema changes take part in transactions. Any call may fail. A commit that reports a failure may leave the transaction open, have
  undone it or have committed it; a rollback that reports a failure may leave the transaction open. A query without \<^verbatim>\<open>ORDER BY\<close> returns its rows in any order.
\<close>

record ('d, 's) db_view =
  vw_schema :: "'d \<Rightarrow> 's"
  vw_recs :: "'d \<Rightarrow> string set"
  vw_saved :: "'d \<Rightarrow> ('s \<times> string set) option"

definition vw_data :: "('d, 's) db_view \<Rightarrow> 'd \<Rightarrow> 's \<times> string set" where
  "vw_data vw d = (vw_schema vw d, vw_recs vw d)"

text \<open>What is committed: what another connection, or this one after the open transaction was undone, sees.\<close>

definition committed :: "('d, 's) db_view \<Rightarrow> 'd \<Rightarrow> 's \<times> string set" where
  "committed vw d = (case vw_saved vw d of None \<Rightarrow> vw_data vw d | Some c \<Rightarrow> c)"

definition tx_contract :: "'d driver \<Rightarrow> ('d, 's) db_view \<Rightarrow> bool" where
  "tx_contract drv vw \<longleftrightarrow>
     (\<forall>d r d'. dr_beginTransaction drv d = (r, d') \<and> vw_saved vw d = None \<longrightarrow>
        vw_data vw d' = vw_data vw d \<and> vw_saved vw d' = (if isOk r then Some (vw_data vw d) else None))
     \<and> (\<forall>d c r d'. dr_commit drv d = (r, d') \<and> vw_saved vw d = Some c \<longrightarrow>
        (if isOk r then vw_data vw d' = vw_data vw d \<and> vw_saved vw d' = None else committed vw d' \<in> {c, vw_data vw d}))
     \<and> (\<forall>d c r d'. dr_rollback drv d = (r, d') \<and> vw_saved vw d = Some c \<longrightarrow>
        committed vw d' = c \<and> (isOk r \<longrightarrow> vw_saved vw d' = None))"

definition table_contract :: "'d driver \<Rightarrow> ('d, 's) db_view \<Rightarrow> bool" where
  "table_contract drv vw \<longleftrightarrow>
     (\<forall>d r d'. dr_executeUpdate drv create_sql [] d = (r, d') \<longrightarrow> vw_data vw d' = vw_data vw d \<and> vw_saved vw d' = vw_saved vw d)
     \<and> (\<forall>v desc at d r d'. dr_executeUpdate drv insert_sql [QText v, QText desc, QText at] d = (r, d') \<longrightarrow>
          vw_saved vw d' = vw_saved vw d \<and> (isOk r \<longrightarrow> vw_data vw d' = (vw_schema vw d, insert v (vw_recs vw d))))
     \<and> (\<forall>v d r d'. dr_executeUpdate drv delete_sql [QText v] d = (r, d') \<longrightarrow>
          vw_saved vw d' = vw_saved vw d \<and> (isOk r \<longrightarrow> vw_data vw d' = (vw_schema vw d, vw_recs vw d - {v})))
     \<and> (\<forall>d rows. dr_executeQuery drv versions_sql [] d = Ok rows \<longrightarrow> set (row_versions rows) = vw_recs vw d \<and> distinct (row_versions rows))"

definition driver_contract :: "'d driver \<Rightarrow> ('d, 's) db_view \<Rightarrow> bool" where
  "driver_contract drv vw \<longleftrightarrow> tx_contract drv vw \<and> table_contract drv vw"

text \<open>A driver whose commits and rollbacks do not fail.\<close>

definition tx_reliable :: "'d driver \<Rightarrow> bool" where
  "tx_reliable drv \<longleftrightarrow> (\<forall>d. isOk (fst (dr_commit drv d)) \<and> isOk (fst (dr_rollback drv d)))"

text \<open>A migration works on the schema only and leaves transactions alone; \<open>up\<close> and \<open>down\<close> are what its directions do to the schema when they succeed.\<close>

definition mig_ok :: "('d, 's) db_view \<Rightarrow> ('d migration \<Rightarrow> 's \<Rightarrow> 's) \<Rightarrow> ('d migration \<Rightarrow> 's \<Rightarrow> 's) \<Rightarrow> 'd migration \<Rightarrow> bool" where
  "mig_ok vw up down m \<longleftrightarrow>
     (\<forall>d r d'. mg_up m d = (r, d') \<longrightarrow> vw_saved vw d' = vw_saved vw d \<and> (isOk r \<longrightarrow> vw_data vw d' = (up m (vw_schema vw d), vw_recs vw d)))
     \<and> (\<forall>d r d'. mg_down m d = (r, d') \<longrightarrow> vw_saved vw d' = vw_saved vw d \<and> (isOk r \<longrightarrow> vw_data vw d' = (down m (vw_schema vw d), vw_recs vw d)))"

section \<open>One migration is atomic\<close>

lemma begin_saves:
  assumes "tx_contract drv vw" "vw_saved vw d = None" "dr_beginTransaction drv d = (r, d')"
  shows "vw_data vw d' = vw_data vw d" "vw_saved vw d' = (if isOk r then Some (vw_data vw d) else None)"
  using assms unfolding tx_contract_def by blast+

lemma commit_effect:
  assumes "tx_contract drv vw" "vw_saved vw d = Some c" "dr_commit drv d = (r, d')"
  shows "if isOk r then vw_data vw d' = vw_data vw d \<and> vw_saved vw d' = None else committed vw d' \<in> {c, vw_data vw d}"
  using assms unfolding tx_contract_def by blast

lemma rollback_restores:
  assumes "tx_contract drv vw" "vw_saved vw d = Some c"
  shows "committed vw (snd (dr_rollback drv d)) = c \<and> (tx_reliable drv \<longrightarrow> vw_saved vw (snd (dr_rollback drv d)) = None)"
proof -
  obtain r d' where r: "dr_rollback drv d = (r, d')" by fastforce
  with assms have "committed vw d' = c \<and> (isOk r \<longrightarrow> vw_saved vw d' = None)" unfolding tx_contract_def by blast
  moreover have "tx_reliable drv \<Longrightarrow> isOk r" using r by (metis tx_reliable_def fst_conv)
  ultimately show ?thesis using r by simp
qed

lemma direction_effect:
  assumes "mig_ok vw up down m" "(if isUp then mg_up m d else mg_down m d) = (r, d')"
  shows "vw_saved vw d' = vw_saved vw d" and "isOk r \<Longrightarrow> vw_data vw d' = ((if isUp then up m else down m) (vw_schema vw d), vw_recs vw d)"
  using assms unfolding mig_ok_def by (auto split: if_splits)

text \<open>What a migration does to the data.\<close>

definition mig_data :: "('d migration \<Rightarrow> 's \<Rightarrow> 's) \<Rightarrow> ('d migration \<Rightarrow> 's \<Rightarrow> 's) \<Rightarrow> 'd migration \<Rightarrow> bool \<Rightarrow> 's \<times> string set \<Rightarrow> 's \<times> string set" where
  "mig_data up down m isUp c = (if isUp then (up m (fst c), insert (mg_version m) (snd c)) else (down m (fst c), snd c - {mg_version m}))"

lemma record_effect:
  assumes "table_contract drv vw"
    and "(if isUp then recordMigration drv now (mg_version m) (mg_description m) d else removeMigrationRecord drv (mg_version m) d) = (r, d')"
  shows "vw_saved vw d' = vw_saved vw d"
    and "isOk r \<Longrightarrow> vw_data vw d' = (vw_schema vw d, if isUp then insert (mg_version m) (vw_recs vw d) else vw_recs vw d - {mg_version m})"
proof -
  obtain q x where i: "dr_executeUpdate drv insert_sql [QText (mg_version m), QText (mg_description m), QText now] d = (q, x)" by fastforce
  obtain q' x' where e: "dr_executeUpdate drv delete_sql [QText (mg_version m)] d = (q', x')" by fastforce
  have i': "vw_saved vw x = vw_saved vw d \<and> (isOk q \<longrightarrow> vw_data vw x = (vw_schema vw d, insert (mg_version m) (vw_recs vw d)))"
    using assms(1) i unfolding table_contract_def by blast
  have e': "vw_saved vw x' = vw_saved vw d \<and> (isOk q' \<longrightarrow> vw_data vw x' = (vw_schema vw d, vw_recs vw d - {mg_version m}))"
    using assms(1) e unfolding table_contract_def by blast
  show "vw_saved vw d' = vw_saved vw d"
    using assms(2) i i' e e' by (cases q; cases q') (auto simp: recordMigration_def removeMigrationRecord_def split: if_splits)
  show "isOk r \<Longrightarrow> vw_data vw d' = (vw_schema vw d, if isUp then insert (mg_version m) (vw_recs vw d) else vw_recs vw d - {mg_version m})"
    using assms(2) i i' e e' by (cases q; cases q') (auto simp: recordMigration_def removeMigrationRecord_def split: if_splits)
qed

lemma apply_atomic:
  assumes c: "driver_contract drv vw" and m: "mig_ok vw up down m" and s: "vw_saved vw d = None"
    and a: "applyMigration drv now m isUp d = (r, d')"
  shows "if isOk r then vw_saved vw d' = None \<and> vw_data vw d' = mig_data up down m isUp (vw_data vw d)
     else committed vw d' \<in> {vw_data vw d, mig_data up down m isUp (vw_data vw d)} \<and> (tx_reliable drv \<longrightarrow> vw_saved vw d' = None)"
proof -
  have tx: "tx_contract drv vw" and tb: "table_contract drv vw" using c by (auto simp: driver_contract_def)
  obtain r1 d1 where b: "dr_beginTransaction drv d = (r1, d1)" by fastforce
  note b' = begin_saves [OF tx s b]
  obtain r2 d2 where u: "(if isUp then mg_up m d1 else mg_down m d1) = (r2, d2)" by fastforce
  note u' = direction_effect [OF m u]
  obtain r3 d3 where k: "(if isUp then recordMigration drv now (mg_version m) (mg_description m) d2 else removeMigrationRecord drv (mg_version m) d2) = (r3, d3)"
    by fastforce
  note k' = record_effect [OF tb k]
  obtain r4 d4 where co: "dr_commit drv d3 = (r4, d4)" by fastforce
  consider e1 where "r1 = Inl e1" | e2 where "r1 = Ok ()" "r2 = Inl e2" | e3 where "r1 = Ok ()" "r2 = Ok ()" "r3 = Inl e3"
    | "r1 = Ok ()" "r2 = Ok ()" "r3 = Ok ()" by (metis isOkE not_isOkE unit.exhaust)
  then show ?thesis
  proof cases
    case 1
    then show ?thesis using a b b' by (auto simp: applyMigration_def committed_def)
  next
    case 2
    then have "vw_saved vw d2 = Some (vw_data vw d)" using b'(2) u'(1) by simp
    from rollback_restores [OF tx this] show ?thesis using 2 a b u by (auto simp: applyMigration_def)
  next
    case 3
    then have "vw_saved vw d3 = Some (vw_data vw d)" using b'(2) u'(1) k'(1) by simp
    from rollback_restores [OF tx this] show ?thesis using 3 a b u k by (auto simp: applyMigration_def)
  next
    case 4
    then have sv: "vw_saved vw d3 = Some (vw_data vw d)" using b'(2) u'(1) k'(1) by simp
    have "vw_data vw d3 = mig_data up down m isUp (vw_data vw d)"
      using 4 b'(1) u'(2) k'(2) by (auto simp: mig_data_def vw_data_def)
    moreover have "tx_reliable drv \<Longrightarrow> isOk r4" using co by (metis tx_reliable_def fst_conv)
    moreover have "isOk r \<longleftrightarrow> isOk r4" "d' = d4" using 4 a b u k co by (auto simp: applyMigration_def split: sum.splits)
    ultimately show ?thesis using commit_effect [OF tx sv co] by (auto split: if_splits)
  qed
qed

section \<open>Runs of migrations\<close>

abbreviation all_up :: "('d migration \<Rightarrow> 's \<Rightarrow> 's) \<Rightarrow> 'd migration list \<Rightarrow> 's \<times> string set \<Rightarrow> 's \<times> string set" where
  "all_up up ms c \<equiv> (fold up ms (fst c), snd c \<union> mg_version ` set ms)"

lemma apply_all_prefix:
  assumes "driver_contract drv vw" "list_all (mig_ok vw up down) ms" "vw_saved vw d = None" "apply_all drv nows ms d = (r, d')"
  shows "\<exists>k \<le> length ms. committed vw d' = all_up up (take k ms) (vw_data vw d) \<and> (isOk r \<longrightarrow> k = length ms \<and> vw_saved vw d' = None)
    \<and> (tx_reliable drv \<longrightarrow> vw_saved vw d' = None)"
  using assms(2-4)
proof (induction ms arbitrary: d nows)
  case Nil
  then show ?case by (auto simp: committed_def)
next
  case (Cons m ms)
  obtain q d1 where a: "applyMigration drv (case nows of [] \<Rightarrow> [] | n # _ \<Rightarrow> n) m True d = (q, d1)" by fastforce
  have m: "mig_ok vw up down m" using Cons.prems(1) by simp
  note at = apply_atomic [OF assms(1) m Cons.prems(2) a]
  show ?case
  proof (cases q)
    case (Inl e)
    with a Cons.prems(3) have r: "r = Err e" "d' = d1" by simp_all
    from at Inl have "committed vw d1 = vw_data vw d \<or> committed vw d1 = mig_data up down m True (vw_data vw d)" "tx_reliable drv \<longrightarrow> vw_saved vw d1 = None" by auto
    then show ?thesis using r by (elim disjE; intro exI [of _ 0] exI [of _ "Suc 0"]) (auto simp: mig_data_def)
  next
    case (Inr u)
    with a Cons.prems(3) have "apply_all drv (tl nows) ms d1 = (r, d')" by simp
    moreover from at Inr have "vw_saved vw d1 = None" "vw_data vw d1 = mig_data up down m True (vw_data vw d)" by simp_all
    ultimately obtain k where "k \<le> length ms" "committed vw d' = all_up up (take k ms) (mig_data up down m True (vw_data vw d))"
      "isOk r \<longrightarrow> k = length ms \<and> vw_saved vw d' = None" "tx_reliable drv \<longrightarrow> vw_saved vw d' = None"
      using Cons.IH [of d1 "tl nows"] Cons.prems(1) by auto
    then show ?thesis by (intro exI [of _ "Suc k"]) (auto simp: mig_data_def)
  qed
qed

lemma ensure_frame:
  assumes "driver_contract drv vw" "ensureMigrationsTable drv mm d = (r, mm', d')"
  shows "mm_migrations mm' = mm_migrations mm" "vw_data vw d' = vw_data vw d" "vw_saved vw d' = vw_saved vw d"
proof -
  obtain q x where "dr_executeUpdate drv create_sql [] d = (q, x)" by fastforce
  moreover from this have "vw_data vw x = vw_data vw d \<and> vw_saved vw x = vw_saved vw d"
    using assms(1) unfolding driver_contract_def table_contract_def by blast
  ultimately show "mm_migrations mm' = mm_migrations mm" "vw_data vw d' = vw_data vw d" "vw_saved vw d' = vw_saved vw d"
    using assms(2) by (cases q; auto simp: ensureMigrationsTable_def split: if_splits)+
qed

lemma with_applied_frame:
  assumes "driver_contract drv vw" "with_applied msg drv mm d = (r, mm', d')"
  shows "mm_migrations mm' = mm_migrations mm" "vw_data vw d' = vw_data vw d" "vw_saved vw d' = vw_saved vw d"
    "r = Ok vs \<Longrightarrow> set vs = vw_recs vw d \<and> distinct vs"
proof -
  obtain q mm1 d1 where e: "ensureMigrationsTable drv mm d = (q, mm1, d1)" by (cases "ensureMigrationsTable drv mm d") auto
  note f = ensure_frame [OF assms(1) e]
  show "mm_migrations mm' = mm_migrations mm" "vw_data vw d' = vw_data vw d" "vw_saved vw d' = vw_saved vw d"
    using assms(2) e f by (cases q; auto simp: with_applied_def split: if_splits)+
  have "set vs = vw_recs vw x \<and> distinct vs" if "appliedVersions drv x = Ok vs" for x
    using that assms(1) unfolding driver_contract_def table_contract_def by (auto simp: appliedVersions_def split: sum.splits)
  then show "r = Ok vs \<Longrightarrow> set vs = vw_recs vw d \<and> distinct vs"
    using assms(2) e f(2) by (cases q) (auto simp: with_applied_def vw_data_def split: if_splits)
qed

text \<open>The migrations that are not recorded, by version.\<close>

definition todo_of :: "('d, 's) db_view \<Rightarrow> 'd \<Rightarrow> 'd migration list \<Rightarrow> 'd migration list" where
  "todo_of vw d ms = sort_key mg_version (filter (\<lambda>m. mg_version m \<notin> vw_recs vw d) ms)"

lemma migrate_prefix:
  assumes c: "driver_contract drv vw" and m: "list_all (mig_ok vw up down) (mm_migrations mm)" and s: "vw_saved vw d = None"
    and g: "migrate drv nows mm d = (r, mm', d')"
  defines "todo \<equiv> todo_of vw d (mm_migrations mm)"
  shows "mm_migrations mm' = mm_migrations mm \<and> (\<exists>k \<le> length todo. committed vw d' = all_up up (take k todo) (vw_data vw d)
    \<and> (isOk r \<longrightarrow> k = length todo \<and> vw_saved vw d' = None) \<and> (tx_reliable drv \<longrightarrow> vw_saved vw d' = None))"
proof -
  obtain q mm1 d1 where w: "with_applied ''MigrationManager::migrate: driver not connected'' drv mm d = (q, mm1, d1)"
    by (cases "with_applied ''MigrationManager::migrate: driver not connected'' drv mm d") auto
  note f = with_applied_frame [OF c w]
  show ?thesis
  proof (cases q)
    case (Inl e)
    with g w have "r = Err e" "mm' = mm1" "d' = d1" by (auto simp: migrate_def)
    with f s have "committed vw d' = all_up up (take 0 todo) (vw_data vw d)" "\<not> isOk r" "mm_migrations mm' = mm_migrations mm" "vw_saved vw d' = None"
      by (simp_all add: committed_def)
    then show ?thesis by blast
  next
    case (Inr vs)
    have "set vs = vw_recs vw d" using f(4) [OF Inr] by simp
    then have td: "pending_migrations vs (mm_migrations mm) = todo" by (simp add: todo_def todo_of_def pending_migrations_def)
    obtain q2 d2 where a: "apply_all drv nows todo d1 = (q2, d2)" by fastforce
    with g w Inr td f(1) have e: "r = q2" "mm' = mm1" "d' = d2" by (simp_all add: migrate_def)
    have ok: "list_all (mig_ok vw up down) todo" using m by (simp add: todo_def todo_of_def list_all_iff)
    have "vw_saved vw d1 = None" using f(3) s by simp
    from apply_all_prefix [OF c ok this a] f(1,2) e show ?thesis by simp
  qed
qed

text \<open>C19 (error). Every outcome of \<open>migrate\<close>, whichever statement, migration, commit or rollback fails: what is committed in the database is what was there plus the first \<open>k\<close> pending
  migrations in ascending order of version, each of them applied and recorded completely and none partly. On success these are
  all pending ones, so every registered version is recorded, and no transaction is open; no transaction is left open either way when commits and rollbacks do not fail.\<close>

theorem migrate_applies_prefix:
  assumes "driver_contract drv vw" "list_all (mig_ok vw up down) (mm_migrations mm)" "vw_saved vw d = None" "migrate drv nows mm d = (r, mm', d')"
  shows "\<exists>done rest. done @ rest = sort_key mg_version (filter (\<lambda>m. mg_version m \<notin> vw_recs vw d) (mm_migrations mm))
     \<and> committed vw d' = (fold up done (vw_schema vw d), vw_recs vw d \<union> mg_version ` set done)
     \<and> (isOk r \<longrightarrow> rest = [] \<and> vw_saved vw d' = None \<and> vw_schema vw d' = fold up done (vw_schema vw d)
          \<and> vw_recs vw d' = vw_recs vw d \<union> mg_version ` set (mm_migrations mm))
     \<and> (tx_reliable drv \<longrightarrow> vw_saved vw d' = None)"
proof -
  let ?todo = "todo_of vw d (mm_migrations mm)"
  obtain k where k: "committed vw d' = all_up up (take k ?todo) (vw_data vw d)" "isOk r \<longrightarrow> k = length ?todo \<and> vw_saved vw d' = None"
    "tx_reliable drv \<longrightarrow> vw_saved vw d' = None" using migrate_prefix [OF assms] by blast
  have "vw_recs vw d \<union> mg_version ` set ?todo = vw_recs vw d \<union> mg_version ` set (mm_migrations mm)"
    by (auto simp: todo_of_def)
  then show ?thesis using k
    by (intro exI [of _ "take k ?todo"] exI [of _ "drop k ?todo"]) (auto simp: committed_def vw_data_def todo_of_def)
qed

section \<open>Rolling back\<close>

lemma addMigration_distinct:
  "distinct (map mg_version (mm_migrations mm)) \<Longrightarrow> distinct (map mg_version (mm_migrations (addMigration m mm)))"
  by (auto simp: addMigration_def list_ex_iff split: option.split)

lemma registered_distinct: "distinct (map mg_version (mm_migrations (fold addMigration ms mk_MigrationManager)))"
proof -
  have "distinct (map mg_version (mm_migrations (fold addMigration ms mm)))" if "distinct (map mg_version (mm_migrations mm))" for mm :: "'a migration_manager"
    using that by (induction ms arbitrary: mm) (auto intro: addMigration_distinct)
  then show ?thesis by (simp add: mk_MigrationManager_def)
qed

lemma find_migration_registered: "distinct (map mg_version ms) \<Longrightarrow> m \<in> set ms \<Longrightarrow> find_migration ms (mg_version m) = Some m"
  unfolding find_migration_def by (induction ms) auto

lemma rollback_loop_undoes:
  assumes c: "driver_contract drv vw" and ms: "list_all (mig_ok vw up down) ms" "distinct (map mg_version ms)"
    and inv: "\<And>m s. m \<in> set ms \<Longrightarrow> down m (up m s) = s"
    and stop: "tail = [] \<or> (\<forall>n. \<not> go_on n (hd tail))"
  shows "\<lbrakk>set todo \<subseteq> set ms; \<And>m n. m \<in> set todo \<Longrightarrow> go_on n (mg_version m); distinct (map mg_version todo); rs \<inter> mg_version ` set todo = {};
     vw_saved vw d = None; vw_data vw d = all_up up todo (s, rs);
     rollback_loop drv ms go_on n (rev (map mg_version todo) @ tail) d = (r, d'); isOk r\<rbrakk>
     \<Longrightarrow> vw_data vw d' = (s, rs) \<and> vw_saved vw d' = None"
proof (induction todo arbitrary: d n rule: rev_induct)
  case Nil
  have "rollback_loop drv ms go_on n tail d = (Ok (), d)" using stop by (cases tail) auto
  with Nil show ?case by simp
next
  case (snoc m todo)
  have m: "m \<in> set ms" using snoc.prems(1) by simp
  obtain q d1 where a: "applyMigration drv [] m False d = (q, d1)" by fastforce
  have mo: "mig_ok vw up down m" using ms(1) m by (simp add: list_all_iff)
  note at = apply_atomic [OF c mo snoc.prems(5) a]
  have st: "rollback_loop drv ms go_on n (rev (map mg_version (todo @ [m])) @ tail) d
      = (case q of Inl e \<Rightarrow> (Err e, d1) | Inr _ \<Rightarrow> rollback_loop drv ms go_on (n + 1) (rev (map mg_version todo) @ tail) d1)"
    using snoc.prems(2) [of m] find_migration_registered [OF ms(2) m] a by simp
  with snoc.prems(7,8) obtain u where q: "q = Inr u" by (cases q) auto
  have "rollback_loop drv ms go_on (n + 1) (rev (map mg_version todo) @ tail) d1 = (r, d')" using st snoc.prems(7) q by simp
  moreover have "vw_saved vw d1 = None" using at q by simp
  moreover have "vw_data vw d1 = all_up up todo (s, rs)"
    using at q snoc.prems(3,4,6) inv [OF m] by (auto simp: mig_data_def)
  ultimately show ?case using snoc.IH [of d1 "n + 1"] snoc.prems(1-4,8) by auto
qed

lemma sort_old_new:
  assumes "distinct us" "set us = set rs \<union> set vs" "set rs \<inter> set vs = {}" "distinct rs" "distinct vs" "sorted vs"
    and "\<And>x y. x \<in> set rs \<Longrightarrow> y \<in> set vs \<Longrightarrow> x \<le> (y :: 'a :: linorder)"
  shows "sort us = sort rs @ vs"
proof (rule properties_for_sort)
  show "mset (sort rs @ vs) = mset us"
    using assms(1-5) set_eq_iff_mset_eq_distinct [of "sort rs @ vs" us] by auto
qed (use assms in \<open>auto simp: sorted_append\<close>)

text \<open>C20 (roundtrip). Migrating and rolling back to \<open>t\<close>, both with success, gives the schema and the recorded versions there were, for migrations whose \<open>down\<close> undoes their \<open>up\<close>,
  provided every version recorded before is at most \<open>t\<close> and every pending one is above it.\<close>

theorem migrate_rollback_roundtrip:
  assumes c: "driver_contract drv vw" and mm: "mm = fold addMigration regs mk_MigrationManager"
    and m: "list_all (mig_ok vw up down) (mm_migrations mm)" and inv: "list_all (\<lambda>m. \<forall>s. down m (up m s) = s) (mm_migrations mm)"
    and d: "vw_saved vw d = None" and old: "\<forall>v \<in> vw_recs vw d. v \<le> t"
    and new: "list_all (\<lambda>m. mg_version m \<in> vw_recs vw d \<or> t < mg_version m) (mm_migrations mm)"
    and g: "migrate drv nows mm d = (Ok (), mm1, d1)" and b: "rollbackTo t drv mm1 d1 = (Ok (), mm2, d2)"
  shows "vw_schema vw d2 = vw_schema vw d \<and> vw_recs vw d2 = vw_recs vw d \<and> vw_saved vw d2 = None"
proof -
  let ?ms = "mm_migrations mm"
  define todo where "todo = todo_of vw d ?ms"
  have dm: "distinct (map mg_version ?ms)" unfolding mm by (rule registered_distinct)
  have ap: "mm_migrations mm1 = ?ms" "vw_saved vw d1 = None" "vw_data vw d1 = all_up up todo (vw_data vw d)"
    using migrate_prefix [OF c m d(1) g] by (auto simp: todo_def committed_def)
  have tin: "set todo \<subseteq> set ?ms" and tnew: "\<And>m. m \<in> set todo \<Longrightarrow> t < mg_version m \<and> mg_version m \<notin> vw_recs vw d"
    using new by (auto simp: todo_def todo_of_def list_all_iff)
  have tsort: "sorted (map mg_version todo)" by (simp add: todo_def todo_of_def)
  have tdist: "distinct (map mg_version todo)"
    unfolding todo_def todo_of_def using dm by (simp add: distinct_map inj_on_def)
  obtain q mm3 d3 where w: "with_applied ''MigrationManager::rollbackTo: driver not connected'' drv mm1 d1 = (q, mm3, d3)"
    by (cases "with_applied ''MigrationManager::rollbackTo: driver not connected'' drv mm1 d1") auto
  note f = with_applied_frame [OF c w]
  obtain vs where q: "q = Inr vs" using b w by (cases q) (auto simp: rollbackTo_def rollback_with_def)
  define rs where "rs = filter (\<lambda>v. v \<in> vw_recs vw d) vs"
  have vs: "set vs = vw_recs vw d \<union> mg_version ` set todo" "distinct vs" using f(4) [OF q] ap(3) by (simp_all add: vw_data_def)
  have rs: "set rs = vw_recs vw d" "distinct rs" using vs by (auto simp: rs_def)
  have srt: "sort vs = sort rs @ map mg_version todo"
    by (rule sort_old_new) (use vs rs tsort tdist old tnew in \<open>fastforce+\<close>)
  then have loop: "rollback_loop drv ?ms (\<lambda>n v. \<not> v \<le> t) 0 (rev (map mg_version todo) @ rev (sort rs)) d3 = (Ok (), d2)"
    using b w q f(1) ap(1) by (simp add: rollbackTo_def rollback_with_def rev_map split: prod.splits)
  have stop: "rev (sort rs) = [] \<or> (\<forall>n :: int. \<not> \<not> hd (rev (sort rs)) \<le> t)"
    using old rs(1) list.set_sel(1) [of "rev (sort rs)"] by auto
  have "vw_saved vw d3 = None" "vw_data vw d3 = all_up up todo (vw_schema vw d, vw_recs vw d)"
    using f(2,3) ap(2,3) by (simp_all add: vw_data_def)
  moreover have "vw_recs vw d \<inter> mg_version ` set todo = {}" using tnew by auto
  ultimately have "vw_data vw d2 = (vw_schema vw d, vw_recs vw d) \<and> vw_saved vw d2 = None"
    using rollback_loop_undoes [OF c m dm _ stop tin _ tdist _ _ _ loop] inv tnew by (fastforce simp: list_all_iff)
  then show ?thesis by (simp add: vw_data_def)
qed

section \<open>A driver that keeps the contract\<close>

record sim_db =
  sim_schema :: "string list"
  sim_recs :: "string list"
  sim_saved :: "(string list \<times> string list) option"

definition sim_update :: "string \<Rightarrow> qvariant list \<Rightarrow> sim_db \<Rightarrow> int result \<times> sim_db" where
  "sim_update sql params d =
     (if sql = create_sql then (Ok 0, d)
      else if sql = insert_sql then (Ok 1, d\<lparr>sim_recs := toString (hd params) # sim_recs d\<rparr>)
      else if sql = delete_sql then (Ok 1, d\<lparr>sim_recs := filter (\<lambda>v. v \<noteq> toString (hd params)) (sim_recs d)\<rparr>)
      else (Err (mk_error EC_QueryFailed sql), d))"

definition sim_driver :: "sim_db driver" where
  "sim_driver = \<lparr>dr_isConnected = (\<lambda>d. True), dr_executeUpdate = sim_update,
     dr_executeQuery = (\<lambda>sql params d. Ok (map (\<lambda>v. [(''version'', QText v)]) (remdups (sim_recs d)))),
     dr_beginTransaction = (\<lambda>d. (Ok (), d\<lparr>sim_saved := Some (sim_schema d, sim_recs d)\<rparr>)),
     dr_commit = (\<lambda>d. (Ok (), d\<lparr>sim_saved := None\<rparr>)),
     dr_rollback = (\<lambda>d. case sim_saved d of None \<Rightarrow> (Ok (), d)
                        | Some (s, rs) \<Rightarrow> (Ok (), d\<lparr>sim_schema := s, sim_recs := rs, sim_saved := None\<rparr>))\<rparr>"

definition sim_view :: "(sim_db, string list) db_view" where
  "sim_view = \<lparr>vw_schema = sim_schema, vw_recs = set \<circ> sim_recs, vw_saved = map_option (apsnd set) \<circ> sim_saved\<rparr>"

lemma sql_differ: "insert_sql \<noteq> create_sql" "delete_sql \<noteq> create_sql" "delete_sql \<noteq> insert_sql"
  by (simp_all add: insert_sql_def create_sql_def delete_sql_def)

lemma sim_rows: "row_versions (map (\<lambda>v. [(''version'', QText v)]) vs) = vs"
  by (induction vs) (simp_all add: row_versions_def)

lemma sim_driver_contract: "driver_contract sim_driver sim_view"
  unfolding driver_contract_def
proof (intro conjI)
  show "tx_contract sim_driver sim_view" by (auto simp: tx_contract_def sim_driver_def sim_view_def vw_data_def committed_def Let_def)
  show "table_contract sim_driver sim_view"
    by (auto simp: table_contract_def sim_driver_def sim_view_def vw_data_def sim_update_def sql_differ sim_rows)
qed

text \<open>A migration that creates a table and drops it again.\<close>

definition table_migration :: "string \<Rightarrow> string \<Rightarrow> sim_db migration" where
  "table_migration version tbl = \<lparr>mg_version = version, mg_description = tbl, mg_up = (\<lambda>d. (Ok (), d\<lparr>sim_schema := tbl # sim_schema d\<rparr>)),
     mg_down = (\<lambda>d. (Ok (), d\<lparr>sim_schema := tl (sim_schema d)\<rparr>))\<rparr>"

definition demo_mm :: "sim_db migration_manager" where
  "demo_mm = fold addMigration [Some (table_migration ''003'' ''mails''), Some (table_migration ''002'' ''users'')] mk_MigrationManager"

definition demo_db :: sim_db where
  "demo_db = \<lparr>sim_schema = [''base''], sim_recs = [''001''], sim_saved = None\<rparr>"

lemma demo_mm_migrations: "mm_migrations demo_mm = [table_migration ''003'' ''mails'', table_migration ''002'' ''users'']"
  by (simp add: demo_mm_def addMigration_def mk_MigrationManager_def table_migration_def)

lemma demo_mig_ok:
  "list_all (mig_ok sim_view (\<lambda>m s. mg_description m # s) (\<lambda>m. tl)) (mm_migrations demo_mm)"
  by (simp add: demo_mm_migrations mig_ok_def table_migration_def sim_view_def vw_data_def)

lemma demo_migrated: "\<exists>mm1 d1 mm2 d2. migrate sim_driver [] demo_mm demo_db = (Ok (), mm1, d1) \<and> rollbackTo ''001'' sim_driver mm1 d1 = (Ok (), mm2, d2)"
proof -
  have "fst (migrate sim_driver [] demo_mm demo_db) = Ok ()"
    "fst (case migrate sim_driver [] demo_mm demo_db of (r, mm1, d1) \<Rightarrow> rollbackTo ''001'' sim_driver mm1 d1) = Ok ()"
    by code_simp+
  then show ?thesis by (metis (no_types, lifting) case_prod_conv prod.collapse)
qed

theorem migrate_applies_prefix_witness:
  "\<exists>mm1 d1. migrate sim_driver [] demo_mm demo_db = (Ok (), mm1, d1) \<and> vw_saved sim_view d1 = None \<and> vw_recs sim_view d1 = {''001'', ''002'', ''003''}"
proof -
  obtain mm1 d1 where g: "migrate sim_driver [] demo_mm demo_db = (Ok (), mm1, d1)" using demo_migrated by blast
  have "vw_saved sim_view demo_db = None" by (simp add: sim_view_def demo_db_def)
  from migrate_applies_prefix [OF sim_driver_contract demo_mig_ok this g] g show ?thesis
    by (auto simp: demo_mm_migrations table_migration_def sim_view_def demo_db_def)
qed

theorem migrate_rollback_roundtrip_witness:
  "\<exists>mm1 d1 mm2 d2. migrate sim_driver [] demo_mm demo_db = (Ok (), mm1, d1) \<and> rollbackTo ''001'' sim_driver mm1 d1 = (Ok (), mm2, d2)
     \<and> vw_schema sim_view d2 = [''base'']"
proof -
  obtain mm1 d1 mm2 d2 where g: "migrate sim_driver [] demo_mm demo_db = (Ok (), mm1, d1)" "rollbackTo ''001'' sim_driver mm1 d1 = (Ok (), mm2, d2)"
    using demo_migrated by blast
  have d: "vw_saved sim_view demo_db = None" "\<forall>v \<in> vw_recs sim_view demo_db. v \<le> ''001''"
    by (simp_all add: sim_view_def demo_db_def)
  have n: "list_all (\<lambda>m. mg_version m \<in> vw_recs sim_view demo_db \<or> ''001'' < mg_version m) (mm_migrations demo_mm)"
    by (simp add: demo_mm_migrations table_migration_def sim_view_def demo_db_def)
  have i: "list_all (\<lambda>m. \<forall>s. tl (mg_description m # s) = s) (mm_migrations demo_mm)" by (simp add: list_all_iff)
  show ?thesis using migrate_rollback_roundtrip [OF sim_driver_contract demo_mm_def demo_mig_ok i d n g] g by (auto simp: sim_view_def demo_db_def)
qed

text \<open>A failed commit is returned without a rollback: the transaction stays open, and the next \<open>migrate\<close> cannot begin one.\<close>

definition commit_fails :: "sim_db driver" where
  "commit_fails = sim_driver\<lparr>dr_commit := (\<lambda>d. (Err (mk_error EC_DatabaseError ''commit''), d)),
     dr_beginTransaction := (\<lambda>d. if sim_saved d = None then dr_beginTransaction sim_driver d else (Err (mk_error EC_DatabaseError ''begin''), d))\<rparr>"

theorem migrate_failed_commit_leaves_transaction:
  "case migrate commit_fails [] demo_mm demo_db of (r, mm1, d1) \<Rightarrow> \<not> isOk r \<and> sim_saved d1 \<noteq> None
     \<and> err_message (projl (fst (migrate commit_fails [] mm1 d1))) = ''begin''"
  by code_simp

end
