(* ===== verification/SK_Heartbeat.thy ===== *)
theory SK_Heartbeat
  imports SK_Prelude
begin

text \<open>
  The heartbeat policy of \<^verbatim>\<open>src/soul/network/policy/heartbeat_policy.cpp\<close>. Its two repeating \<^verbatim>\<open>QTimer\<close>s are
  the absolute times (in milliseconds) of their next expiry, \<open>None\<close> when stopped. \<open>hb_next\<close> is the event loop: it
  runs the slot of the timer that expires first (on a tie the beat, an order the theorems do not rely on). The weak pointer to the network is the flag \<open>hb_alive\<close>.
\<close>

section \<open>State and operations\<close>

record heartbeat =
  hb_interval :: int
  hb_timeout :: int
  hb_timer :: "int option"
  hb_timeoutTimer :: "int option"
  hb_api :: string
  hb_alive :: bool

definition mk_HeartbeatPolicy :: "int \<Rightarrow> int \<Rightarrow> heartbeat" where
  "mk_HeartbeatPolicy intervalMs timeoutMs = \<lparr>hb_interval = intervalMs, hb_timeout = timeoutMs, hb_timer = None,
     hb_timeoutTimer = None, hb_api = [], hb_alive = False\<rparr>"

definition hb_start :: "int \<Rightarrow> heartbeat \<Rightarrow> heartbeat" where
  "hb_start now hb = hb\<lparr>hb_alive := True, hb_timer := Some (now + hb_interval hb)\<rparr>"

definition hb_stop :: "heartbeat \<Rightarrow> heartbeat" where
  "hb_stop hb = hb\<lparr>hb_timer := None, hb_timeoutTimer := None\<rparr>"

definition hb_setInterval :: "int \<Rightarrow> int \<Rightarrow> heartbeat \<Rightarrow> heartbeat" where
  "hb_setInterval now ms hb =
     (let hb1 = hb\<lparr>hb_interval := ms\<rparr> in if hb_timer hb \<noteq> None then hb1\<lparr>hb_timer := Some (now + ms)\<rparr> else hb1)"

definition hb_setTimeout :: "int \<Rightarrow> heartbeat \<Rightarrow> heartbeat" where
  "hb_setTimeout ms hb = hb\<lparr>hb_timeout := ms\<rparr>"

definition setHeartbeatMessage :: "string \<Rightarrow> heartbeat \<Rightarrow> heartbeat" where
  "setHeartbeatMessage api hb = hb\<lparr>hb_api := api\<rparr>"

text \<open>The flag of the result tells whether a message goes out.\<close>

definition sendHeartbeat :: "int \<Rightarrow> heartbeat \<Rightarrow> bool \<times> heartbeat" where
  "sendHeartbeat now hb =
     (if \<not> hb_alive hb then (False, hb) else (hb_api hb \<noteq> [], hb\<lparr>hb_timeoutTimer := Some (now + hb_timeout hb)\<rparr>))"

definition hb_onResponse :: "heartbeat \<Rightarrow> heartbeat" where
  "hb_onResponse hb = hb\<lparr>hb_timeoutTimer := None\<rparr>"

section \<open>The event loop\<close>

datatype hb_event = Beat bool | HeartbeatTimeout

definition fire_beat :: "int \<Rightarrow> heartbeat \<Rightarrow> hb_event \<times> heartbeat" where
  "fire_beat t hb = (case sendHeartbeat t (hb\<lparr>hb_timer := Some (t + hb_interval hb)\<rparr>) of (sent, hb') \<Rightarrow> (Beat sent, hb'))"

definition fire_timeout :: "int \<Rightarrow> heartbeat \<Rightarrow> hb_event \<times> heartbeat" where
  "fire_timeout t hb = (HeartbeatTimeout, hb\<lparr>hb_timeoutTimer := Some (t + hb_timeout hb)\<rparr>)"

definition hb_next :: "heartbeat \<Rightarrow> (int \<times> hb_event \<times> heartbeat) option" where
  "hb_next hb =
     (case (hb_timer hb, hb_timeoutTimer hb) of
        (None, None) \<Rightarrow> None
      | (Some t, None) \<Rightarrow> Some (t, fire_beat t hb)
      | (None, Some u) \<Rightarrow> Some (u, fire_timeout u hb)
      | (Some t, Some u) \<Rightarrow> if t \<le> u then Some (t, fire_beat t hb) else Some (u, fire_timeout u hb))"

text \<open>The first \<open>n\<close> expiries when no response arrives.\<close>

fun hb_run :: "nat \<Rightarrow> heartbeat \<Rightarrow> (int \<times> hb_event) list" where
  "hb_run 0 hb = []"
| "hb_run (Suc n) hb = (case hb_next hb of None \<Rightarrow> [] | Some (t, e, hb') \<Rightarrow> (t, e) # hb_run n hb')"

lemmas hb_defs = hb_next_def fire_beat_def fire_timeout_def sendHeartbeat_def

section \<open>Missed and spurious timeouts\<close>

text \<open>A started policy whose timeout is longer than its interval rearms the timeout before it expires.\<close>

lemma rearmed_run:
  assumes "hb_alive hb" "hb_timer hb = Some t" "hb_interval hb < hb_timeout hb"
    and "case hb_timeoutTimer hb of None \<Rightarrow> True | Some u \<Rightarrow> t < u"
  shows "map snd (hb_run n hb) = replicate n (Beat (hb_api hb \<noteq> []))"
  using assms
proof (induction n arbitrary: hb t)
  case (Suc n)
  define hb' where "hb' = hb\<lparr>hb_timer := Some (t + hb_interval hb), hb_timeoutTimer := Some (t + hb_timeout hb)\<rparr>"
  have "hb_next hb = Some (t, Beat (hb_api hb \<noteq> []), hb')"
    using Suc.prems by (auto simp: hb_defs hb'_def split: option.splits)
  moreover have "map snd (hb_run n hb') = replicate n (Beat (hb_api hb' \<noteq> []))"
    by (rule Suc.IH [of _ "t + hb_interval hb"]) (use Suc.prems in \<open>simp_all add: hb'_def\<close>)
  ultimately show ?case by (simp add: hb'_def)
qed simp

text \<open>The heartbeat as the connection manager creates it, with no message to send: when the timeout is shorter than the
  interval, the loss of the connection is reported right after the first beat, though nothing was sent and the peer had nothing to
  answer; when it is longer, every beat rearms the timeout and the loss is never reported, whatever time passes without an answer,
  a message being set or not.\<close>

theorem heartbeat_timeout_is_decided_by_config:
  assumes "0 < timeoutMs" "0 < intervalMs"
  shows "(timeoutMs < intervalMs \<longrightarrow>
            hb_run 2 (hb_start now (mk_HeartbeatPolicy intervalMs timeoutMs))
              = [(now + intervalMs, Beat False), (now + intervalMs + timeoutMs, HeartbeatTimeout)])
       \<and> (intervalMs < timeoutMs \<longrightarrow>
            HeartbeatTimeout \<notin> set (map snd (hb_run n (hb_start now (setHeartbeatMessage api (mk_HeartbeatPolicy intervalMs timeoutMs))))))"
proof (intro conjI impI)
  show "hb_run 2 (hb_start now (mk_HeartbeatPolicy intervalMs timeoutMs))
      = [(now + intervalMs, Beat False), (now + intervalMs + timeoutMs, HeartbeatTimeout)]" if "timeoutMs < intervalMs"
    using that assms by (simp add: numeral_2_eq_2 hb_start_def mk_HeartbeatPolicy_def hb_defs)
  assume "intervalMs < timeoutMs"
  then have "map snd (hb_run n (hb_start now (setHeartbeatMessage api (mk_HeartbeatPolicy intervalMs timeoutMs)))) = replicate n (Beat (api \<noteq> []))"
    by (subst rearmed_run [of _ "now + intervalMs"]) (simp_all add: hb_start_def mk_HeartbeatPolicy_def setHeartbeatMessage_def)
  then show "HeartbeatTimeout \<notin> set (map snd (hb_run n (hb_start now (setHeartbeatMessage api (mk_HeartbeatPolicy intervalMs timeoutMs)))))"
    by auto
qed

theorem heartbeat_timeout_is_decided_by_config_witness:
  "hb_run 2 (hb_start 0 (mk_HeartbeatPolicy 30000 10000)) = [(30000, Beat False), (40000, HeartbeatTimeout)]"
  using heartbeat_timeout_is_decided_by_config [of 10000 30000 0] by simp

end
