(* ===== verification/SK_ConnectionManager.thy ===== *)
theory SK_ConnectionManager
  imports SK_Heartbeat
begin

text \<open>
  The client-side connection manager of \<^verbatim>\<open>src/soul/network/connection_manager.cpp\<close>: registration, connecting,
  polling, heartbeat time-outs and delayed reconnection.

  A network (\<^verbatim>\<open>shared_ptr<INetwork>\<close>) is a value of an arbitrary type; what it reports is an argument of the poll. What the
  manager does to its surroundings is recorded in order in \<open>cm_log\<close>: calls of the network, the Qt signal, the message
  to the event bus (its fields, before they are serialised). A \<^verbatim>\<open>QTimer::singleShot\<close> adds its name and delay to \<open>cm_pending\<close>.
  The conversion of a double to \<^verbatim>\<open>long long\<close> and the jittered product belong to the floating-point unit and are
  parameters.
\<close>

section \<open>State\<close>

datatype ManagedConnectionState = MC_Disconnected | MC_Connecting | MC_Connected | MC_Reconnecting | MC_Error

record connection_config =
  cc_name :: string
  cc_url :: string
  cc_autoReconnect :: bool
  cc_maxRetries :: int
  cc_baseInterval :: int
  cc_maxInterval :: int
  cc_enableHeartbeat :: bool
  cc_heartbeatIntervalMs :: int
  cc_heartbeatTimeoutMs :: int

definition default_connection_config :: connection_config where
  "default_connection_config = \<lparr>cc_name = [], cc_url = [], cc_autoReconnect = True, cc_maxRetries = 0, cc_baseInterval = 1000,
     cc_maxInterval = 60000, cc_enableHeartbeat = False, cc_heartbeatIntervalMs = 30000, cc_heartbeatTimeoutMs = 10000\<rparr>"

text \<open>A poll timer is active or not and has one slot for every time it was started.\<close>

record poll_timer =
  pt_active :: bool
  pt_slots :: nat

record 'n managed_conn =
  mc_network :: "'n option"
  mc_config :: connection_config
  mc_state :: ManagedConnectionState
  mc_pollTimer :: "poll_timer option"
  mc_heartbeat :: "heartbeat option"
  mc_retryCount :: int

datatype 'n cm_effect =
    StateChanged string ManagedConnectionState ManagedConnectionState
  | Published string ManagedConnectionState ManagedConnectionState string
  | ConnectTo 'n string
  | Disconnect 'n

record 'n conn_manager =
  cm_eventBus :: bool
  cm_connections :: "(string \<times> 'n managed_conn) list"
  cm_pending :: "(string \<times> int) list"
  cm_log :: "'n cm_effect list"

definition mk_ConnectionManager :: "bool \<Rightarrow> 'n conn_manager" where
  "mk_ConnectionManager eventBus = \<lparr>cm_eventBus = eventBus, cm_connections = [], cm_pending = [], cm_log = []\<rparr>"

text \<open>Access through an iterator and through a reference to the entry of a name.\<close>

definition cm_find :: "string \<Rightarrow> 'n conn_manager \<Rightarrow> 'n managed_conn option" where
  "cm_find name s = map_of (cm_connections s) name"

definition cm_upd :: "string \<Rightarrow> ('n managed_conn \<Rightarrow> 'n managed_conn) \<Rightarrow> 'n conn_manager \<Rightarrow> 'n conn_manager" where
  "cm_upd name f s = s\<lparr>cm_connections := map (\<lambda>(k, mc). (k, if k = name then f mc else mc)) (cm_connections s)\<rparr>"

definition cm_emit :: "'n cm_effect list \<Rightarrow> 'n conn_manager \<Rightarrow> 'n conn_manager" where
  "cm_emit es s = s\<lparr>cm_log := cm_log s @ es\<rparr>"

section \<open>Internal operations\<close>

definition cm_setState :: "string \<Rightarrow> ManagedConnectionState \<Rightarrow> string \<Rightarrow> 'n conn_manager \<Rightarrow> 'n conn_manager" where
  "cm_setState name newState message s =
     (case cm_find name s of
        None \<Rightarrow> s
      | Some mc \<Rightarrow>
          let oldState = mc_state mc in
          if oldState = newState then s
          else cm_emit (StateChanged name newState oldState #
                        (if cm_eventBus s then [Published name newState oldState message] else []))
                 (cm_upd name (\<lambda>mc. mc\<lparr>mc_state := newState\<rparr>) s))"

definition startPolling :: "string \<Rightarrow> 'n conn_manager \<Rightarrow> 'n conn_manager" where
  "startPolling name = cm_upd name (\<lambda>mc. mc\<lparr>mc_pollTimer :=
     Some \<lparr>pt_active = True, pt_slots = (case mc_pollTimer mc of None \<Rightarrow> 1 | Some pt \<Rightarrow> pt_slots pt + 1)\<rparr>\<rparr>)"

definition stopPolling :: "string \<Rightarrow> 'n conn_manager \<Rightarrow> 'n conn_manager" where
  "stopPolling name = cm_upd name (\<lambda>mc. mc\<lparr>mc_pollTimer := map_option (\<lambda>pt. pt\<lparr>pt_active := False\<rparr>) (mc_pollTimer mc),
     mc_heartbeat := None\<rparr>)"

text \<open>
  \<open>cast\<close> turns the double into a 64-bit integer, \<open>jitter\<close> gives the truncated product with the random factor.
\<close>

definition nextRetryInterval :: "(int \<Rightarrow> int) \<Rightarrow> (int \<Rightarrow> int) \<Rightarrow> int \<Rightarrow> connection_config \<Rightarrow> int" where
  "nextRetryInterval cast jitter retryCount config =
     (let intervalMs = cast (cc_baseInterval config * 2 ^ nat retryCount);
          intervalMs' = (if intervalMs > cc_maxInterval config then cc_maxInterval config else intervalMs);
          jitteredMs = jitter intervalMs'
      in if jitteredMs < 100 then 100 else jitteredMs)"

definition scheduleReconnect :: "(int \<Rightarrow> int) \<Rightarrow> (int \<Rightarrow> int) \<Rightarrow> string \<Rightarrow> 'n conn_manager \<Rightarrow> 'n conn_manager" where
  "scheduleReconnect cast jitter name s =
     (case cm_find name s of
        None \<Rightarrow> s
      | Some mc \<Rightarrow>
          if cc_maxRetries (mc_config mc) > 0 \<and> mc_retryCount mc \<ge> cc_maxRetries (mc_config mc)
          then cm_setState name MC_Error [] s
          else let s1 = cm_setState name MC_Reconnecting [] s;
                   interval = nextRetryInterval cast jitter (mc_retryCount mc) (mc_config mc);
                   s2 = cm_upd name (\<lambda>mc. mc\<lparr>mc_retryCount := mc_retryCount mc + 1\<rparr>) s1
               in s2\<lparr>cm_pending := cm_pending s2 @ [(name, interval)]\<rparr>)"

definition tryReconnect :: "string \<Rightarrow> 'n conn_manager \<Rightarrow> 'n conn_manager" where
  "tryReconnect name s =
     (case cm_find name s of
        None \<Rightarrow> s
      | Some mc \<Rightarrow>
          if mc_state mc \<noteq> MC_Reconnecting then s
          else case mc_network mc of None \<Rightarrow> s | Some n \<Rightarrow> cm_emit [ConnectTo n (cc_url (mc_config mc))] s)"

definition onHeartbeatTimeout :: "(int \<Rightarrow> int) \<Rightarrow> (int \<Rightarrow> int) \<Rightarrow> string \<Rightarrow> 'n conn_manager \<Rightarrow> 'n conn_manager" where
  "onHeartbeatTimeout cast jitter name s =
     (case cm_find name s of
        None \<Rightarrow> s
      | Some mc \<Rightarrow>
          let s1 = cm_upd name (\<lambda>mc. mc\<lparr>mc_heartbeat := None\<rparr>) s;
              s2 = (case mc_network mc of None \<Rightarrow> s1 | Some n \<Rightarrow> cm_emit [Disconnect n] s1);
              s3 = cm_setState name MC_Disconnected [] s2
          in if cc_autoReconnect (mc_config mc) then scheduleReconnect cast jitter name s3 else s3)"

text \<open>The heartbeat is created and started when a connection comes up, if it is configured and not there.\<close>

definition enable_heartbeat :: "int \<Rightarrow> 'n managed_conn \<Rightarrow> 'n managed_conn" where
  "enable_heartbeat now mc =
     (if cc_enableHeartbeat (mc_config mc) \<and> mc_heartbeat mc = None
      then mc\<lparr>mc_heartbeat := Some (hb_start now (mk_HeartbeatPolicy (cc_heartbeatIntervalMs (mc_config mc))
                                                    (cc_heartbeatTimeoutMs (mc_config mc))))\<rparr>
      else mc)"

definition checkConnection :: "(int \<Rightarrow> int) \<Rightarrow> (int \<Rightarrow> int) \<Rightarrow> int \<Rightarrow> bool \<Rightarrow> string \<Rightarrow> 'n conn_manager \<Rightarrow> 'n conn_manager" where
  "checkConnection cast jitter now connected name s =
     (case cm_find name s of
        None \<Rightarrow> s
      | Some mc \<Rightarrow>
          if mc_network mc = None then s
          else case mc_state mc of
            MC_Connecting \<Rightarrow>
              if connected then cm_upd name (enable_heartbeat now) (cm_setState name MC_Connected [] s) else s
          | MC_Connected \<Rightarrow>
              if connected then s
              else let s1 = cm_setState name MC_Disconnected [] s
                   in if cc_autoReconnect (mc_config mc) then scheduleReconnect cast jitter name s1 else s1
          | MC_Reconnecting \<Rightarrow>
              if connected then cm_upd name (enable_heartbeat now) (cm_setState name MC_Connected [] s) else s
          | _ \<Rightarrow> s)"

section \<open>Public operations\<close>

definition registerConnection :: "string \<Rightarrow> 'n option \<Rightarrow> connection_config \<Rightarrow> 'n conn_manager \<Rightarrow> 'n conn_manager" where
  "registerConnection name network config s =
     (if network = None then s
      else let s1 = (if cm_find name s \<noteq> None
                     then (stopPolling name s)\<lparr>cm_connections := AList.delete name (cm_connections (stopPolling name s))\<rparr> else s)
           in s1\<lparr>cm_connections := (name, \<lparr>mc_network = network, mc_config = config, mc_state = MC_Disconnected,
                   mc_pollTimer = None, mc_heartbeat = None, mc_retryCount = 0\<rparr>) # cm_connections s1\<rparr>)"

definition unregisterConnection :: "string \<Rightarrow> 'n conn_manager \<Rightarrow> 'n conn_manager" where
  "unregisterConnection name s =
     (case cm_find name s of
        None \<Rightarrow> s
      | Some mc \<Rightarrow>
          let s1 = stopPolling name s;
              s2 = (case mc_network mc of None \<Rightarrow> s1 | Some n \<Rightarrow> cm_emit [Disconnect n] s1)
          in s2\<lparr>cm_connections := AList.delete name (cm_connections s2)\<rparr>)"

definition cm_connect :: "string \<Rightarrow> 'n conn_manager \<Rightarrow> 'n conn_manager" where
  "cm_connect name s =
     (case cm_find name s of
        None \<Rightarrow> s
      | Some mc \<Rightarrow>
          if mc_state mc = MC_Connected \<or> mc_state mc = MC_Connecting then s
          else case mc_network mc of
            None \<Rightarrow> s
          | Some n \<Rightarrow>
              startPolling name (cm_emit [ConnectTo n (cc_url (mc_config mc))]
                (cm_setState name MC_Connecting [] (cm_upd name (\<lambda>mc. mc\<lparr>mc_retryCount := 0\<rparr>) s))))"

definition connectionNames :: "'n conn_manager \<Rightarrow> string list" where
  "connectionNames s = map fst (cm_connections s)"

text \<open>\<open>connectAll\<close> runs the body of \<open>connect\<close> on every entry.\<close>

definition connectAll :: "'n conn_manager \<Rightarrow> 'n conn_manager" where
  "connectAll s = fold cm_connect (connectionNames s) s"

definition cm_disconnect :: "string \<Rightarrow> 'n conn_manager \<Rightarrow> 'n conn_manager" where
  "cm_disconnect name s =
     (case cm_find name s of
        None \<Rightarrow> s
      | Some mc \<Rightarrow>
          let s1 = stopPolling name s;
              s2 = (case mc_network mc of None \<Rightarrow> s1 | Some n \<Rightarrow> cm_emit [Disconnect n] s1)
          in cm_setState name MC_Disconnected [] (cm_upd name (\<lambda>mc. mc\<lparr>mc_retryCount := 0\<rparr>) s2))"

definition disconnectAll :: "'n conn_manager \<Rightarrow> 'n conn_manager" where
  "disconnectAll s = fold cm_disconnect (connectionNames s) s"

definition cm_state :: "string \<Rightarrow> 'n conn_manager \<Rightarrow> ManagedConnectionState" where
  "cm_state name s = (case cm_find name s of None \<Rightarrow> MC_Disconnected | Some mc \<Rightarrow> mc_state mc)"

definition cm_isConnected :: "string \<Rightarrow> 'n conn_manager \<Rightarrow> bool" where
  "cm_isConnected name s = (case cm_find name s of None \<Rightarrow> False | Some mc \<Rightarrow> mc_state mc = MC_Connected)"

definition activeConnectionCount :: "'n conn_manager \<Rightarrow> nat" where
  "activeConnectionCount s = length (filter (\<lambda>(k, mc). mc_state mc = MC_Connected) (cm_connections s))"

section \<open>Executions\<close>

text \<open>
  What can happen: a call, a tick of an active poll timer (all its slots run, each with its own reading of the network and
  its own random factor), a heartbeat time-out, the expiry of the \<open>i\<close>-th delayed reconnection.
\<close>

datatype 'n cm_op =
    Register string "'n option" connection_config
  | Unregister string
  | ConnectAll
  | DisconnectAll
  | Connect string
  | DisconnectOp string
  | PollTick string int "(bool \<times> (int \<Rightarrow> int)) list"
  | HeartbeatLost string "int \<Rightarrow> int"
  | Expire nat

fun cm_exec :: "(int \<Rightarrow> int) \<Rightarrow> 'n cm_op \<Rightarrow> 'n conn_manager \<Rightarrow> 'n conn_manager" where
  "cm_exec cast (Register name network config) s = registerConnection name network config s"
| "cm_exec cast (Unregister name) s = unregisterConnection name s"
| "cm_exec cast ConnectAll s = connectAll s"
| "cm_exec cast DisconnectAll s = disconnectAll s"
| "cm_exec cast (Connect name) s = cm_connect name s"
| "cm_exec cast (DisconnectOp name) s = cm_disconnect name s"
| "cm_exec cast (PollTick name now readings) s =
     (case Option.bind (cm_find name s) mc_pollTimer of
        Some pt \<Rightarrow>
          if pt_active pt \<and> length readings = pt_slots pt
          then fold (\<lambda>(connected, jitter). checkConnection cast jitter now connected name) readings s else s
      | None \<Rightarrow> s)"
| "cm_exec cast (HeartbeatLost name jitter) s =
     (if Option.bind (cm_find name s) mc_heartbeat \<noteq> None then onHeartbeatTimeout cast jitter name s else s)"
| "cm_exec cast (Expire i) s =
     (if i < length (cm_pending s)
      then tryReconnect (fst (cm_pending s ! i)) (s\<lparr>cm_pending := take i (cm_pending s) @ drop (Suc i) (cm_pending s)\<rparr>)
      else s)"

section \<open>The specification of the signals\<close>

text \<open>
  What is to be signalled when: \<open>m\<close> gives the state of every registered connection. Registering and unregistering are silent, every other change of a state is signalled, as a triple of the name, the new and
  the old state. A lost connection is signalled as Disconnected before anything else; then it may go on to Reconnecting, or to Error when its retries are used up.
\<close>

type_synonym mc_change = "string \<times> ManagedConnectionState \<times> ManagedConnectionState"
type_synonym mc_states = "string \<rightharpoonup> ManagedConnectionState"

definition signalled :: "string \<Rightarrow> ManagedConnectionState \<Rightarrow> ManagedConnectionState \<Rightarrow> mc_change list" where
  "signalled n new old = (if new = old then [] else [(n, new, old)])"

definition spec_same :: "mc_states \<Rightarrow> mc_change list \<Rightarrow> mc_states \<Rightarrow> bool" where
  "spec_same m es m' \<longleftrightarrow> es = [] \<and> m' = m"

definition spec_connect :: "string \<Rightarrow> mc_states \<Rightarrow> mc_change list \<Rightarrow> mc_states \<Rightarrow> bool" where
  "spec_connect n m es m' \<longleftrightarrow> (case m n of
      None \<Rightarrow> spec_same m es m'
    | Some old \<Rightarrow> if old \<in> {MC_Connected, MC_Connecting} then spec_same m es m'
                  else es = [(n, MC_Connecting, old)] \<and> m' = m(n \<mapsto> MC_Connecting))"

definition spec_disconnect :: "string \<Rightarrow> mc_states \<Rightarrow> mc_change list \<Rightarrow> mc_states \<Rightarrow> bool" where
  "spec_disconnect n m es m' \<longleftrightarrow> (case m n of
      None \<Rightarrow> spec_same m es m'
    | Some old \<Rightarrow> es = signalled n MC_Disconnected old \<and> m' = m(n \<mapsto> MC_Disconnected))"

definition spec_lost :: "string \<Rightarrow> mc_states \<Rightarrow> mc_change list \<Rightarrow> mc_states \<Rightarrow> bool" where
  "spec_lost n m es m' \<longleftrightarrow> (\<exists>old fin. m n = Some old \<and> fin \<in> {MC_Disconnected, MC_Reconnecting, MC_Error}
     \<and> es = signalled n MC_Disconnected old @ signalled n fin MC_Disconnected \<and> m' = m(n \<mapsto> fin))"

text \<open>One reading of the network by a poll.\<close>

definition spec_check :: "string \<Rightarrow> bool \<Rightarrow> mc_states \<Rightarrow> mc_change list \<Rightarrow> mc_states \<Rightarrow> bool" where
  "spec_check n connected m es m' \<longleftrightarrow> (case m n of
      None \<Rightarrow> spec_same m es m'
    | Some old \<Rightarrow>
        if connected \<and> old \<in> {MC_Connecting, MC_Reconnecting} then es = [(n, MC_Connected, old)] \<and> m' = m(n \<mapsto> MC_Connected)
        else if \<not> connected \<and> old = MC_Connected then spec_lost n m es m'
        else spec_same m es m')"

text \<open>The specification of an operation sees, besides the state of a connection, the number of slots of its running poll timer and whether it has a heartbeat; it constrains the state only.\<close>

type_synonym mc_view = "string \<rightharpoonup> ManagedConnectionState \<times> nat \<times> bool"

definition states_of :: "mc_view \<Rightarrow> mc_states" where
  "states_of a = (\<lambda>n. map_option fst (a n))"

fun cm_spec :: "'n cm_op \<Rightarrow> mc_view \<Rightarrow> mc_change list \<Rightarrow> mc_view \<Rightarrow> bool" where
  "cm_spec (Register n net config) a es b \<longleftrightarrow> es = [] \<and> states_of b = (if net = None then states_of a else (states_of a)(n \<mapsto> MC_Disconnected))"
| "cm_spec (Unregister n) a es b \<longleftrightarrow> es = [] \<and> states_of b = (states_of a)(n := None)"
| "cm_spec ConnectAll a es b \<longleftrightarrow> (\<exists>ns. set ns = dom a \<and> trace_run spec_connect ns (states_of a) es (states_of b))"
| "cm_spec DisconnectAll a es b \<longleftrightarrow> (\<exists>ns. set ns = dom a \<and> trace_run spec_disconnect ns (states_of a) es (states_of b))"
| "cm_spec (Connect n) a es b \<longleftrightarrow> spec_connect n (states_of a) es (states_of b)"
| "cm_spec (DisconnectOp n) a es b \<longleftrightarrow> spec_disconnect n (states_of a) es (states_of b)"
| "cm_spec (PollTick n now readings) a es b \<longleftrightarrow>
     (if \<exists>st hb. a n = Some (st, length readings, hb) then trace_run (\<lambda>r. spec_check n (fst r)) readings (states_of a) es (states_of b)
      else spec_same (states_of a) es (states_of b))"
| "cm_spec (HeartbeatLost n jitter) a es b \<longleftrightarrow>
     (if \<exists>st k. a n = Some (st, k, True) then spec_lost n (states_of a) es (states_of b) else spec_same (states_of a) es (states_of b))"
| "cm_spec (Expire i) a es b \<longleftrightarrow> spec_same (states_of a) es (states_of b)"

text \<open>The view of a manager, and what its log says to the listeners of the signal and to the event bus.\<close>

definition timer_slots :: "poll_timer option \<Rightarrow> nat" where
  "timer_slots t = (case t of None \<Rightarrow> 0 | Some pt \<Rightarrow> if pt_active pt then pt_slots pt else 0)"

definition cm_view :: "'n conn_manager \<Rightarrow> mc_view" where
  "cm_view s = (\<lambda>n. map_option (\<lambda>mc. (mc_state mc, timer_slots (mc_pollTimer mc), mc_heartbeat mc \<noteq> None)) (cm_find n s))"

definition cm_states :: "'n conn_manager \<Rightarrow> mc_states" where
  "cm_states s = (\<lambda>n. map_option mc_state (cm_find n s))"

fun changes :: "'n cm_effect list \<Rightarrow> mc_change list" where
  "changes [] = []"
| "changes (StateChanged n new old # es) = (n, new, old) # changes es"
| "changes (_ # es) = changes es"

fun published :: "'n cm_effect list \<Rightarrow> mc_change list" where
  "published [] = []"
| "published (Published n new old msg # es) = (n, new, old) # published es"
| "published (_ # es) = published es"

text \<open>A specification of the signals, read on the log of a manager with or without a bus.\<close>

definition logged :: "('a \<Rightarrow> mc_change list \<Rightarrow> 'a \<Rightarrow> bool) \<Rightarrow> bool \<times> 'a \<Rightarrow> 'n cm_effect list \<Rightarrow> bool \<times> 'a \<Rightarrow> bool" where
  "logged spec a es b \<longleftrightarrow> fst b = fst a \<and> published es = (if fst a then changes es else []) \<and> spec (snd a) (changes es) (snd b)"

section \<open>Basic facts\<close>

lemma changes_append [simp]: "changes (xs @ ys) = changes xs @ changes ys"
  by (induction xs rule: changes.induct) auto

lemma published_append [simp]: "published (xs @ ys) = published xs @ published ys"
  by (induction xs rule: published.induct) auto

lemma map_of_upd_key: "map_of (map (\<lambda>(k, v). (k, if k = n then f v else v)) xs) m = (if m = n then map_option f (map_of xs n) else map_of xs m)"
  by (induction xs) auto

lemma find_upd [simp]: "cm_find m (cm_upd n f s) = (if m = n then map_option f (cm_find n s) else cm_find m s)"
  unfolding cm_find_def cm_upd_def by (simp add: map_of_upd_key)

lemma upd_other [simp]: "cm_log (cm_upd n f s) = cm_log s" "cm_pending (cm_upd n f s) = cm_pending s" "cm_eventBus (cm_upd n f s) = cm_eventBus s"
  by (simp_all add: cm_upd_def)

lemma emit_simps [simp]: "cm_find n (cm_emit es s) = cm_find n s" "cm_log (cm_emit es s) = cm_log s @ es"
  "cm_pending (cm_emit es s) = cm_pending s" "cm_eventBus (cm_emit es s) = cm_eventBus s"
  by (simp_all add: cm_emit_def cm_find_def)

lemma find_pending [simp]: "cm_find n (s\<lparr>cm_pending := p\<rparr>) = cm_find n s"
  by (simp add: cm_find_def)

lemma setState_find [simp]:
  "cm_find m (cm_setState n st msg s) = (if m = n then map_option (\<lambda>mc. mc\<lparr>mc_state := st\<rparr>) (cm_find n s) else cm_find m s)"
  by (auto simp: cm_setState_def Let_def split: option.splits)

lemma setState_other [simp]: "cm_pending (cm_setState n st msg s) = cm_pending s" "cm_eventBus (cm_setState n st msg s) = cm_eventBus s"
  by (simp_all add: cm_setState_def Let_def split: option.splits)

section \<open>Polling is on while a connection is wanted\<close>

definition polling :: "'n managed_conn \<Rightarrow> bool" where
  "polling mc \<longleftrightarrow> (case mc_pollTimer mc of None \<Rightarrow> False | Some pt \<Rightarrow> pt_active pt \<and> pt_slots pt > 0)"

definition conn_ok :: "'n managed_conn \<Rightarrow> bool" where
  "conn_ok mc \<longleftrightarrow> mc_network mc \<noteq> None
     \<and> (mc_state mc \<in> {MC_Connecting, MC_Connected, MC_Reconnecting} \<or> mc_heartbeat mc \<noteq> None \<longrightarrow> polling mc)"

definition cm_inv :: "'n conn_manager \<Rightarrow> bool" where
  "cm_inv s \<longleftrightarrow> (\<forall>n mc. cm_find n s = Some mc \<longrightarrow> conn_ok mc)"

lemma cm_invD: "cm_inv s \<Longrightarrow> cm_find n s = Some mc \<Longrightarrow> conn_ok mc"
  by (simp add: cm_inv_def)

lemma cm_inv_upd: "cm_inv s \<Longrightarrow> (\<And>mc. cm_find n s = Some mc \<Longrightarrow> conn_ok (f mc)) \<Longrightarrow> cm_inv (cm_upd n f s)"
  by (auto simp: cm_inv_def)

lemma cm_inv_at:
  "cm_inv s \<Longrightarrow> (\<And>m. m \<noteq> n \<Longrightarrow> cm_find m t = cm_find m s) \<Longrightarrow> (\<And>mc. cm_find n t = Some mc \<Longrightarrow> conn_ok mc) \<Longrightarrow> cm_inv t"
  unfolding cm_inv_def by metis

lemma find_schedule:
  "cm_find m (scheduleReconnect cast j n s) =
     (if m = n then map_option (\<lambda>mc. if cc_maxRetries (mc_config mc) > 0 \<and> mc_retryCount mc \<ge> cc_maxRetries (mc_config mc)
                                     then mc\<lparr>mc_state := MC_Error\<rparr>
                                     else mc\<lparr>mc_state := MC_Reconnecting, mc_retryCount := mc_retryCount mc + 1\<rparr>) (cm_find n s)
      else cm_find m s)"
  by (auto simp: scheduleReconnect_def Let_def split: option.splits)

lemma polling_simps [simp]:
  "polling (mc\<lparr>mc_state := st\<rparr>) = polling mc" "polling (mc\<lparr>mc_retryCount := r\<rparr>) = polling mc"
  "polling (mc\<lparr>mc_heartbeat := hb\<rparr>) = polling mc"
  by (simp_all add: polling_def)

lemma inv_check:
  assumes "cm_inv s"
  shows "cm_inv (checkConnection cast j now b n s)"
proof (cases "cm_find n s")
  case (Some mc)
  have "conn_ok mc" using assms Some by (rule cm_invD)
  with assms Some show ?thesis
    unfolding cm_inv_def checkConnection_def Let_def
    by (cases "mc_state mc") (auto simp: find_schedule conn_ok_def enable_heartbeat_def split: if_splits)
qed (use assms in \<open>simp add: checkConnection_def\<close>)

lemma inv_heartbeat:
  assumes "cm_inv s" "Option.bind (cm_find n s) mc_heartbeat \<noteq> None"
  shows "cm_inv (onHeartbeatTimeout cast j n s)"
proof (cases "cm_find n s")
  case (Some mc)
  have ok: "conn_ok mc" using assms(1) Some by (rule cm_invD)
  then have "polling mc" "mc_network mc \<noteq> None" using assms(2) Some by (auto simp: conn_ok_def)
  then show ?thesis using Some
    by (intro cm_inv_at [OF assms(1), of n])
      (auto simp: onHeartbeatTimeout_def Let_def find_schedule conn_ok_def split: if_splits option.splits)
qed (use assms in simp)

lemma find_startPolling [simp]: "cm_find m (startPolling n s) = (if m = n then map_option (\<lambda>mc. mc\<lparr>mc_pollTimer :=
     Some \<lparr>pt_active = True, pt_slots = (case mc_pollTimer mc of None \<Rightarrow> 1 | Some pt \<Rightarrow> pt_slots pt + 1)\<rparr>\<rparr>) (cm_find n s) else cm_find m s)"
  by (simp add: startPolling_def)

lemma find_stopPolling [simp]: "cm_find m (stopPolling n s) = (if m = n then map_option (\<lambda>mc. mc\<lparr>mc_pollTimer :=
     map_option (\<lambda>pt. pt\<lparr>pt_active := False\<rparr>) (mc_pollTimer mc), mc_heartbeat := None\<rparr>) (cm_find n s) else cm_find m s)"
  by (simp add: stopPolling_def)

lemma find_delete [simp]: "cm_find m (s\<lparr>cm_connections := AList.delete n (cm_connections s)\<rparr>) = (if m = n then None else cm_find m s)"
  by (simp add: cm_find_def delete_conv')

lemma find_insert [simp]: "cm_find m (s\<lparr>cm_connections := (n, mc) # cs\<rparr>) = (if m = n then Some mc else map_of cs m)"
  by (simp add: cm_find_def)

lemma inv_connect: "cm_inv s \<Longrightarrow> cm_inv (cm_connect n s)"
  by (auto simp: cm_inv_def cm_connect_def conn_ok_def polling_def split: option.splits if_splits)

lemma inv_disconnect:
  assumes "cm_inv s"
  shows "cm_inv (cm_disconnect n s)"
proof (cases "cm_find n s")
  case (Some mc)
  with assms have "conn_ok mc" by (blast intro: cm_invD)
  with assms Some show ?thesis by (auto simp: cm_inv_def cm_disconnect_def conn_ok_def Let_def split: option.splits if_splits)
qed (use assms in \<open>simp add: cm_disconnect_def\<close>)

lemma inv_unregister: "cm_inv s \<Longrightarrow> cm_inv (unregisterConnection n s)"
  by (auto simp: cm_inv_def unregisterConnection_def Let_def split: option.splits if_splits)

lemma inv_register: "cm_inv s \<Longrightarrow> cm_inv (registerConnection n net config s)"
  by (auto simp: cm_inv_def registerConnection_def Let_def conn_ok_def stopPolling_def cm_upd_def cm_find_def map_of_upd_key delete_conv'
      split: if_splits)

lemma inv_fold: "cm_inv s \<Longrightarrow> (\<And>x s. cm_inv s \<Longrightarrow> cm_inv (f x s)) \<Longrightarrow> cm_inv (fold f xs s)"
  by (induction xs arbitrary: s) auto

lemma inv_exec: "cm_inv s \<Longrightarrow> cm_inv (cm_exec cast p s)"
proof (cases p)
  case (PollTick n now readings)
  moreover assume "cm_inv s"
  then have "cm_inv (fold (\<lambda>(b, j). checkConnection cast j now b n) readings s)"
    by (rule inv_fold) (auto intro: inv_check split: prod.split)
  ultimately show ?thesis using \<open>cm_inv s\<close> by (auto split: option.split)
next
  case (Expire i)
  moreover assume "cm_inv s"
  ultimately show ?thesis by (auto simp: cm_inv_def tryReconnect_def split: option.splits if_splits)
qed (auto simp: connectAll_def disconnectAll_def intro: inv_connect inv_disconnect inv_unregister inv_register inv_heartbeat inv_fold)

interpretation cm_invariant: inductive_invariant "\<lambda>s. \<exists>bus. s = mk_ConnectionManager bus" "\<lambda>s t. \<exists>cast p. t = cm_exec cast p s" cm_inv
proof
  show "cm_inv s" if "\<exists>bus. s = mk_ConnectionManager bus" for s :: "'a conn_manager"
    using that by (auto simp: cm_inv_def mk_ConnectionManager_def cm_find_def)
qed (auto intro: inv_exec)

abbreviation cm_reachable :: "'n conn_manager \<Rightarrow> bool" where
  "cm_reachable \<equiv> reach (\<lambda>s. \<exists>bus. s = mk_ConnectionManager bus) (\<lambda>s t. \<exists>cast p. t = cm_exec cast p s)"

section \<open>Every operation refines the specification\<close>

lemma states_of_view: "states_of (cm_view s) = cm_states s"
  by (simp add: states_of_def cm_view_def cm_states_def option.map_comp comp_def)

lemma trace_run_logged:
  "trace_run (\<lambda>x. logged (spec x)) xs a es b \<Longrightarrow> logged (\<lambda>m es m'. trace_run spec xs m es m') a es b"
  by (induction rule: trace_run.induct) (auto simp: logged_def intro: trace_cons)

text \<open>The signals between two states of a manager.\<close>

definition emits :: "'n conn_manager \<Rightarrow> 'n conn_manager \<Rightarrow> mc_change list \<Rightarrow> bool" where
  "emits s t cs \<longleftrightarrow> cm_eventBus t = cm_eventBus s
     \<and> (\<exists>es. cm_log t = cm_log s @ es \<and> changes es = cs \<and> published es = (if cm_eventBus s then cs else []))"

lemma emits_refl: "emits s s []"
  by (simp add: emits_def)

lemma emits_trans: "emits s t xs \<Longrightarrow> emits t u ys \<Longrightarrow> emits s u (xs @ ys)"
  unfolding emits_def by (metis append.assoc changes_append published_append append_Nil)

lemma emits_silent: "cm_eventBus t = cm_eventBus s \<Longrightarrow> cm_log t = cm_log s @ es \<Longrightarrow> changes es = [] \<Longrightarrow> published es = [] \<Longrightarrow> emits s t []"
  by (simp add: emits_def)

lemma emits_then: "emits s t xs \<Longrightarrow> cm_eventBus u = cm_eventBus t \<Longrightarrow> cm_log u = cm_log t @ es \<Longrightarrow> changes es = [] \<Longrightarrow> published es = [] \<Longrightarrow> emits s u xs"
  using emits_trans [of s t xs u "[]"] emits_silent [of u t es] by simp

lemma emits_setState:
  assumes "cm_find n s = Some mc"
  shows "emits s (cm_setState n st msg s) (signalled n st (mc_state mc))"
  using assms by (auto simp: emits_def signalled_def cm_setState_def Let_def)

lemma emits_logged: "emits s t cs \<Longrightarrow> spec (f s) cs (f t) \<Longrightarrow> \<exists>es. cm_log t = cm_log s @ es \<and> logged spec (cm_eventBus s, f s) es (cm_eventBus t, f t)"
  by (auto simp: emits_def logged_def)

lemma logged_emits: "\<exists>es. cm_log t = cm_log s @ es \<and> logged spec (cm_eventBus s, m) es (cm_eventBus t, m') \<Longrightarrow> \<exists>cs. emits s t cs \<and> spec m cs m'"
  by (auto simp: emits_def logged_def)

definition emits_spec :: "(mc_states \<Rightarrow> mc_change list \<Rightarrow> mc_states \<Rightarrow> bool) \<Rightarrow> 'n conn_manager \<Rightarrow> 'n conn_manager \<Rightarrow> bool" where
  "emits_spec spec s t \<longleftrightarrow> (\<exists>cs. emits s t cs \<and> spec (cm_states s) cs (cm_states t))"

lemma spec_same_refl: "emits_spec spec_same s s"
  using emits_refl by (auto simp: emits_spec_def spec_same_def)

lemma cm_states_find: "cm_find n s = None \<Longrightarrow> cm_states s n = None" "cm_find n s = Some mc \<Longrightarrow> cm_states s n = Some (mc_state mc)"
  by (simp_all add: cm_states_def)

lemma cm_states_upd: "cm_find n s = Some mc \<Longrightarrow> cm_states (cm_upd n f s) = (cm_states s)(n \<mapsto> mc_state (f mc))"
  by (auto simp: cm_states_def)

lemma cm_states_setState: "cm_find n s = Some mc \<Longrightarrow> cm_states (cm_setState n st msg s) = (cm_states s)(n \<mapsto> st)"
  by (auto simp: cm_states_def)

lemma cm_states_other [simp]: "cm_states (cm_emit es s) = cm_states s" "cm_states (s\<lparr>cm_pending := p\<rparr>) = cm_states s"
  "cm_states (startPolling n s) = cm_states s" "cm_states (stopPolling n s) = cm_states s"
  by (auto simp: cm_states_def option.map_comp comp_def)

lemma refines_connect:
  assumes "cm_inv s"
  shows "emits_spec (spec_connect n) s (cm_connect n s)"
proof (cases "\<exists>mc. cm_find n s = Some mc \<and> mc_state mc \<noteq> MC_Connected \<and> mc_state mc \<noteq> MC_Connecting")
  case True
  then obtain mc where mc: "cm_find n s = Some mc" "mc_state mc \<noteq> MC_Connected" "mc_state mc \<noteq> MC_Connecting" by blast
  obtain k where k: "mc_network mc = Some k" using cm_invD [OF assms mc(1)] by (auto simp: conn_ok_def)
  let ?s = "cm_upd n (\<lambda>mc. mc\<lparr>mc_retryCount := 0\<rparr>) s"
  have f: "cm_find n ?s = Some (mc\<lparr>mc_retryCount := 0\<rparr>)" using mc(1) by simp
  have "emits s ?s []" by (rule emits_silent [of _ _ "[]"]) simp_all
  from emits_trans [OF this emits_setState [OF f, of MC_Connecting "[]"]] mc(3)
  have "emits s (cm_setState n MC_Connecting [] ?s) [(n, MC_Connecting, mc_state mc)]" by (simp add: signalled_def)
  then have "emits s (cm_connect n s) [(n, MC_Connecting, mc_state mc)]"
    by (rule emits_then [of _ _ _ _ "[ConnectTo k (cc_url (mc_config mc))]"]) (use mc k in \<open>simp_all add: cm_connect_def startPolling_def\<close>)
  moreover have "cm_states (cm_connect n s) = (cm_states s)(n \<mapsto> MC_Connecting)"
    using mc k f by (simp add: cm_connect_def cm_states_setState [OF f] cm_states_upd [OF mc(1)])
  ultimately show ?thesis using mc by (auto simp: emits_spec_def spec_connect_def cm_states_find)
next
  case False
  then have "cm_connect n s = s" by (auto simp: cm_connect_def split: option.splits)
  with False show ?thesis using spec_same_refl [of s]
    by (cases "cm_find n s") (auto simp: emits_spec_def spec_connect_def cm_states_find)
qed

lemma refines_disconnect: "emits_spec (spec_disconnect n) s (cm_disconnect n s)"
proof (cases "cm_find n s")
  case (Some mc)
  let ?s1 = "stopPolling n s" let ?s2 = "case mc_network mc of None \<Rightarrow> ?s1 | Some k \<Rightarrow> cm_emit [Disconnect k] ?s1"
  let ?s3 = "cm_upd n (\<lambda>mc. mc\<lparr>mc_retryCount := 0\<rparr>) ?s2"
  have e: "emits s ?s3 []"
    by (rule emits_silent [of _ _ "case mc_network mc of None \<Rightarrow> [] | Some k \<Rightarrow> [Disconnect k]"]) (auto simp: stopPolling_def split: option.splits)
  obtain mc' where f: "cm_find n ?s3 = Some mc'" "mc_state mc' = mc_state mc" using Some that by (cases "mc_network mc") auto
  have "cm_states ?s3 = cm_states s" using Some f(2) by (auto simp: cm_states_def fun_eq_iff split: option.splits)
  then have "cm_states (cm_disconnect n s) = (cm_states s)(n \<mapsto> MC_Disconnected)"
    using Some cm_states_setState [OF f(1)] by (simp add: cm_disconnect_def Let_def)
  with emits_trans [OF e emits_setState [OF f(1), of MC_Disconnected "[]"]] Some f(2) show ?thesis
    by (auto simp: emits_spec_def spec_disconnect_def cm_states_find cm_disconnect_def Let_def)
qed (use spec_same_refl [of s] in \<open>simp add: cm_disconnect_def emits_spec_def spec_disconnect_def cm_states_find\<close>)

lemma refines_lost:
  assumes "cm_find n s = Some mc"
  shows "emits_spec (spec_lost n) s (if b then scheduleReconnect cast jitter n (cm_setState n MC_Disconnected [] s) else cm_setState n MC_Disconnected [] s)"
proof -
  let ?d = "cm_setState n MC_Disconnected [] s" let ?mc = "mc\<lparr>mc_state := MC_Disconnected\<rparr>"
  note d = emits_setState [OF assms, of MC_Disconnected "[]"]
  have f: "cm_find n ?d = Some ?mc" using assms by simp
  have fin: "emits s (cm_setState n fin [] ?d) (signalled n MC_Disconnected (mc_state mc) @ signalled n fin MC_Disconnected)" for fin
    using emits_trans [OF d emits_setState [OF f, of fin "[]"]] by simp
  have err: "emits_spec (spec_lost n) s (cm_setState n MC_Error [] ?d)"
    using fin [of MC_Error] assms by (auto simp: emits_spec_def spec_lost_def cm_states_find cm_states_setState [OF f] cm_states_setState [OF assms])
  have disc: "emits_spec (spec_lost n) s ?d"
    using d assms by (auto simp: emits_spec_def spec_lost_def cm_states_find cm_states_setState [OF assms] signalled_def)
  let ?r = "cm_upd n (\<lambda>mc. mc\<lparr>mc_retryCount := mc_retryCount mc + 1\<rparr>) (cm_setState n MC_Reconnecting [] ?d)"
  have "emits s (?r\<lparr>cm_pending := p\<rparr>) (signalled n MC_Disconnected (mc_state mc) @ signalled n MC_Reconnecting MC_Disconnected)" for p
    by (rule emits_then [OF fin [of MC_Reconnecting], of _ "[]"]) simp_all
  moreover have "cm_states (?r\<lparr>cm_pending := p\<rparr>) = (cm_states s)(n \<mapsto> MC_Reconnecting)" for p
    using assms by (auto simp: cm_states_def fun_eq_iff)
  ultimately have "emits_spec (spec_lost n) s (?r\<lparr>cm_pending := p\<rparr>)" for p
    using assms by (auto simp: emits_spec_def spec_lost_def cm_states_find)
  with err disc f show ?thesis by (auto simp: scheduleReconnect_def Let_def)
qed

lemma refines_heartbeat_timeout:
  assumes "cm_find n s = Some mc"
  shows "emits_spec (spec_lost n) s (onHeartbeatTimeout cast jitter n s)"
proof -
  let ?s1 = "cm_upd n (\<lambda>mc. mc\<lparr>mc_heartbeat := None\<rparr>) s"
  let ?s2 = "case mc_network mc of None \<Rightarrow> ?s1 | Some k \<Rightarrow> cm_emit [Disconnect k] ?s1"
  have e: "emits s ?s2 []"
    by (rule emits_silent [of _ _ "case mc_network mc of None \<Rightarrow> [] | Some k \<Rightarrow> [Disconnect k]"]) (auto split: option.splits)
  have st: "cm_states ?s2 = cm_states s" using assms by (auto simp: cm_states_def fun_eq_iff split: option.splits)
  obtain mc' where "cm_find n ?s2 = Some mc'" using assms that by (cases "mc_network mc") auto
  from refines_lost [OF this, of "cc_autoReconnect (mc_config mc)" cast jitter] emits_trans [OF e] st assms show ?thesis
    by (fastforce simp: emits_spec_def onHeartbeatTimeout_def Let_def)
qed

lemma refines_check:
  assumes "cm_inv s"
  shows "emits_spec (spec_check n b) s (checkConnection cast jitter now b n s)"
proof (cases "cm_find n s")
  case (Some mc)
  have net: "mc_network mc \<noteq> None" using cm_invD [OF assms Some] by (simp add: conn_ok_def)
  let ?u = "cm_setState n MC_Connected [] s"
  have "emits s (cm_upd n (enable_heartbeat now) ?u) (signalled n MC_Connected (mc_state mc))"
    by (rule emits_then [OF emits_setState [OF Some, of MC_Connected "[]"], of _ "[]"]) simp_all
  moreover have "cm_states (cm_upd n (enable_heartbeat now) ?u) = (cm_states s)(n \<mapsto> MC_Connected)"
    using Some by (auto simp: cm_states_def enable_heartbeat_def)
  ultimately show ?thesis
    using Some net spec_same_refl [of s] refines_lost [OF Some, of "cc_autoReconnect (mc_config mc)" cast jitter]
    by (cases "mc_state mc"; cases b) (auto simp: checkConnection_def Let_def emits_spec_def spec_check_def cm_states_find signalled_def)
qed (use spec_same_refl [of s] in \<open>simp add: checkConnection_def emits_spec_def spec_check_def cm_states_find\<close>)

text \<open>Three loops of the code are sequences of such steps.\<close>

interpretation connect_trace: trace_refinement cm_connect cm_inv "\<lambda>s. (cm_eventBus s, cm_states s)" cm_log "\<lambda>n. logged (spec_connect n)"
proof
  show "\<exists>es. cm_log (cm_connect n s) = cm_log s @ es \<and> logged (spec_connect n) (cm_eventBus s, cm_states s) es (cm_eventBus (cm_connect n s), cm_states (cm_connect n s))"
    if "cm_inv s" for n s using refines_connect [OF that, of n] by (auto simp: emits_spec_def intro: emits_logged)
qed (rule inv_connect)

interpretation disconnect_trace: trace_refinement cm_disconnect cm_inv "\<lambda>s. (cm_eventBus s, cm_states s)" cm_log "\<lambda>n. logged (spec_disconnect n)"
proof
  show "\<exists>es. cm_log (cm_disconnect n s) = cm_log s @ es \<and> logged (spec_disconnect n) (cm_eventBus s, cm_states s) es (cm_eventBus (cm_disconnect n s), cm_states (cm_disconnect n s))"
    for n s using refines_disconnect [of n s] by (auto simp: emits_spec_def intro: emits_logged)
qed (rule inv_disconnect)

interpretation check_trace: trace_refinement "\<lambda>(b, jitter). checkConnection cast jitter now b n" cm_inv "\<lambda>s. (cm_eventBus s, cm_states s)" cm_log
  "\<lambda>r :: bool \<times> (int \<Rightarrow> int). logged (spec_check n (fst r))" for cast now n
proof
  fix s :: "'a conn_manager" and p :: "bool \<times> (int \<Rightarrow> int)" assume i: "cm_inv s"
  obtain b j where p: "p = (b, j)" by fastforce
  show "cm_inv ((case p of (b, j) \<Rightarrow> checkConnection cast j now b n) s)" using inv_check [OF i] p by simp
  show "\<exists>es. cm_log ((case p of (b, j) \<Rightarrow> checkConnection cast j now b n) s) = cm_log s @ es \<and> logged (spec_check n (fst p)) (cm_eventBus s, cm_states s) es
      (cm_eventBus ((case p of (b, j) \<Rightarrow> checkConnection cast j now b n) s), cm_states ((case p of (b, j) \<Rightarrow> checkConnection cast j now b n) s))"
    using refines_check [OF i, of n b cast j now] p by (auto simp: emits_spec_def intro: emits_logged)
qed

lemma emits_run:
  assumes "\<exists>es. cm_log t = cm_log s @ es \<and> trace_run (\<lambda>x. logged (spec x)) xs (cm_eventBus s, cm_states s) es (cm_eventBus t, cm_states t)"
  shows "emits_spec (\<lambda>m cs m'. trace_run spec xs m cs m') s t"
  unfolding emits_spec_def using assms trace_run_logged by (intro logged_emits [where m = "cm_states s" and m' = "cm_states t"]) blast

lemma dom_view: "set (connectionNames s) = dom (cm_view s)"
proof -
  have "dom (cm_view s) = dom (map_of (cm_connections s))" by (auto simp: cm_view_def cm_find_def)
  then show ?thesis by (simp add: connectionNames_def dom_map_of_conv_image_fst)
qed

lemma cm_spec_exec:
  assumes "cm_inv s"
  shows "\<exists>cs. emits s (cm_exec cast p s) cs \<and> cm_spec p (cm_view s) cs (cm_view (cm_exec cast p s))"
proof (cases p)
  case (Register n net config)
  have "emits s (registerConnection n net config s) []"
    by (rule emits_silent [of _ _ "[]"]) (auto simp: registerConnection_def Let_def stopPolling_def)
  moreover have "cm_states (registerConnection n net config s) = (if net = None then cm_states s else (cm_states s)(n \<mapsto> MC_Disconnected))"
    by (auto simp: cm_states_def registerConnection_def Let_def fun_eq_iff stopPolling_def cm_upd_def cm_find_def map_of_upd_key delete_conv')
  ultimately show ?thesis using Register by (auto simp: states_of_view)
next
  case (Unregister n)
  have "emits s (unregisterConnection n s) []"
  proof (cases "cm_find n s")
    case (Some mc)
    then show ?thesis
      by (intro emits_silent [of _ _ "case mc_network mc of None \<Rightarrow> [] | Some k \<Rightarrow> [Disconnect k]"])
        (auto simp: unregisterConnection_def Let_def stopPolling_def split: option.splits)
  qed (simp add: unregisterConnection_def emits_refl)
  moreover have "cm_states (unregisterConnection n s) = (cm_states s)(n := None)"
    by (auto simp: cm_states_def unregisterConnection_def Let_def fun_eq_iff split: option.splits)
  ultimately show ?thesis using Unregister by (auto simp: states_of_view)
next
  case ConnectAll
  have "emits_spec (\<lambda>m cs m'. trace_run spec_connect (connectionNames s) m cs m') s (connectAll s)"
    unfolding connectAll_def by (rule emits_run [OF connect_trace.run_refines [OF assms]])
  then show ?thesis using ConnectAll dom_view [of s] unfolding emits_spec_def by (simp add: states_of_view) blast
next
  case DisconnectAll
  have "emits_spec (\<lambda>m cs m'. trace_run spec_disconnect (connectionNames s) m cs m') s (disconnectAll s)"
    unfolding disconnectAll_def by (rule emits_run [OF disconnect_trace.run_refines [OF assms]])
  then show ?thesis using DisconnectAll dom_view [of s] unfolding emits_spec_def by (simp add: states_of_view) blast
next
  case (PollTick n now readings)
  let ?t = "fold (\<lambda>(b, jitter). checkConnection cast jitter now b n) readings s"
  have run: "emits_spec (\<lambda>m cs m'. trace_run (\<lambda>r. spec_check n (fst r)) readings m cs m') s ?t"
    by (rule emits_run [OF check_trace.run_refines [OF assms]])
  show ?thesis
  proof (cases "\<exists>st hb. cm_view s n = Some (st, length readings, hb)")
    case True
    then have "cm_exec cast p s = ?t"
      using PollTick by (auto simp: cm_view_def timer_slots_def split: option.splits if_splits)
    with run True PollTick show ?thesis by (auto simp: states_of_view emits_spec_def)
  next
    case False
    then have "cm_exec cast p s = s"
      using PollTick by (auto simp: cm_view_def timer_slots_def bind_eq_Some_conv split: option.splits if_splits)
    with False PollTick show ?thesis using emits_refl [of s] by (auto simp: spec_same_def)
  qed
next
  case (HeartbeatLost n jitter)
  show ?thesis
  proof (cases "\<exists>st k. cm_view s n = Some (st, k, True)")
    case True
    then obtain mc where mc: "cm_find n s = Some mc" "mc_heartbeat mc \<noteq> None" by (auto simp: cm_view_def)
    with refines_heartbeat_timeout [OF mc(1), of cast jitter] True HeartbeatLost show ?thesis by (auto simp: states_of_view emits_spec_def)
  next
    case False
    then have "cm_exec cast p s = s" using HeartbeatLost by (auto simp: cm_view_def bind_eq_Some_conv)
    with False HeartbeatLost show ?thesis using emits_refl [of s] by (auto simp: spec_same_def)
  qed
next
  case (Connect n)
  then show ?thesis using refines_connect [OF assms, of n] by (auto simp: states_of_view emits_spec_def)
next
  case (DisconnectOp n)
  then show ?thesis using refines_disconnect [of n s] by (auto simp: states_of_view emits_spec_def)
next
  case (Expire i)
  have e: "\<exists>es. cm_log (tryReconnect n t) = cm_log t @ es \<and> changes es = [] \<and> published es = [] \<and> cm_eventBus (tryReconnect n t) = cm_eventBus t
    \<and> cm_states (tryReconnect n t) = cm_states t" for n and t :: "'a conn_manager"
    by (auto simp: tryReconnect_def split: option.splits)
  have "\<exists>es. cm_log (cm_exec cast p s) = cm_log s @ es \<and> changes es = [] \<and> published es = [] \<and> cm_eventBus (cm_exec cast p s) = cm_eventBus s
    \<and> cm_states (cm_exec cast p s) = cm_states s"
    using Expire e [of "fst (cm_pending s ! i)" "s\<lparr>cm_pending := take i (cm_pending s) @ drop (Suc i) (cm_pending s)\<rparr>"] by auto
  with Expire show ?thesis by (auto simp: states_of_view spec_same_def intro: emits_silent)
qed

interpretation cm_trace: trace_refinement "cm_exec cast" cm_inv "\<lambda>s. (cm_eventBus s, cm_view s)" cm_log "\<lambda>p. logged (cm_spec p)" for cast
proof
  show "cm_inv (cm_exec cast p s)" if "cm_inv s" for p and s :: "'a conn_manager" using that by (rule inv_exec)
  show "\<exists>es. cm_log (cm_exec cast p s) = cm_log s @ es \<and> logged (cm_spec p) (cm_eventBus s, cm_view s) es (cm_eventBus (cm_exec cast p s), cm_view (cm_exec cast p s))"
    if "cm_inv s" for p and s :: "'a conn_manager" using cm_spec_exec [OF that, of cast p] by (auto intro: emits_logged)
qed


section \<open>Losing and regaining a connection\<close>

text \<open>
  A poll tick of a name whose readings all agree; the expiry of the reconnection scheduled last; a loss followed by a
  successful reconnection.
\<close>

definition tick :: "(int \<Rightarrow> int) \<Rightarrow> (int \<Rightarrow> int) \<Rightarrow> int \<Rightarrow> bool \<Rightarrow> string \<Rightarrow> 'n conn_manager \<Rightarrow> 'n conn_manager" where
  "tick cast j now b n s =
     (case Option.bind (cm_find n s) mc_pollTimer of
        None \<Rightarrow> s | Some pt \<Rightarrow> cm_exec cast (PollTick n now (replicate (pt_slots pt) (b, j))) s)"

definition expire_last :: "(int \<Rightarrow> int) \<Rightarrow> 'n conn_manager \<Rightarrow> 'n conn_manager" where
  "expire_last cast s = cm_exec cast (Expire (length (cm_pending s) - 1)) s"

definition reconnect_cycle :: "(int \<Rightarrow> int) \<Rightarrow> (int \<Rightarrow> int) \<Rightarrow> int \<Rightarrow> string \<Rightarrow> 'n conn_manager \<Rightarrow> 'n conn_manager" where
  "reconnect_cycle cast j now n s = tick cast j now True n (expire_last cast (tick cast j now False n s))"

definition exhausted :: "'n managed_conn \<Rightarrow> bool" where
  "exhausted mc \<longleftrightarrow> cc_maxRetries (mc_config mc) > 0 \<and> mc_retryCount mc \<ge> cc_maxRetries (mc_config mc)"

lemma funpow_idle: "f s = s \<Longrightarrow> (f ^^ k) s = s"
  by (induction k) auto

lemma check_idle:
  assumes "cm_find n s = Some mc" "b \<longleftrightarrow> mc_state mc = MC_Connected"
  shows "checkConnection cast j now b n s = s"
  using assms by (cases "mc_state mc") (auto simp: checkConnection_def)

lemma tick_idle:
  assumes "cm_find n s = Some mc" "b \<longleftrightarrow> mc_state mc = MC_Connected"
  shows "tick cast j now b n s = s"
  using check_idle [OF assms] by (auto simp: tick_def funpow_idle split: option.splits)

text \<open>A tick is one check when the check settles the state.\<close>

lemma tick_check:
  assumes "cm_inv s" "cm_find n s = Some mc" "mc_state mc \<in> {MC_Connecting, MC_Connected, MC_Reconnecting}"
    and "cm_find n (checkConnection cast j now b n s) = Some mc'" "b \<longleftrightarrow> mc_state mc' = MC_Connected"
  shows "tick cast j now b n s = checkConnection cast j now b n s"
proof -
  have "polling mc" using cm_invD [OF assms(1,2)] assms(3) by (auto simp: conn_ok_def)
  then obtain pt k where "mc_pollTimer mc = Some pt" "pt_active pt" "pt_slots pt = Suc k"
    by (auto simp: polling_def gr0_conv_Suc split: option.splits)
  then show ?thesis using assms(2) check_idle [OF assms(4,5)] by (simp add: tick_def funpow_idle funpow_Suc_right del: funpow.simps)
qed

lemma tick_down:
  assumes "cm_inv s" "cm_find n s = Some mc" "mc_state mc = MC_Connected" "cc_autoReconnect (mc_config mc)"
  and t: "t = tick cast j now False n s"
  shows "cm_find n t = Some (if exhausted mc then mc\<lparr>mc_state := MC_Error\<rparr> else mc\<lparr>mc_state := MC_Reconnecting, mc_retryCount := mc_retryCount mc + 1\<rparr>)"
    and "cm_pending t = cm_pending s @ (if exhausted mc then [] else [(n, nextRetryInterval cast j (mc_retryCount mc) (mc_config mc))])"
proof -
  let ?c = "checkConnection cast j now False n s"
  have net: "mc_network mc \<noteq> None" using cm_invD [OF assms(1,2)] by (simp add: conn_ok_def)
  have f: "cm_find n ?c = Some (if exhausted mc then mc\<lparr>mc_state := MC_Error\<rparr> else mc\<lparr>mc_state := MC_Reconnecting, mc_retryCount := mc_retryCount mc + 1\<rparr>)"
    using assms net by (auto simp: checkConnection_def find_schedule exhausted_def)
  have tc: "t = ?c" unfolding t by (rule tick_check [OF assms(1,2) _ f]) (simp_all add: assms(3))
  show "cm_find n t = Some (if exhausted mc then mc\<lparr>mc_state := MC_Error\<rparr> else mc\<lparr>mc_state := MC_Reconnecting, mc_retryCount := mc_retryCount mc + 1\<rparr>)"
    using f tc by simp
  show "cm_pending t = cm_pending s @ (if exhausted mc then [] else [(n, nextRetryInterval cast j (mc_retryCount mc) (mc_config mc))])"
    using tc assms(2-4) net by (auto simp: checkConnection_def scheduleReconnect_def Let_def exhausted_def)
qed

lemma tick_up:
  assumes "cm_inv s" "cm_find n s = Some mc" "mc_state mc \<in> {MC_Connecting, MC_Reconnecting}"
  and t: "t = tick cast j now True n s"
  shows "cm_find n t = Some (enable_heartbeat now (mc\<lparr>mc_state := MC_Connected\<rparr>))" and "cm_pending t = cm_pending s"
proof -
  let ?c = "checkConnection cast j now True n s"
  have net: "mc_network mc \<noteq> None" using cm_invD [OF assms(1,2)] by (simp add: conn_ok_def)
  have f: "cm_find n ?c = Some (enable_heartbeat now (mc\<lparr>mc_state := MC_Connected\<rparr>))"
    using assms net by (auto simp: checkConnection_def)
  have tc: "t = ?c" unfolding t by (rule tick_check [OF assms(1,2) _ f]) (use assms(3) in \<open>auto simp: enable_heartbeat_def\<close>)
  show "cm_find n t = Some (enable_heartbeat now (mc\<lparr>mc_state := MC_Connected\<rparr>))" using f tc by simp
  show "cm_pending t = cm_pending s" using tc assms(2,3) net by (auto simp: checkConnection_def)
qed

lemma expire_last_reconnects:
  assumes "cm_find n s = Some mc" "mc_state mc = MC_Reconnecting" "mc_network mc = Some k" "cm_pending s = p @ [(n, d)]"
  shows "cm_find m (expire_last cast s) = cm_find m s" "cm_pending (expire_last cast s) = p"
    "cm_log (expire_last cast s) = cm_log s @ [ConnectTo k (cc_url (mc_config mc))]"
  using assms by (simp_all add: expire_last_def tryReconnect_def)

lemma inv_tick: "cm_inv s \<Longrightarrow> cm_inv (tick cast j now b n s)"
  unfolding tick_def by (auto split: option.splits intro: inv_exec simp del: cm_exec.simps)

lemma inv_expire_last: "cm_inv s \<Longrightarrow> cm_inv (expire_last cast s)"
  unfolding expire_last_def by (rule inv_exec)

text \<open>One loss and the attempt that follows it.\<close>

lemma loss_and_attempt:
  assumes "cm_inv s" "cm_find n s = Some mc" "mc_state mc = MC_Connected" "cc_autoReconnect (mc_config mc)" "\<not> exhausted mc"
  obtains k s1 s2 where "tick cast j now False n s = s1" "expire_last cast s1 = s2" "mc_network mc = Some k" "cm_inv s2"
    "cm_find n s1 = Some (mc\<lparr>mc_state := MC_Reconnecting, mc_retryCount := mc_retryCount mc + 1\<rparr>)" "cm_find n s2 = cm_find n s1"
    "cm_pending s2 = cm_pending s" "cm_log s2 = cm_log s1 @ [ConnectTo k (cc_url (mc_config mc))]"
proof -
  obtain k where k: "mc_network mc = Some k" using cm_invD [OF assms(1,2)] by (auto simp: conn_ok_def)
  note d = tick_down [OF assms(1-4) refl, of cast j now]
  have f: "cm_find n (tick cast j now False n s) = Some (mc\<lparr>mc_state := MC_Reconnecting, mc_retryCount := mc_retryCount mc + 1\<rparr>)"
    and p: "cm_pending (tick cast j now False n s) = cm_pending s @ [(n, nextRetryInterval cast j (mc_retryCount mc) (mc_config mc))]"
    using d assms(5) by simp_all
  have "cm_inv (expire_last cast (tick cast j now False n s))" by (intro inv_expire_last inv_tick assms(1))
  then show thesis using expire_last_reconnects [OF f _ _ p] that [OF refl refl k] f k by simp
qed

text \<open>C16 (liveness). In every reachable state a connected connection with automatic reconnection and retries left recovers from a loss: the next poll
  schedules a reconnection, its expiry calls \<open>connectTo\<close> with the configured address, and the first poll that finds the network up makes it
  connected again, with a heartbeat if one is configured.\<close>

theorem cm_reconnects:
  assumes "cm_reachable s" "cm_find n s = Some mc" "mc_state mc = MC_Connected" "cc_autoReconnect (mc_config mc)" "\<not> exhausted mc"
  shows "\<exists>k s1 s2 s3. tick cast j now False n s = s1 \<and> cm_state n s1 = MC_Reconnecting
     \<and> expire_last cast s1 = s2 \<and> mc_network mc = Some k \<and> cm_log s2 = cm_log s1 @ [ConnectTo k (cc_url (mc_config mc))]
     \<and> tick cast j' now' True n s2 = s3 \<and> cm_isConnected n s3
     \<and> (cc_enableHeartbeat (mc_config mc) \<longrightarrow> Option.bind (cm_find n s3) mc_heartbeat \<noteq> None)"
proof -
  have inv: "cm_inv s" using assms(1) by (rule cm_invariant.reach_inv)
  obtain k s1 s2 where st: "tick cast j now False n s = s1" "expire_last cast s1 = s2" "mc_network mc = Some k" "cm_inv s2"
    "cm_find n s1 = Some (mc\<lparr>mc_state := MC_Reconnecting, mc_retryCount := mc_retryCount mc + 1\<rparr>)" "cm_find n s2 = cm_find n s1"
    "cm_log s2 = cm_log s1 @ [ConnectTo k (cc_url (mc_config mc))]"
    using loss_and_attempt [OF inv assms(2-5)] by metis
  have "cm_find n (tick cast j' now' True n s2)
      = Some (enable_heartbeat now' (mc\<lparr>mc_retryCount := mc_retryCount mc + 1, mc_state := MC_Connected\<rparr>))"
    using tick_up(1) [OF st(4) st(6) [unfolded st(5)] _ refl] by simp
  with st show ?thesis by (auto simp: cm_state_def cm_isConnected_def enable_heartbeat_def)
qed

text \<open>If that one attempt fails there is no other: with the network down, no number of polls changes anything, no reconnection is
  scheduled and the state stays Reconnecting, whatever the number of retries configured.\<close>

theorem cm_single_attempt:
  assumes "cm_reachable s" "cm_find n s = Some mc" "mc_state mc = MC_Connected" "cc_autoReconnect (mc_config mc)" "\<not> exhausted mc"
  shows "\<exists>s2. expire_last cast (tick cast j now False n s) = s2 \<and> cm_pending s2 = cm_pending s \<and> cm_state n s2 = MC_Reconnecting
     \<and> fold (\<lambda>(j, now). tick cast j now False n) polls s2 = s2"
proof -
  have inv: "cm_inv s" using assms(1) by (rule cm_invariant.reach_inv)
  obtain k s1 s2 where st: "tick cast j now False n s = s1" "expire_last cast s1 = s2" "cm_pending s2 = cm_pending s"
    "cm_find n s2 = Some (mc\<lparr>mc_state := MC_Reconnecting, mc_retryCount := mc_retryCount mc + 1\<rparr>)"
    using loss_and_attempt [OF inv assms(2-5)] by metis
  have "tick cast j now False n s2 = s2" for j now by (rule tick_idle [OF st(4)]) simp
  then have "fold (\<lambda>(j, now). tick cast j now False n) polls s2 = s2" by (induction polls) auto
  with st show ?thesis by (simp add: cm_state_def)
qed

lemma cycle_counts:
  assumes "cm_inv s" "cm_find n s = Some mc" "mc_state mc = MC_Connected" "cc_autoReconnect (mc_config mc)" "\<not> exhausted mc"
  obtains mc' where "cm_inv (reconnect_cycle cast j now n s)" "cm_find n (reconnect_cycle cast j now n s) = Some mc'"
    "mc_state mc' = MC_Connected" "mc_config mc' = mc_config mc" "mc_retryCount mc' = mc_retryCount mc + 1"
proof -
  obtain k s1 s2 where st: "tick cast j now False n s = s1" "expire_last cast s1 = s2" "cm_inv s2"
    "cm_find n s2 = Some (mc\<lparr>mc_state := MC_Reconnecting, mc_retryCount := mc_retryCount mc + 1\<rparr>)"
    using loss_and_attempt [OF assms] by metis
  have "cm_find n (tick cast j now True n s2)
      = Some (enable_heartbeat now (mc\<lparr>mc_retryCount := mc_retryCount mc + 1, mc_state := MC_Connected\<rparr>))"
    using tick_up(1) [OF st(3,4) _ refl] by simp
  then show thesis using that [of "enable_heartbeat now (mc\<lparr>mc_retryCount := mc_retryCount mc + 1, mc_state := MC_Connected\<rparr>)"] inv_tick [OF st(3)] st(1,2)
    by (simp add: reconnect_cycle_def enable_heartbeat_def)
qed

lemma cycles_count:
  assumes "cm_inv s" "cm_find n s = Some mc" "mc_state mc = MC_Connected" "cc_autoReconnect (mc_config mc)" "cc_maxRetries (mc_config mc) > 0"
    and "mc_retryCount mc + int k \<le> cc_maxRetries (mc_config mc)"
  shows "\<exists>mc'. cm_inv ((reconnect_cycle cast j now n ^^ k) s) \<and> cm_find n ((reconnect_cycle cast j now n ^^ k) s) = Some mc'
     \<and> mc_state mc' = MC_Connected \<and> mc_config mc' = mc_config mc \<and> mc_retryCount mc' = mc_retryCount mc + int k"
  using assms
proof (induction k arbitrary: s mc)
  case (Suc k)
  have "\<not> exhausted mc" using Suc.prems by (simp add: exhausted_def)
  from cycle_counts [OF Suc.prems(1-4) this, of cast j now] obtain mc' where c:
    "cm_inv (reconnect_cycle cast j now n s)" "cm_find n (reconnect_cycle cast j now n s) = Some mc'"
    "mc_state mc' = MC_Connected" "mc_config mc' = mc_config mc" "mc_retryCount mc' = mc_retryCount mc + 1" by metis
  from Suc.IH [OF c(1-3)] c(4,5) Suc.prems show ?case by (simp add: funpow_swap1 add.assoc)
qed auto

text \<open>Successful reconnections are never forgotten: after \<open>maxRetries\<close> losses that were each repaired at the first attempt, the next loss
  puts the connection into Error with no attempt to reconnect.\<close>

theorem cm_successes_use_up_retries:
  assumes "cm_reachable s" "cm_find n s = Some mc" "mc_state mc = MC_Connected" "cc_autoReconnect (mc_config mc)"
    and "cc_maxRetries (mc_config mc) > 0" "mc_retryCount mc = 0"
  shows "\<exists>s'. (reconnect_cycle cast j now n ^^ nat (cc_maxRetries (mc_config mc))) s = s' \<and> cm_isConnected n s'
     \<and> cm_state n (tick cast j now False n s') = MC_Error \<and> cm_pending (tick cast j now False n s') = cm_pending s'"
proof -
  have inv: "cm_inv s" using assms(1) by (rule cm_invariant.reach_inv)
  define s' where "s' = (reconnect_cycle cast j now n ^^ nat (cc_maxRetries (mc_config mc))) s"
  have "mc_retryCount mc + int (nat (cc_maxRetries (mc_config mc))) \<le> cc_maxRetries (mc_config mc)" using assms(5,6) by simp
  from cycles_count [OF inv assms(2-5) this, of cast j now] assms(5,6) obtain mc' where c: "cm_inv s'" "cm_find n s' = Some mc'"
    "mc_state mc' = MC_Connected" "mc_config mc' = mc_config mc" "mc_retryCount mc' = cc_maxRetries (mc_config mc)"
    unfolding s'_def [symmetric] by auto
  have "exhausted mc'" using c assms(5) by (simp add: exhausted_def)
  moreover have "cc_autoReconnect (mc_config mc')" using c(4) assms(4) by simp
  ultimately have "cm_find n (tick cast j now False n s') = Some (mc'\<lparr>mc_state := MC_Error\<rparr>)"
    "cm_pending (tick cast j now False n s') = cm_pending s'"
    using tick_down [OF c(1-3) _ refl, of cast j now] by simp_all
  with c show ?thesis unfolding s'_def by (simp add: cm_state_def cm_isConnected_def)
qed

text \<open>Delays: with the conversion exact below \<open>2 ^ 63\<close> and the jitter within a quarter, at least 100 ms and at most five quarters of the maximum.\<close>

lemma retry_interval_bounds:
  assumes "\<And>x. 0 \<le> x \<Longrightarrow> x < 2 ^ 63 \<Longrightarrow> cast x = x" "\<And>x. 0 \<le> x \<Longrightarrow> 3 * x div 4 \<le> jitter x \<and> 4 * jitter x \<le> 5 * x"
    and "0 \<le> cc_baseInterval config" "80 \<le> cc_maxInterval config" "cc_baseInterval config * 2 ^ nat r < 2 ^ 63"
  shows "100 \<le> nextRetryInterval cast jitter r config" "4 * nextRetryInterval cast jitter r config \<le> 5 * cc_maxInterval config"
proof -
  define x where "x = (if cc_baseInterval config * 2 ^ nat r > cc_maxInterval config then cc_maxInterval config else cc_baseInterval config * 2 ^ nat r)"
  have x: "0 \<le> x" "x \<le> cc_maxInterval config" using assms(3,4) by (auto simp: x_def)
  have "nextRetryInterval cast jitter r config = (if jitter x < 100 then 100 else jitter x)"
    using assms(1) [of "cc_baseInterval config * 2 ^ nat r"] assms(3,5) by (simp add: nextRetryInterval_def Let_def x_def)
  then show "100 \<le> nextRetryInterval cast jitter r config" "4 * nextRetryInterval cast jitter r config \<le> 5 * cc_maxInterval config"
    using assms(2) [OF x(1)] x(2) assms(4) by (auto split: if_splits)
qed

section \<open>A connection brought up\<close>

definition demo_cm :: "nat conn_manager" where
  "demo_cm = fold (cm_exec id) [Register ''a'' (Some 1) (default_connection_config\<lparr>cc_maxRetries := 2\<rparr>), Connect ''a'', PollTick ''a'' 0 [(True, id)]]
     (mk_ConnectionManager True)"

lemma demo_cm_reachable: "cm_reachable demo_cm"
  unfolding demo_cm_def fold_simps comp_def id_apply
  by (rule reach_step [OF reach_step [OF reach_step [OF reach_init]]]) blast+

definition demo_mc :: "nat managed_conn" where
  "demo_mc = \<lparr>mc_network = Some 1, mc_config = default_connection_config\<lparr>cc_maxRetries := 2\<rparr>, mc_state = MC_Connected,
     mc_pollTimer = Some \<lparr>pt_active = True, pt_slots = 1\<rparr>, mc_heartbeat = None, mc_retryCount = 0\<rparr>"

lemma demo_cm_find: "cm_find ''a'' demo_cm = Some demo_mc"
  by code_simp

lemmas demo_cm_facts = demo_cm_reachable demo_cm_find

lemma demo_mc_simps: "mc_state demo_mc = MC_Connected" "cc_autoReconnect (mc_config demo_mc)" "\<not> exhausted demo_mc"
  "cc_maxRetries (mc_config demo_mc) = 2" "mc_retryCount demo_mc = 0"
  by (simp_all add: demo_mc_def default_connection_config_def exhausted_def)

theorem cm_reconnects_witness:
  "\<exists>s1 s2. tick id id 500 False ''a'' demo_cm = s1 \<and> expire_last id s1 = s2 \<and> cm_isConnected ''a'' (tick id id 2000 True ''a'' s2)"
  using cm_reconnects [OF demo_cm_facts demo_mc_simps(1-3), of id id 500 id 2000] by metis

theorem cm_single_attempt_witness:
  "cm_state ''a'' (expire_last id (tick id id 500 False ''a'' demo_cm)) = MC_Reconnecting"
  using cm_single_attempt [OF demo_cm_facts demo_mc_simps(1-3), of id id 500] by metis

theorem cm_successes_use_up_retries_witness:
  "cm_state ''a'' (tick id id 0 False ''a'' ((reconnect_cycle id id 0 ''a'' ^^ 2) demo_cm)) = MC_Error"
  using cm_successes_use_up_retries [OF demo_cm_facts demo_mc_simps(1,2), of id id 0] demo_mc_simps(4,5) by (simp add: eval_nat_numeral)

end
