(* ===== verification/SK_Container.thy ===== *)
theory SK_Container
  imports SK_Prelude "HOL-Library.Multiset"
begin

text \<open>
  The dependency-injection container of \<^verbatim>\<open>include/soul/di/container.h\<close>.

  A type (\<^verbatim>\<open>std::type_index\<close>) is its name. A \<^verbatim>\<open>void*\<close> is the object it points to together with the type it was
  converted from, which the code forgets and on which the validity of its \<^verbatim>\<open>static_cast\<close>s depends. Creators are user code, known by a number and
  by the type of the pointer they return, which the lambda of \<^verbatim>\<open>bind<T>\<close> converts to \<^verbatim>\<open>void*\<close>: an operation
  that calls one is cut there, so that the creator may use the container (the mutex is recursive). \<open>resolve\<close> and
  \<open>resolveNamed\<close> run up to the call and say which creator they call; \<open>created\<close> is the rest. The calls that have not returned are a stack beside the container.
  A creator that unregisters the type it is
  creating is outside the model (the code then writes through a dangling reference). Deletions are recorded with the type
  the deleter converts to. A destructor is taken not to use the container: the code runs it before it erases the registration, and theorem
  \<open>di_destructor_resolves_deleted\<close> shows what it would get.
\<close>

section \<open>State\<close>

datatype Lifetime = Transient | Singleton | Scoped

record di_ptr =
  p_obj :: nat
  p_type :: string

record di_creator =
  cr_id :: nat
  cr_type :: string

datatype di_deleter = NoDelete | DeleteAs string

record registration =
  ri_lifetime :: Lifetime
  ri_creator :: "di_creator option"
  ri_interfaceType :: string
  ri_singletonInstance :: "di_ptr option"
  ri_initialized :: bool
  ri_owned :: bool
  ri_initFlag :: bool
  ri_deleter :: di_deleter

record container =
  c_registrations :: "(string \<times> registration) list"
  c_resolved :: "(string \<times> di_ptr) list"
  c_scopes :: "(nat \<times> (string \<times> di_ptr) list) list"
  c_named :: "((string \<times> string) \<times> registration) list"
  c_primary :: "(string \<times> string) list"
  c_current :: nat
  c_next :: nat
  c_deleted :: "(di_ptr \<times> string) list"

definition mk_Container :: container where
  "mk_Container = \<lparr>c_registrations = [], c_resolved = [], c_scopes = [], c_named = [], c_primary = [], c_current = 0, c_next = 1, c_deleted = []\<rparr>"

definition run_deleter :: "di_deleter \<Rightarrow> di_ptr \<Rightarrow> container \<Rightarrow> container" where
  "run_deleter d p s = (case d of NoDelete \<Rightarrow> s | DeleteAs T \<Rightarrow> s\<lparr>c_deleted := c_deleted s @ [(p, T)]\<rparr>)"

section \<open>Scopes\<close>

definition createScope :: "container \<Rightarrow> nat \<times> container" where
  "createScope s = (let i = c_next s in (i, s\<lparr>c_next := i + 1, c_scopes := AList.update i [] (c_scopes s), c_current := i\<rparr>))"

text \<open>The plain registration first, then the first named one of the type whose instances the container owns.\<close>

definition scope_deleter :: "container \<Rightarrow> string \<Rightarrow> di_deleter option" where
  "scope_deleter s T =
     (case map_of (c_registrations s) T of
        Some info \<Rightarrow> if ri_owned info then Some (ri_deleter info)
                     else map_option (ri_deleter \<circ> snd) (List.find (\<lambda>(k, np). fst k = T \<and> ri_owned np) (c_named s))
      | None \<Rightarrow> map_option (ri_deleter \<circ> snd) (List.find (\<lambda>(k, np). fst k = T \<and> ri_owned np) (c_named s)))"

definition tryDeleteScopeInstance :: "string \<times> di_ptr \<Rightarrow> container \<Rightarrow> container" where
  "tryDeleteScopeInstance tp s = (case scope_deleter s (fst tp) of None \<Rightarrow> s | Some d \<Rightarrow> run_deleter d (snd tp) s)"

definition disposeScope :: "nat \<Rightarrow> container \<Rightarrow> container" where
  "disposeScope scopeId s =
     (case map_of (c_scopes s) scopeId of
        None \<Rightarrow> s
      | Some insts \<Rightarrow>
          let s1 = fold tryDeleteScopeInstance insts s
          in s1\<lparr>c_scopes := AList.delete scopeId (c_scopes s1), c_current := (if c_current s1 = scopeId then 0 else c_current s1)\<rparr>)"

section \<open>Registration\<close>

definition fresh_registration :: "Lifetime \<Rightarrow> nat \<Rightarrow> string \<Rightarrow> registration" where
  "fresh_registration lifetime creator T = \<lparr>ri_lifetime = lifetime, ri_creator = Some \<lparr>cr_id = creator, cr_type = T\<rparr>, ri_interfaceType = T,
     ri_singletonInstance = None, ri_initialized = False, ri_owned = True, ri_initFlag = False, ri_deleter = DeleteAs T\<rparr>"

definition already_registered :: "unit result" where
  "already_registered = Err (mk_error EC_AlreadyExists ''DI: type already registered'')"

definition di_bind :: "string \<Rightarrow> nat \<Rightarrow> Lifetime \<Rightarrow> container \<Rightarrow> unit result \<times> container" where
  "di_bind T creator lifetime s =
     (if map_of (c_registrations s) T \<noteq> None then (already_registered, s)
      else (Ok (), s\<lparr>c_registrations := (T, fresh_registration lifetime creator T) # c_registrations s\<rparr>))"

definition bindInstance :: "string \<Rightarrow> nat \<Rightarrow> container \<Rightarrow> unit result \<times> container" where
  "bindInstance T obj s =
     (if map_of (c_registrations s) T \<noteq> None then (already_registered, s)
      else (Ok (), s\<lparr>c_registrations := (T, \<lparr>ri_lifetime = Singleton, ri_creator = None, ri_interfaceType = T,
              ri_singletonInstance = Some \<lparr>p_obj = obj, p_type = T\<rparr>, ri_initialized = True, ri_owned = False, ri_initFlag = True,
              ri_deleter = NoDelete\<rparr>) # c_registrations s\<rparr>))"

definition bindSingleton :: "string \<Rightarrow> nat \<Rightarrow> container \<Rightarrow> unit result \<times> container" where
  "bindSingleton T creator = di_bind T creator Singleton"

definition bindScoped :: "string \<Rightarrow> nat \<Rightarrow> container \<Rightarrow> unit result \<times> container" where
  "bindScoped T creator = di_bind T creator Scoped"

definition bindTransient :: "string \<Rightarrow> nat \<Rightarrow> container \<Rightarrow> unit result \<times> container" where
  "bindTransient T creator = di_bind T creator Transient"

definition bindNamed :: "string \<Rightarrow> string \<Rightarrow> nat \<Rightarrow> Lifetime \<Rightarrow> container \<Rightarrow> unit result \<times> container" where
  "bindNamed T name creator lifetime s =
     (if name = [] then (Err (mk_error EC_InvalidArgument ''DI: qualifier name cannot be empty''), s)
      else if map_of (c_named s) (T, name) \<noteq> None then (Err (mk_error EC_AlreadyExists ''DI: named type already registered''), s)
      else (Ok (), s\<lparr>c_named := ((T, name), fresh_registration lifetime creator T) # c_named s\<rparr>))"

definition setPrimary :: "string \<Rightarrow> string \<Rightarrow> container \<Rightarrow> unit result \<times> container" where
  "setPrimary T name s =
     (if map_of (c_named s) (T, name) = None
      then (Err (mk_error EC_NotFound ''DI: cannot set primary, named registration not found''), s)
      else (Ok (), s\<lparr>c_primary := AList.update T name (c_primary s)\<rparr>))"

definition isPrimary :: "string \<Rightarrow> string \<Rightarrow> container \<Rightarrow> bool" where
  "isPrimary T name s \<longleftrightarrow> map_of (c_primary s) T = Some name"

definition isRegistered :: "string \<Rightarrow> container \<Rightarrow> bool" where
  "isRegistered T s \<longleftrightarrow> map_of (c_registrations s) T \<noteq> None"

definition registrationCount :: "container \<Rightarrow> nat" where
  "registrationCount s = length (c_registrations s)"

section \<open>Resolution\<close>

text \<open>A \<^verbatim>\<open>shared_ptr\<close>: the pointer and whether dropping the last copy deletes the object. A resolution ends or calls a creator.\<close>

datatype di_ref = Borrowed di_ptr | Owning di_ptr

datatype di_key = Plain string | Named string string

fun key_type :: "di_key \<Rightarrow> string" where
  "key_type (Plain T) = T"
| "key_type (Named T name) = T"

datatype di_outcome = Done "di_ref result" | Calls di_creator di_key Lifetime

definition scope_instance :: "string \<Rightarrow> container \<Rightarrow> di_ptr option" where
  "scope_instance T s = (if c_current s = 0 then None else Option.bind (map_of (c_scopes s) (c_current s)) (\<lambda>insts. map_of insts T))"

text \<open>The part of both resolutions up to the call of the creator; \<open>kind\<close> ends the message when there is none.\<close>

definition lookup_instance :: "string \<Rightarrow> di_key \<Rightarrow> registration \<Rightarrow> container \<Rightarrow> di_outcome" where
  "lookup_instance kind key info s =
     (let call = (case ri_creator info of
                    None \<Rightarrow> Done (Err (mk_error EC_InvalidArgument (''Creator not set for '' @ kind)))
                  | Some c \<Rightarrow> Calls c key (ri_lifetime info))
      in case ri_lifetime info of
           Singleton \<Rightarrow> (case ri_singletonInstance info of
               Some p \<Rightarrow> if ri_initialized info then Done (Ok (Borrowed p)) else call
             | None \<Rightarrow> call)
         | Scoped \<Rightarrow> (case scope_instance (key_type key) s of Some p \<Rightarrow> Done (Ok (Borrowed p)) | None \<Rightarrow> call)
         | Transient \<Rightarrow> call)"

definition kind_text :: "Lifetime \<Rightarrow> string" where
  "kind_text l = (case l of Singleton \<Rightarrow> ''singleton'' | Scoped \<Rightarrow> ''scoped'' | Transient \<Rightarrow> ''transient'')"

definition resolveNamed :: "string \<Rightarrow> string \<Rightarrow> container \<Rightarrow> di_outcome" where
  "resolveNamed T name s =
     (case map_of (c_named s) (T, name) of
        None \<Rightarrow> Done (Err (mk_error EC_NotFound (''Named type not registered: '' @ name)))
      | Some info \<Rightarrow> lookup_instance (''named '' @ kind_text (ri_lifetime info)) (Named T name) info s)"

definition resolve :: "string \<Rightarrow> container \<Rightarrow> di_outcome" where
  "resolve T s =
     (case map_of (c_registrations s) T of
        None \<Rightarrow> (case map_of (c_primary s) T of
            Some name \<Rightarrow> resolveNamed T name s
          | None \<Rightarrow> Done (Err (mk_error EC_NotFound (''Type not registered: '' @ T))))
      | Some info \<Rightarrow> lookup_instance (kind_text (ri_lifetime info)) (Plain T) info s)"

text \<open>
  After the creator has returned \<open>obj\<close> (\<open>None\<close> for a null pointer). A singleton whose registration is gone leaves the code
  with a dangling reference: no result.
\<close>

definition store_singleton :: "di_key \<Rightarrow> di_ptr \<Rightarrow> container \<Rightarrow> container option" where
  "store_singleton key p s =
     (case key of
        Plain T \<Rightarrow> (case map_of (c_registrations s) T of
            None \<Rightarrow> None
          | Some info \<Rightarrow> Some (s\<lparr>c_registrations := AList.update T (info\<lparr>ri_singletonInstance := Some p, ri_initialized := True,
                             ri_initFlag := True\<rparr>) (c_registrations s), c_resolved := AList.update T p (c_resolved s)\<rparr>))
      | Named T name \<Rightarrow> (case map_of (c_named s) (T, name) of
            None \<Rightarrow> None
          | Some info \<Rightarrow> Some (s\<lparr>c_named := AList.update (T, name) (info\<lparr>ri_singletonInstance := Some p, ri_initialized := True\<rparr>) (c_named s)\<rparr>)))"

definition store_scoped :: "string \<Rightarrow> di_ptr \<Rightarrow> container \<Rightarrow> container" where
  "store_scoped T p s = s\<lparr>c_scopes := AList.update (c_current s)
     (AList.update T p (case map_of (c_scopes s) (c_current s) of None \<Rightarrow> [] | Some insts \<Rightarrow> insts)) (c_scopes s)\<rparr>"

definition created :: "di_creator \<Rightarrow> di_key \<Rightarrow> Lifetime \<Rightarrow> nat option \<Rightarrow> container \<Rightarrow> (di_ref result \<times> container) option" where
  "created creator key lifetime obj s =
     (case obj of
        None \<Rightarrow> Some (Err (mk_error EC_InternalError ''Creator returned null''), s)
      | Some oid \<Rightarrow>
          let p = \<lparr>p_obj = oid, p_type = cr_type creator\<rparr> in
          case lifetime of
            Singleton \<Rightarrow> map_option (\<lambda>t. (Ok (Borrowed p), t)) (store_singleton key p s)
          | Scoped \<Rightarrow> if c_current s \<noteq> 0 then Some (Ok (Borrowed p), store_scoped (key_type key) p s) else Some (Ok (Owning p), s)
          | Transient \<Rightarrow> Some (Ok (Owning p), s))"

section \<open>Removal\<close>

definition delete_singleton :: "registration \<Rightarrow> container \<Rightarrow> container" where
  "delete_singleton info s =
     (case ri_singletonInstance info of
        Some p \<Rightarrow> if ri_lifetime info = Singleton \<and> ri_initialized info \<and> ri_owned info then run_deleter (ri_deleter info) p s else s
      | None \<Rightarrow> s)"

definition unregister :: "string \<Rightarrow> container \<Rightarrow> container" where
  "unregister T s =
     (case map_of (c_registrations s) T of
        None \<Rightarrow> s
      | Some info \<Rightarrow>
          let s1 = delete_singleton info s
          in s1\<lparr>c_registrations := AList.delete T (c_registrations s1), c_resolved := AList.delete T (c_resolved s1)\<rparr>)"

definition di_clear :: "container \<Rightarrow> container" where
  "di_clear s =
     (let s1 = fold (\<lambda>sc. fold tryDeleteScopeInstance (snd sc)) (c_scopes s) s;
          s2 = s1\<lparr>c_scopes := [], c_current := 0\<rparr>;
          s3 = fold (\<lambda>r. delete_singleton (snd r)) (c_registrations s2) s2;
          s4 = s3\<lparr>c_registrations := [], c_resolved := []\<rparr>;
          s5 = fold (\<lambda>r. delete_singleton (snd r)) (c_named s4) s4
      in s5\<lparr>c_named := [], c_primary := []\<rparr>)"

section \<open>Executions\<close>

text \<open>The container with the calls of creators that have not returned, the innermost first. \<open>Return\<close> is the return of the innermost one.\<close>

record di_sys =
  ds_c :: container
  ds_calls :: "(di_creator \<times> di_key \<times> Lifetime) list"

datatype di_op =
    CreateScope | DisposeScope nat
  | Bind string nat Lifetime | BindInstance string nat | BindNamed string string nat Lifetime | SetPrimary string string
  | Resolve string | ResolveNamed string string | Return "nat option"
  | Unregister string | Clear

definition start_call :: "di_outcome \<Rightarrow> di_sys \<Rightarrow> di_sys" where
  "start_call r s = (case r of Done _ \<Rightarrow> s | Calls c key l \<Rightarrow> s\<lparr>ds_calls := (c, key, l) # ds_calls s\<rparr>)"

definition end_call :: "nat option \<Rightarrow> di_sys \<Rightarrow> di_sys" where
  "end_call obj s = (case ds_calls s of
      [] \<Rightarrow> s
    | (c, key, l) # rest \<Rightarrow> \<lparr>ds_c = (case created c key l obj (ds_c s) of None \<Rightarrow> ds_c s | Some (r, t) \<Rightarrow> t), ds_calls = rest\<rparr>)"

fun di_exec :: "di_op \<Rightarrow> di_sys \<Rightarrow> di_sys" where
  "di_exec CreateScope s = s\<lparr>ds_c := snd (createScope (ds_c s))\<rparr>"
| "di_exec (DisposeScope i) s = s\<lparr>ds_c := disposeScope i (ds_c s)\<rparr>"
| "di_exec (Bind T c l) s = s\<lparr>ds_c := snd (di_bind T c l (ds_c s))\<rparr>"
| "di_exec (BindInstance T oid) s = s\<lparr>ds_c := snd (bindInstance T oid (ds_c s))\<rparr>"
| "di_exec (BindNamed T name c l) s = s\<lparr>ds_c := snd (bindNamed T name c l (ds_c s))\<rparr>"
| "di_exec (SetPrimary T name) s = s\<lparr>ds_c := snd (setPrimary T name (ds_c s))\<rparr>"
| "di_exec (Resolve T) s = start_call (resolve T (ds_c s)) s"
| "di_exec (ResolveNamed T name) s = start_call (resolveNamed T name (ds_c s)) s"
| "di_exec (Return obj) s = end_call obj s"
| "di_exec (Unregister T) s = s\<lparr>ds_c := unregister T (ds_c s)\<rparr>"
| "di_exec Clear s = s\<lparr>ds_c := di_clear (ds_c s)\<rparr>"

definition mk_di_sys :: di_sys where
  "mk_di_sys = \<lparr>ds_c = mk_Container, ds_calls = []\<rparr>"

definition di_run :: "di_op list \<Rightarrow> di_sys" where
  "di_run ops = fold di_exec ops mk_di_sys"

fun ref_ptr :: "di_ref \<Rightarrow> di_ptr" where
  "ref_ptr (Borrowed p) = p"
| "ref_ptr (Owning p) = p"

section \<open>Types\<close>

definition info_typed :: "string \<Rightarrow> registration \<Rightarrow> bool" where
  "info_typed T info \<longleftrightarrow> ri_deleter info \<in> {NoDelete, DeleteAs T} \<and> (\<forall>p. ri_singletonInstance info = Some p \<longrightarrow> p_type p = T)"

definition insts_typed :: "(string \<times> di_ptr) list \<Rightarrow> bool" where
  "insts_typed insts \<longleftrightarrow> (\<forall>x \<in> set insts. p_type (snd x) = fst x)"

definition di_typed :: "container \<Rightarrow> bool" where
  "di_typed s \<longleftrightarrow> (\<forall>x \<in> set (c_registrations s). info_typed (fst x) (snd x))
     \<and> (\<forall>x \<in> set (c_named s). info_typed (fst (fst x)) (snd x))
     \<and> (\<forall>x \<in> set (c_scopes s). insts_typed (snd x))
     \<and> (\<forall>x \<in> set (c_deleted s). p_type (fst x) = snd x)"

lemma set_alist_update: "set (AList.update k v al) \<subseteq> insert (k, v) (set al)"
  by (induction al) auto

lemma set_alist_delete: "set (AList.delete k al) \<subseteq> set al"
  by (auto simp: AList.delete_eq)

lemma typed_upd:
  "(\<forall>x \<in> set al. P x) \<Longrightarrow> P (k, v) \<Longrightarrow> (\<forall>x \<in> set (AList.update k v al). P x)"
  "(\<forall>x \<in> set al. P x) \<Longrightarrow> (\<forall>x \<in> set (AList.delete k al). P x)"
  using set_alist_update [of k v al] set_alist_delete [of k al] by blast+

lemma di_typed_regs: "di_typed s \<Longrightarrow> map_of (c_registrations s) T = Some info \<Longrightarrow> info_typed T info"
  by (fastforce simp: di_typed_def dest!: map_of_SomeD)

lemma di_typed_named: "di_typed s \<Longrightarrow> map_of (c_named s) (T, name) = Some info \<Longrightarrow> info_typed T info"
  by (fastforce simp: di_typed_def dest!: map_of_SomeD)

lemma di_typed_scopes: "di_typed s \<Longrightarrow> map_of (c_scopes s) i = Some insts \<Longrightarrow> insts_typed insts"
  by (fastforce simp: di_typed_def dest!: map_of_SomeD)

lemma named_deleter_typed:
  assumes "di_typed s" "map_option (ri_deleter \<circ> snd) (List.find (\<lambda>(k, np). fst k = T \<and> ri_owned np) (c_named s)) = Some d"
  shows "d \<in> {NoDelete, DeleteAs T}"
proof -
  obtain k np where f: "List.find (\<lambda>(k, np). fst k = T \<and> ri_owned np) (c_named s) = Some (k, np)" and d: "d = ri_deleter np"
    using assms(2) by auto
  from f have "(k, np) \<in> set (c_named s)" "fst k = T" by (auto simp: find_Some_iff) (metis nth_mem)
  with assms(1) have "info_typed T np" by (fastforce simp: di_typed_def)
  with d show ?thesis by (simp add: info_typed_def)
qed

lemma di_typed_deleter:
  assumes "di_typed s" "scope_deleter s T = Some d"
  shows "d \<in> {NoDelete, DeleteAs T}"
proof (cases "\<exists>info. map_of (c_registrations s) T = Some info \<and> ri_owned info")
  case True
  then obtain info where "map_of (c_registrations s) T = Some info" "ri_owned info" by blast
  with assms di_typed_regs [OF assms(1) this(1)] show ?thesis by (simp add: scope_deleter_def info_typed_def)
next
  case False
  with assms(2) have "map_option (ri_deleter \<circ> snd) (List.find (\<lambda>(k, np). fst k = T \<and> ri_owned np) (c_named s)) = Some d"
    unfolding scope_deleter_def by (cases "map_of (c_registrations s) T") (simp_all only: option.case if_False simp_thms option.inject ex_simps)
  then show ?thesis by (rule named_deleter_typed [OF assms(1)])
qed

lemma typed_run_deleter: "di_typed s \<Longrightarrow> d \<in> {NoDelete, DeleteAs (p_type p)} \<Longrightarrow> di_typed (run_deleter d p s)"
  by (cases d) (simp_all add: run_deleter_def di_typed_def)
lemma run_deleter_frame [simp]:
  "c_registrations (run_deleter d p s) = c_registrations s" "c_named (run_deleter d p s) = c_named s" "c_scopes (run_deleter d p s) = c_scopes s"
  "c_primary (run_deleter d p s) = c_primary s" "c_current (run_deleter d p s) = c_current s" "c_next (run_deleter d p s) = c_next s"
  by (simp_all add: run_deleter_def split: di_deleter.splits)

lemma typed_tryDelete: "di_typed s \<Longrightarrow> p_type (snd tp) = fst tp \<Longrightarrow> di_typed (tryDeleteScopeInstance tp s)"
  using di_typed_deleter [of s "fst tp"] typed_run_deleter [of s _ "snd tp"]
  by (simp add: tryDeleteScopeInstance_def split: option.splits)

lemma tryDelete_frame [simp]:
  "c_registrations (tryDeleteScopeInstance tp s) = c_registrations s" "c_named (tryDeleteScopeInstance tp s) = c_named s"
  "c_scopes (tryDeleteScopeInstance tp s) = c_scopes s" "c_primary (tryDeleteScopeInstance tp s) = c_primary s"
  "c_current (tryDeleteScopeInstance tp s) = c_current s" "c_next (tryDeleteScopeInstance tp s) = c_next s"
  by (simp_all add: tryDeleteScopeInstance_def split: option.splits)

lemma fold_tryDelete_frame [simp]:
  "c_registrations (fold tryDeleteScopeInstance insts s) = c_registrations s" "c_named (fold tryDeleteScopeInstance insts s) = c_named s"
  "c_scopes (fold tryDeleteScopeInstance insts s) = c_scopes s" "c_primary (fold tryDeleteScopeInstance insts s) = c_primary s"
  "c_current (fold tryDeleteScopeInstance insts s) = c_current s" "c_next (fold tryDeleteScopeInstance insts s) = c_next s"
  by (induction insts arbitrary: s) simp_all

lemma typed_fold_tryDelete: "di_typed s \<Longrightarrow> insts_typed insts \<Longrightarrow> di_typed (fold tryDeleteScopeInstance insts s)"
  by (induction insts arbitrary: s) (auto simp: insts_typed_def typed_tryDelete)

lemma typed_delete_singleton: "di_typed s \<Longrightarrow> info_typed T info \<Longrightarrow> di_typed (delete_singleton info s)"
  by (auto simp: delete_singleton_def info_typed_def intro: typed_run_deleter split: option.splits)

lemma delete_singleton_frame [simp]:
  "c_registrations (delete_singleton info s) = c_registrations s" "c_named (delete_singleton info s) = c_named s"
  "c_scopes (delete_singleton info s) = c_scopes s"
  by (simp_all add: delete_singleton_def split: option.splits)

lemma typed_set:
  "di_typed s \<Longrightarrow> info_typed T info \<Longrightarrow> di_typed (s\<lparr>c_registrations := AList.update T info (c_registrations s), c_resolved := r\<rparr>)"
  "di_typed s \<Longrightarrow> info_typed T info \<Longrightarrow> di_typed (s\<lparr>c_named := AList.update (T, name) info (c_named s)\<rparr>)"
  using typed_upd(1) [of "c_registrations s" "\<lambda>x. info_typed (fst x) (snd x)" T info]
    typed_upd(1) [of "c_named s" "\<lambda>x. info_typed (fst (fst x)) (snd x)" "(T, name)" info]
  by (simp_all add: di_typed_def)

lemma typed_created:
  assumes "di_typed s" "created c key l obj s = Some (r, t)" "cr_type c = key_type key"
  shows "di_typed t"
proof (cases obj)
  case (Some oid)
  let ?p = "\<lparr>p_obj = oid, p_type = key_type key\<rparr>"
  have "di_typed t" if "store_singleton key ?p s = Some t" for t
  proof (cases key)
    case (Plain T)
    with that obtain info where "map_of (c_registrations s) T = Some info" by (auto simp: store_singleton_def split: option.splits)
    with that Plain di_typed_regs [OF assms(1) this] show ?thesis
      using typed_set(1) [OF assms(1)] by (auto simp: store_singleton_def info_typed_def)
  next
    case (Named T name)
    with that obtain info where "map_of (c_named s) (T, name) = Some info" by (auto simp: store_singleton_def split: option.splits)
    with that Named di_typed_named [OF assms(1) this] show ?thesis
      using typed_set(2) [OF assms(1)] by (auto simp: store_singleton_def info_typed_def)
  qed
  moreover have "di_typed (store_scoped (key_type key) ?p s)"
  proof -
    have "insts_typed (AList.update (key_type key) ?p (case map_of (c_scopes s) (c_current s) of None \<Rightarrow> [] | Some insts \<Rightarrow> insts))"
      unfolding insts_typed_def
      by (rule typed_upd(1), cases "map_of (c_scopes s) (c_current s)") (use di_typed_scopes [OF assms(1)] in \<open>simp_all add: insts_typed_def\<close>)
    then show ?thesis
      using assms(1) typed_upd(1) [of "c_scopes s" "\<lambda>x. insts_typed (snd x)"] by (simp add: store_scoped_def di_typed_def)
  qed
  ultimately show ?thesis using assms Some by (auto simp: created_def Let_def split: Lifetime.splits if_splits)
qed (use assms in \<open>simp add: created_def\<close>)

lemma typed_fold_scopes:
  "di_typed s \<Longrightarrow> \<forall>x \<in> set scs. insts_typed (snd x) \<Longrightarrow> di_typed (fold (\<lambda>sc. fold tryDeleteScopeInstance (snd sc)) scs s)"
  by (induction scs arbitrary: s) (auto intro: typed_fold_tryDelete)

lemma typed_fold_singletons:
  "di_typed s \<Longrightarrow> \<forall>x \<in> set rs. info_typed (f x) (snd x) \<Longrightarrow> di_typed (fold (\<lambda>r. delete_singleton (snd r)) rs s)"
proof (induction rs arbitrary: s)
  case (Cons x rs)
  then have "di_typed (delete_singleton (snd x) s)" using typed_delete_singleton [of s "f x" "snd x"] by simp
  with Cons show ?case by simp
qed simp

lemma fold_scopes_frame [simp]:
  "c_registrations (fold (\<lambda>sc. fold tryDeleteScopeInstance (snd sc)) scs s) = c_registrations s"
  "c_named (fold (\<lambda>sc. fold tryDeleteScopeInstance (snd sc)) scs s) = c_named s"
  "c_scopes (fold (\<lambda>sc. fold tryDeleteScopeInstance (snd sc)) scs s) = c_scopes s"
  by (induction scs arbitrary: s) simp_all

lemma fold_singletons_frame [simp]:
  "c_registrations (fold (\<lambda>r. delete_singleton (snd r)) rs s) = c_registrations s"
  "c_named (fold (\<lambda>r. delete_singleton (snd r)) rs s) = c_named s"
  "c_scopes (fold (\<lambda>r. delete_singleton (snd r)) rs s) = c_scopes s"
  by (induction rs arbitrary: s) simp_all

lemma typed_drop:
  "di_typed s \<Longrightarrow> di_typed (s\<lparr>c_scopes := AList.delete i (c_scopes s), c_current := n\<rparr>)"
  "di_typed s \<Longrightarrow> di_typed (s\<lparr>c_registrations := AList.delete T (c_registrations s), c_resolved := r\<rparr>)"
  "di_typed s \<Longrightarrow> di_typed (s\<lparr>c_scopes := [], c_current := n\<rparr>)"
  "di_typed s \<Longrightarrow> di_typed (s\<lparr>c_registrations := [], c_resolved := r\<rparr>)"
  "di_typed s \<Longrightarrow> di_typed (s\<lparr>c_named := [], c_primary := q\<rparr>)"
  using set_alist_delete [of i "c_scopes s"] set_alist_delete [of T "c_registrations s"] by (auto simp: di_typed_def)

lemma typed_clear:
  assumes "di_typed s"
  shows "di_typed (di_clear s)"
proof -
  let ?s1 = "fold (\<lambda>sc. fold tryDeleteScopeInstance (snd sc)) (c_scopes s) s"
  let ?s2 = "?s1\<lparr>c_scopes := [], c_current := 0\<rparr>"
  let ?s4 = "(fold (\<lambda>r. delete_singleton (snd r)) (c_registrations ?s2) ?s2)\<lparr>c_registrations := [], c_resolved := []\<rparr>"
  have 2: "di_typed ?s2" using assms by (intro typed_drop(3) typed_fold_scopes) (simp_all add: di_typed_def)
  have 4: "di_typed ?s4"
    by (intro typed_drop(4) typed_fold_singletons [OF 2, of _ fst]) (use assms in \<open>simp add: di_typed_def\<close>)
  show ?thesis unfolding di_clear_def Let_def
    by (intro typed_drop(5) typed_fold_singletons [OF 4, of _ "\<lambda>x. fst (fst x)"]) (use assms in \<open>simp add: di_typed_def\<close>)
qed

lemma typed_unregister:
  assumes "di_typed s"
  shows "di_typed (unregister T s)"
proof (cases "map_of (c_registrations s) T")
  case (Some info)
  have "di_typed (delete_singleton info s)" by (rule typed_delete_singleton [OF assms di_typed_regs [OF assms Some]])
  from typed_drop(2) [OF this] Some show ?thesis by (simp add: unregister_def Let_def)
qed (use assms in \<open>simp add: unregister_def\<close>)

lemma typed_dispose:
  assumes "di_typed s"
  shows "di_typed (disposeScope i s)"
proof (cases "map_of (c_scopes s) i")
  case (Some insts)
  have "di_typed (fold tryDeleteScopeInstance insts s)" by (rule typed_fold_tryDelete [OF assms di_typed_scopes [OF assms Some]])
  from typed_drop(1) [OF this] Some show ?thesis by (simp add: disposeScope_def Let_def)
qed (use assms in \<open>simp add: disposeScope_def\<close>)

lemma typed_binds:
  assumes "di_typed s"
  shows "di_typed (snd (di_bind T c l s))" "di_typed (snd (bindInstance T oid s))" "di_typed (snd (bindNamed T name c l s))"
    "di_typed (snd (setPrimary T name s))"
proof -
  have "info_typed T (fresh_registration l c T)" by (simp add: info_typed_def fresh_registration_def)
  then show "di_typed (snd (di_bind T c l s))" "di_typed (snd (bindNamed T name c l s))"
    using assms by (simp_all add: di_bind_def bindNamed_def di_typed_def)
  show "di_typed (snd (bindInstance T oid s))" "di_typed (snd (setPrimary T name s))"
    using assms by (simp_all add: bindInstance_def setPrimary_def di_typed_def info_typed_def [of T])
qed

text \<open>Where a creator comes from: it was given for that key, in one of the operations \<open>H\<close>, and has the type of the key.\<close>

fun bound_by :: "di_op list \<Rightarrow> di_key \<Rightarrow> di_creator \<Rightarrow> bool" where
  "bound_by H (Plain T) c \<longleftrightarrow> cr_type c = T \<and> (\<exists>l. Bind T (cr_id c) l \<in> set H)"
| "bound_by H (Named T name) c \<longleftrightarrow> cr_type c = T \<and> (\<exists>l. BindNamed T name (cr_id c) l \<in> set H)"

definition creator_ok :: "di_op list \<Rightarrow> di_key \<Rightarrow> registration \<Rightarrow> bool" where
  "creator_ok H key info \<longleftrightarrow> (\<forall>c. ri_creator info = Some c \<longrightarrow> bound_by H key c)"

definition di_bound :: "di_op list \<Rightarrow> container \<Rightarrow> bool" where
  "di_bound H s \<longleftrightarrow> (\<forall>x \<in> set (c_registrations s). creator_ok H (Plain (fst x)) (snd x))
     \<and> (\<forall>x \<in> set (c_named s). creator_ok H (Named (fst (fst x)) (snd (fst x))) (snd x))"

lemma di_bound_regs: "di_bound H s \<Longrightarrow> map_of (c_registrations s) T = Some info \<Longrightarrow> creator_ok H (Plain T) info"
  by (fastforce simp: di_bound_def dest!: map_of_SomeD)

lemma di_bound_named: "di_bound H s \<Longrightarrow> map_of (c_named s) (T, name) = Some info \<Longrightarrow> creator_ok H (Named T name) info"
  by (fastforce simp: di_bound_def dest!: map_of_SomeD)

lemma bound_store:
  assumes "di_bound H s" "store_singleton key p s = Some t"
  shows "di_bound H t"
proof (cases key)
  case (Plain T)
  with assms(2) obtain info where i: "map_of (c_registrations s) T = Some info" by (auto simp: store_singleton_def split: option.splits)
  have "\<forall>x \<in> set (AList.update T (info\<lparr>ri_singletonInstance := Some p, ri_initialized := True, ri_initFlag := True\<rparr>) (c_registrations s)).
      creator_ok H (Plain (fst x)) (snd x)"
    by (rule typed_upd(1)) (use assms(1) di_bound_regs [OF assms(1) i] in \<open>simp_all add: di_bound_def creator_ok_def\<close>)
  with assms Plain i show ?thesis by (auto simp: store_singleton_def di_bound_def)
next
  case (Named T name)
  with assms(2) obtain info where i: "map_of (c_named s) (T, name) = Some info" by (auto simp: store_singleton_def split: option.splits)
  have "\<forall>x \<in> set (AList.update (T, name) (info\<lparr>ri_singletonInstance := Some p, ri_initialized := True\<rparr>) (c_named s)).
      creator_ok H (Named (fst (fst x)) (snd (fst x))) (snd x)"
    by (rule typed_upd(1)) (use assms(1) di_bound_named [OF assms(1) i] in \<open>simp_all add: di_bound_def creator_ok_def\<close>)
  with assms Named i show ?thesis by (auto simp: store_singleton_def di_bound_def)
qed

lemma bound_created: "di_bound H s \<Longrightarrow> created c key l obj s = Some (r, t) \<Longrightarrow> di_bound H t"
  using bound_store [of H s key] by (auto simp: created_def Let_def store_scoped_def di_bound_def split: option.splits Lifetime.splits if_splits)

lemma bound_frames:
  "di_bound H s \<Longrightarrow> di_bound H (snd (createScope s))" "di_bound H s \<Longrightarrow> di_bound H (disposeScope i s)" "di_bound H s \<Longrightarrow> di_bound H (unregister T s)"
  "di_bound H s \<Longrightarrow> di_bound H (di_clear s)" "di_bound H s \<Longrightarrow> di_bound H (snd (bindInstance T oid s))" "di_bound H s \<Longrightarrow> di_bound H (snd (setPrimary T name s))"
  using set_alist_delete [of T "c_registrations s"]
  by (auto simp: di_bound_def createScope_def disposeScope_def unregister_def di_clear_def bindInstance_def setPrimary_def Let_def creator_ok_def split: option.splits)

lemma bound_binds:
  "di_bound H s \<Longrightarrow> Bind T c l \<in> set H \<Longrightarrow> di_bound H (snd (di_bind T c l s))"
  "di_bound H s \<Longrightarrow> BindNamed T name c l \<in> set H \<Longrightarrow> di_bound H (snd (bindNamed T name c l s))"
  by (auto simp: di_bound_def di_bind_def bindNamed_def creator_ok_def fresh_registration_def)

lemma bound_type: "bound_by H key c \<Longrightarrow> cr_type c = key_type key"
  by (cases key) auto

lemma lookup_bound: "lookup_instance kind key info s = Calls c key' l \<Longrightarrow> creator_ok H key info \<Longrightarrow> key' = key \<and> bound_by H key c"
  by (auto simp: lookup_instance_def Let_def creator_ok_def split: Lifetime.splits option.splits if_splits)

lemma resolveNamed_bound: "di_bound H s \<Longrightarrow> resolveNamed T name s = Calls c key l \<Longrightarrow> bound_by H key c \<and> key = Named T name"
  using lookup_bound di_bound_named by (fastforce simp: resolveNamed_def split: option.splits)

lemma resolve_bound: "di_bound H s \<Longrightarrow> resolve T s = Calls c key l \<Longrightarrow> bound_by H key c \<and> key_type key = T"
proof (cases "map_of (c_registrations s) T")
  case None
  moreover assume "di_bound H s" "resolve T s = Calls c key l"
  ultimately show ?thesis using resolveNamed_bound [of H s T _ c key l] by (fastforce simp: resolve_def split: option.splits)
next
  case (Some info)
  moreover assume "di_bound H s" "resolve T s = Calls c key l"
  ultimately show ?thesis using lookup_bound [of _ "Plain T" info s c key l H] di_bound_regs [of H s T info] by (fastforce simp: resolve_def)
qed

definition sys_typed :: "di_op list \<Rightarrow> di_sys \<Rightarrow> bool" where
  "sys_typed H s \<longleftrightarrow> di_typed (ds_c s) \<and> di_bound H (ds_c s) \<and> (\<forall>x \<in> set (ds_calls s). cr_type (fst x) = key_type (fst (snd x)))"

lemma typed_start:
  assumes "sys_typed H s" "\<And>c key l. r = Calls c key l \<Longrightarrow> bound_by H key c"
  shows "sys_typed H (start_call r s)"
  using assms bound_type by (cases r) (auto simp: start_call_def sys_typed_def)

lemma typed_end:
  assumes "sys_typed H s"
  shows "sys_typed H (end_call obj s)"
proof (cases "ds_calls s")
  case (Cons x rest)
  obtain c key l where x: "x = (c, key, l)" by (cases x) auto
  then have "cr_type c = key_type key" using assms Cons by (simp add: sys_typed_def)
  then have "di_typed t \<and> di_bound H t" if "created c key l obj (ds_c s) = Some (r, t)" for r t
    using that assms typed_created bound_created by (auto simp: sys_typed_def)
  with assms Cons x show ?thesis by (auto simp: end_call_def sys_typed_def split: option.splits)
qed (use assms in \<open>simp add: end_call_def\<close>)

lemma typed_createScope: "di_typed s \<Longrightarrow> di_typed (snd (createScope s))"
  using typed_upd(1) [of "c_scopes s" "\<lambda>x. insts_typed (snd x)" "c_next s" "[]"]
  by (simp add: createScope_def Let_def di_typed_def insts_typed_def)

lemma typed_exec:
  assumes "sys_typed H s" "p \<in> set H"
  shows "sys_typed H (di_exec p s)"
proof (cases p)
  case (Resolve T)
  have "sys_typed H (start_call (resolve T (ds_c s)) s)"
    by (rule typed_start [OF assms(1)]) (use assms(1) resolve_bound in \<open>auto simp: sys_typed_def\<close>)
  with Resolve show ?thesis by simp
next
  case (ResolveNamed T name)
  have "sys_typed H (start_call (resolveNamed T name (ds_c s)) s)"
    by (rule typed_start [OF assms(1)]) (use assms(1) resolveNamed_bound in \<open>auto simp: sys_typed_def\<close>)
  with ResolveNamed show ?thesis by simp
next
  case (Return obj)
  then show ?thesis using assms(1) by (simp add: typed_end)
qed (use assms in \<open>auto simp: sys_typed_def typed_createScope typed_clear typed_unregister typed_dispose typed_binds bound_frames bound_binds\<close>)

interpretation di_types: inductive_invariant "\<lambda>s. s = mk_di_sys" "\<lambda>s t. \<exists>p \<in> set H. t = di_exec p s" "sys_typed H" for H
proof
  show "sys_typed H s" if "s = mk_di_sys" for s using that by (simp add: sys_typed_def di_typed_def di_bound_def mk_di_sys_def mk_Container_def)
qed (auto intro: typed_exec)

lemma run_steps: "set ops \<subseteq> set H \<Longrightarrow> (\<lambda>s t. \<exists>p \<in> set H. t = di_exec p s)\<^sup>*\<^sup>* s (fold di_exec ops s)"
  by (induction ops arbitrary: s) (auto intro: converse_rtranclp_into_rtranclp)

lemma di_run_typed: "sys_typed ops (di_run ops)"
  unfolding di_run_def by (rule di_types.reach_inv_steps [OF di_types.inv_init run_steps]) simp_all

lemma lookup_typed:
  assumes "di_typed s" "info_typed (key_type key) info"
  shows "lookup_instance kind key info s = Done (Ok r) \<Longrightarrow> p_type (ref_ptr r) = key_type key"
    and "lookup_instance kind key info s = Calls c key' l \<Longrightarrow> key_type key' = key_type key"
proof -
  have sc: "p_type p = T" if "scope_instance T s = Some p" for T p
  proof -
    from that obtain insts where i: "map_of (c_scopes s) (c_current s) = Some insts" "map_of insts T = Some p"
      by (auto simp: scope_instance_def bind_eq_Some_conv split: if_splits)
    from di_typed_scopes [OF assms(1) i(1)] map_of_SomeD [OF i(2)] show ?thesis by (auto simp: insts_typed_def)
  qed
  show "lookup_instance kind key info s = Done (Ok r) \<Longrightarrow> p_type (ref_ptr r) = key_type key"
    using assms(2) by (auto simp: lookup_instance_def Let_def info_typed_def dest: sc split: Lifetime.splits option.splits if_splits)
  show "lookup_instance kind key info s = Calls c key' l \<Longrightarrow> key_type key' = key_type key"
    by (auto simp: lookup_instance_def Let_def split: Lifetime.splits option.splits if_splits)
qed

lemma resolve_typed:
  assumes "di_typed s" "f = resolveNamed T name \<or> f = resolve T"
  shows "f s = Done (Ok r) \<Longrightarrow> p_type (ref_ptr r) = T" and "f s = Calls c key l \<Longrightarrow> key_type key = T"
proof -
  have n: "(resolveNamed T name s = Done (Ok r) \<longrightarrow> p_type (ref_ptr r) = T) \<and> (resolveNamed T name s = Calls c key l \<longrightarrow> key_type key = T)" for name
  proof (cases "map_of (c_named s) (T, name)")
    case (Some info)
    with lookup_typed [OF assms(1), of "Named T name" info] di_typed_named [OF assms(1) Some] show ?thesis
      by (auto simp: resolveNamed_def)
  qed (simp add: resolveNamed_def)
  have p: "(resolve T s = Done (Ok r) \<longrightarrow> p_type (ref_ptr r) = T) \<and> (resolve T s = Calls c key l \<longrightarrow> key_type key = T)"
  proof (cases "map_of (c_registrations s) T")
    case None
    with n show ?thesis by (simp add: resolve_def split: option.splits)
  next
    case (Some info)
    with lookup_typed [OF assms(1), of "Plain T" info] di_typed_regs [OF assms(1) Some] show ?thesis
      by (auto simp: resolve_def)
  qed
  show "f s = Done (Ok r) \<Longrightarrow> p_type (ref_ptr r) = T" "f s = Calls c key l \<Longrightarrow> key_type key = T"
    using assms(2) n p by auto
qed


section \<open>Objects are deleted once\<close>

text \<open>The objects the container still refers to, with multiplicity.\<close>

definition info_objs :: "registration \<Rightarrow> nat multiset" where
  "info_objs info = (case ri_singletonInstance info of None \<Rightarrow> {#} | Some p \<Rightarrow> {#p_obj p#})"

definition sum_objs :: "('b \<Rightarrow> nat multiset) \<Rightarrow> ('k \<times> 'b) list \<Rightarrow> nat multiset" where
  "sum_objs f al = sum_list (map (f \<circ> snd) al)"

definition insts_objs :: "(string \<times> di_ptr) list \<Rightarrow> nat multiset" where
  "insts_objs = sum_objs (\<lambda>p. {#p_obj p#})"

definition live_objs :: "container \<Rightarrow> nat multiset" where
  "live_objs s = sum_objs info_objs (c_registrations s) + sum_objs info_objs (c_named s) + sum_objs insts_objs (c_scopes s)"

definition deleted_objs :: "container \<Rightarrow> nat multiset" where
  "deleted_objs s = mset (map (p_obj \<circ> fst) (c_deleted s))"

definition all_objs :: "container \<Rightarrow> nat multiset" where
  "all_objs s = live_objs s + deleted_objs s"

lemma sum_objs_simps [simp]: "sum_objs f [] = {#}" "sum_objs f (x # al) = f (snd x) + sum_objs f al"
  by (simp_all add: sum_objs_def)

lemma sum_objs_delete: "sum_objs f (AList.delete k al) \<subseteq># sum_objs f al"
  by (induction al) (auto simp: subset_mset.add_increasing intro: subset_mset.order_trans)

lemma sum_objs_delete_at: "map_of al k = Some v \<Longrightarrow> sum_objs f (AList.delete k al) + f v \<subseteq># sum_objs f al"
proof (induction al)
  case (Cons x al)
  then show ?case using sum_objs_delete [of f k al] by (cases "fst x = k") (auto simp: ac_simps)
qed simp

lemma sum_objs_update_at: "map_of al k = Some v \<Longrightarrow> sum_objs f (AList.update k w al) + f v = sum_objs f al + f w"
  by (induction al) (auto simp: ac_simps)

lemma sum_objs_update_new: "map_of al k = None \<Longrightarrow> sum_objs f (AList.update k w al) = sum_objs f al + f w"
  by (induction al) (auto simp: ac_simps)

lemma sum_objs_update: "sum_objs f (AList.update k w al) \<subseteq># sum_objs f al + f w"
  using sum_objs_update_new [of al k f w] sum_objs_update_at [of al k _ f w] by (cases "map_of al k") (simp, metis mset_subset_eq_add_left option.exhaust)

lemma sum_objs_mem: "map_of al k = Some v \<Longrightarrow> f v \<subseteq># sum_objs f al"
  by (induction al) (auto split: if_splits intro: subset_mset.add_increasing)

lemma run_deleter_objs: "deleted_objs (run_deleter d p s) \<subseteq># deleted_objs s + {#p_obj p#}"
  by (cases d) (simp_all add: run_deleter_def deleted_objs_def)

lemma tryDelete_objs: "deleted_objs (tryDeleteScopeInstance tp s) \<subseteq># deleted_objs s + {#p_obj (snd tp)#}"
  using run_deleter_objs by (auto simp: tryDeleteScopeInstance_def split: option.splits)

lemma delete_singleton_objs: "deleted_objs (delete_singleton info s) \<subseteq># deleted_objs s + info_objs info"
  using run_deleter_objs by (auto simp: delete_singleton_def info_objs_def split: option.splits)

lemma fold_deleted:
  assumes "\<And>x s. deleted_objs (g x s) \<subseteq># deleted_objs s + f (snd x)"
  shows "deleted_objs (fold g al s) \<subseteq># deleted_objs s + sum_objs f al"
proof (induction al arbitrary: s)
  case (Cons x al)
  have "deleted_objs (fold g al (g x s)) \<subseteq># deleted_objs (g x s) + sum_objs f al" by (rule Cons.IH)
  also have "\<dots> \<subseteq># deleted_objs s + f (snd x) + sum_objs f al" using assms [of x s] by simp
  finally show ?case by (simp add: ac_simps)
qed simp

lemma fold_tryDelete_objs: "deleted_objs (fold tryDeleteScopeInstance insts s) \<subseteq># deleted_objs s + insts_objs insts"
  unfolding insts_objs_def by (rule fold_deleted) (rule tryDelete_objs)

text \<open>What an operation may add.\<close>

fun op_objs :: "di_op \<Rightarrow> nat list" where
  "op_objs (Return (Some oid)) = [oid]"
| "op_objs (BindInstance T oid) = [oid]"
| "op_objs _ = []"

lemma objs_binds:
  "all_objs (snd (createScope s)) \<subseteq># all_objs s" "all_objs (snd (di_bind T c l s)) \<subseteq># all_objs s"
  "all_objs (snd (bindNamed T name c l s)) \<subseteq># all_objs s" "all_objs (snd (setPrimary T name s)) \<subseteq># all_objs s"
  "all_objs (snd (bindInstance T oid s)) \<subseteq># all_objs s + {#oid#}"
proof -
  have "insts_objs [] = {#}" by (simp add: insts_objs_def)
  then show "all_objs (snd (createScope s)) \<subseteq># all_objs s"
    using sum_objs_update [of insts_objs "c_next s" "[]" "c_scopes s"]
    by (simp add: createScope_def Let_def all_objs_def live_objs_def deleted_objs_def)
qed (simp_all add: di_bind_def bindNamed_def setPrimary_def bindInstance_def all_objs_def live_objs_def deleted_objs_def info_objs_def
    fresh_registration_def)

lemma objs_dispose: "all_objs (disposeScope i s) \<subseteq># all_objs s"
proof (cases "map_of (c_scopes s) i")
  case (Some insts)
  have "all_objs (disposeScope i s) = sum_objs info_objs (c_registrations s) + sum_objs info_objs (c_named s)
      + (sum_objs insts_objs (AList.delete i (c_scopes s)) + deleted_objs (fold tryDeleteScopeInstance insts s))"
    using Some by (simp add: disposeScope_def Let_def all_objs_def live_objs_def deleted_objs_def ac_simps)
  also have "\<dots> \<subseteq># sum_objs info_objs (c_registrations s) + sum_objs info_objs (c_named s)
      + (sum_objs insts_objs (AList.delete i (c_scopes s)) + insts_objs insts + deleted_objs s)"
    using fold_tryDelete_objs [of insts s] by (simp add: ac_simps)
  also have "\<dots> \<subseteq># all_objs s"
    using sum_objs_delete_at [OF Some, of insts_objs] by (simp add: all_objs_def live_objs_def ac_simps)
  finally show ?thesis .
qed (simp add: disposeScope_def)

lemma objs_unregister: "all_objs (unregister T s) \<subseteq># all_objs s"
proof (cases "map_of (c_registrations s) T")
  case (Some info)
  have "all_objs (unregister T s) = sum_objs info_objs (c_named s) + sum_objs insts_objs (c_scopes s)
      + (sum_objs info_objs (AList.delete T (c_registrations s)) + deleted_objs (delete_singleton info s))"
    using Some by (simp add: unregister_def Let_def all_objs_def live_objs_def deleted_objs_def ac_simps)
  also have "\<dots> \<subseteq># sum_objs info_objs (c_named s) + sum_objs insts_objs (c_scopes s)
      + (sum_objs info_objs (AList.delete T (c_registrations s)) + info_objs info + deleted_objs s)"
    using delete_singleton_objs [of info s] by (simp add: ac_simps)
  also have "\<dots> \<subseteq># all_objs s"
    using sum_objs_delete_at [OF Some, of info_objs] by (simp add: all_objs_def live_objs_def ac_simps)
  finally show ?thesis .
qed (simp add: unregister_def)

lemma deleted_objs_frame [simp]:
  "deleted_objs (s\<lparr>c_scopes := x, c_current := n\<rparr>) = deleted_objs s" "deleted_objs (s\<lparr>c_registrations := y, c_resolved := r\<rparr>) = deleted_objs s"
  "deleted_objs (s\<lparr>c_named := z, c_primary := q\<rparr>) = deleted_objs s"
  by (simp_all add: deleted_objs_def)

lemma objs_clear: "all_objs (di_clear s) \<subseteq># all_objs s"
proof -
  let ?s1 = "fold (\<lambda>sc. fold tryDeleteScopeInstance (snd sc)) (c_scopes s) s"
  let ?s2 = "?s1\<lparr>c_scopes := [], c_current := 0\<rparr>"
  let ?s3 = "fold (\<lambda>r. delete_singleton (snd r)) (c_registrations s) ?s2"
  let ?s4 = "?s3\<lparr>c_registrations := [], c_resolved := []\<rparr>"
  let ?s5 = "fold (\<lambda>r. delete_singleton (snd r)) (c_named s) ?s4"
  have 1: "deleted_objs ?s1 \<subseteq># deleted_objs s + sum_objs insts_objs (c_scopes s)"
    by (rule fold_deleted) (rule fold_tryDelete_objs)
  have 3: "deleted_objs ?s3 \<subseteq># deleted_objs ?s2 + sum_objs info_objs (c_registrations s)"
    by (rule fold_deleted) (rule delete_singleton_objs)
  have 5: "deleted_objs ?s5 \<subseteq># deleted_objs ?s4 + sum_objs info_objs (c_named s)"
    by (rule fold_deleted) (rule delete_singleton_objs)
  have "all_objs (di_clear s) = deleted_objs ?s5"
    by (simp add: di_clear_def Let_def all_objs_def live_objs_def)
  also have "\<dots> \<subseteq># deleted_objs ?s3 + sum_objs info_objs (c_named s)" using 5 by simp
  also have "\<dots> \<subseteq># deleted_objs ?s1 + sum_objs info_objs (c_registrations s) + sum_objs info_objs (c_named s)" using 3 by simp
  also have "\<dots> \<subseteq># deleted_objs s + sum_objs insts_objs (c_scopes s) + sum_objs info_objs (c_registrations s) + sum_objs info_objs (c_named s)"
    using 1 by simp
  finally show ?thesis by (simp add: all_objs_def live_objs_def ac_simps)
qed

lemma objs_store_singleton: "store_singleton key p s = Some t \<Longrightarrow> all_objs t \<subseteq># all_objs s + {#p_obj p#}"
proof (cases key)
  case (Plain T)
  assume st: "store_singleton key p s = Some t"
  then obtain info where "map_of (c_registrations s) T = Some info" using Plain by (auto simp: store_singleton_def split: option.splits)
  with st Plain sum_objs_update [of info_objs T "info\<lparr>ri_singletonInstance := Some p, ri_initialized := True, ri_initFlag := True\<rparr>" "c_registrations s"]
  show ?thesis by (auto simp: store_singleton_def all_objs_def live_objs_def deleted_objs_def info_objs_def)
next
  case (Named T name)
  assume st: "store_singleton key p s = Some t"
  then obtain info where "map_of (c_named s) (T, name) = Some info" using Named by (auto simp: store_singleton_def split: option.splits)
  with st Named sum_objs_update [of info_objs "(T, name)" "info\<lparr>ri_singletonInstance := Some p, ri_initialized := True\<rparr>" "c_named s"]
  show ?thesis by (auto simp: store_singleton_def all_objs_def live_objs_def deleted_objs_def info_objs_def)
qed

lemma objs_store_scoped: "all_objs (store_scoped T p s) \<subseteq># all_objs s + {#p_obj p#}"
proof -
  define insts where "insts = (case map_of (c_scopes s) (c_current s) of None \<Rightarrow> [] | Some insts \<Rightarrow> insts)"
  have new: "insts_objs (AList.update T p insts) \<subseteq># insts_objs insts + {#p_obj p#}"
    unfolding insts_objs_def using sum_objs_update [of "\<lambda>p. {#p_obj p#}" T p insts] by simp
  have "sum_objs insts_objs (AList.update (c_current s) (AList.update T p insts) (c_scopes s)) \<subseteq># sum_objs insts_objs (c_scopes s) + {#p_obj p#}"
  proof (cases "map_of (c_scopes s) (c_current s)")
    case None
    then have "insts_objs insts = {#}" by (simp add: insts_def insts_objs_def)
    with new sum_objs_update_new [OF None, of insts_objs "AList.update T p insts"] show ?thesis by simp
  next
    case (Some old)
    then have "insts = old" by (simp add: insts_def)
    have "sum_objs insts_objs (AList.update (c_current s) (AList.update T p insts) (c_scopes s)) + insts_objs insts
        \<subseteq># sum_objs insts_objs (c_scopes s) + {#p_obj p#} + insts_objs insts"
      using sum_objs_update_at [OF Some, of insts_objs "AList.update T p insts"] new \<open>insts = old\<close> by (simp add: ac_simps)
    then show ?thesis by (rule subset_mset.add_le_imp_le_right)
  qed
  then show ?thesis unfolding store_scoped_def insts_def [symmetric] by (simp add: all_objs_def live_objs_def deleted_objs_def)
qed

lemma objs_created:
  assumes "created c key l obj s = Some (r, t)"
  shows "all_objs t \<subseteq># all_objs s + mset (op_objs (Return obj))"
proof (cases obj)
  case None
  with assms show ?thesis by (simp add: created_def)
next
  case (Some oid)
  let ?p = "\<lparr>p_obj = oid, p_type = cr_type c\<rparr>"
  show ?thesis using assms Some objs_store_singleton [of key ?p s t] objs_store_scoped [of "key_type key" ?p s]
    by (auto simp: created_def Let_def split: Lifetime.splits if_splits)
qed

lemma objs_exec: "all_objs (ds_c (di_exec p s)) \<subseteq># all_objs (ds_c s) + mset (op_objs p)"
proof (cases p)
  case (Return obj)
  show ?thesis
  proof (cases "ds_calls s")
    case (Cons x rest)
    obtain c key l where x: "x = (c, key, l)" by (cases x) auto
    from Cons x Return objs_created [of c key l obj "ds_c s"] show ?thesis by (auto simp: end_call_def split: option.splits)
  qed (use Return in \<open>simp add: end_call_def\<close>)
next
  case (BindInstance T oid)
  then show ?thesis using objs_binds(5) by simp
qed (simp_all add: objs_binds objs_dispose objs_unregister objs_clear start_call_def split: di_outcome.splits)

lemma objs_run: "all_objs (ds_c (fold di_exec ops s)) \<subseteq># all_objs (ds_c s) + mset (concat (map op_objs ops))"
proof (induction ops arbitrary: s)
  case (Cons p ops)
  have "all_objs (ds_c (fold di_exec ops (di_exec p s))) \<subseteq># all_objs (ds_c (di_exec p s)) + mset (concat (map op_objs ops))" by (rule Cons.IH)
  also have "\<dots> \<subseteq># all_objs (ds_c s) + mset (op_objs p) + mset (concat (map op_objs ops))" using objs_exec [of p s] by simp
  finally show ?case by (simp add: ac_simps)
qed simp

lemma scope_live: "scope_instance T s = Some p \<Longrightarrow> p_obj p \<in># live_objs s"
proof -
  assume "scope_instance T s = Some p"
  then obtain insts where i: "map_of (c_scopes s) (c_current s) = Some insts" "map_of insts T = Some p"
    by (auto simp: scope_instance_def bind_eq_Some_conv split: if_splits)
  have "{#p_obj p#} \<subseteq># insts_objs insts" using sum_objs_mem [OF i(2), of "\<lambda>p. {#p_obj p#}"] by (simp add: insts_objs_def)
  with sum_objs_mem [OF i(1), of insts_objs] show ?thesis by (auto simp: live_objs_def dest: mset_subset_eqD)
qed

lemma lookup_live:
  assumes "lookup_instance kind key info s = Done (Ok r)" "info_objs info \<subseteq># live_objs s"
  shows "p_obj (ref_ptr r) \<in># live_objs s"
proof (cases "ri_lifetime info")
  case Singleton
  with assms show ?thesis
    by (auto simp: lookup_instance_def Let_def info_objs_def split: option.splits if_splits)
next
  case Scoped
  with assms scope_live show ?thesis by (auto simp: lookup_instance_def Let_def split: option.splits)
qed (use assms in \<open>auto simp: lookup_instance_def split: option.splits\<close>)

lemma resolveNamed_live: "resolveNamed T name s = Done (Ok r) \<Longrightarrow> p_obj (ref_ptr r) \<in># live_objs s"
proof (cases "map_of (c_named s) (T, name)")
  case (Some info)
  have "sum_objs info_objs (c_named s) \<subseteq># live_objs s" by (simp add: live_objs_def)
  with sum_objs_mem [OF Some] have "info_objs info \<subseteq># live_objs s" by (rule subset_mset.order_trans)
  moreover assume "resolveNamed T name s = Done (Ok r)"
  ultimately show ?thesis using Some lookup_live unfolding resolveNamed_def by fastforce
qed (simp add: resolveNamed_def)

lemma resolve_live: "resolve T s = Done (Ok r) \<Longrightarrow> p_obj (ref_ptr r) \<in># live_objs s"
proof (cases "map_of (c_registrations s) T")
  case (Some info)
  have "sum_objs info_objs (c_registrations s) \<subseteq># live_objs s" by (simp add: live_objs_def)
  with sum_objs_mem [OF Some] have "info_objs info \<subseteq># live_objs s" by (rule subset_mset.order_trans)
  moreover assume "resolve T s = Done (Ok r)"
  ultimately show ?thesis using Some lookup_live unfolding resolve_def by fastforce
qed (auto simp: resolve_def resolveNamed_live split: option.splits)

lemma submset_distinct:
  assumes "mset xs \<subseteq># mset ys" "distinct ys"
  shows "distinct xs"
proof -
  obtain C where "mset ys = mset xs + C" using assms(1) by (auto simp: mset_subset_eq_exists_conv)
  moreover obtain zs where "mset zs = C" using ex_mset by blast
  ultimately have "mset (xs @ zs) = mset ys" by simp
  then have "distinct (xs @ zs)" using assms(2) mset_eq_imp_distinct_iff by blast
  then show ?thesis by simp
qed


text \<open>
  The two conditions are needed. The deleter of \<open>unregister\<close> runs on the state \<open>delete_singleton info s\<close>, before the registration is erased: a destructor that resolves its own type is given the object being
  destroyed. And an object that a creator made and that is also bound as an instance of another type is still handed out there after the first type has been unregistered.
\<close>

theorem di_destructor_resolves_deleted:
  assumes "map_of (c_registrations s) T = Some info" "ri_lifetime info = Singleton" "ri_initialized info" "ri_owned info"
    and "ri_singletonInstance info = Some p" "ri_deleter info = DeleteAs T" "s1 = delete_singleton info s"
  shows "resolve T s1 = Done (Ok (Borrowed p)) \<and> p \<in> fst ` set (c_deleted s1)"
proof -
  have "(p, T) \<in> set (c_deleted s1)" using assms by (simp add: delete_singleton_def run_deleter_def)
  moreover have "map_of (c_registrations s1) T = Some info" using assms(1,7) by simp
  ultimately show ?thesis using assms(2,3,5) by (force simp: resolve_def lookup_instance_def)
qed

theorem di_bound_object_dangles:
  "let s = ds_c (di_run [Bind ''Impl'' 1 Singleton, Resolve ''Impl'', Return (Some 7), BindInstance ''Iface'' 7, Unregister ''Impl''])
   in resolve ''Iface'' s = Done (Ok (Borrowed \<lparr>p_obj = 7, p_type = ''Iface''\<rparr>)) \<and> 7 \<in> set (map (p_obj \<circ> fst) (c_deleted s))"
  by code_simp

section \<open>Lifetimes\<close>

text \<open>Operations that touch the registration of a type.\<close>

fun disturbs :: "string \<Rightarrow> di_op \<Rightarrow> bool" where
  "disturbs T (Unregister T') \<longleftrightarrow> T' = T"
| "disturbs T Clear \<longleftrightarrow> True"
| "disturbs T _ \<longleftrightarrow> False"

lemma store_keeps_registration:
  "key \<noteq> Plain T \<Longrightarrow> store_singleton key p s = Some t \<Longrightarrow> map_of (c_registrations t) T = map_of (c_registrations s) T"
  by (auto simp: store_singleton_def update_conv' split: di_key.splits option.splits)

lemma created_keeps_registration:
  "key \<noteq> Plain T \<Longrightarrow> created c key l obj s = Some (r, t) \<Longrightarrow> map_of (c_registrations t) T = map_of (c_registrations s) T"
  using store_keeps_registration by (fastforce simp: created_def store_scoped_def Let_def split: option.splits Lifetime.splits if_splits)

text \<open>The singleton of a type is there, and no creation of it is under way.\<close>

definition settled :: "string \<Rightarrow> registration \<Rightarrow> di_sys \<Rightarrow> bool" where
  "settled T info s \<longleftrightarrow> map_of (c_registrations (ds_c s)) T = Some info \<and> (\<forall>x \<in> set (ds_calls s). fst (snd x) \<noteq> Plain T)"

lemma lookup_key: "lookup_instance kind key info s = Calls c key' l \<Longrightarrow> key' = key"
  by (auto simp: lookup_instance_def Let_def split: Lifetime.splits option.splits if_splits)

lemma named_not_plain: "resolveNamed T' name s = Calls c key l \<Longrightarrow> key \<noteq> Plain T"
  by (auto simp: resolveNamed_def dest: lookup_key split: option.splits)

lemma settled_resolve:
  assumes "settled T info s" "ri_lifetime info = Singleton" "ri_initialized info" "ri_singletonInstance info = Some p" "resolve T' (ds_c s) = Calls c key l"
  shows "key \<noteq> Plain T"
proof (cases "T' = T")
  case True
  with assms show ?thesis by (simp add: settled_def resolve_def lookup_instance_def)
next
  case False
  with assms(5) show ?thesis
    by (auto simp: resolve_def dest: lookup_key named_not_plain split: option.splits)
qed

lemma settled_exec:
  assumes "settled T info s" "ri_lifetime info = Singleton" "ri_initialized info" "ri_singletonInstance info = Some p" "\<not> disturbs T x"
  shows "settled T info (di_exec x s)"
proof (cases x)
  case (Resolve T')
  with settled_resolve [OF assms(1-4), of T'] assms(1) show ?thesis by (auto simp: start_call_def settled_def split: di_outcome.splits)
next
  case (ResolveNamed T' name)
  with named_not_plain assms(1) show ?thesis by (auto simp: start_call_def settled_def split: di_outcome.splits)
next
  case (Return obj)
  show ?thesis
  proof (cases "ds_calls s")
    case (Cons y rest)
    obtain c key l where y: "y = (c, key, l)" by (cases y) auto
    with Cons assms(1) have "key \<noteq> Plain T" by (auto simp: settled_def)
    from created_keeps_registration [OF this, of c l obj "ds_c s"] Cons y Return assms(1) show ?thesis
      by (auto simp: end_call_def settled_def split: option.splits)
  qed (use Return assms(1) in \<open>simp add: end_call_def\<close>)
next
  case (DisposeScope i)
  then show ?thesis using assms by (simp add: settled_def disposeScope_def Let_def split: option.splits)
next
  case (Unregister T')
  then show ?thesis using assms by (auto simp: settled_def unregister_def Let_def delete_conv' split: option.splits)
qed (use assms in \<open>auto simp: settled_def createScope_def di_bind_def bindInstance_def bindNamed_def setPrimary_def Let_def\<close>)

lemma settled_run:
  "settled T info s \<Longrightarrow> ri_lifetime info = Singleton \<Longrightarrow> ri_initialized info \<Longrightarrow> ri_singletonInstance info = Some p \<Longrightarrow> list_all (\<lambda>x. \<not> disturbs T x) ops
    \<Longrightarrow> settled T info (fold di_exec ops s)"
  by (induction ops arbitrary: s) (auto intro: settled_exec)

text \<open>A singleton is created once: when the creator of a type registered as singleton returns an object and no other creation of the type is under way, \<open>resolve\<close> returns a
  borrowed pointer to that same object and calls no creator, whatever operations follow, until the type is unregistered or the
  container cleared.\<close>

theorem di_singleton_once:
  assumes "resolve T (ds_c s) = Calls c (Plain T) Singleton" "created c (Plain T) Singleton (Some oid) (ds_c s) = Some (r, ds_c t)"
    and "\<forall>x \<in> set (ds_calls t). fst (snd x) \<noteq> Plain T" "list_all (\<lambda>p. \<not> disturbs T p) ops"
  shows "resolve T (ds_c (fold di_exec ops t)) = Done (Ok (Borrowed \<lparr>p_obj = oid, p_type = cr_type c\<rparr>))"
proof -
  obtain info where info: "map_of (c_registrations (ds_c s)) T = Some info" "ri_lifetime info = Singleton"
    using assms(1) by (auto simp: resolve_def resolveNamed_def lookup_instance_def Let_def split: option.splits Lifetime.splits if_splits)
  let ?p = "\<lparr>p_obj = oid, p_type = cr_type c\<rparr>" let ?info = "info\<lparr>ri_singletonInstance := Some ?p, ri_initialized := True, ri_initFlag := True\<rparr>"
  define u where "u = ds_c t"
  have "map_of (c_registrations u) T = Some ?info"
    using assms(2) info unfolding u_def [symmetric] by (auto simp: created_def store_singleton_def update_conv' Let_def)
  then have "settled T ?info t" using assms(3) by (simp add: settled_def u_def)
  from settled_run [OF this _ _ _ assms(4), of ?p] info(2) show ?thesis
    by (simp add: settled_def resolve_def lookup_instance_def)
qed

text \<open>Named implementations with scoped lifetime are confused: inside a scope, once one of them has been created, every other named scoped
  implementation of the type resolves to that same object.\<close>

theorem di_named_scoped_confused:
  assumes "c_current s \<noteq> 0" "created c (Named T a) Scoped (Some oid) s = Some (r, t)" "cr_type c = T"
    and "map_of (c_named s) (T, b) = Some info" "ri_lifetime info = Scoped"
  shows "resolveNamed T b t = Done (Ok (Borrowed \<lparr>p_obj = oid, p_type = T\<rparr>))"
proof -
  have "t = store_scoped T \<lparr>p_obj = oid, p_type = T\<rparr> s" using assms(1-3) by (simp add: created_def Let_def)
  then have "scope_instance T t = Some \<lparr>p_obj = oid, p_type = T\<rparr>" "map_of (c_named t) (T, b) = Some info"
    using assms(1,4) by (simp_all add: store_scoped_def scope_instance_def update_conv')
  then show ?thesis using assms(5) by (simp add: resolveNamed_def lookup_instance_def)
qed

section \<open>Example\<close>

definition di_demo_ops :: "di_op list" where
  "di_demo_ops = [Bind ''Log'' 1 Singleton, Resolve ''Log'', Return (Some 10), BindNamed ''Db'' ''a'' 2 Scoped, BindNamed ''Db'' ''b'' 3 Scoped,
     CreateScope, ResolveNamed ''Db'' ''a'', Resolve ''Log'', Return (Some 11), DisposeScope 1, Unregister ''Log'']"



theorem di_singleton_once_witness:
  "resolve ''Log'' (ds_c (di_run (take 9 di_demo_ops))) = Done (Ok (Borrowed \<lparr>p_obj = 10, p_type = ''Log''\<rparr>))"
proof -
  let ?c = "\<lparr>cr_id = 1, cr_type = ''Log''\<rparr>"
  have a: "resolve ''Log'' (ds_c (di_run (take 2 di_demo_ops))) = Calls ?c (Plain ''Log'') Singleton" by code_simp
  have b: "created ?c (Plain ''Log'') Singleton (Some 10) (ds_c (di_run (take 2 di_demo_ops)))
      = Some (Ok (Borrowed \<lparr>p_obj = 10, p_type = ''Log''\<rparr>), ds_c (di_run (take 3 di_demo_ops)))" by code_simp
  have c: "\<forall>x \<in> set (ds_calls (di_run (take 3 di_demo_ops))). fst (snd x) \<noteq> Plain ''Log''" by code_simp
  have "list_all (\<lambda>p. \<not> disturbs ''Log'' p) (take 6 (drop 3 di_demo_ops))" by code_simp
  from di_singleton_once [OF a b c this] show ?thesis by (simp add: di_run_def di_demo_ops_def)
qed

theorem di_named_scoped_confused_witness:
  "resolveNamed ''Db'' ''b'' (ds_c (di_run (take 9 di_demo_ops))) = Done (Ok (Borrowed \<lparr>p_obj = 11, p_type = ''Db''\<rparr>))"
proof -
  have a: "c_current (ds_c (di_run (take 8 di_demo_ops))) \<noteq> 0" by code_simp
  have b: "created \<lparr>cr_id = 2, cr_type = ''Db''\<rparr> (Named ''Db'' ''a'') Scoped (Some 11) (ds_c (di_run (take 8 di_demo_ops)))
      = Some (Ok (Borrowed \<lparr>p_obj = 11, p_type = ''Db''\<rparr>), ds_c (di_run (take 9 di_demo_ops)))" by code_simp
  have c: "map_of (c_named (ds_c (di_run (take 8 di_demo_ops)))) (''Db'', ''b'') = Some (fresh_registration Scoped 3 ''Db'')" by code_simp
  show ?thesis by (rule di_named_scoped_confused [OF a b _ c]) (simp_all add: fresh_registration_def)
qed

end
