(* ===== verification/SK_ThreadPool.thy ===== *)
theory SK_ThreadPool
  imports SK_Prelude "HOL-Library.Multiset"
begin

text \<open>
  The priority thread pool of \<^verbatim>\<open>src/soul/async/thread_pool.cpp\<close>. A task is a value of an arbitrary type. Every worker thread is in
  one of the phases of its loop, which are cut where another thread can interfere: at the test of the running flag, in the critical section of
  \<open>dequeueTask\<close>, between the return of that call and the increment of the active count, while the task runs. The fallback pool of Qt is
  a record of its settings and the tasks handed to it; what it does with them is left to Qt. \<^verbatim>\<open>QThread::idealThreadCount\<close> is an
  argument. The log of executed tasks is kept in the state.
\<close>

section \<open>State\<close>

datatype Priority = High | Normal | Low

definition kStarvationThreshold :: int where "kStarvationThreshold = 10"

record 't native_pool =
  np_maxThreadCount :: int
  np_expiryTimeout :: int
  np_reserved :: int
  np_tasks :: "'t list"

datatype 't worker = AtHead | InDequeue | Holding 't | Running 't | Exited

record 't thread_pool =
  tp_native :: "'t native_pool option"
  tp_initialized :: bool
  tp_high :: "'t list"
  tp_normal :: "'t list"
  tp_low :: "('t \<times> int) list"
  tp_hasWorkers :: bool
  tp_threads :: "'t worker list"
  tp_running :: bool
  tp_activeCount :: int
  tp_maxWorkers :: int
  tp_executed :: "'t list"

definition mk_ThreadPool :: "'t thread_pool" where
  "mk_ThreadPool = \<lparr>tp_native = None, tp_initialized = False, tp_high = [], tp_normal = [], tp_low = [], tp_hasWorkers = False,
     tp_threads = [], tp_running = False, tp_activeCount = 0, tp_maxWorkers = 0, tp_executed = []\<rparr>"

definition mk_native :: "int \<Rightarrow> 't native_pool" where
  "mk_native n = \<lparr>np_maxThreadCount = n, np_expiryTimeout = 30000, np_reserved = 0, np_tasks = []\<rparr>"

section \<open>Starting and stopping\<close>

text \<open>\<open>init\<close> releases one mutex before it takes the other: the settings first, then the workers, unless the pool was initialised.\<close>

definition init_begin :: "int \<Rightarrow> int \<Rightarrow> 't thread_pool \<Rightarrow> int option \<times> 't thread_pool" where
  "init_begin ideal maxThreads s =
     (if tp_initialized s then (None, s)
      else let n = (if maxThreads > 0 then maxThreads else ideal)
           in (Some n, s\<lparr>tp_native := Some (mk_native n), tp_maxWorkers := n, tp_initialized := True\<rparr>))"

definition init_end :: "int \<Rightarrow> 't thread_pool \<Rightarrow> 't thread_pool" where
  "init_end n s = s\<lparr>tp_running := True, tp_hasWorkers := tp_hasWorkers s \<or> n > 0, tp_threads := tp_threads s @ replicate (nat n) AtHead\<rparr>"

text \<open>\<open>shutdown\<close> up to the joins, and after them: the workers have left their loops by then.\<close>

definition shutdown_begin :: "'t thread_pool \<Rightarrow> 't thread_pool" where
  "shutdown_begin s = s\<lparr>tp_running := False, tp_hasWorkers := False\<rparr>"

definition shutdown_end :: "'t thread_pool \<Rightarrow> 't thread_pool" where
  "shutdown_end s = (if \<not> tp_initialized s \<or> tp_native s = None then s else s\<lparr>tp_native := None, tp_initialized := False\<rparr>)"

text \<open>Several operations create the fallback pool when there is none.\<close>

definition ensure_native :: "int \<Rightarrow> 't thread_pool \<Rightarrow> 't thread_pool" where
  "ensure_native ideal s = (if tp_native s = None then s\<lparr>tp_native := Some (mk_native ideal), tp_initialized := True\<rparr> else s)"

definition tp_start :: "int \<Rightarrow> 't option \<Rightarrow> Priority \<Rightarrow> 't thread_pool \<Rightarrow> 't thread_pool" where
  "tp_start ideal task priority s =
     (case task of
        None \<Rightarrow> s
      | Some t \<Rightarrow>
          if \<not> tp_hasWorkers s
          then let s1 = ensure_native ideal s
               in s1\<lparr>tp_native := map_option (\<lambda>np. np\<lparr>np_tasks := np_tasks np @ [t]\<rparr>) (tp_native s1)\<rparr>
          else case priority of
            High \<Rightarrow> s\<lparr>tp_high := tp_high s @ [t]\<rparr>
          | Normal \<Rightarrow> s\<lparr>tp_normal := tp_normal s @ [t]\<rparr>
          | Low \<Rightarrow> s\<lparr>tp_low := tp_low s @ [(t, 0)]\<rparr>)"

definition priority_of_int :: "int \<Rightarrow> Priority" where
  "priority_of_int p = (if p = 3 then High else if p = 1 then Low else Normal)"

definition tp_start_int :: "int \<Rightarrow> 't option \<Rightarrow> int \<Rightarrow> 't thread_pool \<Rightarrow> 't thread_pool" where
  "tp_start_int ideal task priority = tp_start ideal task (priority_of_int priority)"

definition tp_start_default :: "int \<Rightarrow> 't option \<Rightarrow> 't thread_pool \<Rightarrow> 't thread_pool" where
  "tp_start_default ideal task = tp_start ideal task Normal"

section \<open>Workers\<close>

text \<open>The critical section of \<open>dequeueTask\<close> once its wait is over. Both branches of the low queue take its front.\<close>

definition dequeueTask :: "'t thread_pool \<Rightarrow> 't option \<times> 't thread_pool" where
  "dequeueTask s =
     (if \<not> tp_running s then (None, s)
      else case tp_high s of
        t # ts \<Rightarrow> (Some t, s\<lparr>tp_high := ts\<rparr>)
      | [] \<Rightarrow> (case tp_normal s of
          t # ts \<Rightarrow> (Some t, s\<lparr>tp_normal := ts\<rparr>)
        | [] \<Rightarrow> (case tp_low s of
            (t, n) # ts \<Rightarrow>
              if n + 1 \<ge> kStarvationThreshold then (Some t, s\<lparr>tp_low := ts\<rparr>) else (Some t, s\<lparr>tp_low := ts\<rparr>)
          | [] \<Rightarrow> (None, s))))"

definition dequeue_ready :: "'t thread_pool \<Rightarrow> bool" where
  "dequeue_ready s \<longleftrightarrow> \<not> tp_running s \<or> tp_high s \<noteq> [] \<or> tp_normal s \<noteq> [] \<or> tp_low s \<noteq> []"

text \<open>One step of worker \<open>i\<close> through \<open>workerLoop\<close>; a worker whose wait is not over stays.\<close>

definition worker_step :: "nat \<Rightarrow> 't thread_pool \<Rightarrow> 't thread_pool" where
  "worker_step i s =
     (if i \<ge> length (tp_threads s) then s
      else case tp_threads s ! i of
        AtHead \<Rightarrow> s\<lparr>tp_threads := (tp_threads s)[i := if tp_running s then InDequeue else Exited]\<rparr>
      | InDequeue \<Rightarrow>
          if dequeue_ready s
          then (case dequeueTask s of (r, s1) \<Rightarrow>
                  s1\<lparr>tp_threads := (tp_threads s1)[i := case r of None \<Rightarrow> AtHead | Some t \<Rightarrow> Holding t]\<rparr>)
          else s
      | Holding t \<Rightarrow> s\<lparr>tp_threads := (tp_threads s)[i := Running t], tp_activeCount := tp_activeCount s + 1\<rparr>
      | Running t \<Rightarrow> s\<lparr>tp_threads := (tp_threads s)[i := AtHead], tp_activeCount := tp_activeCount s - 1, tp_executed := tp_executed s @ [t]\<rparr>
      | Exited \<Rightarrow> s)"

section \<open>Queries and settings\<close>

definition queueSize :: "'t thread_pool \<Rightarrow> nat" where
  "queueSize s = length (tp_high s) + length (tp_normal s) + length (tp_low s)"

text \<open>One round of the wait in \<open>waitForDone\<close> with priority workers: \<open>Some\<close> is its answer, \<open>None\<close> another round.\<close>

definition waitForDone_round :: "int \<Rightarrow> bool \<Rightarrow> 't thread_pool \<Rightarrow> bool option" where
  "waitForDone_round msecs deadlinePassed s =
     (if tp_high s = [] \<and> tp_normal s = [] \<and> tp_low s = [] \<and> tp_activeCount s = 0 then Some True
      else if msecs \<ge> 0 \<and> deadlinePassed then Some False else None)"

definition tp_maxThreadCount :: "int \<Rightarrow> 't thread_pool \<Rightarrow> int" where
  "tp_maxThreadCount ideal s =
     (if \<not> tp_initialized s then ideal else case tp_native s of None \<Rightarrow> ideal | Some np \<Rightarrow> np_maxThreadCount np)"

definition setMaxThreadCount :: "int \<Rightarrow> 't thread_pool \<Rightarrow> 't thread_pool" where
  "setMaxThreadCount n s =
     (if \<not> tp_initialized s
      then s\<lparr>tp_native := Some ((case tp_native s of None \<Rightarrow> mk_native n | Some np \<Rightarrow> np)\<lparr>np_maxThreadCount := n\<rparr>), tp_initialized := True\<rparr>
      else s\<lparr>tp_native := map_option (\<lambda>np. np\<lparr>np_maxThreadCount := n\<rparr>) (tp_native s)\<rparr>)"

definition tp_expiryTimeout :: "'t thread_pool \<Rightarrow> int" where
  "tp_expiryTimeout s = (if \<not> tp_initialized s then 30000 else case tp_native s of None \<Rightarrow> 30000 | Some np \<Rightarrow> np_expiryTimeout np)"

definition ensure_uninitialized :: "int \<Rightarrow> 't thread_pool \<Rightarrow> 't thread_pool" where
  "ensure_uninitialized ideal s = (if \<not> tp_initialized s then ensure_native ideal s else s)"

definition setExpiryTimeout :: "int \<Rightarrow> int \<Rightarrow> 't thread_pool \<Rightarrow> 't thread_pool" where
  "setExpiryTimeout ideal ms s = (let s1 = ensure_uninitialized ideal s
     in s1\<lparr>tp_native := map_option (\<lambda>np. np\<lparr>np_expiryTimeout := ms\<rparr>) (tp_native s1)\<rparr>)"

definition reserveThread :: "int \<Rightarrow> 't thread_pool \<Rightarrow> 't thread_pool" where
  "reserveThread ideal s = (let s1 = ensure_uninitialized ideal s
     in s1\<lparr>tp_native := map_option (\<lambda>np. np\<lparr>np_reserved := np_reserved np + 1\<rparr>) (tp_native s1)\<rparr>)"

definition releaseThread :: "'t thread_pool \<Rightarrow> 't thread_pool" where
  "releaseThread s = (if \<not> tp_initialized s then s
     else s\<lparr>tp_native := map_option (\<lambda>np. np\<lparr>np_reserved := np_reserved np - 1\<rparr>) (tp_native s)\<rparr>)"

definition nativeThreadPool :: "int \<Rightarrow> 't thread_pool \<Rightarrow> 't thread_pool" where
  "nativeThreadPool ideal s = ensure_uninitialized ideal s"

section \<open>Executions\<close>

text \<open>Any operations of any threads in any order.\<close>

datatype 't tp_op = InitBegin int int | InitEnd int | Start int 't Priority | WorkerStep nat | ShutdownBegin | ShutdownEnd
  | SetMax int | SetExpiry int int | Reserve int | Release | Native int

fun tp_exec :: "'t tp_op \<Rightarrow> 't thread_pool \<Rightarrow> 't thread_pool" where
  "tp_exec (InitBegin ideal n) s = snd (init_begin ideal n s)"
| "tp_exec (InitEnd n) s = init_end n s"
| "tp_exec (Start ideal t p) s = tp_start ideal (Some t) p s"
| "tp_exec (WorkerStep i) s = worker_step i s"
| "tp_exec ShutdownBegin s = shutdown_begin s"
| "tp_exec ShutdownEnd s = (if list_all (\<lambda>w. w = Exited) (tp_threads s) then shutdown_end s else s)"
| "tp_exec (SetMax n) s = setMaxThreadCount n s"
| "tp_exec (SetExpiry ideal ms) s = setExpiryTimeout ideal ms s"
| "tp_exec (Reserve ideal) s = reserveThread ideal s"
| "tp_exec Release s = releaseThread s"
| "tp_exec (Native ideal) s = nativeThreadPool ideal s"

text \<open>The tasks that were put into the priority queues.\<close>

fun tp_queued :: "'t tp_op list \<Rightarrow> 't thread_pool \<Rightarrow> 't list" where
  "tp_queued [] s = []"
| "tp_queued (p # ps) s = (case p of Start ideal t pr \<Rightarrow> if tp_hasWorkers s then [t] else [] | _ \<Rightarrow> []) @ tp_queued ps (tp_exec p s)"

fun held_by :: "'t worker \<Rightarrow> 't list" where
  "held_by (Holding t) = [t]"
| "held_by _ = []"

fun run_by :: "'t worker \<Rightarrow> 't list" where
  "run_by (Running t) = [t]"
| "run_by _ = []"

definition held :: "'t thread_pool \<Rightarrow> 't list" where
  "held s = concat (map held_by (tp_threads s))"

definition running_tasks :: "'t thread_pool \<Rightarrow> 't list" where
  "running_tasks s = concat (map run_by (tp_threads s))"

definition waiting :: "'t thread_pool \<Rightarrow> 't list" where
  "waiting s = tp_high s @ tp_normal s @ map fst (tp_low s)"

definition ledger :: "'t thread_pool \<Rightarrow> 't multiset" where
  "ledger s = mset (waiting s) + mset (held s) + mset (running_tasks s) + mset (tp_executed s)"

section \<open>No task is lost or run twice\<close>

lemma concat_upd:
  assumes "i < length ws"
  shows "mset (concat (map f (ws[i := w]))) + mset (f (ws ! i)) = mset (concat (map f ws)) + mset (f w)"
  using assms
proof (induction ws arbitrary: i)
  case (Cons x ws)
  then show ?case by (cases i) (auto simp: ac_simps)
qed simp

lemma length_concat_upd: "i < length ws \<Longrightarrow> length (concat (map f (ws[i := w]))) + length (f (ws ! i)) = length (concat (map f ws)) + length (f w)"
  using concat_upd [of i ws f w, THEN arg_cong [where f = size]] by simp

lemma dequeue_moves:
  assumes "dequeueTask s = (r, s1)"
  shows "mset (waiting s) = mset (waiting s1) + mset (case r of None \<Rightarrow> [] | Some t \<Rightarrow> [t])"
    and "tp_threads s1 = tp_threads s" "tp_executed s1 = tp_executed s" "tp_activeCount s1 = tp_activeCount s"
  using assms by (auto simp: dequeueTask_def waiting_def split: if_splits list.splits)

definition worker_ok :: "'t thread_pool \<Rightarrow> bool" where
  "worker_ok s \<longleftrightarrow> tp_activeCount s = int (length (running_tasks s))"

lemma worker_step_ledger:
  assumes "worker_ok s"
  shows "ledger (worker_step i s) = ledger s \<and> worker_ok (worker_step i s)"
proof (cases "i < length (tp_threads s)")
  case True
  note c = concat_upd [OF True, of held_by] concat_upd [OF True, of run_by]
  note l = length_concat_upd [OF True, of run_by]
  show ?thesis
  proof (cases "tp_threads s ! i")
    case AtHead
    with True c [of InDequeue] c [of Exited] l [of InDequeue] l [of Exited] assms show ?thesis
      by (simp add: worker_step_def ledger_def waiting_def held_def running_tasks_def worker_ok_def)
  next
    case InDequeue
    obtain r s1 where d: "dequeueTask s = (r, s1)" by fastforce
    note m = dequeue_moves [OF d]
    let ?w = "case r of None \<Rightarrow> AtHead | Some t \<Rightarrow> Holding t"
    have "held_by ?w = (case r of None \<Rightarrow> [] | Some t \<Rightarrow> [t])" "run_by ?w = []" by (auto split: option.split)
    then show ?thesis using True InDequeue d m c [of ?w] l [of ?w] assms
      by (auto simp: worker_step_def ledger_def waiting_def held_def running_tasks_def worker_ok_def)
  next
    case (Holding t)
    with True c [of "Running t"] l [of "Running t"] assms show ?thesis
      by (simp add: worker_step_def ledger_def waiting_def held_def running_tasks_def worker_ok_def)
  next
    case (Running t)
    with True c [of AtHead] l [of AtHead] assms show ?thesis
      by (simp add: worker_step_def ledger_def waiting_def held_def running_tasks_def worker_ok_def)
  qed (use True assms in \<open>simp add: worker_step_def\<close>)
qed (use assms in \<open>simp add: worker_step_def\<close>)

lemma settings_frame:
  assumes "p \<in> {ShutdownBegin, ShutdownEnd, Release} \<union> range SetMax \<union> range Reserve \<union> range Native \<union> (\<Union>a b. {SetExpiry a b, InitBegin a b})"
  shows "ledger (tp_exec p s) = ledger s \<and> (worker_ok (tp_exec p s) \<longleftrightarrow> worker_ok s) \<and> tp_low (tp_exec p s) = tp_low s"
proof -
  have "tp_high (tp_exec p s) = tp_high s" "tp_normal (tp_exec p s) = tp_normal s" "tp_low (tp_exec p s) = tp_low s"
    "tp_threads (tp_exec p s) = tp_threads s" "tp_activeCount (tp_exec p s) = tp_activeCount s" "tp_executed (tp_exec p s) = tp_executed s"
    using assms by (auto simp: shutdown_begin_def shutdown_end_def setMaxThreadCount_def setExpiryTimeout_def reserveThread_def
        releaseThread_def nativeThreadPool_def ensure_uninitialized_def ensure_native_def init_begin_def Let_def)
  then show ?thesis by (simp add: ledger_def waiting_def held_def running_tasks_def worker_ok_def)
qed

lemma start_ledger:
  "ledger (tp_start ideal (Some t) pr s) = ledger s + mset (if tp_hasWorkers s then [t] else [])"
  "worker_ok (tp_start ideal (Some t) pr s) = worker_ok s"
  by (cases pr; simp add: tp_start_def ledger_def waiting_def held_def running_tasks_def worker_ok_def ensure_native_def Let_def)+

lemma init_end_ledger: "ledger (init_end n s) = ledger s" "worker_ok (init_end n s) = worker_ok s"
  by (simp_all add: init_end_def ledger_def waiting_def held_def running_tasks_def worker_ok_def)

lemma exec_ledger:
  assumes "worker_ok s"
  shows "ledger (tp_exec p s) = ledger s + mset (tp_queued [p] s) \<and> worker_ok (tp_exec p s)"
proof (cases p)
  case (Start ideal t pr)
  then show ?thesis using assms start_ledger [of ideal t pr s] by simp
next
  case (WorkerStep i)
  then show ?thesis using worker_step_ledger [OF assms] by simp
next
  case (InitEnd n)
  then show ?thesis using assms by (simp add: init_end_ledger)
qed (use assms settings_frame [of p s] in \<open>simp_all del: tp_exec.simps\<close>)

lemma run_ledger:
  "worker_ok s \<Longrightarrow> ledger (fold tp_exec ops s) = ledger s + mset (tp_queued ops s) \<and> worker_ok (fold tp_exec ops s)"
proof (induction ops arbitrary: s)
  case (Cons p ops)
  note e = exec_ledger [OF Cons.prems, of p]
  have "mset (tp_queued (p # ops) s) = mset (tp_queued [p] s) + mset (tp_queued ops (tp_exec p s))" by simp
  with Cons.IH [of "tp_exec p s"] e show ?case by (simp only: fold_simps add.assoc)
qed simp

lemma run_from_start:
  fixes ops :: "'t tp_op list"
  shows "ledger (fold tp_exec ops mk_ThreadPool) = mset (tp_queued ops mk_ThreadPool) \<and> worker_ok (fold tp_exec ops mk_ThreadPool)"
proof -
  have "worker_ok (mk_ThreadPool :: 't thread_pool)" "ledger (mk_ThreadPool :: 't thread_pool) = {#}"
    by (simp_all add: worker_ok_def ledger_def mk_ThreadPool_def waiting_def held_def running_tasks_def)
  then show ?thesis using run_ledger [of mk_ThreadPool ops] by simp
qed

text \<open>C21 (invariant). Whatever the threads do in whatever order: every task put into a priority queue is in exactly one place, waiting, in the hands of
  one worker, or executed once, and the active count is the number of tasks being run.\<close>

theorem tp_conservation:
  fixes ops :: "'t tp_op list"
  shows "let s = fold tp_exec ops mk_ThreadPool
   in mset (tp_queued ops mk_ThreadPool) = mset (waiting s) + mset (held s) + mset (running_tasks s) + mset (tp_executed s)
      \<and> tp_activeCount s = int (length (running_tasks s))"
proof -
  show ?thesis using run_from_start [of ops] by (simp add: ledger_def worker_ok_def Let_def)
qed

text \<open>When \<open>waitForDone\<close> answers that all is done, every queued task has been executed except those a worker has taken from a queue and not
  yet counted as active: a task can still be about to run. The example is a pool with one worker and one task.\<close>

theorem tp_wait_may_be_early:
  assumes "waitForDone_round msecs deadlinePassed (fold tp_exec ops mk_ThreadPool) = Some True"
  shows "mset (tp_queued ops mk_ThreadPool) = mset (tp_executed (fold tp_exec ops mk_ThreadPool)) + mset (held (fold tp_exec ops mk_ThreadPool))"
proof -
  let ?s = "fold tp_exec ops mk_ThreadPool"
  note r = run_from_start [of ops]
  have "waiting ?s = []" "tp_activeCount ?s = 0" using assms by (auto simp: waitForDone_round_def waiting_def split: if_splits)
  with r have "running_tasks ?s = []" by (simp add: worker_ok_def)
  with r \<open>waiting ?s = []\<close> show ?thesis by (simp add: ledger_def ac_simps)
qed

definition demo_tp_ops :: "nat tp_op list" where
  "demo_tp_ops = [InitBegin 4 1, InitEnd 1, Start 4 7 Normal, WorkerStep 0, WorkerStep 0]"

theorem tp_wait_may_be_early_witness:
  "waitForDone_round (- 1) False (fold tp_exec demo_tp_ops mk_ThreadPool) = Some True
   \<and> held (fold tp_exec demo_tp_ops mk_ThreadPool) = [7] \<and> tp_executed (fold tp_exec demo_tp_ops mk_ThreadPool) = []
   \<and> mset (tp_queued demo_tp_ops mk_ThreadPool) = mset (tp_executed (fold tp_exec demo_tp_ops mk_ThreadPool)) + mset (held (fold tp_exec demo_tp_ops mk_ThreadPool))"
proof -
  have w: "waitForDone_round (- 1) False (fold tp_exec demo_tp_ops mk_ThreadPool) = Some True" by code_simp
  have "held (fold tp_exec demo_tp_ops mk_ThreadPool) = [7]" "tp_executed (fold tp_exec demo_tp_ops mk_ThreadPool) = []" by code_simp+
  with w tp_wait_may_be_early [OF w] show ?thesis by blast
qed

section \<open>Low priority\<close>

definition busy :: "'t thread_pool \<Rightarrow> bool" where
  "busy s \<longleftrightarrow> tp_high s \<noteq> [] \<or> tp_normal s \<noteq> []"

lemma busy_dequeue: "busy s \<Longrightarrow> dequeueTask s = (r, s1) \<Longrightarrow> tp_low s1 = tp_low s"
  by (auto simp: busy_def dequeueTask_def split: if_splits list.splits)

lemma busy_step:
  assumes "busy s"
  shows "\<exists>new. tp_low (tp_exec p s) = tp_low s @ new \<and> list_all (\<lambda>x. snd x = 0) new"
proof (cases p)
  case (Start ideal t pr)
  then show ?thesis by (cases pr) (auto simp: tp_start_def ensure_native_def Let_def)
next
  case (WorkerStep i)
  obtain r s1 where d: "dequeueTask s = (r, s1)" by fastforce
  then show ?thesis using WorkerStep busy_dequeue [OF assms d] by (cases "tp_threads s ! i") (auto simp: worker_step_def)
next
  case (InitEnd n)
  then show ?thesis by (simp add: init_end_def)
qed (use settings_frame [of p s] in \<open>simp_all del: tp_exec.simps\<close>)

text \<open>Low-priority tasks starve: as long as there is always a task of higher priority waiting, no low-priority task is ever taken and none of
  their starvation counts changes, whatever the workers do and however long it lasts.\<close>

theorem tp_low_starves:
  assumes "\<And>k. k < length ops \<Longrightarrow> busy (fold tp_exec (take k ops) s)"
  shows "\<exists>new. tp_low (fold tp_exec ops s) = tp_low s @ new \<and> list_all (\<lambda>x. snd x = 0) new"
  using assms
proof (induction ops arbitrary: s)
  case (Cons p ops)
  have "busy (fold tp_exec (take k ops) (tp_exec p s))" if "k < length ops" for k using Cons.prems [of "Suc k"] that by simp
  from Cons.IH [OF this] obtain new where new: "tp_low (fold tp_exec ops (tp_exec p s)) = tp_low (tp_exec p s) @ new" "list_all (\<lambda>x. snd x = 0) new"
    by blast
  moreover have "busy s" using Cons.prems [of 0] by simp
  ultimately show ?case using busy_step [of s p] by (auto simp del: tp_exec.simps)
qed simp

theorem tp_low_starves_witness:
  "\<exists>new. tp_low (fold tp_exec [WorkerStep 0, WorkerStep 0] (fold tp_exec [InitBegin 4 1, InitEnd 1, Start 4 1 Low, Start 4 2 Normal, Start 4 (3 :: nat) Normal] mk_ThreadPool))
     = [(1, 0)] @ new"
proof -
  let ?s = "fold tp_exec [InitBegin 4 1, InitEnd 1, Start 4 1 Low, Start 4 2 Normal, Start 4 (3 :: nat) Normal] mk_ThreadPool"
  have b: "busy ?s" "busy (tp_exec (WorkerStep 0) ?s)" "tp_low ?s = [(1, 0)]" by code_simp+
  have "busy (fold tp_exec (take k [WorkerStep 0, WorkerStep 0]) ?s)" if "k < length [WorkerStep 0, WorkerStep 0 :: nat tp_op]" for k
    using that b(1,2) by (cases k) (auto simp: take_Cons' simp del: tp_exec.simps)
  from tp_low_starves [OF this] b(3) show ?thesis by (metis (no_types, lifting))
qed

end
