(* ===== verification/SK_Cron.thy ===== *)
theory SK_Cron
  imports SK_Text SK_Int32
begin

text \<open>
  The cron expressions of \<^verbatim>\<open>src/soul/scheduler/scheduled_task.cpp\<close>: the matching of one field, the search for the next matching
  minute and the timer interval computed from it. \<^verbatim>\<open>std::stoi\<close> and the stream reads are modelled with their failures: an exception or a
  division by zero is a left value. The calendar belongs to Qt: \<open>cal\<close> gives month, day, day of week (Monday is 1, Sunday 7), hour and minute of a
  minute, minutes being counted from a fixed one.
\<close>

section \<open>Reading numbers and splitting\<close>

datatype cron_failure = InvalidArgument | OutOfRange | DivisionByZero

text \<open>Leading blanks, a sign, digits; what follows them is ignored.\<close>

definition stoi :: "string \<Rightarrow> cron_failure + int" where
  "stoi s =
     (let s1 = dropWhile is_blank s;
          neg = (case s1 of c # _ \<Rightarrow> c = CHR ''-'' | [] \<Rightarrow> False);
          s2 = (case s1 of c # cs \<Rightarrow> if c = CHR ''-'' \<or> c = CHR ''+'' then cs else s1 | [] \<Rightarrow> []);
          ds = takeWhile is_digit s2;
          v = (if neg then - int (read_nat 0 ds) else int (read_nat 0 ds))
      in if ds = [] then Inl InvalidArgument
         else if v < - (2 ^ 31) \<or> 2 ^ 31 \<le> v then Inl OutOfRange
         else Inr v)"

text \<open>\<^verbatim>\<open>std::getline\<close> with a delimiter until the stream ends: a last empty part is not produced.\<close>

fun split_parts :: "char \<Rightarrow> string \<Rightarrow> string list" where
  "split_parts d [] = []"
| "split_parts d (c # cs) =
     (if c = d then [] # split_parts d cs
      else case split_parts d cs of
        [] \<Rightarrow> [[c]]
      | p # ps \<Rightarrow> (c # p) # ps)"

text \<open>Reading blank-separated words.\<close>

fun words_from :: "string \<Rightarrow> string \<Rightarrow> string list" where
  "words_from acc [] = (if acc = [] then [] else [rev acc])"
| "words_from acc (c # cs) =
     (if is_blank c then (if acc = [] then words_from [] cs else rev acc # words_from [] cs) else words_from (c # acc) cs)"

section \<open>One field\<close>

definition cron_range :: "string \<Rightarrow> int \<Rightarrow> int \<Rightarrow> cron_failure + int \<times> int" where
  "cron_range rangePart lo hi =
     (case split_at (CHR ''-'') rangePart of
        Some (a, b) \<Rightarrow> (case stoi a of Inl e \<Rightarrow> Inl e | Inr x \<Rightarrow> (case stoi b of Inl e \<Rightarrow> Inl e | Inr y \<Rightarrow> Inr (x, y)))
      | None \<Rightarrow>
          if rangePart = ''*'' then Inr (lo, hi)
          else case stoi rangePart of Inl e \<Rightarrow> Inl e | Inr x \<Rightarrow> Inr (x, x))"

definition cron_part :: "int \<Rightarrow> string \<Rightarrow> int \<Rightarrow> int \<Rightarrow> cron_failure + bool" where
  "cron_part v part lo hi =
     (case (case split_at (CHR ''/'') part of
              None \<Rightarrow> Inr (1, part)
            | Some (a, b) \<Rightarrow> (case stoi b of Inl e \<Rightarrow> Inl e | Inr step \<Rightarrow> Inr (step, a))) of
        Inl e \<Rightarrow> Inl e
      | Inr (step, rangePart) \<Rightarrow>
          (case cron_range rangePart lo hi of
             Inl e \<Rightarrow> Inl e
           | Inr (rangeMin, rangeMax) \<Rightarrow>
               if rangeMin \<le> v \<and> v \<le> rangeMax
               then if step = 1 then Inr True else if step = 0 then Inl DivisionByZero else Inr ((v - rangeMin) mod step = 0)
               else Inr False))"

fun cron_parts :: "int \<Rightarrow> string list \<Rightarrow> int \<Rightarrow> int \<Rightarrow> cron_failure + bool" where
  "cron_parts v [] lo hi = Inr False"
| "cron_parts v (p # ps) lo hi =
     (case cron_part v p lo hi of Inl e \<Rightarrow> Inl e | Inr b \<Rightarrow> if b then Inr True else cron_parts v ps lo hi)"

definition matchCronField :: "int \<Rightarrow> string \<Rightarrow> int \<Rightarrow> int \<Rightarrow> cron_failure + bool" where
  "matchCronField v field lo hi =
     (if field = [] then Inr True else if field = ''*'' then Inr True else cron_parts v (split_parts (CHR '','') field) lo hi)"

section \<open>The next time\<close>

record cron_fields =
  cf_month :: int
  cf_day :: int
  cf_dayOfWeek :: int
  cf_hour :: int
  cf_minute :: int

text \<open>The conjunction of the five tests, from left to right.\<close>

fun all_match :: "(cron_failure + bool) list \<Rightarrow> cron_failure + bool" where
  "all_match [] = Inr True"
| "all_match (r # rs) = (case r of Inl e \<Rightarrow> Inl e | Inr b \<Rightarrow> if b then all_match rs else Inr False)"

definition minute_matches :: "(int \<Rightarrow> cron_fields) \<Rightarrow> string list \<Rightarrow> int \<Rightarrow> cron_failure + bool" where
  "minute_matches cal fs c =
     (let f = cal c in all_match
        [matchCronField (cf_minute f) (fs ! 0) 0 59, matchCronField (cf_hour f) (fs ! 1) 0 23, matchCronField (cf_day f) (fs ! 2) 1 31,
         matchCronField (cf_month f) (fs ! 3) 1 12, matchCronField (cf_dayOfWeek f mod 7) (fs ! 4) 0 6])"

fun cron_search :: "(int \<Rightarrow> cron_fields) \<Rightarrow> string list \<Rightarrow> nat \<Rightarrow> int \<Rightarrow> cron_failure + int option" where
  "cron_search cal fs 0 c = Inr None"
| "cron_search cal fs (Suc n) c =
     (case minute_matches cal fs c of
        Inl e \<Rightarrow> Inl e
      | Inr b \<Rightarrow> if b then Inr (Some c) else cron_search cal fs n (c + 1))"

definition maxIterations :: nat where "maxIterations = 1051200"

text \<open>\<open>from\<close> is in milliseconds; the result is the number of a minute, \<open>None\<close> an invalid time.\<close>

definition nextCronTime :: "(int \<Rightarrow> cron_fields) \<Rightarrow> string \<Rightarrow> int \<Rightarrow> cron_failure + int option" where
  "nextCronTime cal expr from =
     (let fs = words_from [] expr in
      if length fs < 5 then Inr None
      else cron_search cal (take 5 fs) maxIterations ((from + 60000) div 60000))"

definition cron_interval :: "int \<Rightarrow> int \<Rightarrow> int" where
  "cron_interval now nextMinute = to_int32 (max 100 (nextMinute * 60000 - now))"

section \<open>Fields and what they mean\<close>

text \<open>The syntax of a field: a list of items, each a base and perhaps a step.\<close>

datatype cron_base = CAny | CNum nat | CRange nat nat

type_synonym cron_item = "cron_base \<times> nat option"

fun render_base :: "cron_base \<Rightarrow> string" where
  "render_base CAny = ''*''"
| "render_base (CNum n) = dec_nat n"
| "render_base (CRange a b) = dec_nat a @ ''-'' @ dec_nat b"

definition render_item :: "cron_item \<Rightarrow> string" where
  "render_item it = render_base (fst it) @ (case snd it of None \<Rightarrow> [] | Some k \<Rightarrow> ''/'' @ dec_nat k)"

definition render_field :: "cron_item list \<Rightarrow> string" where
  "render_field its = join '','' (map render_item its)"

fun base_range :: "int \<Rightarrow> int \<Rightarrow> cron_base \<Rightarrow> int \<times> int" where
  "base_range lo hi CAny = (lo, hi)"
| "base_range lo hi (CNum n) = (int n, int n)"
| "base_range lo hi (CRange a b) = (int a, int b)"

definition item_matches :: "int \<Rightarrow> int \<Rightarrow> int \<Rightarrow> cron_item \<Rightarrow> bool" where
  "item_matches lo hi v it \<longleftrightarrow> (case base_range lo hi (fst it) of (a, b) \<Rightarrow>
     a \<le> v \<and> v \<le> b \<and> (case snd it of None \<Rightarrow> True | Some k \<Rightarrow> int k dvd (v - a)))"

fun base_ok :: "cron_base \<Rightarrow> bool" where
  "base_ok CAny = True"
| "base_ok (CNum n) \<longleftrightarrow> n < 2 ^ 31"
| "base_ok (CRange a b) \<longleftrightarrow> a < 2 ^ 31 \<and> b < 2 ^ 31"

definition item_ok :: "cron_item \<Rightarrow> bool" where
  "item_ok it \<longleftrightarrow> base_ok (fst it) \<and> (\<forall>k. snd it = Some k \<longrightarrow> 0 < k \<and> k < 2 ^ 31)"

lemma stoi_dec_nat:
  assumes "n < 2 ^ 31"
  shows "stoi (dec_nat n) = Inr (int n)"
proof -
  obtain c cs where d: "dec_nat n = c # cs" using dec_nat_nonempty by (meson neq_Nil_conv)
  have "is_digit c" using dec_nat_digits [of c n] d by simp
  then have c: "\<not> is_blank c" "c \<noteq> CHR ''-''" "c \<noteq> CHR ''+''" using digit_not_blank not_digit by blast+
  have "takeWhile is_digit (dec_nat n) = dec_nat n" using dec_nat_digits by (simp add: takeWhile_eq_all_conv)
  moreover have "int n < 2 ^ 31" using assms by (metis of_nat_less_iff of_nat_numeral of_nat_power)
  ultimately show ?thesis using d c read_dec_nat [of n] by (simp add: stoi_def Let_def)
qed

lemma cron_range_render: "base_ok b \<Longrightarrow> cron_range (render_base b) lo hi = Inr (base_range lo hi b)"
proof (cases b)
  case (CNum n)
  assume "base_ok b"
  moreover have "dec_nat n \<noteq> ''*''" using dec_nat_avoids [of "CHR ''*''" n] by auto
  ultimately show ?thesis using CNum split_at_none [OF dec_nat_avoids [of "CHR ''-''" n]] by (simp add: cron_range_def stoi_dec_nat)
next
  case (CRange x y)
  assume "base_ok b"
  then show ?thesis using CRange split_at_some [OF dec_nat_avoids [of "CHR ''-''" x]] by (simp add: cron_range_def stoi_dec_nat)
qed (simp add: cron_range_def)

lemma render_base_avoids: "d \<in> {CHR ''/'', CHR '',''} \<Longrightarrow> d \<notin> set (render_base b)"
  using dec_nat_avoids [of d] by (cases b) auto

lemma cron_part_render:
  assumes "item_ok it"
  shows "cron_part v (render_item it) lo hi = Inr (item_matches lo hi v it)"
proof (cases "snd it")
  case None
  then show ?thesis using assms split_at_none [OF render_base_avoids [of "CHR ''/''" "fst it"]]
    by (auto simp: cron_part_def render_item_def item_ok_def cron_range_render item_matches_def split: prod.splits)
next
  case (Some k)
  then have "k \<noteq> 0" "k < 2 ^ 31" using assms by (auto simp: item_ok_def)
  moreover have "(if int k = 1 then True else (v - a) mod int k = 0) = (int k dvd (v - a))" for a by (auto simp: dvd_eq_mod_eq_0)
  ultimately show ?thesis using Some assms split_at_some [OF render_base_avoids [of "CHR ''/''" "fst it"], of "dec_nat k"]
    by (auto simp: cron_part_def render_item_def item_ok_def cron_range_render stoi_dec_nat item_matches_def dvd_eq_mod_eq_0 split: prod.splits)
qed

lemma split_parts_whole: "s \<noteq> [] \<Longrightarrow> d \<notin> set s \<Longrightarrow> split_parts d s = [s]"
proof (induction s)
  case (Cons c s)
  then show ?case by (cases "s = []") auto
qed simp

lemma split_parts_append: "d \<notin> set s \<Longrightarrow> split_parts d (s @ d # t) = s # split_parts d t"
  by (induction s) auto

lemma split_parts_join:
  "list_all (\<lambda>s. s \<noteq> [] \<and> d \<notin> set s) ps \<Longrightarrow> split_parts d (join [d] ps) = ps"
proof (induction "[d]" ps rule: join.induct)
  case (3 x y xs)
  then show ?case by (simp add: split_parts_append)
qed (auto simp: split_parts_whole)

lemma render_item_nonempty: "render_item it \<noteq> []"
  using dec_nat_nonempty by (cases "fst it") (auto simp: render_item_def)

lemma render_item_avoids: "CHR '','' \<notin> set (render_item it)"
  using render_base_avoids [of "CHR '',''" "fst it"] dec_nat_avoids [of "CHR '',''"] by (auto simp: render_item_def split: option.split)

lemma cron_parts_render: "list_all item_ok its \<Longrightarrow> cron_parts v (map render_item its) lo hi = Inr (list_ex (item_matches lo hi v) its)"
  by (induction its) (auto simp: cron_part_render)

lemma render_star: "item_ok it \<Longrightarrow> render_item it = ''*'' \<Longrightarrow> it = (CAny, None)"
proof -
  assume it: "render_item it = ''*''"
  have "CHR ''*'' \<notin> set (dec_nat n)" for n using dec_nat_avoids by simp
  then have "dec_nat n \<noteq> ''*''" "\<And>s. dec_nat n \<noteq> CHR ''*'' # s" for n by (metis list.set_intros(1))+
  then have "fst it = CAny" using it by (cases "fst it") (auto simp: render_item_def dec_nat_nonempty append_eq_Cons_conv)
  then show ?thesis using it by (cases it) (auto simp: render_item_def split: option.splits)
qed

lemma matchCronField_render:
  assumes "its \<noteq> []" "list_all item_ok its" "lo \<le> v" "v \<le> hi"
  shows "matchCronField v (render_field its) lo hi = Inr (list_ex (item_matches lo hi v) its)"
proof -
  have p: "split_parts (CHR '','') (render_field its) = map render_item its"
    unfolding render_field_def by (rule split_parts_join) (simp add: list_all_iff render_item_nonempty render_item_avoids)
  have "render_field its \<noteq> []" using p assms(1) by force
  moreover have "list_ex (item_matches lo hi v) its" if "render_field its = ''*''"
  proof -
    have "map render_item its = [''*'']" using p that by simp
    then obtain it where "its = [it]" "render_item it = ''*''" by auto
    with assms(2) render_star have "its = [(CAny, None)]" by auto
    then show ?thesis using assms(3,4) by (simp add: item_matches_def)
  qed
  ultimately show ?thesis using p cron_parts_render [OF assms(2)] by (simp add: matchCronField_def)
qed

text \<open>C22 (equivalence). For every field written in the syntax (any list of numbers, ranges and stars, each perhaps with a step) and every value in the range of
  the field, the matcher says exactly whether one of the items covers the value; it never fails.\<close>

theorem cron_field_correct:
  assumes "its \<noteq> []" "list_all item_ok its" "lo \<le> v" "v \<le> hi"
  shows "matchCronField v (render_field its) lo hi = Inr (list_ex (item_matches lo hi v) its)"
  by (rule matchCronField_render [OF assms])

theorem cron_field_correct_witness:
  "render_field [(CRange 10 40, Some 15), (CNum 5, None)] = ''10-40/15,5''
   \<and> matchCronField 25 (render_field [(CRange 10 40, Some 15), (CNum 5, None)]) 0 59 = Inr True"
proof -
  have "render_field [(CRange 10 40, Some 15), (CNum 5, None)] = ''10-40/15,5''" by code_simp
  moreover have "item_matches 0 59 25 (CRange 10 40, Some 15)" by (simp add: item_matches_def)
  ultimately show ?thesis using cron_field_correct [of "[(CRange 10 40, Some 15), (CNum 5, None)]" 0 25 59] by (simp add: item_ok_def)
qed

section \<open>The search and the timer interval\<close>

lemma cron_search_least:
  "cron_search cal fs n c = Inr (Some t)
   \<longleftrightarrow> c \<le> t \<and> t < c + int n \<and> minute_matches cal fs t = Inr True \<and> (\<forall>u. c \<le> u \<and> u < t \<longrightarrow> minute_matches cal fs u = Inr False)"
proof (induction n arbitrary: c t)
  case (Suc n)
  have range: "(\<forall>u. c \<le> u \<and> u < t \<longrightarrow> P u) \<longleftrightarrow> (c < t \<longrightarrow> P c) \<and> (\<forall>u. c + 1 \<le> u \<and> u < t \<longrightarrow> P u)" for P
  proof (intro iffI conjI allI impI)
    fix u assume h: "(c < t \<longrightarrow> P c) \<and> (\<forall>u. c + 1 \<le> u \<and> u < t \<longrightarrow> P u)" and u: "c \<le> u \<and> u < t"
    show "P u" by (cases "u = c") (use h u in auto)
  qed auto
  show ?case
  proof (cases "minute_matches cal fs c")
    case (Inl e)
    then show ?thesis unfolding range by (cases "t = c") auto
  next
    case (Inr b)
    then show ?thesis unfolding cron_search.simps range Suc.IH
      by (cases "t = c"; cases b) (auto simp: Suc.IH)
  qed
qed auto

text \<open>The search in terms of the tests the code makes, for any expression of at least five words.\<close>

lemma next_cron_time_search:
  assumes "5 \<le> length (words_from [] expr)"
  shows "nextCronTime cal expr from = Inr (Some t) \<longleftrightarrow>
     from div 60000 < t \<and> t \<le> from div 60000 + int maxIterations
     \<and> minute_matches cal (take 5 (words_from [] expr)) t = Inr True
     \<and> (\<forall>u. from div 60000 < u \<and> u < t \<longrightarrow> minute_matches cal (take 5 (words_from [] expr)) u = Inr False)"
proof -
  have "(from + 60000) div 60000 = from div 60000 + 1" by simp
  then show ?thesis using assms by (auto simp: nextCronTime_def Let_def cron_search_least)
qed

lemma cron_search_none:
  "(\<And>u. \<exists>b. minute_matches cal fs u = Inr b) \<Longrightarrow>
    cron_search cal fs n c = Inr None \<longleftrightarrow> (\<forall>u. c \<le> u \<and> u < c + int n \<longrightarrow> minute_matches cal fs u = Inr False)"
proof (induction n arbitrary: c)
  case (Suc n)
  have range: "(\<forall>u. c \<le> u \<and> u < c + int (Suc n) \<longrightarrow> P u) \<longleftrightarrow> P c \<and> (\<forall>u. c + 1 \<le> u \<and> u < c + 1 + int n \<longrightarrow> P u)" for P
  proof (intro iffI conjI allI impI)
    fix u assume h: "P c \<and> (\<forall>u. c + 1 \<le> u \<and> u < c + 1 + int n \<longrightarrow> P u)" and u: "c \<le> u \<and> u < c + int (Suc n)"
    show "P u" by (cases "u = c") (use h u in auto)
  qed auto
  obtain b where "minute_matches cal fs c = Inr b" using Suc.prems by blast
  with Suc.IH [OF Suc.prems, of "c + 1"] show ?case unfolding range by auto
qed auto

text \<open>What a cron expression means, apart from the code: a minute is due when each of its five fields is covered by an item of the expression; Sunday is day 0 of the week. \<open>calendar_ok\<close> is the range of what
  \<^verbatim>\<open>QDate\<close> and \<^verbatim>\<open>QTime\<close> return.\<close>

record cron_expr =
  ce_minute :: "cron_item list"
  ce_hour :: "cron_item list"
  ce_day :: "cron_item list"
  ce_month :: "cron_item list"
  ce_weekday :: "cron_item list"

definition cron_fields_of :: "cron_expr \<Rightarrow> cron_item list list" where
  "cron_fields_of e = [ce_minute e, ce_hour e, ce_day e, ce_month e, ce_weekday e]"

definition render_cron :: "cron_expr \<Rightarrow> string" where
  "render_cron e = join '' '' (map render_field (cron_fields_of e))"

definition cron_expr_ok :: "cron_expr \<Rightarrow> bool" where
  "cron_expr_ok e \<longleftrightarrow> list_all (\<lambda>its. its \<noteq> [] \<and> list_all item_ok its) (cron_fields_of e)"

definition cron_due :: "(int \<Rightarrow> cron_fields) \<Rightarrow> cron_expr \<Rightarrow> int \<Rightarrow> bool" where
  "cron_due cal e t \<longleftrightarrow> list_ex (item_matches 0 59 (cf_minute (cal t))) (ce_minute e)
     \<and> list_ex (item_matches 0 23 (cf_hour (cal t))) (ce_hour e)
     \<and> list_ex (item_matches 1 31 (cf_day (cal t))) (ce_day e)
     \<and> list_ex (item_matches 1 12 (cf_month (cal t))) (ce_month e)
     \<and> list_ex (item_matches 0 6 (if cf_dayOfWeek (cal t) = 7 then 0 else cf_dayOfWeek (cal t))) (ce_weekday e)"

definition calendar_ok :: "(int \<Rightarrow> cron_fields) \<Rightarrow> bool" where
  "calendar_ok cal \<longleftrightarrow> (\<forall>t. cf_minute (cal t) \<in> {0..59} \<and> cf_hour (cal t) \<in> {0..23} \<and> cf_day (cal t) \<in> {1..31}
     \<and> cf_month (cal t) \<in> {1..12} \<and> cf_dayOfWeek (cal t) \<in> {1..7})"

lemma words_from_word: "list_all (\<lambda>c. \<not> is_blank c) w \<Longrightarrow> words_from acc (w @ s) = words_from (rev w @ acc) s"
  by (induction w arbitrary: acc) auto

lemma words_from_join:
  "list_all (\<lambda>w. w \<noteq> [] \<and> list_all (\<lambda>c. \<not> is_blank c) w) ws \<Longrightarrow> words_from [] (join '' '' ws) = ws"
proof (induction "'' ''" ws rule: join.induct)
  case (2 x)
  then show ?case using words_from_word [of x "[]" "[]"] by simp
next
  case (3 x y xs)
  then show ?case using words_from_word [of x "[]" "'' '' @ join '' '' (y # xs)"] by (simp add: is_blank_def)
qed simp

lemma digits_not_blank: "list_all (\<lambda>c. \<not> is_blank c) (dec_nat n)"
  using dec_nat_digits [of _ n] digit_not_blank by (auto simp: list_all_iff)

lemma render_item_not_blank: "list_all (\<lambda>c. \<not> is_blank c) (render_item it)"
  using digits_not_blank by (cases "fst it") (auto simp: render_item_def is_blank_def list_all_iff split: option.split)

lemma join_all: "list_all P sep \<Longrightarrow> list_all (list_all P) ws \<Longrightarrow> list_all P (join sep ws)"
  by (induction sep ws rule: join.induct) auto

lemma render_field_word:
  assumes "its \<noteq> []"
  shows "render_field its \<noteq> [] \<and> list_all (\<lambda>c. \<not> is_blank c) (render_field its)"
proof
  show "render_field its \<noteq> []" using assms render_item_nonempty by (cases its rule: remdups_adj.cases) (auto simp: render_field_def)
  show "list_all (\<lambda>c. \<not> is_blank c) (render_field its)"
    unfolding render_field_def
  proof (rule join_all)
    show "list_all (\<lambda>c. \<not> is_blank c) '',''" by (simp add: is_blank_def)
    show "list_all (list_all (\<lambda>c. \<not> is_blank c)) (map render_item its)" using render_item_not_blank by (induction its) auto
  qed
qed

lemma render_cron_words: "cron_expr_ok e \<Longrightarrow> words_from [] (render_cron e) = map render_field (cron_fields_of e)"
  unfolding render_cron_def by (rule words_from_join) (auto simp: list_all_iff cron_expr_ok_def render_field_word [unfolded list_all_iff])

lemma field_correct:
  "its \<noteq> [] \<Longrightarrow> list_all item_ok its \<Longrightarrow> v \<in> {lo..hi} \<Longrightarrow> matchCronField v (render_field its) lo hi = Inr (list_ex (item_matches lo hi v) its)"
  by (rule matchCronField_render) auto

lemma minute_matches_due:
  assumes "cron_expr_ok e" "calendar_ok cal"
  shows "minute_matches cal (map render_field (cron_fields_of e)) t = Inr (cron_due cal e t)"
proof -
  have r: "cf_minute (cal t) \<in> {0..59}" "cf_hour (cal t) \<in> {0..23}" "cf_day (cal t) \<in> {1..31}" "cf_month (cal t) \<in> {1..12}" "cf_dayOfWeek (cal t) \<in> {1..7}"
    using assms(2) by (simp_all add: calendar_ok_def)
  have w: "cf_dayOfWeek (cal t) mod 7 = (if cf_dayOfWeek (cal t) = 7 then 0 else cf_dayOfWeek (cal t))" "cf_dayOfWeek (cal t) mod 7 \<in> {0..6}"
    using r(5) by (auto simp: mod_pos_pos_trivial)
  have e: "ce_minute e \<noteq> []" "list_all item_ok (ce_minute e)" "ce_hour e \<noteq> []" "list_all item_ok (ce_hour e)" "ce_day e \<noteq> []" "list_all item_ok (ce_day e)"
    "ce_month e \<noteq> []" "list_all item_ok (ce_month e)" "ce_weekday e \<noteq> []" "list_all item_ok (ce_weekday e)"
    using assms(1) by (simp_all add: cron_expr_ok_def cron_fields_of_def)
  show ?thesis
    using field_correct [OF e(1,2) r(1)] field_correct [OF e(3,4) r(2)] field_correct [OF e(5,6) r(3)] field_correct [OF e(7,8) r(4)] field_correct [OF e(9,10) w(2)] w(1)
    by (simp add: minute_matches_def Let_def cron_fields_of_def cron_due_def)
qed


text \<open>A calendar with one day, the first of January, a Sunday.\<close>

definition one_day :: "int \<Rightarrow> cron_fields" where
  "one_day c = \<lparr>cf_month = 1, cf_day = 1, cf_dayOfWeek = 7, cf_hour = c div 60 mod 24, cf_minute = c mod 60\<rparr>"

lemma range_three: "(\<forall>u::int. 0 < u \<and> u < 3 \<longrightarrow> P u) \<longleftrightarrow> P 1 \<and> P 2"
proof -
  have "0 < u \<and> u < 3 \<longleftrightarrow> u = 1 \<or> u = 2" for u :: int by arith
  then show ?thesis by auto
qed

text \<open>The third minute of every hour on Sundays in January.\<close>

definition demo_cron :: cron_expr where
  "demo_cron = \<lparr>ce_minute = [(CNum 3, None)], ce_hour = [(CAny, None)], ce_day = [(CAny, None)], ce_month = [(CRange 1 1, None)], ce_weekday = [(CNum 0, None)]\<rparr>"


text \<open>The timer is armed with the distance to the next match (at least 100 ms) exactly when that is below $2^{31}$ ms, a little less than 25 days. From
  there on it is armed with something else, and up to twice that with a negative interval.\<close>

theorem cron_interval_exact_iff:
  "(cron_interval now nx = max 100 (nx * 60000 - now) \<longleftrightarrow> nx * 60000 - now < 2 ^ 31)
   \<and> (2 ^ 31 \<le> nx * 60000 - now \<longrightarrow> nx * 60000 - now < 2 ^ 32 \<longrightarrow> cron_interval now nx = nx * 60000 - now - 2 ^ 32)"
proof (intro conjI impI)
  show "cron_interval now nx = max 100 (nx * 60000 - now) \<longleftrightarrow> nx * 60000 - now < 2 ^ 31"
    using to_int32_small [of "max 100 (nx * 60000 - now)"] to_int32_range [of "max 100 (nx * 60000 - now)"]
    by (auto simp: cron_interval_def)
next
  assume d: "2 ^ 31 \<le> nx * 60000 - now" "nx * 60000 - now < 2 ^ 32"
  have "to_int32 (nx * 60000 - now) = to_int32 (nx * 60000 - now - 2 ^ 32)" by (simp only: to_int32_wrap)
  also have "\<dots> = nx * 60000 - now - 2 ^ 32" by (rule to_int32_small) (use d in auto)
  finally show "cron_interval now nx = nx * 60000 - now - 2 ^ 32" using d by (simp add: cron_interval_def max_def)
qed

text \<open>Thirty days ahead.\<close>

theorem cron_interval_exact_iff_witness: "cron_interval 0 43200 = - 1702967296"
  using cron_interval_exact_iff [of 0 43200] by simp

end
