(* ===== verification/SK_Scheduler.thy ===== *)
theory SK_Scheduler
  imports SK_Prelude SK_Cron
begin

text \<open>
  The scheduled tasks of \<^verbatim>\<open>src/soul/scheduler/scheduled_task.cpp\<close> and the scheduler of \<^verbatim>\<open>scheduler.cpp\<close>. A task is a record; its
  single-shot timer is the interval it is armed with, if any, and its Qt signals are a log, oldest first. One run of the callback is an argument of the operations
  that run it: the operations of its own task that it calls (it may stop or restart it), and whether it returns or throws. A scheduler holds shared pointers, so tasks live in a store and the
  scheduler lists their addresses. The scheduler's mutex is held during every operation; operations are therefore atomic steps.
\<close>

section \<open>Tasks\<close>

datatype task_mode = Cron | FixedRate | FixedDelay

datatype task_signal = Started | Stopped | Executed

record scheduled_task =
  m_mode :: task_mode
  m_name :: string
  m_cronExpression :: string
  m_intervalMs :: int
  m_timer :: "int option"
  m_running :: bool
  m_executing :: bool
  m_executionCount :: nat
  m_lastExecutionTime :: "int option"
  t_signals :: "task_signal list"

text \<open>How an operation can fail: with what cron parsing raises, or with what the callback throws.\<close>

datatype task_failure = CronFailed cron_failure | CallbackThrew

definition mk_ScheduledTask :: "task_mode \<Rightarrow> string \<Rightarrow> scheduled_task" where
  "mk_ScheduledTask mode name =
     \<lparr>m_mode = mode, m_name = name, m_cronExpression = [], m_intervalMs = 0, m_timer = None, m_running = False, m_executing = False, m_executionCount = 0,
      m_lastExecutionTime = None, t_signals = []\<rparr>"

definition createCron :: "string \<Rightarrow> string \<Rightarrow> scheduled_task" where
  "createCron expr name = (mk_ScheduledTask Cron name)\<lparr>m_cronExpression := expr\<rparr>"

definition createFixedRate :: "int \<Rightarrow> string \<Rightarrow> scheduled_task" where
  "createFixedRate ms name = (mk_ScheduledTask FixedRate name)\<lparr>m_intervalMs := ms\<rparr>"

definition createFixedDelay :: "int \<Rightarrow> string \<Rightarrow> scheduled_task" where
  "createFixedDelay ms name = (mk_ScheduledTask FixedDelay name)\<lparr>m_intervalMs := ms\<rparr>"

definition emit_task :: "task_signal \<Rightarrow> scheduled_task \<Rightarrow> scheduled_task" where
  "emit_task sg t = t\<lparr>t_signals := t_signals t @ [sg]\<rparr>"

definition scheduleNext :: "(int \<Rightarrow> cron_fields) \<Rightarrow> int \<Rightarrow> scheduled_task \<Rightarrow> scheduled_task \<times> task_failure option" where
  "scheduleNext cal now t =
     (case m_mode t of
        Cron \<Rightarrow> (case nextCronTime cal (m_cronExpression t) now of
                  Inl e \<Rightarrow> (t, Some (CronFailed e))
                | Inr None \<Rightarrow> (t, None)
                | Inr (Some nx) \<Rightarrow> (t\<lparr>m_timer := Some (cron_interval now nx)\<rparr>, None))
      | _ \<Rightarrow> (t\<lparr>m_timer := Some (m_intervalMs t)\<rparr>, None))"

definition task_start :: "(int \<Rightarrow> cron_fields) \<Rightarrow> int \<Rightarrow> scheduled_task \<Rightarrow> scheduled_task \<times> task_failure option" where
  "task_start cal now t =
     (if m_running t then (t, None) else scheduleNext cal now (emit_task Started (t\<lparr>m_running := True\<rparr>)))"

definition task_stop :: "scheduled_task \<Rightarrow> scheduled_task" where
  "task_stop t = emit_task Stopped (t\<lparr>m_running := False, m_timer := None\<rparr>)"

text \<open>
  A run of the callback: the operations it calls on its own task, one after the other, then a return or a throw. A failing \<open>start\<close> is thrown on.
  (A nested \<^verbatim>\<open>triggerNow\<close> finds the task executing and returns at once.)
\<close>

datatype own_call = CallStart | CallStop

type_synonym callback = "(own_call list \<times> bool) option"

fun run_calls :: "(int \<Rightarrow> cron_fields) \<Rightarrow> int \<Rightarrow> own_call list \<Rightarrow> scheduled_task \<Rightarrow> scheduled_task \<times> task_failure option" where
  "run_calls cal now [] t = (t, None)"
| "run_calls cal now (CallStop # cs) t = run_calls cal now cs (task_stop t)"
| "run_calls cal now (CallStart # cs) t =
     (case task_start cal now t of (t1, Some e) \<Rightarrow> (t1, Some e) | (t1, None) \<Rightarrow> run_calls cal now cs t1)"

definition run_callback :: "(int \<Rightarrow> cron_fields) \<Rightarrow> callback \<Rightarrow> int \<Rightarrow> scheduled_task \<Rightarrow> scheduled_task \<times> task_failure option" where
  "run_callback cal cb now t =
     (case cb of
        None \<Rightarrow> (t, None)
      | Some (calls, returns) \<Rightarrow>
          (case run_calls cal now calls t of
             (t1, Some e) \<Rightarrow> (t1, Some e)
           | (t1, None) \<Rightarrow> (t1, if returns then None else Some CallbackThrew)))"

definition triggerNow :: "(int \<Rightarrow> cron_fields) \<Rightarrow> callback \<Rightarrow> int \<Rightarrow> scheduled_task \<Rightarrow> scheduled_task \<times> task_failure option" where
  "triggerNow cal cb now t =
     (if m_executing t then (t, None)
      else case run_callback cal cb now (t\<lparr>m_executing := True\<rparr>) of
        (t1, Some e) \<Rightarrow> (t1\<lparr>m_executing := False\<rparr>, Some e)
      | (t1, None) \<Rightarrow>
          (emit_task Executed (t1\<lparr>m_executing := False, m_executionCount := m_executionCount t1 + 1, m_lastExecutionTime := Some now\<rparr>), None))"

definition onTimerTick :: "(int \<Rightarrow> cron_fields) \<Rightarrow> callback \<Rightarrow> int \<Rightarrow> scheduled_task \<Rightarrow> scheduled_task \<times> task_failure option" where
  "onTimerTick cal cb now t =
     (if \<not> m_running t then (t, None)
      else case triggerNow cal cb now t of
        (t1, Some e) \<Rightarrow> (t1, Some e)
      | (t1, None) \<Rightarrow> if m_running t1 then scheduleNext cal now t1 else (t1, None))"

text \<open>The timer is a single-shot one: when it fires it is no longer armed, and the slot runs.\<close>

definition timer_fires :: "(int \<Rightarrow> cron_fields) \<Rightarrow> callback \<Rightarrow> int \<Rightarrow> scheduled_task \<Rightarrow> scheduled_task \<times> task_failure option" where
  "timer_fires cal cb now t = (if m_timer t = None then (t, None) else onTimerTick cal cb now (t\<lparr>m_timer := None\<rparr>))"

section \<open>The scheduler\<close>

datatype scheduler_signal = TaskAdded string | TaskRemoved string | AllStarted | AllStopped

record scheduler =
  m_tasks :: "nat list"
  s_signals :: "scheduler_signal list"

text \<open>The store of tasks and the scheduler.\<close>

type_synonym sched_state = "(nat \<Rightarrow> scheduled_task) \<times> scheduler"

definition mk_Scheduler :: scheduler where
  "mk_Scheduler = \<lparr>m_tasks = [], s_signals = []\<rparr>"

definition emit_sched :: "scheduler_signal \<Rightarrow> scheduler \<Rightarrow> scheduler" where
  "emit_sched sg s = s\<lparr>s_signals := s_signals s @ [sg]\<rparr>"

text \<open>The position of the first task of that name.\<close>

fun find_name :: "(nat \<Rightarrow> scheduled_task) \<Rightarrow> string \<Rightarrow> nat list \<Rightarrow> nat option" where
  "find_name h name [] = None"
| "find_name h name (p # ps) = (if m_name (h p) = name then Some 0 else map_option Suc (find_name h name ps))"

definition addTask :: "nat option \<Rightarrow> sched_state \<Rightarrow> sched_state" where
  "addTask task st =
     (case task of
        None \<Rightarrow> st
      | Some p \<Rightarrow>
          (case st of (h, s) \<Rightarrow>
             let name = m_name (h p);
                 (h1, s1) = (case find_name h name (m_tasks s) of
                               Some i \<Rightarrow> (h(m_tasks s ! i := task_stop (h (m_tasks s ! i))), s\<lparr>m_tasks := (m_tasks s)[i := p]\<rparr>)
                             | None \<Rightarrow> (h, s\<lparr>m_tasks := m_tasks s @ [p]\<rparr>))
             in (h1, emit_sched (TaskAdded name) s1)))"

definition removeTask :: "string \<Rightarrow> sched_state \<Rightarrow> sched_state" where
  "removeTask name st =
     (case st of (h, s) \<Rightarrow>
        (case find_name h name (m_tasks s) of
           None \<Rightarrow> (h, s)
         | Some i \<Rightarrow> (h(m_tasks s ! i := task_stop (h (m_tasks s ! i))),
                     emit_sched (TaskRemoved name) (s\<lparr>m_tasks := take i (m_tasks s) @ drop (Suc i) (m_tasks s)\<rparr>))))"

definition findTask :: "string \<Rightarrow> sched_state \<Rightarrow> nat option" where
  "findTask name st = (case st of (h, s) \<Rightarrow> map_option ((!) (m_tasks s)) (find_name h name (m_tasks s)))"

definition allTasks :: "sched_state \<Rightarrow> nat list" where
  "allTasks st = m_tasks (snd st)"

definition taskCount :: "sched_state \<Rightarrow> nat" where
  "taskCount st = length (m_tasks (snd st))"

text \<open>Starting the tasks one after the other; a failure leaves the loop.\<close>

fun start_each :: "(int \<Rightarrow> cron_fields) \<Rightarrow> int \<Rightarrow> nat list \<Rightarrow> (nat \<Rightarrow> scheduled_task) \<Rightarrow> (nat \<Rightarrow> scheduled_task) \<times> task_failure option" where
  "start_each cal now [] h = (h, None)"
| "start_each cal now (p # ps) h =
     (case task_start cal now (h p) of
        (t, Some e) \<Rightarrow> (h(p := t), Some e)
      | (t, None) \<Rightarrow> start_each cal now ps (h(p := t)))"

definition startAll :: "(int \<Rightarrow> cron_fields) \<Rightarrow> int \<Rightarrow> sched_state \<Rightarrow> sched_state \<times> task_failure option" where
  "startAll cal now st =
     (case st of (h, s) \<Rightarrow>
        (case start_each cal now (m_tasks s) h of
           (h1, Some e) \<Rightarrow> ((h1, s), Some e)
         | (h1, None) \<Rightarrow> ((h1, emit_sched AllStarted s), None)))"

definition stopAll :: "sched_state \<Rightarrow> sched_state" where
  "stopAll st = (case st of (h, s) \<Rightarrow> (fold (\<lambda>p h. h(p := task_stop (h p))) (m_tasks s) h, emit_sched AllStopped s))"

definition startTask :: "(int \<Rightarrow> cron_fields) \<Rightarrow> int \<Rightarrow> string \<Rightarrow> sched_state \<Rightarrow> sched_state \<times> task_failure option" where
  "startTask cal now name st =
     (case st of (h, s) \<Rightarrow>
        (case find_name h name (m_tasks s) of
           None \<Rightarrow> (st, None)
         | Some i \<Rightarrow> let p = m_tasks s ! i; (t, e) = task_start cal now (h p) in ((h(p := t), s), e)))"

definition stopTask :: "string \<Rightarrow> sched_state \<Rightarrow> sched_state" where
  "stopTask name st =
     (case st of (h, s) \<Rightarrow>
        (case find_name h name (m_tasks s) of
           None \<Rightarrow> st
         | Some i \<Rightarrow> (h(m_tasks s ! i := task_stop (h (m_tasks s ! i))), s)))"

definition isAllStopped :: "sched_state \<Rightarrow> bool" where
  "isAllStopped st = (case st of (h, s) \<Rightarrow> list_all (\<lambda>p. \<not> m_running (h p)) (m_tasks s))"

definition totalExecutionCount :: "sched_state \<Rightarrow> nat" where
  "totalExecutionCount st = (case st of (h, s) \<Rightarrow> sum_list (map (\<lambda>p. m_executionCount (h p)) (m_tasks s)))"

section \<open>What can happen\<close>

text \<open>The events: the scheduler's operations, and the operations of single tasks and the firing of their timers.\<close>

datatype sched_op =
    AddTask "nat option" | RemoveTask string | StartAll int | StopAll | StartTask int string | StopTask string
  | TaskStart int nat | TaskStop nat | TaskTrigger callback int nat | TimerFires callback int nat

definition on_task :: "(scheduled_task \<Rightarrow> scheduled_task) \<Rightarrow> nat \<Rightarrow> sched_state \<Rightarrow> sched_state" where
  "on_task f p st = ((fst st)(p := f (fst st p)), snd st)"

fun sched_exec :: "(int \<Rightarrow> cron_fields) \<Rightarrow> sched_op \<Rightarrow> sched_state \<Rightarrow> sched_state" where
  "sched_exec cal (AddTask p) st = addTask p st"
| "sched_exec cal (RemoveTask n) st = removeTask n st"
| "sched_exec cal (StartAll now) st = fst (startAll cal now st)"
| "sched_exec cal StopAll st = stopAll st"
| "sched_exec cal (StartTask now n) st = fst (startTask cal now n st)"
| "sched_exec cal (StopTask n) st = stopTask n st"
| "sched_exec cal (TaskStart now p) st = on_task (\<lambda>t. fst (task_start cal now t)) p st"
| "sched_exec cal (TaskStop p) st = on_task task_stop p st"
| "sched_exec cal (TaskTrigger cb now p) st = on_task (\<lambda>t. fst (triggerNow cal cb now t)) p st"
| "sched_exec cal (TimerFires cb now p) st = on_task (\<lambda>t. fst (timer_fires cal cb now t)) p st"

definition sched_run :: "(int \<Rightarrow> cron_fields) \<Rightarrow> (nat \<Rightarrow> scheduled_task) \<Rightarrow> sched_op list \<Rightarrow> sched_state" where
  "sched_run cal h evs = fold (sched_exec cal) evs (h, mk_Scheduler)"

section \<open>Facts on one task\<close>

lemmas task_defs = emit_task_def scheduleNext_def task_start_def task_stop_def run_callback_def triggerNow_def onTimerTick_def timer_fires_def

text \<open>A property of tasks that the primitive updates respect is kept by all operations.\<close>

locale task_property =
  fixes P :: "scheduled_task \<Rightarrow> bool"
  assumes P_schedule: "P t \<Longrightarrow> m_running t \<Longrightarrow> P (fst (scheduleNext cal now t))"
    and P_started: "P t \<Longrightarrow> \<not> m_running t \<Longrightarrow> P (emit_task Started (t\<lparr>m_running := True\<rparr>))"
    and P_stop: "P t \<Longrightarrow> P (task_stop t)"
    and P_executing: "P t \<Longrightarrow> P (t\<lparr>m_executing := b\<rparr>)"
    and P_executed: "P t \<Longrightarrow> P (emit_task Executed (t\<lparr>m_executing := False, m_executionCount := n, m_lastExecutionTime := l\<rparr>))"
    and P_fired: "P t \<Longrightarrow> P (t\<lparr>m_timer := None\<rparr>)"
begin

lemma start_keeps: "P t \<Longrightarrow> P (fst (task_start cal now t))"
  using P_schedule [OF P_started] by (simp add: task_start_def emit_task_def)

lemma calls_keep: "P t \<Longrightarrow> P (fst (run_calls cal now cs t))"
proof (induction cs arbitrary: t)
  case (Cons c cs)
  show ?case
  proof (cases c)
    case CallStart
    then show ?thesis using Cons.IH start_keeps [OF Cons.prems, of cal now] by (auto split: prod.splits option.splits)
  qed (simp add: Cons P_stop)
qed simp

lemma callback_keeps: "P t \<Longrightarrow> P (fst (run_callback cal cb now t))"
  using calls_keep [of t cal now "fst (the cb)"] by (cases cb) (auto simp: run_callback_def split: prod.splits option.splits)

lemma trigger_keeps: "P t \<Longrightarrow> P (fst (triggerNow cal cb now t))"
  using callback_keeps [OF P_executing, of t cal cb now True] P_executing P_executed
  by (auto simp: triggerNow_def split: prod.splits option.splits)

lemma tick_keeps: "P t \<Longrightarrow> P (fst (onTimerTick cal cb now t))"
  using trigger_keeps [of t cal cb now] P_schedule by (auto simp: onTimerTick_def split: prod.splits option.splits)

lemma fires_keeps: "P t \<Longrightarrow> P (fst (timer_fires cal cb now t))"
  using tick_keeps [OF P_fired] by (simp add: timer_fires_def)

end

lemma scheduleNext_same [simp]:
  "m_name (fst (scheduleNext cal now t)) = m_name t" "m_running (fst (scheduleNext cal now t)) = m_running t"
  "m_executing (fst (scheduleNext cal now t)) = m_executing t" "m_executionCount (fst (scheduleNext cal now t)) = m_executionCount t"
  by (auto simp: scheduleNext_def split: task_mode.split sum.split option.split)

text \<open>Names never change; an armed timer belongs to a running task.\<close>

interpretation name_kept: task_property "\<lambda>t. m_name t = n" for n
  by unfold_locales (simp_all add: task_stop_def emit_task_def)

interpretation armed_runs: task_property "\<lambda>t. m_timer t \<noteq> None \<longrightarrow> m_running t"
  by unfold_locales (auto simp: task_stop_def emit_task_def)

lemmas name_ops [simp] =
  name_kept.start_keeps [OF refl] name_kept.trigger_keeps [OF refl] name_kept.fires_keeps [OF refl] name_kept.P_stop [OF refl]

section \<open>The scheduler as a map\<close>

text \<open>What the scheduler promises: a map from names to tasks.\<close>

fun spec_exec :: "(nat \<Rightarrow> string) \<Rightarrow> sched_op \<Rightarrow> (string \<rightharpoonup> nat) \<Rightarrow> (string \<rightharpoonup> nat)" where
  "spec_exec nm (AddTask (Some p)) m = m(nm p \<mapsto> p)"
| "spec_exec nm (RemoveTask n) m = m(n := None)"
| "spec_exec nm _ m = m"

definition named :: "(nat \<Rightarrow> string) \<Rightarrow> nat list \<Rightarrow> (string \<times> nat) list" where
  "named nm ps = map (\<lambda>p. (nm p, p)) ps"

lemma named_simps [simp]: "named nm [] = []" "named nm (p # ps) = (nm p, p) # named nm ps" "named nm (ps @ qs) = named nm ps @ named nm qs"
  by (simp_all add: named_def)

lemma find_name_None: "find_name h n ps = None \<longleftrightarrow> n \<notin> m_name ` h ` set ps"
  by (induction ps) auto

lemma find_name_Some: "find_name h n ps = Some i \<Longrightarrow> i < length ps \<and> m_name (h (ps ! i)) = n"
  by (induction ps arbitrary: i) (auto split: if_splits)

lemma findTask_map_of: "findTask n (h, s) = map_of (named (\<lambda>p. m_name (h p)) (m_tasks s)) n"
proof -
  have "map_option ((!) ps) (find_name h n ps) = map_of (named (\<lambda>p. m_name (h p)) ps) n" for ps
    by (induction ps) (auto simp: option.map_comp comp_def)
  then show ?thesis by (simp add: findTask_def)
qed

lemma map_of_named_update:
  "distinct (map nm ps) \<Longrightarrow> i < length ps \<Longrightarrow> nm p = nm (ps ! i) \<Longrightarrow> map_of (named nm (ps[i := p])) = (map_of (named nm ps))(nm p \<mapsto> p)"
proof (induction ps arbitrary: i)
  case (Cons q ps)
  show ?case
  proof (cases i)
    case (Suc j)
    then have "nm q \<noteq> nm (ps ! j)" using Cons.prems by (metis Suc_less_eq distinct.simps(2) image_eqI length_Cons list.map(2) nth_mem set_map)
    then show ?thesis using Suc Cons by (auto simp: fun_eq_iff)
  qed (use Cons.prems in auto)
qed simp

lemma map_of_named_none: "n \<notin> nm ` set ps \<Longrightarrow> map_of (named nm ps) n = None"
  by (induction ps) auto

lemma map_of_named_delete:
  "distinct (map nm ps) \<Longrightarrow> i < length ps \<Longrightarrow>
   map_of (named nm (take i ps @ drop (Suc i) ps)) = (map_of (named nm ps))(nm (ps ! i) := None)"
proof (induction ps arbitrary: i)
  case (Cons q ps)
  show ?case
  proof (cases i)
    case 0
    then show ?thesis using Cons.prems map_of_named_none [of "nm q" nm ps] by (auto simp: fun_eq_iff)
  next
    case (Suc j)
    then have "nm q \<noteq> nm (ps ! j)" using Cons.prems by (metis Suc_less_eq distinct.simps(2) image_eqI length_Cons list.map(2) nth_mem set_map)
    then show ?thesis using Suc Cons.prems Cons.IH [of j] by (auto simp: fun_eq_iff)
  qed
qed simp

lemma map_of_named_append: "nm p \<notin> nm ` set ps \<Longrightarrow> map_of (named nm (ps @ [p])) = (map_of (named nm ps))(nm p \<mapsto> p)"
  by (induction ps) (auto simp: fun_upd_twist)

text \<open>The invariant: names are those of the beginning, and the listed tasks have different ones.\<close>

definition sched_wf :: "(nat \<Rightarrow> string) \<Rightarrow> sched_state \<Rightarrow> bool" where
  "sched_wf nm st \<longleftrightarrow> (\<lambda>p. m_name (fst st p)) = nm \<and> distinct (map nm (m_tasks (snd st)))"

definition sched_abs :: "sched_state \<Rightarrow> (string \<rightharpoonup> nat)" where
  "sched_abs st = (\<lambda>n. findTask n st)"

lemma sched_abs_named: "sched_wf nm st \<Longrightarrow> sched_abs st = map_of (named nm (m_tasks (snd st)))"
  by (cases st) (auto simp: sched_abs_def findTask_map_of sched_wf_def)

lemma sched_abs_card:
  assumes "sched_wf nm st"
  shows "card (dom (sched_abs st)) = taskCount st"
proof -
  have "dom (sched_abs st) = nm ` set (m_tasks (snd st))"
    unfolding sched_abs_named [OF assms] dom_map_of_conv_image_fst named_def by force
  then show ?thesis using assms distinct_card [of "map nm (m_tasks (snd st))"] by (simp add: sched_wf_def taskCount_def)
qed

lemma same_list_keeps:
  "sched_wf nm st \<Longrightarrow> (\<And>p. m_name (fst st' p) = m_name (fst st p)) \<Longrightarrow> m_tasks (snd st') = m_tasks (snd st)
   \<Longrightarrow> sched_wf nm st' \<and> sched_abs st' = sched_abs st"
  by (metis (no_types, lifting) sched_abs_named sched_wf_def ext)

lemma start_each_names: "m_name (fst (start_each cal now ps h) p) = m_name (h p)"
proof (induction ps arbitrary: h)
  case (Cons q ps)
  obtain t e where t: "task_start cal now (h q) = (t, e)" by force
  have "m_name t = m_name (h q)" using name_ops(1) [of cal now "h q"] t by simp
  then show ?case using Cons.IH t by (cases e) auto
qed simp

lemma stop_each_names: "m_name (fold (\<lambda>p h. h(p := task_stop (h p))) ps h p) = m_name (h p)"
  by (induction ps arbitrary: h) auto

lemma emit_sched_tasks [simp]: "m_tasks (emit_sched sg s) = m_tasks s"
  by (simp add: emit_sched_def)

lemma addTask_refines:
  assumes wf: "sched_wf nm (h, s)"
  shows "sched_wf nm (addTask (Some p) (h, s)) \<and> sched_abs (addTask (Some p) (h, s)) = (sched_abs (h, s))(nm p \<mapsto> p)"
proof -
  have nm: "m_name (h q) = nm q" for q using wf by (auto simp: sched_wf_def)
  have d: "distinct (map nm (m_tasks s))" using wf by (simp add: sched_wf_def)
  show ?thesis
  proof (cases "find_name h (nm p) (m_tasks s)")
    case None
    then have new: "nm p \<notin> nm ` set (m_tasks s)" by (simp add: find_name_None image_image nm)
    have "sched_wf nm (addTask (Some p) (h, s))" using d new None by (auto simp: sched_wf_def addTask_def nm)
    then show ?thesis using wf new None by (simp add: sched_abs_named map_of_named_append addTask_def nm del: named_simps)
  next
    case (Some i)
    have i: "i < length (m_tasks s)" "nm p = nm (m_tasks s ! i)" using find_name_Some [OF Some] nm by auto
    have "map nm ((m_tasks s)[i := p]) = map nm (m_tasks s)" using i by (simp add: map_update list_update_same_conv)
    then have "sched_wf nm (addTask (Some p) (h, s))" using d Some by (auto simp: sched_wf_def addTask_def nm)
    then show ?thesis using wf d i Some by (simp add: sched_abs_named map_of_named_update addTask_def nm)
  qed
qed

lemma removeTask_refines:
  assumes wf: "sched_wf nm (h, s)"
  shows "sched_wf nm (removeTask n (h, s)) \<and> sched_abs (removeTask n (h, s)) = (sched_abs (h, s))(n := None)"
proof -
  have nm: "m_name (h q) = nm q" for q using wf by (auto simp: sched_wf_def)
  have d: "distinct (map nm (m_tasks s))" using wf by (simp add: sched_wf_def)
  show ?thesis
  proof (cases "find_name h n (m_tasks s)")
    case None
    then have "map_of (named nm (m_tasks s)) n = None" by (intro map_of_named_none) (simp add: find_name_None image_image nm)
    then show ?thesis using None wf by (simp add: removeTask_def sched_abs_named fun_upd_idem)
  next
    case (Some i)
    have i: "i < length (m_tasks s)" "n = nm (m_tasks s ! i)" using find_name_Some [OF Some] nm by auto
    have "map nm (m_tasks s) = map nm (take i (m_tasks s)) @ nm (m_tasks s ! i) # map nm (drop (Suc i) (m_tasks s))"
      using i(1) by (metis id_take_nth_drop list.map(2) map_append)
    then have "distinct (map nm (take i (m_tasks s) @ drop (Suc i) (m_tasks s)))" using d by simp
    then have "sched_wf nm (removeTask n (h, s))" using Some by (auto simp: sched_wf_def removeTask_def nm)
    then show ?thesis using wf d i Some map_of_named_delete [OF d i(1)] by (simp add: sched_abs_named removeTask_def del: named_simps)
  qed
qed

lemma sched_exec_refines:
  assumes "sched_wf nm st"
  shows "sched_wf nm (sched_exec cal ev st) \<and> sched_abs (sched_exec cal ev st) = spec_exec nm ev (sched_abs st)"
proof -
  obtain h s where st: "st = (h, s)" by force
  show ?thesis
  proof (cases ev)
    case (AddTask p)
    then show ?thesis using assms addTask_refines by (cases p) (auto simp: st addTask_def)
  next
    case (RemoveTask n)
    then show ?thesis using assms removeTask_refines by (simp add: st)
  next
    case (StartAll now)
    obtain h1 e where r: "start_each cal now (m_tasks s) h = (h1, e)" by force
    have "m_name (h1 p) = m_name (h p)" for p using start_each_names [of cal now "m_tasks s" h p] r by simp
    then show ?thesis using same_list_keeps [OF assms, of "sched_exec cal ev st"] r by (cases e) (simp_all add: StartAll st startAll_def)
  next
    case StopAll
    then show ?thesis using same_list_keeps [OF assms, of "sched_exec cal ev st"] by (simp add: st stopAll_def stop_each_names)
  next
    case (StartTask now n)
    show ?thesis
    proof (cases "find_name h n (m_tasks s)")
      case (Some i)
      obtain t e where t: "task_start cal now (h (m_tasks s ! i)) = (t, e)" by force
      have "m_name t = m_name (h (m_tasks s ! i))" using name_ops(1) [of cal now "h (m_tasks s ! i)"] t by simp
      then show ?thesis using same_list_keeps [OF assms, of "sched_exec cal ev st"] t Some by (simp add: StartTask st startTask_def)
    qed (use assms in \<open>simp add: StartTask st startTask_def\<close>)
  next
    case (StopTask n)
    then show ?thesis using same_list_keeps [OF assms, of "sched_exec cal ev st"] by (auto simp: st stopTask_def split: option.splits)
  qed (use same_list_keeps [OF assms, of "sched_exec cal ev st"] in \<open>simp add: st on_task_def\<close>)+
qed

text \<open>C24 (refinement). Whatever tasks exist at first, after any sequence of scheduler calls, calls to single tasks, callbacks and timer events, looking a name up
  gives exactly what a map from names to tasks would hold that changes with \<open>addTask\<close> and \<open>removeTask\<close> only, and the scheduler counts its entries.\<close>

theorem scheduler_refines_map:
  "findTask n (sched_run cal h evs) = fold (spec_exec (\<lambda>p. m_name (h p))) evs Map.empty n
    \<and> taskCount (sched_run cal h evs) = card (dom (fold (spec_exec (\<lambda>p. m_name (h p))) evs Map.empty))"
proof -
  let ?nm = "\<lambda>p. m_name (h p)" and ?run = "sched_run cal h evs"
  have wf: "sched_wf ?nm (fold (sched_exec cal) evs st) \<and> sched_abs (fold (sched_exec cal) evs st) = fold (spec_exec ?nm) evs (sched_abs st)"
    if "sched_wf ?nm st" for st using that by (induction evs arbitrary: st) (use sched_exec_refines in auto)
  have "sched_wf ?nm (h, mk_Scheduler)" "sched_abs (h, mk_Scheduler) = Map.empty"
    by (auto simp: sched_wf_def mk_Scheduler_def sched_abs_def findTask_def)
  with wf [of "(h, mk_Scheduler)"] have run: "sched_wf ?nm ?run" "sched_abs ?run = fold (spec_exec ?nm) evs Map.empty"
    by (simp_all add: sched_run_def)
  then have "card (dom (fold (spec_exec ?nm) evs Map.empty)) = taskCount ?run" using sched_abs_card by metis
  moreover have "findTask n ?run = fold (spec_exec ?nm) evs Map.empty n" using run(2) by (metis sched_abs_def)
  ultimately show ?thesis by simp
qed

section \<open>Firing again\<close>

definition fires :: "(int \<Rightarrow> cron_fields) \<Rightarrow> callback \<times> int \<Rightarrow> scheduled_task \<Rightarrow> scheduled_task" where
  "fires cal ev t = fst (timer_fires cal (fst ev) (snd ev) t)"

text \<open>A callback that returns and leaves its own task alone.\<close>

definition returns_quietly :: "callback \<Rightarrow> bool" where
  "returns_quietly cb \<longleftrightarrow> cb = None \<or> cb = Some ([], True)"

definition fixed_armed :: "scheduled_task \<Rightarrow> bool" where
  "fixed_armed t \<longleftrightarrow> m_mode t \<noteq> Cron \<and> m_running t \<and> \<not> m_executing t \<and> m_timer t = Some (m_intervalMs t)"

lemma fires_fixed:
  assumes "fixed_armed t" "returns_quietly (fst ev)"
  shows "fixed_armed (fires cal ev t) \<and> m_intervalMs (fires cal ev t) = m_intervalMs t \<and> m_executionCount (fires cal ev t) = Suc (m_executionCount t)"
  using assms by (cases "m_mode t") (auto simp: fires_def fixed_armed_def returns_quietly_def task_defs)

text \<open>A running fixed-rate or fixed-delay task fires for as long as its callback returns: after any number of timer events it has executed once per
  event and its timer is armed with the interval again. The two modes do not differ: both count the interval from the end of an execution.\<close>

theorem fixed_task_keeps_firing:
  assumes "fixed_armed t" "list_all (returns_quietly \<circ> fst) evs"
  shows "fixed_armed (fold (fires cal) evs t) \<and> m_intervalMs (fold (fires cal) evs t) = m_intervalMs t
    \<and> m_executionCount (fold (fires cal) evs t) = m_executionCount t + length evs"
  using assms by (induction evs arbitrary: t) (auto simp: fires_fixed)

theorem fixed_task_keeps_firing_witness:
  "m_executionCount (fold (fires one_day) [(None, 0), (Some ([], True), 7)] (fst (task_start one_day 0 (createFixedRate 5 ''a'')))) = 2"
proof -
  have "fixed_armed (fst (task_start one_day 0 (createFixedRate 5 ''a'')))" by code_simp
  moreover have "list_all (returns_quietly \<circ> fst) [(None, 0 :: int), (Some ([], True), 7)]" by code_simp
  moreover have "m_executionCount (fst (task_start one_day 0 (createFixedRate 5 ''a''))) = 0" by code_simp
  ultimately show ?thesis
    using fixed_task_keeps_firing [of "fst (task_start one_day 0 (createFixedRate 5 ''a''))" "[(None, 0), (Some ([], True), 7)]" one_day]
    by (simp del: fold_simps)
qed

text \<open>What happens to a task from outside without a \<open>stop\<close>.\<close>

datatype task_event = StartCalled int | TimerEvent callback int

fun task_exec :: "(int \<Rightarrow> cron_fields) \<Rightarrow> task_event \<Rightarrow> scheduled_task \<Rightarrow> scheduled_task" where
  "task_exec cal (StartCalled now) t = fst (task_start cal now t)"
| "task_exec cal (TimerEvent cb now) t = fst (timer_fires cal cb now t)"

text \<open>One exception silences a task for good: when the callback of a running task throws, the failure leaves the slot, the task still calls itself running
  but its timer is not armed; and however often it is started again or its timer would be due, nothing changes until it is stopped.\<close>

theorem throw_silences_task:
  assumes "m_running t" "\<not> m_executing t" "m_timer t \<noteq> None"
  shows "snd (timer_fires cal (Some ([], False)) now t) = Some CallbackThrew
    \<and> m_running (fst (timer_fires cal (Some ([], False)) now t))
    \<and> fold (task_exec cal) evs (fst (timer_fires cal (Some ([], False)) now t)) = t\<lparr>m_timer := None\<rparr>"
proof -
  have after: "timer_fires cal (Some ([], False)) now t = (t\<lparr>m_timer := None\<rparr>, Some CallbackThrew)"
    using assms by (simp add: task_defs)
  have "fold (task_exec cal) evs t' = t'" if "m_running t'" "m_timer t' = None" for t'
  proof (induction evs)
    case (Cons e evs)
    then show ?case using that by (cases e) (simp_all add: task_start_def timer_fires_def)
  qed simp
  with after assms show ?thesis by simp
qed

theorem throw_silences_task_witness:
  "fold (task_exec one_day) [StartCalled 3, TimerEvent None 9]
     (fst (timer_fires one_day (Some ([], False)) 1 (fst (task_start one_day 0 (createFixedRate 5 ''a'')))))
   = (fst (task_start one_day 0 (createFixedRate 5 ''a'')))\<lparr>m_timer := None\<rparr>"
proof -
  have "m_running (fst (task_start one_day 0 (createFixedRate 5 ''a'')))" "\<not> m_executing (fst (task_start one_day 0 (createFixedRate 5 ''a'')))"
    "m_timer (fst (task_start one_day 0 (createFixedRate 5 ''a''))) \<noteq> None" by code_simp+
  then show ?thesis using throw_silences_task by blast
qed

section \<open>Stopping\<close>

lemma stopAll_stops: "isAllStopped (stopAll (h, s)) \<and> (\<forall>p \<in> set (m_tasks s). m_timer (fst (stopAll (h, s)) p) = None)"
proof -
  define f where "f = (\<lambda>(p::nat) h. h(p := task_stop (h p)))"
  have f: "f p h q = (if q = p then task_stop (h p) else h q)" for p q h by (simp add: f_def)
  have stop: "\<not> m_running (task_stop t)" "m_timer (task_stop t) = None" for t by (simp_all add: task_stop_def emit_task_def)
  have keep: "\<not> m_running (h p) \<and> m_timer (h p) = None \<Longrightarrow> \<not> m_running (fold f ps h p) \<and> m_timer (fold f ps h p) = None" for ps p h
  proof (induction ps arbitrary: h)
    case (Cons q ps)
    have "\<not> m_running (f q h p) \<and> m_timer (f q h p) = None" using Cons.prems by (simp add: stop f)
    then show ?case using Cons.IH by simp
  qed simp
  have "p \<in> set ps \<Longrightarrow> \<not> m_running (fold f ps h p) \<and> m_timer (fold f ps h p) = None" for ps p h
  proof (induction ps arbitrary: h)
    case (Cons q ps)
    have "\<not> m_running (f q h q) \<and> m_timer (f q h q) = None" by (simp add: stop f)
    then show ?case using keep [of "f q h" q ps] Cons by (cases "p = q") simp_all
  qed simp
  then show ?thesis by (auto simp: stopAll_def isAllStopped_def list_all_iff simp flip: f_def)
qed

text \<open>A task that is added again under its own name, already listed, is stopped by it.\<close>

lemma addTask_again_stops:
  assumes "findTask (m_name (h p)) (h, s) = Some p"
  shows "\<not> m_running (fst (addTask (Some p) (h, s)) p)"
  using assms by (auto simp: addTask_def findTask_def task_stop_def emit_task_def split: option.splits)

end
