(* ===== verification/SK_RateLimiter.thy ===== *)
theory SK_RateLimiter
  imports Complex_Main SK_Prelude
begin

text \<open>
  The rate limiter of \<^verbatim>\<open>src/soul/network/policy/rate_limiter.cpp\<close>. The token bucket runs under a mutex: its operations are atomic. Its doubles are reals that
  every operation rounds with a function \<open>rd\<close>, of which only what IEEE 754 says of the rounding of double precision is used (\<open>fp_contract\<close>); no value of the code comes near the largest double,
  so overflow is left out. The clock counts nanoseconds and elapsed time is cut to whole milliseconds as in the code. The window is updated with atomic operations and no mutex: a call is a sequence
  of steps, one per atomic access, that other calls may interleave; a weak compare-exchange may fail for no reason. The constructor and \<open>setPermitsPerSec\<close> assume a
  finite rate that fits an \<^verbatim>\<open>int\<close>.
\<close>

section \<open>The token bucket\<close>

record bucket =
  b_permitsPerSec :: real
  b_burstSize :: int
  b_tokens :: real
  b_lastRefillTime :: int
  b_accepted :: nat
  b_rejected :: nat

definition mk_bucket :: "real \<Rightarrow> int \<Rightarrow> int \<Rightarrow> bucket" where
  "mk_bucket permitsPerSec burstSize now =
     (let rate = (if permitsPerSec > 0 then permitsPerSec else 1);
          burst = (if burstSize > 0 then burstSize else \<lfloor>rate\<rfloor>)
      in \<lparr>b_permitsPerSec = rate, b_burstSize = burst, b_tokens = of_int burst, b_lastRefillTime = now, b_accepted = 0, b_rejected = 0\<rparr>)"

definition elapsed_ms :: "int \<Rightarrow> bucket \<Rightarrow> int" where
  "elapsed_ms now s = (now - b_lastRefillTime s) div 1000000"

definition refillTokens :: "(real \<Rightarrow> real) \<Rightarrow> int \<Rightarrow> bucket \<Rightarrow> bucket" where
  "refillTokens rd now s =
     (if elapsed_ms now s \<le> 0 then s
      else let newTokens = rd (rd (of_int (elapsed_ms now s) / 1000) * b_permitsPerSec s)
           in s\<lparr>b_tokens := min (rd (b_tokens s + newTokens)) (of_int (b_burstSize s)), b_lastRefillTime := now\<rparr>)"

definition tryAcquireTokenBucket :: "(real \<Rightarrow> real) \<Rightarrow> int \<Rightarrow> int \<Rightarrow> bucket \<Rightarrow> bool \<times> bucket" where
  "tryAcquireTokenBucket rd now permits s =
     (let s1 = refillTokens rd now s
      in if b_tokens s1 \<ge> of_int permits
         then (True, s1\<lparr>b_tokens := rd (b_tokens s1 - of_int permits), b_accepted := b_accepted s1 + 1\<rparr>)
         else (False, s1\<lparr>b_rejected := b_rejected s1 + 1\<rparr>))"

definition bucket_tryAcquire :: "(real \<Rightarrow> real) \<Rightarrow> int \<Rightarrow> int \<Rightarrow> bucket \<Rightarrow> bool \<times> bucket" where
  "bucket_tryAcquire rd now permits s = (if permits \<le> 0 then (True, s) else tryAcquireTokenBucket rd now permits s)"

definition availablePermits :: "(real \<Rightarrow> real) \<Rightarrow> int \<Rightarrow> bucket \<Rightarrow> real \<times> bucket" where
  "availablePermits rd now s = (let s1 = refillTokens rd now s in (b_tokens s1, s1))"

definition setPermitsPerSec :: "real \<Rightarrow> bucket \<Rightarrow> bucket" where
  "setPermitsPerSec r s =
     (if r \<le> 0 then s
      else s\<lparr>b_permitsPerSec := r, b_burstSize := \<lfloor>r\<rfloor>, b_tokens := min (b_tokens s) (of_int \<lfloor>r\<rfloor>)\<rparr>)"

section \<open>The window\<close>

record window =
  w_start :: int
  w_count :: int
  w_accepted :: nat
  w_rejected :: nat

datatype w_pc = Head | StoreZero | LoadCount | CasCount int | Finished bool

record w_call =
  c_now :: int
  c_maxPermits :: int
  c_permits :: int
  c_expected :: int
  c_pc :: w_pc

text \<open>A call begins with its reads of the rate, the clock and the start of the window.\<close>

definition w_begin :: "real \<Rightarrow> int \<Rightarrow> int \<Rightarrow> window \<Rightarrow> w_call" where
  "w_begin permitsPerSec nowMs permits w =
     \<lparr>c_now = nowMs, c_maxPermits = \<lfloor>permitsPerSec\<rfloor>, c_permits = permits, c_expected = w_start w, c_pc = Head\<rparr>"

text \<open>The next atomic access of a call; \<open>weak\<close> says whether a compare-exchange fails spuriously.\<close>

definition w_step :: "bool \<Rightarrow> window \<times> w_call \<Rightarrow> window \<times> w_call" where
  "w_step weak wc =
     (case wc of (w, c) \<Rightarrow>
        (case c_pc c of
           Head \<Rightarrow>
             if c_now c - c_expected c \<ge> 1000
             then if w_start w = c_expected c \<and> \<not> weak
                  then (w\<lparr>w_start := c_now c\<rparr>, c\<lparr>c_pc := StoreZero\<rparr>)
                  else (w, c\<lparr>c_expected := w_start w\<rparr>)
             else (w, c\<lparr>c_pc := LoadCount\<rparr>)
         | StoreZero \<Rightarrow> (w\<lparr>w_count := 0\<rparr>, c\<lparr>c_pc := Head\<rparr>)
         | LoadCount \<Rightarrow>
             if w_count w + c_permits c \<le> c_maxPermits c
             then (w, c\<lparr>c_pc := CasCount (w_count w)\<rparr>)
             else (w\<lparr>w_rejected := w_rejected w + 1\<rparr>, c\<lparr>c_pc := Finished False\<rparr>)
         | CasCount current \<Rightarrow>
             if w_count w = current \<and> \<not> weak
             then (w\<lparr>w_count := current + c_permits c, w_accepted := w_accepted w + 1\<rparr>, c\<lparr>c_pc := Finished True\<rparr>)
             else (w, c\<lparr>c_pc := Head\<rparr>)
         | Finished b \<Rightarrow> (w, c)))"

text \<open>A call that nobody interrupts; six steps are enough.\<close>

definition tryAcquireSlidingWindow :: "real \<Rightarrow> int \<Rightarrow> int \<Rightarrow> window \<Rightarrow> bool option \<times> window" where
  "tryAcquireSlidingWindow permitsPerSec nowMs permits w =
     (case (w_step False ^^ 6) (w, w_begin permitsPerSec nowMs permits w) of
        (w1, c) \<Rightarrow> ((case c_pc c of Finished b \<Rightarrow> Some b | _ \<Rightarrow> None), w1))"

definition window_available :: "real \<Rightarrow> window \<Rightarrow> int" where
  "window_available permitsPerSec w = max 0 (\<lfloor>permitsPerSec\<rfloor> - w_count w)"

section \<open>What the bucket grants\<close>

text \<open>Rounding to double precision: it is monotone, keeps the integers of an \<^verbatim>\<open>int\<close>, and errs by at most \<open>2\<^sup>-\<^sup>5\<^sup>3\<close> of a value that is not subnormal.\<close>

definition fp_contract :: "(real \<Rightarrow> real) \<Rightarrow> bool" where
  "fp_contract rd \<longleftrightarrow> mono rd \<and> (\<forall>n :: int. \<bar>n\<bar> < 2 ^ 31 \<longrightarrow> rd (of_int n) = of_int n)
     \<and> (\<forall>x. 1 / 2 ^ 1022 \<le> x \<longrightarrow> \<bar>rd x - x\<bar> \<le> x / 2 ^ 53)"

text \<open>A rounding of this kind: down to the spacing of the subnormal numbers.\<close>

definition rd_fixed :: "real \<Rightarrow> real" where
  "rd_fixed x = of_int \<lfloor>x * 2 ^ 1075\<rfloor> / 2 ^ 1075"

lemma rd_fixed_contract: "fp_contract rd_fixed"
proof -
  have big: "(1 :: real) / 2 ^ 1022 = 2 ^ 53 / 2 ^ 1075" by (simp add: field_simps flip: power_add)
  have "\<bar>rd_fixed x - x\<bar> \<le> x / 2 ^ 53" if x: "1 / 2 ^ 1022 \<le> x" for x
  proof -
    have "rd_fixed x - x = (of_int \<lfloor>x * 2 ^ 1075\<rfloor> - x * 2 ^ 1075) / 2 ^ 1075" by (simp add: rd_fixed_def diff_divide_distrib)
    also have "\<bar>\<dots>\<bar> \<le> 1 / 2 ^ 1075" unfolding abs_divide by (rule frac_le) (simp_all, linarith)
    also have "\<dots> \<le> x / 2 ^ 53" using x big by (simp add: field_simps)
    finally show ?thesis .
  qed
  moreover have "rd_fixed (of_int n) = of_int n" for n :: int
  proof -
    have "(of_int n * 2 ^ 1075 :: real) = of_int (n * 2 ^ 1075)" by (simp only: of_int_mult of_int_power of_int_numeral)
    then show ?thesis unfolding rd_fixed_def by (simp only: floor_of_int) (simp only: of_int_mult of_int_power of_int_numeral, simp)
  qed
  moreover have "mono rd_fixed" unfolding rd_fixed_def by (intro monoI divide_right_mono) (simp_all add: floor_mono)
  ultimately show ?thesis by (simp add: fp_contract_def)
qed

datatype b_op = Acquire int | Available | SetRate real

fun b_exec :: "(real \<Rightarrow> real) \<Rightarrow> int \<times> b_op \<Rightarrow> int \<times> bucket \<Rightarrow> int \<times> bucket" where
  "b_exec rd (now, Acquire n) (g, s) = (case bucket_tryAcquire rd now n s of (ok, s1) \<Rightarrow> (if ok \<and> n > 0 then g + n else g, s1))"
| "b_exec rd (now, Available) (g, s) = (g, snd (availablePermits rd now s))"
| "b_exec rd (now, SetRate r) (g, s) = (g, setPermitsPerSec r s)"

text \<open>The permits granted by a sequence of calls.\<close>

definition granted :: "(real \<Rightarrow> real) \<Rightarrow> (int \<times> b_op) list \<Rightarrow> bucket \<Rightarrow> int" where
  "granted rd ops s = fst (fold (b_exec rd) ops (0, s))"

text \<open>The rates that calls set are at most \<open>R\<close>.\<close>

definition rates_upto :: "real \<Rightarrow> (int \<times> b_op) list \<Rightarrow> bool" where
  "rates_upto R ops \<longleftrightarrow> list_all (\<lambda>op. case snd op of SetRate r \<Rightarrow> r \<le> R | _ \<Rightarrow> True) ops"

text \<open>The invariant, for rates up to \<open>R\<close> and burst sizes up to \<open>B\<close>.\<close>

definition bucket_ok :: "real \<Rightarrow> int \<Rightarrow> bucket \<Rightarrow> bool" where
  "bucket_ok R B s \<longleftrightarrow> 0 < b_permitsPerSec s \<and> b_permitsPerSec s \<le> R \<and> 0 \<le> b_burstSize s \<and> b_burstSize s \<le> B
     \<and> 0 \<le> b_tokens s \<and> b_tokens s \<le> of_int (b_burstSize s)"

lemma mk_bucket_ok: "b_permitsPerSec (mk_bucket r b now) \<le> R \<Longrightarrow> b_burstSize (mk_bucket r b now) \<le> B \<Longrightarrow> bucket_ok R B (mk_bucket r b now)"
  by (auto simp: bucket_ok_def mk_bucket_def Let_def)

lemma fp_contractD:
  assumes "fp_contract rd"
  shows "x \<le> y \<Longrightarrow> rd x \<le> rd y" "\<bar>n\<bar> < 2 ^ 31 \<Longrightarrow> rd (of_int n) = of_int n" "0 \<le> x \<Longrightarrow> 0 \<le> rd x"
    and "1 / 2 ^ 1022 \<le> x \<Longrightarrow> rd x \<le> x * (1 + 1 / 2 ^ 53)"
    and "0 \<le> x \<Longrightarrow> rd x \<le> x * (1 + 1 / 2 ^ 53) + 1 / 2 ^ 1021"
proof -
  show m: "x \<le> y \<Longrightarrow> rd x \<le> rd y" for x y using assms by (auto simp: fp_contract_def mono_def)
  show i: "\<bar>n\<bar> < 2 ^ 31 \<Longrightarrow> rd (of_int n) = of_int n" for n using assms by (simp add: fp_contract_def)
  show "0 \<le> x \<Longrightarrow> 0 \<le> rd x" using m [of 0 x] i [of 0] by simp
  have e: "rd z \<le> z + z / 2 ^ 53" if "1 / 2 ^ 1022 \<le> z" for z
    using assms that unfolding fp_contract_def by (smt (verit))
  show *: "1 / 2 ^ 1022 \<le> x \<Longrightarrow> rd x \<le> x * (1 + 1 / 2 ^ 53)" using e [of x] by (simp only: distrib_left mult_1_right times_divide_eq_right)
  have t: "(1 :: real) / 2 ^ 1022 + 1 / 2 ^ 1022 / 2 ^ 53 \<le> 1 / 2 ^ 1021" by simp
  show "rd x \<le> x * (1 + 1 / 2 ^ 53) + 1 / 2 ^ 1021" if "0 \<le> x"
  proof (cases "1 / 2 ^ 1022 \<le> x")
    case True
    have "(0 :: real) \<le> 1 / 2 ^ 1021" by simp
    then show ?thesis using * [OF True] by linarith
  next
    case False
    have "rd x \<le> rd (1 / 2 ^ 1022)" by (rule m) (use False in linarith)
    also have "\<dots> \<le> 1 / 2 ^ 1021" using e [of "1 / 2 ^ 1022"] t by linarith
    finally show ?thesis using that by (smt (verit) mult_nonneg_nonneg zero_le_divide_1_iff zero_le_power zero_le_numeral)
  qed
qed

text \<open>What rounding adds to a capped sum is a small part of the cap.\<close>

lemma tiny_le: "1 \<le> b \<Longrightarrow> 2 * (1 / 2 ^ 1021) \<le> b / (2 ^ 53 :: real)"
proof -
  assume "1 \<le> b"
  then have "1 / 2 ^ 53 \<le> b / (2 ^ 53 :: real)" by (simp add: divide_right_mono)
  moreover have "2 * (1 / 2 ^ 1021) \<le> 1 / (2 ^ 53 :: real)" by simp
  ultimately show ?thesis by linarith
qed

lemma rd_capped:
  assumes fp: "fp_contract rd" and x: "0 \<le> x" and b: "0 \<le> b"
  shows "min (rd x) (of_int b) \<le> x + of_int b / 2 ^ 53 + 1 / 2 ^ 1021"
proof (cases "x \<le> of_int b")
  case True
  have "x * (1 + 1 / 2 ^ 53) \<le> x + of_int b / 2 ^ 53" using True by (simp add: distrib_left divide_right_mono)
  then show ?thesis using fp_contractD(5) [OF fp x] by linarith
next
  case False
  moreover have "0 \<le> of_int b / (2 ^ 53 :: real)" "(0 :: real) \<le> 1 / 2 ^ 1021" using b by simp_all
  ultimately show ?thesis by linarith
qed

lemma rd_refill:
  assumes fp: "fp_contract rd" and t: "0 \<le> t" and b: "0 \<le> b" and r: "0 < r" and q: "1 / 1000 \<le> q"
  shows "min (rd (t + rd (rd q * r))) (of_int b) \<le> t + q * r * (1 + 1 / 2 ^ 53)\<^sup>2 + of_int b / 2 ^ 52"
proof (cases "b = 0")
  case True
  have "0 \<le> q * r * (1 + 1 / 2 ^ 53)\<^sup>2" using q r by simp
  then show ?thesis using True t by simp
next
  case False
  have "(1 :: real) / 2 ^ 1022 \<le> 1 / 1000" by simp
  then have q1: "rd q \<le> q * (1 + 1 / 2 ^ 53)" using fp_contractD(4) [OF fp, of q] q by linarith
  have q0: "0 \<le> rd q" "0 \<le> rd q * r" using fp_contractD(3) [OF fp, of q] q r by simp_all
  have "rd q * r * (1 + 1 / 2 ^ 53) \<le> q * (1 + 1 / 2 ^ 53) * r * (1 + 1 / 2 ^ 53)" by (rule mult_right_mono [OF mult_right_mono [OF q1]]) (use r in simp_all)
  also have "\<dots> = q * r * (1 + 1 / 2 ^ 53)\<^sup>2" by (simp only: power2_eq_square mult.assoc mult.left_commute mult.commute)
  finally have n: "rd (rd q * r) \<le> q * r * (1 + 1 / 2 ^ 53)\<^sup>2 + 1 / 2 ^ 1021" using fp_contractD(5) [OF fp q0(2)] by linarith
  have "0 \<le> t + rd (rd q * r)" using t fp_contractD(3) [OF fp q0(2)] by linarith
  note c = rd_capped [OF fp this b]
  have "1 \<le> (of_int b :: real)" using False b by simp
  note h = tiny_le [OF this]
  have "of_int b / (2 ^ 53 :: real) + of_int b / 2 ^ 53 = of_int b / 2 ^ 52" by simp
  then show ?thesis using c n h by linarith
qed

lemma refill_facts:
  assumes fp: "fp_contract rd" and ok: "bucket_ok R B s" "b_lastRefillTime s \<le> now"
  shows "bucket_ok R B (refillTokens rd now s)"
    and "b_lastRefillTime (refillTokens rd now s) \<le> now" "b_lastRefillTime s \<le> b_lastRefillTime (refillTokens rd now s)"
    and "now - 1000000 < b_lastRefillTime (refillTokens rd now s)"
    and "b_tokens (refillTokens rd now s) \<le> b_tokens s
      + R * (1 + 1 / 2 ^ 53)\<^sup>2 * of_int (b_lastRefillTime (refillTokens rd now s) - b_lastRefillTime s) / 1000000000 + of_int B / 2 ^ 52"
proof -
  let ?q = "of_int (elapsed_ms now s) / 1000 :: real" and ?k = "(1 + 1 / 2 ^ 53)\<^sup>2 :: real"
  have B: "0 \<le> B" "of_int (b_burstSize s) / (2 ^ 52 :: real) \<le> of_int B / 2 ^ 52" using ok(1) by (auto simp: bucket_ok_def)
  show "b_tokens (refillTokens rd now s) \<le> b_tokens s
      + R * ?k * of_int (b_lastRefillTime (refillTokens rd now s) - b_lastRefillTime s) / 1000000000 + of_int B / 2 ^ 52"
  proof (cases "elapsed_ms now s \<le> 0")
    case False
    then have q: "1 / 1000 \<le> ?q" and l: "b_lastRefillTime (refillTokens rd now s) = now" by (simp_all add: refillTokens_def)
    have "elapsed_ms now s * 1000000 \<le> now - b_lastRefillTime s" by (simp add: elapsed_ms_def minus_mod_eq_div_mult [symmetric])
    then have "of_int (elapsed_ms now s) * 1000000 \<le> (of_int (now - b_lastRefillTime s) :: real)" by (metis of_int_le_iff of_int_mult of_int_numeral)
    then have e: "?q \<le> of_int (now - b_lastRefillTime s) / 1000000000" by simp
    have "?q * b_permitsPerSec s \<le> of_int (now - b_lastRefillTime s) / 1000000000 * R" using e q ok by (intro mult_mono) (auto simp: bucket_ok_def)
    then have "?q * b_permitsPerSec s * ?k \<le> of_int (now - b_lastRefillTime s) / 1000000000 * R * ?k" by (rule mult_right_mono) simp
    also have "\<dots> = R * ?k * of_int (now - b_lastRefillTime s) / 1000000000" by (simp only: mult.assoc mult.left_commute mult.commute times_divide_eq_right)
    finally have n: "?q * b_permitsPerSec s * ?k \<le> R * ?k * of_int (now - b_lastRefillTime s) / 1000000000" .
    have "b_tokens (refillTokens rd now s) \<le> b_tokens s + ?q * b_permitsPerSec s * ?k + of_int (b_burstSize s) / 2 ^ 52"
      using rd_refill [OF fp _ _ _ q, of "b_tokens s" "b_burstSize s" "b_permitsPerSec s"] ok(1) False by (simp only: refillTokens_def bucket_ok_def if_False Let_def) simp
    then show ?thesis unfolding l using n B(2) by linarith
  qed (use B in \<open>simp add: refillTokens_def\<close>)
  have "0 \<le> rd (b_tokens s + rd (rd ?q * b_permitsPerSec s))" if "0 < elapsed_ms now s"
    using that ok(1) by (intro fp_contractD(3) [OF fp] add_nonneg_nonneg mult_nonneg_nonneg) (simp_all add: bucket_ok_def)
  then show "bucket_ok R B (refillTokens rd now s)" using ok(1) by (auto simp: bucket_ok_def refillTokens_def Let_def)
  have "now - b_lastRefillTime s < 1000000" if "elapsed_ms now s \<le> 0"
    using that unfolding elapsed_ms_def by (metis div_pos_pos_trivial linorder_not_le pos_imp_zdiv_pos_iff zero_less_numeral)
  then show "now - 1000000 < b_lastRefillTime (refillTokens rd now s)" by (auto simp: refillTokens_def Let_def)
qed (use ok(2) in \<open>auto simp: refillTokens_def Let_def\<close>)

text \<open>Taking permits out of the bucket: the tokens fall by what is granted, up to rounding.\<close>

definition takes :: "int \<Rightarrow> int \<Rightarrow> bucket \<Rightarrow> bucket \<Rightarrow> bool" where
  "takes B n s s' \<longleftrightarrow> b_tokens s' \<le> b_tokens s - of_int n + of_int B / 2 ^ 52 \<and> 0 \<le> b_tokens s' \<and> b_tokens s' \<le> of_int (b_burstSize s)
     \<and> b_permitsPerSec s' = b_permitsPerSec s \<and> b_burstSize s' = b_burstSize s \<and> b_lastRefillTime s' = b_lastRefillTime s"

lemma takes_rd:
  assumes fp: "fp_contract rd" and ok: "bucket_ok R B s" "B < 2 ^ 31" and n: "0 < n" "of_int n \<le> b_tokens s"
  shows "takes B n s (s\<lparr>b_tokens := rd (b_tokens s - of_int n), b_accepted := a\<rparr>)"
proof -
  let ?b = "b_burstSize s"
  have b: "0 \<le> ?b" "?b \<le> B" "b_tokens s \<le> of_int ?b" "\<bar>?b\<bar> < 2 ^ 31" using ok by (auto simp: bucket_ok_def)
  have 0: "0 \<le> b_tokens s - of_int n" "b_tokens s - of_int n \<le> of_int ?b" using n b(3) of_int_0_less_iff [of n, where 'a = real] by linarith+
  have le: "rd (b_tokens s - of_int n) \<le> of_int ?b" using fp_contractD(1) [OF fp 0(2)] fp_contractD(2) [OF fp b(4)] by simp
  then have c: "rd (b_tokens s - of_int n) \<le> b_tokens s - of_int n + of_int ?b / 2 ^ 53 + 1 / 2 ^ 1021" using rd_capped [OF fp 0(1) b(1)] by linarith
  have "1 \<le> (of_int ?b :: real)" using n b(3) by (smt (verit) of_int_less_1_iff of_int_le_iff)
  then have "2 * (1 / 2 ^ 1021) \<le> of_int ?b / (2 ^ 53 :: real)" by (rule tiny_le)
  moreover have "of_int ?b / (2 ^ 53 :: real) + of_int ?b / 2 ^ 53 \<le> of_int B / 2 ^ 52" using b(2) by simp
  moreover have "(0 :: real) \<le> 1 / 2 ^ 1021" by simp
  ultimately have "rd (b_tokens s - of_int n) \<le> b_tokens s - of_int n + of_int B / 2 ^ 52" using c by linarith
  then show ?thesis using le fp_contractD(3) [OF fp 0(1)] by (simp add: takes_def)
qed

text \<open>One call at rates up to \<open>R\<close>: it grants nothing and leaves the bucket, or sets a rate, or refills and takes what it grants.\<close>

lemma b_exec_cases:
  assumes fp: "fp_contract rd" and ok: "bucket_ok R B s" "B < 2 ^ 31" "b_lastRefillTime s \<le> now" and ex: "b_exec rd (now, p) (g, s) = (g', s')"
  shows "(\<exists>n \<le> 0. p = Acquire n) \<and> g' = g \<and> s' = s \<or> (\<exists>r. p = SetRate r \<and> g' = g \<and> s' = setPermitsPerSec r s)
    \<or> (\<exists>n. g' = g + n \<and> takes B n (refillTokens rd now s) s')"
proof (cases p)
  case (Acquire n)
  note r = refill_facts(1) [OF fp ok(1,3)]
  have 0: "takes B 0 (refillTokens rd now s) (refillTokens rd now s\<lparr>b_rejected := k\<rparr>)" for k using r by (simp add: takes_def bucket_ok_def)
  show ?thesis
  proof (cases "n \<le> 0")
    case False
    have "s' = refillTokens rd now s\<lparr>b_rejected := b_rejected (refillTokens rd now s) + 1\<rparr> \<and> g' = g + 0 \<or> takes B n (refillTokens rd now s) s' \<and> g' = g + n"
      using ex False Acquire takes_rd [OF fp r ok(2), of n]
      by (auto simp: bucket_tryAcquire_def tryAcquireTokenBucket_def Let_def split: if_splits)
    then show ?thesis using 0 by blast
  qed (use ex Acquire in \<open>simp add: bucket_tryAcquire_def\<close>)
next
  case Available
  then have "s' = refillTokens rd now s" "g' = g + 0" using ex by (auto simp: availablePermits_def Let_def)
  moreover have "takes B 0 (refillTokens rd now s) (refillTokens rd now s)" using refill_facts(1) [OF fp ok(1,3)] by (simp add: takes_def bucket_ok_def)
  ultimately show ?thesis by blast
qed (use ex in simp)

lemma set_rate_ok:
  assumes "bucket_ok R B s" "r \<le> R" "\<lfloor>r\<rfloor> \<le> B"
  shows "bucket_ok R B (setPermitsPerSec r s)" "b_tokens (setPermitsPerSec r s) \<le> b_tokens s" "b_lastRefillTime (setPermitsPerSec r s) = b_lastRefillTime s"
  using assms by (auto simp: bucket_ok_def setPermitsPerSec_def)

lemma takes_bound:
  assumes fp: "fp_contract rd" and ok: "bucket_ok R B s" "b_lastRefillTime s \<le> now" and t: "takes B n (refillTokens rd now s) s'"
  shows "bucket_ok R B s'" "b_lastRefillTime s' \<le> now" "b_lastRefillTime s \<le> b_lastRefillTime s'" "now - 1000000 < b_lastRefillTime s'"
    and "of_int n + b_tokens s' \<le> b_tokens s + R * (1 + 1 / 2 ^ 53)\<^sup>2 * of_int (b_lastRefillTime s' - b_lastRefillTime s) / 1000000000 + of_int B / 2 ^ 51"
    and "of_int n + b_tokens s' \<le> of_int B + of_int B / 2 ^ 51"
proof -
  note r = refill_facts [OF fp ok]
  have l: "b_lastRefillTime s' = b_lastRefillTime (refillTokens rd now s)" using t by (simp add: takes_def)
  have c: "of_int n + b_tokens s' \<le> b_tokens (refillTokens rd now s) + of_int B / 2 ^ 52" using t by (simp add: takes_def)
  have h: "of_int B / (2 ^ 52 :: real) + of_int B / 2 ^ 52 = of_int B / 2 ^ 51" by simp
  have B: "0 \<le> of_int B / (2 ^ 52 :: real)" "b_tokens (refillTokens rd now s) \<le> of_int B"
    using r(1) by (auto simp: bucket_ok_def intro: order_trans)
  show "bucket_ok R B s'" using r(1) t by (simp add: bucket_ok_def takes_def)
  show "b_lastRefillTime s' \<le> now" "b_lastRefillTime s \<le> b_lastRefillTime s'" "now - 1000000 < b_lastRefillTime s'" unfolding l by (fact r)+
  show "of_int n + b_tokens s' \<le> b_tokens s + R * (1 + 1 / 2 ^ 53)\<^sup>2 * of_int (b_lastRefillTime s' - b_lastRefillTime s) / 1000000000 + of_int B / 2 ^ 51"
    unfolding l using r(5) c h by linarith
  show "of_int n + b_tokens s' \<le> of_int B + of_int B / 2 ^ 51" using c h B by linarith
qed

lemma b_exec_bound:
  assumes fp: "fp_contract rd" and ok: "bucket_ok R B s" "\<lfloor>R\<rfloor> \<le> B" "B < 2 ^ 31" "b_lastRefillTime s \<le> fst op" "rates_upto R [op]" and ex: "b_exec rd op (g, s) = (g', s')"
  shows "bucket_ok R B s' \<and> b_lastRefillTime s' \<le> fst op \<and> b_lastRefillTime s \<le> b_lastRefillTime s'
    \<and> of_int g' + b_tokens s' \<le> of_int g + b_tokens s + R * (1 + 1 / 2 ^ 53)\<^sup>2 * of_int (b_lastRefillTime s' - b_lastRefillTime s) / 1000000000 + of_int B / 2 ^ 51"
proof -
  obtain now p where op: "op = (now, p)" by force
  have B: "0 \<le> of_int B / (2 ^ 51 :: real)" using ok(1) by (auto simp: bucket_ok_def)
  from b_exec_cases [OF fp ok(1,3) _ ex [unfolded op]] ok(4) op
  consider "g' = g" "s' = s" | r where "p = SetRate r" "g' = g" "s' = setPermitsPerSec r s" | n where "g' = g + n" "takes B n (refillTokens rd now s) s'" by auto
  then show ?thesis
  proof cases
    case 2
    then have "r \<le> R" using ok(5) op by (simp add: rates_upto_def)
    moreover from this have "\<lfloor>r\<rfloor> \<le> B" using ok(2) floor_mono order_trans by blast
    ultimately show ?thesis using 2 set_rate_ok [OF ok(1), of r] B ok(4) by simp
  next
    case 3
    then show ?thesis using takes_bound [OF fp ok(1) _ 3(2)] ok(4) op by simp
  qed (use ok B in simp)
qed

lemma conj4D: "P \<and> Q \<and> S \<and> T \<Longrightarrow> P" "P \<and> Q \<and> S \<and> T \<Longrightarrow> Q" "P \<and> Q \<and> S \<and> T \<Longrightarrow> S" "P \<and> Q \<and> S \<and> T \<Longrightarrow> T"
  by blast+

lemma rates_upto_Cons: "rates_upto R (op # ops) \<longleftrightarrow> rates_upto R [op] \<and> rates_upto R ops"
  by (simp add: rates_upto_def)

lemma run_bound:
  assumes fp: "fp_contract rd" and "bucket_ok R B s" "\<lfloor>R\<rfloor> \<le> B" "B < 2 ^ 31" "rates_upto R ops"
    and "sorted (b_lastRefillTime s # map fst ops)" "list_all (\<lambda>op. fst op \<le> b) ops" "b_lastRefillTime s \<le> b"
    and "fold (b_exec rd) ops (g, s) = (g', s')"
  shows "bucket_ok R B s' \<and> b_lastRefillTime s' \<le> b \<and> b_lastRefillTime s \<le> b_lastRefillTime s'
    \<and> of_int g' + b_tokens s' \<le> of_int g + b_tokens s + R * (1 + 1 / 2 ^ 53)\<^sup>2 * of_int (b_lastRefillTime s' - b_lastRefillTime s) / 1000000000
      + of_int (int (length ops)) * (of_int B / 2 ^ 51)"
  using assms(2-)
proof (induction ops arbitrary: g s)
  case (Cons op ops)
  let ?K = "R * (1 + 1 / 2 ^ 53)\<^sup>2"
  obtain g1 s1 where e: "b_exec rd op (g, s) = (g1, s1)" by force
  have "b_lastRefillTime s \<le> fst op" "rates_upto R [op]" "rates_upto R ops" using Cons.prems(5) iffD1 [OF rates_upto_Cons Cons.prems(4)] by simp_all
  note b = conj4D [OF b_exec_bound [OF fp Cons.prems(1-3) this(1,2) e]] and ro = this(3)
  have so: "sorted (b_lastRefillTime s1 # map fst ops)" using Cons.prems(5) b(2) by fastforce
  have le: "list_all (\<lambda>op. fst op \<le> b) ops" "b_lastRefillTime s1 \<le> b" using Cons.prems(6) b(2) by auto
  have f: "fold (b_exec rd) ops (g1, s1) = (g', s')" using Cons.prems(8) e by simp
  have IH: "bucket_ok R B s' \<and> b_lastRefillTime s' \<le> b \<and> b_lastRefillTime s1 \<le> b_lastRefillTime s'
    \<and> of_int g' + b_tokens s' \<le> of_int g1 + b_tokens s1 + ?K * of_int (b_lastRefillTime s' - b_lastRefillTime s1) / 1000000000 + of_int (int (length ops)) * (of_int B / 2 ^ 51)"
    using Cons.IH [OF _ Cons.prems(2,3) ro so le(1,2) f] b(1) by blast
  have "?K * of_int (b_lastRefillTime s' - b_lastRefillTime s1) / 1000000000 + ?K * of_int (b_lastRefillTime s1 - b_lastRefillTime s) / 1000000000
    = ?K * of_int (b_lastRefillTime s' - b_lastRefillTime s) / 1000000000" by (simp only: of_int_diff right_diff_distrib diff_divide_distrib)
  moreover have "of_int (int (length (op # ops))) * (of_int B / 2 ^ 51 :: real) = of_int B / 2 ^ 51 + of_int (int (length ops)) * (of_int B / 2 ^ 51)"
    by (simp only: length_Cons of_nat_Suc of_int_add of_int_1 distrib_right mult_1_left)
  ultimately show ?case using IH b(3,4) by linarith
qed simp

lemma window_bound:
  assumes fp: "fp_contract rd" and "bucket_ok R B s" "\<lfloor>R\<rfloor> \<le> B" "B < 2 ^ 31" "rates_upto R ops"
    and "sorted (b_lastRefillTime s # map fst ops)" "list_all (\<lambda>op. a \<le> fst op \<and> fst op \<le> b) ops" "a \<le> b" "b_lastRefillTime s \<le> b"
  shows "of_int (granted rd ops s) \<le> of_int B + R * (1 + 1 / 2 ^ 53)\<^sup>2 * of_int (b - a + 1000000) / 1000000000 + of_int (int (length ops)) * (of_int B / 2 ^ 51)"
  using assms(2-)
proof (induction ops arbitrary: s)
  case Nil
  then have "0 \<le> R" "0 \<le> B" by (auto simp: bucket_ok_def)
  then have "0 \<le> R * (1 + 1 / 2 ^ 53)\<^sup>2 * of_int (b - a + 1000000) / 1000000000" using Nil(7) by (intro divide_nonneg_nonneg mult_nonneg_nonneg) simp_all
  then show ?case using \<open>0 \<le> B\<close> by (simp only: granted_def fold.simps) simp
next
  case (Cons op ops)
  let ?K = "R * (1 + 1 / 2 ^ 53)\<^sup>2"
  obtain now p where op: "op = (now, p)" by force
  obtain g1 s1 where e: "b_exec rd (now, p) (0, s) = (g1, s1)" by force
  have last: "b_lastRefillTime s \<le> now" "a \<le> now" "now \<le> b" and ro: "rates_upto R [op]" "rates_upto R ops" using Cons.prems(5,6) op iffD1 [OF rates_upto_Cons Cons.prems(4)] by simp_all
  have "b_lastRefillTime s \<le> fst op" using last(1) op by simp
  note b = conj4D [OF b_exec_bound [OF fp Cons.prems(1-3) this ro(1) e [folded op]]]
  have so: "sorted (b_lastRefillTime s1 # map fst ops)" using Cons.prems(5) b(2) op by fastforce
  have le: "list_all (\<lambda>op. a \<le> fst op \<and> fst op \<le> b) ops" "list_all (\<lambda>op. fst op \<le> b) ops" "b_lastRefillTime s1 \<le> b"
    using Cons.prems(6) b(2) last(3) op by (auto simp: list_all_iff)
  have len: "of_int (int (length (op # ops))) * (of_int B / 2 ^ 51 :: real) = of_int B / 2 ^ 51 + of_int (int (length ops)) * (of_int B / 2 ^ 51)"
    by (simp only: length_Cons of_nat_Suc of_int_add of_int_1 distrib_right mult_1_left)
  have R: "0 \<le> ?K" "0 \<le> of_int B / (2 ^ 51 :: real)" using b(1) by (auto simp: bucket_ok_def)
  from b_exec_cases [OF fp Cons.prems(1,3) last(1) e]
  consider "g1 = 0" | n where "g1 = n" "takes B n (refillTokens rd now s) s1" by auto
  then show ?case
  proof cases
    case 1
    then have "granted rd (op # ops) s = granted rd ops s1" using e op by (simp add: granted_def)
    moreover have "of_int (granted rd ops s1) \<le> of_int B + ?K * of_int (b - a + 1000000) / 1000000000 + of_int (int (length ops)) * (of_int B / 2 ^ 51)"
      using Cons.IH [OF _ Cons.prems(2,3) ro(2) so le(1) Cons.prems(7) le(3)] b(1) by blast
    ultimately show ?thesis using len R(2) by linarith
  next
    case 2
    obtain g' s' where r: "fold (b_exec rd) ops (g1, s1) = (g', s')" by force
    note f = takes_bound [OF fp Cons.prems(1) last(1) 2(2)]
    have rb: "bucket_ok R B s'" "b_lastRefillTime s' \<le> b" "b_lastRefillTime s1 \<le> b_lastRefillTime s'"
      "of_int g' + b_tokens s' \<le> of_int g1 + b_tokens s1 + ?K * of_int (b_lastRefillTime s' - b_lastRefillTime s1) / 1000000000 + of_int (int (length ops)) * (of_int B / 2 ^ 51)"
      using run_bound [OF fp f(1) Cons.prems(2,3) ro(2) so le(2,3) r] by (rule conj4D)+
    have "b_lastRefillTime s' - b_lastRefillTime s1 \<le> b - a + 1000000" using rb(2) f(4) last(2) by simp
    then have "?K * of_int (b_lastRefillTime s' - b_lastRefillTime s1) / 1000000000 \<le> ?K * of_int (b - a + 1000000) / 1000000000"
      using R(1) by (intro divide_right_mono mult_left_mono iffD2 [OF of_int_le_iff]) simp_all
    moreover have "0 \<le> b_tokens s'" using rb(1) by (simp add: bucket_ok_def)
    ultimately have "of_int g' \<le> of_int B + ?K * of_int (b - a + 1000000) / 1000000000 + of_int (int (length (op # ops))) * (of_int B / 2 ^ 51)"
      using rb(4) f(6) 2(1) len by linarith
    then show ?thesis using e r op by (simp add: granted_def)
  qed
qed

text \<open>C25 (bounds). The bucket limits the rate over every interval of time: whatever calls were made before, changes of the rate included, the calls between two
  instants are granted together at most the burst size, plus the permits that the rate yields in that time and one more millisecond, plus what the rounding of doubles adds, less
  than one part in \<open>2\<^sup>5\<^sup>0\<close> of the rate and of the burst size for each call. The rate is a bound \<open>R\<close> of the rate at the beginning of the interval and of those set within it, the burst size one
  of the burst size at its beginning and of those that the rates give.\<close>

theorem bucket_grants_bounded:
  assumes "fp_contract rd"
    and "sorted (t0 # map fst past)" "list_all (\<lambda>op. fst op \<le> a) past" "t0 \<le> a" "r \<le> 2 ^ 31 - 1" "burst \<le> 2 ^ 31 - 1" "rates_upto (2 ^ 31 - 1) past"
    and "s = snd (fold (b_exec rd) past (0, mk_bucket r burst t0))"
    and "sorted (map fst ops)" "list_all (\<lambda>op. a \<le> fst op \<and> fst op \<le> b) ops" "a \<le> b"
    and "b_permitsPerSec s \<le> R" "rates_upto R ops" "b_burstSize s \<le> B" "\<lfloor>R\<rfloor> \<le> B" "B < 2 ^ 31"
  shows "of_int (granted rd ops s) \<le> of_int B + R * (1 + 1 / 2 ^ 53)\<^sup>2 * of_int (b - a + 1000000) / 1000000000 + of_int (int (length ops)) * (of_int B / 2 ^ 51)"
proof -
  let ?s = "mk_bucket r burst t0"
  obtain g s' where p: "fold (b_exec rd) past (0, ?s) = (g, s')" by force
  have s': "s' = s" using p assms(8) by simp
  have l: "b_lastRefillTime ?s = t0" by (simp add: mk_bucket_def Let_def)
  have "\<lfloor>r\<rfloor> \<le> \<lfloor>2 ^ 31 - 1 :: real\<rfloor>" using assms(5) by (rule floor_mono)
  then have i: "bucket_ok (2 ^ 31 - 1) (2 ^ 31 - 1) ?s" using assms(5,6) by (intro mk_bucket_ok) (auto simp: mk_bucket_def Let_def)
  have run: "bucket_ok (2 ^ 31 - 1) (2 ^ 31 - 1) s" "b_lastRefillTime s \<le> a"
    using run_bound [OF assms(1) i _ _ assms(7) _ assms(3) _ p] assms(2,4) l s' by simp_all
  then have ok: "bucket_ok R B s" using assms(12,14) by (simp add: bucket_ok_def)
  have "sorted (b_lastRefillTime s # map fst ops)" using run(2) assms(9,10) by (auto simp: list_all_iff)
  then show ?thesis using window_bound [OF assms(1) ok assms(15,16,13) _ assms(10,11)] run(2) assms(11) by simp
qed

theorem bucket_grants_bounded_witness:
  "granted rd_fixed [(5000000, Acquire 2), (6000000, SetRate 3), (7000000, Acquire 1)]
     (snd (fold (b_exec rd_fixed) [(1000000, Acquire 3), (2000000, SetRate 4)] (0, mk_bucket 1000 3 0))) \<le> 4"
proof -
  define s where "s = snd (fold (b_exec rd_fixed) [(1000000, Acquire 3), (2000000, SetRate 4)] (0, mk_bucket 1000 3 0))"
  have "b_permitsPerSec s = 4" "b_burstSize s = 4" by (simp_all add: s_def setPermitsPerSec_def split: prod.split)
  then have "of_int (granted rd_fixed [(5000000, Acquire 2), (6000000, SetRate 3), (7000000, Acquire 1)] s)
    \<le> of_int 4 + 4 * (1 + 1 / 2 ^ 53)\<^sup>2 * of_int (7000000 - 5000000 + 1000000) / 1000000000
      + of_int (int (length [(5000000 :: int, Acquire 2), (6000000, SetRate 3), (7000000, Acquire 1)])) * (of_int 4 / 2 ^ 51 :: real)"
    by (intro bucket_grants_bounded [OF rd_fixed_contract _ _ _ _ _ _ s_def, where a = 5000000]) (simp_all add: rates_upto_def)
  also have "\<dots> < 5" by (simp add: power2_eq_square)
  finally show ?thesis unfolding s_def by linarith
qed

text \<open>Nobody who waits long enough is refused: after one part in a thousand more milliseconds than the rate needs to yield a request that the burst size allows, the
  request is granted, however the doubles are rounded.\<close>

theorem bucket_grants_after_wait:
  assumes fp: "fp_contract rd" and "bucket_ok R B s" "0 < n" "n \<le> b_burstSize s" "n < 2 ^ 31" "of_int (1001 * n) \<le> b_permitsPerSec s * of_int (elapsed_ms now s)"
  shows "fst (bucket_tryAcquire rd now n s)"
proof -
  let ?q = "of_int (elapsed_ms now s) / 1000 :: real" and ?u = "1 - 1 / 2 ^ 53 :: real"
  have n: "1 \<le> real_of_int n" using assms(3) by simp
  have r: "0 < b_permitsPerSec s" "0 \<le> b_tokens s" using assms(2) by (simp_all add: bucket_ok_def)
  have e: "0 < elapsed_ms now s"
  proof (rule ccontr)
    assume "\<not> 0 < elapsed_ms now s"
    then have "b_permitsPerSec s * of_int (elapsed_ms now s) \<le> 0" using r by (intro mult_nonneg_nonpos) simp_all
    moreover have "(0 :: real) < of_int (1001 * n)" using assms(3) by simp
    ultimately show False using assms(6) by linarith
  qed
  have low: "x * ?u \<le> rd x" if "1 / 1000 \<le> x" for x
  proof -
    have "(1 :: real) / 2 ^ 1022 \<le> 1 / 1000" by simp
    then have "1 / 2 ^ 1022 \<le> x" using that by linarith
    then have "\<bar>rd x - x\<bar> \<le> x / 2 ^ 53" using fp by (simp only: fp_contract_def)
    then show ?thesis unfolding right_diff_distrib mult_1_right times_divide_eq_right by linarith
  qed
  have q: "1 / 1000 \<le> ?q" using e by simp
  have "1001 / 1000 * of_int n \<le> ?q * b_permitsPerSec s" using assms(6) by (simp add: field_simps)
  then have "1001 / 1000 * of_int n * ?u \<le> ?q * b_permitsPerSec s * ?u" by (rule mult_right_mono) simp
  also have "\<dots> = ?q * ?u * b_permitsPerSec s" by (simp only: mult.assoc mult.commute mult.left_commute)
  also have "\<dots> \<le> rd ?q * b_permitsPerSec s" by (rule mult_right_mono [OF low [OF q]]) (use r in simp)
  finally have a: "1001 / 1000 * of_int n * ?u \<le> rd ?q * b_permitsPerSec s" .
  then have "1 / 1000 \<le> rd ?q * b_permitsPerSec s" using n by simp
  then have "rd ?q * b_permitsPerSec s * ?u \<le> rd (rd ?q * b_permitsPerSec s)" by (rule low)
  moreover have "1001 / 1000 * of_int n * ?u * ?u \<le> rd ?q * b_permitsPerSec s * ?u" by (rule mult_right_mono [OF a]) simp
  moreover have "of_int n \<le> 1001 / 1000 * of_int n * ?u * ?u" using n by simp
  ultimately have "of_int n \<le> b_tokens s + rd (rd ?q * b_permitsPerSec s)" using r by linarith
  then have "of_int n \<le> rd (b_tokens s + rd (rd ?q * b_permitsPerSec s))"
    using fp_contractD(1) [OF fp] fp_contractD(2) [OF fp, of n] assms(3,5) by (metis abs_of_pos)
  then show ?thesis using e assms by (auto simp: bucket_tryAcquire_def tryAcquireTokenBucket_def refillTokens_def Let_def)
qed

text \<open>A rate below one with no burst size gives a bucket of no capacity, which refuses for ever unless a rate is set.\<close>

lemma slow_bucket_refuses:
  assumes fp: "fp_contract rd" and "0 < r" "r < 1" "0 < n" "sorted (t0 # map fst past @ [now])" "rates_upto r past"
  shows "\<not> fst (bucket_tryAcquire rd now n (snd (fold (b_exec rd) past (0, mk_bucket r 0 t0))))"
proof -
  have b: "b_lastRefillTime (mk_bucket r 0 t0) = t0" "bucket_ok r 0 (mk_bucket r 0 t0)" "\<lfloor>r\<rfloor> \<le> 0"
    using assms(2,3) by (auto simp: mk_bucket_def Let_def floor_le_iff bucket_ok_def)
  obtain g s where p: "fold (b_exec rd) past (0, mk_bucket r 0 t0) = (g, s)" by force
  have "list_all (\<lambda>op. fst op \<le> now) past" "t0 \<le> now" "sorted (t0 # map fst past)" using assms(5) by (auto simp: sorted_append list_all_iff)
  then have s: "bucket_ok r 0 s" "b_lastRefillTime s \<le> now" using run_bound [OF fp b(2,3) _ assms(6) _ _ _ p, of now] b(1) by simp_all
  have "b_tokens (refillTokens rd now s) \<le> 0" using refill_facts(1) [OF fp s] by (auto simp: bucket_ok_def)
  moreover have "0 < real_of_int n" using assms(4) by simp
  ultimately show ?thesis using p assms(4) by (simp add: bucket_tryAcquire_def tryAcquireTokenBucket_def Let_def)
qed

section \<open>What the window grants\<close>

definition window_ok :: "int \<Rightarrow> window \<Rightarrow> bool" where
  "window_ok maxPermits w \<longleftrightarrow> 0 \<le> w_count w \<and> w_count w \<le> maxPermits"

lemma w_steps: "(w_step False ^^ 6) wc = w_step False (w_step False (w_step False (w_step False (w_step False (w_step False wc)))))"
  by (simp add: eval_nat_numeral)

text \<open>What a call without interference does: it opens a new window when the last is a second old, and grants when the count allows.\<close>

lemma window_sequential:
  assumes "0 < n"
  shows "tryAcquireSlidingWindow r now n w =
    (let w0 = (if now - w_start w \<ge> 1000 then w\<lparr>w_start := now, w_count := 0\<rparr> else w)
     in if w_count w0 + n \<le> \<lfloor>r\<rfloor>
        then (Some True, w0\<lparr>w_count := w_count w0 + n, w_accepted := w_accepted w0 + 1\<rparr>)
        else (Some False, w0\<lparr>w_rejected := w_rejected w0 + 1\<rparr>))"
  by (auto simp: tryAcquireSlidingWindow_def w_steps w_step_def w_begin_def Let_def)

text \<open>The resetting of the window is not atomic. When a call that found the window expired is interrupted between its compare-exchange on the start and its
  store of zero, a second call can be granted the whole limit, the store then forgets it, and the first call is granted the whole limit again at the same instant.\<close>

theorem window_reset_race_doubles:
  assumes "1 \<le> r" "now - w_start w \<ge> 1000" "w_count w = 0"
  shows "\<exists>w1 w2 w3 a b.
    w_step False (w, w_begin r now \<lfloor>r\<rfloor> w) = (w1, a)
    \<and> (w_step False ^^ 3) (w1, w_begin r now \<lfloor>r\<rfloor> w1) = (w2, b) \<and> c_pc b = Finished True
    \<and> (w_step False ^^ 5) (w2, a) = (w3, a\<lparr>c_expected := now, c_pc := Finished True\<rparr>)
    \<and> w_accepted w3 = w_accepted w + 2 \<and> w_count w3 = \<lfloor>r\<rfloor>"
  using assms by (simp add: w_step_def w_begin_def eval_nat_numeral)

theorem window_reset_race_doubles_witness:
  "\<exists>w1 w2 w3 a b.
    w_step False (\<lparr>w_start = 0, w_count = 0, w_accepted = 0, w_rejected = 0\<rparr>, w_begin 7 5000 \<lfloor>7 :: real\<rfloor> \<lparr>w_start = 0, w_count = 0, w_accepted = 0, w_rejected = 0\<rparr>) = (w1, a)
    \<and> (w_step False ^^ 3) (w1, w_begin 7 5000 \<lfloor>7 :: real\<rfloor> w1) = (w2, b) \<and> c_pc b = Finished True
    \<and> (w_step False ^^ 5) (w2, a) = (w3, a\<lparr>c_expected := 5000, c_pc := Finished True\<rparr>)
    \<and> w_accepted w3 = 0 + 2 \<and> w_count w3 = \<lfloor>7 :: real\<rfloor>"
  using window_reset_race_doubles [of 7 5000 "\<lparr>w_start = 0, w_count = 0, w_accepted = 0, w_rejected = 0\<rparr>"] by simp

end
