(* ===== verification/SK_HttpMessage.thy ===== *)
theory SK_HttpMessage
  imports SK_Text "HOL-Library.Sublist"
begin

text \<open>
  The messages of the embedded HTTP server: requests, responses, \<open>parseRequest\<close> and \<open>serialize\<close> of \<^verbatim>\<open>src/soul/server/http_server.cpp\<close> and the classes
  of \<^verbatim>\<open>include/soul/server/http_server.h\<close>. Bytes and characters are \<open>char\<close>; the conversion between UTF-8 and \<^verbatim>\<open>QString\<close> is the identity, which it is
  for ASCII text. The splitting of a URI into its path and query items belongs to \<^verbatim>\<open>QUrl\<close> and is the parameter \<open>url\<close>. The peer address is left out.
\<close>

section \<open>Methods\<close>

datatype HttpMethod = Get | Post | Put | Delete | Head | Options | Patch

fun method_toString :: "HttpMethod \<Rightarrow> string" where
  "method_toString Get = ''GET''"
| "method_toString Post = ''POST''"
| "method_toString Put = ''PUT''"
| "method_toString Delete = ''DELETE''"
| "method_toString Head = ''HEAD''"
| "method_toString Options = ''OPTIONS''"
| "method_toString Patch = ''PATCH''"

definition method_fromString :: "string \<Rightarrow> HttpMethod option" where
  "method_fromString m =
     (if m = ''GET'' then Some Get else if m = ''POST'' then Some Post else if m = ''PUT'' then Some Put else if m = ''DELETE'' then Some Delete
      else if m = ''HEAD'' then Some Head else if m = ''OPTIONS'' then Some Options else if m = ''PATCH'' then Some Patch else None)"

section \<open>Text operations of Qt\<close>

definition CR :: char where "CR = CHR 0x0D"
definition LF :: char where "LF = CHR 0x0A"
definition CRLF :: string where "CRLF = [CR, LF]"

text \<open>\<^verbatim>\<open>indexOf\<close>: the first position at which a text occurs.\<close>

fun indexOf :: "string \<Rightarrow> string \<Rightarrow> nat option" where
  "indexOf pat [] = (if pat = [] then Some 0 else None)"
| "indexOf pat (c # cs) = (if prefix pat (c # cs) then Some 0 else map_option Suc (indexOf pat cs))"

definition toLower :: "string \<Rightarrow> string" where
  "toLower = map lower_char"

text \<open>\<^verbatim>\<open>toInt\<close>: the number a text denotes as a whole, 0 when it denotes none or one out of range.\<close>

definition toInt :: "string \<Rightarrow> int" where
  "toInt s =
     (let s1 = trimmed s;
          neg = (case s1 of c # _ \<Rightarrow> c = CHR ''-'' | [] \<Rightarrow> False);
          ds = (case s1 of c # cs \<Rightarrow> if c = CHR ''-'' \<or> c = CHR ''+'' then cs else s1 | [] \<Rightarrow> []);
          v = (if neg then - int (read_nat 0 ds) else int (read_nat 0 ds))
      in if ds = [] \<or> \<not> list_all is_digit ds \<or> v < - (2 ^ 31) \<or> 2 ^ 31 \<le> v then 0 else v)"

section \<open>Requests\<close>

record HttpRequest =
  rq_method :: HttpMethod
  rq_path :: string
  rq_uri :: string
  rq_queryParams :: "(string \<times> string) list"
  rq_headers :: "(string \<times> string) list"
  rq_body :: string

definition empty_request :: HttpRequest where
  "empty_request = \<lparr>rq_method = Get, rq_path = [], rq_uri = [], rq_queryParams = [], rq_headers = [], rq_body = []\<rparr>"

definition rq_setHeader :: "string \<Rightarrow> string \<Rightarrow> HttpRequest \<Rightarrow> HttpRequest" where
  "rq_setHeader key v r = r\<lparr>rq_headers := AList.update (toLower key) v (rq_headers r)\<rparr>"

definition rq_header :: "string \<Rightarrow> HttpRequest \<Rightarrow> string" where
  "rq_header key r = (case map_of (rq_headers r) (toLower key) of None \<Rightarrow> [] | Some v \<Rightarrow> v)"

datatype parse_status = Parsed HttpRequest | Incomplete | BadRequest

text \<open>The lines of the header block.\<close>

function header_lines :: "string \<Rightarrow> string list" where
  "header_lines s = (if s = [] then [] else case indexOf CRLF s of None \<Rightarrow> [s] | Some i \<Rightarrow> take i s # header_lines (drop (i + 2) s))"
  by auto
termination by (relation "measure length") auto

declare header_lines.simps [simp del]

definition parse_header_line :: "string \<Rightarrow> HttpRequest \<Rightarrow> HttpRequest" where
  "parse_header_line line r =
     (if line = [] then r
      else case split_at (CHR '':'') line of
        Some (k, v) \<Rightarrow> if k \<noteq> [] then rq_setHeader (trimmed k) (trimmed v) r else r
      | None \<Rightarrow> r)"

definition parse_body :: "string \<Rightarrow> HttpRequest \<Rightarrow> parse_status" where
  "parse_body bodyPart r =
     (let contentLengthStr = rq_header ''Content-Length'' r
      in if contentLengthStr \<noteq> []
         then let expected = toInt contentLengthStr
              in if int (length bodyPart) < expected then Incomplete else Parsed (r\<lparr>rq_body := take (nat expected) bodyPart\<rparr>)
         else Parsed (r\<lparr>rq_body := []\<rparr>))"

definition parse_parts :: "(string \<Rightarrow> string \<times> (string \<times> string) list) \<Rightarrow> string \<Rightarrow> string \<Rightarrow> parse_status" where
  "parse_parts url headerPart bodyPart =
     (case indexOf CRLF headerPart of
        None \<Rightarrow> Incomplete
      | Some firstLineEnd \<Rightarrow>
          let parts = split_all (CHR '' '') (take firstLineEnd headerPart)
          in if length parts < 3 then BadRequest
             else case method_fromString (parts ! 0) of
               None \<Rightarrow> BadRequest
             | Some m \<Rightarrow>
                 let uri = parts ! 1;
                     r = empty_request\<lparr>rq_method := m, rq_path := fst (url uri), rq_uri := uri,
                       rq_queryParams := fold (\<lambda>(k, v). AList.update k v) (snd (url uri)) []\<rparr>
                 in parse_body bodyPart (fold parse_header_line (header_lines (drop (firstLineEnd + 2) headerPart)) r))"

definition parseRequest :: "(string \<Rightarrow> string \<times> (string \<times> string) list) \<Rightarrow> string \<Rightarrow> parse_status" where
  "parseRequest url bytes =
     (case indexOf (CRLF @ CRLF) bytes of
        None \<Rightarrow> Incomplete
      | Some headerEnd \<Rightarrow> parse_parts url (take headerEnd bytes) (drop (headerEnd + 4) bytes))"

section \<open>Responses\<close>

record HttpResponse =
  rs_status :: int
  rs_headers :: "(string \<times> string) list"
  rs_body :: string

definition empty_response :: HttpResponse where
  "empty_response = \<lparr>rs_status = 200, rs_headers = [], rs_body = []\<rparr>"

text \<open>The order of the keys of a \<^verbatim>\<open>QMap\<close>.\<close>

fun text_less :: "string \<Rightarrow> string \<Rightarrow> bool" where
  "text_less _ [] = False"
| "text_less [] (_ # _) = True"
| "text_less (a # as) (b # bs) = ((of_char a :: nat) < of_char b \<or> a = b \<and> text_less as bs)"

fun qmap_insert :: "string \<Rightarrow> string \<Rightarrow> (string \<times> string) list \<Rightarrow> (string \<times> string) list" where
  "qmap_insert k v [] = [(k, v)]"
| "qmap_insert k v ((k1, v1) # m) =
     (if k = k1 then (k, v) # m else if text_less k k1 then (k, v) # (k1, v1) # m else (k1, v1) # qmap_insert k v m)"

definition rs_setHeader :: "string \<Rightarrow> string \<Rightarrow> HttpResponse \<Rightarrow> HttpResponse" where
  "rs_setHeader k v r = r\<lparr>rs_headers := qmap_insert k v (rs_headers r)\<rparr>"

definition statusText :: "int \<Rightarrow> string" where
  "statusText code =
     (if code = 200 then ''OK'' else if code = 201 then ''Created'' else if code = 204 then ''No Content'' else if code = 301 then ''Moved Permanently''
      else if code = 302 then ''Found'' else if code = 304 then ''Not Modified'' else if code = 400 then ''Bad Request'' else if code = 401 then ''Unauthorized''
      else if code = 403 then ''Forbidden'' else if code = 404 then ''Not Found'' else if code = 405 then ''Method Not Allowed'' else if code = 409 then ''Conflict''
      else if code = 413 then ''Payload Too Large'' else if code = 500 then ''Internal Server Error'' else if code = 501 then ''Not Implemented''
      else if code = 502 then ''Bad Gateway'' else if code = 503 then ''Service Unavailable'' else ''Unknown'')"

definition header_line :: "string \<times> string \<Rightarrow> string" where
  "header_line h = fst h @ '': '' @ snd h @ CRLF"

definition has_header :: "string \<Rightarrow> (string \<times> string) list \<Rightarrow> bool" where
  "has_header k hs = list_ex (\<lambda>h. toLower (fst h) = toLower k) hs"

definition serialize :: "HttpResponse \<Rightarrow> string" where
  "serialize r =
     ''HTTP/1.1 '' @ dec_int (rs_status r) @ '' '' @ statusText (rs_status r) @ CRLF
     @ concat (map header_line (rs_headers r))
     @ (if has_header ''Content-Length'' (rs_headers r) then [] else header_line (''Content-Length'', dec_nat (length (rs_body r))))
     @ (if has_header ''Connection'' (rs_headers r) then [] else header_line (''Connection'', ''close''))
     @ CRLF @ rs_body r"

section \<open>Finding and splitting\<close>

lemma indexOf_bound: "indexOf pat s = Some i \<Longrightarrow> i + length pat \<le> length s"
  by (induction s arbitrary: i) (auto split: if_splits dest: prefix_length_le)

lemma indexOf_append: "indexOf pat s = Some i \<Longrightarrow> indexOf pat (s @ t) = Some i"
proof (induction s arbitrary: i)
  case (Cons c s)
  show ?case
  proof (cases "prefix pat (c # s)")
    case True
    then show ?thesis using Cons.prems prefix_append [of pat "c # s" t] by (auto intro: prefix_prefix)
  next
    case False
    then obtain j where j: "indexOf pat s = Some j" "i = Suc j" using Cons.prems by auto
    have "\<not> prefix pat (c # s @ t)"
      using False indexOf_bound [OF j(1)] prefix_length_prefix [of pat "(c # s) @ t" "c # s"] by auto
    then show ?thesis using Cons.IH [OF j(1)] j(2) by simp
  qed
qed (cases t; simp split: if_splits)

lemma indexOf_skip: "p \<notin> set l \<Longrightarrow> indexOf (p # ps) (l @ s) = map_option (\<lambda>i. length l + i) (indexOf (p # ps) s)"
  by (cases "indexOf (p # ps) s"; induction l) auto

lemma CR_LF [simp]: "CR \<noteq> LF" "LF \<noteq> CR"
  by (simp_all add: CR_def LF_def)

text \<open>A line: text without line breaks.\<close>

definition one_line :: "string \<Rightarrow> bool" where
  "one_line s \<longleftrightarrow> CR \<notin> set s \<and> LF \<notin> set s"

lemma indexOf_CRLF: "one_line l \<Longrightarrow> indexOf CRLF (l @ CRLF @ s) = Some (length l)"
  by (simp add: CRLF_def one_line_def indexOf_skip)

lemma indexOf_CRLF_none: "one_line l \<Longrightarrow> indexOf CRLF l = None"
  using indexOf_skip [of CR l "[LF]" "[]"] by (simp add: CRLF_def one_line_def)

text \<open>The end of a block of lines is where the first empty line is.\<close>

definition block :: "string list \<Rightarrow> string" where
  "block ls = concat (map (\<lambda>l. l @ CRLF) ls)"

lemma block_simps [simp]: "block [] = []" "block (l # ls) = l @ CRLF @ block ls" "block (ls @ ks) = block ls @ block ks"
  by (simp_all add: block_def)

lemma indexOf_block_end:
  "ls \<noteq> [] \<Longrightarrow> list_all (\<lambda>l. l \<noteq> [] \<and> one_line l) ls \<Longrightarrow>
   indexOf (CRLF @ CRLF) (block ls @ CRLF @ body) = Some (length (block ls) - 2)"
proof (induction ls)
  case (Cons l ls)
  have l: "CR \<notin> set l" using Cons.prems by (simp add: one_line_def)
  show ?case
  proof (cases ls)
    case Nil
    then show ?thesis using l indexOf_skip [OF l, of "[LF, CR, LF]"] by (simp add: CRLF_def)
  next
    case (Cons k ks)
    obtain c cs where k: "k = c # cs" "c \<noteq> CR" using Cons.prems Cons by (cases k) (auto simp: one_line_def)
    have IH: "indexOf (CRLF @ CRLF) (block ls @ CRLF @ body) = Some (length (block ls) - 2)" using Cons.IH Cons.prems Cons by simp
    have "2 \<le> length (block ls)" using Cons by (simp add: CRLF_def)
    moreover have "indexOf (CRLF @ CRLF) (CRLF @ block ls @ CRLF @ body) = map_option (\<lambda>i. i + 2) (indexOf (CRLF @ CRLF) (block ls @ CRLF @ body))"
      using k Cons by (simp add: CRLF_def option.map_comp comp_def)
    ultimately show ?thesis using indexOf_skip [OF l, of "[LF, CR, LF]" "CRLF @ block ls @ CRLF @ body"] IH by (simp add: CRLF_def)
  qed
qed simp

lemma header_lines_block: "list_all one_line ls \<Longrightarrow> list_all (\<lambda>l. l \<noteq> []) ls \<Longrightarrow> one_line l \<Longrightarrow> l \<noteq> [] \<Longrightarrow> header_lines (block ls @ l) = ls @ [l]"
proof (induction ls)
  case Nil
  then show ?case by (subst header_lines.simps) (simp add: indexOf_CRLF_none)
next
  case (Cons k ls)
  then show ?case by (subst header_lines.simps) (simp add: indexOf_CRLF, simp add: CRLF_def)
qed

section \<open>Framing\<close>

lemma parse_body_append: "parse_body b r = st \<Longrightarrow> st \<noteq> Incomplete \<Longrightarrow> parse_body (b @ t) r = st"
  by (auto simp: parse_body_def Let_def split: if_splits)

lemma parse_parts_cases:
  obtains "\<And>b. parse_parts url hp b = Incomplete" | "\<And>b. parse_parts url hp b = BadRequest" | r where "\<And>b. parse_parts url hp b = parse_body b r"
proof (cases "indexOf CRLF hp")
  case None
  then show ?thesis by (intro that(1)) (simp add: parse_parts_def)
next
  case (Some i)
  note i = Some
  let ?ps = "split_all (CHR '' '') (take i hp)"
  show ?thesis
  proof (cases "length ?ps < 3 \<or> method_fromString (?ps ! 0) = None")
    case True
    then show ?thesis using i by (intro that(2)) (auto simp: parse_parts_def Let_def)
  next
    case False
    then obtain m where "method_fromString (?ps ! 0) = Some m" "\<not> length ?ps < 3" by auto
    then have "parse_parts url hp b = parse_body b (fold parse_header_line (header_lines (drop (i + 2) hp))
        (empty_request\<lparr>rq_method := m, rq_path := fst (url (?ps ! 1)), rq_uri := ?ps ! 1,
           rq_queryParams := fold (\<lambda>(k, v). AList.update k v) (snd (url (?ps ! 1))) []\<rparr>))" for b
      using i by (simp add: parse_parts_def Let_def)
    then show ?thesis by (rule that(3))
  qed
qed

text \<open>A verdict on a part of the input is the verdict on all of it.\<close>

lemma parse_stable:
  assumes "parseRequest url p = st" "st \<noteq> Incomplete"
  shows "parseRequest url (p @ q) = st"
proof -
  obtain i where i: "indexOf (CRLF @ CRLF) p = Some i" using assms by (auto simp: parseRequest_def split: option.splits)
  have "i + 4 \<le> length p" using indexOf_bound [OF i] by (simp add: CRLF_def)
  then have cut: "take i (p @ q) = take i p" "drop (i + 4) (p @ q) = drop (i + 4) p @ q" by simp_all
  have "parseRequest url p = parse_parts url (take i p) (drop (i + 4) p)" using i by (simp add: parseRequest_def)
  moreover have "parseRequest url (p @ q) = parse_parts url (take i p) (drop (i + 4) p @ q)"
    unfolding parseRequest_def indexOf_append [OF i] option.case cut ..
  ultimately
  show ?thesis using assms parse_body_append by (cases rule: parse_parts_cases [of url "take i p"]) metis+
qed

text \<open>The request line and the header block a client sends.\<close>

definition request_line :: "HttpMethod \<Rightarrow> string \<Rightarrow> string" where
  "request_line m uri = method_toString m @ '' '' @ uri @ '' HTTP/1.1''"

definition all_headers :: "(string \<times> string) list \<Rightarrow> string \<Rightarrow> (string \<times> string) list" where
  "all_headers hs body = hs @ [(''Content-Length'', dec_nat (length body))]"

definition render_request :: "HttpMethod \<Rightarrow> string \<Rightarrow> (string \<times> string) list \<Rightarrow> string \<Rightarrow> string" where
  "render_request m uri hs body =
     block (request_line m uri # map (\<lambda>h. fst h @ '': '' @ snd h) (all_headers hs body)) @ CRLF @ body"

definition request_of :: "(string \<Rightarrow> string \<times> (string \<times> string) list) \<Rightarrow> HttpMethod \<Rightarrow> string \<Rightarrow> (string \<times> string) list \<Rightarrow> string \<Rightarrow> HttpRequest" where
  "request_of url m uri hs body =
     \<lparr>rq_method = m, rq_path = fst (url uri), rq_uri = uri, rq_queryParams = fold (\<lambda>(k, v). AList.update k v) (snd (url uri)) [],
      rq_headers = fold (\<lambda>h. AList.update (toLower (fst h)) (snd h)) (all_headers hs body) [], rq_body = body\<rparr>"

definition good_header :: "string \<times> string \<Rightarrow> bool" where
  "good_header h \<longleftrightarrow> fst h \<noteq> [] \<and> one_line (fst h) \<and> CHR '':'' \<notin> set (fst h) \<and> trimmed (fst h) = fst h \<and> one_line (snd h) \<and> trimmed (snd h) = snd h"

definition good_uri :: "string \<Rightarrow> bool" where
  "good_uri uri \<longleftrightarrow> one_line uri \<and> CHR '' '' \<notin> set uri"

lemma trimmed_blank: "trimmed (CHR '' '' # s) = trimmed s"
  by (simp add: trimmed_def is_blank_def)

lemma dec_nat_trimmed: "trimmed (dec_nat n) = dec_nat n"
proof -
  have nb: "c \<in> set (dec_nat n) \<Longrightarrow> \<not> is_blank c" for c using dec_nat_digits digit_not_blank by blast
  have "dropWhile is_blank xs = xs" if "set xs = set (dec_nat n)" for xs using that nb by (cases xs) auto
  then show ?thesis by (simp add: trimmed_def)
qed

lemma dec_nat_one_line: "one_line (dec_nat n)"
  using dec_nat_digits [of CR n] dec_nat_digits [of LF n] by (auto simp: one_line_def CR_def LF_def is_digit_def)

lemma good_content_length: "good_header (''Content-Length'', dec_nat n)"
proof -
  have "trimmed ''Content-Length'' = ''Content-Length''" by code_simp
  then show ?thesis by (simp add: good_header_def dec_nat_trimmed dec_nat_one_line) (simp add: one_line_def CR_def LF_def)
qed

lemma toInt_dec_nat: "n < 2 ^ 31 \<Longrightarrow> toInt (dec_nat n) = int n"
proof -
  assume "n < 2 ^ 31"
  then have n: "int n < 2 ^ 31" by (metis of_nat_less_iff of_nat_numeral of_nat_power)
  obtain c cs where d: "dec_nat n = c # cs" using dec_nat_nonempty by (meson neq_Nil_conv)
  have "is_digit c" using dec_nat_digits [of c n] d by simp
  then have "c \<noteq> CHR ''-''" "c \<noteq> CHR ''+''" using not_digit by blast+
  moreover have "list_all is_digit (dec_nat n)" using dec_nat_digits by (simp add: list_all_iff)
  ultimately show ?thesis using d n read_dec_nat [of n] dec_nat_trimmed [of n] by (simp add: toInt_def Let_def)
qed

lemma parse_good_header: "good_header h \<Longrightarrow> parse_header_line (fst h @ '': '' @ snd h) r = rq_setHeader (fst h) (snd h) r"
  using split_at_some [of "CHR '':''" "fst h" "CHR '' '' # snd h"] by (simp add: parse_header_line_def good_header_def trimmed_blank)

lemma parse_good_headers:
  "list_all good_header hs \<Longrightarrow> fold parse_header_line (map (\<lambda>h. fst h @ '': '' @ snd h) hs) r
   = r\<lparr>rq_headers := fold (\<lambda>h. AList.update (toLower (fst h)) (snd h)) hs (rq_headers r)\<rparr>"
proof (induction hs arbitrary: r)
  case (Cons h hs)
  then have "parse_header_line (fst h @ '': '' @ snd h) r = rq_setHeader (fst h) (snd h) r" by (intro parse_good_header) simp
  then show ?case using Cons.IH [of "rq_setHeader (fst h) (snd h) r"] Cons.prems by (simp add: rq_setHeader_def)
qed simp

lemma good_line: "good_header h \<Longrightarrow> one_line (fst h @ '': '' @ snd h)"
  by (simp add: good_header_def one_line_def CR_def LF_def)

lemma request_line_split: "good_uri uri \<Longrightarrow> split_all (CHR '' '') (request_line m uri) = [method_toString m, uri, ''HTTP/1.1'']"
proof -
  assume "good_uri uri"
  then have u: "CHR '' '' \<notin> set uri" by (simp add: good_uri_def)
  have m: "CHR '' '' \<notin> set (method_toString m)" by (cases m) auto
  have "split_all (CHR '' '') ''HTTP/1.1'' = [''HTTP/1.1'']" by (rule split_all_whole) simp
  then show ?thesis using split_all_append [OF m, of "uri @ '' HTTP/1.1''"] split_all_append [OF u, of "''HTTP/1.1''"] by (simp add: request_line_def)
qed

lemma request_line_one: "good_uri uri \<Longrightarrow> one_line (request_line m uri) \<and> request_line m uri \<noteq> []"
  by (cases m) (simp_all add: request_line_def good_uri_def one_line_def CR_def LF_def)

lemma method_roundtrip: "method_fromString (method_toString m) = Some m"
  by (cases m) (simp_all add: method_fromString_def)

lemma drop_prefix: "drop (length xs) (xs @ ys) = ys"
  by simp

lemma parsed_body_available:
  assumes "parseRequest url p = Parsed r" "indexOf (CRLF @ CRLF) p = Some j"
  shows "length (rq_body r) \<le> length (drop (j + 4) p)"
  using assms by (cases rule: parse_parts_cases [of url "take j p"]) (auto simp: parseRequest_def parse_body_def Let_def split: if_splits)

lemma parse_rendered:
  assumes "good_uri uri" "list_all good_header hs" "length body < 2 ^ 31"
  shows "parseRequest url (render_request m uri hs body) = Parsed (request_of url m uri hs body)"
    and "\<exists>i. indexOf (CRLF @ CRLF) (render_request m uri hs body) = Some i \<and> length (render_request m uri hs body) = i + 4 + length body"
proof -
  define ls where "ls = map (\<lambda>h. fst h @ '': '' @ snd h) hs"
  define cl where "cl = ''Content-Length: '' @ dec_nat (length body)"
  let ?rl = "request_line m uri"
  have all: "list_all good_header (all_headers hs body)" using assms(2) good_content_length by (simp add: all_headers_def)
  have lines: "map (\<lambda>h. fst h @ '': '' @ snd h) (all_headers hs body) = ls @ [cl]" by (simp add: all_headers_def ls_def cl_def)
  have ok: "list_all one_line (ls @ [cl])" "list_all (\<lambda>l. l \<noteq> []) (ls @ [cl])"
    using all good_line unfolding lines [symmetric] by (auto simp: list_all_iff good_header_def)
  have rl: "one_line ?rl" "?rl \<noteq> []" using request_line_one [OF assms(1)] by auto
  let ?B = "block (?rl # ls @ [cl])"
  have r: "render_request m uri hs body = ?B @ CRLF @ body" by (simp only: render_request_def lines)
  have e: "indexOf (CRLF @ CRLF) (render_request m uri hs body) = Some (length ?B - 2)"
    unfolding r by (rule indexOf_block_end) (use ok rl in \<open>auto simp: list_all_iff\<close>)
  have B: "?B = (?rl @ CRLF @ block ls @ cl) @ CRLF" by simp
  then have hp: "take (length ?B - 2) (render_request m uri hs body) = ?rl @ CRLF @ block ls @ cl" unfolding r by (simp add: CRLF_def)
  have len: "2 \<le> length ?B" by (simp add: CRLF_def)
  then show "\<exists>i. indexOf (CRLF @ CRLF) (render_request m uri hs body) = Some i \<and> length (render_request m uri hs body) = i + 4 + length body"
    using e by (simp add: r CRLF_def)
  have "length ?B - 2 + 4 = length (?B @ CRLF)" using len by (simp add: CRLF_def)
  then have bp: "drop (length ?B - 2 + 4) (render_request m uri hs body) = body" unfolding r append_assoc [symmetric] by (simp only: drop_prefix)
  have hl: "header_lines (block ls @ cl) = ls @ [cl]" using header_lines_block [of ls cl] ok by simp
  have "fold parse_header_line (ls @ [cl]) r' = r'\<lparr>rq_headers := fold (\<lambda>h. AList.update (toLower (fst h)) (snd h)) (all_headers hs body) (rq_headers r')\<rparr>" for r'
    using parse_good_headers [OF all, of r'] unfolding lines .
  moreover have "rq_header ''Content-Length'' (r'\<lparr>rq_headers := fold (\<lambda>h. AList.update (toLower (fst h)) (snd h)) (all_headers hs body) xs\<rparr>) = dec_nat (length body)" for r' xs
    by (simp add: rq_header_def all_headers_def update_conv')
  moreover have "drop (length ?rl + 2) (?rl @ CRLF @ block ls @ cl) = block ls @ cl" by (simp add: CRLF_def)
  ultimately have "parse_parts url (?rl @ CRLF @ block ls @ cl) body = Parsed (request_of url m uri hs body)"
    using assms(3) dec_nat_nonempty
    by (simp add: parse_parts_def Let_def indexOf_CRLF [OF rl(1)] request_line_split [OF assms(1)] method_roundtrip hl parse_body_def
        toInt_dec_nat request_of_def empty_request_def)
  then show "parseRequest url (render_request m uri hs body) = Parsed (request_of url m uri hs body)"
    unfolding parseRequest_def e option.case hp bp .
qed

lemma http_request_incomplete:
  assumes "good_uri uri" "list_all good_header hs" "length body < 2 ^ 31" "n < length (render_request m uri hs body)"
  shows "parseRequest url (take n (render_request m uri hs body)) = Incomplete"
proof (rule ccontr)
  let ?R = "render_request m uri hs body"
  note p = parse_rendered(1) [OF assms(1-3), of url m] parse_rendered(2) [OF assms(1-3), of m] and n = assms(4)
  assume c: "parseRequest url (take n ?R) \<noteq> Incomplete"
  have "parseRequest url (take n ?R @ drop n ?R) = parseRequest url (take n ?R)" by (rule parse_stable [OF refl c])
  then have ok: "parseRequest url (take n ?R) = Parsed (request_of url m uri hs body)" using p(1) by simp
  obtain j where j: "indexOf (CRLF @ CRLF) (take n ?R) = Some j" using c by (auto simp: parseRequest_def split: option.splits)
  obtain i where i: "indexOf (CRLF @ CRLF) ?R = Some i" "length ?R = i + 4 + length body" using p(2) by blast
  have "i = j" using indexOf_append [OF j, of "drop n ?R"] i(1) by simp
  have "length (rq_body (request_of url m uri hs body)) \<le> length (drop (j + 4) (take n ?R))"
    using parsed_body_available [OF ok j] .
  moreover have "j + 4 \<le> n" using indexOf_bound [OF j] by (simp add: CRLF_def)
  ultimately show False using i(2) \<open>i = j\<close> n by (simp add: request_of_def)
qed

text \<open>The bytes of a well-formed request with any headers and body are read back as that request exactly when the last of them is there: every
  proper beginning is incomplete, and what follows changes nothing.\<close>

theorem http_request_roundtrip:
  assumes "good_uri uri" "list_all good_header hs" "length body < 2 ^ 31"
  shows "(n < length (render_request m uri hs body) \<longrightarrow> parseRequest url (take n (render_request m uri hs body)) = Incomplete)
    \<and> parseRequest url (render_request m uri hs body @ rest) = Parsed (request_of url m uri hs body)"
  using http_request_incomplete [OF assms] parse_stable [OF parse_rendered(1) [OF assms]] by blast

text \<open>Everything before the query is the path.\<close>

definition plain_url :: "string \<Rightarrow> string \<times> (string \<times> string) list" where
  "plain_url uri = (takeWhile (\<lambda>c. c \<noteq> CHR ''?'') uri, [])"

theorem http_request_roundtrip_witness:
  "parseRequest plain_url (take 30 (render_request Post ''/a'' [(''Host'', ''b'')] ''xyz'')) = Incomplete
   \<and> parseRequest plain_url (render_request Post ''/a'' [(''Host'', ''b'')] ''xyz'' @ ''GET'') = Parsed (request_of plain_url Post ''/a'' [(''Host'', ''b'')] ''xyz'')"
proof -
  have "good_uri ''/a''" "list_all good_header [(''Host'', ''b'')]" "30 < length (render_request Post ''/a'' [(''Host'', ''b'')] ''xyz'')" by code_simp+
  then show ?thesis using http_request_roundtrip [of "''/a''" "[(''Host'', ''b'')]" "''xyz''" 30 Post plain_url "''GET''"] by simp
qed

text \<open>A request without any header line is never answered: after the empty line that ends it the parser still waits for the end of the request line, whatever
  bytes follow.\<close>

theorem http_headerless_never_complete:
  assumes "good_uri uri"
  shows "parseRequest url (request_line m uri @ CRLF @ CRLF @ rest) = Incomplete"
proof -
  have l: "one_line (request_line m uri)" using request_line_one [OF assms] by simp
  then have "indexOf (CRLF @ CRLF) (request_line m uri @ CRLF @ CRLF @ rest) = Some (length (request_line m uri))"
    using indexOf_skip [of CR "request_line m uri" "[LF, CR, LF]" "CRLF @ CRLF @ rest"] by (simp add: CRLF_def one_line_def)
  then show ?thesis using indexOf_CRLF_none [OF l] by (simp add: parseRequest_def parse_parts_def)
qed

theorem http_headerless_never_complete_witness: "parseRequest plain_url (request_line Get ''/'' @ CRLF @ CRLF @ ''and more'') = Incomplete"
proof -
  have "good_uri ''/''" by code_simp
  then show ?thesis by (rule http_headerless_never_complete)
qed

section \<open>Reading a response\<close>

text \<open>How a client reads a response: the status line, the header lines, and what follows the first empty line.\<close>

definition read_response :: "string \<Rightarrow> (string \<times> string list \<times> string) option" where
  "read_response bytes =
     (case indexOf (CRLF @ CRLF) bytes of
        None \<Rightarrow> None
      | Some i \<Rightarrow> (case header_lines (take i bytes) of [] \<Rightarrow> None | l # ls \<Rightarrow> Some (l, ls, drop (i + 4) bytes)))"

definition sent_headers :: "HttpResponse \<Rightarrow> (string \<times> string) list" where
  "sent_headers r = rs_headers r
     @ (if has_header ''Content-Length'' (rs_headers r) then [] else [(''Content-Length'', dec_nat (length (rs_body r)))])
     @ (if has_header ''Connection'' (rs_headers r) then [] else [(''Connection'', ''close'')])"

definition status_line :: "int \<Rightarrow> string" where
  "status_line code = ''HTTP/1.1 '' @ dec_int code @ '' '' @ statusText code"

lemma dec_int_one_line: "one_line (dec_int i)"
  using dec_nat_one_line by (auto simp: dec_int_def one_line_def CR_def LF_def)

lemma status_line_one: "one_line (status_line code)"
proof -
  have "one_line (statusText code)" unfolding statusText_def by (simp add: one_line_def CR_def LF_def)
  then show ?thesis using dec_int_one_line [of code] by (simp add: status_line_def one_line_def CR_def LF_def)
qed

lemma serialize_block:
  "serialize r = block (status_line (rs_status r) # map (\<lambda>h. fst h @ '': '' @ snd h) (sent_headers r)) @ CRLF @ rs_body r"
proof -
  have "concat (map header_line hs) = block (map (\<lambda>h. fst h @ '': '' @ snd h) hs)" for hs
    by (induction hs) (simp_all add: header_line_def)
  then show ?thesis by (simp add: serialize_def sent_headers_def status_line_def header_line_def)
qed

lemma read_block:
  assumes "ls \<noteq> []" "list_all (\<lambda>l. l \<noteq> [] \<and> one_line l) ls"
  shows "read_response (block ls @ CRLF @ body) = Some (hd ls, tl ls, body)"
proof -
  obtain ks k where ls: "ls = ks @ [k]" using assms(1) by (metis append_butlast_last_id)
  then have hl: "header_lines (block ks @ k) = ls" using header_lines_block [of ks k] assms(2) by (auto simp: list_all_iff)
  have B: "block ls = (block ks @ k) @ CRLF" using ls by simp
  then have "length (block ls) - 2 = length (block ks @ k)" "length (block ls) - 2 + 4 = length (block ls @ CRLF)" by (simp_all add: CRLF_def)
  then have cut: "take (length (block ls) - 2) (block ls @ CRLF @ body) = block ks @ k" "drop (length (block ls) - 2 + 4) (block ls @ CRLF @ body) = body"
    using B drop_prefix [of "block ls @ CRLF" body] by simp_all
  show ?thesis unfolding read_response_def indexOf_block_end [OF assms] option.case cut hl using assms(1) by (cases ls) simp_all
qed



end
