(* ===== verification/SK_HttpServer.thy ===== *)
theory SK_HttpServer
  imports SK_HttpMessage
begin

text \<open>
  The embedded HTTP server of \<^verbatim>\<open>src/soul/server/http_server.cpp\<close> with the middlewares of \<^verbatim>\<open>middleware.cpp\<close>. The server is driven by the signals of Qt, all of them
  on one thread, so a slot is an atomic step. Sockets are numbers. A socket the server has begun to close delivers no more data. What is sent is kept in a log, as are the
  signals the server emits. Handlers and middlewares are functions on the request and the response that return or throw. The number of requests in flight is raised and
  lowered inside one slot, hence 0 between steps, and is left out, with the wait in \<open>shutdown\<close> that polls it; so is the timer that closes slow connections, which is an
  event like any other disconnection.
\<close>

section \<open>Middlewares\<close>

datatype before_result = Continue | Stop | Throws

record middleware =
  mw_before :: "HttpRequest \<Rightarrow> HttpResponse \<Rightarrow> HttpRequest \<times> HttpResponse \<times> before_result"
  mw_after :: "HttpRequest \<Rightarrow> HttpResponse \<Rightarrow> HttpResponse"

text \<open>\<open>LoggingMiddleware\<close>: the start time goes into a header of the request.\<close>

definition logging_before :: "int \<Rightarrow> HttpRequest \<Rightarrow> HttpResponse \<Rightarrow> HttpRequest \<times> HttpResponse \<times> before_result" where
  "logging_before now req resp = (rq_setHeader ''X-Middleware-StartTime'' (dec_int now) req, resp, Continue)"

definition LoggingMiddleware :: "int \<Rightarrow> middleware" where
  "LoggingMiddleware now = \<lparr>mw_before = logging_before now, mw_after = (\<lambda>req resp. resp)\<rparr>"

text \<open>\<open>AuthMiddleware\<close>.\<close>

definition refuse :: "string \<Rightarrow> HttpResponse \<Rightarrow> HttpResponse" where
  "refuse msg resp = (rs_setHeader ''WWW-Authenticate'' ''Bearer'' (resp\<lparr>rs_status := 401\<rparr>))\<lparr>rs_body := msg\<rparr>"

definition auth_before :: "(string \<Rightarrow> bool) \<Rightarrow> string list \<Rightarrow> string \<Rightarrow> HttpRequest \<Rightarrow> HttpResponse \<Rightarrow> HttpRequest \<times> HttpResponse \<times> before_result" where
  "auth_before validator excludePaths msg req resp =
     (if rq_path req \<in> set excludePaths then (req, resp, Continue)
      else let authHeader = rq_header ''Authorization'' req
           in if authHeader = [] then (req, refuse msg resp, Stop)
              else let authStr = trimmed authHeader
                   in if \<not> prefix ''Bearer '' authStr then (req, refuse msg resp, Stop)
                      else let token = drop 7 authStr
                           in if token = [] \<or> \<not> validator token then (req, refuse msg resp, Stop) else (req, resp, Continue))"

definition AuthMiddleware :: "(string \<Rightarrow> bool) \<Rightarrow> string list \<Rightarrow> string \<Rightarrow> middleware" where
  "AuthMiddleware validator excludePaths msg = \<lparr>mw_before = auth_before validator excludePaths msg, mw_after = (\<lambda>req resp. resp)\<rparr>"

text \<open>\<open>CorsMiddleware\<close>.\<close>

record cors =
  co_allowedOrigin :: string
  co_allowedMethods :: string
  co_allowedHeaders :: string
  co_allowCredentials :: bool

definition default_cors :: cors where
  "default_cors = \<lparr>co_allowedOrigin = ''*'', co_allowedMethods = ''GET,POST,PUT,DELETE,OPTIONS'', co_allowedHeaders = ''Content-Type,Authorization'', co_allowCredentials = True\<rparr>"

definition cors_after :: "cors \<Rightarrow> HttpResponse \<Rightarrow> HttpResponse" where
  "cors_after c resp =
     (let r = rs_setHeader ''Access-Control-Allow-Headers'' (co_allowedHeaders c)
            (rs_setHeader ''Access-Control-Allow-Methods'' (co_allowedMethods c) (rs_setHeader ''Access-Control-Allow-Origin'' (co_allowedOrigin c) resp))
      in if co_allowCredentials c then rs_setHeader ''Access-Control-Allow-Credentials'' ''true'' r else r)"

definition cors_before :: "cors \<Rightarrow> HttpRequest \<Rightarrow> HttpResponse \<Rightarrow> HttpRequest \<times> HttpResponse \<times> before_result" where
  "cors_before c req resp =
     (if rq_method req = Options
      then (req, rs_setHeader ''Access-Control-Max-Age'' ''86400'' (cors_after c (resp\<lparr>rs_status := 204\<rparr>)), Stop)
      else (req, resp, Continue))"

definition CorsMiddleware :: "cors \<Rightarrow> middleware" where
  "CorsMiddleware c = \<lparr>mw_before = cors_before c, mw_after = (\<lambda>req. cors_after c)\<rparr>"

section \<open>The server\<close>

text \<open>A handler gives the response it leaves and whether it returned.\<close>

type_synonym handler = "HttpRequest \<Rightarrow> HttpResponse \<Rightarrow> HttpResponse \<times> bool"

datatype server_signal = ConnectionAccepted nat | ConnectionLimitReached nat | RequestHandled string string int

record http_server =
  hs_routes :: "((HttpMethod \<times> string) \<times> handler) list"
  hs_notFoundHandler :: "handler option"
  hs_maxConnections :: int
  hs_currentConnections :: int
  hs_buffers :: "nat \<Rightarrow> string"
  hs_middlewares :: "middleware list"
  hs_shuttingDown :: bool
  hs_listening :: bool
  hs_sockets :: "nat list"
  hs_reading :: "nat list"
  hs_sent :: "(nat \<times> string) list"
  hs_signals :: "server_signal list"

definition mk_HttpServer :: http_server where
  "mk_HttpServer = \<lparr>hs_routes = [], hs_notFoundHandler = None, hs_maxConnections = 0, hs_currentConnections = 0, hs_buffers = (\<lambda>_. []), hs_middlewares = [],
     hs_shuttingDown = False, hs_listening = False, hs_sockets = [], hs_reading = [], hs_sent = [], hs_signals = []\<rparr>"

definition hs_listen :: "bool \<Rightarrow> http_server \<Rightarrow> bool \<times> http_server" where
  "hs_listen ok s = (if \<not> ok then (False, s) else (True, s\<lparr>hs_listening := True\<rparr>))"

definition hs_close :: "http_server \<Rightarrow> http_server" where
  "hs_close s = s\<lparr>hs_listening := False, hs_reading := [], hs_buffers := (\<lambda>_. [])\<rparr>"

definition hs_shutdown :: "http_server \<Rightarrow> http_server" where
  "hs_shutdown s = hs_close (s\<lparr>hs_shuttingDown := True\<rparr>)"

definition hs_route :: "HttpMethod \<Rightarrow> string \<Rightarrow> handler \<Rightarrow> http_server \<Rightarrow> http_server" where
  "hs_route m path h s = s\<lparr>hs_routes := AList.update (m, path) h (hs_routes s)\<rparr>"

definition setNotFoundHandler :: "handler \<Rightarrow> http_server \<Rightarrow> http_server" where
  "setNotFoundHandler h s = s\<lparr>hs_notFoundHandler := Some h\<rparr>"

definition setMaxConnections :: "int \<Rightarrow> http_server \<Rightarrow> http_server" where
  "setMaxConnections n s = s\<lparr>hs_maxConnections := n\<rparr>"

definition hs_use :: "middleware \<Rightarrow> http_server \<Rightarrow> http_server" where
  "hs_use mw s = s\<lparr>hs_middlewares := hs_middlewares s @ [mw]\<rparr>"

definition findRoute :: "HttpMethod \<Rightarrow> string \<Rightarrow> http_server \<Rightarrow> handler option" where
  "findRoute m path s = map_of (hs_routes s) (m, path)"

text \<open>The response is written and the socket starts to close.\<close>

definition sendResponse :: "nat \<Rightarrow> HttpResponse \<Rightarrow> http_server \<Rightarrow> http_server" where
  "sendResponse sock resp s = s\<lparr>hs_sent := hs_sent s @ [(sock, serialize resp)], hs_reading := remove1 sock (hs_reading s)\<rparr>"

definition unavailable :: "string \<Rightarrow> HttpResponse" where
  "unavailable msg = rs_setHeader ''Retry-After'' ''5'' (empty_response\<lparr>rs_status := 503, rs_body := msg\<rparr>)"

text \<open>One pending connection.\<close>

definition onNewConnection :: "nat \<Rightarrow> http_server \<Rightarrow> http_server" where
  "onNewConnection sock s =
     (if hs_shuttingDown s
      then sendResponse sock (rs_setHeader ''Connection'' ''close'' (unavailable ''Service Unavailable - Server is shutting down'')) s
      else if hs_maxConnections s > 0 \<and> hs_currentConnections s \<ge> hs_maxConnections s
      then sendResponse sock (unavailable ''Service Unavailable - Connection limit reached'') (s\<lparr>hs_signals := hs_signals s @ [ConnectionLimitReached sock]\<rparr>)
      else s\<lparr>hs_currentConnections := hs_currentConnections s + 1, hs_sockets := sock # hs_sockets s, hs_reading := sock # hs_reading s,
             hs_signals := hs_signals s @ [ConnectionAccepted sock]\<rparr>)"

definition onDisconnected :: "nat \<Rightarrow> http_server \<Rightarrow> http_server" where
  "onDisconnected sock s =
     s\<lparr>hs_currentConnections := hs_currentConnections s - 1, hs_buffers := (hs_buffers s)(sock := []),
       hs_sockets := remove1 sock (hs_sockets s), hs_reading := remove1 sock (hs_reading s)\<rparr>"

section \<open>Handling a request\<close>

definition server_error :: "HttpResponse \<Rightarrow> HttpResponse" where
  "server_error resp = resp\<lparr>rs_status := 500, rs_body := ''Internal Server Error''\<rparr>"

fun run_before :: "middleware list \<Rightarrow> HttpRequest \<Rightarrow> HttpResponse \<Rightarrow> HttpRequest \<times> HttpResponse \<times> bool" where
  "run_before [] req resp = (req, resp, True)"
| "run_before (mw # mws) req resp =
     (case mw_before mw req resp of
        (req1, resp1, Continue) \<Rightarrow> run_before mws req1 resp1
      | (req1, resp1, Stop) \<Rightarrow> (req1, resp1, False)
      | (req1, resp1, Throws) \<Rightarrow> (req1, server_error resp1, False))"

text \<open>The handler, or the one for unknown paths; only the former's exceptions are caught.\<close>

definition run_handler :: "http_server \<Rightarrow> HttpRequest \<Rightarrow> HttpResponse \<Rightarrow> HttpResponse option" where
  "run_handler s req resp =
     (case findRoute (rq_method req) (rq_path req) s of
        Some h \<Rightarrow> (case h req resp of (resp1, True) \<Rightarrow> Some resp1 | (resp1, False) \<Rightarrow> Some (server_error resp1))
      | None \<Rightarrow>
          (case hs_notFoundHandler s of
             Some h \<Rightarrow> (case h req resp of (resp1, True) \<Rightarrow> Some resp1 | (resp1, False) \<Rightarrow> None)
           | None \<Rightarrow> Some (resp\<lparr>rs_status := 404, rs_body := ''Not Found''\<rparr>)))"

definition run_after :: "middleware list \<Rightarrow> HttpRequest \<Rightarrow> HttpResponse \<Rightarrow> HttpResponse" where
  "run_after mws req resp = fold (\<lambda>mw. mw_after mw req) (rev mws) resp"

text \<open>From the parsed request to the response and the request as the middlewares left it; \<open>None\<close> when an exception leaves the slot.\<close>

definition handle_request :: "http_server \<Rightarrow> HttpRequest \<Rightarrow> (HttpRequest \<times> HttpResponse) option" where
  "handle_request s req =
     (case run_before (hs_middlewares s) req empty_response of
        (req1, resp1, continueChain) \<Rightarrow>
          (case (if continueChain then run_handler s req1 resp1 else Some resp1) of
             None \<Rightarrow> None
           | Some resp2 \<Rightarrow> Some (req1, run_after (hs_middlewares s) req1 resp2)))"

definition too_large :: HttpResponse where
  "too_large = empty_response\<lparr>rs_status := 413, rs_body := ''Request Entity Too Large''\<rparr>"

definition bad_request :: HttpResponse where
  "bad_request = empty_response\<lparr>rs_status := 400, rs_body := ''Bad Request''\<rparr>"

definition kMaxBuffer :: nat where "kMaxBuffer = 1024 * 1024"

text \<open>The slot for arriving data.\<close>

definition onReadyRead :: "(string \<Rightarrow> string \<times> (string \<times> string) list) \<Rightarrow> nat \<Rightarrow> string \<Rightarrow> http_server \<Rightarrow> http_server" where
  "onReadyRead url sock bytes s =
     (let buf = hs_buffers s sock @ bytes;
          erased = s\<lparr>hs_buffers := (hs_buffers s)(sock := [])\<rparr>
      in if length buf > kMaxBuffer then sendResponse sock too_large erased
         else case parseRequest url buf of
           Incomplete \<Rightarrow> s\<lparr>hs_buffers := (hs_buffers s)(sock := buf)\<rparr>
         | BadRequest \<Rightarrow> sendResponse sock bad_request erased
         | Parsed req \<Rightarrow>
             (case handle_request erased req of
                None \<Rightarrow> erased
              | Some (req1, resp) \<Rightarrow>
                  (sendResponse sock resp erased)
                    \<lparr>hs_signals := hs_signals s @ [RequestHandled (method_toString (rq_method req1)) (rq_path req1) (rs_status resp)]\<rparr>))"

section \<open>Delivery of requests\<close>

lemma handle_request_frame:
  "hs_middlewares s = hs_middlewares t \<Longrightarrow> hs_routes s = hs_routes t \<Longrightarrow> hs_notFoundHandler s = hs_notFoundHandler t \<Longrightarrow> handle_request s = handle_request t"
  by (simp add: handle_request_def run_handler_def findRoute_def fun_eq_iff split: prod.split option.split)

text \<open>Data arrives as long as the socket is open.\<close>

definition arrives :: "(string \<Rightarrow> string \<times> (string \<times> string) list) \<Rightarrow> nat \<Rightarrow> string \<Rightarrow> http_server \<Rightarrow> http_server" where
  "arrives url sock bytes s = (if sock \<in> set (hs_reading s) then onReadyRead url sock bytes s else s)"

lemma arrives_closed: "sock \<notin> set (hs_reading s) \<Longrightarrow> fold (arrives url sock) ss s = s"
  by (induction ss) (simp_all add: arrives_def)

lemma segments_delivered:
  assumes "good_uri uri" "list_all good_header hs" "length (render_request m uri hs body) \<le> kMaxBuffer"
    and "hs_buffers s sock @ concat ss = render_request m uri hs body" "hs_buffers s sock \<noteq> render_request m uri hs body"
    and "sock \<in> set (hs_reading s)" "distinct (hs_reading s)"
    and "handle_request s (request_of url m uri hs body) = Some (req1, resp)"
  shows "hs_sent (fold (arrives url sock) ss s) = hs_sent s @ [(sock, serialize resp)]"
  using assms(4-)
proof (induction ss arbitrary: s)
  case (Cons b ss)
  let ?R = "render_request m uri hs body" and ?buf = "hs_buffers s sock @ b"
  have big: "length body < 2 ^ 31" using assms(3) by (simp add: render_request_def kMaxBuffer_def)
  have split: "?buf @ concat ss = ?R" using Cons.prems(1) by simp
  have "length ?buf \<le> length ?R" unfolding split [symmetric] by simp
  then have len: "\<not> length ?buf > kMaxBuffer" using assms(3) by simp
  show ?case
  proof (cases "?buf = ?R")
    case True
    then have p: "parseRequest url ?buf = Parsed (request_of url m uri hs body)" using parse_rendered(1) [OF assms(1,2) big] by simp
    have "handle_request (s\<lparr>hs_buffers := (hs_buffers s)(sock := [])\<rparr>) = handle_request s" by (rule handle_request_frame) simp_all
    then have r: "arrives url sock b s = (sendResponse sock resp (s\<lparr>hs_buffers := (hs_buffers s)(sock := [])\<rparr>))
        \<lparr>hs_signals := hs_signals s @ [RequestHandled (method_toString (rq_method req1)) (rq_path req1) (rs_status resp)]\<rparr>"
      using Cons.prems(3,5) p len by (simp add: arrives_def onReadyRead_def Let_def)
    then have "sock \<notin> set (hs_reading (arrives url sock b s))" using Cons.prems(4) by (simp add: sendResponse_def)
    then show ?thesis using arrives_closed r by (simp add: sendResponse_def)
  next
    case False
    have pre: "?buf = take (length ?buf) ?R" unfolding split [symmetric] by simp
    have "length ?buf < length ?R"
    proof -
      have "concat ss \<noteq> []" using False split by (metis append_Nil2)
      then show ?thesis unfolding split [symmetric] by simp
    qed
    then have "parseRequest url ?buf = Incomplete" using http_request_incomplete [OF assms(1,2) big] pre by metis
    then have r: "arrives url sock b s = s\<lparr>hs_buffers := (hs_buffers s)(sock := ?buf)\<rparr>"
      using Cons.prems(3) len by (simp add: arrives_def onReadyRead_def Let_def)
    have "handle_request (s\<lparr>hs_buffers := (hs_buffers s)(sock := ?buf)\<rparr>) = handle_request s" by (rule handle_request_frame) simp_all
    then have "hs_sent (fold (arrives url sock) ss (s\<lparr>hs_buffers := (hs_buffers s)(sock := ?buf)\<rparr>)) = hs_sent s @ [(sock, serialize resp)]"
      using Cons.IH [of "s\<lparr>hs_buffers := (hs_buffers s)(sock := ?buf)\<rparr>"] Cons.prems split False by simp
    then show ?thesis using r by simp
  qed
qed simp


definition demo_server :: http_server where
  "demo_server = onNewConnection 4 (hs_route Get ''/a'' (\<lambda>req resp. (resp\<lparr>rs_body := ''hello''\<rparr>, True)) mk_HttpServer)"


section \<open>Connections and buffers\<close>

datatype hs_event = NewConnection nat | DataArrives nat string | Disconnected nat | Listen bool | Close | Shutdown | Use middleware | Route HttpMethod string handler | NotFound handler

text \<open>What happens to a server whose limit is not changed while it runs; a new connection has a socket of its own, and only open sockets disconnect.\<close>

fun hs_exec :: "(string \<Rightarrow> string \<times> (string \<times> string) list) \<Rightarrow> hs_event \<Rightarrow> http_server \<Rightarrow> http_server" where
  "hs_exec url (NewConnection k) s = (if k \<in> set (hs_sockets s) then s else onNewConnection k s)"
| "hs_exec url (DataArrives k b) s = arrives url k b s"
| "hs_exec url (Disconnected k) s = (if k \<in> set (hs_sockets s) then onDisconnected k s else s)"
| "hs_exec url (Listen ok) s = snd (hs_listen ok s)"
| "hs_exec url Close s = hs_close s"
| "hs_exec url Shutdown s = hs_shutdown s"
| "hs_exec url (Use mw) s = hs_use mw s"
| "hs_exec url (Route m p h) s = hs_route m p h s"
| "hs_exec url (NotFound h) s = setNotFoundHandler h s"

definition hs_step :: "(string \<Rightarrow> string \<times> (string \<times> string) list) \<Rightarrow> http_server \<Rightarrow> http_server \<Rightarrow> bool" where
  "hs_step url s t \<longleftrightarrow> (\<exists>ev. t = hs_exec url ev s)"

definition hs_inv :: "int \<Rightarrow> http_server \<Rightarrow> bool" where
  "hs_inv n s \<longleftrightarrow> hs_maxConnections s = n \<and> hs_currentConnections s = int (length (hs_sockets s)) \<and> distinct (hs_sockets s) \<and> distinct (hs_reading s)
     \<and> set (hs_reading s) \<subseteq> set (hs_sockets s) \<and> (0 < n \<longrightarrow> int (length (hs_sockets s)) \<le> n)
     \<and> (\<forall>k. length (hs_buffers s k) \<le> kMaxBuffer \<and> (k \<notin> set (hs_sockets s) \<longrightarrow> hs_buffers s k = []))"

lemma sendResponse_inv: "hs_inv n s \<Longrightarrow> hs_inv n (sendResponse k r s)"
  using set_remove1_subset [of k "hs_reading s"] by (auto simp: hs_inv_def sendResponse_def)

lemma erase_inv: "hs_inv n s \<Longrightarrow> hs_inv n (s\<lparr>hs_buffers := (hs_buffers s)(k := [])\<rparr>)"
  by (auto simp: hs_inv_def)

lemma signals_inv: "hs_inv n (s\<lparr>hs_signals := x\<rparr>) = hs_inv n s"
  by (simp add: hs_inv_def)

lemma onReadyRead_inv:
  assumes "hs_inv n s" "k \<in> set (hs_sockets s)"
  shows "hs_inv n (onReadyRead url k b s)"
proof (cases "length (hs_buffers s k @ b) > kMaxBuffer")
  case True
  then show ?thesis using assms sendResponse_inv erase_inv by (simp add: onReadyRead_def Let_def)
next
  case False
  show ?thesis
  proof (cases "parseRequest url (hs_buffers s k @ b)")
    case (Parsed req)
    then show ?thesis using False assms sendResponse_inv erase_inv by (auto simp: onReadyRead_def Let_def signals_inv split: option.split)
  next
    case Incomplete
    then show ?thesis using False assms by (auto simp: onReadyRead_def Let_def hs_inv_def)
  next
    case BadRequest
    then show ?thesis using False assms sendResponse_inv erase_inv by (simp add: onReadyRead_def Let_def)
  qed
qed

lemma onNewConnection_inv: "hs_inv n s \<Longrightarrow> k \<notin> set (hs_sockets s) \<Longrightarrow> hs_inv n (onNewConnection k s)"
proof -
  assume i: "hs_inv n s" and k: "k \<notin> set (hs_sockets s)"
  show ?thesis
  proof (cases "hs_shuttingDown s \<or> hs_maxConnections s > 0 \<and> hs_currentConnections s \<ge> hs_maxConnections s")
    case True
    then show ?thesis using i sendResponse_inv signals_inv by (auto simp: onNewConnection_def)
  next
    case False
    then show ?thesis using i k by (auto simp: onNewConnection_def hs_inv_def)
  qed
qed

lemma onDisconnected_inv: "hs_inv n s \<Longrightarrow> k \<in> set (hs_sockets s) \<Longrightarrow> hs_inv n (onDisconnected k s)"
proof -
  assume i: "hs_inv n s" and k: "k \<in> set (hs_sockets s)"
  then have "int (length (remove1 k (hs_sockets s))) = int (length (hs_sockets s)) - 1"
    using length_pos_if_in_set [OF k] k unfolding length_remove1 by (simp only: if_True)
  then show ?thesis using i k by (auto simp: onDisconnected_def hs_inv_def)
qed

lemma hs_exec_inv: "hs_inv n s \<Longrightarrow> hs_inv n (hs_exec url ev s)"
proof (cases ev)
  case (DataArrives k b)
  assume "hs_inv n s"
  then show ?thesis using DataArrives onReadyRead_inv [of n s k] by (auto simp: arrives_def hs_inv_def)
next
  case (Disconnected k)
  assume "hs_inv n s"
  then show ?thesis using Disconnected onDisconnected_inv by simp
next
  case (NewConnection k)
  assume "hs_inv n s"
  then show ?thesis using NewConnection onNewConnection_inv by simp
qed (auto simp: hs_inv_def hs_listen_def hs_close_def hs_shutdown_def hs_use_def hs_route_def setNotFoundHandler_def)

interpretation http: inductive_invariant "(=) (setMaxConnections n mk_HttpServer)" "hs_step url" "hs_inv n" for n url
proof
  show "hs_inv n s" if "setMaxConnections n mk_HttpServer = s" for s using that by (auto simp: hs_inv_def setMaxConnections_def mk_HttpServer_def)
  show "hs_inv n t" if "hs_inv n s" "hs_step url s t" for s t using that hs_exec_inv by (auto simp: hs_step_def)
qed

text \<open>Whatever clients send in whatever order: the server counts exactly its open connections, a positive limit on them is never exceeded, no connection
  holds more than a megabyte of unread data, and none is kept for sockets that are gone.\<close>

theorem http_connections_bounded:
  assumes "reach ((=) (setMaxConnections n mk_HttpServer)) (hs_step url) s"
  shows "hs_currentConnections s = int (length (hs_sockets s)) \<and> (0 < n \<longrightarrow> int (length (hs_sockets s)) \<le> n)
    \<and> (\<forall>k. length (hs_buffers s k) \<le> 1048576 \<and> (k \<notin> set (hs_sockets s) \<longrightarrow> hs_buffers s k = []))"
  using http.reach_inv [OF assms] by (simp add: hs_inv_def kMaxBuffer_def)

theorem http_connections_bounded_witness:
  "int (length (hs_sockets (hs_exec plain_url (NewConnection 5) (setMaxConnections 1 mk_HttpServer)))) \<le> 1"
proof -
  have "reach ((=) (setMaxConnections 1 mk_HttpServer)) (hs_step plain_url) (hs_exec plain_url (NewConnection 5) (setMaxConnections 1 mk_HttpServer))"
    by (rule reach_step [OF reach_init]) (unfold hs_step_def, rule refl, rule exI, rule refl)
  from http_connections_bounded [OF this] show ?thesis by simp
qed

section \<open>Authentication\<close>

text \<open>A middleware that leaves path and credentials of a request as they are.\<close>

definition keeps_identity :: "middleware \<Rightarrow> bool" where
  "keeps_identity mw \<longleftrightarrow> (\<forall>req resp. let req1 = fst (mw_before mw req resp) in
     rq_path req1 = rq_path req \<and> rq_header ''Authorization'' req1 = rq_header ''Authorization'' req)"

definition authorized :: "(string \<Rightarrow> bool) \<Rightarrow> string list \<Rightarrow> HttpRequest \<Rightarrow> bool" where
  "authorized validator excludePaths req \<longleftrightarrow> rq_path req \<in> set excludePaths
     \<or> (\<exists>token. trimmed (rq_header ''Authorization'' req) = ''Bearer '' @ token \<and> token \<noteq> [] \<and> validator token)"

lemma auth_before_iff: "snd (snd (auth_before validator ex msg req resp)) = Continue \<longleftrightarrow> authorized validator ex req"
proof -
  have "trimmed [] = []" by (simp add: trimmed_def)
  then show ?thesis by (auto simp: auth_before_def authorized_def Let_def prefix_def)
qed

lemma auth_before_stops: "\<not> authorized validator ex req \<Longrightarrow> auth_before validator ex msg req resp = (req, refuse msg resp, Stop)"
  using auth_before_iff [of validator ex msg req resp] by (auto simp: auth_before_def Let_def split: if_splits)

lemma run_before_auth_stops:
  "list_all keeps_identity pre \<Longrightarrow> \<not> authorized validator ex req \<Longrightarrow>
   \<not> snd (snd (run_before (pre @ AuthMiddleware validator ex msg # post) req resp))"
proof (induction pre arbitrary: req resp)
  case Nil
  then show ?case by (simp add: AuthMiddleware_def auth_before_stops)
next
  case (Cons mw pre)
  obtain req1 resp1 b where mw: "mw_before mw req resp = (req1, resp1, b)" by (metis prod_cases3)
  have keep: "keeps_identity mw" using Cons.prems(1) by simp
  have "rq_path req1 = rq_path req" "rq_header ''Authorization'' req1 = rq_header ''Authorization'' req"
    using keep mw unfolding keeps_identity_def Let_def by (metis fst_conv)+
  then have "\<not> authorized validator ex req1" using Cons.prems(2) by (simp add: authorized_def)
  then show ?case using Cons.IH Cons.prems(1) mw by (cases b) simp_all
qed

text \<open>C40 (safety). No handler sees an unauthorised request: with the authentication middleware anywhere in the chain after middlewares that leave path and credentials
  alone, a request to a path that is not excluded without a valid bearer token is answered in the same way whatever handlers are registered.\<close>

theorem auth_guards_handlers:
  assumes "hs_middlewares s = pre @ AuthMiddleware validator ex msg # post" "list_all keeps_identity pre" "\<not> authorized validator ex req"
  shows "handle_request s req = handle_request (s\<lparr>hs_routes := routes, hs_notFoundHandler := nf\<rparr>) req \<and> handle_request s req \<noteq> None"
proof -
  obtain req1 resp1 where "run_before (hs_middlewares s) req empty_response = (req1, resp1, False)"
    using run_before_auth_stops [OF assms(2,3), of msg post empty_response] assms(1) by (metis (full_types) prod.collapse)
  then show ?thesis by (simp add: handle_request_def)
qed

lemma logging_keeps_identity: "keeps_identity (LoggingMiddleware now)"
proof -
  have "toLower ''Authorization'' \<noteq> toLower ''X-Middleware-StartTime''" by code_simp
  then show ?thesis by (simp add: keeps_identity_def LoggingMiddleware_def logging_before_def rq_setHeader_def rq_header_def update_conv')
qed

theorem auth_guards_handlers_witness:
  "handle_request (mk_HttpServer\<lparr>hs_middlewares := [LoggingMiddleware 7, AuthMiddleware (\<lambda>t. t = ''secret'') [] ''no'']\<rparr>) (empty_request\<lparr>rq_path := ''/a''\<rparr>)
   = handle_request (mk_HttpServer\<lparr>hs_middlewares := [LoggingMiddleware 7, AuthMiddleware (\<lambda>t. t = ''secret'') [] ''no''],
       hs_routes := [((Get, ''/a''), \<lambda>req resp. (resp, True))], hs_notFoundHandler := None\<rparr>) (empty_request\<lparr>rq_path := ''/a''\<rparr>)"
proof -
  have "trimmed [] = []" by (simp add: trimmed_def)
  then have "\<not> authorized (\<lambda>t. t = ''secret'') [] (empty_request\<lparr>rq_path := ''/a''\<rparr>)" by (simp add: authorized_def empty_request_def rq_header_def)
  from auth_guards_handlers [OF _ _ this, of "mk_HttpServer\<lparr>hs_middlewares := [LoggingMiddleware 7, AuthMiddleware (\<lambda>t. t = ''secret'') [] ''no'']\<rparr>"
      "[LoggingMiddleware 7]" "''no''" "[]" None "[((Get, ''/a''), \<lambda>req resp. (resp, True))]"] logging_keeps_identity
  show ?thesis by simp
qed

end
