(* ===== verification/SK_Config.thy ===== *)
theory SK_Config
  imports Complex_Main SK_Text "HOL-Library.Sublist"
begin

text \<open>
  The configuration of \<^verbatim>\<open>src/soul/configuration/config.cpp\<close> over the JSON sources of \<^verbatim>\<open>json_configuration.cpp\<close>. The lookup of a key goes through the process
  environment and the sources, the latest first. The environment is the parameter \<open>env\<close>, the files the parameters \<open>entries\<close> (the JSON files of a directory, if it
  exists) and \<open>read_file\<close> (the parsed content of a file, if it can be opened and parsed). Numbers with a fraction are reals. The conversions of a
  \<^verbatim>\<open>QVariant\<close> to a type and the printing of JSON belong to Qt and the JSON library and are parameters of the operations that use them. Every operation holds the
  mutex; the change callbacks run after it is released and are logged.
\<close>

section \<open>Values\<close>

datatype json = JNull | JString string | JInteger int | JFloat real | JBoolean bool | JArray "json list" | JObject "(string \<times> json) list"

datatype cfg_variant = Invalid | QString string | QLongLong int | QDouble real | QBool bool | QVariantList "cfg_variant list" | QVariantMap "(string \<times> cfg_variant) list"

text \<open>\<^verbatim>\<open>get<int64_t>\<close> of the JSON library: an unsigned number beyond the range wraps around.\<close>

definition get_int64 :: "int \<Rightarrow> int" where
  "get_int64 i = (i + 2 ^ 63) mod 2 ^ 64 - 2 ^ 63"

text \<open>The scalar cases, which all conversions share.\<close>

fun scalar :: "json \<Rightarrow> cfg_variant option" where
  "scalar (JString s) = Some (QString s)"
| "scalar (JInteger i) = Some (QLongLong (get_int64 i))"
| "scalar (JFloat x) = Some (QDouble x)"
| "scalar (JBoolean b) = Some (QBool b)"
| "scalar _ = None"

definition scalar_map :: "(string \<times> json) list \<Rightarrow> (string \<times> cfg_variant) list" where
  "scalar_map o1 = fold (\<lambda>(k, v) m. case scalar v of Some q \<Rightarrow> AList.update k q m | None \<Rightarrow> m) o1 []"

text \<open>The conversion in \<open>getValueLocked\<close>; \<open>None\<close> for a null.\<close>

definition to_variant :: "(json \<Rightarrow> string) \<Rightarrow> json \<Rightarrow> cfg_variant option" where
  "to_variant dump v =
     (case scalar v of
        Some q \<Rightarrow> Some q
      | None \<Rightarrow>
          (case v of
             JArray vs \<Rightarrow> Some (QVariantList (map (\<lambda>w. case scalar w of Some q \<Rightarrow> q | None \<Rightarrow> QString (dump w)) vs))
           | JObject o1 \<Rightarrow> Some (QVariantMap (scalar_map o1))
           | _ \<Rightarrow> None))"

text \<open>The conversion in \<open>getGroup\<close> and \<open>getAll\<close>: elements of an array that are not scalars are left out.\<close>

definition to_group_variant :: "json \<Rightarrow> cfg_variant option" where
  "to_group_variant v =
     (case scalar v of
        Some q \<Rightarrow> Some q
      | None \<Rightarrow>
          (case v of
             JArray vs \<Rightarrow> Some (QVariantList (List.map_filter scalar vs))
           | JObject o1 \<Rightarrow> Some (QVariantMap (scalar_map o1))
           | _ \<Rightarrow> None))"

section \<open>Sources\<close>

text \<open>A JSON source: the members of its object.\<close>

type_synonym source = "(string \<times> json) list"

definition source_load :: "(string \<Rightarrow> json option) \<Rightarrow> string \<Rightarrow> source \<Rightarrow> bool \<times> source" where
  "source_load read_file path src =
     (case read_file path of
        Some (JObject o1) \<Rightarrow> (True, o1)
      | _ \<Rightarrow> (False, src))"

definition source_set :: "string \<Rightarrow> json \<Rightarrow> source \<Rightarrow> source" where
  "source_set k v src = AList.update k v src"

definition source_contains :: "string \<Rightarrow> source \<Rightarrow> bool" where
  "source_contains k src \<longleftrightarrow> map_of src k \<noteq> None"

definition source_remove :: "string \<Rightarrow> source \<Rightarrow> source" where
  "source_remove k src = AList.delete k src"

section \<open>State\<close>

record config =
  m_configSources :: "source list"
  m_configDir :: string
  m_currentEnv :: string
  m_profile :: string
  m_hotReloadEnabled :: bool
  m_watched :: "string list"
  m_changeCallbacks :: "nat list"
  m_envPrefix :: string
  m_nextCallbackToken :: nat
  c_notified :: "(nat \<times> string) list"
  c_saved :: "(string \<times> json) list"

definition mk_Config :: config where
  "mk_Config = \<lparr>m_configSources = [], m_configDir = [], m_currentEnv = [], m_profile = [], m_hotReloadEnabled = False, m_watched = [], m_changeCallbacks = [],
     m_envPrefix = ''SOUL_'', m_nextCallbackToken = 1, c_notified = [], c_saved = []\<rparr>"

section \<open>Environment variables\<close>

definition upper_char :: "char \<Rightarrow> char" where
  "upper_char c = (if 97 \<le> (of_char c :: nat) \<and> (of_char c :: nat) \<le> 122 then char_of (of_char c - 32 :: nat) else c)"

definition env_name :: "string \<Rightarrow> string" where
  "env_name key = map (\<lambda>c. if upper_char c = CHR ''.'' then CHR ''_'' else upper_char c) key"

definition getEnvKey :: "string \<Rightarrow> config \<Rightarrow> string" where
  "getEnvKey key c = m_envPrefix c @ env_name key"

definition getEnvValue :: "(string \<Rightarrow> string option) \<Rightarrow> string \<Rightarrow> config \<Rightarrow> string option" where
  "getEnvValue env key c = env (getEnvKey key c)"

section \<open>Lookup\<close>

text \<open>The sources, the latest first; a null does not end the search.\<close>

fun search_sources :: "(json \<Rightarrow> string) \<Rightarrow> string \<Rightarrow> source list \<Rightarrow> cfg_variant" where
  "search_sources dump key [] = Invalid"
| "search_sources dump key (src # srcs) =
     (if source_contains key src
      then case to_variant dump (the (map_of src key)) of Some q \<Rightarrow> q | None \<Rightarrow> search_sources dump key srcs
      else search_sources dump key srcs)"

definition getValueLocked :: "(json \<Rightarrow> string) \<Rightarrow> (string \<Rightarrow> string option) \<Rightarrow> string \<Rightarrow> config \<Rightarrow> cfg_variant" where
  "getValueLocked dump env key c =
     (case getEnvValue env key c of
        Some v \<Rightarrow> QString v
      | None \<Rightarrow> search_sources dump key (rev (m_configSources c)))"

text \<open>\<open>getString\<close>, \<open>getInt\<close> and \<open>getDouble\<close>, with the conversion of Qt.\<close>

definition getAs :: "(cfg_variant \<Rightarrow> 'a) \<Rightarrow> (json \<Rightarrow> string) \<Rightarrow> (string \<Rightarrow> string option) \<Rightarrow> string \<Rightarrow> 'a \<Rightarrow> config \<Rightarrow> 'a" where
  "getAs convert dump env key defaultValue c =
     (let v = getValueLocked dump env key c in if v \<noteq> Invalid then convert v else defaultValue)"

definition getBool :: "(cfg_variant \<Rightarrow> bool) \<Rightarrow> (json \<Rightarrow> string) \<Rightarrow> (string \<Rightarrow> string option) \<Rightarrow> string \<Rightarrow> bool \<Rightarrow> config \<Rightarrow> bool" where
  "getBool toBool dump env key defaultValue c =
     (case getValueLocked dump env key c of
        Invalid \<Rightarrow> defaultValue
      | QBool b \<Rightarrow> b
      | QString s \<Rightarrow>
          (let str = map lower_char (trimmed s)
           in if str = ''true'' \<or> str = ''1'' \<or> str = ''yes'' then True
              else if str = ''false'' \<or> str = ''0'' \<or> str = ''no'' then False else toBool (QString s))
      | v \<Rightarrow> toBool v)"

definition cfg_contains :: "(json \<Rightarrow> string) \<Rightarrow> (string \<Rightarrow> string option) \<Rightarrow> string \<Rightarrow> config \<Rightarrow> bool" where
  "cfg_contains dump env key c \<longleftrightarrow> getValueLocked dump env key c \<noteq> Invalid"

section \<open>Changes\<close>

text \<open>What the four setters store.\<close>

fun json_of :: "cfg_variant \<Rightarrow> json option" where
  "json_of (QString s) = Some (JString s)"
| "json_of (QLongLong i) = Some (JInteger i)"
| "json_of (QDouble x) = Some (JFloat x)"
| "json_of (QBool b) = Some (JBoolean b)"
| "json_of _ = None"

definition setValueLocked :: "string \<Rightarrow> cfg_variant \<Rightarrow> config \<Rightarrow> config" where
  "setValueLocked key v c =
     (let srcs = (if m_configSources c = [] then [[]] else m_configSources c)
      in c\<lparr>m_configSources := butlast srcs @ [case json_of v of Some j \<Rightarrow> source_set key j (last srcs) | None \<Rightarrow> last srcs]\<rparr>)"

definition notify :: "string \<Rightarrow> config \<Rightarrow> config" where
  "notify key c = c\<lparr>c_notified := c_notified c @ map (\<lambda>t. (t, key)) (m_changeCallbacks c)\<rparr>"

text \<open>\<open>setString\<close>, \<open>setInt\<close>, \<open>setDouble\<close> and \<open>setBool\<close>.\<close>

definition setValue :: "string \<Rightarrow> cfg_variant \<Rightarrow> config \<Rightarrow> config" where
  "setValue key v c = notify key (setValueLocked key v c)"

definition cfg_remove :: "string \<Rightarrow> config \<Rightarrow> config" where
  "cfg_remove key c = c\<lparr>m_configSources := map (source_remove key) (m_configSources c)\<rparr>"

definition addChangeCallback :: "config \<Rightarrow> nat \<times> config" where
  "addChangeCallback c =
     (m_nextCallbackToken c, c\<lparr>m_changeCallbacks := m_changeCallbacks c @ [m_nextCallbackToken c], m_nextCallbackToken := m_nextCallbackToken c + 1\<rparr>)"

definition removeChangeCallback :: "nat \<Rightarrow> config \<Rightarrow> bool \<times> config" where
  "removeChangeCallback token c =
     (if token \<in> set (m_changeCallbacks c) then (True, c\<lparr>m_changeCallbacks := remove1 token (m_changeCallbacks c)\<rparr>) else (False, c))"

section \<open>Files\<close>

definition loadJsonFileLocked :: "(string \<Rightarrow> json option) \<Rightarrow> string \<Rightarrow> config \<Rightarrow> bool \<times> config" where
  "loadJsonFileLocked read_file path c =
     (case source_load read_file path [] of
        (True, src) \<Rightarrow> (True, c\<lparr>m_configSources := m_configSources c @ [src]\<rparr>)
      | (False, _) \<Rightarrow> (False, c))"

definition load_all :: "(string \<Rightarrow> json option) \<Rightarrow> string list \<Rightarrow> config \<Rightarrow> config" where
  "load_all read_file paths c = fold (\<lambda>p c. snd (loadJsonFileLocked read_file p c)) paths c"

definition watch :: "string list \<Rightarrow> config \<Rightarrow> config" where
  "watch paths c = (if m_hotReloadEnabled c then c\<lparr>m_watched := m_watched c @ paths\<rparr> else c)"

definition filePath :: "string \<Rightarrow> string \<Rightarrow> string" where
  "filePath dir name = dir @ ''/'' @ name"

definition loadFromDirectory ::
  "(string \<Rightarrow> string list option) \<Rightarrow> (string \<Rightarrow> json option) \<Rightarrow> string \<Rightarrow> config \<Rightarrow> unit result \<times> config" where
  "loadFromDirectory entries read_file configDir c =
     (case entries configDir of
        None \<Rightarrow> (Err (mk_error EC_NotFound (''Config directory does not exist: '' @ configDir)), c)
      | Some files \<Rightarrow>
          (let paths = map (filePath configDir) files
           in (Ok (), watch paths (load_all read_file paths (c\<lparr>m_configDir := configDir\<rparr>)))))"

definition loadFile :: "(string \<Rightarrow> json option) \<Rightarrow> string \<Rightarrow> config \<Rightarrow> unit result \<times> config" where
  "loadFile read_file path c =
     (case loadJsonFileLocked read_file path c of
        (True, c1) \<Rightarrow> (Ok (), c1)
      | (False, c1) \<Rightarrow> (Err (mk_error EC_InternalError (''Failed to load config file: '' @ path)), c1))"

definition loadEnvironment ::
  "(string \<Rightarrow> string list option) \<Rightarrow> (string \<Rightarrow> json option) \<Rightarrow> string \<Rightarrow> config \<Rightarrow> unit result \<times> config" where
  "loadEnvironment entries read_file envName c =
     (let c1 = c\<lparr>m_currentEnv := envName\<rparr>; envDir = filePath (m_configDir c) envName
      in case entries envDir of
           None \<Rightarrow> (Err (mk_error EC_NotFound (''Environment directory does not exist: '' @ envDir)), c1)
         | Some files \<Rightarrow> (let paths = map (filePath envDir) files in (Ok (), watch paths (load_all read_file paths c1))))"

definition loadProfile :: "(string \<Rightarrow> bool) \<Rightarrow> (string \<Rightarrow> json option) \<Rightarrow> string \<Rightarrow> config \<Rightarrow> unit result \<times> config" where
  "loadProfile file_exists read_file profile c =
     (if profile = [] then (Err (mk_error EC_InvalidArgument ''Config: profile name cannot be empty''), c)
      else
        let c1 = c\<lparr>m_profile := profile\<rparr>; profileFile = m_configDir c @ ''/application-'' @ profile @ ''.json''
        in if m_configDir c = [] then (Ok (), c1)
           else if \<not> file_exists profileFile then (Ok (), c1)
           else case loadJsonFileLocked read_file profileFile c1 of
             (True, c2) \<Rightarrow> (Ok (), c2)
           | (False, c2) \<Rightarrow> (Err (mk_error EC_InternalError (''Config: failed to load profile file: '' @ profileFile)), c2))"

text \<open>A watched file has changed: its content goes into every source.\<close>

definition onFileChanged :: "(string \<Rightarrow> json option) \<Rightarrow> string \<Rightarrow> config \<Rightarrow> config" where
  "onFileChanged read_file path c =
     notify path (c\<lparr>m_configSources := map (\<lambda>src. snd (source_load read_file path src)) (m_configSources c)\<rparr>)"

text \<open>The merge of all sources, the later ones winning.\<close>

definition merged :: "source list \<Rightarrow> source" where
  "merged srcs = fold (\<lambda>src m. fold (\<lambda>(k, v). AList.update k v) src m) srcs []"

text \<open>\<open>written\<close> is what writing the file gives.\<close>

definition saveToFile :: "unit result \<Rightarrow> string \<Rightarrow> config \<Rightarrow> unit result \<times> config" where
  "saveToFile written path c =
     (if m_configSources c = [] then (Err (mk_error EC_InternalError ''No config sources to save''), c)
      else case written of
        Inl e \<Rightarrow> (Err e, c)
      | Inr _ \<Rightarrow> (Ok (), c\<lparr>c_saved := c_saved c @ [(path, JObject (merged (m_configSources c)))]\<rparr>))"

definition saveAll :: "unit result \<Rightarrow> config \<Rightarrow> unit result \<times> config" where
  "saveAll written c =
     (if m_configDir c = [] then (Err (mk_error EC_InternalError ''Config directory not set''), c)
      else saveToFile written (m_configDir c @ ''/config.json'') c)"

section \<open>Groups\<close>

definition collect :: "(string \<Rightarrow> string option) \<Rightarrow> source list \<Rightarrow> (string \<times> cfg_variant) list" where
  "collect sub srcs =
     fold (\<lambda>src m. fold (\<lambda>(k, v) m. case sub k of
         Some k1 \<Rightarrow> (case to_group_variant v of Some q \<Rightarrow> AList.update k1 q m | None \<Rightarrow> m)
       | None \<Rightarrow> m) src m) srcs []"

definition getAll :: "config \<Rightarrow> (string \<times> cfg_variant) list" where
  "getAll c = collect Some (m_configSources c)"

definition after_prefix :: "string \<Rightarrow> string \<Rightarrow> string option" where
  "after_prefix p k = (if prefix p k then Some (drop (length p) k) else None)"

text \<open>The environment contributes last; \<open>names\<close> are the variables it has.\<close>

definition getGroup :: "string list \<Rightarrow> (string \<Rightarrow> string option) \<Rightarrow> string \<Rightarrow> config \<Rightarrow> (string \<times> cfg_variant) list" where
  "getGroup names env grp c =
     (let result = collect (after_prefix (grp @ ''.'')) (m_configSources c);
          envPrefix = m_envPrefix c @ env_name grp @ ''_''
      in fold (\<lambda>name m. case after_prefix envPrefix name of
             None \<Rightarrow> m
           | Some rest \<Rightarrow> AList.update (map (\<lambda>ch. if lower_char ch = CHR ''_'' then CHR ''.'' else lower_char ch) rest)
                 (QString (case env name of Some v \<Rightarrow> v | None \<Rightarrow> [])) m) names result)"

section \<open>What a lookup gives\<close>

text \<open>The specification, as the header documents it: the dots of a key lead into nested objects, a member of the very name is found too; each source overrides the ones
  before it, except with nulls.\<close>

fun nested :: "string list \<Rightarrow> json \<Rightarrow> json option" where
  "nested [] j = Some j"
| "nested (k # ks) (JObject o1) = (case map_of o1 k of Some j \<Rightarrow> nested ks j | None \<Rightarrow> None)"
| "nested (k # ks) _ = None"

definition documented_member :: "string \<Rightarrow> source \<Rightarrow> json option" where
  "documented_member key src =
     (case nested (split_all (CHR ''.'') key) (JObject src) of Some j \<Rightarrow> Some j | None \<Rightarrow> map_of src key)"

definition documented_value :: "source list \<Rightarrow> string \<Rightarrow> json option" where
  "documented_value srcs key = foldl (\<lambda>found src. case documented_member key src of None \<Rightarrow> found | Some JNull \<Rightarrow> found | Some j \<Rightarrow> Some j) None srcs"

definition lookup_spec :: "(json \<Rightarrow> string) \<Rightarrow> (string \<Rightarrow> string option) \<Rightarrow> string \<Rightarrow> config \<Rightarrow> cfg_variant" where
  "lookup_spec dump env key c =
     (case getEnvValue env key c of
        Some v \<Rightarrow> QString v
      | None \<Rightarrow> (case documented_value (m_configSources c) key of Some j \<Rightarrow> the (to_variant dump j) | None \<Rightarrow> Invalid))"

text \<open>What \<open>getAll\<close> lists for a key: the same value, but of an array only the scalars.\<close>

definition listed_spec :: "(json \<Rightarrow> string) \<Rightarrow> string \<Rightarrow> config \<Rightarrow> cfg_variant option" where
  "listed_spec dump key c =
     (case documented_value (m_configSources c) key of
        None \<Rightarrow> None
      | Some (JArray vs) \<Rightarrow> Some (QVariantList (map (\<lambda>v. the (to_variant dump v)) (filter (\<lambda>v. case v of JNull \<Rightarrow> False | JArray _ \<Rightarrow> False | JObject _ \<Rightarrow> False | _ \<Rightarrow> True) vs)))
      | Some j \<Rightarrow> to_variant dump j)"

text \<open>The dots of the key lead nowhere in the sources.\<close>

definition no_nested_value :: "string \<Rightarrow> config \<Rightarrow> bool" where
  "no_nested_value key c \<longleftrightarrow> CHR ''.'' \<notin> set key \<or> list_all (\<lambda>src. nested (split_all (CHR ''.'') key) (JObject src) = None) (m_configSources c)"

text \<open>What the code looks up is the same without the dots.\<close>

definition non_null :: "(string \<rightharpoonup> json) \<Rightarrow> (string \<rightharpoonup> json)" where
  "non_null f = (\<lambda>k. if f k = Some JNull then None else f k)"

definition layered :: "source list \<Rightarrow> (string \<rightharpoonup> json)" where
  "layered srcs = foldl (\<lambda>m src. m ++ non_null (map_of src)) Map.empty srcs"

lemma documented_layered:
  assumes "no_nested_value key c"
  shows "documented_value (m_configSources c) key = layered (m_configSources c) key"
proof -
  have m: "documented_member key src = map_of src key" if "src \<in> set (m_configSources c)" for src
  proof (cases "CHR ''.'' \<in> set key")
    case False
    then show ?thesis by (simp add: documented_member_def split_all_whole split: option.split)
  next
    case True
    then show ?thesis using assms that by (auto simp: no_nested_value_def documented_member_def list_all_iff)
  qed
  have "documented_value srcs key = layered srcs key" if "set srcs \<subseteq> set (m_configSources c)" for srcs
    using that
  proof (induction srcs rule: rev_induct)
    case (snoc src srcs)
    then show ?case using m [of src]
      by (auto simp: documented_value_def layered_def non_null_def map_add_def split: option.split json.split)
  qed (simp add: documented_value_def layered_def)
  then show ?thesis by blast
qed

lemma to_variant_None: "to_variant dump j = None \<longleftrightarrow> j = JNull"
  by (cases j) (simp_all add: to_variant_def)

lemma to_group_variant_None: "to_group_variant j = None \<longleftrightarrow> j = JNull"
  by (cases j) (simp_all add: to_group_variant_def)

lemma layered_snoc: "layered (srcs @ [src]) = layered srcs ++ non_null (map_of src)"
  by (simp add: layered_def)

lemma search_sources_layered:
  "search_sources dump key (rev srcs) = (case layered srcs key of Some j \<Rightarrow> the (to_variant dump j) | None \<Rightarrow> Invalid)"
proof (induction srcs rule: rev_induct)
  case Nil
  then show ?case by (simp add: layered_def)
next
  case (snoc src srcs)
  show ?case
  proof (cases "map_of src key")
    case None
    then show ?thesis using snoc by (simp add: layered_snoc source_contains_def non_null_def map_add_def)
  next
    case (Some j)
    then show ?thesis using snoc to_variant_None [of dump j]
      by (cases "j = JNull") (auto simp: layered_snoc source_contains_def non_null_def map_add_def split: option.split)
  qed
qed

lemma fold_update_map_of:
  "distinct (map fst src) \<Longrightarrow> map_of (fold (\<lambda>(k, v) m. case f k v of Some q \<Rightarrow> AList.update k q m | None \<Rightarrow> m) src m) key
   = (case Option.bind (map_of src key) (f key) of Some q \<Rightarrow> Some q | None \<Rightarrow> map_of m key)"
proof (induction src arbitrary: m)
  case (Cons kv src)
  obtain k v where kv: "kv = (k, v)" by force
  have "map_of src k = None" using Cons.prems kv by (simp add: map_of_eq_None_iff)
  then show ?case using Cons kv by (auto simp: update_conv' split: option.split)
qed simp

lemma getAll_layered:
  assumes "list_all (\<lambda>src. distinct (map fst src)) (m_configSources c)"
  shows "map_of (getAll c) key = Option.bind (layered (m_configSources c) key) to_group_variant"
proof -
  have "map_of (collect Some srcs) key = Option.bind (layered srcs key) to_group_variant" if "list_all (\<lambda>src. distinct (map fst src)) srcs" for srcs
    using that
  proof (induction srcs rule: rev_induct)
    case Nil
    then show ?case by (simp add: collect_def layered_def)
  next
    case (snoc src srcs)
    then have d: "distinct (map fst src)" by simp
    have "map_of (collect Some (srcs @ [src])) key = (case Option.bind (map_of src key) to_group_variant of Some q \<Rightarrow> Some q | None \<Rightarrow> map_of (collect Some srcs) key)"
      using fold_update_map_of [OF d, of "\<lambda>_. to_group_variant" "collect Some srcs" key] by (simp add: collect_def)
    moreover have "map_of (collect Some srcs) key = Option.bind (layered srcs key) to_group_variant" using snoc by simp
    moreover have "layered (srcs @ [src]) key = (if map_of src key = None \<or> map_of src key = Some JNull then layered srcs key else map_of src key)"
      by (auto simp: layered_snoc non_null_def map_add_def split: option.split)
    ultimately show ?case using to_group_variant_None [of "the (map_of src key)"]
      by (cases "map_of src key"; cases "to_group_variant (the (map_of src key))") auto
  qed
  then show ?thesis using assms by (simp add: getAll_def)
qed

lemma group_variant_listed:
  "to_group_variant j = (case j of
     JArray vs \<Rightarrow> Some (QVariantList (map (\<lambda>v. the (to_variant dump v)) (filter (\<lambda>v. case v of JNull \<Rightarrow> False | JArray _ \<Rightarrow> False | JObject _ \<Rightarrow> False | _ \<Rightarrow> True) vs)))
   | j \<Rightarrow> to_variant dump j)"
proof (cases j)
  case (JArray vs)
  have "List.map_filter scalar vs = map (\<lambda>v. the (to_variant dump v)) (filter (\<lambda>v. case v of JNull \<Rightarrow> False | JArray _ \<Rightarrow> False | JObject _ \<Rightarrow> False | _ \<Rightarrow> True) vs)"
    by (induction vs) (auto simp: map_filter_simps to_variant_def split: json.split)
  then show ?thesis using JArray by (simp add: to_group_variant_def)
qed (simp_all add: to_group_variant_def to_variant_def)



text \<open>A value that the documentation finds behind the dots of the key is not found.\<close>

theorem config_dotted_key_not_entered:
  "getValueLocked dump (\<lambda>_. None) ''p.q'' (mk_Config\<lparr>m_configSources := [[(''p'', JObject [(''q'', JInteger 1)])]]\<rparr>) = Invalid
   \<and> lookup_spec dump (\<lambda>_. None) ''p.q'' (mk_Config\<lparr>m_configSources := [[(''p'', JObject [(''q'', JInteger 1)])]]\<rparr>) = QLongLong 1"
  by (simp add: getValueLocked_def lookup_spec_def getEnvValue_def source_contains_def documented_value_def documented_member_def to_variant_def get_int64_def)

text \<open>A JSON number above the range of 64-bit signed integers is read as a negative one.\<close>

theorem config_large_number_wraps:
  "getValueLocked dump (\<lambda>_. None) ''p'' (mk_Config\<lparr>m_configSources := [[(''p'', JInteger 18446744073709551615)]]\<rparr>) = QLongLong (- 1)"
  by (simp add: getValueLocked_def getEnvValue_def source_contains_def to_variant_def get_int64_def)

section \<open>Changing values\<close>

text \<open>The values of the setters: an integer is an \<^verbatim>\<open>int\<close>.\<close>

definition settable :: "cfg_variant \<Rightarrow> bool" where
  "settable v \<longleftrightarrow> (case v of QLongLong i \<Rightarrow> - (2 ^ 31) \<le> i \<and> i < 2 ^ 31 | _ \<Rightarrow> True)"

lemma variant_of_set: "json_of v = Some j \<Longrightarrow> settable v \<Longrightarrow> to_variant dump j = Some v \<and> j \<noteq> JNull"
  by (cases v) (auto simp: to_variant_def settable_def get_int64_def)

lemma env_frame: "m_envPrefix c = m_envPrefix d \<Longrightarrow> getEnvValue env key c = getEnvValue env key d"
  by (simp add: getEnvValue_def getEnvKey_def)

text \<open>What a setter stores is what a getter finds: after setting a key, a lookup of that key gives the value (unless an environment variable hides it),
  and a lookup of any other key gives what it gave before.\<close>

theorem config_set_get:
  assumes "json_of v = Some j" "settable v"
  shows "getValueLocked dump env key' (setValue key v c)
    = (if key' = key \<and> getEnvValue env key c = None then v else getValueLocked dump env key' c)"
proof -
  define srcs where "srcs = (if m_configSources c = [] then [[]] else m_configSources c)"
  have ne: "srcs \<noteq> []" by (simp add: srcs_def)
  have s: "m_configSources (setValue key v c) = butlast srcs @ [AList.update key j (last srcs)]"
    using assms(1) by (simp add: setValue_def notify_def setValueLocked_def srcs_def source_set_def Let_def)
  have "search_sources dump key' (rev srcs) = search_sources dump key' (rev (m_configSources c))"
    by (simp add: srcs_def source_contains_def)
  moreover have "rev srcs = last srcs # rev (butlast srcs)" using ne by (metis append_butlast_last_id rev_eq_Cons_iff rev_rev_ident)
  ultimately have "search_sources dump key' (rev (m_configSources (setValue key v c)))
    = (if key' = key then v else search_sources dump key' (rev (m_configSources c)))"
    using variant_of_set [OF assms, of dump] unfolding s by (auto simp: source_contains_def update_conv')
  moreover have "getEnvValue env key' (setValue key v c) = getEnvValue env key' c"
    by (rule env_frame) (simp add: setValue_def notify_def setValueLocked_def Let_def)
  ultimately show ?thesis by (auto simp: getValueLocked_def split: option.split)
qed

theorem config_set_get_witness:
  "getValueLocked (\<lambda>_. []) (\<lambda>_. None) ''port'' (setValue ''port'' (QLongLong 8080) mk_Config) = QLongLong 8080"
  using config_set_get [of "QLongLong 8080" "JInteger 8080" "\<lambda>_. []" "\<lambda>_. None" "''port''" "''port''" mk_Config] by (simp add: getEnvValue_def settable_def)

lemma cfg_remove_contains: "cfg_contains dump env key (cfg_remove key c) \<longleftrightarrow> getEnvValue env key c \<noteq> None"
proof -
  have "search_sources dump key (map (source_remove key) srcs) = Invalid" for srcs
    by (induction srcs) (simp_all add: source_contains_def source_remove_def delete_conv)
  then show ?thesis
    by (auto simp: cfg_contains_def getValueLocked_def cfg_remove_def getEnvValue_def getEnvKey_def rev_map split: option.split)
qed

section \<open>Reloading and saving\<close>

text \<open>A change of one watched file replaces the content of all sources by its own: whatever was loaded before, every key is looked up in that file only,
  and the keys of all other files are gone.\<close>

theorem config_reload_collapses:
  assumes "read_file path = Some (JObject o1)" "m_configSources c \<noteq> []" "getEnvValue env key c = None"
  shows "getValueLocked dump env key (onFileChanged read_file path c)
    = (case map_of o1 key of Some j \<Rightarrow> (case to_variant dump j of Some q \<Rightarrow> q | None \<Rightarrow> Invalid) | None \<Rightarrow> Invalid)"
proof -
  have "m_configSources (onFileChanged read_file path c) = replicate (length (m_configSources c)) o1"
    using assms(1) by (simp add: onFileChanged_def notify_def source_load_def map_replicate_const)
  moreover have "search_sources dump key (replicate n o1) = (if n = 0 then Invalid else case map_of o1 key of Some j \<Rightarrow> (case to_variant dump j of Some q \<Rightarrow> q | None \<Rightarrow> Invalid) | None \<Rightarrow> Invalid)" for n
    by (induction n) (auto simp: source_contains_def split: option.split)
  moreover have "getEnvValue env key (onFileChanged read_file path c) = None"
    using assms(3) env_frame [of "onFileChanged read_file path c" c] by (simp add: onFileChanged_def notify_def)
  ultimately show ?thesis using assms(2) by (simp add: getValueLocked_def)
qed

theorem config_reload_collapses_witness:
  "getValueLocked (\<lambda>_. []) (\<lambda>_. None) ''db''
     (onFileChanged (\<lambda>_. Some (JObject [(''ui'', JBoolean True)])) ''ui.json'' (mk_Config\<lparr>m_configSources := [[(''db'', JString ''x'')], [(''ui'', JBoolean False)]]\<rparr>)) = Invalid"
  using config_reload_collapses [of "\<lambda>_. Some (JObject [(''ui'', JBoolean True)])" "''ui.json''" "[(''ui'', JBoolean True)]"
      "mk_Config\<lparr>m_configSources := [[(''db'', JString ''x'')], [(''ui'', JBoolean False)]]\<rparr>" "\<lambda>_. None" "''db''" "\<lambda>_. []"]
  by (simp add: getEnvValue_def)

text \<open>Saving merges with nulls: only without them does the saved file give the same lookups.\<close>

lemma merged_map_of:
  assumes "list_all (\<lambda>src. distinct (map fst src)) srcs"
  shows "map_of (merged srcs) = foldl (\<lambda>m src. m ++ map_of src) Map.empty srcs"
  using assms
proof (induction srcs rule: rev_induct)
  case (snoc src srcs)
  have "map_of (merged (srcs @ [src])) key = (map_of (merged srcs) ++ map_of src) key" for key
    using fold_update_map_of [of src "\<lambda>k v. Some v" "merged srcs" key] snoc.prems
    by (simp add: merged_def map_add_def bind_eq_Some_conv split: option.split)
  then have "map_of (merged (srcs @ [src])) = map_of (merged srcs) ++ map_of src" by (rule ext)
  then show ?case using snoc by simp
qed (simp add: merged_def)

lemma save_reload:
  assumes "list_all (\<lambda>src. distinct (map fst src) \<and> JNull \<notin> snd ` set src) (m_configSources c)"
  shows "search_sources dump key [merged (m_configSources c)] = search_sources dump key (rev (m_configSources c))"
proof -
  have d: "list_all (\<lambda>src. distinct (map fst src)) (m_configSources c)" using assms by (auto simp: list_all_iff)
  have "non_null (map_of src) = map_of src" if "src \<in> set (m_configSources c)" for src
    using that assms by (force simp: non_null_def list_all_iff fun_eq_iff dest: map_of_SomeD)
  then have l: "layered (m_configSources c) = map_of (merged (m_configSources c))"
    unfolding layered_def merged_map_of [OF d] by (intro foldl_cong) simp_all
  have "layered (m_configSources c) k \<noteq> Some JNull" for k
  proof -
    have "layered srcs k \<noteq> Some JNull" for srcs
      by (induction srcs rule: rev_induct) (auto simp: layered_def non_null_def map_add_def split: option.splits if_splits)
    then show ?thesis .
  qed
  then show ?thesis unfolding search_sources_layered l [symmetric]
    using l to_variant_None by (auto simp: source_contains_def split: option.split)
qed

end
