(* ===== verification/SK_SecureStorage.thy ===== *)
theory SK_SecureStorage
  imports SK_Text "HOL-Library.Word"
begin

text \<open>
  The encrypted store of \<^verbatim>\<open>include/soul/auth/secure_storage.h\<close>: key derivation, the cipher, the entries in memory and the file they are written to. Text is its
  UTF-8 bytes. SHA-256 and Base64 belong to Qt and are the parameters \<open>hash\<close>, \<open>b64\<close> and \<open>unb64\<close>; random bytes and the success of opening files are arguments.
\<close>

unbundle bit_operations_syntax

type_synonym byte = "8 word"
type_synonym bytes = "byte list"

section \<open>Key derivation\<close>

definition xor_pad :: "byte \<Rightarrow> bytes \<Rightarrow> bytes" where
  "xor_pad p block = map (\<lambda>b. b XOR p) block"

definition hmacSha256 :: "(bytes \<Rightarrow> bytes) \<Rightarrow> bytes \<Rightarrow> bytes \<Rightarrow> bytes" where
  "hmacSha256 hash key msg =
     (let k1 = (if length key > 64 then hash key else key);
          keyBlock = take 64 k1 @ replicate (64 - length k1) 0;
          innerHash = hash (xor_pad 0x36 keyBlock @ msg)
      in hash (xor_pad 0x5c keyBlock @ innerHash))"

definition xor_bytes :: "bytes \<Rightarrow> bytes \<Rightarrow> bytes" where
  "xor_bytes t u = map (\<lambda>j. t ! j XOR u ! j) [0..<length t]"

text \<open>The inner loop, \<open>n\<close> more rounds.\<close>

fun pbkdf2_rounds :: "(bytes \<Rightarrow> bytes) \<Rightarrow> bytes \<Rightarrow> nat \<Rightarrow> bytes \<Rightarrow> bytes \<Rightarrow> bytes" where
  "pbkdf2_rounds hash password 0 u t = t"
| "pbkdf2_rounds hash password (Suc n) u t =
     (let u1 = hmacSha256 hash password u in pbkdf2_rounds hash password n u1 (xor_bytes t u1))"

definition be32 :: "nat \<Rightarrow> bytes" where
  "be32 i = map (\<lambda>k. word_of_nat (i div 2 ^ k)) [24, 16, 8, 0]"

definition pbkdf2_block :: "(bytes \<Rightarrow> bytes) \<Rightarrow> bytes \<Rightarrow> bytes \<Rightarrow> nat \<Rightarrow> nat \<Rightarrow> bytes" where
  "pbkdf2_block hash password salt iterations blockIndex =
     (let u = hmacSha256 hash password (salt @ be32 blockIndex) in pbkdf2_rounds hash password (iterations - 1) u u)"

text \<open>The outer loop; it would not end for a hash of no length.\<close>

partial_function (option) pbkdf2_loop :: "(bytes \<Rightarrow> bytes) \<Rightarrow> bytes \<Rightarrow> bytes \<Rightarrow> nat \<Rightarrow> nat \<Rightarrow> nat \<Rightarrow> bytes \<Rightarrow> bytes option" where
  [code]: "pbkdf2_loop hash password salt iterations keyLength blockIndex derived =
     (if length derived \<ge> keyLength then Some derived
      else let t = pbkdf2_block hash password salt iterations blockIndex
           in pbkdf2_loop hash password salt iterations keyLength (blockIndex + 1) (derived @ take (min (length t) (keyLength - length derived)) t))"

definition pbkdf2Derive :: "(bytes \<Rightarrow> bytes) \<Rightarrow> bytes \<Rightarrow> bytes \<Rightarrow> nat \<Rightarrow> nat \<Rightarrow> bytes option" where
  "pbkdf2Derive hash password salt iterations keyLength = pbkdf2_loop hash password salt iterations keyLength 1 []"

section \<open>The cipher\<close>

definition xorEncrypt :: "bytes \<Rightarrow> bytes \<Rightarrow> bytes \<Rightarrow> bytes" where
  "xorEncrypt msg key iv = map (\<lambda>i. msg ! i XOR key ! (i mod length key) XOR iv ! (i mod length iv)) [0..<length msg]"

definition xorDecrypt :: "bytes \<Rightarrow> bytes \<Rightarrow> bytes \<Rightarrow> bytes" where
  "xorDecrypt msg key iv = xorEncrypt msg key iv"

definition encrypt :: "(bytes \<Rightarrow> bytes) \<Rightarrow> bytes \<Rightarrow> bytes \<Rightarrow> bytes \<Rightarrow> bytes" where
  "encrypt b64 key iv plaintext = b64 (iv @ xorEncrypt plaintext key iv)"

definition decrypt :: "(bytes \<Rightarrow> bytes) \<Rightarrow> bytes \<Rightarrow> bytes \<Rightarrow> bytes" where
  "decrypt unb64 key encrypted =
     (let raw = unb64 encrypted in if length raw < 16 then [] else xorDecrypt (drop 16 raw) key (take 16 raw))"

section \<open>The store\<close>

record disk =
  d_dir :: bool
  d_salt :: "bytes option"
  d_tokens :: "bytes option"

record secure_store =
  ss_masterPassword :: bytes
  ss_encryptionKey :: bytes
  ss_entries :: "(bytes \<times> bytes) list"
  ss_disk :: disk

definition mk_AesSecureStorage :: "bytes \<Rightarrow> disk \<Rightarrow> secure_store" where
  "mk_AesSecureStorage password dsk = \<lparr>ss_masterPassword = password, ss_encryptionKey = [], ss_entries = [], ss_disk = dsk\<rparr>"

abbreviation colon :: byte where "colon \<equiv> 58"
abbreviation newline :: byte where "newline \<equiv> 10"

text \<open>
  \<open>d_dir\<close> says that the directory of the files exists: a file is not created in a directory that does not. The salt is read, or made and written if its file can be
  opened; this comes before \<open>init\<close> makes the directory.
\<close>

definition deriveKey :: "(bytes \<Rightarrow> bytes) \<Rightarrow> bytes \<Rightarrow> bool \<Rightarrow> secure_store \<Rightarrow> secure_store option" where
  "deriveKey hash random canWrite s =
     (let (salt, dsk) = (case d_salt (ss_disk s) of
            Some salt \<Rightarrow> (salt, ss_disk s)
          | None \<Rightarrow> (random, if canWrite \<and> d_dir (ss_disk s) then (ss_disk s)\<lparr>d_salt := Some random\<rparr> else ss_disk s))
      in map_option (\<lambda>key. s\<lparr>ss_encryptionKey := key, ss_disk := dsk\<rparr>) (pbkdf2Derive hash (ss_masterPassword s) salt 100000 32))"

definition render_entries :: "(bytes \<Rightarrow> bytes) \<Rightarrow> (bytes \<times> bytes) list \<Rightarrow> bytes" where
  "render_entries b64 es = concat (map (\<lambda>(k, v). b64 k @ [colon] @ v @ [newline]) es)"

definition persistToDisk :: "(bytes \<Rightarrow> bytes) \<Rightarrow> bool \<Rightarrow> secure_store \<Rightarrow> unit result \<times> secure_store" where
  "persistToDisk b64 canOpen s =
     (if \<not> (canOpen \<and> d_dir (ss_disk s)) then (Err (mk_error EC_FileWriteError ''Failed to open secure storage file''), s)
      else (Ok (), s\<lparr>ss_disk := (ss_disk s)\<lparr>d_tokens := Some (render_entries b64 (ss_entries s))\<rparr>\<rparr>))"

definition load_line :: "(bytes \<Rightarrow> bytes) \<Rightarrow> bytes \<Rightarrow> (bytes \<times> bytes) list \<Rightarrow> (bytes \<times> bytes) list" where
  "load_line unb64 line es =
     (if line = [] \<or> colon \<notin> set line then es
      else AList.update (unb64 (takeWhile (\<lambda>c. c \<noteq> colon) line)) (tl (dropWhile (\<lambda>c. c \<noteq> colon) line)) es)"

definition loadFromDisk :: "(bytes \<Rightarrow> bytes) \<Rightarrow> secure_store \<Rightarrow> secure_store" where
  "loadFromDisk unb64 s =
     (case d_tokens (ss_disk s) of
        None \<Rightarrow> s
      | Some content \<Rightarrow> s\<lparr>ss_entries := fold (load_line unb64) (split_all newline content) (ss_entries s)\<rparr>)"

definition ss_init :: "(bytes \<Rightarrow> bytes) \<Rightarrow> (bytes \<Rightarrow> bytes) \<Rightarrow> bytes \<Rightarrow> bool \<Rightarrow> bool \<Rightarrow> secure_store \<Rightarrow> (unit result \<times> secure_store) option" where
  "ss_init hash unb64 random canWrite pathOk s =
     map_option (\<lambda>s1. if \<not> pathOk then (Err (mk_error EC_FileError ''Failed to create secure storage directory''), s1) else (Ok (), loadFromDisk unb64 (s1\<lparr>ss_disk := (ss_disk s1)\<lparr>d_dir := True\<rparr>\<rparr>)))
       (deriveKey hash random canWrite s)"

definition ss_store :: "(bytes \<Rightarrow> bytes) \<Rightarrow> bytes \<Rightarrow> bool \<Rightarrow> bytes \<Rightarrow> bytes \<Rightarrow> secure_store \<Rightarrow> unit result \<times> secure_store" where
  "ss_store b64 iv canOpen key v s =
     (if ss_encryptionKey s = [] then (Err (mk_error EC_InvalidState ''SecureStorage not initialized''), s)
      else persistToDisk b64 canOpen (s\<lparr>ss_entries := AList.update key (encrypt b64 (ss_encryptionKey s) iv v) (ss_entries s)\<rparr>))"

definition ss_retrieve :: "(bytes \<Rightarrow> bytes) \<Rightarrow> bytes \<Rightarrow> secure_store \<Rightarrow> bytes result" where
  "ss_retrieve unb64 key s =
     (if ss_encryptionKey s = [] then Err (mk_error EC_InvalidState ''SecureStorage not initialized'')
      else case map_of (ss_entries s) key of
        None \<Rightarrow> Err (mk_error EC_NotFound ''Key not found in secure storage'')
      | Some e \<Rightarrow> Ok (decrypt unb64 (ss_encryptionKey s) e))"

definition ss_remove :: "(bytes \<Rightarrow> bytes) \<Rightarrow> bool \<Rightarrow> bytes \<Rightarrow> secure_store \<Rightarrow> unit result \<times> secure_store" where
  "ss_remove b64 canOpen key s = persistToDisk b64 canOpen (s\<lparr>ss_entries := AList.delete key (ss_entries s)\<rparr>)"

definition ss_clear :: "(bytes \<Rightarrow> bytes) \<Rightarrow> bool \<Rightarrow> secure_store \<Rightarrow> unit result \<times> secure_store" where
  "ss_clear b64 canOpen s = persistToDisk b64 canOpen (s\<lparr>ss_entries := []\<rparr>)"

text \<open>\<open>shutdown\<close> overwrites the bytes of the key and keeps their number.\<close>

definition ss_shutdown :: "secure_store \<Rightarrow> secure_store" where
  "ss_shutdown s = s\<lparr>ss_encryptionKey := replicate (length (ss_encryptionKey s)) 0, ss_entries := []\<rparr>"

definition ss_contains :: "bytes \<Rightarrow> secure_store \<Rightarrow> bool" where
  "ss_contains key s \<longleftrightarrow> map_of (ss_entries s) key \<noteq> None"

section \<open>Deriving a key ends\<close>

lemma hmac_length: "(\<And>x. length (hash x) = 32) \<Longrightarrow> length (hmacSha256 hash key msg) = 32"
  by (simp add: hmacSha256_def Let_def)

lemma xor_bytes_length [simp]: "length (xor_bytes t u) = length t"
  by (simp add: xor_bytes_def)

lemma pbkdf2_rounds_length: "length (pbkdf2_rounds hash password n u t) = length t"
  by (induction n arbitrary: u t) (simp_all add: Let_def)

lemma pbkdf2_block_length: "(\<And>x. length (hash x) = 32) \<Longrightarrow> length (pbkdf2_block hash password salt n i) = 32"
  by (simp add: pbkdf2_block_def pbkdf2_rounds_length hmac_length Let_def)

lemma pbkdf2_loop_returns:
  assumes h: "\<And>x. length (hash x) = 32"
  shows "length derived \<le> keyLength \<Longrightarrow> \<exists>k. pbkdf2_loop hash password salt n keyLength i derived = Some k \<and> length k = keyLength"
proof (induction "keyLength - length derived" arbitrary: derived i rule: less_induct)
  case less
  show ?case
  proof (cases "length derived \<ge> keyLength")
    case True
    then show ?thesis using less.prems by (subst pbkdf2_loop.simps) simp
  next
    case False
    let ?t = "pbkdf2_block hash password salt n i"
    let ?d = "derived @ take (min (length ?t) (keyLength - length derived)) ?t"
    have "keyLength - length ?d < keyLength - length derived" "length ?d \<le> keyLength" using False pbkdf2_block_length [OF h] by simp_all
    from less.hyps [OF this] show ?thesis using False by (subst pbkdf2_loop.simps) (simp add: Let_def)
  qed
qed

lemma pbkdf2_returns: "(\<And>x. length (hash x) = 32) \<Longrightarrow> \<exists>k. pbkdf2Derive hash password salt n m = Some k \<and> length k = m"
  using pbkdf2_loop_returns [of hash "[]" m] by (simp add: pbkdf2Derive_def)

section \<open>The cipher is an exclusive or\<close>

lemma xorEncrypt_length [simp]: "length (xorEncrypt msg key iv) = length msg"
  by (simp add: xorEncrypt_def)

lemma xorEncrypt_nth: "i < length msg \<Longrightarrow> xorEncrypt msg key iv ! i = msg ! i XOR key ! (i mod length key) XOR iv ! (i mod length iv)"
  by (simp add: xorEncrypt_def)

lemma xor_twice: "(a XOR b XOR c) XOR b XOR c = (a :: byte)"
  by (simp add: xor.assoc xor.commute xor.left_commute)

lemma xorDecrypt_encrypt: "xorDecrypt (xorEncrypt msg key iv) key iv = msg"
  by (rule nth_equalityI) (simp_all add: xorDecrypt_def xorEncrypt_nth xor_twice)

lemma decrypt_encrypt: "unb64 (b64 (iv @ xorEncrypt v key iv)) = iv @ xorEncrypt v key iv \<Longrightarrow> length iv = 16 \<Longrightarrow> decrypt unb64 key (encrypt b64 key iv v) = v"
  by (simp add: decrypt_def encrypt_def Let_def xorDecrypt_encrypt)

text \<open>The cipher hides nothing from who knows one entry: the bytes of any entry's value follow from its stored form, the stored form of another entry and
  that other entry's value, if that is at least as long as the key; the key itself is not needed.\<close>

theorem secure_known_plaintext:
  assumes "length key = 32" "length iv1 = 16" "length iv2 = 16" "32 \<le> length known"
    and c1: "c1 = xorEncrypt known key iv1" and c2: "c2 = xorEncrypt secret key iv2"
  shows "secret = map (\<lambda>i. c2 ! i XOR iv2 ! (i mod 16) XOR (c1 ! (i mod 32) XOR iv1 ! (i mod 16) XOR known ! (i mod 32))) [0..<length c2]"
proof (rule nth_equalityI)
  show "length secret = length (map (\<lambda>i. c2 ! i XOR iv2 ! (i mod 16) XOR (c1 ! (i mod 32) XOR iv1 ! (i mod 16) XOR known ! (i mod 32))) [0..<length c2])" using c2 by simp
  fix i assume i: "i < length secret"
  have k: "i mod 32 < length known" using assms(4) by (meson less_le_trans mod_less_divisor zero_less_numeral)
  have "i mod 32 mod 16 = i mod 16" by (simp add: mod_mod_cancel)
  then have "c1 ! (i mod 32) = known ! (i mod 32) XOR key ! (i mod 32) XOR iv1 ! (i mod 16)" using assms(1,2) k c1 by (simp add: xorEncrypt_nth)
  moreover have "c2 ! i = secret ! i XOR key ! (i mod 32) XOR iv2 ! (i mod 16)" using assms(1,3) i c2 by (simp add: xorEncrypt_nth)
  ultimately show "secret ! i = map (\<lambda>i. c2 ! i XOR iv2 ! (i mod 16) XOR (c1 ! (i mod 32) XOR iv1 ! (i mod 16) XOR known ! (i mod 32))) [0..<length c2] ! i"
    using i c2 by (simp add: xor.assoc xor.commute xor.left_commute)
qed

theorem secure_known_plaintext_witness:
  "replicate 3 9 = map (\<lambda>i. xorEncrypt (replicate 3 9) (replicate 32 7) (replicate 16 2) ! i XOR replicate 16 2 ! (i mod 16)
     XOR (xorEncrypt (replicate 40 5) (replicate 32 7) (replicate 16 1) ! (i mod 32) XOR replicate 16 1 ! (i mod 16) XOR replicate 40 5 ! (i mod 32)))
       [0..<length (xorEncrypt (replicate 3 9) (replicate 32 7) (replicate 16 2))]"
  by (rule secure_known_plaintext [OF _ _ _ _ refl refl, of "replicate 32 7"]) simp_all

section \<open>The file\<close>

text \<open>What is used of Base64: it can be undone, and its letters are neither colons nor line breaks.\<close>

definition b64_contract :: "(bytes \<Rightarrow> bytes) \<Rightarrow> (bytes \<Rightarrow> bytes) \<Rightarrow> bool" where
  "b64_contract b64 unb64 \<longleftrightarrow> (\<forall>x. unb64 (b64 x) = x \<and> colon \<notin> set (b64 x) \<and> newline \<notin> set (b64 x))"

definition parse_file :: "(bytes \<Rightarrow> bytes) \<Rightarrow> bytes option \<Rightarrow> (bytes \<times> bytes) list" where
  "parse_file unb64 f = (case f of None \<Rightarrow> [] | Some content \<Rightarrow> fold (load_line unb64) (split_all newline content) [])"

definition entries_ok :: "(bytes \<times> bytes) list \<Rightarrow> bool" where
  "entries_ok es \<longleftrightarrow> distinct (map fst es) \<and> (\<forall>v \<in> snd ` set es. newline \<notin> set v)"

lemma update_new: "k \<notin> fst ` set es \<Longrightarrow> AList.update k v es = es @ [(k, v)]"
  by (induction es) auto

lemma load_line_rendered:
  assumes "b64_contract b64 unb64"
  shows "load_line unb64 (b64 k @ colon # v) es = AList.update k v es"
proof -
  have c: "colon \<notin> set (b64 k)" "unb64 (b64 k) = k" using assms by (auto simp: b64_contract_def)
  have "takeWhile (\<lambda>c. c \<noteq> colon) (b64 k @ colon # v) = b64 k" "dropWhile (\<lambda>c. c \<noteq> colon) (b64 k @ colon # v) = colon # v"
    using c(1) by (auto simp: takeWhile_append dropWhile_append)
  then show ?thesis using c(2) by (simp add: load_line_def)
qed

lemma load_rendered:
  assumes "b64_contract b64 unb64"
  shows "distinct (map fst (es @ fs)) \<Longrightarrow> (\<forall>v \<in> snd ` set fs. newline \<notin> set v) \<Longrightarrow> fold (load_line unb64) (split_all newline (render_entries b64 fs)) es = es @ fs"
proof (induction fs arbitrary: es)
  case Nil
  then show ?case by (simp add: render_entries_def load_line_def)
next
  case (Cons kv fs)
  obtain k v where kv: "kv = (k, v)" by force
  have "newline \<notin> set (b64 k @ colon # v)" using assms Cons.prems(2) kv by (auto simp: b64_contract_def)
  then have "split_all newline (render_entries b64 (kv # fs)) = (b64 k @ colon # v) # split_all newline (render_entries b64 fs)"
    using split_all_append [of newline "b64 k @ colon # v" "render_entries b64 fs"] kv by (simp add: render_entries_def)
  moreover have "AList.update k v es = es @ [kv]" using Cons.prems(1) kv by (subst update_new) (auto simp: image_iff)
  ultimately show ?case using Cons.IH [of "es @ [kv]"] Cons.prems load_line_rendered [OF assms] by simp
qed

lemma parse_rendered_file: "b64_contract b64 unb64 \<Longrightarrow> entries_ok es \<Longrightarrow> parse_file unb64 (Some (render_entries b64 es)) = es"
  using load_rendered [of b64 unb64 "[]" es] by (simp add: parse_file_def entries_ok_def)

lemma entries_ok_update: "entries_ok es \<Longrightarrow> newline \<notin> set v \<Longrightarrow> entries_ok (AList.update k v es)"
  using distinct_update [of es k v] by (induction es) (auto simp: entries_ok_def split: if_splits)

lemma entries_ok_delete: "entries_ok es \<Longrightarrow> entries_ok (AList.delete k es)"
  using distinct_delete [of es k] by (auto simp: entries_ok_def AList.delete_eq)

lemma entries_ok_parsed: "entries_ok (parse_file unb64 f)"
proof -
  have "entries_ok (fold (load_line unb64) ls es)" if "entries_ok es" "\<forall>l \<in> set ls. newline \<notin> set l" for ls es
    using that
  proof (induction ls arbitrary: es)
    case (Cons l ls)
    have "newline \<notin> set (tl (dropWhile (\<lambda>c. c \<noteq> colon) l))"
      using Cons.prems(2) set_dropWhileD list.set_sel(2) by (metis list.set_intros(1) list.sel(2))
    then have "entries_ok (load_line unb64 l es)" using Cons.prems(1) entries_ok_update by (simp add: load_line_def)
    then show ?case using Cons by simp
  qed simp
  from this [of "[]"] have "entries_ok (fold (load_line unb64) (split_all newline content) [])" for content
    using split_all_avoids by (metis distinct.simps(1) empty_iff empty_set entries_ok_def image_empty list.simps(8))
  moreover have "entries_ok []" by (simp add: entries_ok_def)
  ultimately show ?thesis by (cases f) (simp_all only: parse_file_def option.case)
qed

section \<open>What survives a restart\<close>

datatype ss_op = Store bytes bytes bytes | Remove bytes | Clear

text \<open>Operations whose file can be opened.\<close>

fun ss_exec :: "(bytes \<Rightarrow> bytes) \<Rightarrow> ss_op \<Rightarrow> secure_store \<Rightarrow> secure_store" where
  "ss_exec b64 (Store iv k v) s = snd (ss_store b64 iv True k v s)"
| "ss_exec b64 (Remove k) s = snd (ss_remove b64 True k s)"
| "ss_exec b64 Clear s = snd (ss_clear b64 True s)"

fun op_ok :: "ss_op \<Rightarrow> bool" where
  "op_ok (Store iv k v) \<longleftrightarrow> length iv = 16"
| "op_ok _ = True"

text \<open>The specification: a map from keys to plain values.\<close>

fun spec_op :: "ss_op \<Rightarrow> (bytes \<rightharpoonup> bytes) \<Rightarrow> (bytes \<rightharpoonup> bytes)" where
  "spec_op (Store iv k v) m = m(k \<mapsto> v)"
| "spec_op (Remove k) m = m(k := None)"
| "spec_op Clear m = Map.empty"

definition plain :: "(bytes \<Rightarrow> bytes) \<Rightarrow> secure_store \<Rightarrow> (bytes \<rightharpoonup> bytes)" where
  "plain unb64 s = (\<lambda>k. map_option (decrypt unb64 (ss_encryptionKey s)) (map_of (ss_entries s) k))"

definition ss_inv :: "(bytes \<Rightarrow> bytes) \<Rightarrow> (bytes \<Rightarrow> bytes) \<Rightarrow> bytes \<Rightarrow> secure_store \<Rightarrow> bool" where
  "ss_inv hash unb64 password s \<longleftrightarrow> d_dir (ss_disk s) \<and> ss_encryptionKey s \<noteq> [] \<and> entries_ok (ss_entries s) \<and> parse_file unb64 (d_tokens (ss_disk s)) = ss_entries s
     \<and> (\<exists>salt. d_salt (ss_disk s) = Some salt \<and> pbkdf2Derive hash password salt 100000 32 = Some (ss_encryptionKey s))"

lemma persist_inv:
  assumes "b64_contract b64 unb64" "ss_inv hash unb64 password s" "entries_ok es"
  shows "ss_inv hash unb64 password (snd (persistToDisk b64 True (s\<lparr>ss_entries := es\<rparr>)))"
  using assms parse_rendered_file [OF assms(1,3)] by (simp add: ss_inv_def persistToDisk_def)

lemma ss_exec_refines:
  assumes b: "b64_contract b64 unb64" and i: "ss_inv hash unb64 password s" and ok: "op_ok ev"
  shows "ss_inv hash unb64 password (ss_exec b64 ev s) \<and> plain unb64 (ss_exec b64 ev s) = spec_op ev (plain unb64 s)"
proof (cases ev)
  case (Store iv k v)
  let ?e = "encrypt b64 (ss_encryptionKey s) iv v"
  have n: "newline \<notin> set ?e" using b by (simp add: encrypt_def b64_contract_def)
  have d: "decrypt unb64 (ss_encryptionKey s) ?e = v" by (rule decrypt_encrypt) (use b ok Store in \<open>simp_all add: b64_contract_def\<close>)
  have "ss_encryptionKey s \<noteq> []" using i by (simp add: ss_inv_def)
  then have x: "ss_exec b64 ev s = snd (persistToDisk b64 True (s\<lparr>ss_entries := AList.update k ?e (ss_entries s)\<rparr>))" using Store by (simp add: ss_store_def)
  have "entries_ok (AList.update k ?e (ss_entries s))" using i n entries_ok_update by (simp add: ss_inv_def)
  then show ?thesis using persist_inv [OF b i] d unfolding x by (auto simp: plain_def persistToDisk_def update_conv' Store fun_eq_iff)
next
  case (Remove k)
  have "entries_ok (AList.delete k (ss_entries s))" using i entries_ok_delete by (simp add: ss_inv_def)
  then show ?thesis using persist_inv [OF b i] Remove by (auto simp: plain_def ss_remove_def persistToDisk_def delete_conv' fun_eq_iff)
next
  case Clear
  have "entries_ok []" by (simp add: entries_ok_def)
  then show ?thesis using persist_inv [OF b i] Clear by (auto simp: plain_def ss_clear_def persistToDisk_def fun_eq_iff)
qed

lemma init_returns:
  assumes h: "\<And>x. length (hash x) = 32"
  obtains key where "pbkdf2Derive hash password (case d_salt dsk of Some x \<Rightarrow> x | None \<Rightarrow> random) 100000 32 = Some key" "length key = 32" "key \<noteq> []"
    "ss_init hash unb64 random True True (mk_AesSecureStorage password dsk) = Some (Ok (),
       \<lparr>ss_masterPassword = password, ss_encryptionKey = key, ss_entries = parse_file unb64 (d_tokens dsk),
        ss_disk = \<lparr>d_dir = True, d_salt = (if d_dir dsk \<and> d_salt dsk = None then Some random else d_salt dsk), d_tokens = d_tokens dsk\<rparr>\<rparr>)"
proof -
  obtain key where k: "pbkdf2Derive hash password (case d_salt dsk of Some x \<Rightarrow> x | None \<Rightarrow> random) 100000 32 = Some key" "length key = 32"
    using pbkdf2_returns [of hash password "case d_salt dsk of Some x \<Rightarrow> x | None \<Rightarrow> random" 100000 32] h by blast
  have "key \<noteq> []" using k(2) by auto
  show ?thesis
    by (rule that [OF k \<open>key \<noteq> []\<close>], use k(1) in \<open>cases "d_salt dsk"; cases "d_tokens dsk"; cases dsk\<close>)
      (simp_all add: ss_init_def deriveKey_def mk_AesSecureStorage_def loadFromDisk_def parse_file_def)
qed

lemma restart_same:
  assumes "\<And>x. length (hash x) = 32" "ss_inv hash unb64 password s"
  shows "\<exists>s'. ss_init hash unb64 random True True (mk_AesSecureStorage password (ss_disk s)) = Some (Ok (), s')
    \<and> ss_encryptionKey s' = ss_encryptionKey s \<and> ss_entries s' = ss_entries s"
proof -
  from assms(2) obtain salt where i: "d_salt (ss_disk s) = Some salt" "pbkdf2Derive hash password salt 100000 32 = Some (ss_encryptionKey s)"
    "parse_file unb64 (d_tokens (ss_disk s)) = ss_entries s" by (auto simp: ss_inv_def)
  show ?thesis by (rule init_returns [where hash = hash and password = password and dsk = "ss_disk s" and random = random and ?unb64.0 = unb64, OF assms(1)]) (use i in simp)
qed

lemma retrieve_plain:
  assumes "ss_encryptionKey s \<noteq> []"
  shows "ss_retrieve unb64 k s = (case plain unb64 s k of Some v \<Rightarrow> Ok v | None \<Rightarrow> Err (mk_error EC_NotFound ''Key not found in secure storage''))"
  using assms by (simp add: ss_retrieve_def plain_def split: option.split)



text \<open>A code for the examples that keeps the contract: every byte in unary, with a letter to end it.\<close>

definition tally :: "bytes \<Rightarrow> bytes" where
  "tally bs = concat (map (\<lambda>b. replicate (unat b) 65 @ [66]) bs)"

fun untally :: "byte \<Rightarrow> bytes \<Rightarrow> bytes" where
  "untally n [] = []"
| "untally n (c # cs) = (if c = 65 then untally (n + 1) cs else n # untally 0 cs)"

lemma untally_replicate: "untally n (replicate m 65 @ 66 # rest) = (n + of_nat m) # untally 0 rest"
  by (induction m arbitrary: n) (simp_all add: algebra_simps)

lemma tally_contract: "b64_contract tally (untally 0)"
proof -
  have "untally 0 (tally x) = x" for x by (induction x) (simp_all add: tally_def untally_replicate)
  moreover have "set (tally x) \<subseteq> {65, 66}" for x by (auto simp: tally_def)
  ultimately show ?thesis by (force simp: b64_contract_def)
qed


section \<open>The first run\<close>

text \<open>On a machine where the store was never used its directory does not exist when the salt is to be written, so that it is lost: the value stored in the first
  run reads back in the second as its exclusive or with both runs' keys, which are derived from two independent random salts.\<close>

theorem secure_first_run_unreadable:
  assumes b: "b64_contract b64 unb64" and h: "\<And>x. length (hash x) = 32" and "length iv = 16"
  shows "\<exists>s s' key1 key2. pbkdf2Derive hash password random 100000 32 = Some key1 \<and> pbkdf2Derive hash password random2 100000 32 = Some key2
    \<and> ss_init hash unb64 random True True (mk_AesSecureStorage password \<lparr>d_dir = False, d_salt = None, d_tokens = None\<rparr>) = Some (Ok (), s)
    \<and> fst (ss_store b64 iv True k v s) = Ok ()
    \<and> ss_init hash unb64 random2 True True (mk_AesSecureStorage password (ss_disk (snd (ss_store b64 iv True k v s)))) = Some (Ok (), s')
    \<and> ss_retrieve unb64 k s' = Ok (map (\<lambda>i. v ! i XOR key1 ! (i mod 32) XOR key2 ! (i mod 32)) [0..<length v])"
proof -
  let ?d = "\<lparr>d_dir = False, d_salt = None, d_tokens = None\<rparr>"
  obtain key1 where 1: "pbkdf2Derive hash password random 100000 32 = Some key1" "length key1 = 32" "key1 \<noteq> []"
    "ss_init hash unb64 random True True (mk_AesSecureStorage password ?d) = Some (Ok (), \<lparr>ss_masterPassword = password, ss_encryptionKey = key1,
       ss_entries = [], ss_disk = \<lparr>d_dir = True, d_salt = None, d_tokens = None\<rparr>\<rparr>)"
    by (rule init_returns [where hash = hash and password = password and dsk = ?d and random = random and ?unb64.0 = unb64, OF h]) (simp add: parse_file_def)
  let ?e = "encrypt b64 key1 iv v"
  let ?d2 = "\<lparr>d_dir = True, d_salt = None, d_tokens = Some (render_entries b64 [(k, ?e)])\<rparr>"
  have st: "ss_store b64 iv True k v \<lparr>ss_masterPassword = password, ss_encryptionKey = key1, ss_entries = [], ss_disk = \<lparr>d_dir = True, d_salt = None, d_tokens = None\<rparr>\<rparr>
      = (Ok (), \<lparr>ss_masterPassword = password, ss_encryptionKey = key1, ss_entries = [(k, ?e)], ss_disk = ?d2\<rparr>)"
    using 1(3) by (simp add: ss_store_def persistToDisk_def)
  have "entries_ok [(k, ?e)]" using b by (simp add: entries_ok_def encrypt_def b64_contract_def)
  then have p: "parse_file unb64 (d_tokens ?d2) = [(k, ?e)]" using parse_rendered_file [OF b] by simp
  obtain key2 where 2: "pbkdf2Derive hash password random2 100000 32 = Some key2" "length key2 = 32" "key2 \<noteq> []"
    "ss_init hash unb64 random2 True True (mk_AesSecureStorage password ?d2) = Some (Ok (), \<lparr>ss_masterPassword = password, ss_encryptionKey = key2,
       ss_entries = [(k, ?e)], ss_disk = \<lparr>d_dir = True, d_salt = Some random2, d_tokens = d_tokens ?d2\<rparr>\<rparr>)"
    by (rule init_returns [where hash = hash and password = password and dsk = ?d2 and random = random2 and ?unb64.0 = unb64, OF h]) (simp add: p [simplified])
  have "unb64 ?e = iv @ xorEncrypt v key1 iv" using b by (simp add: encrypt_def b64_contract_def)
  then have "decrypt unb64 key2 ?e = xorEncrypt (xorEncrypt v key1 iv) key2 iv" using assms(3) by (simp add: decrypt_def xorDecrypt_def Let_def)
  moreover have "xorEncrypt (xorEncrypt v key1 iv) key2 iv = map (\<lambda>i. v ! i XOR key1 ! (i mod 32) XOR key2 ! (i mod 32)) [0..<length v]"
    by (rule nth_equalityI) (simp_all add: xorEncrypt_nth 1(2) 2(2) xor.assoc xor.commute xor.left_commute)
  ultimately have "ss_retrieve unb64 k \<lparr>ss_masterPassword = password, ss_encryptionKey = key2, ss_entries = [(k, ?e)],
      ss_disk = \<lparr>d_dir = True, d_salt = Some random2, d_tokens = d_tokens ?d2\<rparr>\<rparr> = Ok (map (\<lambda>i. v ! i XOR key1 ! (i mod 32) XOR key2 ! (i mod 32)) [0..<length v])"
    using 2(3) by (simp add: ss_retrieve_def)
  then show ?thesis using 1(1,4) 2(1,4) st by auto
qed

theorem secure_first_run_unreadable_witness:
  "\<exists>s s' key1 key2. pbkdf2Derive (\<lambda>x. replicate 32 1) [9] [1] 100000 32 = Some key1 \<and> pbkdf2Derive (\<lambda>x. replicate 32 1) [9] [2] 100000 32 = Some key2
    \<and> ss_init (\<lambda>x. replicate 32 1) (untally 0) [1] True True (mk_AesSecureStorage [9] \<lparr>d_dir = False, d_salt = None, d_tokens = None\<rparr>) = Some (Ok (), s)
    \<and> fst (ss_store tally (replicate 16 3) True [7] [8] s) = Ok ()
    \<and> ss_init (\<lambda>x. replicate 32 1) (untally 0) [2] True True (mk_AesSecureStorage [9] (ss_disk (snd (ss_store tally (replicate 16 3) True [7] [8] s)))) = Some (Ok (), s')
    \<and> ss_retrieve (untally 0) [7] s' = Ok (map (\<lambda>i. [8] ! i XOR key1 ! (i mod 32) XOR key2 ! (i mod 32)) [0..<length [8 :: byte]])"
  by (rule secure_first_run_unreadable [OF tally_contract]) simp_all

text \<open>After \<open>shutdown\<close> the key is thirty-two zeroes and not empty, so that a store goes on with no secret in its key; reading needs nothing but the file.\<close>

theorem secure_store_after_shutdown:
  assumes "length (ss_encryptionKey s) = 32" "d_dir (ss_disk s)" "length iv = 16"
  shows "ss_store b64 iv True k v (ss_shutdown s)
    = (Ok (), (ss_shutdown s)\<lparr>ss_entries := [(k, b64 (iv @ map (\<lambda>i. v ! i XOR iv ! (i mod 16)) [0..<length v]))],
        ss_disk := (ss_disk s)\<lparr>d_tokens := Some (render_entries b64 [(k, b64 (iv @ map (\<lambda>i. v ! i XOR iv ! (i mod 16)) [0..<length v]))])\<rparr>\<rparr>)"
proof -
  have "replicate (length (ss_encryptionKey s)) (0 :: byte) \<noteq> []" using assms(1) by (metis length_replicate list.size(3) zero_neq_numeral)
  moreover have "xorEncrypt v (replicate 32 0) iv = map (\<lambda>i. v ! i XOR iv ! (i mod 16)) [0..<length v]"
    using assms(3) by (intro nth_equalityI) (simp_all add: xorEncrypt_nth)
  ultimately show ?thesis using assms(1,2) by (simp add: ss_store_def ss_shutdown_def persistToDisk_def encrypt_def)
qed

end
