(* ===== verification/SK_TokenManager.thy ===== *)
theory SK_TokenManager
  imports SK_Config SK_Int32 SK_SecureStorage
begin

text \<open>
  The token manager of \<^verbatim>\<open>src/soul/auth/token_manager.cpp\<close> and its use of a secure store. A text is the bytes of its UTF-8 form. Base64 and JSON parsing belong to Qt
  and the JSON library and are the parameters \<open>unb64\<close> and \<open>parse\<close>; the secure store is reached through an interface, so that its operations are parameters
  as well, here and in \<open>ISecureStorage\<close>. The clock is an argument. A claim of the wrong JSON type makes the JSON library throw: \<open>None\<close>, or a flag that is set,
  stands for the exception.
\<close>

section \<open>Claims\<close>

text \<open>
  \<^verbatim>\<open>m_jwtPayload.value(claim, 0)\<close>: the default is an \<^verbatim>\<open>int\<close>, so that the claim is converted to one, whatever the type of the variable that takes it. A number
  with a fraction loses it; one that no \<^verbatim>\<open>int\<close> can hold is undefined in C++ and not meant here.
\<close>

definition claim_int :: "(string \<times> json) list \<Rightarrow> string \<Rightarrow> int option" where
  "claim_int payload claim =
     (case map_of payload claim of
        None \<Rightarrow> Some 0
      | Some (JInteger i) \<Rightarrow> Some (to_int32 i)
      | Some (JFloat x) \<Rightarrow> Some (to_int32 (if x < 0 then \<lceil>x\<rceil> else \<lfloor>x\<rfloor>))
      | Some (JBoolean b) \<Rightarrow> Some (of_bool b)
      | Some _ \<Rightarrow> None)"

definition getString :: "(string \<times> json) list \<Rightarrow> string \<Rightarrow> string" where
  "getString payload key = (case map_of payload key of Some (JString s) \<Rightarrow> s | _ \<Rightarrow> [])"

section \<open>The manager\<close>

record token_manager =
  tm_token :: string
  tm_refreshToken :: string
  tm_expiresIn :: int
  tm_tokenIssueTime :: int
  tm_jwtPayload :: "(string \<times> json) list"
  tm_initialized :: bool

definition mk_TokenManager :: token_manager where
  "mk_TokenManager = \<lparr>tm_token = [], tm_refreshToken = [], tm_expiresIn = 0, tm_tokenIssueTime = 0, tm_jwtPayload = [], tm_initialized = False\<rparr>"

definition tm_init :: "token_manager \<Rightarrow> unit result \<times> token_manager" where
  "tm_init t = (Ok (), t\<lparr>tm_initialized := True\<rparr>)"

definition without_bearer :: "string \<Rightarrow> string" where
  "without_bearer token = (if take 7 token = ''Bearer '' then drop 7 token else token)"

text \<open>The padding loop.\<close>

function pad4 :: "string \<Rightarrow> string" where
  "pad4 s = (if length s mod 4 \<noteq> 0 then pad4 (s @ ''='') else s)"
  by auto
termination
proof (relation "measure (\<lambda>s. (4 - length s mod 4) mod 4)")
  fix s :: string assume "length s mod 4 \<noteq> 0"
  then show "(s @ ''='', s) \<in> measure (\<lambda>s. (4 - length s mod 4) mod 4)"
    using mod_Suc [of "length s" 4] by (auto split: if_splits)
qed simp

declare pad4.simps [simp del]

definition parseJwtPayload :: "(string \<Rightarrow> string) \<Rightarrow> (string \<Rightarrow> json option) \<Rightarrow> token_manager \<Rightarrow> (string \<times> json) list" where
  "parseJwtPayload unb64 parse t =
     (let parts = split_all (CHR ''.'') (without_bearer (tm_token t))
      in if length parts \<noteq> 3 then []
         else case parse (unb64 (pad4 (parts ! 1))) of Some (JObject o1) \<Rightarrow> o1 | _ \<Rightarrow> [])"

definition doParseJwtPayload :: "(string \<Rightarrow> string) \<Rightarrow> (string \<Rightarrow> json option) \<Rightarrow> token_manager \<Rightarrow> bool \<times> token_manager" where
  "doParseJwtPayload unb64 parse t =
     (let payload = parseJwtPayload unb64 parse t; t1 = t\<lparr>tm_jwtPayload := payload\<rparr>
      in if payload = [] then (False, t1)
         else case claim_int payload ''exp'' of
           None \<Rightarrow> (True, t1)
         | Some expiry \<Rightarrow>
             if expiry > 0
             then (case claim_int payload ''iat'' of
                     None \<Rightarrow> (True, t1)
                   | Some iat \<Rightarrow> (False, if iat > 0 then t1\<lparr>tm_expiresIn := to_int32 (expiry - iat), tm_tokenIssueTime := iat * 1000\<rparr> else t1))
             else (False, t1))"

definition setToken :: "(string \<Rightarrow> string) \<Rightarrow> (string \<Rightarrow> json option) \<Rightarrow> int \<Rightarrow> string \<Rightarrow> token_manager \<Rightarrow> bool \<times> token_manager" where
  "setToken unb64 parse nowMs token t = doParseJwtPayload unb64 parse (t\<lparr>tm_token := token, tm_tokenIssueTime := nowMs\<rparr>)"

definition setRefreshToken :: "string \<Rightarrow> token_manager \<Rightarrow> token_manager" where
  "setRefreshToken rt t = t\<lparr>tm_refreshToken := rt\<rparr>"

definition setExpiresIn :: "int \<Rightarrow> token_manager \<Rightarrow> token_manager" where
  "setExpiresIn n t = t\<lparr>tm_expiresIn := n\<rparr>"

text \<open>Seconds of the clock, from its milliseconds.\<close>

abbreviation toSeconds :: "int \<Rightarrow> int" where
  "toSeconds nowMs \<equiv> nowMs div 1000"

definition isTokenExpired :: "int \<Rightarrow> token_manager \<Rightarrow> bool option" where
  "isTokenExpired nowMs t =
     (let fallback = (if tm_expiresIn t \<le> 0 \<or> tm_tokenIssueTime t = 0 then False else nowMs \<ge> tm_tokenIssueTime t + tm_expiresIn t * 1000)
      in if tm_jwtPayload t \<noteq> []
         then map_option (\<lambda>expiry. if expiry > 0 then toSeconds nowMs \<ge> expiry else fallback) (claim_int (tm_jwtPayload t) ''exp'')
         else Some fallback)"

definition isTokenAboutToExpire :: "int \<Rightarrow> int \<Rightarrow> token_manager \<Rightarrow> bool option" where
  "isTokenAboutToExpire nowMs thresholdSeconds t =
     (let fallback = (if tm_expiresIn t \<le> 0 \<or> tm_tokenIssueTime t = 0 then False
                      else tm_tokenIssueTime t + tm_expiresIn t * 1000 - nowMs \<le> thresholdSeconds * 1000)
      in if tm_jwtPayload t \<noteq> []
         then map_option (\<lambda>expiry. if expiry > 0 then expiry - toSeconds nowMs \<le> thresholdSeconds else fallback) (claim_int (tm_jwtPayload t) ''exp'')
         else Some fallback)"

text \<open>The result of \<open>refresh\<close> is \<open>None\<close> when an exception leaves it; the callback is \<open>None\<close> when it is not set.\<close>

definition refresh :: "(string \<Rightarrow> string) \<Rightarrow> (string \<Rightarrow> json option) \<Rightarrow> (string \<Rightarrow> string result) option \<Rightarrow> int \<Rightarrow> token_manager \<Rightarrow> string result option \<times> token_manager" where
  "refresh unb64 parse callback nowMs t =
     (if tm_refreshToken t = [] then (Some (Err (mk_error EC_AuthError ''No refresh token available'')), t)
      else case callback of
        None \<Rightarrow> (Some (Err (mk_error EC_AuthError ''Refresh callback not set'')), t)
      | Some cb \<Rightarrow>
          (case cb (tm_refreshToken t) of
             Inl e \<Rightarrow> (Some (Err e), t)
           | Inr token \<Rightarrow> (let (threw, t1) = setToken unb64 parse nowMs token t in (if threw then None else Some (Ok token), t1))))"

definition autoRefreshIfNeeded :: "(string \<Rightarrow> string) \<Rightarrow> (string \<Rightarrow> json option) \<Rightarrow> (string \<Rightarrow> string result) option \<Rightarrow> int \<Rightarrow> int \<Rightarrow> token_manager \<Rightarrow> string result option \<times> token_manager" where
  "autoRefreshIfNeeded unb64 parse callback nowMs thresholdSeconds t =
     (case isTokenAboutToExpire nowMs thresholdSeconds t of
        None \<Rightarrow> (None, t)
      | Some b \<Rightarrow> if b then refresh unb64 parse callback nowMs t else (Some (Ok (tm_token t)), t))"

definition tm_clear :: "token_manager \<Rightarrow> token_manager" where
  "tm_clear t = t\<lparr>tm_token := [], tm_refreshToken := [], tm_expiresIn := 0, tm_tokenIssueTime := 0, tm_jwtPayload := []\<rparr>"

definition extractUserId :: "token_manager \<Rightarrow> string" where
  "extractUserId t =
     (if tm_jwtPayload t \<noteq> []
      then (if getString (tm_jwtPayload t) ''sub'' \<noteq> [] then getString (tm_jwtPayload t) ''sub''
            else if getString (tm_jwtPayload t) ''user_id'' \<noteq> [] then getString (tm_jwtPayload t) ''user_id''
            else getString (tm_jwtPayload t) ''id'')
      else let parts = split_all (CHR ''.'') (without_bearer (tm_token t)) in if length parts \<ge> 2 then parts ! 1 else [])"

definition validateTokenFormat :: "string \<Rightarrow> bool" where
  "validateTokenFormat token \<longleftrightarrow>
     token \<noteq> [] \<and> (let parts = split_all (CHR ''.'') token in length parts = 3 \<and> list_all (\<lambda>p. p \<noteq> []) parts)"

section \<open>The secure store\<close>

text \<open>
  \<^verbatim>\<open>m_secureStorage\<close> is a pointer to the interface \<^verbatim>\<open>ISecureStorage\<close>: \<open>None\<close> when it is not set, and otherwise the state of the implementation. Its operations take
  what the implementation draws at random.
\<close>

type_synonym ('r, 's) store_fun = "'r \<Rightarrow> string \<Rightarrow> string \<Rightarrow> 's \<Rightarrow> unit result \<times> 's"
type_synonym 's retrieve_fun = "string \<Rightarrow> 's \<Rightarrow> string result"

definition persistToken :: "('r, 's) store_fun \<Rightarrow> 'r \<Rightarrow> 'r \<Rightarrow> token_manager \<Rightarrow> 's option \<Rightarrow> unit result \<times> 's option" where
  "persistToken store r1 r2 t st =
     (case st of
        None \<Rightarrow> (Err (mk_error EC_InvalidState ''SecureStorage not set''), None)
      | Some s \<Rightarrow>
          (let (res1, s1) = (if tm_token t \<noteq> [] then store r1 ''access_token'' (tm_token t) s else (Ok (), s))
           in case res1 of
             Inl e \<Rightarrow> (Err e, Some s1)
           | Inr _ \<Rightarrow> (let (res2, s2) = (if tm_refreshToken t \<noteq> [] then store r2 ''refresh_token'' (tm_refreshToken t) s1 else (Ok (), s1)) in (res2, Some s2))))"

definition restoreToken :: "'s retrieve_fun \<Rightarrow> (string \<Rightarrow> string) \<Rightarrow> (string \<Rightarrow> json option) \<Rightarrow> int \<Rightarrow> token_manager \<Rightarrow> 's option \<Rightarrow> unit result option \<times> token_manager" where
  "restoreToken retrieve unb64 parse nowMs t st =
     (case st of
        None \<Rightarrow> (Some (Err (mk_error EC_InvalidState ''SecureStorage not set'')), t)
      | Some s \<Rightarrow>
          (let (threw, t1) = (case retrieve ''access_token'' s of Inr tok \<Rightarrow> setToken unb64 parse nowMs tok t | Inl _ \<Rightarrow> (False, t))
           in if threw then (None, t1)
              else (Some (Ok ()), case retrieve ''refresh_token'' s of Inr rt \<Rightarrow> t1\<lparr>tm_refreshToken := rt\<rparr> | Inl _ \<Rightarrow> t1)))"

definition tm_shutdown :: "('r, 's) store_fun \<Rightarrow> 'r \<Rightarrow> 'r \<Rightarrow> token_manager \<Rightarrow> 's option \<Rightarrow> token_manager \<times> 's option" where
  "tm_shutdown store r1 r2 t st =
     (let st1 = (case st of None \<Rightarrow> None | Some s \<Rightarrow> snd (persistToken store r1 r2 t st))
      in ((tm_clear t)\<lparr>tm_initialized := False\<rparr>, st1))"

section \<open>When a token expires\<close>

text \<open>A token of three parts, with or without the word in front.\<close>

definition jwt :: "bool \<Rightarrow> string \<Rightarrow> string \<Rightarrow> string \<Rightarrow> string" where
  "jwt bearer h p s = (if bearer then ''Bearer '' else []) @ h @ ''.'' @ p @ ''.'' @ s"

definition jwt_parts :: "string \<Rightarrow> string \<Rightarrow> string \<Rightarrow> bool" where
  "jwt_parts h p s \<longleftrightarrow> CHR ''.'' \<notin> set h \<union> set p \<union> set s \<and> CHR '' '' \<notin> set h \<union> set p \<union> set s"

lemma without_bearer_jwt:
  assumes "jwt_parts h p s"
  shows "without_bearer (jwt bearer h p s) = h @ ''.'' @ p @ ''.'' @ s"
proof (cases bearer)
  case False
  have "CHR '' '' \<notin> set (h @ ''.'' @ p @ ''.'' @ s)" using assms by (auto simp: jwt_parts_def)
  then have "take 7 (h @ ''.'' @ p @ ''.'' @ s) \<noteq> ''Bearer ''" by (metis in_set_takeD insert_iff list.set(2))
  then show ?thesis using False by (simp add: without_bearer_def jwt_def)
qed (simp add: without_bearer_def jwt_def)

lemma parse_jwt:
  assumes "jwt_parts h p s" "tm_token t = jwt bearer h p s" "parse (unb64 (pad4 p)) = Some (JObject o1)"
  shows "parseJwtPayload unb64 parse t = o1"
proof -
  have "split_all (CHR ''.'') (h @ ''.'' @ p @ ''.'' @ s) = [h, p, s]"
    using assms(1) by (simp add: jwt_parts_def split_all_append split_all_whole)
  then show ?thesis using assms by (simp add: parseJwtPayload_def without_bearer_jwt)
qed

text \<open>In a manager that was given no lifetime, the expiry claim alone decides, as the \<^verbatim>\<open>int\<close> it is converted to.\<close>

lemma expiry_of_fresh:
  assumes "jwt_parts h p s" "parse (unb64 (pad4 p)) = Some (JObject o1)" "map_of o1 ''exp'' = Some (JInteger e)"
  shows "isTokenExpired nowMs (snd (setToken unb64 parse setMs (jwt bearer h p s) mk_TokenManager)) = Some (0 < to_int32 e \<and> to_int32 e \<le> toSeconds nowMs)"
proof -
  let ?t = "mk_TokenManager\<lparr>tm_token := jwt bearer h p s, tm_tokenIssueTime := setMs\<rparr>"
  have pl: "parseJwtPayload unb64 parse ?t = o1" using assms(1,2) by (intro parse_jwt) simp_all
  have c: "claim_int o1 ''exp'' = Some (to_int32 e)" "o1 \<noteq> []" using assms(3) by (auto simp: claim_int_def)
  show ?thesis
    using c by (auto simp: setToken_def doParseJwtPayload_def pl Let_def isTokenExpired_def split: option.split) (simp_all add: mk_TokenManager_def)
qed

text \<open>A token with an expiry claim counts as expired exactly from the second it names on, if and only if that second is before the year 2038: the claim is read
  as a 32-bit number, and with a later one the token never expires, or expires at another time.\<close>

theorem token_expiry_exact_iff:
  assumes "jwt_parts h p s" "parse (unb64 (pad4 p)) = Some (JObject o1)" "map_of o1 ''exp'' = Some (JInteger e)" "0 < e"
  shows "(\<forall>nowMs. isTokenExpired nowMs (snd (setToken unb64 parse setMs (jwt bearer h p s) mk_TokenManager)) = Some (e \<le> toSeconds nowMs)) \<longleftrightarrow> e < 2 ^ 31"
proof -
  note fresh = expiry_of_fresh [where ?unb64.0 = unb64 and parse = parse, OF assms(1-3)]
  show ?thesis
  proof
    assume "e < 2 ^ 31"
    with fresh show "\<forall>nowMs. isTokenExpired nowMs (snd (setToken unb64 parse setMs (jwt bearer h p s) mk_TokenManager)) = Some (e \<le> toSeconds nowMs)"
      using assms(4) by (simp add: to_int32_small)
  next
    assume "\<forall>nowMs. isTokenExpired nowMs (snd (setToken unb64 parse setMs (jwt bearer h p s) mk_TokenManager)) = Some (e \<le> toSeconds nowMs)"
    then have *: "(0 < to_int32 e \<and> to_int32 e \<le> x) = (e \<le> x)" for x
      using fresh by simp (metis nonzero_mult_div_cancel_right zero_neq_numeral)
    have "to_int32 e = e" using * [of e] * [of "to_int32 e"] by auto
    then show "e < 2 ^ 31" using to_int32_range [of e] by simp
  qed
qed

theorem token_expiry_exact_iff_witness:
  "(\<forall>nowMs. isTokenExpired nowMs (snd (setToken id (\<lambda>_. Some (JObject [(''exp'', JInteger 4000000000)])) 5 (jwt True ''a'' ''b'' ''c'') mk_TokenManager))
     = Some (4000000000 \<le> toSeconds nowMs)) \<longleftrightarrow> (4000000000 :: int) < 2 ^ 31"
  by (rule token_expiry_exact_iff [where ?o1.0 = "[(''exp'', JInteger 4000000000)]"]) (simp_all add: jwt_parts_def)

section \<open>Keeping tokens\<close>

text \<open>What the manager relies on in an implementation of \<^verbatim>\<open>ISecureStorage\<close> that works.\<close>

locale secure_storage =
  fixes store :: "('r, 's) store_fun" and retrieve :: "'s retrieve_fun" and working :: "'s \<Rightarrow> bool" and drawn :: "'r \<Rightarrow> bool"
  assumes store_succeeds: "working s \<Longrightarrow> drawn r \<Longrightarrow> fst (store r k v s) = Ok ()"
    and store_working: "working s \<Longrightarrow> drawn r \<Longrightarrow> working (snd (store r k v s))"
    and retrieve_store: "working s \<Longrightarrow> drawn r \<Longrightarrow> retrieve k' (snd (store r k v s)) = (if k' = k then Ok v else retrieve k' s)"
begin

lemma persist_spec:
  assumes "working s" "drawn r1" "drawn r2"
  obtains s' where "persistToken store r1 r2 t (Some s) = (Ok (), Some s')" "working s'"
    "retrieve ''access_token'' s' = (if tm_token t \<noteq> [] then Ok (tm_token t) else retrieve ''access_token'' s)"
    "retrieve ''refresh_token'' s' = (if tm_refreshToken t \<noteq> [] then Ok (tm_refreshToken t) else retrieve ''refresh_token'' s)"
proof -
  define s1 where "s1 = (if tm_token t \<noteq> [] then snd (store r1 ''access_token'' (tm_token t) s) else s)"
  define s2 where "s2 = (if tm_refreshToken t \<noteq> [] then snd (store r2 ''refresh_token'' (tm_refreshToken t) s1) else s1)"
  have w: "working s1" using assms store_working by (simp add: s1_def)
  have "(if tm_token t \<noteq> [] then store r1 ''access_token'' (tm_token t) s else (Ok (), s)) = (Ok (), s1)"
    using store_succeeds [OF assms(1,2)] by (auto simp: s1_def prod_eq_iff)
  moreover have "(if tm_refreshToken t \<noteq> [] then store r2 ''refresh_token'' (tm_refreshToken t) s1 else (Ok (), s1)) = (Ok (), s2)"
    using store_succeeds [OF w assms(3)] by (auto simp: s2_def prod_eq_iff)
  ultimately have "persistToken store r1 r2 t (Some s) = (Ok (), Some s2)" by (simp add: persistToken_def)
  moreover have "working s2" using w assms(3) store_working by (simp add: s2_def)
  ultimately show ?thesis
    by (rule that) (use assms w retrieve_store in \<open>auto simp: s1_def s2_def\<close>)
qed

lemma restore_spec:
  assumes "retrieve ''access_token'' s = Ok tok" "retrieve ''refresh_token'' s = Ok rt" "\<not> fst (setToken unb64 parse nowMs tok t)"
  shows "restoreToken retrieve unb64 parse nowMs t (Some s) = (Some (Ok ()), (snd (setToken unb64 parse nowMs tok t))\<lparr>tm_refreshToken := rt\<rparr>)"
  using assms by (cases "setToken unb64 parse nowMs tok t") (simp add: restoreToken_def)

text \<open>A manager that holds no tokens leaves the stored ones as they are.\<close>

lemma cleared_persist: "persistToken store r1 r2 (tm_clear t) (Some s) = (Ok (), Some s)"
  by (simp add: persistToken_def tm_clear_def)

end

lemma setToken_token [simp]: "tm_token (snd (setToken unb64 parse nowMs tok t)) = tok"
  by (simp add: setToken_def doParseJwtPayload_def Let_def split: option.split)

subsection \<open>In the encrypted store\<close>

definition toUtf8 :: "string \<Rightarrow> bytes" where
  "toUtf8 s = map (\<lambda>c. word_of_nat (of_char c)) s"

definition fromUtf8 :: "bytes \<Rightarrow> string" where
  "fromUtf8 bs = map (\<lambda>b. char_of (unat b)) bs"

lemma fromUtf8_toUtf8 [simp]: "fromUtf8 (toUtf8 s) = s"
  by (induction s) (simp_all add: fromUtf8_def toUtf8_def unat_of_nat take_bit_nat_eq_self)

lemma toUtf8_inject [simp]: "toUtf8 s = toUtf8 s' \<longleftrightarrow> s = s'"
  by (metis fromUtf8_toUtf8)

definition aes_store :: "(bytes \<Rightarrow> bytes) \<Rightarrow> (bytes, secure_store) store_fun" where
  "aes_store b64 iv k v s = ss_store b64 iv True (toUtf8 k) (toUtf8 v) s"

definition aes_retrieve :: "(bytes \<Rightarrow> bytes) \<Rightarrow> secure_store retrieve_fun" where
  "aes_retrieve unb64 k s = map_sum id fromUtf8 (ss_retrieve unb64 (toUtf8 k) s)"

text \<open>The store works from \<open>init\<close> on, if Base64 does what is used of it.\<close>

definition aes_working :: "(bytes \<Rightarrow> bytes) \<Rightarrow> (bytes \<Rightarrow> bytes) \<Rightarrow> (bytes \<Rightarrow> bytes) \<Rightarrow> bytes \<Rightarrow> secure_store \<Rightarrow> bool" where
  "aes_working hash b64 unb64 password s \<longleftrightarrow> b64_contract b64 unb64 \<and> ss_inv hash unb64 password s"

lemma aes_retrieve_plain: "ss_inv hash unb64 password s \<Longrightarrow> aes_retrieve unb64 k s
    = (case plain unb64 s (toUtf8 k) of Some v \<Rightarrow> Ok (fromUtf8 v) | None \<Rightarrow> Err (mk_error EC_NotFound ''Key not found in secure storage''))"
  by (simp add: aes_retrieve_def retrieve_plain ss_inv_def split: option.split)

interpretation aes: secure_storage "aes_store b64" "aes_retrieve unb64" "aes_working hash b64 unb64 password" "\<lambda>iv. length iv = 16"
  for hash b64 unb64 password
proof
  fix s :: secure_store and iv :: bytes and k v k' :: string
  assume w: "aes_working hash b64 unb64 password s" and iv: "length iv = 16"
  define s' where "s' = snd (aes_store b64 iv k v s)"
  have r: "ss_inv hash unb64 password s'" "plain unb64 s' = (plain unb64 s)(toUtf8 k \<mapsto> toUtf8 v)"
    using ss_exec_refines [of b64 unb64 hash password s "Store iv (toUtf8 k) (toUtf8 v)"] w iv by (simp_all add: aes_working_def s'_def aes_store_def)
  show "fst (aes_store b64 iv k v s) = Ok ()" using w by (simp add: aes_store_def ss_store_def persistToDisk_def aes_working_def ss_inv_def)
  show "aes_working hash b64 unb64 password (snd (aes_store b64 iv k v s))" using w r(1) unfolding s'_def [symmetric] by (simp add: aes_working_def)
  show "aes_retrieve unb64 k' (snd (aes_store b64 iv k v s)) = (if k' = k then Ok v else aes_retrieve unb64 k' s)"
    using w unfolding s'_def [symmetric] by (simp add: aes_retrieve_plain [OF r(1)] r(2) aes_retrieve_plain [of hash unb64 password s] aes_working_def)
qed

lemma init_working:
  assumes "b64_contract b64 unb64" "\<And>x. length (hash x) = 32" "d_dir dsk"
  obtains s where "ss_init hash unb64 random True True (mk_AesSecureStorage password dsk) = Some (Ok (), s)" "aes_working hash b64 unb64 password s"
  by (rule init_returns [where hash = hash and password = password and dsk = dsk and random = random and ?unb64.0 = unb64, OF assms(2)])
    (use assms entries_ok_parsed in \<open>auto simp: aes_working_def ss_inv_def split: option.splits\<close>)

lemma restart_retrieves:
  assumes "\<And>x. length (hash x) = 32" "aes_working hash b64 unb64 password s"
  obtains s' where "ss_init hash unb64 random True True (mk_AesSecureStorage password (ss_disk s)) = Some (Ok (), s')"
    "\<And>k. aes_retrieve unb64 k s' = aes_retrieve unb64 k s"
proof -
  from restart_same [of hash unb64 password s random] assms obtain s' where
    s': "ss_init hash unb64 random True True (mk_AesSecureStorage password (ss_disk s)) = Some (Ok (), s')"
    "ss_encryptionKey s' = ss_encryptionKey s" "ss_entries s' = ss_entries s" by (auto simp: aes_working_def)
  show ?thesis by (rule that [OF s'(1)]) (simp only: aes_retrieve_def ss_retrieve_def s'(2,3))
qed



text \<open>\<open>clear\<close> does not reach the store: what was saved earlier comes back with the next \<open>restoreToken\<close>, even after the cleared manager was shut down over the same store.\<close>

theorem cleared_token_comes_back:
  assumes "aes_working hash b64 unb64 password s" "length iv1 = 16" "length iv2 = 16" "tm_token t \<noteq> []" "tm_refreshToken t \<noteq> []"
    and "\<not> fst (setToken unb64j parse nowMs (tm_token t) mk_TokenManager)"
  shows "\<exists>s1 t'. persistToken (aes_store b64) iv1 iv2 t (Some s) = (Ok (), Some s1)
    \<and> restoreToken (aes_retrieve unb64) unb64j parse nowMs mk_TokenManager (snd (tm_shutdown (aes_store b64) iv3 iv4 (tm_clear t) (Some s1))) = (Some (Ok ()), t')
    \<and> tm_token t' = tm_token t \<and> tm_refreshToken t' = tm_refreshToken t"
proof -
  obtain s1 where s1: "persistToken (aes_store b64) iv1 iv2 t (Some s) = (Ok (), Some s1)"
    "aes_retrieve unb64 ''access_token'' s1 = Ok (tm_token t)" "aes_retrieve unb64 ''refresh_token'' s1 = Ok (tm_refreshToken t)"
    by (rule aes.persist_spec [OF assms(1-3), of t]) (use assms(4,5) in simp)
  have "snd (tm_shutdown (aes_store b64) iv3 iv4 (tm_clear t) (Some s1)) = Some s1" by (simp add: tm_shutdown_def aes.cleared_persist)
  then show ?thesis using s1(1) aes.restore_spec [OF s1(2,3) assms(6)] by simp
qed

end
