(* ===== verification/SK_OAuth2.thy ===== *)
theory SK_OAuth2
  imports SK_TokenManager
begin

text \<open>
  The OAuth2 flows of \<^verbatim>\<open>src/soul/auth/oauth2.cpp\<close> and the discovery of \<^verbatim>\<open>src/soul/auth/oidc.cpp\<close>. A request is its address and the items of its query or body; how Qt
  puts them into text is left out. The network is the parameter \<open>post\<close> or \<open>get\<close>, which says how a request ended; JSON parsing is the parameter \<open>parse\<close>, SHA-256 followed by
  Base64URL the parameter \<open>digest\<close>, and the random texts are arguments. The signals that are emitted are part of the result.
\<close>

section \<open>Requests\<close>

type_synonym items = "(string \<times> string) list"

text \<open>How a reply ends the wait: the timer fired, the reply has an error (its text, and the body read), or there is a body.\<close>

datatype http_outcome = TimedOut | ReplyError string string | ReplyBody string

definition json_getString :: "json \<Rightarrow> string \<Rightarrow> string" where
  "json_getString j key = (case j of JObject o1 \<Rightarrow> getString o1 key | _ \<Rightarrow> [])"

definition json_getInt64 :: "json \<Rightarrow> string \<Rightarrow> int" where
  "json_getInt64 j key = (case j of JObject o1 \<Rightarrow> (case map_of o1 key of Some (JInteger i) \<Rightarrow> i | _ \<Rightarrow> 0) | _ \<Rightarrow> 0)"

definition httpPostSync :: "(string \<Rightarrow> json result) \<Rightarrow> http_outcome \<Rightarrow> json result" where
  "httpPostSync parse outcome =
     (case outcome of
        TimedOut \<Rightarrow> Err (mk_error EC_Timeout ''OAuth2 token request timed out'')
      | ReplyError errorString body \<Rightarrow>
          (let msg = (case parse body of
                        Inl _ \<Rightarrow> []
                      | Inr j \<Rightarrow> if json_getString j ''error_description'' \<noteq> [] then json_getString j ''error_description'' else json_getString j ''error'')
           in Err (mk_error EC_NetworkError (if msg = [] then errorString else msg)))
      | ReplyBody body \<Rightarrow> parse body)"

definition httpGetJsonSync :: "(string \<Rightarrow> json result) \<Rightarrow> http_outcome \<Rightarrow> json result" where
  "httpGetJsonSync parse outcome =
     (case outcome of
        TimedOut \<Rightarrow> Err (mk_error EC_Timeout ''OIDC discovery request timed out'')
      | ReplyError errorString body \<Rightarrow> Err (mk_error EC_NetworkError errorString)
      | ReplyBody body \<Rightarrow> parse body)"

section \<open>Flows\<close>

record oauth2_config =
  oc_clientId :: string
  oc_clientSecret :: string
  oc_authorizationEndpoint :: string
  oc_tokenEndpoint :: string
  oc_redirectUri :: string
  oc_scopes :: "string list"
  oc_usePkce :: bool

record oauth2_token =
  ot_accessToken :: string
  ot_refreshToken :: string
  ot_tokenType :: string
  ot_expiresIn :: int
  ot_idToken :: string

definition parseTokenResponse :: "json \<Rightarrow> oauth2_token" where
  "parseTokenResponse j =
     \<lparr>ot_accessToken = json_getString j ''access_token'', ot_refreshToken = json_getString j ''refresh_token'', ot_tokenType = json_getString j ''token_type'',
      ot_expiresIn = to_int32 (json_getInt64 j ''expires_in''), ot_idToken = json_getString j ''id_token''\<rparr>"

record code_flow =
  cf_config :: oauth2_config
  cf_codeVerifier :: string
  cf_state :: string

definition mk_AuthorizationCodeFlow :: "oauth2_config \<Rightarrow> string \<Rightarrow> string \<Rightarrow> code_flow" where
  "mk_AuthorizationCodeFlow config verifier state = \<lparr>cf_config = config, cf_codeVerifier = verifier, cf_state = state\<rparr>"

definition validateState :: "string \<Rightarrow> code_flow \<Rightarrow> bool" where
  "validateState returnedState f \<longleftrightarrow> cf_state f \<noteq> [] \<and> cf_state f = returnedState"

definition authorizationUrl :: "(string \<Rightarrow> string) \<Rightarrow> code_flow \<Rightarrow> string \<times> items" where
  "authorizationUrl digest f =
     (oc_authorizationEndpoint (cf_config f),
      [(''response_type'', ''code''), (''client_id'', oc_clientId (cf_config f)), (''redirect_uri'', oc_redirectUri (cf_config f))]
      @ (if oc_scopes (cf_config f) \<noteq> [] then [(''scope'', join '' '' (oc_scopes (cf_config f)))] else [])
      @ (if oc_usePkce (cf_config f) then [(''code_challenge'', digest (cf_codeVerifier f)), (''code_challenge_method'', ''S256'')] else [])
      @ [(''state'', cf_state f)])"

text \<open>The end that the three requests share: the token, which is also signalled, or an error.\<close>

definition token_reply :: "(string \<Rightarrow> json result) \<Rightarrow> http_outcome \<Rightarrow> oauth2_token result \<times> oauth2_token list" where
  "token_reply parse outcome =
     (case httpPostSync parse outcome of
        Inl e \<Rightarrow> (Err e, [])
      | Inr j \<Rightarrow>
          (let token = parseTokenResponse j
           in if ot_accessToken token = [] then (Err (mk_error EC_AuthError ''Token response missing access_token''), []) else (Ok token, [token])))"

definition code_body :: "oauth2_config \<Rightarrow> string \<Rightarrow> string \<Rightarrow> items" where
  "code_body config code codeVerifier =
     [(''grant_type'', ''authorization_code''), (''code'', code), (''client_id'', oc_clientId config), (''redirect_uri'', oc_redirectUri config)]
     @ (if oc_usePkce config \<and> codeVerifier \<noteq> [] then [(''code_verifier'', codeVerifier)] else [])"

definition exchangeCodeForToken :: "(string \<Rightarrow> items \<Rightarrow> http_outcome) \<Rightarrow> (string \<Rightarrow> json result) \<Rightarrow> string \<Rightarrow> string \<Rightarrow> code_flow \<Rightarrow> oauth2_token result \<times> oauth2_token list" where
  "exchangeCodeForToken post parse code codeVerifier f =
     (if code = [] then (Err (mk_error EC_InvalidArgument ''Authorization code is empty''), [])
      else token_reply parse (post (oc_tokenEndpoint (cf_config f)) (code_body (cf_config f) code codeVerifier)))"

definition refresh_body :: "oauth2_config \<Rightarrow> string \<Rightarrow> items" where
  "refresh_body config rt =
     [(''grant_type'', ''refresh_token''), (''refresh_token'', rt), (''client_id'', oc_clientId config)]
     @ (if oc_clientSecret config \<noteq> [] then [(''client_secret'', oc_clientSecret config)] else [])"

definition flow_refreshToken :: "(string \<Rightarrow> items \<Rightarrow> http_outcome) \<Rightarrow> (string \<Rightarrow> json result) \<Rightarrow> string \<Rightarrow> code_flow \<Rightarrow> oauth2_token result \<times> oauth2_token list" where
  "flow_refreshToken post parse rt f =
     (if rt = [] then (Err (mk_error EC_InvalidArgument ''Refresh token is empty''), [])
      else token_reply parse (post (oc_tokenEndpoint (cf_config f)) (refresh_body (cf_config f) rt)))"

definition credentials_body :: "oauth2_config \<Rightarrow> items" where
  "credentials_body config =
     [(''grant_type'', ''client_credentials''), (''client_id'', oc_clientId config), (''client_secret'', oc_clientSecret config)]
     @ (if oc_scopes config \<noteq> [] then [(''scope'', join '' '' (oc_scopes config))] else [])"

definition requestToken :: "(string \<Rightarrow> items \<Rightarrow> http_outcome) \<Rightarrow> (string \<Rightarrow> json result) \<Rightarrow> oauth2_config \<Rightarrow> oauth2_token result \<times> oauth2_token list" where
  "requestToken post parse config = token_reply parse (post (oc_tokenEndpoint config) (credentials_body config))"

section \<open>Discovery\<close>

record oidc_discovery =
  od_issuer :: string
  od_authorizationEndpoint :: string
  od_tokenEndpoint :: string
  od_userinfoEndpoint :: string
  od_jwksUri :: string
  od_scopesSupported :: "string list"
  od_responseTypesSupported :: "string list"

definition jsonArrayToStringList :: "json \<Rightarrow> string list" where
  "jsonArrayToStringList j = (case j of JArray vs \<Rightarrow> List.map_filter (\<lambda>v. case v of JString s \<Rightarrow> Some s | _ \<Rightarrow> None) vs | _ \<Rightarrow> [])"

definition json_member :: "json \<Rightarrow> string \<Rightarrow> json option" where
  "json_member j key = (case j of JObject o1 \<Rightarrow> map_of o1 key | _ \<Rightarrow> None)"

definition discovery_address :: "string \<Rightarrow> string" where
  "discovery_address issuerUrl = (if last issuerUrl = CHR ''/'' then butlast issuerUrl else issuerUrl) @ ''/.well-known/openid-configuration''"

definition discover :: "(string \<Rightarrow> http_outcome) \<Rightarrow> (string \<Rightarrow> json result) \<Rightarrow> string \<Rightarrow> oidc_discovery result \<times> oidc_discovery list" where
  "discover get parse issuerUrl =
     (if issuerUrl = [] then (Err (mk_error EC_InvalidArgument ''Issuer URL is empty''), [])
      else case httpGetJsonSync parse (get (discovery_address issuerUrl)) of
        Inl e \<Rightarrow> (Err e, [])
      | Inr j \<Rightarrow>
          (let names = (\<lambda>key. case json_member j key of Some v \<Rightarrow> jsonArrayToStringList v | None \<Rightarrow> []);
               d = \<lparr>od_issuer = json_getString j ''issuer'', od_authorizationEndpoint = json_getString j ''authorization_endpoint'',
                    od_tokenEndpoint = json_getString j ''token_endpoint'', od_userinfoEndpoint = json_getString j ''userinfo_endpoint'',
                    od_jwksUri = json_getString j ''jwks_uri'', od_scopesSupported = names ''scopes_supported'', od_responseTypesSupported = names ''response_types_supported''\<rparr>
           in if od_issuer d = [] then (Err (mk_error EC_ParseError ''OIDC discovery response missing issuer''), []) else (Ok d, [d])))"

definition fetchJwks :: "(string \<Rightarrow> http_outcome) \<Rightarrow> (string \<Rightarrow> json result) \<Rightarrow> string \<Rightarrow> json result" where
  "fetchJwks get parse jwksUri =
     (if jwksUri = [] then Err (mk_error EC_InvalidArgument ''JWKS URI is empty'')
      else case httpGetJsonSync parse (get jwksUri) of
        Inl e \<Rightarrow> Err e
      | Inr j \<Rightarrow> if json_member j ''keys'' = None then Err (mk_error EC_ParseError ''JWKS response missing 'keys' array'') else Ok j)"

section \<open>What the flows guarantee\<close>

text \<open>A request ends with a token exactly when one is signalled, the same, and a token that is returned is never empty.\<close>

lemma token_reply_signals: "snd (token_reply parse outcome) = (case fst (token_reply parse outcome) of Inl _ \<Rightarrow> [] | Inr t \<Rightarrow> [t])"
  by (simp add: token_reply_def Let_def split: sum.split)

lemma token_reply_nonempty: "fst (token_reply parse outcome) = Ok t \<Longrightarrow> ot_accessToken t \<noteq> []"
  by (auto simp: token_reply_def Let_def split: sum.splits if_splits)

lemmas flow_defs = exchangeCodeForToken_def flow_refreshToken_def requestToken_def

theorem flows_signal_what_they_return:
  "snd (exchangeCodeForToken post parse code v f) = (case fst (exchangeCodeForToken post parse code v f) of Inl _ \<Rightarrow> [] | Inr t \<Rightarrow> [t])"
  "snd (flow_refreshToken post parse rt f) = (case fst (flow_refreshToken post parse rt f) of Inl _ \<Rightarrow> [] | Inr t \<Rightarrow> [t])"
  "snd (requestToken post parse config) = (case fst (requestToken post parse config) of Inl _ \<Rightarrow> [] | Inr t \<Rightarrow> [t])"
  by (simp_all add: flow_defs token_reply_signals)

theorem flows_return_nonempty:
  "Ok t \<in> {fst (exchangeCodeForToken post parse code v f), fst (flow_refreshToken post parse rt f), fst (requestToken post parse config)} \<Longrightarrow> ot_accessToken t \<noteq> []"
  using token_reply_nonempty by (auto simp: flow_defs split: if_splits)

text \<open>The challenge the user is sent away with is the digest of the verifier that is sent with the code, if the caller passes the verifier of the flow.\<close>

theorem pkce_challenge_matches:
  assumes "cf_codeVerifier f \<noteq> []"
  shows "map_of (snd (authorizationUrl digest f)) ''code_challenge'' = map_option digest (map_of (code_body (cf_config f) code (cf_codeVerifier f)) ''code_verifier'')"
  using assms by (simp add: authorizationUrl_def code_body_def)

text \<open>Neither the state of the flow nor the secret of the client has a part in exchanging a code: checking the state is left to the caller, and a client that has to
  authenticate itself cannot.\<close>

theorem exchange_ignores_state_and_secret:
  "exchangeCodeForToken post parse code v (f\<lparr>cf_state := st, cf_config := (cf_config f)\<lparr>oc_clientSecret := secret\<rparr>\<rparr>) = exchangeCodeForToken post parse code v f"
  by (simp add: exchangeCodeForToken_def code_body_def)

text \<open>A lifetime that does not fit into 32 bits is returned as another one.\<close>

theorem lifetime_exact_iff:
  assumes "json_getString j ''access_token'' \<noteq> []" "httpPostSync parse outcome = Ok j"
  shows "\<exists>t. fst (token_reply parse outcome) = Ok t \<and> (ot_expiresIn t = json_getInt64 j ''expires_in'' \<longleftrightarrow> - (2 ^ 31) \<le> json_getInt64 j ''expires_in'' \<and> json_getInt64 j ''expires_in'' < 2 ^ 31)"
proof -
  have "fst (token_reply parse outcome) = Ok (parseTokenResponse j)" using assms by (simp add: token_reply_def parseTokenResponse_def Let_def)
  moreover have "to_int32 x = x \<longleftrightarrow> - (2 ^ 31) \<le> x \<and> x < 2 ^ 31" for x using to_int32_range [of x] to_int32_small [of x] by auto
  ultimately show ?thesis by (simp add: parseTokenResponse_def)
qed

end
