(* ===== verification/SK_AuthManager.thy ===== *)
theory SK_AuthManager
  imports SK_Text "HOL-Library.AList" "HOL-Library.List_Lexorder" "HOL-Library.Char_ord"
begin

text \<open>
  Who is logged in, and what they may do: \<^verbatim>\<open>src/soul/auth/auth_manager.cpp\<close> with the parts it keeps its state in, \<^verbatim>\<open>src/soul/storage/memory_storage.cpp\<close> and
  \<^verbatim>\<open>src/soul/network/session.cpp\<close>, and the permissions of \<^verbatim>\<open>src/soul/auth/permission.cpp\<close>. The session is a singleton: it is part of the state of the manager here.
  The validator of logins belongs to the application and is the argument \<open>validator\<close>; the calls of the state callback are logged. The field \<open>extra\<close> of a user, which
  nothing in these files reads, is left out, and so is the order of a hash table.
\<close>

section \<open>Storage in memory\<close>

record memory_storage =
  ms_stringData :: "(string \<times> string) list"
  ms_bytesData :: "(string \<times> string) list"
  ms_isOpen :: bool

definition mk_MemoryStorage :: memory_storage where
  "mk_MemoryStorage = \<lparr>ms_stringData = [], ms_bytesData = [], ms_isOpen = False\<rparr>"

definition ms_open :: "memory_storage \<Rightarrow> unit result \<times> memory_storage" where
  "ms_open s = (Ok (), s\<lparr>ms_isOpen := True\<rparr>)"

definition ms_close :: "memory_storage \<Rightarrow> memory_storage" where
  "ms_close s = s\<lparr>ms_isOpen := False\<rparr>"

abbreviation not_open :: "'a result" where
  "not_open \<equiv> Err (mk_error EC_InternalError ''Storage not open'')"

abbreviation no_key :: "'a result" where
  "no_key \<equiv> Err (mk_error EC_NotFound ''Key not found'')"

definition ms_put :: "string \<Rightarrow> string \<Rightarrow> memory_storage \<Rightarrow> unit result \<times> memory_storage" where
  "ms_put k v s = (if \<not> ms_isOpen s then (not_open, s) else (Ok (), s\<lparr>ms_stringData := AList.update k v (ms_stringData s)\<rparr>))"

definition ms_get :: "string \<Rightarrow> memory_storage \<Rightarrow> string result" where
  "ms_get k s = (if \<not> ms_isOpen s then not_open else case map_of (ms_stringData s) k of Some v \<Rightarrow> Ok v | None \<Rightarrow> no_key)"

definition ms_remove :: "string \<Rightarrow> memory_storage \<Rightarrow> unit result \<times> memory_storage" where
  "ms_remove k s = (if \<not> ms_isOpen s then (not_open, s) else (Ok (), s\<lparr>ms_stringData := AList.delete k (ms_stringData s)\<rparr>))"

definition ms_contains :: "string \<Rightarrow> memory_storage \<Rightarrow> bool" where
  "ms_contains k s \<longleftrightarrow> map_of (ms_stringData s) k \<noteq> None"

definition ms_putBytes :: "string \<Rightarrow> string \<Rightarrow> memory_storage \<Rightarrow> unit result \<times> memory_storage" where
  "ms_putBytes k v s = (if \<not> ms_isOpen s then (not_open, s) else (Ok (), s\<lparr>ms_bytesData := AList.update k v (ms_bytesData s)\<rparr>))"

definition ms_getBytes :: "string \<Rightarrow> memory_storage \<Rightarrow> string result" where
  "ms_getBytes k s = (if \<not> ms_isOpen s then not_open else case map_of (ms_bytesData s) k of Some v \<Rightarrow> Ok v | None \<Rightarrow> no_key)"

definition ms_keys :: "memory_storage \<Rightarrow> string list" where
  "ms_keys s = map fst (ms_stringData s)"

definition ms_count :: "memory_storage \<Rightarrow> nat" where
  "ms_count s = length (ms_stringData s)"

definition ms_clear :: "memory_storage \<Rightarrow> unit result \<times> memory_storage" where
  "ms_clear s = (if \<not> ms_isOpen s then (not_open, s) else (Ok (), s\<lparr>ms_stringData := [], ms_bytesData := []\<rparr>))"

section \<open>The session\<close>

record session =
  ses_token :: string
  ses_data :: "(string \<times> string) list"

definition ses_setToken :: "string \<Rightarrow> session \<Rightarrow> session" where
  "ses_setToken token s = s\<lparr>ses_token := token\<rparr>"

definition ses_get :: "string \<Rightarrow> session \<Rightarrow> string" where
  "ses_get k s = (case map_of (ses_data s) k of Some v \<Rightarrow> v | None \<Rightarrow> [])"

definition ses_set :: "string \<Rightarrow> string \<Rightarrow> session \<Rightarrow> session" where
  "ses_set k v s = s\<lparr>ses_data := AList.update k v (ses_data s)\<rparr>"

definition ses_clear :: "session \<Rightarrow> session" where
  "ses_clear s = s\<lparr>ses_token := [], ses_data := []\<rparr>"

definition ses_isEmpty :: "session \<Rightarrow> bool" where
  "ses_isEmpty s \<longleftrightarrow> ses_token s = [] \<and> ses_data s = []"

section \<open>Permissions\<close>

record permission_info =
  pi_id :: string
  pi_name :: string
  pi_description :: string

record permission =
  p_permissions :: "(string \<times> permission_info) list"
  p_rolePermissions :: "(string \<times> string list) list"

definition mk_Permission :: permission where
  "mk_Permission = \<lparr>p_permissions = [], p_rolePermissions = []\<rparr>"

definition registerPermission :: "string \<Rightarrow> string \<Rightarrow> string \<Rightarrow> permission \<Rightarrow> permission" where
  "registerPermission i name description p =
     p\<lparr>p_permissions := AList.update i \<lparr>pi_id = i, pi_name = name, pi_description = description\<rparr> (p_permissions p)\<rparr>"

definition isPermissionRegistered :: "string \<Rightarrow> permission \<Rightarrow> bool" where
  "isPermissionRegistered i p \<longleftrightarrow> map_of (p_permissions p) i \<noteq> None"

definition isRoleRegistered :: "string \<Rightarrow> permission \<Rightarrow> bool" where
  "isRoleRegistered role p \<longleftrightarrow> map_of (p_rolePermissions p) role \<noteq> None"

definition registerRole :: "string \<Rightarrow> string list \<Rightarrow> permission \<Rightarrow> permission" where
  "registerRole role permissions p =
     (let permSet = fold (\<lambda>i ps. if isPermissionRegistered i p then List.insert i ps else ps) permissions []
      in p\<lparr>p_rolePermissions := AList.update role permSet (p_rolePermissions p)\<rparr>)"

definition perm_hasPermission :: "string \<Rightarrow> string \<Rightarrow> permission \<Rightarrow> bool" where
  "perm_hasPermission role i p = (case map_of (p_rolePermissions p) role of None \<Rightarrow> False | Some ps \<Rightarrow> i \<in> set ps)"

definition hasAnyPermission :: "string \<Rightarrow> string list \<Rightarrow> permission \<Rightarrow> bool" where
  "hasAnyPermission role is p = (case map_of (p_rolePermissions p) role of None \<Rightarrow> False | Some ps \<Rightarrow> list_ex (\<lambda>i. i \<in> set ps) is)"

definition hasAllPermissions :: "string \<Rightarrow> string list \<Rightarrow> permission \<Rightarrow> bool" where
  "hasAllPermissions role is p = (case map_of (p_rolePermissions p) role of None \<Rightarrow> False | Some ps \<Rightarrow> list_all (\<lambda>i. i \<in> set ps) is)"

definition getRolePermissions :: "string \<Rightarrow> permission \<Rightarrow> string list" where
  "getRolePermissions role p = (case map_of (p_rolePermissions p) role of None \<Rightarrow> [] | Some ps \<Rightarrow> ps)"

text \<open>The two maps are ordered by their keys.\<close>

definition getAllPermissions :: "permission \<Rightarrow> permission_info list" where
  "getAllPermissions p = map snd (sort_key fst (p_permissions p))"

definition getAllRoles :: "permission \<Rightarrow> string list" where
  "getAllRoles p = map fst (sort_key fst (p_rolePermissions p))"

section \<open>The manager\<close>

record user_info =
  ui_userId :: string
  ui_username :: string
  ui_email :: string
  ui_role :: string
  ui_token :: string
  ui_refreshToken :: string
  ui_expiresIn :: int

definition empty_user :: user_info where
  "empty_user = \<lparr>ui_userId = [], ui_username = [], ui_email = [], ui_role = [], ui_token = [], ui_refreshToken = [], ui_expiresIn = 0\<rparr>"

record auth_manager =
  am_userInfo :: user_info
  am_authenticated :: bool
  am_initialized :: bool
  am_storage :: memory_storage
  am_session :: session
  am_hasCallback :: bool
  am_notified :: "bool list"

text \<open>The constructor leaves \<open>expiresIn\<close> as it finds it: \<open>garbage\<close>.\<close>

definition mk_AuthManager :: "int \<Rightarrow> auth_manager" where
  "mk_AuthManager garbage =
     \<lparr>am_userInfo = empty_user\<lparr>ui_expiresIn := garbage\<rparr>, am_authenticated = False, am_initialized = False,
      am_storage = snd (ms_open mk_MemoryStorage), am_session = \<lparr>ses_token = [], ses_data = []\<rparr>, am_hasCallback = False, am_notified = []\<rparr>"

definition saveAuthState :: "auth_manager \<Rightarrow> auth_manager" where
  "saveAuthState a =
     (let u = am_userInfo a; st = am_storage a
      in a\<lparr>am_storage :=
           if am_authenticated a
           then snd (ms_put ''auth_refresh_token'' (ui_refreshToken u) (snd (ms_put ''auth_role'' (ui_role u)
                  (snd (ms_put ''auth_username'' (ui_username u) (snd (ms_put ''auth_token'' (ui_token u) st)))))))
           else snd (ms_remove ''auth_refresh_token'' (snd (ms_remove ''auth_role'' (snd (ms_remove ''auth_username'' (snd (ms_remove ''auth_token'' st)))))))\<rparr>)"

definition unwrapOr :: "'a \<Rightarrow> 'a result \<Rightarrow> 'a" where
  "unwrapOr d r = (case r of Inl _ \<Rightarrow> d | Inr v \<Rightarrow> v)"

definition loadAuthState :: "auth_manager \<Rightarrow> auth_manager" where
  "loadAuthState a =
     (let token = unwrapOr [] (ms_get ''auth_token'' (am_storage a))
      in if token = [] then a
         else a\<lparr>am_authenticated := True,
                am_userInfo := (am_userInfo a)\<lparr>
                  ui_token := token,
                  ui_username := unwrapOr [] (ms_get ''auth_username'' (am_storage a)),
                  ui_role := unwrapOr [] (ms_get ''auth_role'' (am_storage a)),
                  ui_refreshToken := unwrapOr [] (ms_get ''auth_refresh_token'' (am_storage a))\<rparr>,
                am_session := ses_setToken token (am_session a)\<rparr>)"

text \<open>The steps of \<open>login\<close> and \<open>logout\<close>, each of which runs under one lock at most.\<close>

datatype auth_act = SetUser user_info | SessionToken string | SessionSet string string | Save | Notify bool | ClearUser | SessionClear

fun am_act :: "auth_act \<Rightarrow> auth_manager \<Rightarrow> auth_manager" where
  "am_act (SetUser u) a = a\<lparr>am_userInfo := u, am_authenticated := True\<rparr>"
| "am_act (SessionToken t) a = a\<lparr>am_session := ses_setToken t (am_session a)\<rparr>"
| "am_act (SessionSet k v) a = a\<lparr>am_session := ses_set k v (am_session a)\<rparr>"
| "am_act Save a = saveAuthState a"
| "am_act (Notify b) a = (if am_hasCallback a then a\<lparr>am_notified := am_notified a @ [b]\<rparr> else a)"
| "am_act ClearUser a = a\<lparr>am_authenticated := False, am_userInfo := empty_user\<rparr>"
| "am_act SessionClear a = a\<lparr>am_session := ses_clear (am_session a)\<rparr>"

definition login_acts :: "user_info \<Rightarrow> auth_act list" where
  "login_acts u = [SetUser u, SessionToken (ui_token u), SessionSet ''username'' (ui_username u), SessionSet ''role'' (ui_role u), Save, Notify True]"

definition logout_acts :: "auth_act list" where
  "logout_acts = [ClearUser, Save, SessionClear, Notify False]"

text \<open>Whom a login admits; without a validator there is one built-in user.\<close>

definition login_user :: "(string \<Rightarrow> string \<Rightarrow> user_info result) option \<Rightarrow> string \<Rightarrow> string \<Rightarrow> user_info result" where
  "login_user validator username password =
     (if username = [] \<or> password = [] then Err (mk_error EC_AuthError ''Username and password are required'')
      else case validator of
        Some f \<Rightarrow> f username password
      | None \<Rightarrow>
          if username \<noteq> ''testuser'' \<or> password \<noteq> ''password'' then Err (mk_error EC_AuthError ''Invalid username or password'')
          else Ok \<lparr>ui_userId = ''1'', ui_username = username, ui_email = ''test@example.com'', ui_role = ''admin'', ui_token = ''Bearer test_token'',
                   ui_refreshToken = ''refresh_token'', ui_expiresIn = 3600\<rparr>)"

definition login :: "(string \<Rightarrow> string \<Rightarrow> user_info result) option \<Rightarrow> string \<Rightarrow> string \<Rightarrow> auth_manager \<Rightarrow> user_info result \<times> auth_manager" where
  "login validator username password a =
     (case login_user validator username password of
        Inl e \<Rightarrow> (Err e, a)
      | Inr u \<Rightarrow> (Ok u, fold am_act (login_acts u) a))"

definition logout :: "auth_manager \<Rightarrow> auth_manager" where
  "logout a = fold am_act logout_acts a"

definition am_init :: "auth_manager \<Rightarrow> unit result \<times> auth_manager" where
  "am_init a = (if am_initialized a then (Ok (), a) else (Ok (), (loadAuthState a)\<lparr>am_initialized := True\<rparr>))"

definition am_shutdown :: "auth_manager \<Rightarrow> auth_manager" where
  "am_shutdown a = (logout a)\<lparr>am_initialized := False\<rparr>"

definition am_refreshToken :: "int \<Rightarrow> auth_manager \<Rightarrow> string result \<times> auth_manager" where
  "am_refreshToken nowMs a =
     (if ui_refreshToken (am_userInfo a) = [] then (Err (mk_error EC_AuthError ''No refresh token available''), a)
      else let newToken = ''Bearer refreshed_token_'' @ dec_int nowMs
           in (Ok newToken, saveAuthState (a\<lparr>am_userInfo := (am_userInfo a)\<lparr>ui_token := newToken\<rparr>, am_session := ses_setToken newToken (am_session a)\<rparr>)))"

definition am_hasPermission :: "string \<Rightarrow> auth_manager \<Rightarrow> bool" where
  "am_hasPermission i a =
     (let role = ui_role (am_userInfo a)
      in if \<not> am_authenticated a \<or> role = [] then False
         else if role = ''admin'' then True
         else let perm = mk_Permission in if isRoleRegistered role perm then perm_hasPermission role i perm else False)"

definition am_hasRole :: "string \<Rightarrow> auth_manager \<Rightarrow> bool" where
  "am_hasRole role a \<longleftrightarrow> ui_role (am_userInfo a) = role"

definition setAuthStateCallback :: "bool \<Rightarrow> auth_manager \<Rightarrow> auth_manager" where
  "setAuthStateCallback b a = a\<lparr>am_hasCallback := b\<rparr>"

section \<open>Storage and permissions\<close>

lemma ms_put_get: "ms_isOpen s \<Longrightarrow> ms_get k' (snd (ms_put k v s)) = (if k' = k then Ok v else ms_get k' s)"
  by (simp add: ms_get_def ms_put_def update_conv')

lemma ms_remove_get: "ms_isOpen s \<Longrightarrow> ms_get k' (snd (ms_remove k s)) = (if k' = k then no_key else ms_get k' s)"
  by (simp add: ms_get_def ms_remove_def delete_conv')

lemma ms_open_kept [simp]: "ms_isOpen (snd (ms_put k v s)) = ms_isOpen s" "ms_isOpen (snd (ms_remove k s)) = ms_isOpen s"
  by (simp_all add: ms_put_def ms_remove_def)

lemma permSet_set: "set (fold (\<lambda>i ps. if isPermissionRegistered i p then List.insert i ps else ps) is ps) = set ps \<union> {i \<in> set is. isPermissionRegistered i p}"
  by (induction "is" arbitrary: ps) (auto simp: List.insert_def)

text \<open>What a role may do after it was registered: what its list names and is a permission.\<close>

lemma registerRole_hasPermission: "perm_hasPermission role' i (registerRole role is p)
    = (if role' = role then i \<in> set is \<and> isPermissionRegistered i p else perm_hasPermission role' i p)"
  by (simp add: perm_hasPermission_def registerRole_def update_conv' permSet_set Let_def)

datatype perm_op = RegisterPermission string string string | RegisterRole string "string list"

fun perm_step :: "perm_op \<Rightarrow> permission \<Rightarrow> permission" where
  "perm_step (RegisterPermission i n d) p = registerPermission i n d p"
| "perm_step (RegisterRole r is) p = registerRole r is p"

text \<open>No role ever has a permission that is not registered, whatever was registered in whatever order.\<close>

theorem roles_hold_registered_permissions: "perm_hasPermission role i (fold perm_step ops mk_Permission) \<Longrightarrow> isPermissionRegistered i (fold perm_step ops mk_Permission)"
proof -
  have step: "\<forall>r i. perm_hasPermission r i (perm_step ev p) \<longrightarrow> isPermissionRegistered i (perm_step ev p)"
    if "\<forall>r i. perm_hasPermission r i p \<longrightarrow> isPermissionRegistered i p" for ev p
  proof (cases ev)
    case (RegisterPermission j n d)
    then show ?thesis using that by (auto simp: registerPermission_def perm_hasPermission_def isPermissionRegistered_def update_conv')
  next
    case (RegisterRole r js)
    have "isPermissionRegistered i (registerRole r js p) = isPermissionRegistered i p" for i by (simp add: isPermissionRegistered_def registerRole_def Let_def)
    then show ?thesis using that RegisterRole by (auto simp: registerRole_hasPermission split: if_splits)
  qed
  have "\<forall>r i. perm_hasPermission r i (fold perm_step ops p) \<longrightarrow> isPermissionRegistered i (fold perm_step ops p)"
    if "\<forall>r i. perm_hasPermission r i p \<longrightarrow> isPermissionRegistered i p" for p
    using that
  proof (induction ops arbitrary: p)
    case (Cons ev ops)
    show ?case using Cons.IH [OF step [OF Cons.prems]] by simp
  qed simp
  from this [of mk_Permission] show "perm_hasPermission role i (fold perm_step ops mk_Permission) \<Longrightarrow> isPermissionRegistered i (fold perm_step ops mk_Permission)"
    by (simp add: mk_Permission_def perm_hasPermission_def)
qed

text \<open>The manager asks permissions that nobody has registered anything in: only the role \<open>admin\<close> has any.\<close>

theorem permission_means_admin: "am_hasPermission i a \<longleftrightarrow> am_authenticated a \<and> ui_role (am_userInfo a) = ''admin''"
  by (auto simp: am_hasPermission_def Let_def mk_Permission_def isRoleRegistered_def)

section \<open>Three copies of one state\<close>

text \<open>The manager, the storage and the session agree.\<close>

definition auth_inv :: "auth_manager \<Rightarrow> bool" where
  "auth_inv a \<longleftrightarrow>
     ms_isOpen (am_storage a) \<and> ses_token (am_session a) = ui_token (am_userInfo a) \<and>
     (if am_authenticated a
      then ms_get ''auth_token'' (am_storage a) = Ok (ui_token (am_userInfo a)) \<and> ms_get ''auth_username'' (am_storage a) = Ok (ui_username (am_userInfo a))
         \<and> ms_get ''auth_role'' (am_storage a) = Ok (ui_role (am_userInfo a)) \<and> ms_get ''auth_refresh_token'' (am_storage a) = Ok (ui_refreshToken (am_userInfo a))
      else ms_get ''auth_token'' (am_storage a) = no_key \<and> ms_get ''auth_username'' (am_storage a) = no_key
         \<and> ms_get ''auth_role'' (am_storage a) = no_key \<and> ms_get ''auth_refresh_token'' (am_storage a) = no_key
         \<and> ui_token (am_userInfo a) = [] \<and> ui_username (am_userInfo a) = [] \<and> ui_role (am_userInfo a) = [] \<and> ui_refreshToken (am_userInfo a) = [])"

lemma save_inv:
  assumes "ms_isOpen (am_storage a)" "ses_token (am_session a) = ui_token (am_userInfo a)"
    and "\<not> am_authenticated a \<Longrightarrow> ui_token (am_userInfo a) = [] \<and> ui_username (am_userInfo a) = [] \<and> ui_role (am_userInfo a) = [] \<and> ui_refreshToken (am_userInfo a) = []"
  shows "auth_inv (saveAuthState a)"
  using assms by (simp add: auth_inv_def saveAuthState_def Let_def ms_put_get ms_remove_get)

lemma inv_transfer:
  "auth_inv a \<Longrightarrow> am_storage b = am_storage a \<Longrightarrow> ses_token (am_session b) = ses_token (am_session a) \<Longrightarrow> am_userInfo b = am_userInfo a
    \<Longrightarrow> am_authenticated b = am_authenticated a \<Longrightarrow> auth_inv b"
  by (simp add: auth_inv_def)

lemma login_inv:
  assumes "auth_inv a"
  shows "auth_inv (snd (login validator username password a))"
proof (cases "login_user validator username password")
  case (Inr u)
  let ?b = "fold am_act [SetUser u, SessionToken (ui_token u), SessionSet ''username'' (ui_username u), SessionSet ''role'' (ui_role u)] a"
  have "auth_inv (saveAuthState ?b)" by (rule save_inv) (use assms in \<open>simp_all add: auth_inv_def ses_setToken_def ses_set_def\<close>)
  then have "auth_inv (am_act (Notify True) (saveAuthState ?b))" by (rule inv_transfer) simp_all
  then show ?thesis using Inr by (simp add: login_def login_acts_def)
qed (use assms in \<open>simp add: login_def\<close>)

lemma logout_inv:
  assumes "auth_inv a"
  shows "auth_inv (logout a)"
proof -
  let ?b = "am_act ClearUser a"
  have "auth_inv (am_act SessionClear (saveAuthState ?b))"
    using assms by (simp add: auth_inv_def saveAuthState_def Let_def ms_remove_get empty_user_def ses_clear_def)
  then have "auth_inv (am_act (Notify False) (am_act SessionClear (saveAuthState ?b)))" by (rule inv_transfer) simp_all
  then show ?thesis by (simp add: logout_def logout_acts_def)
qed

lemma refresh_inv:
  assumes "auth_inv a"
  shows "auth_inv (snd (am_refreshToken nowMs a))"
proof (cases "ui_refreshToken (am_userInfo a) = []")
  case False
  then have "am_authenticated a" using assms by (simp add: auth_inv_def split: if_splits)
  then show ?thesis using False assms by (simp add: am_refreshToken_def Let_def) (rule save_inv, simp_all add: auth_inv_def ses_setToken_def)
qed (use assms in \<open>simp add: am_refreshToken_def\<close>)

lemma load_noop:
  assumes "auth_inv a"
  shows "loadAuthState a = a"
proof (cases "unwrapOr [] (ms_get ''auth_token'' (am_storage a)) = []")
  case False
  then have "am_authenticated a" using assms by (auto simp: auth_inv_def unwrapOr_def split: if_splits)
  then have "unwrapOr [] (ms_get ''auth_token'' (am_storage a)) = ui_token (am_userInfo a)" "unwrapOr [] (ms_get ''auth_username'' (am_storage a)) = ui_username (am_userInfo a)"
    "unwrapOr [] (ms_get ''auth_role'' (am_storage a)) = ui_role (am_userInfo a)" "unwrapOr [] (ms_get ''auth_refresh_token'' (am_storage a)) = ui_refreshToken (am_userInfo a)"
    "ses_token (am_session a) = ui_token (am_userInfo a)"
    using assms by (simp_all add: auth_inv_def unwrapOr_def)
  with \<open>am_authenticated a\<close> show ?thesis unfolding loadAuthState_def Let_def by (simp add: ses_setToken_def)
qed (simp add: loadAuthState_def)

datatype auth_op = Login "(string \<Rightarrow> string \<Rightarrow> user_info result) option" string string | Logout | Refresh int | Load | SaveState | Init | Shutdown | SetCallback bool

fun am_step :: "auth_op \<Rightarrow> auth_manager \<Rightarrow> auth_manager" where
  "am_step (Login validator u p) a = snd (login validator u p a)"
| "am_step Logout a = logout a"
| "am_step (Refresh nowMs) a = snd (am_refreshToken nowMs a)"
| "am_step Load a = loadAuthState a"
| "am_step SaveState a = saveAuthState a"
| "am_step Init a = snd (am_init a)"
| "am_step Shutdown a = am_shutdown a"
| "am_step (SetCallback b) a = setAuthStateCallback b a"

lemma am_step_inv:
  assumes "auth_inv a"
  shows "auth_inv (am_step ev a)"
proof (cases ev)
  case SaveState
  then show ?thesis using assms by simp (rule save_inv, auto simp: auth_inv_def)
next
  case Init
  then show ?thesis using assms by (simp add: am_init_def load_noop inv_transfer [OF assms])
next
  case Shutdown
  then show ?thesis using inv_transfer [OF logout_inv [OF assms]] by (simp add: am_shutdown_def)
next
  case (SetCallback b)
  then show ?thesis using inv_transfer [OF assms] by (simp add: setAuthStateCallback_def)
qed (use assms in \<open>simp_all add: login_inv logout_inv refresh_inv load_noop\<close>)

lemma am_reachable_inv: "auth_inv (fold am_step ops (mk_AuthManager garbage))"
proof -
  have "auth_inv a \<Longrightarrow> auth_inv (fold am_step ops a)" for a by (induction ops arbitrary: a) (simp_all add: am_step_inv)
  moreover have "auth_inv (mk_AuthManager garbage)" by (simp add: auth_inv_def mk_AuthManager_def ms_open_def mk_MemoryStorage_def ms_get_def empty_user_def)
  ultimately show ?thesis by simp
qed


text \<open>So \<open>loadAuthState\<close>, which is to restore a login after a restart, never changes anything: the storage it reads lives and dies with the manager.\<close>

theorem auth_load_restores_nothing: "loadAuthState (fold am_step ops (mk_AuthManager garbage)) = fold am_step ops (mk_AuthManager garbage)"
  by (rule load_noop) (rule am_reachable_inv)

section \<open>A login and a logout at once\<close>

text \<open>The steps of a login and of a logout on two threads can be interleaved so that, from any state, both return with nobody authenticated and the session still
  holding the token of the user, and the callback, if there is one, told last that somebody is authenticated.\<close>

theorem auth_race_leaves_session:
  "\<exists>zs. zs \<in> shuffles (login_acts u) logout_acts \<and> \<not> am_authenticated (fold am_act zs a) \<and> ses_token (am_session (fold am_act zs a)) = ui_token u
    \<and> am_notified (fold am_act zs a) = am_notified a @ (if am_hasCallback a then [False, True] else [])"
proof (intro exI conjI)
  let ?zs = "[SetUser u, ClearUser, Save, SessionClear, Notify False, SessionToken (ui_token u), SessionSet ''username'' (ui_username u), SessionSet ''role'' (ui_role u), Save, Notify True]"
  show "?zs \<in> shuffles (login_acts u) logout_acts" by (simp add: login_acts_def logout_acts_def Cons_in_shuffles_iff)
  show "\<not> am_authenticated (fold am_act ?zs a)" by (simp add: saveAuthState_def Let_def)
  show "ses_token (am_session (fold am_act ?zs a)) = ui_token u" by (simp add: saveAuthState_def Let_def ses_setToken_def ses_set_def)
  show "am_notified (fold am_act ?zs a) = am_notified a @ (if am_hasCallback a then [False, True] else [])" by (simp add: saveAuthState_def Let_def)
qed

end
