(* ===== verification/SK_PluginManager.thy ===== *)
theory SK_PluginManager
  imports SK_Text "HOL-Library.AList"
begin

text \<open>
  The plugin manager of \<^verbatim>\<open>src/soul/plugin/plugin_manager.cpp\<close>. A shared library is the record of what its symbols are and return; opening it, closing it and every call
  of a function in it is logged. Opening a library twice gives the same library, which is unloaded when it was closed as often as opened. What a call of \<open>pluginInitialize\<close>
  returns is an argument. Functions of a library do not throw and do not call the manager, whose mutex is not recursive.
\<close>

section \<open>Libraries\<close>

text \<open>Of the metadata, what the manager looks at: \<open>id\<close>, which may be null, and \<open>abiVersion\<close>.\<close>

record plugin_metadata =
  md_id :: "string option"
  md_abiVersion :: int

definition PLUGIN_ABI_VERSION :: int where
  "PLUGIN_ABI_VERSION = 1"

text \<open>A symbol that is missing is \<open>None\<close> or \<open>False\<close>; a null pointer that a function returns is \<open>Some None\<close>.\<close>

record plugin_lib =
  lib_file :: string
  lib_getMetadata :: "plugin_metadata option option"
  lib_create :: "nat option option"
  lib_initialize :: bool
  lib_shutdown :: bool

datatype plugin_event = DlOpen plugin_lib | DlClose plugin_lib | MetadataCall plugin_lib | CreateCall plugin_lib | InitializeCall plugin_lib int | ShutdownCall plugin_lib

section \<open>The manager\<close>

record plugin_handle =
  ph_libraryHandle :: plugin_lib
  ph_plugin :: "nat option"
  ph_metadata :: plugin_metadata
  ph_initialized :: bool
  ph_enabled :: bool

record plugin_manager =
  pm_plugins :: "(string \<times> plugin_handle) list"
  pm_log :: "plugin_event list"

definition mk_PluginManager :: plugin_manager where
  "mk_PluginManager = \<lparr>pm_plugins = [], pm_log = []\<rparr>"

definition pm_emit :: "plugin_event list \<Rightarrow> plugin_manager \<Rightarrow> plugin_manager" where
  "pm_emit es s = s\<lparr>pm_log := pm_log s @ es\<rparr>"

text \<open>What the destructor of a handle does.\<close>

definition destroy_handle :: "plugin_handle \<Rightarrow> plugin_event list" where
  "destroy_handle h = (if ph_initialized h \<and> lib_shutdown (ph_libraryHandle h) then [ShutdownCall (ph_libraryHandle h)] else []) @ [DlClose (ph_libraryHandle h)]"

text \<open>\<open>handle\<close> is what \<^verbatim>\<open>dlopen\<close> returns.\<close>

definition loadNativePlugin :: "plugin_lib option \<Rightarrow> plugin_manager \<Rightarrow> bool \<times> plugin_manager" where
  "loadNativePlugin handle s =
     (case handle of
        None \<Rightarrow> (False, s)
      | Some l \<Rightarrow>
          (case lib_getMetadata l of
             None \<Rightarrow> (False, pm_emit [DlOpen l, DlClose l] s)
           | Some None \<Rightarrow> (False, pm_emit [DlOpen l, MetadataCall l, DlClose l] s)
           | Some (Some md) \<Rightarrow>
               (case md_id md of
                  None \<Rightarrow> (False, pm_emit [DlOpen l, MetadataCall l, DlClose l] s)
                | Some pluginId \<Rightarrow>
                    if md_abiVersion md \<noteq> PLUGIN_ABI_VERSION \<or> map_of (pm_plugins s) pluginId \<noteq> None
                    then (False, pm_emit [DlOpen l, MetadataCall l, DlClose l] s)
                    else let instance = (case lib_create l of Some p \<Rightarrow> p | None \<Rightarrow> None)
                         in (True, (pm_emit ([DlOpen l, MetadataCall l] @ (if lib_create l = None then [] else [CreateCall l])) s)
                              \<lparr>pm_plugins := AList.update pluginId
                                 \<lparr>ph_libraryHandle = l, ph_plugin = instance, ph_metadata = md, ph_initialized = False, ph_enabled = False\<rparr> (pm_plugins s)\<rparr>))))"

definition loadPlugin :: "plugin_lib option \<Rightarrow> plugin_manager \<Rightarrow> bool \<times> plugin_manager" where
  "loadPlugin handle s = loadNativePlugin handle s"

definition shutdownPluginLocked :: "string \<Rightarrow> plugin_manager \<Rightarrow> bool \<times> plugin_manager" where
  "shutdownPluginLocked pluginId s =
     (case map_of (pm_plugins s) pluginId of
        None \<Rightarrow> (False, s)
      | Some h \<Rightarrow>
          if \<not> ph_initialized h then (True, s)
          else (True, (pm_emit (if lib_shutdown (ph_libraryHandle h) then [ShutdownCall (ph_libraryHandle h)] else []) s)
                 \<lparr>pm_plugins := AList.update pluginId (h\<lparr>ph_initialized := False, ph_enabled := False\<rparr>) (pm_plugins s)\<rparr>))"

definition unloadPlugin :: "string \<Rightarrow> plugin_manager \<Rightarrow> bool \<times> plugin_manager" where
  "unloadPlugin pluginId s =
     (case map_of (pm_plugins s) pluginId of
        None \<Rightarrow> (False, s)
      | Some h \<Rightarrow>
          let s1 = (if ph_initialized h then snd (shutdownPluginLocked pluginId s) else s);
              h1 = the (map_of (pm_plugins s1) pluginId)
          in (True, (pm_emit (destroy_handle h1) s1)\<lparr>pm_plugins := AList.delete pluginId (pm_plugins s1)\<rparr>))"

definition initializePluginLocked :: "int \<Rightarrow> string \<Rightarrow> plugin_manager \<Rightarrow> bool \<times> plugin_manager" where
  "initializePluginLocked ret pluginId s =
     (case map_of (pm_plugins s) pluginId of
        None \<Rightarrow> (False, s)
      | Some h \<Rightarrow>
          if ph_initialized h then (True, s)
          else if \<not> lib_initialize (ph_libraryHandle h) then (False, s)
          else let s1 = pm_emit [InitializeCall (ph_libraryHandle h) ret] s
               in if ret \<noteq> 0 then (False, s1)
                  else (True, s1\<lparr>pm_plugins := AList.update pluginId (h\<lparr>ph_initialized := True, ph_enabled := True\<rparr>) (pm_plugins s)\<rparr>))"

definition initializePlugin :: "int \<Rightarrow> string \<Rightarrow> plugin_manager \<Rightarrow> bool \<times> plugin_manager" where
  "initializePlugin ret pluginId s = initializePluginLocked ret pluginId s"

definition shutdownPlugin :: "string \<Rightarrow> plugin_manager \<Rightarrow> bool \<times> plugin_manager" where
  "shutdownPlugin pluginId s = shutdownPluginLocked pluginId s"

text \<open>The entries of the directory, up to where its iterator throws if it does: whether it is a regular file, its extension, and what \<^verbatim>\<open>dlopen\<close> returns for it. \<open>libext\<close> is
  the extension of the platform.\<close>

definition loadAllPlugins :: "string \<Rightarrow> (bool \<times> string \<times> plugin_lib option) list \<Rightarrow> plugin_manager \<Rightarrow> plugin_manager" where
  "loadAllPlugins libext entries s =
     fold (\<lambda>(regular, ext, handle) s. if \<not> regular \<or> map lower_char ext \<noteq> libext then s else snd (loadPlugin handle s)) entries s"

text \<open>\<open>ret\<close> says what the call of each plugin returns.\<close>

definition initializeAllPlugins :: "(string \<Rightarrow> int) \<Rightarrow> plugin_manager \<Rightarrow> plugin_manager" where
  "initializeAllPlugins ret s = fold (\<lambda>i s. snd (initializePluginLocked (ret i) i s)) (map fst (pm_plugins s)) s"

definition shutdownAllPlugins :: "plugin_manager \<Rightarrow> plugin_manager" where
  "shutdownAllPlugins s = fold (\<lambda>i s. snd (shutdownPluginLocked i s)) (map fst (pm_plugins s)) s"

definition getPlugin :: "string \<Rightarrow> plugin_manager \<Rightarrow> nat option" where
  "getPlugin pluginId s = (case map_of (pm_plugins s) pluginId of Some h \<Rightarrow> ph_plugin h | None \<Rightarrow> None)"

definition getPluginIds :: "plugin_manager \<Rightarrow> string list" where
  "getPluginIds s = map fst (pm_plugins s)"

definition getAllPlugins :: "plugin_manager \<Rightarrow> nat list" where
  "getAllPlugins s = List.map_filter (\<lambda>(_, h). ph_plugin h) (pm_plugins s)"

definition isPluginLoaded :: "string \<Rightarrow> plugin_manager \<Rightarrow> bool" where
  "isPluginLoaded pluginId s \<longleftrightarrow> map_of (pm_plugins s) pluginId \<noteq> None"

definition isPluginInitialized :: "string \<Rightarrow> plugin_manager \<Rightarrow> bool" where
  "isPluginInitialized pluginId s = (case map_of (pm_plugins s) pluginId of Some h \<Rightarrow> ph_initialized h | None \<Rightarrow> False)"

definition pluginCount :: "plugin_manager \<Rightarrow> nat" where
  "pluginCount s = length (pm_plugins s)"

text \<open>The destructor of the manager destroys its handles.\<close>

definition destroy_manager :: "plugin_manager \<Rightarrow> plugin_event list" where
  "destroy_manager s = pm_log s @ concat (map (\<lambda>(_, h). destroy_handle h) (pm_plugins s))"

section \<open>Reading a log\<close>

text \<open>How often each library is open, and whether every call, and every closing, finds its library open.\<close>

fun lib_of :: "plugin_event \<Rightarrow> plugin_lib" where
  "lib_of (DlOpen l) = l"
| "lib_of (DlClose l) = l"
| "lib_of (MetadataCall l) = l"
| "lib_of (CreateCall l) = l"
| "lib_of (InitializeCall l r) = l"
| "lib_of (ShutdownCall l) = l"

fun open_after :: "(plugin_lib \<Rightarrow> nat) \<Rightarrow> plugin_event \<Rightarrow> (plugin_lib \<Rightarrow> nat)" where
  "open_after n (DlOpen l) = n(l := n l + 1)"
| "open_after n (DlClose l) = n(l := n l - 1)"
| "open_after n _ = n"

definition event_ok :: "(plugin_lib \<Rightarrow> nat) \<Rightarrow> plugin_event \<Rightarrow> bool" where
  "event_ok n e \<longleftrightarrow> (\<exists>l. e = DlOpen l) \<or> 0 < n (lib_of e)"

fun log_ok :: "(plugin_lib \<Rightarrow> nat) \<Rightarrow> plugin_event list \<Rightarrow> bool" where
  "log_ok n [] = True"
| "log_ok n (e # es) = (event_ok n e \<and> log_ok (open_after n e) es)"

abbreviation opened :: "(plugin_lib \<Rightarrow> nat) \<Rightarrow> plugin_event list \<Rightarrow> (plugin_lib \<Rightarrow> nat)" where
  "opened n es \<equiv> foldl open_after n es"

lemma log_ok_append: "log_ok n (es @ fs) \<longleftrightarrow> log_ok n es \<and> log_ok (opened n es) fs"
  by (induction es arbitrary: n) auto

lemma event_ok_simps [simp]:
  "event_ok n (DlOpen l)" "event_ok n (DlClose l) \<longleftrightarrow> 0 < n l" "event_ok n (MetadataCall l) \<longleftrightarrow> 0 < n l" "event_ok n (CreateCall l) \<longleftrightarrow> 0 < n l"
  "event_ok n (InitializeCall l r) \<longleftrightarrow> 0 < n l" "event_ok n (ShutdownCall l) \<longleftrightarrow> 0 < n l"
  by (auto simp: event_ok_def)

section \<open>Sums over the handles\<close>

definition weigh :: "('v \<Rightarrow> nat) \<Rightarrow> ('k \<times> 'v) list \<Rightarrow> nat" where
  "weigh f ps = sum_list (map (\<lambda>(_, v). f v) ps)"

lemma update_same: "map_of ps k = Some v \<Longrightarrow> AList.update k v ps = ps"
  by (induction ps) (auto split: if_splits)

lemma delete_update_same: "AList.delete k (AList.update k v ps) = AList.delete k ps"
  by (induction ps) auto

lemma weigh_update_new: "map_of ps k = None \<Longrightarrow> weigh f (AList.update k v ps) = weigh f ps + f v"
  by (induction ps) (auto simp: weigh_def)

lemma weigh_update_old: "map_of ps k = Some v \<Longrightarrow> weigh f (AList.update k v' ps) + f v = weigh f ps + f v'"
  by (induction ps) (auto simp: weigh_def split: if_splits)

lemma weigh_delete: "distinct (map fst ps) \<Longrightarrow> map_of ps k = Some v \<Longrightarrow> weigh f (AList.delete k ps) + f v = weigh f ps"
proof (induction ps)
  case (Cons p ps)
  obtain i h where p: "p = (i, h)" by force
  show ?case
  proof (cases "i = k")
    case True
    then have "AList.delete k ps = ps" using Cons.prems(1) p by (intro delete_id) simp
    then show ?thesis using True Cons.prems(2) p by (simp add: weigh_def)
  next
    case False
    then show ?thesis using Cons p by (simp add: weigh_def)
  qed
qed simp

lemma weigh_member: "map_of ps k = Some v \<Longrightarrow> f v \<le> weigh f ps"
  by (induction ps) (auto simp: weigh_def split: if_splits)

definition holds :: "plugin_lib \<Rightarrow> plugin_handle \<Rightarrow> nat" where
  "holds l h = of_bool (ph_libraryHandle h = l)"

definition runs :: "plugin_lib \<Rightarrow> plugin_handle \<Rightarrow> nat" where
  "runs l h = of_bool (ph_libraryHandle h = l \<and> ph_initialized h)"

section \<open>The invariant\<close>

definition pm_inv :: "plugin_manager \<Rightarrow> bool" where
  "pm_inv s \<longleftrightarrow> distinct (map fst (pm_plugins s)) \<and> log_ok (\<lambda>_. 0) (pm_log s) \<and> opened (\<lambda>_. 0) (pm_log s) = (\<lambda>l. weigh (holds l) (pm_plugins s))
     \<and> (\<forall>l. lib_shutdown l \<longrightarrow> count_list (pm_log s) (InitializeCall l 0) = count_list (pm_log s) (ShutdownCall l) + weigh (runs l) (pm_plugins s))"

lemma handle_open: "map_of (pm_plugins s) i = Some h \<Longrightarrow> 0 < weigh (holds (ph_libraryHandle h)) (pm_plugins s)"
  using weigh_member [of "pm_plugins s" i h "holds (ph_libraryHandle h)"] by (simp add: holds_def)

lemma pm_inv_extend:
  assumes "pm_inv s" "distinct (map fst ps)" "log_ok (\<lambda>l. weigh (holds l) (pm_plugins s)) es"
    and "opened (\<lambda>l. weigh (holds l) (pm_plugins s)) es = (\<lambda>l. weigh (holds l) ps)"
    and "\<And>l. lib_shutdown l \<Longrightarrow> count_list es (InitializeCall l 0) + weigh (runs l) (pm_plugins s) = count_list es (ShutdownCall l) + weigh (runs l) ps"
  shows "pm_inv ((pm_emit es s)\<lparr>pm_plugins := ps\<rparr>)"
proof -
  have "count_list (pm_log s @ es) (InitializeCall l 0) = count_list (pm_log s @ es) (ShutdownCall l) + weigh (runs l) ps" if "lib_shutdown l" for l
    using assms(1) assms(5) [OF that] that by (auto simp: pm_inv_def)
  then show ?thesis using assms(1-4) by (simp add: pm_inv_def log_ok_append pm_emit_def)
qed

lemma load_inv:
  assumes "pm_inv s"
  shows "pm_inv (snd (loadNativePlugin handle s))"
proof -
  have fail: "pm_inv (pm_emit ([DlOpen l] @ es @ [DlClose l]) s)" if "set es \<subseteq> {MetadataCall l}" "length es \<le> 1" for l es
    using pm_inv_extend [OF assms, of "pm_plugins s" "[DlOpen l] @ es @ [DlClose l]"] assms that
    by (cases es) (auto simp: pm_emit_def pm_inv_def)
  have good: "pm_inv ((pm_emit es s)\<lparr>pm_plugins := AList.update i h (pm_plugins s)\<rparr>)"
    if "es = [DlOpen l, MetadataCall l] \<or> es = [DlOpen l, MetadataCall l, CreateCall l]" "map_of (pm_plugins s) i = None" "ph_libraryHandle h = l" "\<not> ph_initialized h" for es i h l
    using pm_inv_extend [OF assms, of "AList.update i h (pm_plugins s)" es] assms that
    by (auto simp: pm_emit_def pm_inv_def distinct_update weigh_update_new holds_def runs_def fun_eq_iff)
  show ?thesis
    using assms fail [of "[]"] fail [of "[MetadataCall l]" l for l] good [of "[DlOpen l, MetadataCall l]" l for l] good [of "[DlOpen l, MetadataCall l, CreateCall l]" l for l]
    by (auto simp: loadNativePlugin_def Let_def split: option.split)
qed

text \<open>A change of one handle that keeps its library.\<close>

lemma update_inv:
  assumes "pm_inv s" "map_of (pm_plugins s) i = Some h" "ph_libraryHandle h' = ph_libraryHandle h"
    and "es = [] \<or> (\<exists>e. es = [e] \<and> lib_of e = ph_libraryHandle h \<and> (\<forall>n. open_after n e = n))"
    and "\<And>l. lib_shutdown l \<Longrightarrow> count_list es (InitializeCall l 0) + runs l h = count_list es (ShutdownCall l) + runs l h'"
  shows "pm_inv ((pm_emit es s)\<lparr>pm_plugins := AList.update i h' (pm_plugins s)\<rparr>)"
proof (rule pm_inv_extend [OF assms(1)])
  show "distinct (map fst (AList.update i h' (pm_plugins s)))" using assms(1) by (simp add: pm_inv_def distinct_update)
  show "log_ok (\<lambda>l. weigh (holds l) (pm_plugins s)) es" using assms(4) handle_open [OF assms(2)] by (auto simp: event_ok_def)
  have "weigh (holds l) (AList.update i h' (pm_plugins s)) = weigh (holds l) (pm_plugins s)" for l
    using weigh_update_old [OF assms(2), of "holds l" h'] assms(3) by (simp add: holds_def)
  moreover have "opened n es = n" for n using assms(4) by auto
  ultimately show "opened (\<lambda>l. weigh (holds l) (pm_plugins s)) es = (\<lambda>l. weigh (holds l) (AList.update i h' (pm_plugins s)))" by simp
  fix l :: plugin_lib assume "lib_shutdown l"
  then show "count_list es (InitializeCall l 0) + weigh (runs l) (pm_plugins s) = count_list es (ShutdownCall l) + weigh (runs l) (AList.update i h' (pm_plugins s))"
    using assms(5) [of l] weigh_update_old [OF assms(2), of "runs l" h'] by simp
qed

lemma initialize_inv:
  assumes "pm_inv s"
  shows "pm_inv (snd (initializePluginLocked ret i s))"
proof (cases "map_of (pm_plugins s) i")
  case (Some h)
  let ?e = "InitializeCall (ph_libraryHandle h) ret"
  consider "ph_initialized h \<or> \<not> lib_initialize (ph_libraryHandle h)" | "\<not> ph_initialized h" "lib_initialize (ph_libraryHandle h)" "ret \<noteq> 0"
    | "\<not> ph_initialized h" "lib_initialize (ph_libraryHandle h)" "ret = 0" by blast
  then show ?thesis
  proof cases
    case 2
    have "pm_inv ((pm_emit [?e] s)\<lparr>pm_plugins := AList.update i h (pm_plugins s)\<rparr>)"
      by (rule update_inv [OF assms Some refl]) (use 2 in \<open>auto\<close>)
    then show ?thesis using Some 2 by (simp add: initializePluginLocked_def update_same pm_emit_def)
  next
    case 3
    have "pm_inv ((pm_emit [?e] s)\<lparr>pm_plugins := AList.update i (h\<lparr>ph_initialized := True, ph_enabled := True\<rparr>) (pm_plugins s)\<rparr>)"
      by (rule update_inv [OF assms Some]) (use 3 in \<open>auto simp: runs_def\<close>)
    then show ?thesis using Some 3 by (simp add: initializePluginLocked_def)
  qed (use assms Some in \<open>auto simp: initializePluginLocked_def\<close>)
qed (use assms in \<open>simp add: initializePluginLocked_def\<close>)

lemma shutdown_inv:
  assumes "pm_inv s"
  shows "pm_inv (snd (shutdownPluginLocked i s))"
proof (cases "map_of (pm_plugins s) i")
  case (Some h)
  let ?e = "ShutdownCall (ph_libraryHandle h)"
  show ?thesis
  proof (cases "ph_initialized h")
    case True
    have "pm_inv ((pm_emit (if lib_shutdown (ph_libraryHandle h) then [?e] else []) s)
        \<lparr>pm_plugins := AList.update i (h\<lparr>ph_initialized := False, ph_enabled := False\<rparr>) (pm_plugins s)\<rparr>)"
      by (rule update_inv [OF assms Some]) (use True in \<open>auto simp: runs_def\<close>)
    then show ?thesis using Some True unfolding shutdownPluginLocked_def by (simp only: option.case if_False not_True_eq_False snd_conv)
  qed (use assms Some in \<open>simp add: shutdownPluginLocked_def\<close>)
qed (use assms in \<open>simp add: shutdownPluginLocked_def\<close>)

lemma unload_inv:
  assumes "pm_inv s"
  shows "pm_inv (snd (unloadPlugin i s))"
proof (cases "map_of (pm_plugins s) i")
  case (Some h)
  define s1 where "s1 = (if ph_initialized h then snd (shutdownPluginLocked i s) else s)"
  have i1: "pm_inv s1" using assms shutdown_inv by (simp add: s1_def)
  obtain h1 where h1: "map_of (pm_plugins s1) i = Some h1" "\<not> ph_initialized h1"
    using Some by (cases "ph_initialized h") (simp_all add: s1_def shutdownPluginLocked_def update_conv')
  have d: "weigh f (AList.delete i (pm_plugins s1)) + f h1 = weigh f (pm_plugins s1)" for f
    using weigh_delete [OF _ h1(1)] i1 by (simp add: pm_inv_def)
  have "pm_inv ((pm_emit [DlClose (ph_libraryHandle h1)] s1)\<lparr>pm_plugins := AList.delete i (pm_plugins s1)\<rparr>)"
  proof (rule pm_inv_extend [OF i1])
    show "distinct (map fst (AList.delete i (pm_plugins s1)))" using i1 by (simp add: pm_inv_def distinct_delete)
    show "log_ok (\<lambda>l. weigh (holds l) (pm_plugins s1)) [DlClose (ph_libraryHandle h1)]" using handle_open [OF h1(1)] by simp
    have "weigh (holds l) (AList.delete i (pm_plugins s1)) = weigh (holds l) (pm_plugins s1) - (if l = ph_libraryHandle h1 then 1 else 0)" for l
      using d [of "holds l"] by (auto simp: holds_def)
    then show "opened (\<lambda>l. weigh (holds l) (pm_plugins s1)) [DlClose (ph_libraryHandle h1)] = (\<lambda>l. weigh (holds l) (AList.delete i (pm_plugins s1)))"
      by (simp add: fun_eq_iff)
    show "count_list [DlClose (ph_libraryHandle h1)] (InitializeCall l 0) + weigh (runs l) (pm_plugins s1)
        = count_list [DlClose (ph_libraryHandle h1)] (ShutdownCall l) + weigh (runs l) (AList.delete i (pm_plugins s1))" for l
      using d [of "runs l"] h1(2) by (simp add: runs_def)
  qed
  then show ?thesis using Some h1 by (simp add: unloadPlugin_def s1_def [symmetric] Let_def destroy_handle_def)
qed (use assms in \<open>simp add: unloadPlugin_def\<close>)

datatype pm_op = Load "plugin_lib option" | Unload string | Initialize int string | ShutdownOne string | LoadAll string "(bool \<times> string \<times> plugin_lib option) list"
  | InitializeAll "string \<Rightarrow> int" | ShutdownAll

fun pm_step :: "pm_op \<Rightarrow> plugin_manager \<Rightarrow> plugin_manager" where
  "pm_step (Load handle) s = snd (loadPlugin handle s)"
| "pm_step (Unload i) s = snd (unloadPlugin i s)"
| "pm_step (Initialize ret i) s = snd (initializePlugin ret i s)"
| "pm_step (ShutdownOne i) s = snd (shutdownPlugin i s)"
| "pm_step (LoadAll libext entries) s = loadAllPlugins libext entries s"
| "pm_step (InitializeAll ret) s = initializeAllPlugins ret s"
| "pm_step ShutdownAll s = shutdownAllPlugins s"

lemma pm_step_inv:
  assumes "pm_inv s"
  shows "pm_inv (pm_step ev s)"
proof (cases ev)
  case (LoadAll libext entries)
  have "pm_inv (fold (\<lambda>(regular, ext, handle) s. if \<not> regular \<or> map lower_char ext \<noteq> libext then s else snd (loadPlugin handle s)) entries s)"
    by (rule fold_keeps) (use assms load_inv in \<open>auto simp: loadPlugin_def\<close>)
  then show ?thesis using LoadAll by (simp add: loadAllPlugins_def)
next
  case (InitializeAll ret)
  have "pm_inv (fold (\<lambda>i s. snd (initializePluginLocked (ret i) i s)) is s)" for "is" by (rule fold_keeps) (use assms initialize_inv in auto)
  then show ?thesis using InitializeAll by (simp add: initializeAllPlugins_def)
next
  case ShutdownAll
  have "pm_inv (fold (\<lambda>i s. snd (shutdownPluginLocked i s)) is s)" for "is" by (rule fold_keeps) (use assms shutdown_inv in auto)
  then show ?thesis using ShutdownAll by (simp add: shutdownAllPlugins_def)
qed (use assms in \<open>simp_all add: loadPlugin_def load_inv unload_inv initializePlugin_def initialize_inv shutdownPlugin_def shutdown_inv\<close>)

lemma pm_reachable_inv: "pm_inv (fold pm_step ops mk_PluginManager)"
  by (rule fold_keeps) (simp_all add: pm_step_inv, simp add: pm_inv_def mk_PluginManager_def weigh_def)

lemma destroy_handles:
  "log_ok (\<lambda>l. weigh (holds l) ps) (concat (map (\<lambda>(_, h). destroy_handle h) ps)) \<and> opened (\<lambda>l. weigh (holds l) ps) (concat (map (\<lambda>(_, h). destroy_handle h) ps)) = (\<lambda>_. 0)
    \<and> (lib_shutdown l \<longrightarrow> count_list (concat (map (\<lambda>(_, h). destroy_handle h) ps)) (ShutdownCall l) = weigh (runs l) ps)
    \<and> count_list (concat (map (\<lambda>(_, h). destroy_handle h) ps)) (InitializeCall l 0) = 0"
proof (induction ps)
  case (Cons p ps)
  obtain i h where p: "p = (i, h)" by force
  have w: "opened (\<lambda>l. weigh (holds l) (p # ps)) (destroy_handle h) = (\<lambda>l. weigh (holds l) ps)"
    by (auto simp: destroy_handle_def p weigh_def holds_def fun_eq_iff)
  have "log_ok (\<lambda>l. weigh (holds l) (p # ps)) (destroy_handle h)" by (simp add: destroy_handle_def p weigh_def holds_def)
  moreover have "lib_shutdown l \<longrightarrow> count_list (destroy_handle h) (ShutdownCall l) = runs l h" "count_list (destroy_handle h) (InitializeCall l 0) = 0"
    by (auto simp: destroy_handle_def runs_def)
  ultimately show ?case using Cons.IH w by (simp add: p log_ok_append) (simp add: weigh_def)
qed (simp add: weigh_def)

text \<open>C32 (safety). Whatever is loaded, initialised, shut down and unloaded in whatever order, over the life of the manager every library is closed as often as it is opened,
  no function of a library is called and none is closed while it is not open, and for a library that has a shutdown function it is called exactly once for every
  initialisation that succeeded.\<close>

theorem plugin_lifecycle_balanced:
  assumes "lib_shutdown l"
  shows "let events = destroy_manager (fold pm_step ops mk_PluginManager)
   in log_ok (\<lambda>_. 0) events \<and> opened (\<lambda>_. 0) events = (\<lambda>_. 0)
    \<and> count_list events (InitializeCall l 0) = count_list events (ShutdownCall l)"
  using assms pm_reachable_inv [of ops] destroy_handles [of "pm_plugins (fold pm_step ops mk_PluginManager)" l]
  by (simp add: Let_def destroy_manager_def pm_inv_def log_ok_append)

definition demo_lib :: plugin_lib where
  "demo_lib = \<lparr>lib_file = ''demo.so'', lib_getMetadata = Some (Some \<lparr>md_id = Some ''demo'', md_abiVersion = 1\<rparr>), lib_create = Some (Some 7), lib_initialize = True, lib_shutdown = True\<rparr>"

theorem plugin_lifecycle_balanced_witness:
  "let events = destroy_manager (fold pm_step [Load (Some demo_lib), Load (Some demo_lib), Initialize 0 ''demo'', Unload ''demo''] mk_PluginManager)
   in log_ok (\<lambda>_. 0) events \<and> opened (\<lambda>_. 0) events = (\<lambda>_. 0)
    \<and> count_list events (InitializeCall demo_lib 0) = count_list events (ShutdownCall demo_lib)"
  by (rule plugin_lifecycle_balanced) (simp add: demo_lib_def)

text \<open>What \<open>getPlugin\<close> hands out is a pointer that owns nothing: after the plugin is unloaded it points into a library that is closed.\<close>

theorem plugin_pointer_dangles:
  assumes "pm_inv s" "getPlugin i s = Some p" "map_of (pm_plugins s) i = Some h" "weigh (holds (ph_libraryHandle h)) (pm_plugins s) = 1"
  shows "\<exists>s'. unloadPlugin i s = (True, s') \<and> getPlugin i s' = None \<and> opened (\<lambda>_. 0) (pm_log s') (ph_libraryHandle h) = 0"
proof -
  define s1 where "s1 = (if ph_initialized h then snd (shutdownPluginLocked i s) else s)"
  obtain s' where s': "unloadPlugin i s = (True, s')" "pm_plugins s' = AList.delete i (pm_plugins s1)"
    using assms(3) by (simp add: unloadPlugin_def s1_def Let_def)
  have "AList.delete i (pm_plugins s1) = AList.delete i (pm_plugins s)" using assms(3) by (simp add: s1_def shutdownPluginLocked_def delete_update_same)
  moreover have "weigh (holds (ph_libraryHandle h)) (AList.delete i (pm_plugins s)) + holds (ph_libraryHandle h) h = 1"
    using weigh_delete [OF _ assms(3), of "holds (ph_libraryHandle h)"] assms(1,4) by (simp add: pm_inv_def)
  moreover have "pm_inv s'" using unload_inv [OF assms(1), of i] s'(1) by simp
  ultimately show ?thesis using s' by (simp add: pm_inv_def holds_def getPlugin_def delete_conv')
qed

end
