(* ===== verification/SK_EventBus.thy ===== *)
theory SK_EventBus
  imports SK_Text "HOL-Library.AList" "HOL-Library.Multiset"
begin

text \<open>
  The event buses of \<^verbatim>\<open>src/soul/event/event_bus.cpp\<close> and \<^verbatim>\<open>include/soul/event/typed_event_bus.h\<close>, and the \<open>Subscription\<close> objects that both hand out. A shared pointer to a
  handler is its number. A handler runs user code that may call the bus again, and publishers run on several threads: a publication is therefore a frame that keeps the copy
  of the handlers it still has to call, and any frame may go on at any time. What a handler does to the bus is a step like any other; how it ends is an argument. The bus
  outlives its subscriptions.
\<close>

section \<open>Subscriptions\<close>

text \<open>What a subscription captures: the key and the handler to take away. \<open>None\<close> is an empty function.\<close>

record ('k, 'h) subscription =
  sub_unsubscribeFn :: "('k \<times> 'h) option"
  sub_valid :: bool

definition sub_default :: "('k, 'h) subscription" where
  "sub_default = \<lparr>sub_unsubscribeFn = None, sub_valid = True\<rparr>"

definition sub_moved :: "('k, 'h) subscription" where
  "sub_moved = \<lparr>sub_unsubscribeFn = None, sub_valid = False\<rparr>"

definition sub_make :: "'k \<Rightarrow> 'h \<Rightarrow> ('k, 'h) subscription" where
  "sub_make k h = \<lparr>sub_unsubscribeFn = Some (k, h), sub_valid = True\<rparr>"

text \<open>\<open>unsubscribe\<close>: what is to be taken away, and the subscription after it.\<close>

definition sub_unsubscribe :: "('k, 'h) subscription \<Rightarrow> ('k \<times> 'h) option \<times> ('k, 'h) subscription" where
  "sub_unsubscribe s = (if sub_valid s then sub_unsubscribeFn s else None, s\<lparr>sub_valid := False\<rparr>)"

section \<open>The bus of texts\<close>

record default_bus =
  deb_table :: "(string \<times> nat list) list"
  deb_next :: nat

definition mk_DefaultEventBus :: default_bus where
  "mk_DefaultEventBus = \<lparr>deb_table = [], deb_next = 0\<rparr>"

text \<open>The handlers a publication copies.\<close>

definition deb_handlers :: "default_bus \<Rightarrow> string \<Rightarrow> nat list" where
  "deb_handlers b topic = (case map_of (deb_table b) topic of Some hs \<Rightarrow> hs | None \<Rightarrow> [])"

definition deb_subscribe :: "unit \<Rightarrow> string \<Rightarrow> default_bus \<Rightarrow> nat \<times> default_bus" where
  "deb_subscribe p topic b = (deb_next b, b\<lparr>deb_table := AList.update topic (deb_handlers b topic @ [deb_next b]) (deb_table b), deb_next := Suc (deb_next b)\<rparr>)"

text \<open>The function a subscription calls: all equal pointers go.\<close>

definition deb_unsubscribe :: "string \<Rightarrow> nat \<Rightarrow> default_bus \<Rightarrow> default_bus" where
  "deb_unsubscribe topic h b =
     (case map_of (deb_table b) topic of
        None \<Rightarrow> b
      | Some hs \<Rightarrow> b\<lparr>deb_table := AList.update topic (filter (\<lambda>x. x \<noteq> h) hs) (deb_table b)\<rparr>)"

definition deb_subscriberCount :: "string \<Rightarrow> default_bus \<Rightarrow> nat" where
  "deb_subscriberCount topic b = (case map_of (deb_table b) topic of Some hs \<Rightarrow> length hs | None \<Rightarrow> 0)"

section \<open>The typed bus\<close>

datatype DispatchPolicy = Sync | Async

text \<open>A wrapped handler: the type it was subscribed for, and its policy.\<close>

record typed_handler =
  th_id :: nat
  th_type :: string
  th_policy :: DispatchPolicy

record typed_bus =
  teb_table :: "((string \<times> string) \<times> typed_handler list) list"
  teb_next :: nat

definition mk_TypedEventBus :: typed_bus where
  "mk_TypedEventBus = \<lparr>teb_table = [], teb_next = 0\<rparr>"

definition teb_handlers :: "typed_bus \<Rightarrow> string \<times> string \<Rightarrow> typed_handler list" where
  "teb_handlers b key = (case map_of (teb_table b) key of Some hs \<Rightarrow> hs | None \<Rightarrow> [])"

definition teb_subscribe :: "DispatchPolicy \<Rightarrow> string \<times> string \<Rightarrow> typed_bus \<Rightarrow> typed_handler \<times> typed_bus" where
  "teb_subscribe policy key b =
     (let h = \<lparr>th_id = teb_next b, th_type = fst key, th_policy = policy\<rparr>
      in (h, b\<lparr>teb_table := AList.update key (teb_handlers b key @ [h]) (teb_table b), teb_next := Suc (teb_next b)\<rparr>))"

text \<open>The function a subscription calls: the first equal pointer goes, and the entry with its last.\<close>

definition teb_unsubscribe :: "string \<times> string \<Rightarrow> typed_handler \<Rightarrow> typed_bus \<Rightarrow> typed_bus" where
  "teb_unsubscribe key h b =
     (case map_of (teb_table b) key of
        None \<Rightarrow> b
      | Some hs \<Rightarrow> b\<lparr>teb_table := (if remove1 h hs = [] then AList.delete key (teb_table b) else AList.update key (remove1 h hs) (teb_table b))\<rparr>)"

definition teb_subscriberCount :: "string \<times> string \<Rightarrow> typed_bus \<Rightarrow> nat" where
  "teb_subscriberCount key b = (case map_of (teb_table b) key of Some hs \<Rightarrow> length hs | None \<Rightarrow> 0)"

definition teb_totalSubscriberCount :: "typed_bus \<Rightarrow> nat" where
  "teb_totalSubscriberCount b = sum_list (map (\<lambda>(_, hs). length hs) (teb_table b))"

definition teb_clear :: "typed_bus \<Rightarrow> typed_bus" where
  "teb_clear b = b\<lparr>teb_table := []\<rparr>"

section \<open>Publications\<close>

datatype handler_end = Returns | ThrowsStd string | ThrowsOther

text \<open>What a call of a handler leaves in the error log, and whether it ends the loop that called it. The bus of texts lets exceptions through.\<close>

definition deb_call :: "nat \<Rightarrow> string \<Rightarrow> handler_end \<Rightarrow> string list \<times> bool" where
  "deb_call h topic e = ([], e \<noteq> Returns)"

text \<open>The wrapper of a typed handler; \<open>fst key\<close> is the type of the data. A handler that is asynchronous is called on the thread pool, with its own handling of exceptions.\<close>

definition teb_call :: "typed_handler \<Rightarrow> string \<times> string \<Rightarrow> handler_end \<Rightarrow> string list \<times> bool" where
  "teb_call h key e =
     (if th_type h \<noteq> fst key then ([''Type mismatch in handler''], False)
      else (case e of
              Returns \<Rightarrow> []
            | ThrowsStd what \<Rightarrow> [(if th_policy h = Async then ''Async handler exception: '' else ''Handler exception: '') @ what]
            | ThrowsOther \<Rightarrow> [''Unknown exception''], False))"

record ('b, 'k, 'h, 'p) bus_ops =
  bo_handlers :: "'b \<Rightarrow> 'k \<Rightarrow> 'h list"
  bo_attach :: "'p \<Rightarrow> 'k \<Rightarrow> 'b \<Rightarrow> 'h \<times> 'b"
  bo_detach :: "'k \<Rightarrow> 'h \<Rightarrow> 'b \<Rightarrow> 'b"
  bo_call :: "'h \<Rightarrow> 'k \<Rightarrow> handler_end \<Rightarrow> string list \<times> bool"

definition deb_ops :: "(default_bus, string, nat, unit) bus_ops" where
  "deb_ops = \<lparr>bo_handlers = deb_handlers, bo_attach = deb_subscribe, bo_detach = deb_unsubscribe, bo_call = deb_call\<rparr>"

definition teb_ops :: "(typed_bus, string \<times> string, typed_handler, DispatchPolicy) bus_ops" where
  "teb_ops = \<lparr>bo_handlers = teb_handlers, bo_attach = teb_subscribe, bo_detach = teb_unsubscribe, bo_call = teb_call\<rparr>"

lemma ops_simps:
  "bo_handlers deb_ops = deb_handlers" "bo_attach deb_ops = deb_subscribe" "bo_detach deb_ops = deb_unsubscribe" "bo_call deb_ops = deb_call"
  "bo_handlers teb_ops = teb_handlers" "bo_attach teb_ops = teb_subscribe" "bo_detach teb_ops = teb_unsubscribe" "bo_call teb_ops = teb_call"
  by (simp_all add: deb_ops_def teb_ops_def)

record ('k, 'h, 'd) frame =
  fr_key :: 'k
  fr_data :: 'd
  fr_todo :: "'h list"
  fr_aborted :: bool

text \<open>A bus, the subscription objects of its clients, the publications so far, the calls made (by which publication, of which handler, with what) and the errors logged.\<close>

record ('b, 'k, 'h, 'd) bus_sys =
  bs_bus :: 'b
  bs_subs :: "('k, 'h) subscription list"
  bs_frames :: "('k, 'h, 'd) frame list"
  bs_calls :: "(nat \<times> 'h \<times> 'd) list"
  bs_errors :: "string list"

definition bs_init :: "'b \<Rightarrow> ('b, 'k, 'h, 'd) bus_sys" where
  "bs_init b = \<lparr>bs_bus = b, bs_subs = [], bs_frames = [], bs_calls = [], bs_errors = []\<rparr>"

text \<open>\<open>unsubscribe\<close> on object number \<open>i\<close>.\<close>

definition bs_unsubscribe :: "('b, 'k, 'h, 'p) bus_ops \<Rightarrow> nat \<Rightarrow> ('b, 'k, 'h, 'd) bus_sys \<Rightarrow> ('b, 'k, 'h, 'd) bus_sys" where
  "bs_unsubscribe ops i s =
     (let (gone, sub) = sub_unsubscribe (bs_subs s ! i); s1 = s\<lparr>bs_subs := (bs_subs s)[i := sub]\<rparr>
      in case gone of None \<Rightarrow> s1 | Some (k, h) \<Rightarrow> s1\<lparr>bs_bus := bo_detach ops k h (bs_bus s)\<rparr>)"

definition bs_moveConstruct :: "nat \<Rightarrow> ('b, 'k, 'h, 'd) bus_sys \<Rightarrow> ('b, 'k, 'h, 'd) bus_sys" where
  "bs_moveConstruct i s = s\<lparr>bs_subs := (bs_subs s)[i := sub_moved] @ [bs_subs s ! i]\<rparr>"

definition bs_moveAssign :: "('b, 'k, 'h, 'p) bus_ops \<Rightarrow> nat \<Rightarrow> nat \<Rightarrow> ('b, 'k, 'h, 'd) bus_sys \<Rightarrow> ('b, 'k, 'h, 'd) bus_sys" where
  "bs_moveAssign ops i j s =
     (if i = j then s
      else let s1 = bs_unsubscribe ops i s in s1\<lparr>bs_subs := (bs_subs s1)[i := bs_subs s1 ! j, j := sub_moved]\<rparr>)"

definition bs_publish :: "('b, 'k, 'h, 'p) bus_ops \<Rightarrow> 'k \<Rightarrow> 'd \<Rightarrow> ('b, 'k, 'h, 'd) bus_sys \<Rightarrow> ('b, 'k, 'h, 'd) bus_sys" where
  "bs_publish ops k d s = s\<lparr>bs_frames := bs_frames s @ [\<lparr>fr_key = k, fr_data = d, fr_todo = bo_handlers ops (bs_bus s) k, fr_aborted = False\<rparr>]\<rparr>"

text \<open>The next turn of the loop of publication number \<open>f\<close>; nothing if it is over.\<close>

definition bs_callNext :: "('b, 'k, 'h, 'p) bus_ops \<Rightarrow> nat \<Rightarrow> handler_end \<Rightarrow> ('b, 'k, 'h, 'd) bus_sys \<Rightarrow> ('b, 'k, 'h, 'd) bus_sys" where
  "bs_callNext ops f e s =
     (let fr = bs_frames s ! f
      in if fr_aborted fr then s
         else case fr_todo fr of
           [] \<Rightarrow> s
         | h # hs \<Rightarrow>
             (let (errs, abort) = bo_call ops h (fr_key fr) e
              in s\<lparr>bs_frames := (bs_frames s)[f := fr\<lparr>fr_todo := hs, fr_aborted := abort\<rparr>],
                   bs_calls := bs_calls s @ [(f, h, fr_data fr)], bs_errors := bs_errors s @ errs\<rparr>))"

datatype ('k, 'p, 'd) bus_op = Subscribe 'p 'k | NewSubscription | Unsubscribe nat | MoveConstruct nat | MoveAssign nat nat | Destroy nat | Publish 'k 'd | CallNext nat handler_end

text \<open>A step on an object or a publication that does not exist is none.\<close>

fun bs_step :: "('b, 'k, 'h, 'p) bus_ops \<Rightarrow> ('k, 'p, 'd) bus_op \<Rightarrow> ('b, 'k, 'h, 'd) bus_sys \<Rightarrow> ('b, 'k, 'h, 'd) bus_sys" where
  "bs_step ops (Subscribe p k) s = (let (h, b) = bo_attach ops p k (bs_bus s) in s\<lparr>bs_bus := b, bs_subs := bs_subs s @ [sub_make k h]\<rparr>)"
| "bs_step ops NewSubscription s = s\<lparr>bs_subs := bs_subs s @ [sub_default]\<rparr>"
| "bs_step ops (Unsubscribe i) s = (if i < length (bs_subs s) then bs_unsubscribe ops i s else s)"
| "bs_step ops (MoveConstruct i) s = (if i < length (bs_subs s) then bs_moveConstruct i s else s)"
| "bs_step ops (MoveAssign i j) s = (if i < length (bs_subs s) \<and> j < length (bs_subs s) then bs_moveAssign ops i j s else s)"
| "bs_step ops (Destroy i) s = (if i < length (bs_subs s) then let s1 = bs_unsubscribe ops i s in s1\<lparr>bs_subs := (bs_subs s1)[i := sub_moved]\<rparr> else s)"
| "bs_step ops (Publish k d) s = bs_publish ops k d s"
| "bs_step ops (CallNext f e) s = (if f < length (bs_frames s) then bs_callNext ops f e s else s)"

section \<open>What subscriptions hold\<close>

text \<open>The handlers that the valid subscriptions would take away.\<close>

definition hold :: "('k, 'h) subscription \<Rightarrow> ('k \<times> 'h) multiset" where
  "hold s = (if sub_valid s then (case sub_unsubscribeFn s of None \<Rightarrow> {#} | Some x \<Rightarrow> {#x#}) else {#})"

definition held :: "('k, 'h) subscription list \<Rightarrow> ('k \<times> 'h) multiset" where
  "held subs = sum_list (map hold subs)"

lemma held_append [simp]: "held (subs @ subs') = held subs + held subs'"
  by (simp add: held_def)

lemma held_single [simp]: "held [s] = hold s"
  by (simp add: held_def)

lemma hold_simps [simp]: "hold sub_moved = {#}" "hold sub_default = {#}" "hold (sub_make k h) = {#(k, h)#}"
  by (simp_all add: hold_def sub_moved_def sub_default_def sub_make_def)

lemma held_update: "i < length subs \<Longrightarrow> held (subs[i := s]) + hold (subs ! i) = held subs + hold s"
proof (induction subs arbitrary: i)
  case (Cons a subs)
  then show ?case
  proof (cases i)
    case (Suc j)
    have "held (subs[j := s]) + hold (subs ! j) = held subs + hold s" using Cons Suc by simp
    then show ?thesis using Suc by (simp add: held_def add.assoc)
  qed (simp add: held_def add.commute)
qed simp

lemma sub_unsubscribe_hold:
  assumes "sub_unsubscribe s = (gone, s')"
  shows "hold s' = {#}" "hold s = (case gone of None \<Rightarrow> {#} | Some x \<Rightarrow> {#x#})"
  using assms by (auto simp: sub_unsubscribe_def hold_def split: if_splits option.split)

lemma held_taken: "i < length subs \<Longrightarrow> sub_unsubscribe (subs ! i) = (gone, s') \<Longrightarrow> held (subs[i := s']) + (case gone of None \<Rightarrow> {#} | Some x \<Rightarrow> {#x#}) = held subs"
  using held_update [of i subs s'] sub_unsubscribe_hold [of "subs ! i" gone s'] by simp

section \<open>The contract of a bus\<close>

text \<open>
  What both buses promise: a new handler comes last and has a number that was not used before, and taking a handler away leaves the others as they are. \<open>hid\<close> is the number of a
  handler, \<open>fresh\<close> the next number.
\<close>

locale event_bus =
  fixes bops :: "('b, 'k, 'h, 'p) bus_ops" and hid :: "'h \<Rightarrow> nat" and fresh :: "'b \<Rightarrow> nat" and good :: "'b \<Rightarrow> bool"
  assumes attach: "good b \<Longrightarrow> bo_attach bops p k b = (h, b') \<Longrightarrow> good b' \<and> hid h = fresh b \<and> fresh b' = Suc (fresh b) \<and> bo_handlers bops b' = (bo_handlers bops b)(k := bo_handlers bops b k @ [h])"
    and detach: "good b \<Longrightarrow> distinct (bo_handlers bops b k) \<Longrightarrow> good (bo_detach bops k h b) \<and> fresh (bo_detach bops k h b) = fresh b
      \<and> bo_handlers bops (bo_detach bops k h b) = (bo_handlers bops b)(k := filter (\<lambda>x. x \<noteq> h) (bo_handlers bops b k))"
begin

definition bus_inv :: "'b \<Rightarrow> ('k \<times> 'h) multiset \<Rightarrow> bool" where
  "bus_inv b M \<longleftrightarrow> good b \<and> (\<forall>x. count M x \<le> 1) \<and> (\<forall>k h. (k, h) \<in># M \<longrightarrow> hid h < fresh b)
     \<and> (\<forall>k. set (bo_handlers bops b k) = {h. (k, h) \<in># M} \<and> sorted_wrt (\<lambda>x y. hid x < hid y) (bo_handlers bops b k))"

lemma sorted_distinct: "sorted_wrt (\<lambda>x y. hid x < hid y) hs \<Longrightarrow> distinct hs"
  by (induction hs) auto

lemma attach_inv:
  assumes i: "bus_inv b M" and a: "bo_attach bops p k b = (h, b')"
  shows "bus_inv b' (add_mset (k, h) M)"
proof -
  have g: "good b" using i by (simp add: bus_inv_def)
  note A = attach [OF g a]
  have "(k', h) \<notin># M" for k' using i A unfolding bus_inv_def by (metis less_irrefl)
  then have c: "count (add_mset (k, h) M) x \<le> 1" for x using i by (cases x) (auto simp: bus_inv_def not_in_iff)
  have old: "hid x < fresh b" if "x \<in> set (bo_handlers bops b k')" for x k' using i that by (auto simp: bus_inv_def)
  have "sorted_wrt (\<lambda>x y. hid x < hid y) (bo_handlers bops b' k')" for k' using i A old [of _ k] by (auto simp: bus_inv_def sorted_wrt_append)
  moreover have "set (bo_handlers bops b' k') = {h'. (k', h') \<in># add_mset (k, h) M}" for k' using i A by (auto simp: bus_inv_def)
  moreover have "hid h' < fresh b'" if "(k', h') \<in># add_mset (k, h) M" for k' h' using i A that by (auto simp: bus_inv_def intro: less_SucI)
  ultimately show ?thesis using c A by (simp add: bus_inv_def)
qed

lemma detach_inv:
  assumes i: "bus_inv b (add_mset (k, h) M)"
  shows "bus_inv (bo_detach bops k h b) M"
proof -
  have g: "good b" "distinct (bo_handlers bops b k)" using i sorted_distinct by (simp_all add: bus_inv_def)
  note D = detach [OF g, of h]
  have "count M x \<le> 1" for x using i unfolding bus_inv_def by (metis count_add_mset le_SucI Suc_le_mono)
  moreover have n: "(k, h) \<notin># M" using i unfolding bus_inv_def not_in_iff by (metis One_nat_def Suc_le_mono count_add_mset le_zero_eq)
  moreover have "set (bo_handlers bops (bo_detach bops k h b) k') = {h'. (k', h') \<in># M}" for k' using i D n by (auto simp: bus_inv_def)
  moreover have "sorted_wrt (\<lambda>x y. hid x < hid y) (bo_handlers bops (bo_detach bops k h b) k')" for k' using i D by (auto simp: bus_inv_def sorted_wrt_filter)
  moreover have "hid h' < fresh (bo_detach bops k h b)" if "(k', h') \<in># M" for k' h' using i D that by (auto simp: bus_inv_def)
  ultimately show ?thesis using D by (simp add: bus_inv_def)
qed

definition sys_inv :: "('b, 'k, 'h, 'd) bus_sys \<Rightarrow> bool" where
  "sys_inv s \<longleftrightarrow> bus_inv (bs_bus s) (held (bs_subs s))"

lemma unsubscribe_inv:
  assumes "sys_inv s" "i < length (bs_subs s)"
  shows "sys_inv (bs_unsubscribe bops i s)" "length (bs_subs (bs_unsubscribe bops i s)) = length (bs_subs s)" "hold (bs_subs (bs_unsubscribe bops i s) ! i) = {#}"
proof -
  obtain gone sub where u: "sub_unsubscribe (bs_subs s ! i) = (gone, sub)" by force
  note t = held_taken [OF assms(2) u] sub_unsubscribe_hold [OF u]
  show "sys_inv (bs_unsubscribe bops i s)"
    using assms(1) t u detach_inv by (cases gone) (auto simp: bs_unsubscribe_def sys_inv_def)
  show "length (bs_subs (bs_unsubscribe bops i s)) = length (bs_subs s)" using u by (cases gone) (auto simp: bs_unsubscribe_def)
  show "hold (bs_subs (bs_unsubscribe bops i s) ! i) = {#}" using u assms(2) t(2) by (cases gone) (auto simp: bs_unsubscribe_def)
qed

lemma step_inv:
  assumes "sys_inv s"
  shows "sys_inv (bs_step bops ev s)"
proof (cases ev)
  case (Subscribe p k)
  obtain h b where "bo_attach bops p k (bs_bus s) = (h, b)" by force
  then show ?thesis using assms attach_inv Subscribe by (simp add: sys_inv_def)
next
  case (Unsubscribe i)
  then show ?thesis using assms unsubscribe_inv(1) [OF assms] by simp
next
  case (MoveConstruct i)
  have "held ((bs_subs s)[i := sub_moved]) + hold (bs_subs s ! i) = held (bs_subs s)" if "i < length (bs_subs s)" using held_update [OF that, of sub_moved] by simp
  then show ?thesis using assms MoveConstruct by (simp add: sys_inv_def bs_moveConstruct_def)
next
  case (MoveAssign i j)
  show ?thesis
  proof (cases "i < length (bs_subs s) \<and> j < length (bs_subs s) \<and> i \<noteq> j")
    case True
    define s1 where "s1 = bs_unsubscribe bops i s"
    have u: "sys_inv s1" "length (bs_subs s1) = length (bs_subs s)" "hold (bs_subs s1 ! i) = {#}" using unsubscribe_inv [OF assms] True by (simp_all add: s1_def)
    have "held ((bs_subs s1)[i := bs_subs s1 ! j]) = held (bs_subs s1) + hold (bs_subs s1 ! j)" using held_update [of i "bs_subs s1"] u True by simp
    moreover have "held ((bs_subs s1)[i := bs_subs s1 ! j, j := sub_moved]) + hold (bs_subs s1 ! j) = held ((bs_subs s1)[i := bs_subs s1 ! j])"
      using held_update [of j "(bs_subs s1)[i := bs_subs s1 ! j]" sub_moved] u True by simp
    ultimately have "held ((bs_subs s1)[i := bs_subs s1 ! j, j := sub_moved]) = held (bs_subs s1)" by simp
    then show ?thesis using u(1) True MoveAssign by (simp add: bs_moveAssign_def s1_def [symmetric] sys_inv_def Let_def)
  qed (use assms MoveAssign in \<open>auto simp: bs_moveAssign_def\<close>)
next
  case (Destroy i)
  show ?thesis
  proof (cases "i < length (bs_subs s)")
    case True
    define s1 where "s1 = bs_unsubscribe bops i s"
    have u: "sys_inv s1" "length (bs_subs s1) = length (bs_subs s)" "hold (bs_subs s1 ! i) = {#}" using unsubscribe_inv [OF assms True] by (simp_all add: s1_def)
    have "held ((bs_subs s1)[i := sub_moved]) = held (bs_subs s1)" using held_update [of i "bs_subs s1" sub_moved] u True by simp
    then show ?thesis using u(1) True Destroy by (simp add: s1_def [symmetric] sys_inv_def Let_def)
  qed (use assms Destroy in simp)
next
  case (CallNext f e)
  then show ?thesis using assms by (simp add: bs_callNext_def sys_inv_def Let_def split: list.split prod.split)
qed (use assms in \<open>simp_all add: sys_inv_def bs_publish_def\<close>)

lemma handlers_live: "sys_inv s \<Longrightarrow> set (bo_handlers bops (bs_bus s) k) = {h. (k, h) \<in># held (bs_subs s)} \<and> sorted_wrt (\<lambda>x y. hid x < hid y) (bo_handlers bops (bs_bus s) k)"
  by (simp add: sys_inv_def bus_inv_def)

lemma good_bus: "sys_inv s \<Longrightarrow> good (bs_bus s)"
  by (simp add: sys_inv_def bus_inv_def)

lemma reachable_inv: "bus_inv b {#} \<Longrightarrow> sys_inv (fold (bs_step bops) evs (bs_init b))"
  by (rule fold_keeps) (simp_all add: step_inv, simp add: sys_inv_def bs_init_def held_def)

end

subsection \<open>Both buses keep it\<close>

interpretation deb: event_bus deb_ops id deb_next "\<lambda>b. distinct (map fst (deb_table b))"
proof
  fix b b' :: default_bus and p k h
  assume g: "distinct (map fst (deb_table b))"
  show "bo_attach deb_ops p k b = (h, b') \<Longrightarrow> distinct (map fst (deb_table b')) \<and> id h = deb_next b \<and> deb_next b' = Suc (deb_next b)
      \<and> bo_handlers deb_ops b' = (bo_handlers deb_ops b)(k := bo_handlers deb_ops b k @ [h])"
    using g by (auto simp: deb_ops_def deb_subscribe_def deb_handlers_def distinct_update update_conv' fun_eq_iff)
  show "distinct (map fst (deb_table (bo_detach deb_ops k h b))) \<and> deb_next (bo_detach deb_ops k h b) = deb_next b
      \<and> bo_handlers deb_ops (bo_detach deb_ops k h b) = (bo_handlers deb_ops b)(k := filter (\<lambda>x. x \<noteq> h) (bo_handlers deb_ops b k))"
    using g by (cases "map_of (deb_table b) k") (auto simp: deb_ops_def deb_unsubscribe_def deb_handlers_def distinct_update update_conv' fun_eq_iff)
qed

text \<open>In the typed bus moreover every handler is of the type of its key.\<close>

definition teb_good :: "typed_bus \<Rightarrow> bool" where
  "teb_good b \<longleftrightarrow> distinct (map fst (teb_table b)) \<and> (\<forall>key. \<forall>h \<in> set (teb_handlers b key). th_type h = fst key)"

interpretation teb: event_bus teb_ops th_id teb_next teb_good
proof
  fix b b' :: typed_bus and p k h
  assume g: "teb_good b"
  show "teb_good b' \<and> th_id h = teb_next b \<and> teb_next b' = Suc (teb_next b) \<and> bo_handlers teb_ops b' = (bo_handlers teb_ops b)(k := bo_handlers teb_ops b k @ [h])"
    if "bo_attach teb_ops p k b = (h, b')"
  proof -
    have a: "th_id h = teb_next b" "th_type h = fst k" "b' = b\<lparr>teb_table := AList.update k (teb_handlers b k @ [h]) (teb_table b), teb_next := Suc (teb_next b)\<rparr>"
      using that by (auto simp: teb_ops_def teb_subscribe_def Let_def)
    have t: "teb_handlers b' = (teb_handlers b)(k := teb_handlers b k @ [h])" using a(3) by (auto simp: teb_handlers_def update_conv' fun_eq_iff)
    then have "teb_good b'" using g a unfolding teb_good_def t by (auto simp: distinct_update)
    then show ?thesis using a t by (simp add: teb_ops_def)
  qed
  assume d: "distinct (bo_handlers teb_ops b k)"
  have h: "teb_handlers (teb_unsubscribe k h b) = (teb_handlers b)(k := filter (\<lambda>x. x \<noteq> h) (teb_handlers b k))"
  proof (cases "map_of (teb_table b) k")
    case (Some hs)
    then have "remove1 h hs = filter (\<lambda>x. x \<noteq> h) hs" using d by (simp add: teb_ops_def teb_handlers_def distinct_remove1_removeAll removeAll_filter_not_eq) (metis)
    then show ?thesis using Some by (auto simp: teb_unsubscribe_def teb_handlers_def update_conv' delete_conv' fun_eq_iff)
  qed (auto simp: teb_unsubscribe_def teb_handlers_def fun_eq_iff)
  have "distinct (map fst (teb_table (teb_unsubscribe k h b)))" using g
    by (auto simp: teb_unsubscribe_def teb_good_def distinct_update distinct_delete split: option.split)
  then show "teb_good (bo_detach teb_ops k h b) \<and> teb_next (bo_detach teb_ops k h b) = teb_next b
      \<and> bo_handlers teb_ops (bo_detach teb_ops k h b) = (bo_handlers teb_ops b)(k := filter (\<lambda>x. x \<noteq> h) (bo_handlers teb_ops b k))"
    using g h by (auto simp: teb_ops_def teb_good_def) (simp add: teb_unsubscribe_def split: option.split)
qed

section \<open>Who is called\<close>

text \<open>The calls a publication has made, and those it has still to make.\<close>

definition calls_of :: "nat \<Rightarrow> ('b, 'k, 'h, 'd) bus_sys \<Rightarrow> ('h \<times> 'd) list" where
  "calls_of f s = map snd (filter (\<lambda>c. fst c = f) (bs_calls s))"

definition pending :: "nat \<Rightarrow> ('b, 'k, 'h, 'd) bus_sys \<Rightarrow> ('h \<times> 'd) list" where
  "pending f s = map (\<lambda>h. (h, fr_data (bs_frames s ! f))) (fr_todo (bs_frames s ! f))"

lemma unsubscribe_frames [simp]: "bs_frames (bs_unsubscribe bops i s) = bs_frames s" "bs_calls (bs_unsubscribe bops i s) = bs_calls s" "bs_errors (bs_unsubscribe bops i s) = bs_errors s"
  by (simp_all add: bs_unsubscribe_def Let_def split: prod.split option.split)

lemma step_frames:
  assumes "f < length (bs_frames s)"
  shows "f < length (bs_frames (bs_step bops ev s)) \<and> calls_of f (bs_step bops ev s) @ pending f (bs_step bops ev s) = calls_of f s @ pending f s"
proof (cases ev)
  case (CallNext g e)
  then show ?thesis using assms by (auto simp: bs_callNext_def calls_of_def pending_def Let_def nth_list_update split: list.split prod.split)
qed (use assms in \<open>auto simp: calls_of_def pending_def bs_moveConstruct_def bs_moveAssign_def bs_publish_def Let_def nth_append split: prod.split\<close>)

lemma run_frames:
  assumes "f < length (bs_frames s)"
  shows "calls_of f (fold (bs_step bops) evs s) @ pending f (fold (bs_step bops) evs s) = calls_of f s @ pending f s"
proof -
  have "f < length (bs_frames (fold (bs_step bops) evs s)) \<and> calls_of f (fold (bs_step bops) evs s) @ pending f (fold (bs_step bops) evs s) = calls_of f s @ pending f s"
    by (rule fold_keeps) (use assms step_frames in \<open>auto\<close>)
  then show ?thesis by simp
qed

lemma calls_bounded:
  fixes bops :: "('b, 'k, 'h, 'p) bus_ops" and evs :: "('k, 'p, 'd) bus_op list"
  shows "\<forall>c \<in> set (bs_calls (fold (bs_step bops) evs (bs_init b))). fst c < length (bs_frames (fold (bs_step bops) evs (bs_init b)))"
proof (rule fold_keeps)
  fix ev :: "('k, 'p, 'd) bus_op" and s :: "('b, 'k, 'h, 'd) bus_sys"
  assume i: "\<forall>c \<in> set (bs_calls s). fst c < length (bs_frames s)"
  show "\<forall>c \<in> set (bs_calls (bs_step bops ev s)). fst c < length (bs_frames (bs_step bops ev s))"
  proof (cases ev)
    case (CallNext g e)
    then show ?thesis using i by (auto simp: bs_callNext_def Let_def split: list.split prod.split)
  qed (use i in \<open>auto simp: bs_moveConstruct_def bs_moveAssign_def bs_publish_def Let_def less_Suc_eq split: prod.split\<close>)
qed (simp add: bs_init_def)

lemma publish_delivers:
  fixes bops :: "('b, 'k, 'h, 'p) bus_ops" and s s' :: "('b, 'k, 'h, 'd) bus_sys"
  assumes "s = fold (bs_step bops) evs1 (bs_init b)" "s' = fold (bs_step bops) evs2 (bs_publish bops k d s)"
  shows "calls_of (length (bs_frames s)) s' @ pending (length (bs_frames s)) s' = map (\<lambda>h. (h, d)) (bo_handlers bops (bs_bus s) k)"
proof -
  have "filter (\<lambda>c. fst c = length (bs_frames s)) (bs_calls s) = []" using calls_bounded [of bops evs1 b] assms(1) by (auto simp: filter_empty_conv)
  then have "calls_of (length (bs_frames s)) (bs_publish bops k d s) = []" by (simp add: calls_of_def bs_publish_def)
  then show ?thesis using run_frames [of "length (bs_frames s)" "bs_publish bops k d s" bops evs2] assms(2) by (simp add: bs_publish_def pending_def)
qed


subsection \<open>The typed bus\<close>

definition frame_ok :: "(string \<times> string, typed_handler, 'd) frame \<Rightarrow> bool" where
  "frame_ok fr \<longleftrightarrow> \<not> fr_aborted fr \<and> list_all (\<lambda>h. th_type h = fst (fr_key fr)) (fr_todo fr)"

definition typed_ok :: "(typed_bus, string \<times> string, typed_handler, 'd) bus_sys \<Rightarrow> bool" where
  "typed_ok s \<longleftrightarrow> teb.sys_inv s \<and> list_all frame_ok (bs_frames s) \<and> ''Type mismatch in handler'' \<notin> set (bs_errors s)"

lemma list_all_update: "list_all P xs \<Longrightarrow> P x \<Longrightarrow> list_all P (xs[i := x])"
  using set_update_subset_insert [of xs i x] by (auto simp: list_all_iff)

lemma typed_call:
  assumes "typed_ok s" "f < length (bs_frames s)"
  shows "list_all frame_ok (bs_frames (bs_callNext teb_ops f e s)) \<and> ''Type mismatch in handler'' \<notin> set (bs_errors (bs_callNext teb_ops f e s))"
proof -
  define fr where "fr = bs_frames s ! f"
  have fr: "frame_ok fr" using assms by (simp add: typed_ok_def list_all_length fr_def)
  show ?thesis
  proof (cases "fr_todo fr")
    case (Cons h hs)
    obtain errs where c: "teb_call h (fr_key fr) e = (errs, False)" "''Type mismatch in handler'' \<notin> set errs"
      using fr Cons by (auto simp: frame_ok_def teb_call_def split: handler_end.split)
    have "frame_ok (fr\<lparr>fr_todo := hs, fr_aborted := False\<rparr>)" using fr Cons by (simp add: frame_ok_def)
    then have "list_all frame_ok ((bs_frames s)[f := fr\<lparr>fr_todo := hs, fr_aborted := False\<rparr>])" using assms(1) by (intro list_all_update) (simp_all add: typed_ok_def)
    then show ?thesis using fr c Cons assms(1) by (simp add: bs_callNext_def fr_def [symmetric] ops_simps frame_ok_def typed_ok_def)
  qed (use fr assms(1) in \<open>simp add: bs_callNext_def fr_def [symmetric] frame_ok_def typed_ok_def\<close>)
qed

lemma typed_step:
  assumes "typed_ok s"
  shows "typed_ok (bs_step teb_ops ev s)"
proof -
  have i: "teb.sys_inv (bs_step teb_ops ev s)" using assms teb.step_inv [of s ev] by (simp add: typed_ok_def)
  show ?thesis
  proof (cases ev)
    case (Publish k d)
    have "list_all (\<lambda>h. th_type h = fst k) (teb_handlers (bs_bus s) k)" using assms teb.good_bus unfolding typed_ok_def teb_good_def list_all_iff by blast
    then show ?thesis using assms i Publish by (simp add: typed_ok_def bs_publish_def ops_simps frame_ok_def)
  next
    case (CallNext f e)
    then show ?thesis using assms i typed_call [OF assms] by (simp add: typed_ok_def)
  qed (use assms i in \<open>auto simp: typed_ok_def bs_moveConstruct_def bs_moveAssign_def Let_def split: prod.splits\<close>)
qed

lemma typed_reachable: "typed_ok (fold (bs_step teb_ops) evs (bs_init mk_TypedEventBus))"
proof (rule fold_keeps)
  have "teb.bus_inv mk_TypedEventBus {#}" by (simp add: teb.bus_inv_def mk_TypedEventBus_def ops_simps teb_handlers_def teb_good_def)
  then show "typed_ok (bs_init mk_TypedEventBus)" by (simp add: typed_ok_def teb.sys_inv_def bs_init_def held_def)
qed (rule typed_step)


text \<open>On the bus of texts a handler that throws ends the publication: the handlers after it are not called.\<close>

theorem throwing_handler_starves_others:
  fixes s :: "(default_bus, string, nat, 'd) bus_sys"
  assumes "f < length (bs_frames s)" "\<not> fr_aborted (bs_frames s ! f)" "fr_todo (bs_frames s ! f) = h # hs" "e \<noteq> Returns"
  shows "pending f (fold (bs_step deb_ops) evs (bs_step deb_ops (CallNext f e) s)) = map (\<lambda>h. (h, fr_data (bs_frames s ! f))) hs"
proof -
  define s1 where "s1 = bs_step deb_ops (CallNext f e) s"
  have s1: "f < length (bs_frames s1)" "fr_aborted (bs_frames s1 ! f)" "bs_frames s1 ! f = (bs_frames s ! f)\<lparr>fr_todo := hs, fr_aborted := True\<rparr>"
    using assms by (simp_all add: s1_def bs_callNext_def Let_def ops_simps deb_call_def)
  have "f < length (bs_frames (fold (bs_step deb_ops) evs s1)) \<and> bs_frames (fold (bs_step deb_ops) evs s1) ! f = bs_frames s1 ! f"
  proof (rule fold_keeps)
    fix ev and t :: "(default_bus, string, nat, 'd) bus_sys" assume t: "f < length (bs_frames t) \<and> bs_frames t ! f = bs_frames s1 ! f"
    show "f < length (bs_frames (bs_step deb_ops ev t)) \<and> bs_frames (bs_step deb_ops ev t) ! f = bs_frames s1 ! f"
      using t s1(2) by (cases ev) (auto simp: bs_moveConstruct_def bs_moveAssign_def bs_publish_def bs_callNext_def Let_def nth_append nth_list_update split: prod.split list.split)
  qed (use s1 in simp)
  then show ?thesis using s1(3) by (simp add: s1_def pending_def)
qed

text \<open>A publication that has begun still calls a handler whose subscription was taken back meanwhile; an empty subscription calls itself valid.\<close>

theorem unsubscribed_handler_still_called:
  "calls_of 0 (fold (bs_step deb_ops) [Subscribe () ''t'', Publish ''t'' ''x'', Unsubscribe 0, CallNext 0 Returns] (bs_init mk_DefaultEventBus)) = [(0, ''x'')]"
  by code_simp

theorem empty_subscription_is_valid: "sub_valid sub_default \<and> hold sub_default = {#}"
  by (simp add: sub_default_def hold_def)

end
