(* ===== verification/SK_Repository.thy ===== *)
theory SK_Repository
  imports SK_Migration
begin

text \<open>
  The repositories of the object-relational layer: \<^verbatim>\<open>include/soul/orm/base_repository.h\<close>, \<^verbatim>\<open>sqlite_repository.h\<close> (\<open>SqlRepository\<close>, over a pool of connections) and
  \<^verbatim>\<open>read_write_repository.h\<close>, with the entities of \<^verbatim>\<open>entity.h\<close>. The database driver is the record \<open>driver\<close> of the migrations; a pool is what it answers to a request, an
  error or nothing. A point in time is its milliseconds; its text form, \<open>toIso\<close> and \<open>fromIso\<close>, and the conversion \<open>toInt\<close> of a value belong to Qt and are parameters, and so are the
  identifiers that are generated. The dialect is not null, the properties of an entity are a function of their names, and an exception that leaves an operation is \<open>None\<close>.
\<close>

section \<open>Entities\<close>

record field_meta =
  fld_columnName :: string
  fld_isPrimaryKey :: bool

text \<open>The fields are a map ordered by name.\<close>

record table_meta =
  meta_tableName :: string
  meta_fields :: "(string \<times> field_meta) list"

record entity =
  en_id :: string
  en_createTime :: int
  en_updateTime :: int
  en_deleted :: int
  en_property :: "string \<Rightarrow> qvariant"

text \<open>\<open>beforeInsert\<close> reads the clock twice.\<close>

definition beforeInsert :: "int \<Rightarrow> int \<Rightarrow> entity \<Rightarrow> entity" where
  "beforeInsert t1 t2 e = e\<lparr>en_createTime := t1, en_updateTime := t2\<rparr>"

definition beforeUpdate :: "int \<Rightarrow> entity \<Rightarrow> entity" where
  "beforeUpdate t e = e\<lparr>en_updateTime := t\<rparr>"

definition setProperty :: "string \<Rightarrow> qvariant \<Rightarrow> entity \<Rightarrow> entity" where
  "setProperty name v e = e\<lparr>en_property := (en_property e)(name := v)\<rparr>"

section \<open>Statements\<close>

definition baseFields :: "string list" where
  "baseFields = [''createTime'', ''updateTime'', ''deleted'']"

definition skipped :: "string \<times> field_meta \<Rightarrow> bool" where
  "skipped nf \<longleftrightarrow> fld_isPrimaryKey (snd nf) \<or> fst nf \<in> set baseFields"

text \<open>The loop of \<open>generateInsertSql\<close>: columns, placeholders and the next index.\<close>

fun insert_loop :: "sql_dialect \<Rightarrow> int \<Rightarrow> (string \<times> field_meta) list \<Rightarrow> string list \<times> string list \<times> int" where
  "insert_loop dia i [] = ([], [], i)"
| "insert_loop dia i (nf # nfs) =
     (if skipped nf then insert_loop dia i nfs
      else let (cols, phs, j) = insert_loop dia (i + 1) nfs in (fld_columnName (snd nf) # cols, convertPlaceholder dia i # phs, j))"

definition generateInsertSql :: "sql_dialect \<Rightarrow> table_meta \<Rightarrow> string \<Rightarrow> string" where
  "generateInsertSql dia meta tableName =
     (let (cols, phs, i) = insert_loop dia 2 (meta_fields meta);
          columns = [''id''] @ cols @ [''create_time'', ''update_time'', sd_columnName (softDeleteConfig dia)];
          placeholders = [convertPlaceholder dia 1] @ phs @ [convertPlaceholder dia i, convertPlaceholder dia (i + 1), sd_logicNotDeletedValue (softDeleteConfig dia)]
      in ''INSERT INTO '' @ tableName @ ''('' @ join '','' columns @ '') VALUES ('' @ join '','' placeholders @ '')'')"

fun property_params :: "(string \<times> field_meta) list \<Rightarrow> entity \<Rightarrow> qvariant list" where
  "property_params [] e = []"
| "property_params (nf # nfs) e = (if skipped nf then property_params nfs e else en_property e (fst nf) # property_params nfs e)"

definition collectInsertParams :: "(int \<Rightarrow> string) \<Rightarrow> table_meta \<Rightarrow> entity \<Rightarrow> qvariant list" where
  "collectInsertParams toIso meta e = [QText (en_id e)] @ property_params (meta_fields meta) e @ [QText (toIso (en_createTime e)), QText (toIso (en_updateTime e))]"

fun update_loop :: "sql_dialect \<Rightarrow> int \<Rightarrow> (string \<times> field_meta) list \<Rightarrow> string list \<times> int" where
  "update_loop dia i [] = ([], i)"
| "update_loop dia i (nf # nfs) =
     (if skipped nf then update_loop dia i nfs
      else let (cls, j) = update_loop dia (i + 1) nfs in ((fld_columnName (snd nf) @ '' = '' @ convertPlaceholder dia i) # cls, j))"

text \<open>The two repositories separate the clauses in different ways.\<close>

definition generateUpdateSql :: "string \<Rightarrow> sql_dialect \<Rightarrow> table_meta \<Rightarrow> string \<Rightarrow> string" where
  "generateUpdateSql sep dia meta tableName =
     (let (cls, i) = update_loop dia 1 (meta_fields meta)
      in ''UPDATE '' @ tableName @ '' SET '' @ join sep (cls @ [''update_time = '' @ convertPlaceholder dia i]) @ '' WHERE id = '' @ convertPlaceholder dia (i + 1))"

definition collectUpdateParams :: "(int \<Rightarrow> string) \<Rightarrow> table_meta \<Rightarrow> entity \<Rightarrow> qvariant list" where
  "collectUpdateParams toIso meta e = property_params (meta_fields meta) e @ [QText (toIso (en_updateTime e)), QText (en_id e)]"

section \<open>The repository over a pool\<close>

definition fromQueryResult :: "(string \<Rightarrow> int) \<Rightarrow> (qvariant \<Rightarrow> int) \<Rightarrow> table_meta \<Rightarrow> entity \<Rightarrow> row \<Rightarrow> entity" where
  "fromQueryResult fromIso toInt meta blank r =
     (let e1 = (case map_of r ''id'' of Some v \<Rightarrow> blank\<lparr>en_id := toString v\<rparr> | None \<Rightarrow> blank);
          e2 = (case map_of r ''create_time'' of Some v \<Rightarrow> e1\<lparr>en_createTime := fromIso (toString v)\<rparr> | None \<Rightarrow> e1);
          e3 = (case map_of r ''update_time'' of Some v \<Rightarrow> e2\<lparr>en_updateTime := fromIso (toString v)\<rparr> | None \<Rightarrow> e2);
          e4 = (case map_of r ''deleted'' of Some v \<Rightarrow> e3\<lparr>en_deleted := toInt v\<rparr> | None \<Rightarrow> e3)
      in fold (\<lambda>(name, f) e. case map_of r (fld_columnName f) of Some v \<Rightarrow> setProperty name v e | None \<Rightarrow> e) (meta_fields meta) e4)"

text \<open>The errors of the pool and the driver are passed on under one code.\<close>

definition db_error :: "sc_error \<Rightarrow> 'a result" where
  "db_error e = Err (mk_error EC_DatabaseError (err_message e))"

text \<open>\<open>acq\<close> is the answer of the pool: \<open>None\<close> when it gives a connection. \<open>fromRow\<close> makes an entity of a row.\<close>

definition sq_find :: "sc_error option \<Rightarrow> 'd driver \<Rightarrow> sql_dialect \<Rightarrow> string \<Rightarrow> (row \<Rightarrow> entity) \<Rightarrow> query_wrapper \<Rightarrow> 'd \<Rightarrow> entity list result" where
  "sq_find acq dr dia tableName fromRow query d =
     (case acq of
        Some e \<Rightarrow> db_error e
      | None \<Rightarrow>
          (let q = qw_setDialect (Some dia) query
           in case dr_executeQuery dr (buildSelectSql q tableName) (getBindValues q) d of
                Inl e \<Rightarrow> db_error e
              | Inr rows \<Rightarrow> Ok (map fromRow rows)))"

text \<open>\<open>findOne\<close> and \<open>findById\<close> of \<open>BaseRepository\<close>, over any \<open>find\<close>.\<close>

definition findOne :: "(query_wrapper \<Rightarrow> 'e list result) \<Rightarrow> query_wrapper \<Rightarrow> 'e result" where
  "findOne fnd query =
     (case fnd (qw_setLimit 1 query) of
        Inl e \<Rightarrow> Err e
      | Inr es \<Rightarrow> (case es of [] \<Rightarrow> Err (mk_error EC_NotFound ''No record found'') | e # _ \<Rightarrow> Ok e))"

definition findById :: "(query_wrapper \<Rightarrow> 'e list result) \<Rightarrow> string \<Rightarrow> 'e result" where
  "findById fnd i = findOne fnd (qw_eq ''id'' (QText i) mk_QueryWrapper)"

definition findAll :: "(query_wrapper \<Rightarrow> 'e list result) \<Rightarrow> 'e list result" where
  "findAll fnd = fnd mk_QueryWrapper"

definition removeById :: "(query_wrapper \<Rightarrow> 'd \<Rightarrow> 'u \<times> 'd) \<Rightarrow> string \<Rightarrow> 'd \<Rightarrow> 'u \<times> 'd" where
  "removeById rm i = rm (qw_eq ''id'' (QText i) mk_QueryWrapper)"

definition existsById :: "(query_wrapper \<Rightarrow> 'e list result) \<Rightarrow> string \<Rightarrow> bool result" where
  "existsById fnd i = (case findById fnd i of Inr _ \<Rightarrow> Ok True | Inl e \<Rightarrow> if err_code e = EC_NotFound then Ok False else Err e)"

fun saveBatch :: "('e \<Rightarrow> 'd \<Rightarrow> 'e result \<times> 'd) \<Rightarrow> 'e list \<Rightarrow> 'd \<Rightarrow> 'e list result \<times> 'd" where
  "saveBatch save [] d = (Ok [], d)"
| "saveBatch save (e # es) d =
     (case save e d of
        (Inl err, d1) \<Rightarrow> (Err err, d1)
      | (Inr e1, d1) \<Rightarrow> (case saveBatch save es d1 of (Inl err, d2) \<Rightarrow> (Err err, d2) | (Inr es1, d2) \<Rightarrow> (Ok (e1 # es1), d2)))"

definition sq_execute :: "sc_error option \<Rightarrow> 'd driver \<Rightarrow> string \<Rightarrow> qvariant list \<Rightarrow> entity \<Rightarrow> 'd \<Rightarrow> entity result \<times> 'd" where
  "sq_execute acq dr sql params e d =
     (case acq of
        Some err \<Rightarrow> (db_error err, d)
      | None \<Rightarrow> (case dr_executeUpdate dr sql params d of (Inl err, d1) \<Rightarrow> (db_error err, d1) | (Inr _, d1) \<Rightarrow> (Ok e, d1)))"

definition insertInternal :: "sc_error option \<Rightarrow> 'd driver \<Rightarrow> sql_dialect \<Rightarrow> (int \<Rightarrow> string) \<Rightarrow> table_meta \<Rightarrow> string \<Rightarrow> entity \<Rightarrow> 'd \<Rightarrow> entity result \<times> 'd" where
  "insertInternal acq dr dia toIso meta tableName e d = sq_execute acq dr (generateInsertSql dia meta tableName) (collectInsertParams toIso meta e) e d"

definition updateInternal :: "sc_error option \<Rightarrow> 'd driver \<Rightarrow> sql_dialect \<Rightarrow> (int \<Rightarrow> string) \<Rightarrow> table_meta \<Rightarrow> string \<Rightarrow> entity \<Rightarrow> 'd \<Rightarrow> entity result \<times> 'd" where
  "updateInternal acq dr dia toIso meta tableName e d = sq_execute acq dr (generateUpdateSql '','' dia meta tableName) (collectUpdateParams toIso meta e) e d"

definition sq_save :: "sc_error option \<Rightarrow> 'd driver \<Rightarrow> sql_dialect \<Rightarrow> (int \<Rightarrow> string) \<Rightarrow> table_meta \<Rightarrow> string \<Rightarrow> string \<Rightarrow> int \<Rightarrow> int \<Rightarrow> entity \<Rightarrow> 'd \<Rightarrow> entity result \<times> 'd" where
  "sq_save acq dr dia toIso meta tableName uuid t1 t2 e d =
     (if en_id e = [] then insertInternal acq dr dia toIso meta tableName (beforeInsert t1 t2 (e\<lparr>en_id := uuid\<rparr>)) d
      else updateInternal acq dr dia toIso meta tableName (beforeUpdate t1 e) d)"

text \<open>A statement that the query wrapper refuses to build makes it throw, which the repository over a pool catches; \<open>what\<close> is the text of the exception.\<close>

definition sq_remove :: "sc_error option \<Rightarrow> 'd driver \<Rightarrow> sql_dialect \<Rightarrow> string \<Rightarrow> string \<Rightarrow> query_wrapper \<Rightarrow> 'd \<Rightarrow> unit result \<times> 'd" where
  "sq_remove acq dr dia tableName what query d =
     (case acq of
        Some e \<Rightarrow> (db_error e, d)
      | None \<Rightarrow>
          (let q = qw_setDialect (Some dia) query
           in case buildDeleteSql q tableName of
                None \<Rightarrow> (Err (mk_error EC_DatabaseError what), d)
              | Some sql \<Rightarrow> (case dr_executeUpdate dr sql (getBindValues q) d of (Inl e, d1) \<Rightarrow> (db_error e, d1) | (Inr _, d1) \<Rightarrow> (Ok (), d1))))"

text \<open>The count is the first value of the first row, in the order of the names of the columns.\<close>

definition sq_count :: "sc_error option \<Rightarrow> 'd driver \<Rightarrow> sql_dialect \<Rightarrow> (qvariant \<Rightarrow> int) \<Rightarrow> string \<Rightarrow> query_wrapper \<Rightarrow> 'd \<Rightarrow> int result" where
  "sq_count acq dr dia toInt tableName query d =
     (case acq of
        Some e \<Rightarrow> db_error e
      | None \<Rightarrow>
          (let q = qw_setDialect (Some dia) query
           in case dr_executeQuery dr (buildCountSql q tableName) (getBindValues q) d of
                Inl e \<Rightarrow> db_error e
              | Inr rows \<Rightarrow> (case rows of [] \<Rightarrow> Ok 0 | r # _ \<Rightarrow> Ok (toInt (snd (hd r))))))"

definition sq_executeSql :: "sc_error option \<Rightarrow> 'd driver \<Rightarrow> string \<Rightarrow> qvariant list \<Rightarrow> 'd \<Rightarrow> bool \<times> 'd" where
  "sq_executeSql acq dr sql params d = (case acq of Some _ \<Rightarrow> (False, d) | None \<Rightarrow> apfst isOk (dr_executeUpdate dr sql params d))"

section \<open>The repository over two drivers\<close>

text \<open>Reading and writing may go to different databases; the operations take the one they use.\<close>

definition rw_find :: "'d driver \<Rightarrow> sql_dialect \<Rightarrow> string \<Rightarrow> (row \<Rightarrow> entity) \<Rightarrow> query_wrapper \<Rightarrow> 'd \<Rightarrow> entity list result" where
  "rw_find dr dia tableName fromRow query d =
     (if \<not> dr_isConnected dr d then Err (mk_error EC_DatabaseError ''Read driver not connected'')
      else let q = qw_setDialect (Some dia) query
           in map_sum id (map fromRow) (dr_executeQuery dr (buildSelectSql q tableName) (getBindValues q) d))"

text \<open>The count is looked up as \<open>count\<close>; when there is no such column, the lookup throws.\<close>

definition rw_count :: "'d driver \<Rightarrow> sql_dialect \<Rightarrow> (qvariant \<Rightarrow> int) \<Rightarrow> string \<Rightarrow> query_wrapper \<Rightarrow> 'd \<Rightarrow> int result option" where
  "rw_count dr dia toInt tableName query d =
     (if \<not> dr_isConnected dr d then Some (Err (mk_error EC_DatabaseError ''Read driver not connected''))
      else let q = qw_setDialect (Some dia) query
           in case dr_executeQuery dr (buildCountSql q tableName) (getBindValues q) d of
                Inl e \<Rightarrow> Some (Err e)
              | Inr rows \<Rightarrow> (case rows of [] \<Rightarrow> Some (Ok 0) | r # _ \<Rightarrow> map_option (\<lambda>v. Ok (toInt v)) (map_of r ''count'')))"

definition rw_insert :: "'d driver \<Rightarrow> sql_dialect \<Rightarrow> (int \<Rightarrow> string) \<Rightarrow> table_meta \<Rightarrow> string \<Rightarrow> string \<Rightarrow> int \<Rightarrow> int \<Rightarrow> entity \<Rightarrow> 'd \<Rightarrow> entity result \<times> 'd" where
  "rw_insert dr dia toIso meta tableName uuid t1 t2 e d =
     (let e1 = beforeInsert t1 t2 (if en_id e = [] then e\<lparr>en_id := uuid\<rparr> else e)
      in case dr_executeUpdate dr (generateInsertSql dia meta tableName) (collectInsertParams toIso meta e1) d of
           (Inl err, d1) \<Rightarrow> (Err err, d1)
         | (Inr _, d1) \<Rightarrow> (Ok e1, d1))"

text \<open>\<open>t0\<close> is the time of the update that is tried first.\<close>

definition rw_save :: "'d driver \<Rightarrow> sql_dialect \<Rightarrow> (int \<Rightarrow> string) \<Rightarrow> table_meta \<Rightarrow> string \<Rightarrow> string \<Rightarrow> int \<Rightarrow> int \<Rightarrow> int \<Rightarrow> entity \<Rightarrow> 'd \<Rightarrow> entity result \<times> 'd" where
  "rw_save dr dia toIso meta tableName uuid t0 t1 t2 e d =
     (if \<not> dr_isConnected dr d then (Err (mk_error EC_DatabaseError ''Write driver not connected''), d)
      else if en_id e = [] then rw_insert dr dia toIso meta tableName uuid t1 t2 e d
      else let e0 = beforeUpdate t0 e
           in case dr_executeUpdate dr (generateUpdateSql '', '' dia meta tableName) (collectUpdateParams toIso meta e0) d of
                (Inl err, d1) \<Rightarrow> (Err err, d1)
              | (Inr n, d1) \<Rightarrow> if n > 0 then (Ok e0, d1) else rw_insert dr dia toIso meta tableName uuid t1 t2 e0 d1)"

definition rw_remove :: "'d driver \<Rightarrow> sql_dialect \<Rightarrow> string \<Rightarrow> query_wrapper \<Rightarrow> 'd \<Rightarrow> unit result option \<times> 'd" where
  "rw_remove dr dia tableName query d =
     (if \<not> dr_isConnected dr d then (Some (Err (mk_error EC_DatabaseError ''Write driver not connected'')), d)
      else let q = qw_setDialect (Some dia) query
           in case buildDeleteSql q tableName of
                None \<Rightarrow> (None, d)
              | Some sql \<Rightarrow> (case dr_executeUpdate dr sql (getBindValues q) d of (Inl e, d1) \<Rightarrow> (Some (Err e), d1) | (Inr _, d1) \<Rightarrow> (Some (Ok ()), d1)))"

definition rw_executeSql :: "'d driver \<Rightarrow> string \<Rightarrow> qvariant list \<Rightarrow> 'd \<Rightarrow> bool \<times> 'd" where
  "rw_executeSql dr sql params d = (if \<not> dr_isConnected dr d then (False, d) else apfst isOk (dr_executeUpdate dr sql params d))"

section \<open>The texts\<close>

text \<open>The columns of a table besides the four that every entity has, and the statements as a database reads them.\<close>

definition plain_fields :: "table_meta \<Rightarrow> (string \<times> field_meta) list" where
  "plain_fields meta = filter (\<lambda>nf. \<not> skipped nf) (meta_fields meta)"

definition plain_columns :: "table_meta \<Rightarrow> string list" where
  "plain_columns meta = map (\<lambda>nf. fld_columnName (snd nf)) (plain_fields meta)"

definition numbered :: "sql_dialect \<Rightarrow> nat \<Rightarrow> nat \<Rightarrow> string list" where
  "numbered dia k n = map (\<lambda>i. convertPlaceholder dia (int i)) [k..<k + n]"

definition insert_text :: "sql_dialect \<Rightarrow> string \<Rightarrow> string list \<Rightarrow> string" where
  "insert_text dia tbl cols = ''INSERT INTO '' @ tbl @ ''('' @ join '','' (''id'' # cols @ [''create_time'', ''update_time'', ''deleted''])
     @ '') VALUES ('' @ join '','' (numbered dia 1 (length cols + 3) @ [''0'']) @ '')''"

definition update_text :: "string \<Rightarrow> sql_dialect \<Rightarrow> string \<Rightarrow> string list \<Rightarrow> string" where
  "update_text sep dia tbl cols = ''UPDATE '' @ tbl @ '' SET '' @ join sep (map2 (\<lambda>c p. c @ '' = '' @ p) (cols @ [''update_time'']) (numbered dia 1 (length cols + 1)))
     @ '' WHERE id = '' @ convertPlaceholder dia (int (length cols + 2))"

definition select_text :: "sql_dialect \<Rightarrow> string \<Rightarrow> string" where
  "select_text dia tbl = ''SELECT * FROM '' @ tbl @ '' WHERE deleted = 0 AND id = '' @ convertPlaceholder dia 1 @ '' LIMIT 1''"

definition delete_text :: "sql_dialect \<Rightarrow> string \<Rightarrow> string" where
  "delete_text dia tbl = ''UPDATE '' @ tbl @ '' SET deleted = 1 WHERE deleted = 0 AND id = '' @ convertPlaceholder dia 1"

lemma numbered_simps [simp]:
  "numbered dia k 0 = []" "numbered dia k (Suc n) = convertPlaceholder dia (int k) # numbered dia (Suc k) n"
proof -
  show "numbered dia k (Suc n) = convertPlaceholder dia (int k) # numbered dia (Suc k) n" unfolding numbered_def by (subst upt_conv_Cons) simp_all
qed (simp add: numbered_def)

lemma length_numbered [simp]: "length (numbered dia k n) = n"
  by (simp add: numbered_def)

lemma numbered_add: "numbered dia k (m + n) = numbered dia k m @ numbered dia (k + m) n"
  by (induction m arbitrary: k) simp_all

lemma insert_loop_plain:
  "insert_loop dia (int k) fs = (let ps = filter (\<lambda>nf. \<not> skipped nf) fs
     in (map (\<lambda>nf. fld_columnName (snd nf)) ps, numbered dia k (length ps), int (k + length ps)))"
proof (induction fs arbitrary: k)
  case (Cons nf fs)
  then show ?case using Cons.IH [of "Suc k"] by (simp add: Let_def ac_simps)
qed simp

lemma update_loop_plain:
  "update_loop dia (int k) fs = (let ps = filter (\<lambda>nf. \<not> skipped nf) fs
     in (map2 (\<lambda>c p. c @ '' = '' @ p) (map (\<lambda>nf. fld_columnName (snd nf)) ps) (numbered dia k (length ps)), int (k + length ps)))"
proof (induction fs arbitrary: k)
  case (Cons nf fs)
  then show ?case using Cons.IH [of "Suc k"] by (simp add: Let_def ac_simps)
qed simp

lemma property_params_plain: "property_params fs e = map (\<lambda>nf. en_property e (fst nf)) (filter (\<lambda>nf. \<not> skipped nf) fs)"
  by (induction fs) simp_all

text \<open>What every dialect of the factory has in common.\<close>

lemma created_dialect:
  assumes "dialect_create ty = Some dia"
  shows "softDeleteConfig dia = default_soft_delete" "buildLimitOffset dia 1 (- 1) = ''LIMIT 1''" "convertPlaceholder dia k \<noteq> []"
proof -
  have "dec_int 1 = ''1''" by code_simp
  with assms show "softDeleteConfig dia = default_soft_delete" "buildLimitOffset dia 1 (- 1) = ''LIMIT 1''" "convertPlaceholder dia k \<noteq> []"
    by (auto simp: dialect_create_def SQLiteDialect_def MySqlDialect_def PostgreSqlDialect_def limit_offset_std_def limit_offset_mysql_def
      split: SqlDialectType.splits)
qed

lemma contains_ci_append: "contains_ci (xs @ sub @ ys) sub"
proof (induction xs)
  case Nil
  have "contains_ci zs sub" if "take (length sub) zs = sub" for zs using that by (cases zs) auto
  then show ?case by simp
qed simp

lemma contains_where: "contains_ci (xs @ '' WHERE'' @ ys) ''WHERE''"
  using contains_ci_append [of "xs @ '' ''" "''WHERE''" ys] by simp

lemma generateInsertSql_text:
  assumes "dialect_create ty = Some dia"
  shows "generateInsertSql dia meta tbl = insert_text dia tbl (plain_columns meta)"
proof -
  let ?n = "length (filter (\<lambda>nf. \<not> skipped nf) (meta_fields meta))"
  have n: "numbered dia (Suc 0) (3 + ?n) = convertPlaceholder dia 1 # numbered dia 2 ?n @ [convertPlaceholder dia (2 + int ?n), convertPlaceholder dia (3 + int ?n)]"
    using numbered_add [of dia 2 ?n 2] by (simp add: numeral_2_eq_2 numeral_3_eq_3 ac_simps)
  show ?thesis using insert_loop_plain [of dia 2 "meta_fields meta"]
    by (simp add: generateInsertSql_def insert_text_def created_dialect [OF assms] default_soft_delete_def plain_columns_def plain_fields_def n Let_def add_ac)
qed

lemma generateUpdateSql_text: "generateUpdateSql sep dia meta tbl = update_text sep dia tbl (plain_columns meta)"
proof -
  let ?n = "length (filter (\<lambda>nf. \<not> skipped nf) (meta_fields meta))"
  have n: "numbered dia 1 (?n + 1) = numbered dia 1 ?n @ [convertPlaceholder dia (1 + int ?n)]"
    using numbered_add [of dia 1 ?n 1] by simp
  show ?thesis using update_loop_plain [of dia 1 "meta_fields meta"]
    unfolding generateUpdateSql_def update_text_def plain_columns_def plain_fields_def length_map n
    by (simp add: Let_def add_ac)
qed

lemma select_by_id_text:
  assumes "dialect_create ty = Some dia"
  shows "buildSelectSql (qw_setDialect (Some dia) (qw_setLimit 1 (qw_eq ''id'' (QText i) mk_QueryWrapper))) tbl = select_text dia tbl"
    and "getBindValues (qw_setDialect (Some dia) (qw_setLimit 1 (qw_eq ''id'' (QText i) mk_QueryWrapper))) = [QText i]"
proof -
  show "buildSelectSql (qw_setDialect (Some dia) (qw_setLimit 1 (qw_eq ''id'' (QText i) mk_QueryWrapper))) tbl = select_text dia tbl"
    using contains_where [of "''SELECT * FROM '' @ tbl" "'' deleted = 0''"] created_dialect [OF assms]
    by (simp add: buildSelectSql_def qw_setDialect_def qw_setLimit_def qw_eq_def mk_QueryWrapper_def push_condition_def mk_Condition_def appendConditions_def
      sd_where_def sd_config_def default_soft_delete_def buildValueClause_def is_null_op_def is_in_op_def conditionStr_def placeholder_def qw_limitOffset_def select_text_def Let_def
      del: contains_ci.simps)
qed (simp add: getBindValues_def qw_setDialect_def qw_setLimit_def qw_eq_def mk_QueryWrapper_def push_condition_def mk_Condition_def cond_values_def is_null_op_def is_in_op_def)

lemma delete_by_id_text:
  assumes "dialect_create ty = Some dia"
  shows "buildDeleteSql (qw_setDialect (Some dia) (qw_eq ''id'' (QText i) mk_QueryWrapper)) tbl = Some (delete_text dia tbl)"
    and "getBindValues (qw_setDialect (Some dia) (qw_eq ''id'' (QText i) mk_QueryWrapper)) = [QText i]"
proof -
  show "buildDeleteSql (qw_setDialect (Some dia) (qw_eq ''id'' (QText i) mk_QueryWrapper)) tbl = Some (delete_text dia tbl)"
    using contains_where [of "''UPDATE '' @ tbl @ '' SET deleted = 1''" "'' deleted = 0''"] created_dialect [OF assms]
      contains_where [of "''UPDATE '' @ tbl @ '' SET deleted = 1''" "'' deleted = 0 AND id = '' @ convertPlaceholder dia 1"]
    by (simp add: buildDeleteSql_def full_table_guard_def delete_head_def qw_setDialect_def qw_eq_def mk_QueryWrapper_def push_condition_def mk_Condition_def appendConditions_def
      sd_config_def default_soft_delete_def buildValueClause_def is_null_op_def is_in_op_def conditionStr_def placeholder_def delete_text_def Let_def
      del: contains_ci.simps)
qed (simp add: getBindValues_def qw_setDialect_def qw_eq_def mk_QueryWrapper_def push_condition_def mk_Condition_def cond_values_def is_null_op_def is_in_op_def)

section \<open>What the statements do\<close>

text \<open>
  A table is a map of the identifiers to its rows, which are maps of the columns. The contract says of the five statements what SQL says of them when the values are bound in the order of
  the placeholders: a failed statement changes nothing, the identifier is the key of the table, and an update counts the rows it finds.
\<close>

type_synonym table = "string \<rightharpoonup> string \<rightharpoonup> qvariant"

definition live :: "table \<Rightarrow> string \<Rightarrow> bool" where
  "live tab i \<longleftrightarrow> (\<exists>row. tab i = Some row \<and> row ''deleted'' = Some (QNumber 0))"

definition inserted_row :: "string list \<Rightarrow> string \<Rightarrow> qvariant list \<Rightarrow> qvariant list \<Rightarrow> string \<rightharpoonup> qvariant" where
  "inserted_row cols i vs ts = map_of (zip (''id'' # cols @ [''create_time'', ''update_time'', ''deleted'']) (QText i # vs @ ts @ [QNumber 0]))"

definition writes_contract :: "'d driver \<Rightarrow> sql_dialect \<Rightarrow> string \<Rightarrow> string list \<Rightarrow> ('d \<Rightarrow> table) \<Rightarrow> bool" where
  "writes_contract dr dia tbl cols vw \<longleftrightarrow>
     (\<forall>i vs c u d r d1. length vs = length cols \<longrightarrow> dr_executeUpdate dr (insert_text dia tbl cols) (QText i # vs @ [c, u]) d = (r, d1) \<longrightarrow>
        (case r of Inl _ \<Rightarrow> vw d1 = vw d | Inr _ \<Rightarrow> vw d i = None \<and> vw d1 = (vw d)(i \<mapsto> inserted_row cols i vs [c, u])))
   \<and> (\<forall>sep i vs u d r d1. sep = '','' \<or> sep = '', '' \<longrightarrow> length vs = length cols \<longrightarrow> dr_executeUpdate dr (update_text sep dia tbl cols) (vs @ [u, QText i]) d = (r, d1) \<longrightarrow>
        (case r of Inl _ \<Rightarrow> vw d1 = vw d
         | Inr n \<Rightarrow> (case vw d i of None \<Rightarrow> n = 0 \<and> vw d1 = vw d
                     | Some row \<Rightarrow> n = 1 \<and> vw d1 = (vw d)(i \<mapsto> row ++ map_of (zip (cols @ [''update_time'']) (vs @ [u]))))))
   \<and> (\<forall>i d r d1. dr_executeUpdate dr (delete_text dia tbl) [QText i] d = (r, d1) \<longrightarrow>
        (case r of Inl _ \<Rightarrow> vw d1 = vw d
         | Inr _ \<Rightarrow> vw d1 = (if live (vw d) i then (vw d)(i \<mapsto> (the (vw d i))(''deleted'' \<mapsto> QNumber 1)) else vw d)))"

definition reads_contract :: "'d driver \<Rightarrow> sql_dialect \<Rightarrow> string \<Rightarrow> ('d \<Rightarrow> table) \<Rightarrow> bool" where
  "reads_contract dr dia tbl vw \<longleftrightarrow>
     (\<forall>i d. \<exists>rows. dr_executeQuery dr (select_text dia tbl) [QText i] d = Ok rows \<and> map map_of rows = (if live (vw d) i then [the (vw d i)] else []))"

text \<open>The names of the fields are distinct, as in a map, and their columns are distinct and none of the four every table has.\<close>

definition meta_ok :: "table_meta \<Rightarrow> bool" where
  "meta_ok meta \<longleftrightarrow> distinct (map fst (meta_fields meta)) \<and> distinct (plain_columns meta)
     \<and> list_all (\<lambda>c. c \<notin> set [''id'', ''create_time'', ''update_time'', ''deleted'']) (plain_columns meta)"

text \<open>A row holds an entity.\<close>

definition holds_entity :: "(int \<Rightarrow> string) \<Rightarrow> table_meta \<Rightarrow> entity \<Rightarrow> (string \<rightharpoonup> qvariant) \<Rightarrow> bool" where
  "holds_entity toIso meta e row \<longleftrightarrow> row ''id'' = Some (QText (en_id e)) \<and> row ''update_time'' = Some (QText (toIso (en_updateTime e)))
     \<and> list_all (\<lambda>nf. row (fld_columnName (snd nf)) = Some (en_property e (fst nf))) (plain_fields meta)"

definition keyed :: "table \<Rightarrow> bool" where
  "keyed tab \<longleftrightarrow> (\<forall>i row. tab i = Some row \<longrightarrow> row ''id'' = Some (QText i))"

lemma map_of_zip_plain:
  assumes "distinct (map f xs)" "x \<in> set xs" shows "map_of (zip (map f xs) (map g xs)) (f x) = Some (g x)"
proof -
  have "zip (map f xs) (map g xs) = map (\<lambda>x. (f x, g x)) xs" by (induction xs) simp_all
  with assms show ?thesis by (auto simp: comp_def)
qed

lemma map_of_zip_absent: "k \<notin> set ks \<Longrightarrow> map_of (zip ks vs) k = None"
  by (induction ks vs rule: list_induct2') simp_all

lemma plain_values: "nf \<in> set (plain_fields meta) \<Longrightarrow> meta_ok meta \<Longrightarrow>
   map_of (zip (plain_columns meta) (property_params (meta_fields meta) e)) (fld_columnName (snd nf)) = Some (en_property e (fst nf))"
  unfolding meta_ok_def plain_columns_def property_params_plain plain_fields_def [symmetric]
  using map_of_zip_plain [of "\<lambda>nf. fld_columnName (snd nf)" "plain_fields meta" nf "\<lambda>nf. en_property e (fst nf)"] by simp

lemma length_params [simp]: "length (property_params (meta_fields meta) e) = length (plain_columns meta)"
  by (simp add: property_params_plain plain_columns_def plain_fields_def)

lemma plain_columns_in: "nf \<in> set (plain_fields meta) \<Longrightarrow> fld_columnName (snd nf) \<in> set (plain_columns meta)"
  by (auto simp: plain_columns_def)

lemma meta_okD: "meta_ok meta \<Longrightarrow> c \<in> set (plain_columns meta) \<Longrightarrow> c \<noteq> ''id'' \<and> c \<noteq> ''create_time'' \<and> c \<noteq> ''update_time'' \<and> c \<noteq> ''deleted''"
  by (auto simp: meta_ok_def list_all_iff)

lemma inserted_row_simps:
  assumes "length vs = length cols" "c \<notin> set cols" "t = [ct, ut]"
  shows "inserted_row cols i vs t c = (if c = ''id'' then Some (QText i) else if c = ''create_time'' then Some ct
    else if c = ''update_time'' then Some ut else if c = ''deleted'' then Some (QNumber 0) else None)"
  using assms by (auto simp: inserted_row_def map_add_def map_of_zip_absent)

lemma inserted_row_column:
  assumes "length vs = length cols" "c \<in> set cols" "c \<noteq> ''id''" "length t = 2"
  shows "inserted_row cols i vs t c = map_of (zip cols vs) c"
proof -
  obtain v where "map_of (zip cols vs) c = Some v" using assms(1,2) map_of_zip_is_None [of cols vs c] by (cases "map_of (zip cols vs) c") simp_all
  with assms show ?thesis by (simp add: inserted_row_def map_add_def)
qed

lemma insert_holds:
  assumes "meta_ok meta"
  shows "holds_entity toIso meta e (inserted_row (plain_columns meta) (en_id e) (property_params (meta_fields meta) e) [ct, QText (toIso (en_updateTime e))])"
  unfolding holds_entity_def list_all_iff
proof (intro conjI ballI)
  fix nf assume nf: "nf \<in> set (plain_fields meta)"
  show "inserted_row (plain_columns meta) (en_id e) (property_params (meta_fields meta) e) [ct, QText (toIso (en_updateTime e))] (fld_columnName (snd nf)) = Some (en_property e (fst nf))"
    using plain_columns_in [OF nf] meta_okD [OF assms plain_columns_in [OF nf]] plain_values [OF nf assms] by (simp add: inserted_row_column)
next
  have "''id'' \<notin> set (plain_columns meta)" "''update_time'' \<notin> set (plain_columns meta)" using meta_okD [OF assms] by auto
  then show "inserted_row (plain_columns meta) (en_id e) (property_params (meta_fields meta) e) [ct, QText (toIso (en_updateTime e))] ''id'' = Some (QText (en_id e))"
    "inserted_row (plain_columns meta) (en_id e) (property_params (meta_fields meta) e) [ct, QText (toIso (en_updateTime e))] ''update_time'' = Some (QText (toIso (en_updateTime e)))"
    by (simp_all add: inserted_row_simps)
qed

lemma update_holds:
  assumes "meta_ok meta" "row ''id'' = Some (QText (en_id e))"
  shows "holds_entity toIso meta e (row ++ map_of (zip (plain_columns meta @ [''update_time'']) (property_params (meta_fields meta) e @ [QText (toIso (en_updateTime e))])))"
  unfolding holds_entity_def list_all_iff
proof (intro conjI ballI)
  note ab = map_of_zip_absent [of _ "plain_columns meta" "property_params (meta_fields meta) e"]
  fix nf assume nf: "nf \<in> set (plain_fields meta)"
  show "(row ++ map_of (zip (plain_columns meta @ [''update_time'']) (property_params (meta_fields meta) e @ [QText (toIso (en_updateTime e))]))) (fld_columnName (snd nf)) = Some (en_property e (fst nf))"
    using plain_values [OF nf assms(1)] by (simp add: map_add_def)
next
  have "''id'' \<notin> set (plain_columns meta)" "''update_time'' \<notin> set (plain_columns meta)" using meta_okD [OF assms(1)] by auto
  then show "(row ++ map_of (zip (plain_columns meta @ [''update_time'']) (property_params (meta_fields meta) e @ [QText (toIso (en_updateTime e))]))) ''id'' = Some (QText (en_id e))"
    "(row ++ map_of (zip (plain_columns meta @ [''update_time'']) (property_params (meta_fields meta) e @ [QText (toIso (en_updateTime e))]))) ''update_time'' = Some (QText (toIso (en_updateTime e)))"
    using assms(2) by (simp_all add: map_add_def map_of_zip_absent)
qed

section \<open>Reading and writing\<close>

definition matches :: "(int \<Rightarrow> string) \<Rightarrow> (string \<Rightarrow> int) \<Rightarrow> table_meta \<Rightarrow> entity \<Rightarrow> entity \<Rightarrow> bool" where
  "matches toIso fromIso meta e e2 \<longleftrightarrow> en_id e2 = en_id e \<and> en_updateTime e2 = fromIso (toIso (en_updateTime e))
     \<and> list_all (\<lambda>nf. en_property e2 (fst nf) = en_property e (fst nf)) (plain_fields meta)"

abbreviation set_field :: "row \<Rightarrow> string \<times> field_meta \<Rightarrow> entity \<Rightarrow> entity" where
  "set_field r \<equiv> \<lambda>(name, f) e. case map_of r (fld_columnName f) of Some v \<Rightarrow> setProperty name v e | None \<Rightarrow> e"

lemma set_fields_base: "en_id (fold (set_field r) fs e) = en_id e \<and> en_updateTime (fold (set_field r) fs e) = en_updateTime e"
  by (induction fs arbitrary: e) (auto simp: setProperty_def split: option.splits)

lemma set_fields_other: "n \<notin> fst ` set fs \<Longrightarrow> en_property (fold (set_field r) fs e) n = en_property e n"
  by (induction fs arbitrary: e) (auto simp: setProperty_def split: option.splits)

lemma set_fields_property:
  "distinct (map fst fs) \<Longrightarrow> nf \<in> set fs \<Longrightarrow> map_of r (fld_columnName (snd nf)) = Some v \<Longrightarrow> en_property (fold (set_field r) fs e) (fst nf) = v"
proof (induction fs arbitrary: e)
  case (Cons mf fs)
  show ?case
  proof (cases "nf = mf")
    case True
    with Cons.prems set_fields_other [of "fst nf" fs r] show ?thesis by (cases mf) (simp add: setProperty_def)
  next
    case False
    with Cons show ?thesis by simp
  qed
qed simp

lemma fromQueryResult_matches:
  assumes "meta_ok meta" "holds_entity toIso meta e (map_of r)"
  shows "matches toIso fromIso meta e (fromQueryResult fromIso toInt meta blank r)"
  unfolding matches_def list_all_iff
proof (intro conjI ballI)
  note base = set_fields_base [of r "meta_fields meta"]
  show "en_id (fromQueryResult fromIso toInt meta blank r) = en_id e" "en_updateTime (fromQueryResult fromIso toInt meta blank r) = fromIso (toIso (en_updateTime e))"
    using assms(2) by (simp_all add: fromQueryResult_def holds_entity_def Let_def base split: option.splits)
  fix nf assume nf: "nf \<in> set (plain_fields meta)"
  then have "nf \<in> set (meta_fields meta)" "map_of r (fld_columnName (snd nf)) = Some (en_property e (fst nf))"
    using assms(2) by (auto simp: plain_fields_def holds_entity_def list_all_iff)
  with assms(1) show "en_property (fromQueryResult fromIso toInt meta blank r) (fst nf) = en_property e (fst nf)"
    unfolding fromQueryResult_def Let_def meta_ok_def by (intro set_fields_property) simp_all
qed

lemma findById_reads:
  assumes "dialect_create ty = Some dia" "reads_contract dr dia tbl vw"
  shows "if live (vw d) i then \<exists>r. map_of r = the (vw d i) \<and> findById (\<lambda>q. sq_find None dr dia tbl fromRow q d) i = Ok (fromRow r)
    else findById (\<lambda>q. sq_find None dr dia tbl fromRow q d) i = Err (mk_error EC_NotFound ''No record found'')"
proof -
  obtain rows where r: "dr_executeQuery dr (select_text dia tbl) [QText i] d = Ok rows" "map map_of rows = (if live (vw d) i then [the (vw d i)] else [])"
    using assms(2) unfolding reads_contract_def by blast
  have "findById (\<lambda>q. sq_find None dr dia tbl fromRow q d) i
      = (case map fromRow rows of [] \<Rightarrow> Err (mk_error EC_NotFound ''No record found'') | e # _ \<Rightarrow> Ok e)"
    by (simp add: findById_def findOne_def sq_find_def select_by_id_text [OF assms(1)] r(1) Let_def)
  with r(2) show ?thesis by (cases rows) (auto split: if_splits)
qed

lemma writes_insertD:
  "writes_contract dr dia tbl cols vw \<Longrightarrow> length vs = length cols \<Longrightarrow> dr_executeUpdate dr (insert_text dia tbl cols) (QText i # vs @ [c, u]) d = (r, d1)
   \<Longrightarrow> (case r of Inl _ \<Rightarrow> vw d1 = vw d | Inr _ \<Rightarrow> vw d i = None \<and> vw d1 = (vw d)(i \<mapsto> inserted_row cols i vs [c, u]))"
  unfolding writes_contract_def by (drule conjunct1, drule spec [of _ i], drule spec [of _ vs], drule spec [of _ c], drule spec [of _ u], drule spec [of _ d], drule spec [of _ r], drule spec [of _ d1], simp)

lemma writes_updateD:
  "writes_contract dr dia tbl cols vw \<Longrightarrow> sep = '','' \<or> sep = '', '' \<Longrightarrow> length vs = length cols \<Longrightarrow> dr_executeUpdate dr (update_text sep dia tbl cols) (vs @ [u, QText i]) d = (r, d1)
   \<Longrightarrow> (case r of Inl _ \<Rightarrow> vw d1 = vw d
        | Inr n \<Rightarrow> (case vw d i of None \<Rightarrow> n = 0 \<and> vw d1 = vw d | Some row \<Rightarrow> n = 1 \<and> vw d1 = (vw d)(i \<mapsto> row ++ map_of (zip (cols @ [''update_time'']) (vs @ [u])))))"
  unfolding writes_contract_def by (drule conjunct2 [THEN conjunct1], drule spec [of _ sep], drule spec [of _ i], drule spec [of _ vs], drule spec [of _ u], drule spec [of _ d], drule spec [of _ r], drule spec [of _ d1], simp)

lemma writes_deleteD:
  "writes_contract dr dia tbl cols vw \<Longrightarrow> dr_executeUpdate dr (delete_text dia tbl) [QText i] d = (r, d1)
   \<Longrightarrow> (case r of Inl _ \<Rightarrow> vw d1 = vw d
        | Inr _ \<Rightarrow> vw d1 = (if live (vw d) i then (vw d)(i \<mapsto> (the (vw d i))(''deleted'' \<mapsto> QNumber 1)) else vw d))"
  unfolding writes_contract_def by (drule conjunct2 [THEN conjunct2], drule spec [of _ i], drule spec [of _ d], drule spec [of _ r], drule spec [of _ d1], simp)

text \<open>What the two statements that save an entity do to the table.\<close>

lemma insert_effect:
  assumes "dialect_create ty = Some dia" "writes_contract dr dia tbl (plain_columns meta) vw" "meta_ok meta"
    and "dr_executeUpdate dr (generateInsertSql dia meta tbl) (collectInsertParams toIso meta e) d = (Ok n, d1)"
  shows "vw d (en_id e) = None \<and> (\<exists>row. vw d1 = (vw d)(en_id e \<mapsto> row) \<and> holds_entity toIso meta e row \<and> row ''deleted'' = Some (QNumber 0))"
proof -
  let ?row = "inserted_row (plain_columns meta) (en_id e) (property_params (meta_fields meta) e) [QText (toIso (en_createTime e)), QText (toIso (en_updateTime e))]"
  have "vw d (en_id e) = None \<and> vw d1 = (vw d)(en_id e \<mapsto> ?row)"
    using writes_insertD [OF assms(2) length_params, of "en_id e" e "QText (toIso (en_createTime e))" "QText (toIso (en_updateTime e))" d "Ok n" d1] assms(4)
    by (simp add: generateInsertSql_text [OF assms(1)] collectInsertParams_def)
  moreover have "?row ''deleted'' = Some (QNumber 0)" using meta_okD [OF assms(3)] by (subst inserted_row_simps) auto
  ultimately show ?thesis using insert_holds [OF assms(3)] by blast
qed

lemma update_effect:
  assumes "writes_contract dr dia tbl (plain_columns meta) vw" "meta_ok meta" "keyed (vw d)" "sep = '','' \<or> sep = '', ''"
    and "dr_executeUpdate dr (generateUpdateSql sep dia meta tbl) (collectUpdateParams toIso meta e) d = (Ok n, d1)"
  shows "case vw d (en_id e) of None \<Rightarrow> n = 0 \<and> vw d1 = vw d
    | Some row0 \<Rightarrow> n = 1 \<and> (\<exists>row. vw d1 = (vw d)(en_id e \<mapsto> row) \<and> holds_entity toIso meta e row \<and> row ''deleted'' = row0 ''deleted'')"
proof -
  let ?new = "map_of (zip (plain_columns meta @ [''update_time'']) (property_params (meta_fields meta) e @ [QText (toIso (en_updateTime e))]))"
  have *: "case vw d (en_id e) of None \<Rightarrow> n = 0 \<and> vw d1 = vw d | Some row \<Rightarrow> n = 1 \<and> vw d1 = (vw d)(en_id e \<mapsto> row ++ ?new)"
    using writes_updateD [OF assms(1,4) length_params, of e "QText (toIso (en_updateTime e))" "en_id e" d "Ok n" d1] assms(5)
    by (simp add: generateUpdateSql_text collectUpdateParams_def split: option.splits)
  show ?thesis
  proof (cases "vw d (en_id e)")
    case (Some row0)
    have "?new ''deleted'' = None" using meta_okD [OF assms(2)] by (intro map_of_zip_absent) auto
    then have "(row0 ++ ?new) ''deleted'' = row0 ''deleted''" by (simp only: map_add_def option.case)
    moreover have "holds_entity toIso meta e (row0 ++ ?new)" using assms(3) Some by (intro update_holds [OF assms(2)]) (simp add: keyed_def)
    ultimately show ?thesis using * Some by auto
  qed (use * in simp)
qed

lemma live_update: "live (tab(i \<mapsto> row)) i \<longleftrightarrow> row ''deleted'' = Some (QNumber 0)"
  by (simp add: live_def)

lemma sq_save_effect:
  assumes "dialect_create ty = Some dia" "writes_contract dr dia tbl (plain_columns meta) vw" "meta_ok meta" "keyed (vw d)"
    and "sq_save None dr dia toIso meta tbl uuid t1 t2 e d = (Ok e1, d1)"
  shows "en_property e1 = en_property e \<and> (if en_id e = [] \<or> live (vw d) (en_id e)
    then \<exists>row. vw d1 = (vw d)(en_id e1 \<mapsto> row) \<and> holds_entity toIso meta e1 row \<and> row ''deleted'' = Some (QNumber 0)
    else \<not> live (vw d1) (en_id e1))"
proof (cases "en_id e = []")
  case True
  then obtain n where "dr_executeUpdate dr (generateInsertSql dia meta tbl) (collectInsertParams toIso meta e1) d = (Ok n, d1)"
    "en_property e1 = en_property e"
    using assms(5) by (auto simp: sq_save_def insertInternal_def sq_execute_def db_error_def beforeInsert_def split: prod.splits sum.splits)
  with insert_effect [OF assms(1-3)] True show ?thesis by auto
next
  case False
  then obtain n where n: "dr_executeUpdate dr (generateUpdateSql '','' dia meta tbl) (collectUpdateParams toIso meta e1) d = (Ok n, d1)"
    "en_property e1 = en_property e" "en_id e1 = en_id e"
    using assms(5) by (auto simp: sq_save_def updateInternal_def sq_execute_def db_error_def beforeUpdate_def split: prod.splits sum.splits)
  show ?thesis using update_effect [OF assms(2-4) _ n(1)] n(2,3) False by (auto simp: live_def split: option.splits)
qed


lemma rw_insert_effect:
  assumes "dialect_create ty = Some dia" "writes_contract dr dia tbl (plain_columns meta) vw" "meta_ok meta"
    and "rw_insert dr dia toIso meta tbl uuid t1 t2 e d = (Ok e1, d1)"
  shows "\<exists>row. vw d1 = (vw d)(en_id e1 \<mapsto> row) \<and> holds_entity toIso meta e1 row \<and> en_property e1 = en_property e \<and> en_id e1 = (if en_id e = [] then uuid else en_id e)"
proof -
  from assms(4) obtain n where "dr_executeUpdate dr (generateInsertSql dia meta tbl) (collectInsertParams toIso meta e1) d = (Ok n, d1)"
    "en_property e1 = en_property e" "en_id e1 = (if en_id e = [] then uuid else en_id e)"
    by (auto simp: rw_insert_def beforeInsert_def Let_def split: prod.splits sum.splits if_splits)
  with insert_effect [OF assms(1-3)] show ?thesis by metis
qed

text \<open>The repository over two drivers, in contrast, stores every entity it reports as saved, under the identifier it returns: it changes the row when the table has one and inserts
  one when it has none. The row holds the value of every field in its column; the other rows stay.\<close>

theorem repository_rw_save_stores:
  assumes "dialect_create ty = Some dia" "writes_contract dr dia tbl (plain_columns meta) vw" "meta_ok meta" "keyed (vw d)"
    and "rw_save dr dia toIso meta tbl uuid t0 t1 t2 e d = (Ok e1, d1)"
  shows "\<exists>row. vw d1 = (vw d)(en_id e1 \<mapsto> row) \<and> holds_entity toIso meta e1 row \<and> en_property e1 = en_property e \<and> en_id e1 = (if en_id e = [] then uuid else en_id e)"
proof (cases "en_id e = []")
  case True
  with assms(5) have "rw_insert dr dia toIso meta tbl uuid t1 t2 e d = (Ok e1, d1)" by (simp add: rw_save_def split: if_splits)
  from rw_insert_effect [OF assms(1-3) this] show ?thesis .
next
  case False
  with assms(5) obtain n d2 where u: "dr_executeUpdate dr (generateUpdateSql '', '' dia meta tbl) (collectUpdateParams toIso meta (beforeUpdate t0 e)) d = (Ok n, d2)"
    and r: "if n > 0 then e1 = beforeUpdate t0 e \<and> d1 = d2 else rw_insert dr dia toIso meta tbl uuid t1 t2 (beforeUpdate t0 e) d2 = (Ok e1, d1)"
    by (auto simp: rw_save_def Let_def split: if_splits prod.splits sum.splits)
  have b: "en_id (beforeUpdate t0 e) = en_id e" "en_property (beforeUpdate t0 e) = en_property e" by (simp_all add: beforeUpdate_def)
  show ?thesis
  proof (cases "vw d (en_id e)")
    case None
    with update_effect [OF assms(2-4) _ u] b have "n = 0" "vw d2 = vw d" by simp_all
    with r rw_insert_effect [OF assms(1-3), of toIso uuid t1 t2 "beforeUpdate t0 e" d2 e1 d1] b show ?thesis by auto
  next
    case (Some row0)
    with update_effect [OF assms(2-4) _ u] r b False show ?thesis by auto
  qed
qed

text \<open>An entity that was removed is not found any more, and the rows of the other identifiers stay.\<close>

theorem repository_remove_hides:
  assumes "dialect_create ty = Some dia" "writes_contract dr dia tbl cols vw" "reads_contract dr dia tbl vw"
    and "removeById (sq_remove None dr dia tbl what) i d = (Ok (), d1)"
  shows "findById (\<lambda>q. sq_find None dr dia tbl fromRow q d1) i = Err (mk_error EC_NotFound ''No record found'')" and "j \<noteq> i \<Longrightarrow> vw d1 j = vw d j"
proof -
  obtain n where "dr_executeUpdate dr (delete_text dia tbl) [QText i] d = (Ok n, d1)"
    using assms(4) by (auto simp: removeById_def sq_remove_def delete_by_id_text [OF assms(1)] db_error_def Let_def split: prod.splits sum.splits)
  from writes_deleteD [OF assms(2) this] have w: "vw d1 = (if live (vw d) i then (vw d)(i \<mapsto> (the (vw d i))(''deleted'' \<mapsto> QNumber 1)) else vw d)" by simp
  then have "\<not> live (vw d1) i" by (simp add: live_def)
  with findById_reads [OF assms(1,3), of d1 i fromRow] show "findById (\<lambda>q. sq_find None dr dia tbl fromRow q d1) i = Err (mk_error EC_NotFound ''No record found'')" by simp
  from w show "j \<noteq> i \<Longrightarrow> vw d1 j = vw d j" by simp
qed

text \<open>A batch that fails leaves the entities before the failing one saved.\<close>

theorem repository_batch_partial:
  "saveBatch save es d = (Inl err, d2) \<Longrightarrow> \<exists>pre e post saved d1. es = pre @ e # post \<and> saveBatch save pre d = (Ok saved, d1) \<and> save e d1 = (Inl err, d2)"
proof (induction es arbitrary: d)
  case (Cons e es)
  show ?case
  proof (cases "save e d")
    case (Pair r d1)
    show ?thesis
    proof (cases r)
      case (Inl x)
      with Cons.prems Pair have "es = es" "saveBatch save [] d = (Ok [], d)" "save e d = (Inl err, d2)" by simp_all
      then show ?thesis by (metis append_Nil)
    next
      case (Inr e1)
      with Cons.prems Pair have "saveBatch save es d1 = (Inl err, d2)" by (auto split: prod.splits sum.splits)
      from Cons.IH [OF this] obtain pre x post saved d3 where "es = pre @ x # post" "saveBatch save pre d1 = (Ok saved, d3)" "save x d3 = (Inl err, d2)" by blast
      with Pair Inr have "e # es = (e # pre) @ x # post" "saveBatch save (e # pre) d = (Ok (e1 # saved), d3)" "save x d3 = (Inl err, d2)" by simp_all
      then show ?thesis by blast
    qed
  qed
qed simp

text \<open>SQLite and MySQL name the column of the count after its expression; the repository over two drivers looks for another name and throws.\<close>

theorem repository_rw_count_throws:
  assumes "dr_isConnected dr d" "dr_executeQuery dr (buildCountSql (qw_setDialect (Some dia) q) tbl) (getBindValues (qw_setDialect (Some dia) q)) d = Ok [[(''COUNT(*)'', v)]]"
  shows "rw_count dr dia toInt tbl q d = None" and "sq_count None dr dia toInt tbl q d = Ok (toInt v)"
  using assms by (simp_all add: rw_count_def sq_count_def Let_def)

section \<open>A database that keeps the contract\<close>

text \<open>A table \<open>t\<close> with the column \<open>name\<close>, for the statements of the SQLite dialect.\<close>

type_synonym sim_table = "(string \<times> row) list"

definition sim_rows_update :: "string \<Rightarrow> qvariant list \<Rightarrow> sim_table \<Rightarrow> int result \<times> sim_table" where
  "sim_rows_update sql params d =
     (if sql = insert_text SQLiteDialect ''t'' [''name''] then
        (case params of [QText i, v, c, u] \<Rightarrow>
           (if map_of d i \<noteq> None then (Err (mk_error EC_QueryFailed sql), d)
            else (Ok 1, (i, zip [''id'', ''name'', ''create_time'', ''update_time'', ''deleted''] [QText i, v, c, u, QNumber 0]) # d))
         | _ \<Rightarrow> (Err (mk_error EC_QueryFailed sql), d))
      else if sql = update_text '','' SQLiteDialect ''t'' [''name''] \<or> sql = update_text '', '' SQLiteDialect ''t'' [''name''] then
        (case params of [v, u, QText i] \<Rightarrow>
           (case map_of d i of None \<Rightarrow> (Ok 0, d) | Some r \<Rightarrow> (Ok 1, AList.update i ([(''name'', v), (''update_time'', u)] @ r) d))
         | _ \<Rightarrow> (Err (mk_error EC_QueryFailed sql), d))
      else if sql = delete_text SQLiteDialect ''t'' then
        (case params of [QText i] \<Rightarrow>
           (case map_of d i of Some r \<Rightarrow> if map_of r ''deleted'' = Some (QNumber 0) then (Ok 1, AList.update i ((''deleted'', QNumber 1) # r) d) else (Ok 0, d) | None \<Rightarrow> (Ok 0, d))
         | _ \<Rightarrow> (Err (mk_error EC_QueryFailed sql), d))
      else (Err (mk_error EC_QueryFailed sql), d))"

definition sim_rows_query :: "string \<Rightarrow> qvariant list \<Rightarrow> sim_table \<Rightarrow> row list result" where
  "sim_rows_query sql params d =
     (case params of [QText i] \<Rightarrow> Ok (case map_of d i of Some r \<Rightarrow> if map_of r ''deleted'' = Some (QNumber 0) then [r] else [] | None \<Rightarrow> [])
      | _ \<Rightarrow> Err (mk_error EC_QueryFailed sql))"

definition sim_rows_driver :: "sim_table driver" where
  "sim_rows_driver = \<lparr>dr_isConnected = (\<lambda>d. True), dr_executeUpdate = sim_rows_update, dr_executeQuery = sim_rows_query,
     dr_beginTransaction = Pair (Ok ()), dr_commit = Pair (Ok ()), dr_rollback = Pair (Ok ())\<rparr>"

definition sim_rows_view :: "sim_table \<Rightarrow> table" where
  "sim_rows_view d i = map_option map_of (map_of d i)"

lemma sim_rows_texts:
  "update_text '','' SQLiteDialect ''t'' [''name''] \<noteq> insert_text SQLiteDialect ''t'' [''name'']"
  "update_text '', '' SQLiteDialect ''t'' [''name''] \<noteq> insert_text SQLiteDialect ''t'' [''name'']"
  "delete_text SQLiteDialect ''t'' \<noteq> insert_text SQLiteDialect ''t'' [''name'']"
  "delete_text SQLiteDialect ''t'' \<noteq> update_text '','' SQLiteDialect ''t'' [''name'']"
  "delete_text SQLiteDialect ''t'' \<noteq> update_text '', '' SQLiteDialect ''t'' [''name'']"
  by code_simp+

lemma sim_rows_live: "live (sim_rows_view d) i \<longleftrightarrow> (\<exists>r. map_of d i = Some r \<and> map_of r ''deleted'' = Some (QNumber 0))"
  by (auto simp: live_def sim_rows_view_def)

lemma sim_rows_view_update: "sim_rows_view (AList.update i r d) = (sim_rows_view d)(i \<mapsto> map_of r)"
  by (rule ext) (simp add: sim_rows_view_def update_conv)

lemma sim_rows_reads: "reads_contract sim_rows_driver SQLiteDialect ''t'' sim_rows_view"
proof -
  have "\<exists>rows. sim_rows_query sql [QText i] d = Ok rows \<and> map map_of rows = (if live (sim_rows_view d) i then [the (sim_rows_view d i)] else [])" for sql i d
    by (auto simp: sim_rows_query_def sim_rows_live sim_rows_view_def split: option.splits)
  then show ?thesis by (simp add: reads_contract_def sim_rows_driver_def)
qed

lemma sim_rows_insert:
  "sim_rows_update (insert_text SQLiteDialect ''t'' [''name'']) [QText i, v, c, u] d = (r, d1) \<Longrightarrow>
   (case r of Inl _ \<Rightarrow> sim_rows_view d1 = sim_rows_view d
    | Inr _ \<Rightarrow> sim_rows_view d i = None \<and> sim_rows_view d1 = (sim_rows_view d)(i \<mapsto> inserted_row [''name''] i [v] [c, u]))"
  unfolding sim_rows_update_def by (auto simp: sim_rows_view_def inserted_row_def fun_eq_iff split: if_splits)

lemma sim_rows_change:
  "sep = '','' \<or> sep = '', '' \<Longrightarrow> sim_rows_update (update_text sep SQLiteDialect ''t'' [''name'']) [v, u, QText i] d = (r, d1) \<Longrightarrow>
   (case r of Inl _ \<Rightarrow> sim_rows_view d1 = sim_rows_view d
    | Inr n \<Rightarrow> (case sim_rows_view d i of None \<Rightarrow> n = 0 \<and> sim_rows_view d1 = sim_rows_view d
       | Some row \<Rightarrow> n = 1 \<and> sim_rows_view d1 = (sim_rows_view d)(i \<mapsto> row ++ map_of (zip [''name'', ''update_time''] [v, u]))))"
  unfolding sim_rows_update_def by (auto simp: sim_rows_texts sim_rows_view_update sim_rows_view_def [of _ i] fun_eq_iff split: option.splits)

lemma sim_rows_delete:
  "sim_rows_update (delete_text SQLiteDialect ''t'') [QText i] d = (r, d1) \<Longrightarrow>
   (case r of Inl _ \<Rightarrow> sim_rows_view d1 = sim_rows_view d
    | Inr _ \<Rightarrow> sim_rows_view d1 = (if live (sim_rows_view d) i then (sim_rows_view d)(i \<mapsto> (the (sim_rows_view d i))(''deleted'' \<mapsto> QNumber 1)) else sim_rows_view d))"
  unfolding sim_rows_update_def by (auto simp: sim_rows_texts sim_rows_live sim_rows_view_update sim_rows_view_def [of d i] split: option.splits if_splits)

lemma sim_rows_writes: "writes_contract sim_rows_driver SQLiteDialect ''t'' [''name''] sim_rows_view"
  unfolding writes_contract_def
proof (intro conjI allI impI, goal_cases)
  case (1 i vs c u d r d1)
  then show ?case using sim_rows_insert [of i _ c u d r d1] by (auto simp: sim_rows_driver_def length_Suc_conv)
next
  case (2 sep i vs u d r d1)
  from 2(2) obtain v where v: "vs = [v]" by (auto simp: length_Suc_conv)
  from 2(3) have "sim_rows_update (update_text sep SQLiteDialect ''t'' [''name'']) [v, u, QText i] d = (r, d1)" by (simp add: v sim_rows_driver_def)
  from sim_rows_change [OF 2(1) this] show ?case unfolding v append.simps .
next
  case (3 i d r d1)
  then show ?case using sim_rows_delete [of i d r d1] by (simp add: sim_rows_driver_def)
qed

definition demo_table_meta :: table_meta where
  "demo_table_meta = \<lparr>meta_tableName = ''t'', meta_fields = [(''id'', \<lparr>fld_columnName = ''id'', fld_isPrimaryKey = True\<rparr>),
     (''name'', \<lparr>fld_columnName = ''name'', fld_isPrimaryKey = False\<rparr>)]\<rparr>"

definition demo_entity :: "string \<Rightarrow> entity" where
  "demo_entity i = \<lparr>en_id = i, en_createTime = 0, en_updateTime = 0, en_deleted = 0, en_property = (\<lambda>n. if n = ''name'' then QText ''Ann'' else QInvalid)\<rparr>"

lemma demo_table_ok: "meta_ok demo_table_meta" "plain_columns demo_table_meta = [''name'']" "keyed (sim_rows_view [])" "dialect_create SQLite = Some SQLiteDialect"
  by (simp_all add: meta_ok_def demo_table_meta_def plain_columns_def plain_fields_def skipped_def baseFields_def keyed_def sim_rows_view_def dialect_create_def)

lemma demo_sq_save:
  "\<exists>e1 d1. sq_save None sim_rows_driver SQLiteDialect dec_int demo_table_meta ''t'' ''u1'' 5 6 (demo_entity []) [] = (Ok e1, d1)"
  "\<exists>e1 d1. rw_save sim_rows_driver SQLiteDialect dec_int demo_table_meta ''t'' ''u1'' 5 6 7 (demo_entity ''u9'') [] = (Ok e1, d1)"
proof -
  have "isOk (fst (sq_save None sim_rows_driver SQLiteDialect dec_int demo_table_meta ''t'' ''u1'' 5 6 (demo_entity []) []))"
    "isOk (fst (rw_save sim_rows_driver SQLiteDialect dec_int demo_table_meta ''t'' ''u1'' 5 6 7 (demo_entity ''u9'') []))"
    by code_simp+
  then show "\<exists>e1 d1. sq_save None sim_rows_driver SQLiteDialect dec_int demo_table_meta ''t'' ''u1'' 5 6 (demo_entity []) [] = (Ok e1, d1)"
    "\<exists>e1 d1. rw_save sim_rows_driver SQLiteDialect dec_int demo_table_meta ''t'' ''u1'' 5 6 7 (demo_entity ''u9'') [] = (Ok e1, d1)"
    by (metis isOkE prod.collapse)+
qed


theorem repository_rw_save_stores_witness:
  "\<exists>e1 d1. rw_save sim_rows_driver SQLiteDialect dec_int demo_table_meta ''t'' ''u1'' 5 6 7 (demo_entity ''u9'') [] = (Ok e1, d1) \<and> en_id e1 = ''u9'' \<and> sim_rows_view d1 ''u9'' \<noteq> None"
proof -
  obtain e1 d1 where s: "rw_save sim_rows_driver SQLiteDialect dec_int demo_table_meta ''t'' ''u1'' 5 6 7 (demo_entity ''u9'') [] = (Ok e1, d1)" using demo_sq_save(2) by blast
  have "en_id (demo_entity ''u9'') = ''u9''" by (simp add: demo_entity_def)
  then show ?thesis using repository_rw_save_stores [OF demo_table_ok(4) sim_rows_writes [folded demo_table_ok(2)] demo_table_ok(1,3) s] s by auto
qed

text \<open>Saving an entity with an identifier that the table does not have: a success, and an empty table.\<close>

theorem repository_save_loses_entity:
  "case sq_save None sim_rows_driver SQLiteDialect dec_int demo_table_meta ''t'' ''u1'' 5 6 (demo_entity ''u9'') [] of (r, d1) \<Rightarrow> isOk r \<and> d1 = []"
  by code_simp

end
