(* ===== verification/SK_CachedRepository.thy ===== *)
theory SK_CachedRepository
  imports SK_MultiLevelCache SK_Repository
begin

text \<open>
  The interface of repositories of \<^verbatim>\<open>include/soul/data/repository.h\<close>, the repository in memory of \<^verbatim>\<open>memory_repository.h\<close>, and the decorator of
  \<^verbatim>\<open>include/soul/orm/cached_repository.h\<close> that puts a cache before any repository. The locale \<open>keyed_repository\<close> is what the decorator needs of the repository, \<open>coherent_icache\<close>
  what it needs of the cache; together they make the decorator transparent.
\<close>

section \<open>The interface\<close>

text \<open>The four operations without a default; reading does not change a repository.\<close>

record ('d, 'k, 'e) repo_ops =
  ro_findById :: "'k \<Rightarrow> 'd \<Rightarrow> 'e result"
  ro_findAll :: "'d \<Rightarrow> 'e list result"
  ro_save :: "'e \<Rightarrow> 'd \<Rightarrow> 'e result \<times> 'd"
  ro_removeById :: "'k \<Rightarrow> 'd \<Rightarrow> unit result \<times> 'd"

definition ir_exists :: "'e result \<Rightarrow> bool result" where
  "ir_exists found = (case found of Inr _ \<Rightarrow> Ok True | Inl e \<Rightarrow> if err_code e = EC_NotFound then Ok False else Err e)"

definition ir_existsById :: "('d, 'k, 'e) repo_ops \<Rightarrow> 'k \<Rightarrow> 'd \<Rightarrow> bool result" where
  "ir_existsById R k d = ir_exists (ro_findById R k d)"

fun ir_saveBatch :: "('d, 'k, 'e) repo_ops \<Rightarrow> 'e list \<Rightarrow> 'd \<Rightarrow> 'e list result \<times> 'd" where
  "ir_saveBatch R [] d = (Ok [], d)"
| "ir_saveBatch R (e # es) d =
     (case ro_save R e d of
        (Inl err, d1) \<Rightarrow> (Err err, d1)
      | (Inr e1, d1) \<Rightarrow> (case ir_saveBatch R es d1 of (Inl err, d2) \<Rightarrow> (Err err, d2) | (Inr es1, d2) \<Rightarrow> (Ok (e1 # es1), d2)))"

fun ir_removeBatch :: "('d, 'k, 'e) repo_ops \<Rightarrow> 'k list \<Rightarrow> 'd \<Rightarrow> unit result \<times> 'd" where
  "ir_removeBatch R [] d = (Ok (), d)"
| "ir_removeBatch R (k # ks) d = (case ro_removeById R k d of (Inl err, d1) \<Rightarrow> (Err err, d1) | (Inr _, d1) \<Rightarrow> ir_removeBatch R ks d1)"

definition ir_count :: "('d, 'k, 'e) repo_ops \<Rightarrow> 'd \<Rightarrow> int result" where
  "ir_count R d = (case ro_findAll R d of Inl e \<Rightarrow> Err e | Inr es \<Rightarrow> Ok (int (length es)))"

section \<open>The repository in memory\<close>

definition mr_findById :: "('e \<Rightarrow> 'k) \<Rightarrow> 'k \<Rightarrow> 'e list \<Rightarrow> 'e result" where
  "mr_findById idOf k d = (case List.find (\<lambda>e. idOf e = k) d of Some e \<Rightarrow> Ok e | None \<Rightarrow> Err (mk_error EC_NotFound ''Entity not found''))"

fun replace_first :: "('e \<Rightarrow> bool) \<Rightarrow> 'e \<Rightarrow> 'e list \<Rightarrow> 'e list" where
  "replace_first P e [] = []"
| "replace_first P e (x # xs) = (if P x then e # xs else x # replace_first P e xs)"

definition mr_save :: "('e \<Rightarrow> 'k) \<Rightarrow> 'e \<Rightarrow> 'e list \<Rightarrow> 'e result \<times> 'e list" where
  "mr_save idOf e d =
     (Ok e, if list_ex (\<lambda>x. idOf x = idOf e) d then replace_first (\<lambda>x. idOf x = idOf e) e d else d @ [e])"

definition mr_removeById :: "('e \<Rightarrow> 'k) \<Rightarrow> 'k \<Rightarrow> 'e list \<Rightarrow> unit result \<times> 'e list" where
  "mr_removeById idOf k d =
     (if list_ex (\<lambda>x. idOf x = k) d then (Ok (), filter (\<lambda>x. idOf x \<noteq> k) d) else (Err (mk_error EC_NotFound ''Entity not found''), d))"

definition mr_ops :: "('e \<Rightarrow> 'k) \<Rightarrow> ('e list, 'k, 'e) repo_ops" where
  "mr_ops idOf = \<lparr>ro_findById = mr_findById idOf, ro_findAll = Ok, ro_save = mr_save idOf, ro_removeById = mr_removeById idOf\<rparr>"

section \<open>The decorator\<close>

text \<open>The state is the repository and the cache. \<open>None\<close> is a \<open>put\<close> of the cache that does not end. An answer of the cache that is an error counts as a miss.\<close>

definition cr_findById :: "('d, 'k, 'e) repo_ops \<Rightarrow> ('s, 'k, 'e) icache_ops \<Rightarrow> int \<Rightarrow> clock \<Rightarrow> 'k \<Rightarrow> 'd \<times> 's \<Rightarrow> ('e result \<times> 'd \<times> 's) option" where
  "cr_findById R C ttl t k st =
     (let (d, s) = st; (hit, s1) = ic_get C t k s
      in case hit of
           Inr (Some v) \<Rightarrow> Some (Ok v, d, s1)
         | _ \<Rightarrow> (case ro_findById R k d of
                  Inl e \<Rightarrow> Some (Err e, d, s1)
                | Inr v \<Rightarrow> map_option (\<lambda>(_, s2). (Ok v, d, s2)) (ic_put C t k v (Some ttl) s1)))"

definition cr_existsById :: "('d, 'k, 'e) repo_ops \<Rightarrow> ('s, 'k, 'e) icache_ops \<Rightarrow> int \<Rightarrow> clock \<Rightarrow> 'k \<Rightarrow> 'd \<times> 's \<Rightarrow> (bool result \<times> 'd \<times> 's) option" where
  "cr_existsById R C ttl t k st = map_option (apfst ir_exists) (cr_findById R C ttl t k st)"

definition cr_save :: "('d, 'k, 'e) repo_ops \<Rightarrow> ('s, 'k, 'e) icache_ops \<Rightarrow> ('e \<Rightarrow> 'k) option \<Rightarrow> int \<Rightarrow> clock \<Rightarrow> 'e \<Rightarrow> 'd \<times> 's \<Rightarrow> ('e result \<times> 'd \<times> 's) option" where
  "cr_save R C idExtractor ttl t e st =
     (let (d, s) = st; (r, d1) = ro_save R e d
      in case (r, idExtractor) of
           (Inr saved, Some f) \<Rightarrow> map_option (\<lambda>(_, s1). (r, d1, s1)) (ic_put C t (f saved) saved (Some ttl) s)
         | _ \<Rightarrow> Some (r, d1, s))"

definition cr_removeById :: "('d, 'k, 'e) repo_ops \<Rightarrow> ('s, 'k, 'e) icache_ops \<Rightarrow> 'k \<Rightarrow> 'd \<times> 's \<Rightarrow> unit result \<times> 'd \<times> 's" where
  "cr_removeById R C k st = (let (d, s) = st; (r, d1) = ro_removeById R k d in (r, d1, if isOk r then snd (ic_remove C k s) else s))"

definition cr_saveBatch :: "('d, 'k, 'e) repo_ops \<Rightarrow> 'e list \<Rightarrow> 'd \<times> 's \<Rightarrow> 'e list result \<times> 'd \<times> 's" where
  "cr_saveBatch R es st = (let (d, s) = st; (r, d1) = ir_saveBatch R es d in (r, d1, s))"

definition cr_removeBatch :: "('d, 'k, 'e) repo_ops \<Rightarrow> ('s, 'k, 'e) icache_ops \<Rightarrow> 'k list \<Rightarrow> 'd \<times> 's \<Rightarrow> unit result \<times> 'd \<times> 's" where
  "cr_removeBatch R C ks st = (let (d, s) = st; (r, d1) = ir_removeBatch R ks d in (r, d1, if isOk r then fold (\<lambda>k s. snd (ic_remove C k s)) ks s else s))"

definition cr_findAll :: "('d, 'k, 'e) repo_ops \<Rightarrow> 'd \<times> 's \<Rightarrow> 'e list result" where
  "cr_findAll R st = ro_findAll R (fst st)"

definition cr_count :: "('d, 'k, 'e) repo_ops \<Rightarrow> 'd \<times> 's \<Rightarrow> int result" where
  "cr_count R st = ir_count R (fst st)"

definition cr_invalidateCache :: "('s, 'k, 'e) icache_ops \<Rightarrow> 'd \<times> 's \<Rightarrow> unit result \<times> 'd \<times> 's" where
  "cr_invalidateCache C st = (let (d, s) = st; (r, s1) = ic_clear C s in (r, d, s1))"

section \<open>What the decorator relies on\<close>

text \<open>An operation on one key does not bring a value back under another, and what the cache is told to forget is forgotten.\<close>

locale coherent_icache = reliable_icache +
  assumes get_frame: "inv s \<Longrightarrow> view t' (snd (ic_get ops t k s)) k' = None \<or> view t' (snd (ic_get ops t k s)) k' = view t' s k'"
    and put_always: "inv s \<Longrightarrow> ic_put ops t k v ttl s = Some (res, s') \<Longrightarrow> res = Ok ()"
    and put_frame: "inv s \<Longrightarrow> ic_put ops t k v ttl s = Some (res, s') \<Longrightarrow> k' \<noteq> k \<Longrightarrow> view t' s' k' = None \<or> view t' s' k' = view t' s k'"
    and remove_frame: "inv s \<Longrightarrow> view t' (snd (ic_remove ops k s)) k' = None \<or> view t' (snd (ic_remove ops k s)) k' = view t' s k'"
    and clear_inv: "inv s \<Longrightarrow> inv (snd (ic_clear ops s))"
    and clear_always: "inv s \<Longrightarrow> fst (ic_clear ops s) = Ok ()"
    and clear_gone: "inv s \<Longrightarrow> view t' (snd (ic_clear ops s)) k = None"

text \<open>What is saved is found by its identifier, and an operation on one identifier does not change what others find.\<close>

locale keyed_repository =
  fixes R :: "('d, 'k, 'e) repo_ops" and idOf :: "'e \<Rightarrow> 'k"
  assumes save_find: "ro_save R e d = (Ok e1, d1) \<Longrightarrow> ro_findById R k d1 = (if k = idOf e1 then Ok e1 else ro_findById R k d)"
    and save_fails: "ro_save R e d = (Err x, d1) \<Longrightarrow> ro_findById R k d1 = ro_findById R k d"
    and remove_other: "ro_removeById R k d = (r, d1) \<Longrightarrow> k' \<noteq> k \<or> \<not> isOk r \<Longrightarrow> ro_findById R k' d1 = ro_findById R k' d"
begin

lemma removeBatch_other: "ir_removeBatch R ks d = (Ok (), d1) \<Longrightarrow> k \<notin> set ks \<Longrightarrow> ro_findById R k d1 = ro_findById R k d"
proof (induction ks arbitrary: d)
  case (Cons j ks)
  then obtain d2 where "ro_removeById R j d = (Ok (), d2)" "ir_removeBatch R ks d2 = (Ok (), d1)" by (auto split: prod.splits sum.splits)
  with Cons remove_other [of j d "Ok ()" d2 k] show ?case by simp
qed simp

end

section \<open>Transparency\<close>

datatype ('k, 'e) repo_step = RFind 'k | RExists 'k | RSave 'e | RRemove 'k | RRemoveBatch "'k list" | RSaveBatch "'e list" | RFindAll | RCount | RInvalidate

datatype 'e repo_answer = AEntity "'e result" | AExists "bool result" | ADone "unit result" | AEntities "'e list result" | ACount "int result"

text \<open>A call on the repository itself, where there is no cache to empty, and on the decorator.\<close>

fun plain_step :: "('d, 'k, 'e) repo_ops \<Rightarrow> ('k, 'e) repo_step \<Rightarrow> 'd \<Rightarrow> 'e repo_answer \<times> 'd" where
  "plain_step R (RFind k) d = (AEntity (ro_findById R k d), d)"
| "plain_step R (RExists k) d = (AExists (ir_existsById R k d), d)"
| "plain_step R (RSave e) d = apfst AEntity (ro_save R e d)"
| "plain_step R (RRemove k) d = apfst ADone (ro_removeById R k d)"
| "plain_step R (RRemoveBatch ks) d = apfst ADone (ir_removeBatch R ks d)"
| "plain_step R (RSaveBatch es) d = apfst AEntities (ir_saveBatch R es d)"
| "plain_step R RFindAll d = (AEntities (ro_findAll R d), d)"
| "plain_step R RCount d = (ACount (ir_count R d), d)"
| "plain_step R RInvalidate d = (ADone (Ok ()), d)"

fun cr_step :: "('d, 'k, 'e) repo_ops \<Rightarrow> ('s, 'k, 'e) icache_ops \<Rightarrow> ('e \<Rightarrow> 'k) option \<Rightarrow> int \<Rightarrow> clock \<Rightarrow> ('k, 'e) repo_step \<Rightarrow> 'd \<times> 's \<Rightarrow> ('e repo_answer \<times> 'd \<times> 's) option" where
  "cr_step R C f ttl t (RFind k) st = map_option (apfst AEntity) (cr_findById R C ttl t k st)"
| "cr_step R C f ttl t (RExists k) st = map_option (apfst AExists) (cr_existsById R C ttl t k st)"
| "cr_step R C f ttl t (RSave e) st = map_option (apfst AEntity) (cr_save R C f ttl t e st)"
| "cr_step R C f ttl t (RRemove k) st = Some (apfst ADone (cr_removeById R C k st))"
| "cr_step R C f ttl t (RRemoveBatch ks) st = Some (apfst ADone (cr_removeBatch R C ks st))"
| "cr_step R C f ttl t (RSaveBatch es) st = Some (apfst AEntities (cr_saveBatch R es st))"
| "cr_step R C f ttl t RFindAll st = Some (AEntities (cr_findAll R st), st)"
| "cr_step R C f ttl t RCount st = Some (ACount (cr_count R st), st)"
| "cr_step R C f ttl t RInvalidate st = Some (apfst ADone (cr_invalidateCache C st))"

fun plain_run :: "('d, 'k, 'e) repo_ops \<Rightarrow> ('k, 'e) repo_step list \<Rightarrow> 'd \<Rightarrow> 'e repo_answer list \<times> 'd" where
  "plain_run R [] d = ([], d)"
| "plain_run R (x # xs) d = (case plain_step R x d of (a, d1) \<Rightarrow> apfst (Cons a) (plain_run R xs d1))"

fun cr_run :: "('d, 'k, 'e) repo_ops \<Rightarrow> ('s, 'k, 'e) icache_ops \<Rightarrow> ('e \<Rightarrow> 'k) option \<Rightarrow> int \<Rightarrow> (clock \<times> ('k, 'e) repo_step) list \<Rightarrow> 'd \<times> 's \<Rightarrow> ('e repo_answer list \<times> 'd \<times> 's) option" where
  "cr_run R C f ttl [] st = Some ([], st)"
| "cr_run R C f ttl (x # xs) st = (case cr_step R C f ttl (fst x) (snd x) st of None \<Rightarrow> None | Some (a, st1) \<Rightarrow> map_option (apfst (Cons a)) (cr_run R C f ttl xs st1))"

text \<open>The steps that the decorator does not follow: saving a batch, and removing one of which an element cannot be removed.\<close>

definition followed :: "('d, 'k, 'e) repo_ops \<Rightarrow> ('k, 'e) repo_step \<Rightarrow> 'd \<Rightarrow> bool" where
  "followed R x d \<longleftrightarrow> (case x of RSaveBatch es \<Rightarrow> False | RRemoveBatch ks \<Rightarrow> isOk (fst (ir_removeBatch R ks d)) | _ \<Rightarrow> True)"

fun all_followed :: "('d, 'k, 'e) repo_ops \<Rightarrow> ('k, 'e) repo_step list \<Rightarrow> 'd \<Rightarrow> bool" where
  "all_followed R [] d = True"
| "all_followed R (x # xs) d = (followed R x d \<and> all_followed R xs (snd (plain_step R x d)))"

locale cached_repository = keyed_repository R idOf + coherent_icache C inv view fits
  for R :: "('d, 'k, 'e) repo_ops" and idOf :: "'e \<Rightarrow> 'k" and C :: "('s, 'k, 'e) icache_ops" and inv :: "'s \<Rightarrow> bool" and view :: "clock \<Rightarrow> 's \<Rightarrow> 'k \<rightharpoonup> 'e"
  and fits :: "'e \<Rightarrow> bool"
begin

text \<open>Whatever the cache holds is what the repository would answer.\<close>

definition coherent :: "'d \<times> 's \<Rightarrow> bool" where
  "coherent st \<longleftrightarrow> inv (snd st) \<and> (\<forall>t k v. view t (snd st) k = Some v \<longrightarrow> ro_findById R k (fst st) = Ok v)"

lemma coherentD: "coherent (d, s) \<Longrightarrow> view t s k = Some v \<Longrightarrow> ro_findById R k d = Ok v"
  unfolding coherent_def by (metis fst_conv snd_conv)

lemma put_coherent:
  assumes "coherent (d, s)" "ic_put C t k v ttl s = Some (res, s1)" "ro_findById R k d1 = Ok v" "\<And>k'. k' \<noteq> k \<Longrightarrow> ro_findById R k' d1 = ro_findById R k' d"
  shows "coherent (d1, s1)"
  unfolding coherent_def
proof (intro conjI allI impI)
  have i: "inv s" using assms(1) by (simp add: coherent_def)
  note res = put_always [OF i assms(2)]
  show "inv (snd (d1, s1))" using put_inv [OF i assms(2)] by simp
  fix t' k' v' assume v: "view t' (snd (d1, s1)) k' = Some v'"
  show "ro_findById R k' (fst (d1, s1)) = Ok v'"
  proof (cases "k' = k")
    case True
    with put_ok [OF i all_fit assms(2) [unfolded res], of t'] v assms(3) show ?thesis by auto
  next
    case False
    with put_frame [OF i assms(2) False, of t'] v have "view t' s k' = Some v'" by auto
    from coherentD [OF assms(1) this] assms(4) [OF False] show ?thesis by simp
  qed
qed

lemma get_coherent: "coherent (d, s) \<Longrightarrow> coherent (d, snd (ic_get C t k s))"
  unfolding coherent_def using get_inv [of s t k] get_frame [of s _ t k] by (metis fst_conv option.distinct(1) snd_conv)

lemma find_coherent:
  assumes "coherent (d, s)"
  shows "\<exists>s1. cr_findById R C ttl t k (d, s) = Some (ro_findById R k d, d, s1) \<and> coherent (d, s1)"
proof -
  have i: "inv s" using assms by (simp add: coherent_def)
  obtain s1 where g: "ic_get C t k s = (Ok (view t s k), s1)" using get_total [OF i, of t k] by (cases "ic_get C t k s") simp
  have c: "coherent (d, s1)" using get_coherent [OF assms, of t k] g by simp
  show ?thesis
  proof (cases "view t s k")
    case (Some v)
    from coherentD [OF assms Some] g Some c show ?thesis by (simp add: cr_findById_def)
  next
    case None
    show ?thesis
    proof (cases "ro_findById R k d")
      case (Inr v)
      have "inv s1" using c by (simp add: coherent_def)
      then obtain res s2 where p: "ic_put C t k v (Some ttl) s1 = Some (res, s2)" using put_returns [of s1 t k v "Some ttl"] by auto
      with put_coherent [OF c p Inr] g None Inr show ?thesis by (simp add: cr_findById_def)
    qed (use g None c in \<open>simp add: cr_findById_def\<close>)
  qed
qed

lemma save_coherent:
  assumes "coherent (d, s)" "ro_save R e d = (r, d1)"
  shows "\<exists>s1. cr_save R C (Some idOf) ttl t e (d, s) = Some (r, d1, s1) \<and> coherent (d1, s1)"
proof (cases r)
  case (Inl x)
  with assms(2) save_fails [of e d x d1] assms(1) show ?thesis by (auto simp: cr_save_def coherent_def)
next
  case (Inr e1)
  have "inv s" using assms(1) by (simp add: coherent_def)
  then obtain res s1 where p: "ic_put C t (idOf e1) e1 (Some ttl) s = Some (res, s1)" using put_returns [of s t "idOf e1" e1 "Some ttl"] by auto
  have "coherent (d1, s1)" using save_find [OF assms(2) [unfolded Inr]] by (intro put_coherent [OF assms(1) p]) simp_all
  with p Inr assms(2) show ?thesis by (simp add: cr_save_def)
qed

lemma removed_coherent:
  assumes "coherent (d, s)" "inv s1" "\<And>t k'. view t s1 k' = None \<or> view t s1 k' = view t s k'" "\<And>t k'. k' \<in> K \<Longrightarrow> view t s1 k' = None"
    and "\<And>k'. k' \<notin> K \<Longrightarrow> ro_findById R k' d1 = ro_findById R k' d"
  shows "coherent (d1, s1)"
  using assms unfolding coherent_def by (metis fst_conv option.distinct(1) snd_conv)

lemma remove_coherent:
  assumes "coherent (d, s)"
  shows "coherent (snd (cr_removeById R C k (d, s)))"
proof -
  obtain r d1 where r: "ro_removeById R k d = (r, d1)" by fastforce
  have i: "inv s" using assms by (simp add: coherent_def)
  show ?thesis
  proof (cases "isOk r")
    case True
    have "coherent (d1, snd (ic_remove C k s))"
      using remove_frame [OF i] remove_gone [OF i] remove_other [OF r] by (intro removed_coherent [OF assms remove_inv [OF i], of k "{k}"]) auto
    with True r show ?thesis by (simp add: cr_removeById_def)
  next
    case False
    with remove_other [OF r] assms r show ?thesis by (simp add: cr_removeById_def coherent_def)
  qed
qed

lemma forget_all:
  "inv s \<Longrightarrow> inv (fold (\<lambda>k s. snd (ic_remove C k s)) ks s) \<and> (\<forall>t k. view t (fold (\<lambda>k s. snd (ic_remove C k s)) ks s) k = None
     \<or> k \<notin> set ks \<and> view t (fold (\<lambda>k s. snd (ic_remove C k s)) ks s) k = view t s k)"
proof (induction ks arbitrary: s)
  case (Cons j ks)
  have "inv (snd (ic_remove C j s))" using Cons.prems by (rule remove_inv)
  from Cons.IH [OF this] remove_frame [OF Cons.prems, of _ j] remove_gone [OF Cons.prems, of _ j] show ?case by (simp, metis)
qed simp

lemma removeBatch_coherent:
  assumes "coherent (d, s)" "ir_removeBatch R ks d = (Ok (), d1)"
  shows "coherent (snd (cr_removeBatch R C ks (d, s)))"
proof -
  let ?s = "fold (\<lambda>k s. snd (ic_remove C k s)) ks s"
  have "inv s" using assms(1) by (simp add: coherent_def)
  note f = forget_all [OF this, of ks, THEN conjunct1] forget_all [OF this, of ks, THEN conjunct2, THEN spec, THEN spec]
  have "coherent (d1, ?s)" using f(2) removeBatch_other [OF assms(2)] by (intro removed_coherent [OF assms(1) f(1), of "set ks"]) auto
  with assms(2) show ?thesis by (simp add: cr_removeBatch_def)
qed

lemma step_coherent:
  assumes "coherent (d, s)" "followed R x d"
  shows "\<exists>s1. cr_step R C (Some idOf) ttl t x (d, s) = Some (fst (plain_step R x d), snd (plain_step R x d), s1) \<and> coherent (snd (plain_step R x d), s1)"
proof (cases x)
  case (RFind k)
  with find_coherent [OF assms(1), of ttl t k] show ?thesis by auto
next
  case (RExists k)
  with find_coherent [OF assms(1), of ttl t k] show ?thesis by (auto simp: cr_existsById_def ir_existsById_def)
next
  case (RSave e)
  with save_coherent [OF assms(1), of e "fst (ro_save R e d)" "snd (ro_save R e d)" ttl t] show ?thesis by (auto simp: apfst_def map_prod_def split: prod.splits)
next
  case (RRemove k)
  with remove_coherent [OF assms(1), of k] show ?thesis by (auto simp: cr_removeById_def split: prod.splits)
next
  case (RRemoveBatch ks)
  with assms(2) obtain d1 where "ir_removeBatch R ks d = (Ok (), d1)" by (cases "ir_removeBatch R ks d") (auto simp: followed_def isOk_def split: sum.splits)
  with removeBatch_coherent [OF assms(1) this] RRemoveBatch show ?thesis by (auto simp: cr_removeBatch_def)
next
  case RInvalidate
  have "inv s" using assms(1) by (simp add: coherent_def)
  with clear_inv [OF this] clear_gone [OF this] clear_always [OF this] RInvalidate show ?thesis
    by (cases "ic_clear C s") (simp add: cr_invalidateCache_def coherent_def)
qed (use assms in \<open>simp_all add: followed_def cr_findAll_def cr_count_def\<close>)

lemma run_coherent:
  "coherent (d, s) \<Longrightarrow> all_followed R (map snd xs) d \<Longrightarrow> \<exists>s1. cr_run R C (Some idOf) ttl xs (d, s) = Some (fst (plain_run R (map snd xs) d), snd (plain_run R (map snd xs) d), s1)"
proof (induction xs arbitrary: d s)
  case (Cons x xs)
  obtain s1 where s: "cr_step R C (Some idOf) ttl (fst x) (snd x) (d, s) = Some (fst (plain_step R (snd x) d), snd (plain_step R (snd x) d), s1)"
    "coherent (snd (plain_step R (snd x) d), s1)" using step_coherent [OF Cons.prems(1), of "snd x" ttl "fst x"] Cons.prems(2) by auto
  with Cons.IH [OF s(2)] Cons.prems(2) show ?case by (auto split: prod.splits)
qed simp

end

section \<open>The providers\<close>

lemma find_replace_first:
  "list_ex (\<lambda>x. idOf x = idOf e) d \<Longrightarrow> List.find (\<lambda>x. idOf x = k) (replace_first (\<lambda>x. idOf x = idOf e) e d) = (if k = idOf e then Some e else List.find (\<lambda>x. idOf x = k) d)"
  by (induction d) auto

lemma find_snoc: "List.find P (xs @ [y]) = (case List.find P xs of Some x \<Rightarrow> Some x | None \<Rightarrow> if P y then Some y else None)"
  by (induction xs) auto

lemma find_none: "\<not> list_ex P xs \<Longrightarrow> List.find P xs = None"
  by (induction xs) auto

lemma find_filter_other: "k' \<noteq> k \<Longrightarrow> List.find (\<lambda>x. f x = k') (filter (\<lambda>x. f x \<noteq> k) xs) = List.find (\<lambda>x. f x = k') xs"
  by (induction xs) auto

interpretation mem_repo: keyed_repository "mr_ops idOf" idOf for idOf :: "'e \<Rightarrow> 'k"
proof
  fix e e1 :: 'e and d d1 k assume "ro_save (mr_ops idOf) e d = (Ok e1, d1)"
  then show "ro_findById (mr_ops idOf) k d1 = (if k = idOf e1 then Ok e1 else ro_findById (mr_ops idOf) k d)"
    by (auto simp: mr_ops_def mr_save_def mr_findById_def find_replace_first find_snoc find_none split: if_splits option.splits)
next
  fix k k' d r d1 assume "ro_removeById (mr_ops idOf) k d = (r, d1)" "k' \<noteq> k \<or> \<not> isOk r"
  then show "ro_findById (mr_ops idOf) k' d1 = ro_findById (mr_ops idOf) k' d"
    by (auto simp: mr_ops_def mr_removeById_def mr_findById_def find_filter_other split: if_splits)
qed (simp add: mr_ops_def mr_save_def)

text \<open>The cache in memory: the entries under other keys stay or go.\<close>

lemma mc_view_frame:
  "map_of (mc_entries c') k = None \<or> map_of (mc_entries c') k = map_of (mc_entries c) k \<Longrightarrow> mc_view t c' k = None \<or> mc_view t c' k = mc_view t c k"
  by (auto simp: mc_view_def)

lemma mc_put_other:
  assumes "mc_inv c" "mc_put est now k v ttl c = Some c'" "k' \<noteq> k"
  shows "map_of (mc_entries c') k' = None \<or> map_of (mc_entries c') k' = map_of (mc_entries c) k'"
proof (cases "map_of (mc_entries c) k")
  case (Some e)
  with assms(2,3) show ?thesis by (auto simp: mc_put_def mc_store_def mc_update_def mc_touch_def Let_def AList.update_conv')
next
  case None
  then obtain d where d: "mc_evictToFit (est v) c = Some d" "c' = mc_insert k v (est v) (computeExpireTime (mc_cfg c) now ttl) d"
    using assms(2) by (auto simp: mc_put_def mc_store_def)
  from d(1) obtain n where "mc_entries d = keep_keys (take n (mc_lru c)) (mc_entries c)" using mc_evictToFit_spec [OF assms(1), of "est v"] by auto
  with d(2) assms(3) show ?thesis by (auto simp: mc_insert_def keep_keys_def map_of_keep_keys restrict_map_def)
qed

interpretation mem_coherent: coherent_icache "mc_ops est :: (('k, 'v) memory_cache, 'k, 'v) icache_ops" mc_inv mem_view "\<lambda>_. True" for est :: "'v \<Rightarrow> nat"
proof
  fix s s' :: "('k, 'v) memory_cache" and t t' :: clock and k k' v ttl res assume i: "mc_inv s"
  show "mem_view t' (snd (ic_get (mc_ops est) t k s)) k' = None \<or> mem_view t' (snd (ic_get (mc_ops est) t k s)) k' = mem_view t' s k'"
    by (rule mc_view_frame) (auto simp: mc_ops_def mc_get_def mc_evictEntry_def AList.delete_conv' split: option.splits)
  show "ic_put (mc_ops est) t k v ttl s = Some (res, s') \<Longrightarrow> res = Ok ()" by (auto simp: mc_ops_def)
  show "ic_put (mc_ops est) t k v ttl s = Some (res, s') \<Longrightarrow> k' \<noteq> k \<Longrightarrow> mem_view t' s' k' = None \<or> mem_view t' s' k' = mem_view t' s k'"
    using mc_put_other [OF i, of est "fst t" k v ttl s' k'] by (intro mc_view_frame) (auto simp: mc_ops_def)
  show "mem_view t' (snd (ic_remove (mc_ops est) k s)) k' = None \<or> mem_view t' (snd (ic_remove (mc_ops est) k s)) k' = mem_view t' s k'"
    by (rule mc_view_frame) (auto simp: mc_ops_def mc_remove_def mc_evictEntry_def AList.delete_conv' split: option.splits)
  show "mc_inv (snd (ic_clear (mc_ops est) s))" "fst (ic_clear (mc_ops est) s) = Ok ()" "mem_view t' (snd (ic_clear (mc_ops est) s)) k = None"
    by (simp_all add: mc_ops_def mc_clear_def mc_inv_def mc_view_def)
qed

interpretation mem_cached: cached_repository "mr_ops idOf" idOf "mc_ops est :: (('k, 'e) memory_cache, 'k, 'e) icache_ops" mc_inv mem_view "\<lambda>_. True"
  for idOf :: "'e \<Rightarrow> 'k" and est :: "'e \<Rightarrow> nat"
  by unfold_locales

section \<open>Properties\<close>

text \<open>C34 (refinement). A repository in memory behind a cache in memory that is empty at first, of any capacity and time to live, where the decorator is given the repository's own identifier extractor
  as \<open>idExtractor\<close>, answers any sequence of calls, at any times, exactly as it would without the cache, and holds the same entities afterwards, as long as the sequence saves no batch and removes no batch
  that cannot be removed completely.\<close>

theorem cached_repository_transparent:
  assumes "all_followed (mr_ops idOf) (map snd xs) d"
  shows "\<exists>s. cr_run (mr_ops idOf) (mc_ops est) (Some idOf) ttl xs (d, mk_MemoryCache cfg)
    = Some (fst (plain_run (mr_ops idOf) (map snd xs) d), snd (plain_run (mr_ops idOf) (map snd xs) d), s)"
proof (rule mem_cached.run_coherent [OF _ assms])
  show "mem_cached.coherent idOf (d, mk_MemoryCache cfg)"
    by (simp add: mem_cached.coherent_def mc_view_def mk_MemoryCache_def mc_inv_def empty_stats_def)
qed

theorem cached_repository_transparent_witness:
  "\<exists>s. cr_run (mr_ops fst) (mc_ops (\<lambda>_. 1)) (Some fst) 60 [((0, 0), RSave (1::nat, ''a'')), ((1, 1), RFind 1), ((2, 2), RSave (1, ''b'')), ((3, 3), RFind 1), ((4, 4), RRemoveBatch [1]), ((5, 5), RFind 1)] ([], mk_MemoryCache default_mc_config)
    = Some (map AEntity [Ok (1, ''a''), Ok (1, ''a''), Ok (1, ''b''), Ok (1, ''b'')] @ [ADone (Ok ()), AEntity (Err (mk_error EC_NotFound ''Entity not found''))], [], s)"
proof -
  let ?xs = "[((0, 0), RSave (1::nat, ''a'')), ((1, 1), RFind 1), ((2, 2), RSave (1, ''b'')), ((3, 3), RFind 1), ((4, 4), RRemoveBatch [1]), ((5, 5), RFind 1)] :: (clock \<times> (nat, nat \<times> string) repo_step) list"
  have "all_followed (mr_ops fst) (map snd ?xs) []" "plain_run (mr_ops fst) (map snd ?xs) []
    = (map AEntity [Ok (1, ''a''), Ok (1, ''a''), Ok (1, ''b''), Ok (1, ''b'')] @ [ADone (Ok ()), AEntity (Err (mk_error EC_NotFound ''Entity not found''))], [])"
    by (simp_all add: followed_def mr_ops_def mr_save_def mr_findById_def mr_removeById_def)
  with cached_repository_transparent [of fst ?xs "[]" "\<lambda>_. 1" 60 default_mc_config] show ?thesis by simp
qed

text \<open>Without an extractor, which is the default, a \<open>save\<close> does not reach the cache: an entity that was read before is found with its old contents.\<close>

theorem cached_save_without_extractor_stale:
  "case cr_run (mr_ops fst) (mc_ops (\<lambda>_. 1)) None 60 [((0, 0), RSave (1::nat, ''old'')), ((1, 1), RFind 1), ((2, 2), RSave (1, ''new'')), ((3, 3), RFind 1)]
      ([], mk_MemoryCache \<lparr>maxEntries = 8, maxBytes = 0, defaultTtl = None\<rparr>) of
     Some (as, d, s) \<Rightarrow> last as = AEntity (Ok (1, ''old'')) \<and> d = [(1, ''new'')] | None \<Rightarrow> False"
  by (simp add: mr_ops_def mr_save_def mr_findById_def cr_save_def cr_findById_def mc_ops_def mc_put_def mc_store_def mk_MemoryCache_def mc_evictToFit.simps
    mc_insert_def mc_get_def mc_isExpired_def computeExpireTime_def Let_def)

text \<open>The two exceptions. After a batch has been saved, and after a batch has been removed in part, the cache goes on answering with the entity that was there before.\<close>

theorem cached_batch_save_stale:
  "case cr_run (mr_ops fst) (mc_ops (\<lambda>_. 1)) (Some fst) 60 [((0, 0), RSave (1::nat, ''old'')), ((1, 1), RSaveBatch [(1, ''new'')]), ((2, 2), RFind 1)]
      ([], mk_MemoryCache \<lparr>maxEntries = 8, maxBytes = 0, defaultTtl = None\<rparr>) of
     Some (as, d, s) \<Rightarrow> last as = AEntity (Ok (1, ''old'')) \<and> d = [(1, ''new'')] | None \<Rightarrow> False"
  by (simp add: mr_ops_def mr_save_def mr_findById_def cr_save_def cr_saveBatch_def cr_findById_def mc_ops_def mc_put_def mc_store_def mk_MemoryCache_def mc_evictToFit.simps
    mc_insert_def mc_get_def mc_isExpired_def computeExpireTime_def Let_def)

theorem cached_batch_remove_stale:
  "case cr_run (mr_ops fst) (mc_ops (\<lambda>_. 1)) (Some fst) 60 [((0, 0), RSave (1::nat, ''old'')), ((1, 1), RRemoveBatch [1, 2]), ((2, 2), RFind 1)]
      ([], mk_MemoryCache \<lparr>maxEntries = 8, maxBytes = 0, defaultTtl = None\<rparr>) of
     Some (as, d, s) \<Rightarrow> last as = AEntity (Ok (1, ''old'')) \<and> d = [] | None \<Rightarrow> False"
  by (simp add: mr_ops_def mr_save_def mr_findById_def mr_removeById_def cr_save_def cr_removeBatch_def cr_findById_def mc_ops_def mc_put_def mc_store_def mk_MemoryCache_def mc_evictToFit.simps
    mc_insert_def mc_get_def mc_isExpired_def computeExpireTime_def Let_def)

text \<open>
  Over the repository with a pool the decorator also answers for an entity that was never stored: \<open>save\<close> reports a success for an identifier that the table does not have (theorem
  \<open>SK_Repository.repository_save_find\<close>), and the decorator caches what \<open>save\<close> returned.
\<close>

definition sq_ops :: "sc_error option \<Rightarrow> 'd driver \<Rightarrow> sql_dialect \<Rightarrow> (int \<Rightarrow> string) \<Rightarrow> (string \<Rightarrow> int) \<Rightarrow> (qvariant \<Rightarrow> int) \<Rightarrow> entity \<Rightarrow> table_meta \<Rightarrow> string \<Rightarrow> string \<Rightarrow> int \<Rightarrow> int \<Rightarrow> string
    \<Rightarrow> ('d, string, entity) repo_ops" where
  "sq_ops acq dr dia toIso fromIso toInt blank meta tbl uuid t1 t2 what =
     (let fnd = (\<lambda>q. sq_find acq dr dia tbl (fromQueryResult fromIso toInt meta blank) q)
      in \<lparr>ro_findById = (\<lambda>i d. findById (\<lambda>q. fnd q d) i), ro_findAll = (\<lambda>d. findAll (\<lambda>q. fnd q d)),
          ro_save = sq_save acq dr dia toIso meta tbl uuid t1 t2, ro_removeById = removeById (sq_remove acq dr dia tbl what)\<rparr>)"

theorem cached_answers_for_lost_entity:
  "case cr_run (sq_ops None sim_rows_driver SQLiteDialect dec_int (\<lambda>_. 0) (\<lambda>_. 0) (demo_entity []) demo_table_meta ''t'' ''u1'' 5 6 []) (mc_ops (\<lambda>_. 1)) (Some en_id) 60
      [((0, 0), RSave (demo_entity ''u9'')), ((1, 1), RFind ''u9'')] ([], mk_MemoryCache \<lparr>maxEntries = 8, maxBytes = 0, defaultTtl = None\<rparr>) of
     Some (as, d, s) \<Rightarrow> last as = AEntity (Ok (beforeUpdate 5 (demo_entity ''u9''))) \<and> d = [] | None \<Rightarrow> False"
proof -
  have s: "sq_save None sim_rows_driver SQLiteDialect dec_int demo_table_meta ''t'' ''u1'' 5 6 (demo_entity ''u9'') [] = (Ok (beforeUpdate 5 (demo_entity ''u9'')), [])" and k: "en_id (beforeUpdate 5 (demo_entity ''u9'')) = ''u9''"
  proof -
    show "en_id (beforeUpdate 5 (demo_entity ''u9'')) = ''u9''" by (simp add: beforeUpdate_def demo_entity_def)
    have "property_params (meta_fields demo_table_meta) (beforeUpdate 5 (demo_entity ''u9'')) = [QText ''Ann'']" "en_id (demo_entity ''u9'') = ''u9''"
      by (simp_all add: demo_table_meta_def skipped_def baseFields_def demo_entity_def beforeUpdate_def)
    then show "sq_save None sim_rows_driver SQLiteDialect dec_int demo_table_meta ''t'' ''u1'' 5 6 (demo_entity ''u9'') [] = (Ok (beforeUpdate 5 (demo_entity ''u9'')), [])"
      by (simp add: sq_save_def updateInternal_def sq_execute_def sim_rows_driver_def sim_rows_update_def generateUpdateSql_text demo_table_ok(2) sim_rows_texts collectUpdateParams_def)
  qed
  show ?thesis
    by (simp add: sq_ops_def s cr_save_def cr_findById_def mc_ops_def mc_put_def mc_store_def mk_MemoryCache_def mc_evictToFit.simps
      mc_insert_def mc_get_def mc_isExpired_def computeExpireTime_def Let_def k)
qed

end
