(* ===== verification/SK_DataLayer.thy ===== *)
theory SK_DataLayer
  imports SK_Prelude "HOL-Library.AList"
begin

text \<open>
  The pool of database connections of \<^verbatim>\<open>include/soul/data/connection_pool.h\<close>, the transaction scope and \<open>withTransaction\<close> of \<^verbatim>\<open>include/soul/data/transaction.h\<close> and \<^verbatim>\<open>transaction.cpp\<close>, and the
  cache of query results of \<^verbatim>\<open>include/soul/orm/query_result_cache.h\<close>. Each operation of the pool holds its lock from beginning to end, except that \<open>acquire\<close> gives it up while it waits; it
  is split there. Whether a connection is up, and what the factory makes, are arguments; times are in nanoseconds.
\<close>

section \<open>The pool\<close>

record 'c db_pool =
  dp_minSize :: int
  dp_maxSize :: int
  dp_totalCount :: int
  dp_activeCount :: int
  dp_idleTimeoutMs :: int
  dp_idle :: "'c list"
  dp_times :: "int list"

definition mk_DbPool :: "int \<Rightarrow> int \<Rightarrow> 'c db_pool" where
  "mk_DbPool minSize maxSize = \<lparr>dp_minSize = minSize, dp_maxSize = maxSize, dp_totalCount = 0, dp_activeCount = 0, dp_idleTimeoutMs = 300000, dp_idle = [], dp_times = []\<rparr>"

definition setIdleTimeout :: "int \<Rightarrow> 'c db_pool \<Rightarrow> 'c db_pool" where
  "setIdleTimeout ms p = p\<lparr>dp_idleTimeoutMs := ms\<rparr>"

text \<open>The loop over the idle connections, from the back; the argument is the vector reversed.\<close>

fun pop_idle :: "('c \<Rightarrow> bool) \<Rightarrow> 'c list \<Rightarrow> int \<Rightarrow> 'c option \<times> 'c list \<times> int" where
  "pop_idle up [] tot = (None, [], tot)"
| "pop_idle up (c # cs) tot = (if up c then (Some c, cs, tot) else pop_idle up cs (if tot > 0 then tot - 1 else tot))"

datatype 'c acquired = Got 'c | Refused sc_error | Waits

text \<open>What the factory makes: nothing, or a connection that is up or can be opened, or one that cannot.\<close>

datatype 'c made = NoDriver | Opened 'c | NotOpened 'c

definition dp_acquire :: "('c \<Rightarrow> bool) \<Rightarrow> 'c made \<Rightarrow> int \<Rightarrow> 'c db_pool \<Rightarrow> 'c acquired \<times> 'c db_pool" where
  "dp_acquire up new timeoutMs p =
     (case pop_idle up (rev (dp_idle p)) (dp_totalCount p) of
        (Some c, cs, tot) \<Rightarrow> (Got c, p\<lparr>dp_idle := rev cs, dp_totalCount := tot, dp_activeCount := dp_activeCount p + 1\<rparr>)
      | (None, cs, tot) \<Rightarrow>
          (let p1 = p\<lparr>dp_idle := rev cs, dp_totalCount := tot\<rparr>
           in if tot < dp_maxSize p then
                (case new of
                   Opened c \<Rightarrow> (Got c, p1\<lparr>dp_totalCount := tot + 1, dp_activeCount := dp_activeCount p + 1\<rparr>)
                 | _ \<Rightarrow> (Refused (mk_error EC_DatabaseError ''Failed to create connection''), p1))
              else if timeoutMs \<ge> 0 then (Waits, p1)
              else (Refused (mk_error EC_ResourceExhausted ''Connection pool exhausted''), p1)))"

text \<open>The end of the wait: the condition holds, or the time is over. The call is then repeated without a time limit.\<close>

definition dp_available :: "'c db_pool \<Rightarrow> bool" where
  "dp_available p \<longleftrightarrow> dp_idle p \<noteq> [] \<or> dp_totalCount p < dp_maxSize p"

definition dp_woken :: "('c \<Rightarrow> bool) \<Rightarrow> 'c made \<Rightarrow> 'c db_pool \<Rightarrow> 'c acquired \<times> 'c db_pool" where
  "dp_woken up new p = (if dp_available p then dp_acquire up new 0 p else (Refused (mk_error EC_Timeout ''Connection pool acquire timeout''), p))"

definition dp_release :: "('c \<Rightarrow> bool) \<Rightarrow> int \<Rightarrow> 'c option \<Rightarrow> 'c db_pool \<Rightarrow> 'c db_pool" where
  "dp_release up now conn p =
     (case conn of
        None \<Rightarrow> p
      | Some c \<Rightarrow>
          (let p1 = (if dp_activeCount p > 0 then p\<lparr>dp_activeCount := dp_activeCount p - 1\<rparr> else p)
           in if up c then p1\<lparr>dp_idle := dp_idle p @ [c], dp_times := dp_times p @ [now]\<rparr>
              else if dp_totalCount p > 0 then p1\<lparr>dp_totalCount := dp_totalCount p - 1\<rparr> else p1))"

definition dp_closeAll :: "'c db_pool \<Rightarrow> 'c db_pool" where
  "dp_closeAll p = p\<lparr>dp_idle := [], dp_times := [], dp_totalCount := 0, dp_activeCount := 0\<rparr>"

text \<open>The first loop of \<open>healthCheck\<close> walks over connections and times together; \<open>None\<close> is the erasure of a time that is not there, which is undefined.\<close>

fun dp_clean :: "('c \<Rightarrow> bool) \<Rightarrow> int \<Rightarrow> int \<Rightarrow> int \<Rightarrow> int \<Rightarrow> 'c list \<Rightarrow> int list \<Rightarrow> ('c list \<times> int list \<times> int) option" where
  "dp_clean up now idleMs minSize tot [] ts = Some ([], ts, tot)"
| "dp_clean up now idleMs minSize tot (c # cs) ts =
     (if \<not> up c \<or> idleMs > 0 \<and> ts \<noteq> [] \<and> ms_cast (now - hd ts) > idleMs \<and> tot > minSize
      then (if ts = [] then None else dp_clean up now idleMs minSize (if tot > 0 then tot - 1 else tot) cs (tl ts))
      else (case dp_clean up now idleMs minSize tot cs (tl ts) of
              None \<Rightarrow> None
            | Some (cs1, ts1, tot1) \<Rightarrow> Some (c # cs1, take 1 ts @ ts1, tot1)))"

text \<open>The second loop; it keeps a connection even when it cannot be opened. \<open>mk n\<close> is what the factory makes the \<open>n\<close>-th time.\<close>

definition dp_add :: "int \<Rightarrow> 'c \<Rightarrow> 'c db_pool \<Rightarrow> 'c db_pool" where
  "dp_add now c p = p\<lparr>dp_idle := dp_idle p @ [c], dp_times := dp_times p @ [now], dp_totalCount := dp_totalCount p + 1\<rparr>"

function dp_refill :: "int \<Rightarrow> (nat \<Rightarrow> 'c made) \<Rightarrow> nat \<Rightarrow> 'c db_pool \<Rightarrow> 'c db_pool" where
  "dp_refill now mk n p =
     (if dp_totalCount p < dp_minSize p then
        (case mk n of NoDriver \<Rightarrow> p | Opened c \<Rightarrow> dp_refill now mk (Suc n) (dp_add now c p) | NotOpened c \<Rightarrow> dp_refill now mk (Suc n) (dp_add now c p))
      else p)"
  by pat_completeness auto

termination
  by (relation "measure (\<lambda>(now, mk, n, p). nat (dp_minSize p - dp_totalCount p))") (simp_all add: dp_add_def)

declare dp_refill.simps [simp del]

definition dp_healthCheck :: "('c \<Rightarrow> bool) \<Rightarrow> int \<Rightarrow> (nat \<Rightarrow> 'c made) \<Rightarrow> 'c db_pool \<Rightarrow> 'c db_pool option" where
  "dp_healthCheck up now mk p =
     (case dp_clean up now (dp_idleTimeoutMs p) (dp_minSize p) (dp_totalCount p) (dp_idle p) (dp_times p) of
        None \<Rightarrow> None
      | Some (cs, ts, tot) \<Rightarrow> Some (dp_refill now mk 0 (p\<lparr>dp_idle := cs, dp_times := ts, dp_totalCount := tot\<rparr>)))"

function dp_initialize :: "int \<Rightarrow> (nat \<Rightarrow> 'c made) \<Rightarrow> nat \<Rightarrow> 'c db_pool \<Rightarrow> bool \<times> 'c db_pool" where
  "dp_initialize now mk n p =
     (if dp_totalCount p < dp_minSize p then
        (case mk n of Opened c \<Rightarrow> dp_initialize now mk (Suc n) (dp_add now c p) | _ \<Rightarrow> (False, p))
      else (True, p))"
  by pat_completeness auto

termination
  by (relation "measure (\<lambda>(now, mk, n, p). nat (dp_minSize p - dp_totalCount p))") (simp_all add: dp_add_def)

declare dp_initialize.simps [simp del]

section \<open>The life of the pool\<close>

text \<open>The pool and the connections that are held outside. The factory makes connections that are not known yet.\<close>

record 'c db_sys =
  sys_pool :: "'c db_pool"
  sys_held :: "'c list"

definition known :: "'c db_sys \<Rightarrow> 'c set" where
  "known st = set (dp_idle (sys_pool st)) \<union> set (sys_held st)"

fun made_conn :: "'c made \<Rightarrow> 'c option" where
  "made_conn NoDriver = None"
| "made_conn (Opened c) = Some c"
| "made_conn (NotOpened c) = Some c"

definition fresh_factory :: "(nat \<Rightarrow> 'c made) \<Rightarrow> 'c db_sys \<Rightarrow> bool" where
  "fresh_factory mk st \<longleftrightarrow> (\<forall>n c. made_conn (mk n) = Some c \<longrightarrow> c \<notin> known st) \<and> (\<forall>m n c. made_conn (mk m) = Some c \<longrightarrow> made_conn (mk n) = Some c \<longrightarrow> m = n)"

definition took :: "'c acquired \<times> 'c db_pool \<Rightarrow> 'c db_sys \<Rightarrow> 'c db_sys" where
  "took rp st = \<lparr>sys_pool = snd rp, sys_held = (case fst rp of Got c \<Rightarrow> c # sys_held st | _ \<Rightarrow> sys_held st)\<rparr>"

inductive db_step :: "'c db_sys \<Rightarrow> 'c db_sys \<Rightarrow> bool" where
  db_acquire: "(\<And>c. made_conn new = Some c \<Longrightarrow> c \<notin> known st) \<Longrightarrow> db_step st (took (dp_acquire up new ms (sys_pool st)) st)"
| db_woken: "(\<And>c. made_conn new = Some c \<Longrightarrow> c \<notin> known st) \<Longrightarrow> db_step st (took (dp_woken up new (sys_pool st)) st)"
| db_release: "c \<in> set (sys_held st) \<Longrightarrow> db_step st \<lparr>sys_pool = dp_release up now (Some c) (sys_pool st), sys_held = remove1 c (sys_held st)\<rparr>"
| db_health: "fresh_factory mk st \<Longrightarrow> dp_healthCheck up now mk (sys_pool st) = Some p \<Longrightarrow> db_step st (st\<lparr>sys_pool := p\<rparr>)"
| db_init: "fresh_factory mk st \<Longrightarrow> db_step st (st\<lparr>sys_pool := snd (dp_initialize now mk 0 (sys_pool st))\<rparr>)"
| db_timeout: "db_step st (st\<lparr>sys_pool := setIdleTimeout ms (sys_pool st)\<rparr>)"

definition db_inv :: "int \<Rightarrow> int \<Rightarrow> 'c db_sys \<Rightarrow> bool" where
  "db_inv lo hi st \<longleftrightarrow> (let p = sys_pool st in dp_minSize p = lo \<and> dp_maxSize p = hi
     \<and> dp_totalCount p = int (length (dp_idle p) + length (sys_held st)) \<and> dp_activeCount p = int (length (sys_held st))
     \<and> dp_totalCount p \<le> hi \<and> distinct (dp_idle p @ sys_held st) \<and> length (dp_idle p) \<le> length (dp_times p))"

lemma pop_idle_spec:
  "tot \<ge> int (length cs) \<Longrightarrow> pop_idle up cs tot = (r, cs1, tot1) \<Longrightarrow>
   \<exists>pre. cs = pre @ (case r of None \<Rightarrow> [] | Some c \<Rightarrow> c # cs1) \<and> (r = None \<longrightarrow> cs1 = []) \<and> tot1 = tot - int (length pre)"
proof (induction cs arbitrary: tot)
  case (Cons c cs)
  show ?case
  proof (cases "up c")
    case True
    with Cons.prems(2) show ?thesis by auto
  next
    case False
    have "tot - 1 \<ge> int (length cs)" "pop_idle up cs (tot - 1) = (r, cs1, tot1)" using Cons.prems False by simp_all
    from Cons.IH [OF this] obtain pre where "cs = pre @ (case r of None \<Rightarrow> [] | Some c \<Rightarrow> c # cs1)" "r = None \<longrightarrow> cs1 = []" "tot1 = tot - 1 - int (length pre)"
      by blast
    then show ?thesis by (intro exI [of _ "c # pre"]) simp
  qed
qed simp

lemma acquire_inv:
  assumes "db_inv lo hi st" "\<And>c. made_conn new = Some c \<Longrightarrow> c \<notin> known st"
  shows "db_inv lo hi (took (dp_acquire up new ms (sys_pool st)) st)"
proof -
  let ?p = "sys_pool st"
  obtain r cs1 tot1 where r: "pop_idle up (rev (dp_idle ?p)) (dp_totalCount ?p) = (r, cs1, tot1)" by (metis prod_cases3)
  have "dp_totalCount ?p \<ge> int (length (rev (dp_idle ?p)))" using assms(1) by (simp add: db_inv_def Let_def)
  from pop_idle_spec [OF this r] obtain pre where pre: "rev (dp_idle ?p) = pre @ (case r of None \<Rightarrow> [] | Some c \<Rightarrow> c # cs1)"
    "r = None \<Longrightarrow> cs1 = []" "tot1 = dp_totalCount ?p - int (length pre)" by blast
  then have idle: "dp_idle ?p = rev (pre @ (case r of None \<Rightarrow> [] | Some c \<Rightarrow> c # cs1))" by (metis rev_rev_ident)
  show ?thesis
  proof (cases r)
    case None
    with assms idle pre r show ?thesis
      by (cases new) (auto simp: dp_acquire_def took_def db_inv_def known_def Let_def)
  next
    case (Some c)
    with assms(1) idle pre r show ?thesis by (auto simp: dp_acquire_def took_def db_inv_def Let_def)
  qed
qed

lemma release_inv:
  assumes "db_inv lo hi st" "c \<in> set (sys_held st)"
  shows "db_inv lo hi \<lparr>sys_pool = dp_release up now (Some c) (sys_pool st), sys_held = remove1 c (sys_held st)\<rparr>"
proof -
  have l: "length (sys_held st) = Suc (length (remove1 c (sys_held st)))" using length_pos_if_in_set [OF assms(2)] assms(2) by (simp add: length_remove1)
  with assms show ?thesis by (auto simp: db_inv_def dp_release_def Let_def)
qed

lemma clean_spec:
  "length cs \<le> length ts \<Longrightarrow> tot \<ge> int (length cs) \<Longrightarrow>
   \<exists>cs1 ts1 tot1. dp_clean up now idleMs lo tot cs ts = Some (cs1, ts1, tot1) \<and> tot1 = tot - int (length cs - length cs1)
     \<and> length cs1 \<le> length cs \<and> length cs1 \<le> length ts1 \<and> set cs1 \<subseteq> set cs \<and> (distinct cs \<longrightarrow> distinct cs1)"
proof (induction cs arbitrary: ts tot)
  case (Cons c cs)
  then obtain t ts' where ts: "ts = t # ts'" by (cases ts) auto
  show ?case
  proof (cases "\<not> up c \<or> idleMs > 0 \<and> ts \<noteq> [] \<and> ms_cast (now - hd ts) > idleMs \<and> tot > lo")
    case True
    have "length cs \<le> length ts'" "tot - 1 \<ge> int (length cs)" using Cons.prems ts by auto
    from Cons.IH [OF this] obtain cs1 ts1 tot1 where "dp_clean up now idleMs lo (tot - 1) cs ts' = Some (cs1, ts1, tot1)" "tot1 = tot - 1 - int (length cs - length cs1)"
      "length cs1 \<le> length cs" "length cs1 \<le> length ts1" "set cs1 \<subseteq> set cs" "distinct cs \<longrightarrow> distinct cs1" by blast
    with True ts Cons.prems(2) show ?thesis by (auto simp: of_nat_diff)
  next
    case False
    have "length cs \<le> length ts'" "tot \<ge> int (length cs)" using Cons.prems ts by auto
    from Cons.IH [OF this] obtain cs1 ts1 tot1 where "dp_clean up now idleMs lo tot cs ts' = Some (cs1, ts1, tot1)" "tot1 = tot - int (length cs - length cs1)"
      "length cs1 \<le> length cs" "length cs1 \<le> length ts1" "set cs1 \<subseteq> set cs" "distinct cs \<longrightarrow> distinct cs1" by blast
    with False ts show ?thesis by auto
  qed
qed simp

lemma refill_inv:
  "db_inv lo hi st \<Longrightarrow> lo \<le> hi \<Longrightarrow> (\<And>m c. n \<le> m \<Longrightarrow> made_conn (mk m) = Some c \<Longrightarrow> c \<notin> known st) \<Longrightarrow> (\<And>i m c. made_conn (mk m) = Some c \<Longrightarrow> made_conn (mk i) = Some c \<Longrightarrow> m = i) \<Longrightarrow>
   db_inv lo hi (st\<lparr>sys_pool := dp_refill now mk n (sys_pool st)\<rparr>) \<and> db_inv lo hi (st\<lparr>sys_pool := snd (dp_initialize now mk n (sys_pool st))\<rparr>)"
proof (induction "nat (lo - dp_totalCount (sys_pool st))" arbitrary: st n rule: less_induct)
  case less
  let ?p = "sys_pool st"
  have add: "db_inv lo hi (st\<lparr>sys_pool := dp_refill now mk (Suc n) (dp_add now c ?p)\<rparr>) \<and> db_inv lo hi (st\<lparr>sys_pool := snd (dp_initialize now mk (Suc n) (dp_add now c ?p))\<rparr>)"
    if "dp_totalCount ?p < dp_minSize ?p" "made_conn (mk n) = Some c" for c
  proof -
    let ?st = "st\<lparr>sys_pool := dp_add now c ?p\<rparr>"
    have "db_inv lo hi ?st" using less.prems(1,2) less.prems(3) [OF order_refl that(2)] that(1) by (auto simp: db_inv_def dp_add_def known_def Let_def)
    moreover have "nat (lo - dp_totalCount (sys_pool ?st)) < nat (lo - dp_totalCount ?p)" using that(1) less.prems(1) by (simp add: db_inv_def dp_add_def Let_def)
    moreover have "x \<notin> known ?st" if x: "Suc n \<le> m" "made_conn (mk m) = Some x" for m x
      using less.prems(3) [OF _ x(2)] less.prems(4) [of n c m] \<open>made_conn (mk n) = Some c\<close> x by (auto simp: known_def dp_add_def)
    ultimately show ?thesis using less.hyps [of ?st "Suc n"] less.prems(2,4) by simp
  qed
  show ?case
  proof (cases "dp_totalCount ?p < dp_minSize ?p")
    case True
    with add less.prems(1) show ?thesis by (cases "mk n") (simp_all add: dp_refill.simps [of now mk n ?p] dp_initialize.simps [of now mk n ?p])
  next
    case False
    with less.prems(1) show ?thesis by (simp add: dp_refill.simps dp_initialize.simps)
  qed
qed

lemma health_inv:
  assumes "db_inv lo hi st" "lo \<le> hi" "fresh_factory mk st" "dp_healthCheck up now mk (sys_pool st) = Some p"
  shows "db_inv lo hi (st\<lparr>sys_pool := p\<rparr>)"
proof -
  let ?p = "sys_pool st"
  have "length (dp_idle ?p) \<le> length (dp_times ?p)" "dp_totalCount ?p \<ge> int (length (dp_idle ?p))" using assms(1) by (simp_all add: db_inv_def Let_def)
  from clean_spec [OF this] obtain cs ts tot where c: "dp_clean up now (dp_idleTimeoutMs ?p) (dp_minSize ?p) (dp_totalCount ?p) (dp_idle ?p) (dp_times ?p) = Some (cs, ts, tot)"
    "tot = dp_totalCount ?p - int (length (dp_idle ?p) - length cs)" "length cs \<le> length (dp_idle ?p)" "length cs \<le> length ts" "set cs \<subseteq> set (dp_idle ?p)" "distinct (dp_idle ?p) \<longrightarrow> distinct cs"
    by blast
  let ?st = "st\<lparr>sys_pool := ?p\<lparr>dp_idle := cs, dp_times := ts, dp_totalCount := tot\<rparr>\<rparr>"
  have "db_inv lo hi ?st" using assms(1) c(2-6) by (auto simp: db_inv_def Let_def of_nat_diff)
  moreover have "x \<notin> known ?st" if "made_conn (mk m) = Some x" for m x using assms(3) that c(5) by (auto simp: fresh_factory_def known_def)
  moreover have "p = dp_refill now mk 0 (sys_pool ?st)" using assms(4) c(1) by (simp add: dp_healthCheck_def)
  ultimately show ?thesis using refill_inv [of lo hi ?st 0 mk now] assms(2,3) by (simp add: fresh_factory_def)
qed

interpretation db_life: inductive_invariant "\<lambda>st. st = \<lparr>sys_pool = mk_DbPool lo hi, sys_held = []\<rparr> \<and> 0 \<le> hi \<and> lo \<le> hi" db_step "\<lambda>st. db_inv lo hi st \<and> lo \<le> hi" for lo hi
proof
  fix st st' :: "'a db_sys" assume i: "db_inv lo hi st \<and> lo \<le> hi" and "db_step st st'"
  from this(2) show "db_inv lo hi st' \<and> lo \<le> hi"
  proof cases
    case (db_woken new up)
    have "took (Refused e, sys_pool st) st = st" for e :: sc_error by (simp add: took_def)
    then show ?thesis using i db_woken acquire_inv [of lo hi st new up 0] by (simp add: dp_woken_def)
  next
    case (db_init mk now)
    then show ?thesis using i refill_inv [of lo hi st 0 mk now] by (simp add: fresh_factory_def)
  next
    case (db_timeout ms)
    then show ?thesis using i by (simp add: db_inv_def setIdleTimeout_def Let_def)
  qed (use i in \<open>auto intro: acquire_inv release_inv health_inv\<close>)
qed (simp add: db_inv_def mk_DbPool_def)



text \<open>
  What closing does: the counters forget the connections that are held, and the pool then makes as many again. And the times: \<open>acquire\<close> takes a connection and leaves its time,
  so that the times no longer belong to the connections, become more with every use, and \<open>healthCheck\<close> closes a connection that was returned a moment ago.
\<close>

theorem db_pool_close_exceeds:
  "let st0 = \<lparr>sys_pool = mk_DbPool 0 1, sys_held = []\<rparr>;
       st1 = took (dp_acquire (\<lambda>_. True) (Opened (1::nat)) 0 (sys_pool st0)) st0;
       st2 = st1\<lparr>sys_pool := dp_closeAll (sys_pool st1)\<rparr>;
       st3 = took (dp_acquire (\<lambda>_. True) (Opened 2) 0 (sys_pool st2)) st2
   in sys_held st3 = [2, 1] \<and> dp_maxSize (sys_pool st3) = 1"
  by (simp add: took_def dp_acquire_def dp_closeAll_def mk_DbPool_def Let_def)

lemma acquire_keeps_times: "dp_acquire up new ms p = (r, p1) \<Longrightarrow> dp_times p1 = dp_times p"
  by (auto simp: dp_acquire_def Let_def split: prod.splits option.splits if_splits made.splits)

theorem db_pool_times_grow:
  assumes "dp_acquire up new ms p = (Got c, p1)" "up c"
  shows "length (dp_times (dp_release up now (Some c) p1)) = Suc (length (dp_times p))"
  using assms(2) acquire_keeps_times [OF assms(1)] by (simp add: dp_release_def Let_def)

theorem db_pool_closes_recent:
  "let p0 = mk_DbPool 0 2;
       (r1, p1) = dp_acquire (\<lambda>_. True) (Opened (1::nat)) 0 p0; p2 = dp_release (\<lambda>_. True) 0 (Some 1) p1;
       (r2, p3) = dp_acquire (\<lambda>_. True) NoDriver 0 p2; p4 = dp_release (\<lambda>_. True) (600000 * 1000000) (Some 1) p3
   in dp_idle p4 = [1] \<and> map_option dp_idle (dp_healthCheck (\<lambda>_. True) (600001 * 1000000) (\<lambda>_. NoDriver) p4) = Some []"
  by (simp add: dp_acquire_def dp_release_def dp_healthCheck_def mk_DbPool_def ms_cast_def dp_refill.simps Let_def)

section \<open>Transactions\<close>

text \<open>A transaction object: \<open>commit\<close> and \<open>rollback\<close> over a state \<open>'x\<close>. A scope owns one, or none when it could not begin.\<close>

record 'x tx_ops =
  tx_commit :: "'x \<Rightarrow> unit result \<times> 'x"
  tx_rollback :: "'x \<Rightarrow> unit result \<times> 'x"

record tx_scope =
  ts_tx :: bool
  ts_committed :: bool
  ts_rolledBack :: bool

definition mk_TransactionScope :: "bool \<Rightarrow> tx_scope" where
  "mk_TransactionScope begun = \<lparr>ts_tx = begun, ts_committed = False, ts_rolledBack = False\<rparr>"

definition ts_guard :: "tx_scope \<Rightarrow> unit result" where
  "ts_guard s =
     (if \<not> ts_tx s then Err (mk_error EC_InternalError ''No active transaction'')
      else if ts_committed s then Err (mk_error EC_InternalError ''Transaction already committed'')
      else if ts_rolledBack s then Err (mk_error EC_InternalError ''Transaction already rolled back'')
      else Ok ())"

definition ts_commit :: "'x tx_ops \<Rightarrow> tx_scope \<times> 'x \<Rightarrow> unit result \<times> tx_scope \<times> 'x" where
  "ts_commit T st = (let (s, x) = st
     in if isOk (ts_guard s) then (let (r, x1) = tx_commit T x in (r, if isOk r then s\<lparr>ts_committed := True\<rparr> else s, x1)) else (ts_guard s, s, x))"

definition ts_rollback :: "'x tx_ops \<Rightarrow> tx_scope \<times> 'x \<Rightarrow> unit result \<times> tx_scope \<times> 'x" where
  "ts_rollback T st = (let (s, x) = st
     in if isOk (ts_guard s) then (let (r, x1) = tx_rollback T x in (r, if isOk r then s\<lparr>ts_rolledBack := True\<rparr> else s, x1)) else (ts_guard s, s, x))"

definition ts_isActive :: "tx_scope \<Rightarrow> bool" where
  "ts_isActive s \<longleftrightarrow> ts_tx s \<and> \<not> ts_committed s \<and> \<not> ts_rolledBack s"

definition ts_destroy :: "'x tx_ops \<Rightarrow> tx_scope \<times> 'x \<Rightarrow> 'x" where
  "ts_destroy T st = (let (s, x) = st in if ts_tx s \<and> \<not> ts_committed s \<and> \<not> ts_rolledBack s then snd (tx_rollback T x) else x)"

text \<open>How the operation of \<open>withTransaction\<close> ends.\<close>

datatype 'a op_end = Returns "'a result" | Throws string | ThrowsOther

definition withTransaction :: "'x tx_ops \<Rightarrow> bool \<Rightarrow> ('x \<Rightarrow> 'a op_end \<times> 'x) \<Rightarrow> 'x \<Rightarrow> 'a result \<times> 'x" where
  "withTransaction T begun operation x =
     (if \<not> begun then (Err (mk_error EC_InternalError ''Failed to begin transaction''), x)
      else case operation x of
        (Returns (Inl e), x1) \<Rightarrow> (Err e, snd (tx_rollback T x1))
      | (Returns (Inr v), x1) \<Rightarrow>
          (case tx_commit T x1 of
             (Inl e, x2) \<Rightarrow> (Err (mk_error EC_InternalError (''Transaction commit failed: '' @ err_message e)), x2)
           | (Inr _, x2) \<Rightarrow> (Ok v, x2))
      | (Throws what, x1) \<Rightarrow> (Err (mk_error EC_InternalError (''Transaction failed: '' @ what)), snd (tx_rollback T x1))
      | (ThrowsOther, x1) \<Rightarrow> (Err (mk_error EC_InternalError ''Transaction failed: unknown exception''), snd (tx_rollback T x1)))"

text \<open>A transaction that records its calls and whether they succeed, as a list of outcomes says.\<close>

datatype tx_call = Committed bool | RolledBack bool

definition log_tx :: "(tx_call list \<times> bool list) tx_ops" where
  "log_tx = (let out = (\<lambda>mkc (l, bs). (if hd (bs @ [False]) then Ok () else Err (mk_error EC_DatabaseError []), l @ [mkc (hd (bs @ [False]))], tl bs))
     in \<lparr>tx_commit = out Committed, tx_rollback = out RolledBack\<rparr>)"

definition scope_life :: "bool list \<Rightarrow> bool list \<Rightarrow> tx_call list" where
  "scope_life calls outs = fst (ts_destroy log_tx (fold (\<lambda>c st. snd (if c then ts_commit log_tx st else ts_rollback log_tx st)) calls (mk_TransactionScope True, [], outs)))"

definition failed :: "tx_call \<Rightarrow> bool" where
  "failed c \<longleftrightarrow> c = Committed False \<or> c = RolledBack False"

definition scope_state :: "tx_scope \<times> tx_call list \<times> bool list \<Rightarrow> bool" where
  "scope_state st \<longleftrightarrow> (let (s, l, bs) = st in ts_tx s \<and> (if ts_isActive s then list_all failed l else \<exists>l0 c. l = l0 @ [c] \<and> list_all failed l0 \<and> \<not> failed c))"

lemma scope_step: "scope_state st \<Longrightarrow> scope_state (snd (if c then ts_commit log_tx st else ts_rollback log_tx st))"
  by (cases st) (auto simp: scope_state_def ts_commit_def ts_rollback_def ts_guard_def ts_isActive_def log_tx_def failed_def Let_def split: if_splits)

lemma scope_fold: "scope_state (fold (\<lambda>c st. snd (if c then ts_commit log_tx st else ts_rollback log_tx st)) calls (mk_TransactionScope True, [], outs))"
proof (rule fold_keeps [of scope_state])
  show "scope_state (mk_TransactionScope True, [], outs)" by (simp add: scope_state_def mk_TransactionScope_def ts_isActive_def)
qed (rule scope_step)

text \<open>Whatever is called on a scope and whatever fails, its transaction is settled at most once, nothing is called on it after it was settled, and when no call succeeded the destructor rolls back last.\<close>

theorem scope_settles_once:
  "\<exists>l c. scope_life calls outs = l @ [c] \<and> list_all failed l \<and> (failed c \<longrightarrow> c = RolledBack False)"
proof -
  obtain s l bs where st: "fold (\<lambda>c st. snd (if c then ts_commit log_tx st else ts_rollback log_tx st)) calls (mk_TransactionScope True, [], outs) = (s, l, bs)" by (rule prod_cases3)
  with scope_fold [of calls outs] have i: "scope_state (s, l, bs)" by simp
  show ?thesis
  proof (cases "ts_isActive s")
    case True
    then have "scope_life calls outs = l @ [RolledBack (hd (bs @ [False]))]" unfolding scope_life_def st by (simp add: ts_destroy_def ts_isActive_def log_tx_def)
    moreover have "list_all failed l" "failed (RolledBack b) \<longrightarrow> RolledBack b = RolledBack False" for b using True i by (simp_all add: scope_state_def failed_def)
    ultimately show ?thesis by blast
  next
    case False
    then have "scope_life calls outs = l" unfolding scope_life_def st ts_isActive_def ts_destroy_def by auto
    moreover obtain l0 c where "l = l0 @ [c]" "list_all failed l0" "\<not> failed c" using False i unfolding scope_state_def by auto
    ultimately show ?thesis by blast
  qed
qed

text \<open>\<open>withTransaction\<close> rolls back after a failed operation and an exception, but not after a commit that fails; the scope does.\<close>

theorem with_transaction_commit_fails:
  "withTransaction log_tx True (\<lambda>x. (Returns (Ok v), x)) ([], [False]) = (Err (mk_error EC_InternalError ''Transaction commit failed: ''), [Committed False], [])"
  and "scope_life [True] [False, True] = [Committed False, RolledBack True]"
  by (simp_all add: withTransaction_def scope_life_def log_tx_def ts_commit_def ts_guard_def ts_destroy_def mk_TransactionScope_def Let_def)

section \<open>The cache of query results\<close>

record 'v qc_entry =
  qe_value :: 'v
  qe_createdAt :: int
  qe_ttl :: int

definition qe_isExpired :: "int \<Rightarrow> 'v qc_entry \<Rightarrow> bool" where
  "qe_isExpired now e \<longleftrightarrow> (if qe_ttl e \<le> 0 then False else now > qe_createdAt e + qe_ttl e * 1000000)"

record 'v query_cache =
  qc_defaultTtl :: int
  qc_cache :: "(string \<times> 'v qc_entry) list"
  qc_tableKeys :: "(string \<times> string list) list"

definition mk_QueryResultCache :: "int \<Rightarrow> 'v query_cache" where
  "mk_QueryResultCache ttl = \<lparr>qc_defaultTtl = ttl, qc_cache = [], qc_tableKeys = []\<rparr>"

definition extractTableName :: "string \<Rightarrow> string" where
  "extractTableName key = (if CHR '':'' \<in> set key then takeWhile (\<lambda>c. c \<noteq> CHR '':'') key else [])"

definition qc_put :: "int \<Rightarrow> string \<Rightarrow> 'v \<Rightarrow> int option \<Rightarrow> 'v query_cache \<Rightarrow> 'v query_cache" where
  "qc_put now key v ttl c =
     (let e = \<lparr>qe_value = v, qe_createdAt = now, qe_ttl = (case ttl of Some t \<Rightarrow> t | None \<Rightarrow> qc_defaultTtl c)\<rparr>;
          c1 = c\<lparr>qc_cache := AList.update key e (qc_cache c)\<rparr>;
          tbl = extractTableName key
      in if tbl = [] then c1
         else c1\<lparr>qc_tableKeys := AList.update tbl ((case map_of (qc_tableKeys c) tbl of Some ks \<Rightarrow> ks | None \<Rightarrow> []) @ [key]) (qc_tableKeys c)\<rparr>)"

definition qc_get :: "int \<Rightarrow> string \<Rightarrow> 'v query_cache \<Rightarrow> 'v option" where
  "qc_get now key c = (case map_of (qc_cache c) key of None \<Rightarrow> None | Some e \<Rightarrow> if qe_isExpired now e then None else Some (qe_value e))"

definition qc_invalidate :: "string \<Rightarrow> 'v query_cache \<Rightarrow> 'v query_cache" where
  "qc_invalidate key c = c\<lparr>qc_cache := AList.delete key (qc_cache c)\<rparr>"

definition qc_invalidateTable :: "string \<Rightarrow> 'v query_cache \<Rightarrow> 'v query_cache" where
  "qc_invalidateTable tbl c =
     (case map_of (qc_tableKeys c) tbl of
        None \<Rightarrow> c
      | Some ks \<Rightarrow> c\<lparr>qc_cache := fold AList.delete ks (qc_cache c), qc_tableKeys := AList.delete tbl (qc_tableKeys c)\<rparr>)"

definition qc_clear :: "'v query_cache \<Rightarrow> 'v query_cache" where
  "qc_clear c = c\<lparr>qc_cache := [], qc_tableKeys := []\<rparr>"

definition qc_size :: "'v query_cache \<Rightarrow> nat" where
  "qc_size c = length (qc_cache c)"

definition qc_evictExpired :: "int \<Rightarrow> 'v query_cache \<Rightarrow> 'v query_cache" where
  "qc_evictExpired now c = c\<lparr>qc_cache := filter (\<lambda>(k, e). \<not> qe_isExpired now e) (qc_cache c)\<rparr>"

text \<open>Every key that names a table is among the keys of that table, and the keys of a table name it.\<close>

definition keys_of :: "'v query_cache \<Rightarrow> string \<Rightarrow> string set" where
  "keys_of c tbl = (case map_of (qc_tableKeys c) tbl of Some ks \<Rightarrow> set ks | None \<Rightarrow> {})"

definition qc_inv :: "'v query_cache \<Rightarrow> bool" where
  "qc_inv c \<longleftrightarrow> (\<forall>k. map_of (qc_cache c) k \<noteq> None \<longrightarrow> extractTableName k \<noteq> [] \<longrightarrow> k \<in> keys_of c (extractTableName k))
     \<and> (\<forall>tbl k. k \<in> keys_of c tbl \<longrightarrow> extractTableName k = tbl)"

inductive qc_step :: "'v query_cache \<Rightarrow> 'v query_cache \<Rightarrow> bool" where
  qc_step_put: "qc_step c (qc_put now key v ttl c)"
| qc_step_invalidate: "qc_step c (qc_invalidate key c)"
| qc_step_table: "qc_step c (qc_invalidateTable tbl c)"
| qc_step_clear: "qc_step c (qc_clear c)"
| qc_step_evict: "qc_step c (qc_evictExpired now c)"

lemma map_of_fold_delete: "map_of (fold AList.delete ks xs) k = (if k \<in> set ks then None else map_of xs k)"
  by (induction ks arbitrary: xs) (simp_all add: AList.delete_conv')

lemma map_of_filter_None: "map_of xs k = None \<Longrightarrow> map_of (filter P xs) k = None"
  by (induction xs) (auto split: if_splits)

lemma keys_of_put: "keys_of (qc_put now key v ttl c) tbl = keys_of c tbl \<union> (if tbl = extractTableName key \<and> tbl \<noteq> [] then {key} else {})"
  by (simp add: keys_of_def qc_put_def Let_def AList.update_conv' split: option.splits)

lemma cache_of_put: "map_of (qc_cache (qc_put now key v ttl c)) k \<noteq> None \<longleftrightarrow> k = key \<or> map_of (qc_cache c) k \<noteq> None"
  by (simp add: qc_put_def Let_def AList.update_conv')

lemma qc_put_inv: "qc_inv c \<Longrightarrow> qc_inv (qc_put now key v ttl c)"
  unfolding qc_inv_def keys_of_put cache_of_put by (simp split: if_splits)

lemma qc_shrink_inv: "qc_inv c \<Longrightarrow> (\<And>k. map_of (qc_cache c) k = None \<Longrightarrow> map_of xs k = None) \<Longrightarrow> qc_inv (c\<lparr>qc_cache := xs\<rparr>)"
proof -
  have "keys_of (c\<lparr>qc_cache := xs\<rparr>) tbl = keys_of c tbl" for tbl by (simp add: keys_of_def)
  then show "qc_inv c \<Longrightarrow> (\<And>k. map_of (qc_cache c) k = None \<Longrightarrow> map_of xs k = None) \<Longrightarrow> qc_inv (c\<lparr>qc_cache := xs\<rparr>)"
    unfolding qc_inv_def by simp (metis not_Some_eq)
qed

lemma qc_invalidateTable_view:
  "map_of (qc_cache (qc_invalidateTable tbl c)) k = (if k \<in> keys_of c tbl then None else map_of (qc_cache c) k)"
  "keys_of (qc_invalidateTable tbl c) t = (if t = tbl then {} else keys_of c t)"
  by (simp_all add: keys_of_def qc_invalidateTable_def map_of_fold_delete AList.delete_conv' split: option.splits)

lemma qc_invalidateTable_inv:
  assumes "qc_inv c" shows "qc_inv (qc_invalidateTable tbl c)"
  using assms unfolding qc_inv_def qc_invalidateTable_view by (metis empty_iff)

interpretation qc_life: inductive_invariant "\<lambda>c. c = mk_QueryResultCache ttl" qc_step qc_inv for ttl
proof
  fix c c' :: "'a query_cache" assume i: "qc_inv c" and "qc_step c c'"
  from this(2) show "qc_inv c'"
  proof cases
    case qc_step_invalidate
    with i show ?thesis by (simp add: qc_invalidate_def qc_shrink_inv AList.delete_conv')
  next
    case qc_step_evict
    with i show ?thesis by (simp add: qc_evictExpired_def qc_shrink_inv map_of_filter_None)
  next
    case qc_step_clear
    then show ?thesis by (simp add: qc_clear_def qc_inv_def keys_of_def)
  qed (use i qc_put_inv qc_invalidateTable_inv in auto)
qed (simp add: qc_inv_def mk_QueryResultCache_def keys_of_def)



text \<open>The list of the keys of a table becomes longer with every \<open>put\<close>, also under the same key; only the invalidation of the table shortens it.\<close>

theorem query_cache_keys_grow:
  assumes "extractTableName key \<noteq> []"
  shows "length (case map_of (qc_tableKeys (((qc_put now key v ttl) ^^ n) (mk_QueryResultCache t))) (extractTableName key) of None \<Rightarrow> [] | Some ks \<Rightarrow> ks) = n"
    and "n > 0 \<Longrightarrow> qc_size (((qc_put now key v ttl) ^^ n) (mk_QueryResultCache t)) = 1"
proof -
  show "length (case map_of (qc_tableKeys (((qc_put now key v ttl) ^^ n) (mk_QueryResultCache t))) (extractTableName key) of None \<Rightarrow> [] | Some ks \<Rightarrow> ks) = n"
  proof (induction n)
    case (Suc n)
    then show ?case using assms by (simp add: qc_put_def AList.update_conv' Let_def)
  qed (simp add: mk_QueryResultCache_def)
  have put: "\<exists>e. qc_cache (qc_put now key v ttl c) = [(key, e)]" if "qc_cache c = [] \<or> (\<exists>e. qc_cache c = [(key, e)])" for c
    using that by (auto simp: qc_put_def Let_def)
  have "\<exists>e. qc_cache (((qc_put now key v ttl) ^^ Suc n) (mk_QueryResultCache t)) = [(key, e)]" for n
  proof (induction n)
    case (Suc n)
    then show ?case unfolding funpow.simps(2) [of "Suc n"] comp_apply by (intro put) blast
  qed (use put [of "mk_QueryResultCache t"] in \<open>simp add: mk_QueryResultCache_def\<close>)
  then show "n > 0 \<Longrightarrow> qc_size (((qc_put now key v ttl) ^^ n) (mk_QueryResultCache t)) = 1"
    by (metis Suc_pred length_Cons list.size(3) One_nat_def qc_size_def)
qed

end
