(* ===== verification/SK_WebSocket.thy ===== *)
theory SK_WebSocket
  imports SK_HttpMessage "HOL-Library.Word"
begin

unbundle bit_operations_syntax

text \<open>
  The WebSocket server, \<^verbatim>\<open>src/soul/server/websocket_server.cpp\<close>: sessions, frames at the width the code gives their numbers, the upgrade request, and the set of sessions. Bytes are \<open>8 word\<close>, texts are
  converted as in \<open>SK_HttpMessage\<close>. A socket is connected or not; what is written to it is kept in the session. A callback is a function on the session, since it may send or close; the calls of
  the callbacks that only observe are kept in the session too. \<open>sha1_base64\<close>, which belongs to Qt, is a parameter.
\<close>

section \<open>Sessions and frames\<close>

type_synonym byte = "8 word"

datatype WebSocketOpCode = OpContinuation | OpText | OpBinary | OpClose | OpPing | OpPong

fun op_number :: "WebSocketOpCode \<Rightarrow> byte" where
  "op_number OpContinuation = 0"
| "op_number OpText = 1"
| "op_number OpBinary = 2"
| "op_number OpClose = 8"
| "op_number OpPing = 9"
| "op_number OpPong = 10"

definition op_of :: "byte \<Rightarrow> WebSocketOpCode option" where
  "op_of n = (if n = 0 then Some OpContinuation else if n = 1 then Some OpText else if n = 2 then Some OpBinary
     else if n = 8 then Some OpClose else if n = 9 then Some OpPing else if n = 10 then Some OpPong else None)"

datatype ws_event = WsError string | WsClosed

record ws_session =
  ws_connected :: bool
  ws_buffer :: "byte list"
  ws_open :: bool
  ws_closing :: bool
  ws_properties :: "(string \<times> byte list) list"
  ws_sent :: "byte list list"
  ws_events :: "ws_event list"

definition mk_WebSocketSession :: ws_session where
  "mk_WebSocketSession = \<lparr>ws_connected = True, ws_buffer = [], ws_open = True, ws_closing = False, ws_properties = [], ws_sent = [], ws_events = []\<rparr>"

definition utf8 :: "string \<Rightarrow> byte list" where
  "utf8 = map of_char"

text \<open>The length of a frame: one byte, or a mark and the length in two or eight bytes, the highest first.\<close>

definition encode_length :: "nat \<Rightarrow> byte list" where
  "encode_length n =
     (if n \<le> 125 then [of_nat n]
      else if n \<le> 65535 then (let len = (of_nat n :: 16 word) in [126, ucast (drop_bit 8 len AND 0xFF), ucast (len AND 0xFF)])
      else (let len = (of_nat n :: 64 word) in 127 # map (\<lambda>i. ucast (drop_bit (i * 8) len AND 0xFF)) (rev [0..<8])))"

definition encode_frame :: "WebSocketOpCode \<Rightarrow> byte list \<Rightarrow> byte list" where
  "encode_frame opc payload = (0x80 OR op_number opc) # encode_length (length payload) @ payload"

definition sendFrame :: "WebSocketOpCode \<Rightarrow> byte list \<Rightarrow> ws_session \<Rightarrow> ws_session" where
  "sendFrame opc payload s = (if \<not> ws_connected s then s else s\<lparr>ws_sent := ws_sent s @ [encode_frame opc payload]\<rparr>)"

definition sendCloseFrame :: "16 word \<Rightarrow> string \<Rightarrow> ws_session \<Rightarrow> ws_session" where
  "sendCloseFrame code reason s = sendFrame OpClose ([ucast (drop_bit 8 code AND 0xFF), ucast (code AND 0xFF)] @ utf8 reason) s"

definition ws_send :: "byte list \<Rightarrow> bool \<Rightarrow> ws_session \<Rightarrow> ws_session" where
  "ws_send data isText s = (if \<not> ws_open s \<or> ws_closing s then s else sendFrame (if isText then OpText else OpBinary) data s)"

definition sendText :: "string \<Rightarrow> ws_session \<Rightarrow> ws_session" where
  "sendText message s = ws_send (utf8 message) True s"

definition sendBinary :: "byte list \<Rightarrow> ws_session \<Rightarrow> ws_session" where
  "sendBinary data s = ws_send data False s"

definition disconnectFromHost :: "ws_session \<Rightarrow> ws_session" where
  "disconnectFromHost s = s\<lparr>ws_connected := False\<rparr>"

definition ws_close :: "16 word \<Rightarrow> string \<Rightarrow> ws_session \<Rightarrow> ws_session" where
  "ws_close code reason s =
     (if \<not> ws_open s then s
      else if ws_closing s then s
      else disconnectFromHost ((sendCloseFrame code reason (s\<lparr>ws_closing := True\<rparr>))\<lparr>ws_open := False\<rparr>))"

definition ws_isOpen :: "ws_session \<Rightarrow> bool" where
  "ws_isOpen s \<longleftrightarrow> ws_open s \<and> ws_connected s"

definition ws_setProperty :: "string \<Rightarrow> byte list \<Rightarrow> ws_session \<Rightarrow> ws_session" where
  "ws_setProperty key v s = s\<lparr>ws_properties := AList.update key v (ws_properties s)\<rparr>"

definition ws_property :: "string \<Rightarrow> ws_session \<Rightarrow> byte list" where
  "ws_property key s = (case map_of (ws_properties s) key of Some v \<Rightarrow> v | None \<Rightarrow> [])"

definition ws_destroy :: "ws_session \<Rightarrow> ws_session" where
  "ws_destroy s = (if ws_connected s then disconnectFromHost (s\<lparr>ws_closing := True\<rparr>) else s)"

section \<open>Reading frames\<close>

text \<open>The length field: the length and the size of the header without the mask, or nothing when it is not there yet.\<close>

definition frame_length :: "byte list \<Rightarrow> (64 word \<times> nat) option" where
  "frame_length buf =
     (let len = (ucast (buf ! 1 AND 0x7F) :: 64 word)
      in if len = 126 then (if length buf < 4 then None else Some (push_bit 8 (ucast (buf ! 2)) OR ucast (buf ! 3), 4))
         else if len = 127 then (if length buf < 10 then None else Some (fold (\<lambda>b acc. push_bit 8 acc OR ucast b) (take 8 (drop 2 buf)) 0, 10))
         else Some (len, 2))"

text \<open>\<^verbatim>\<open>static_cast<int>\<close> keeps the lower 32 bits. \<open>mid\<close> of Qt takes a negative length, or one that is too long, as the rest of the array; \<open>remove\<close> does nothing for a length that is not positive.\<close>

definition int_cast :: "64 word \<Rightarrow> int" where
  "int_cast w = sint (ucast w :: 32 word)"

definition q_mid :: "'a list \<Rightarrow> int \<Rightarrow> int \<Rightarrow> 'a list" where
  "q_mid buf pos len = (if len < 0 \<or> len > int (length buf) - pos then drop (nat pos) buf else take (nat len) (drop (nat pos) buf))"

definition q_remove :: "int \<Rightarrow> 'a list \<Rightarrow> 'a list" where
  "q_remove len buf = (if len \<le> 0 then buf else drop (nat len) buf)"

definition unmask :: "byte list \<Rightarrow> byte list \<Rightarrow> byte list" where
  "unmask key payload = map (\<lambda>i. payload ! i XOR key ! (i mod 4)) [0..<length payload]"

text \<open>The callback for messages may not be set.\<close>

type_synonym ws_callback = "(byte list \<Rightarrow> bool \<Rightarrow> ws_session \<Rightarrow> ws_session) option"

definition handle_frame :: "ws_callback \<Rightarrow> byte \<Rightarrow> byte list \<Rightarrow> ws_session \<Rightarrow> ws_session" where
  "handle_frame cb opc payload s =
     (case op_of opc of
        Some OpText \<Rightarrow> (case cb of Some f \<Rightarrow> f payload True s | None \<Rightarrow> s)
      | Some OpBinary \<Rightarrow> (case cb of Some f \<Rightarrow> f payload False s | None \<Rightarrow> s)
      | Some OpClose \<Rightarrow>
          (let s1 = s\<lparr>ws_open := False, ws_closing := True\<rparr>;
               s2 = (if ws_closing s then s1
                     else if length payload \<ge> 2 then sendCloseFrame (push_bit 8 (ucast (payload ! 0)) OR ucast (payload ! 1)) [] s1
                     else sendCloseFrame 1000 [] s1)
           in disconnectFromHost s2)
      | Some OpPing \<Rightarrow> sendFrame OpPong payload s
      | Some OpPong \<Rightarrow> s
      | Some OpContinuation \<Rightarrow> s
      | None \<Rightarrow> s\<lparr>ws_events := ws_events s @ [WsError (''Unknown WebSocket opcode: '' @ dec_int (uint opc))]\<rparr>)"

definition parseFrame :: "ws_callback \<Rightarrow> ws_session \<Rightarrow> bool \<times> ws_session" where
  "parseFrame cb s =
     (let buf = ws_buffer s
      in if length buf < 2 then (False, s)
         else case frame_length buf of
           None \<Rightarrow> (False, s)
         | Some (payloadLen, maskOffset) \<Rightarrow>
             (let masked = (buf ! 1 AND 0x80 \<noteq> 0);
                  headerSize = (if masked then maskOffset + 4 else maskOffset);
                  tot = (of_nat headerSize + payloadLen :: 64 word)
              in if (of_nat (length buf) :: 64 word) < tot then (False, s)
                 else (let part = q_mid buf (int headerSize) (int_cast payloadLen);
                           payload = (if masked then unmask (take 4 (drop maskOffset buf)) part else part)
                       in (True, handle_frame cb (buf ! 0 AND 0x0F) payload (s\<lparr>ws_buffer := q_remove (int_cast tot) buf\<rparr>)))))"

partial_function (option) parse_loop :: "ws_callback \<Rightarrow> ws_session \<Rightarrow> ws_session option" where
  "parse_loop cb s =
     (if \<not> ws_open s then Some s
      else case parseFrame cb s of (again, s1) \<Rightarrow> if again then parse_loop cb s1 else Some s1)"

declare parse_loop.simps [code]

definition ws_onReadyRead :: "ws_callback \<Rightarrow> byte list \<Rightarrow> ws_session \<Rightarrow> ws_session option" where
  "ws_onReadyRead cb bytes s = parse_loop cb (s\<lparr>ws_buffer := ws_buffer s @ bytes\<rparr>)"

definition ws_onDisconnected :: "ws_session \<Rightarrow> ws_session" where
  "ws_onDisconnected s = s\<lparr>ws_open := False, ws_connected := False, ws_events := ws_events s @ [WsClosed]\<rparr>"

section \<open>Frames of a client\<close>

text \<open>A frame as RFC 6455 writes it: the length in the shortest form, and a mask of four bytes or none.\<close>

definition mask_key :: "byte list option \<Rightarrow> byte list" where
  "mask_key key = (case key of None \<Rightarrow> [] | Some k \<Rightarrow> k)"

definition rfc_frame :: "WebSocketOpCode \<Rightarrow> byte list option \<Rightarrow> byte list \<Rightarrow> byte list" where
  "rfc_frame opc key payload =
     (let len = encode_length (length payload); flag = (if key = None then 0 else 0x80)
      in (0x80 OR op_number opc) # (flag OR hd len) # tl len @ mask_key key @ (case key of None \<Rightarrow> payload | Some k \<Rightarrow> unmask k payload))"

lemma server_frame: "encode_frame opc payload = rfc_frame opc None payload"
  by (simp add: encode_frame_def rfc_frame_def mask_key_def encode_length_def Let_def)

lemma length_unmask [simp]: "length (unmask k p) = length p"
  by (simp add: unmask_def)

lemma unmask_twice: "unmask k (unmask k p) = p"
  by (rule nth_equalityI) (simp_all add: unmask_def xor.assoc)

lemma high_low: "push_bit 8 (drop_bit 8 x) OR (x AND 0xFF) = (x :: 'a::len word)"
proof (rule bit_word_eqI)
  fix n assume "n < LENGTH('a)"
  have "bit (0xFF :: 'a word) n \<longleftrightarrow> n < 8 \<and> n < LENGTH('a)"
    using bit_mask_iff [of 8 n, where 'a = "'a word"] by (auto simp: mask_numeral possible_bit_word)
  with \<open>n < LENGTH('a)\<close> show "bit (push_bit 8 (drop_bit 8 x) OR (x AND 0xFF)) n = bit x n" by (auto simp: bit_simps possible_bit_word)
qed

lemma ucast_low: "ucast (ucast (x AND 0xFF) :: byte) = x AND (0xFF :: 64 word)"
proof (rule bit_word_eqI)
  fix n assume "n < LENGTH(64)"
  have "bit (0xFF :: 64 word) n \<longleftrightarrow> n < 8 \<and> n < 64"
    using bit_mask_iff [of 8 n, where 'a = "64 word"] by (auto simp: mask_numeral possible_bit_word)
  then show "bit (ucast (ucast (x AND 0xFF) :: byte) :: 64 word) n = bit (x AND 0xFF) n" by (auto simp: bit_simps)
qed

lemma read_bytes:
  "fold (\<lambda>b acc. push_bit 8 acc OR (ucast b :: 64 word)) (map (\<lambda>i. ucast (drop_bit (i * 8) len AND 0xFF) :: byte) (rev [0..<k])) (drop_bit (k * 8) len) = len"
proof (induction k)
  case (Suc k)
  have "push_bit 8 (drop_bit (Suc k * 8) len) OR (drop_bit (k * 8) len AND 0xFF) = drop_bit (k * 8) len"
    using high_low [of "drop_bit (k * 8) len"] by (simp add: drop_bit_drop_bit add.commute)
  with Suc show ?case by (simp add: ucast_low)
qed simp

lemma two_bytes:
  assumes "n \<le> 65535"
  shows "push_bit 8 (ucast (ucast (drop_bit 8 (of_nat n :: 16 word) AND 0xFF) :: byte)) OR ucast (ucast ((of_nat n :: 16 word) AND 0xFF) :: byte) = (of_nat n :: 64 word)"
proof -
  let ?x = "of_nat n :: 16 word"
  have u: "(ucast ?x :: 64 word) = of_nat n" using assms by (simp add: unsigned_of_nat take_bit_nat_eq_self)
  have f: "y AND 0xFF = take_bit 8 y" for y :: "16 word" by (simp add: take_bit_eq_mask mask_numeral)
  have "push_bit 8 (ucast (ucast (drop_bit 8 ?x AND 0xFF) :: byte)) OR ucast (ucast (?x AND 0xFF) :: byte) = (ucast ?x :: 64 word)"
    unfolding f by (rule bit_word_eqI) (auto simp: bit_simps simp del: unsigned_of_nat)
  with u show ?thesis by simp
qed

lemma encode_length_cases:
  assumes "n < 2 ^ 64"
  obtains (short) "n \<le> 125" "encode_length n = [of_nat n]"
  | (medium) b c where "125 < n" "encode_length n = [126, b, c]" "push_bit 8 (ucast b) OR ucast c = (of_nat n :: 64 word)"
  | (long) bs where "125 < n" "encode_length n = 127 # bs" "length bs = 8" "fold (\<lambda>b acc. push_bit 8 acc OR ucast b) bs 0 = (of_nat n :: 64 word)"
proof -
  consider "n \<le> 125" | "125 < n" "n \<le> 65535" | "65535 < n" by linarith
  then show thesis
  proof cases
    case 1
    then show thesis by (intro short) (simp_all add: encode_length_def)
  next
    case 2
    then show thesis using two_bytes by (intro medium) (simp_all add: encode_length_def Let_def)
  next
    case 3
    let ?bs = "map (\<lambda>i. ucast (drop_bit (i * 8) (of_nat n :: 64 word) AND 0xFF) :: byte) (rev [0..<8])"
    have "drop_bit (8 * 8) (of_nat n :: 64 word) = 0" by (rule bit_word_eqI) (simp add: bit_simps bit_imp_le_length)
    with read_bytes [of "of_nat n" 8] have "fold (\<lambda>b acc. push_bit 8 acc OR (ucast b :: 64 word)) ?bs 0 = of_nat n" by simp
    with 3 show thesis by (intro long [of ?bs]) (simp_all only: encode_length_def Let_def length_map length_rev length_upt if_False, simp_all)
  qed
qed

lemma length_byte:
  assumes "n < 128" "flag = 0 \<or> flag = (0x80 :: byte)"
  shows "(flag OR of_nat n) AND 0x7F = of_nat n" "(flag OR of_nat n) AND 0x80 = flag"
proof -
  have "\<forall>n \<in> set [0..<128]. (0 OR of_nat n) AND 0x7F = (of_nat n :: byte) \<and> (0 OR of_nat n) AND 0x80 = (0 :: byte)
      \<and> (0x80 OR of_nat n) AND 0x7F = (of_nat n :: byte) \<and> (0x80 OR of_nat n) AND 0x80 = (0x80 :: byte)" by code_simp
  moreover have "n \<in> set [0..<128]" using assms(1) by simp
  ultimately show "(flag OR of_nat n) AND 0x7F = of_nat n" "(flag OR of_nat n) AND 0x80 = flag" using assms(2) by blast+
qed

lemma int_cast_small: "k < 2 ^ 31 \<Longrightarrow> int_cast (of_nat k) = int k"
proof -
  assume k: "k < 2 ^ 31"
  have "(ucast (of_nat k :: 64 word) :: 32 word) = of_nat k" by (simp add: unsigned_of_nat take_bit_nat_eq_self k order.strict_trans [OF k])
  moreover have "sint (of_nat k :: 32 word) = int k" using k by (simp add: signed_of_nat signed_take_bit_int_eq_self)
  ultimately show ?thesis by (simp add: int_cast_def)
qed

lemma of_nat_less: "a < 2 ^ 64 \<Longrightarrow> b < 2 ^ 64 \<Longrightarrow> (of_nat a :: 64 word) < of_nat b \<longleftrightarrow> a < b"
  by (simp add: word_less_nat_alt unat_of_nat take_bit_nat_eq_self)

lemma frame_length_take:
  assumes "n < 2 ^ 31" "flag = 0 \<or> flag = 0x80" "2 \<le> m" "buf = take m (a # (flag OR hd (encode_length n)) # tl (encode_length n) @ R)"
  shows "buf ! 1 AND 0x80 = flag" and "frame_length buf = (if m \<le> length (encode_length n) then None else Some (of_nat n, Suc (length (encode_length n))))"
proof -
  have b1: "buf ! Suc 0 = (flag OR hd (encode_length n))" using assms(3,4) by (cases m) (simp_all add: take_Cons')
  have "n < 2 ^ 64" using assms(1) by simp
  then have "buf ! 1 AND 0x80 = flag \<and> frame_length buf = (if m \<le> length (encode_length n) then None else Some (of_nat n, Suc (length (encode_length n))))"
  proof (cases rule: encode_length_cases)
    case short
    have "n \<noteq> 126" "n \<noteq> 127" using short by simp_all
    then have "(of_nat n :: 64 word) \<noteq> 126" "(of_nat n :: 64 word) \<noteq> 127" using short of_nat_less [of n 126] by (auto simp: word_unat_eq_iff unat_of_nat)
    moreover have "(ucast (of_nat n :: byte) :: 64 word) = of_nat n" using short by (simp add: unsigned_of_nat take_bit_nat_eq_self)
    ultimately show ?thesis using length_byte [of n flag] assms(2,3) short by (simp add: b1 frame_length_def Let_def)
  next
    case (medium b c)
    then show ?thesis using length_byte [of 126 flag] assms(2,3,4) by (simp add: b1 frame_length_def Let_def) (auto simp: nth_Cons' numeral_eq_Suc)
  next
    case (long bs)
    have "take 8 (drop 2 buf) = bs" if "11 \<le> m + 1" using assms(4) long that by (simp add: drop_take numeral_eq_Suc)
    then show ?thesis using length_byte [of 127 flag] assms(2,3,4) long by (auto simp: b1 frame_length_def Let_def)
  qed
  then show "buf ! 1 AND 0x80 = flag" and "frame_length buf = (if m \<le> length (encode_length n) then None else Some (of_nat n, Suc (length (encode_length n))))" by simp_all
qed

text \<open>A frame that can be read: a mask of four bytes or none, and a payload whose length, with the header, is an \<^verbatim>\<open>int\<close>.\<close>

definition payload_ok :: "byte list option \<Rightarrow> byte list \<Rightarrow> bool" where
  "payload_ok key payload \<longleftrightarrow> length payload < 2 ^ 31 - 14 \<and> (key = None \<or> length (the key) = 4)"

lemma length_encode: "n < 2 ^ 64 \<Longrightarrow> 1 \<le> length (encode_length n) \<and> length (encode_length n) \<le> 9"
  by (erule encode_length_cases) auto

lemma op_read [simp]: "(0x80 OR op_number opc) AND 0x0F = op_number opc"
  by (cases opc) simp_all

lemma rfc_frame_shape:
  "rfc_frame opc key p = (0x80 OR op_number opc) # ((if key = None then 0 else 0x80) OR hd (encode_length (length p))) # tl (encode_length (length p))
     @ mask_key key @ (case key of None \<Rightarrow> p | Some k \<Rightarrow> unmask k p)"
  by (simp add: rfc_frame_def Let_def)

lemma length_rfc_frame: "payload_ok key p \<Longrightarrow> length (rfc_frame opc key p) = Suc (length (encode_length (length p))) + length (mask_key key) + length p"
  using length_encode [of "length p"] by (auto simp: rfc_frame_shape payload_ok_def split: option.splits)

lemma length_mask_key: "payload_ok key p \<Longrightarrow> length (mask_key key) = (if key = None then 0 else 4)"
  by (auto simp: payload_ok_def mask_key_def)

text \<open>A frame that is not complete is left in the buffer; one that is, is handled and removed.\<close>

lemma parse_short: "length (ws_buffer s) < 2 \<or> frame_length (ws_buffer s) = None \<Longrightarrow> parseFrame cb s = (False, s)"
  by (auto simp: parseFrame_def Let_def)

lemma parse_header:
  assumes "\<not> length (ws_buffer s) < 2" "frame_length (ws_buffer s) = Some (of_nat n, h)" "ws_buffer s ! 1 AND 0x80 = (if key = None then 0 else 0x80)" "payload_ok key p"
  shows "parseFrame cb s =
    (let tot = h + length (mask_key key) + n
     in if (of_nat (length (ws_buffer s)) :: 64 word) < of_nat tot then (False, s)
        else (let part = q_mid (ws_buffer s) (int (h + length (mask_key key))) (int_cast (of_nat n));
                  payload = (if key = None then part else unmask (take 4 (drop h (ws_buffer s))) part)
              in (True, handle_frame cb (ws_buffer s ! 0 AND 0x0F) payload (s\<lparr>ws_buffer := q_remove (int_cast (of_nat tot)) (ws_buffer s)\<rparr>))))"
  using assms by (simp add: parseFrame_def Let_def length_mask_key add.assoc)

lemma parse_incomplete:
  assumes "payload_ok key p" "ws_buffer s = take m (rfc_frame opc key p)" "m < length (rfc_frame opc key p)"
  shows "parseFrame cb s = (False, s)"
proof (cases "m < 2 \<or> m \<le> length (encode_length (length p))")
  case True
  have n: "length p < 2 ^ 31" using assms(1) by (simp add: payload_ok_def)
  have "length (ws_buffer s) < 2 \<or> frame_length (ws_buffer s) = None"
    using True assms(2) frame_length_take(2) [OF n _ _ assms(2) [unfolded rfc_frame_shape]] by (cases "m < 2") auto
  then show ?thesis by (rule parse_short)
next
  case False
  let ?h = "Suc (length (encode_length (length p)))"
  have n: "length p < 2 ^ 31" "2 \<le> m" "(if key = None then 0 else 0x80) = 0 \<or> (if key = None then 0 else 0x80) = (0x80 :: byte)" using assms(1) False by (simp_all add: payload_ok_def)
  note fl = frame_length_take [OF n(1,3,2) assms(2) [unfolded rfc_frame_shape]]
  have small: "length (rfc_frame opc key p) < 2 ^ 64"
    using assms(1) length_encode [of "length p"] length_mask_key [OF assms(1)] by (auto simp: length_rfc_frame [OF assms(1)] payload_ok_def)
  have "length (ws_buffer s) = m" using assms(2,3) by simp
  moreover have "(of_nat m :: 64 word) < of_nat (?h + length (mask_key key) + length p)"
    using assms(3) small unfolding length_rfc_frame [OF assms(1)] by (subst of_nat_less) simp_all
  moreover have "frame_length (ws_buffer s) = Some (of_nat (length p), ?h)" using fl(2) False by simp
  ultimately show ?thesis using parse_header [OF _ _ fl(1) assms(1), of "length p" ?h cb] False by (simp add: Let_def)
qed

lemma parse_complete:
  assumes "payload_ok key p" "ws_buffer s = rfc_frame opc key p @ rest" "length (ws_buffer s) < 2 ^ 64"
  shows "parseFrame cb s = (True, handle_frame cb (op_number opc) p (s\<lparr>ws_buffer := rest\<rparr>))"
proof -
  let ?h = "Suc (length (encode_length (length p)))" and ?k = "length (mask_key key)"
  let ?body = "case key of None \<Rightarrow> p | Some k \<Rightarrow> unmask k p"
  let ?buf = "ws_buffer s"
  have l: "1 \<le> length (encode_length (length p))" "length (encode_length (length p)) \<le> 9" "length p < 2 ^ 31 - 14" "?k \<le> 4"
    using assms(1) length_encode [of "length p"] length_mask_key [OF assms(1)] by (auto simp: payload_ok_def)
  have n: "length p < 2 ^ 31" "2 \<le> length ?buf" "(if key = None then 0 else 0x80) = 0 \<or> (if key = None then 0 else 0x80) = (0x80 :: byte)"
    using l assms(2) by (simp_all add: length_rfc_frame [OF assms(1)])
  have shape: "?buf = take (length ?buf) ((0x80 OR op_number opc) # ((if key = None then 0 else 0x80) OR hd (encode_length (length p))) # tl (encode_length (length p)) @ mask_key key @ ?body @ rest)"
    using assms(2) by (simp add: rfc_frame_shape)
  note fl = frame_length_take [OF n(1,3,2) shape]
  have len: "length ?buf = ?h + ?k + length p + length rest" using assms(2) by (simp add: length_rfc_frame [OF assms(1)])
  have big: "\<not> (of_nat (length ?buf) :: 64 word) < of_nat (?h + ?k + length p)" using assms(3) len by (subst of_nat_less) simp_all
  have "frame_length ?buf = Some (of_nat (length p), ?h)" using fl(2) len by simp
  note ph = parse_header [OF _ this fl(1) assms(1), of cb]
  have hdr: "drop ?h ?buf = mask_key key @ ?body @ rest" using assms(2) l(1) by (cases "encode_length (length p)") (simp_all add: rfc_frame_shape)
  have body: "length ?body = length p" by (simp split: option.splits)
  have part: "q_mid ?buf (int (?h + ?k)) (int_cast (of_nat (length p))) = ?body"
  proof -
    have "drop (?h + ?k) ?buf = ?body @ rest" using hdr by (metis append_eq_conv_conj drop_drop add.commute)
    with len body show ?thesis unfolding q_mid_def int_cast_small [OF n(1)] nat_int by simp
  qed
  have "?h + ?k + length p < 2 ^ 31" using l by simp
  then have rem: "q_remove (int_cast (of_nat (?h + ?k + length p))) ?buf = rest"
    using assms(2) length_rfc_frame [OF assms(1), of opc] by (subst int_cast_small) (auto simp: q_remove_def nat_add_distrib)
  have pay: "(if key = None then ?body else unmask (take 4 (drop ?h ?buf)) ?body) = p"
    using hdr length_mask_key [OF assms(1)] by (auto simp: mask_key_def unmask_twice split: option.splits)
  have "?buf ! 0 = 0x80 OR op_number opc" using assms(2) by (simp add: rfc_frame_shape)
  with ph n(2) big part pay rem show ?thesis by (simp add: Let_def)
qed

section \<open>A stream of frames\<close>

type_synonym ws_frame = "WebSocketOpCode \<times> byte list option \<times> byte list"

abbreviation frame_bytes :: "ws_frame \<Rightarrow> byte list" where
  "frame_bytes f \<equiv> rfc_frame (fst f) (fst (snd f)) (snd (snd f))"

definition stream_ok :: "ws_frame list \<Rightarrow> bool" where
  "stream_ok fs \<longleftrightarrow> list_all (\<lambda>(opc, key, p). opc \<noteq> OpClose \<and> payload_ok key p) fs \<and> length (concat (map frame_bytes fs)) < 2 ^ 64"

text \<open>A callback may send and do anything else but look at the buffer, which it cannot reach, and close the session.\<close>

definition cb_ok :: "ws_callback \<Rightarrow> bool" where
  "cb_ok cb \<longleftrightarrow> (case cb of None \<Rightarrow> True | Some f \<Rightarrow> \<forall>p b s x. f p b (s\<lparr>ws_buffer := x\<rparr>) = (f p b s)\<lparr>ws_buffer := x\<rparr> \<and> ws_open (f p b s) = ws_open s)"

text \<open>The frames handled one after the other.\<close>

definition handle_all :: "ws_callback \<Rightarrow> ws_frame list \<Rightarrow> ws_session \<Rightarrow> ws_session" where
  "handle_all cb fs s = fold (\<lambda>(opc, key, p). handle_frame cb (op_number opc) p) fs s"

fun ws_feed :: "ws_callback \<Rightarrow> byte list list \<Rightarrow> ws_session \<Rightarrow> ws_session option" where
  "ws_feed cb [] s = Some s"
| "ws_feed cb (c # cs) s = (case ws_onReadyRead cb c s of None \<Rightarrow> None | Some s1 \<Rightarrow> ws_feed cb cs s1)"

lemma op_of_number [simp]: "op_of (op_number opc) = Some opc"
  by (cases opc) (simp_all add: op_of_def)

lemma handle_frame_buffer:
  assumes "cb_ok cb" "opc \<noteq> OpClose"
  shows "handle_frame cb (op_number opc) p (s\<lparr>ws_buffer := x\<rparr>) = (handle_frame cb (op_number opc) p s)\<lparr>ws_buffer := x\<rparr>"
    and "ws_open (handle_frame cb (op_number opc) p s) = ws_open s"
proof -
  have "handle_frame cb (op_number opc) p (s\<lparr>ws_buffer := x\<rparr>) = (handle_frame cb (op_number opc) p s)\<lparr>ws_buffer := x\<rparr>
    \<and> ws_open (handle_frame cb (op_number opc) p s) = ws_open s"
  proof (cases cb)
    case None
    with assms(2) show ?thesis by (cases opc) (simp_all add: handle_frame_def sendFrame_def op_of_def)
  next
    case (Some f)
    with assms(1) have "f p b (s\<lparr>ws_buffer := x\<rparr>) = (f p b s)\<lparr>ws_buffer := x\<rparr>" "ws_open (f p b s) = ws_open s" for b by (simp_all add: cb_ok_def)
    with assms(2) Some show ?thesis by (cases opc) (simp_all add: handle_frame_def sendFrame_def op_of_def)
  qed
  then show "handle_frame cb (op_number opc) p (s\<lparr>ws_buffer := x\<rparr>) = (handle_frame cb (op_number opc) p s)\<lparr>ws_buffer := x\<rparr>"
    and "ws_open (handle_frame cb (op_number opc) p s) = ws_open s" by simp_all
qed

lemma handle_all_buffer:
  assumes "cb_ok cb"
  shows "stream_ok fs \<Longrightarrow> handle_all cb fs (s\<lparr>ws_buffer := x\<rparr>) = (handle_all cb fs s)\<lparr>ws_buffer := x\<rparr> \<and> ws_open (handle_all cb fs s) = ws_open s"
proof (induction fs arbitrary: s)
  case (Cons f fs)
  then have "stream_ok fs" "fst f \<noteq> OpClose" by (auto simp: stream_ok_def)
  with Cons.IH [of "handle_frame cb (op_number (fst f)) (snd (snd f)) s"] handle_frame_buffer [OF assms] show ?case
    by (cases f) (auto simp: handle_all_def)
qed (simp add: handle_all_def)

text \<open>The bytes that have come so far: whole frames, and a part of the next.\<close>

lemma split_stream:
  "prefix xs (concat (map frame_bytes fs)) \<Longrightarrow> \<exists>done todo m. fs = done @ todo
     \<and> (case todo of [] \<Rightarrow> xs = concat (map frame_bytes done) | f # _ \<Rightarrow> m < length (frame_bytes f) \<and> xs = concat (map frame_bytes done) @ take m (frame_bytes f))"
proof (induction fs arbitrary: xs)
  case (Cons f fs)
  show ?case
  proof (cases "length xs < length (frame_bytes f)")
    case True
    have "prefix xs (frame_bytes f @ concat (map frame_bytes fs))" using Cons.prems by simp
    with True have "prefix xs (frame_bytes f)" unfolding prefix_append by auto
    then have "xs = take (length xs) (frame_bytes f)" by (auto simp: prefix_def)
    with True show ?thesis by (intro exI [of _ "[]"] exI [of _ "f # fs"] exI [of _ "length xs"]) simp
  next
    case False
    obtain ys where ys: "xs = frame_bytes f @ ys" "prefix ys (concat (map frame_bytes fs))"
    proof (cases "prefix xs (frame_bytes f)")
      case True
      then obtain zs where "frame_bytes f = xs @ zs" by (auto simp: prefix_def)
      with False have "xs = frame_bytes f" by simp
      then show thesis by (intro that [of "[]"]) simp_all
    next
      case np: False
      have "prefix xs (frame_bytes f @ concat (map frame_bytes fs))" using Cons.prems by simp
      with np obtain us where "xs = frame_bytes f @ us" "prefix us (concat (map frame_bytes fs))" unfolding prefix_append by blast
      then show thesis by (rule that)
    qed
    from Cons.IH [OF ys(2)] obtain d t m where "fs = d @ t"
      "case t of [] \<Rightarrow> ys = concat (map frame_bytes d) | g # _ \<Rightarrow> m < length (frame_bytes g) \<and> ys = concat (map frame_bytes d) @ take m (frame_bytes g)" by blast
    with ys(1) show ?thesis by (intro exI [of _ "f # d"] exI [of _ t] exI [of _ m]) (auto split: list.splits)
  qed
qed simp

lemma loop_stream:
  assumes "cb_ok cb"
  shows "stream_ok fs \<Longrightarrow> ws_open s \<Longrightarrow> ws_buffer s = concat (map frame_bytes fs) @ part \<Longrightarrow> length (ws_buffer s) < 2 ^ 64
    \<Longrightarrow> (\<And>s1. ws_buffer s1 = part \<Longrightarrow> parseFrame cb s1 = (False, s1)) \<Longrightarrow> parse_loop cb s = Some ((handle_all cb fs s)\<lparr>ws_buffer := part\<rparr>)"
proof (induction fs arbitrary: s)
  case Nil
  have "s = s\<lparr>ws_buffer := part\<rparr>" using Nil.prems(3) by simp
  with Nil.prems show ?case by (subst parse_loop.simps) (simp add: handle_all_def)
next
  case (Cons f fs)
  obtain opc key p where f: "f = (opc, key, p)" by (cases f)
  have ok: "stream_ok fs" "opc \<noteq> OpClose" "payload_ok key p" using Cons.prems(1) f by (auto simp: stream_ok_def)
  let ?rest = "concat (map frame_bytes fs) @ part"
  let ?s = "handle_frame cb (op_number opc) p (s\<lparr>ws_buffer := ?rest\<rparr>)"
  have "parseFrame cb s = (True, ?s)" using parse_complete [OF ok(3) _ Cons.prems(4)] Cons.prems(3) f by simp
  then have l: "parse_loop cb s = parse_loop cb ?s" using Cons.prems(2) by (subst parse_loop.simps) simp
  note hb = handle_frame_buffer [OF assms ok(2)]
  have "ws_open ?s" "ws_buffer ?s = ?rest" "length (ws_buffer ?s) < 2 ^ 64" using Cons.prems(2,3,4) by (simp_all add: hb)
  from Cons.IH [OF ok(1) this Cons.prems(5)] l have "parse_loop cb s = Some ((handle_all cb fs ?s)\<lparr>ws_buffer := part\<rparr>)" by simp
  moreover have "handle_all cb fs ?s = (handle_all cb fs (handle_frame cb (op_number opc) p s))\<lparr>ws_buffer := ?rest\<rparr>"
    using handle_all_buffer [OF assms ok(1)] by (simp add: hb)
  ultimately show ?case by (simp add: handle_all_def f)
qed

lemma stream_ok_append: "stream_ok (xs @ ys) \<Longrightarrow> stream_ok xs \<and> stream_ok ys"
  by (simp add: stream_ok_def)

text \<open>What is in the buffer is part of the next frame.\<close>

lemma feed_stream:
  assumes "cb_ok cb"
  shows "stream_ok fs \<Longrightarrow> ws_open s \<Longrightarrow> ws_buffer s @ concat cs = concat (map frame_bytes fs) \<Longrightarrow> (fs = [] \<or> length (ws_buffer s) < length (frame_bytes (hd fs)))
    \<Longrightarrow> ws_feed cb cs s = Some ((handle_all cb fs s)\<lparr>ws_buffer := []\<rparr>)"
proof (induction cs arbitrary: fs s)
  case Nil
  have "fs = []"
  proof (rule ccontr)
    assume "fs \<noteq> []"
    with Nil.prems(3,4) have "length (concat (map frame_bytes fs)) < length (frame_bytes (hd fs))" by simp
    with \<open>fs \<noteq> []\<close> show False by (cases fs) simp_all
  qed
  with Nil.prems(3) show ?case by (simp add: handle_all_def)
next
  case (Cons c cs)
  let ?s = "s\<lparr>ws_buffer := ws_buffer s @ c\<rparr>"
  have pre: "prefix (ws_buffer s @ c) (concat (map frame_bytes fs))" using Cons.prems(3) by (intro prefixI [of _ _ "concat cs"]) simp
  obtain d t m where fs: "fs = d @ t" and x: "case t of [] \<Rightarrow> ws_buffer s @ c = concat (map frame_bytes d)
      | f # _ \<Rightarrow> m < length (frame_bytes f) \<and> ws_buffer s @ c = concat (map frame_bytes d) @ take m (frame_bytes f)" using split_stream [OF pre] by blast
  define part where "part = (case t of [] \<Rightarrow> [] | f # _ \<Rightarrow> take m (frame_bytes f))"
  have b: "ws_buffer s @ c = concat (map frame_bytes d) @ part" using x by (simp add: part_def split: list.splits)
  note ok = stream_ok_append [OF Cons.prems(1) [unfolded fs]]
  have stop: "parseFrame cb s1 = (False, s1)" if "ws_buffer s1 = part" for s1
  proof (cases t)
    case Nil
    with that show ?thesis by (intro parse_short) (simp add: part_def)
  next
    case (Cons f t')
    then have "payload_ok (fst (snd f)) (snd (snd f))" "m < length (frame_bytes f)" "ws_buffer s1 = take m (frame_bytes f)"
      using ok x that by (auto simp: stream_ok_def part_def)
    then show ?thesis by (intro parse_incomplete)
  qed
  have "length (ws_buffer ?s) < 2 ^ 64" using prefix_length_le [OF pre] Cons.prems(1) by (simp add: stream_ok_def)
  with loop_stream [OF assms, of d ?s part] ok Cons.prems(2) b stop have "ws_onReadyRead cb c s = Some ((handle_all cb d ?s)\<lparr>ws_buffer := part\<rparr>)"
    by (simp add: ws_onReadyRead_def)
  then have r: "ws_onReadyRead cb c s = Some ((handle_all cb d s)\<lparr>ws_buffer := part\<rparr>)" using handle_all_buffer [OF assms] ok by simp
  let ?s1 = "(handle_all cb d s)\<lparr>ws_buffer := part\<rparr>"
  have "(ws_buffer s @ c) @ concat cs = concat (map frame_bytes d) @ concat (map frame_bytes t)" using Cons.prems(3) fs by simp
  then have "ws_buffer ?s1 @ concat cs = concat (map frame_bytes t)" unfolding b by simp
  moreover have "t = [] \<or> length (ws_buffer ?s1) < length (frame_bytes (hd t))" using x by (auto simp: part_def split: list.splits)
  moreover have "ws_open ?s1" using handle_all_buffer [OF assms] ok Cons.prems(2) by simp
  ultimately have "ws_feed cb cs ?s1 = Some ((handle_all cb t ?s1)\<lparr>ws_buffer := []\<rparr>)" using Cons.IH ok by blast
  with r handle_all_buffer [OF assms] ok show ?case by (simp add: fs handle_all_def)
qed

lemma feed_all:
  assumes "cb_ok cb" "stream_ok fs" "ws_open s" "ws_buffer s = []" "concat chunks = concat (map frame_bytes fs)"
  shows "ws_feed cb chunks s = Some (handle_all cb fs s)"
proof -
  have "fs = [] \<or> length (ws_buffer s) < length (frame_bytes (hd fs))" using assms(4) by (simp add: rfc_frame_shape)
  with feed_stream [OF assms(1-3)] assms(4,5) have "ws_feed cb chunks s = Some ((handle_all cb fs s)\<lparr>ws_buffer := []\<rparr>)" by simp
  also have "(handle_all cb fs s)\<lparr>ws_buffer := []\<rparr> = handle_all cb fs (s\<lparr>ws_buffer := []\<rparr>)" using handle_all_buffer [OF assms(1,2)] by simp
  also have "s\<lparr>ws_buffer := []\<rparr> = s" using assms(4) by simp
  finally show ?thesis .
qed



text \<open>What the server sends is read back by the same rules.\<close>

theorem ws_server_frames_read_back:
  assumes "length p < 2 ^ 31 - 14" "opc \<noteq> OpClose" "cb_ok cb"
  shows "ws_feed cb [encode_frame opc p] mk_WebSocketSession = Some (handle_frame cb (op_number opc) p mk_WebSocketSession)"
proof -
  have "stream_ok [(opc, None, p)]" using assms(1,2) length_rfc_frame [of None p opc] length_encode [of "length p"] by (simp add: stream_ok_def payload_ok_def mask_key_def)
  from feed_all [OF assms(3) this, of mk_WebSocketSession "[encode_frame opc p]"] show ?thesis by (simp add: mk_WebSocketSession_def server_frame handle_all_def)
qed

section \<open>Frames that are not what they seem\<close>

text \<open>The sum of the header and an announced length just below \<open>2 ^ 64\<close> wraps to zero: the frame counts as complete, nothing is removed, and the loop handles it for ever.\<close>

definition endless_frame :: "byte list" where
  "endless_frame = [0x81, 0xFF, 0xFF, 0xFF, 0xFF, 0xFF, 0xFF, 0xFF, 0xFF, 0xF2, 0, 0, 0, 0]"

lemma endless_step:
  assumes "cb_ok cb" "ws_open s" "ws_buffer s = endless_frame"
  shows "\<exists>s1. parseFrame cb s = (True, s1) \<and> ws_open s1 \<and> ws_buffer s1 = endless_frame"
proof -
  have e: "\<not> length endless_frame < 2" "frame_length endless_frame = Some (- 14, 10)" "endless_frame ! 1 AND 0x80 \<noteq> 0" "endless_frame ! 0 AND 0x0F = op_number OpText"
    by code_simp+
  have z: "int_cast 0 = 0" by (simp add: int_cast_def)
  have "\<exists>p. parseFrame cb s = (True, handle_frame cb (op_number OpText) p (s\<lparr>ws_buffer := endless_frame\<rparr>))"
    using e z by (simp add: parseFrame_def assms(3) Let_def q_remove_def) blast
  with handle_frame_buffer [OF assms(1), of OpText] assms(2) show ?thesis by fastforce
qed

lemma endless_loop: "parse_loop cb s = Some r \<Longrightarrow> \<not> (cb_ok cb \<and> ws_open s \<and> ws_buffer s = endless_frame)"
proof (rule parse_loop.raw_induct [of "\<lambda>cb s r. \<not> (cb_ok cb \<and> ws_open s \<and> ws_buffer s = endless_frame)"])
  fix loop cb s r
  assume IH: "\<And>cb s r. loop cb s = Some r \<Longrightarrow> \<not> (cb_ok cb \<and> ws_open s \<and> ws_buffer s = endless_frame)"
    and r: "(if \<not> ws_open s then Some s else case parseFrame cb s of (again, s1) \<Rightarrow> if again then loop cb s1 else Some s1) = Some r"
  show "\<not> (cb_ok cb \<and> ws_open s \<and> ws_buffer s = endless_frame)"
  proof
    assume a: "cb_ok cb \<and> ws_open s \<and> ws_buffer s = endless_frame"
    then obtain s1 where "parseFrame cb s = (True, s1)" "ws_open s1" "ws_buffer s1 = endless_frame" using endless_step by blast
    with r a IH show False by auto
  qed
qed

theorem ws_endless_frame:
  assumes "cb_ok cb" "ws_open s" "ws_buffer s = []"
  shows "ws_onReadyRead cb endless_frame s = None"
  using endless_loop [of cb "s\<lparr>ws_buffer := endless_frame\<rparr>"] assms by (cases "ws_onReadyRead cb endless_frame s") (auto simp: ws_onReadyRead_def)

text \<open>The bit that marks the last part of a message is not looked at: the first part of a message in two is delivered as a whole, the second is dropped.\<close>

theorem ws_fragments_torn:
  "ws_feed (Some ws_send) [[0x01, 2, 0x61, 0x62], [0x80, 2, 0x63, 0x64]] mk_WebSocketSession = Some (mk_WebSocketSession\<lparr>ws_sent := [[0x81, 2, 0x61, 0x62]]\<rparr>)"
  by code_simp

section \<open>The upgrade\<close>

definition starts_ci :: "string \<Rightarrow> string \<Rightarrow> bool" where
  "starts_ci pat line \<longleftrightarrow> prefix (toLower pat) (toLower line)"

record upgrade_headers =
  uh_upgrade :: string
  uh_connection :: string
  uh_key :: string
  uh_version :: string

definition scan_line :: "string \<Rightarrow> upgrade_headers \<Rightarrow> upgrade_headers" where
  "scan_line line h =
     (if starts_ci ''Upgrade:'' line then h\<lparr>uh_upgrade := trimmed (drop 8 line)\<rparr>
      else if starts_ci ''Connection:'' line then h\<lparr>uh_connection := trimmed (drop 11 line)\<rparr>
      else if starts_ci ''Sec-WebSocket-Key:'' line then h\<lparr>uh_key := trimmed (drop 18 line)\<rparr>
      else if starts_ci ''Sec-WebSocket-Version:'' line then h\<lparr>uh_version := trimmed (drop 22 line)\<rparr>
      else h)"

definition computeAcceptKey :: "(string \<Rightarrow> string) \<Rightarrow> string \<Rightarrow> string" where
  "computeAcceptKey sha1_base64 clientKey = sha1_base64 (clientKey @ ''258EAFA5-E914-47DA-95CA-C5AB0DC85B11'')"

definition upgrade_refused :: string where
  "upgrade_refused = ''HTTP/1.1 400 Bad Request'' @ CRLF @ CRLF"

text \<open>Whether the request is accepted, and what is written to the socket. Splitting the request also gives an empty last part, which is no header.\<close>

definition performUpgrade :: "(string \<Rightarrow> string) \<Rightarrow> string \<Rightarrow> bool \<times> string" where
  "performUpgrade sha1_base64 request =
     (if \<not> prefix ''GET '' request then (False, [])
      else let h = fold scan_line (header_lines request) \<lparr>uh_upgrade = [], uh_connection = [], uh_key = [], uh_version = []\<rparr>
           in if toLower (uh_upgrade h) \<noteq> ''websocket'' then (False, upgrade_refused)
              else if indexOf ''upgrade'' (toLower (uh_connection h)) = None then (False, upgrade_refused)
              else if uh_key h = [] then (False, upgrade_refused)
              else if uh_version h \<noteq> ''13''
                then (False, ''HTTP/1.1 426 Upgrade Required'' @ CRLF @ ''Sec-WebSocket-Version: 13'' @ CRLF @ CRLF)
              else (True, ''HTTP/1.1 101 Switching Protocols'' @ CRLF @ ''Upgrade: websocket'' @ CRLF @ ''Connection: Upgrade'' @ CRLF
                     @ ''Sec-WebSocket-Accept: '' @ computeAcceptKey sha1_base64 (uh_key h) @ CRLF @ CRLF))"

section \<open>The server\<close>

text \<open>The sessions are objects; \<open>wsv_active\<close> are the ones the server knows. A session that was disconnected is destroyed later, which removes it.\<close>

record ws_server =
  wsv_listening :: bool
  wsv_objects :: "(nat \<times> ws_session) list"
  wsv_active :: "nat list"
  wsv_signals :: "(bool \<times> nat) list"

definition mk_WebSocketServer :: ws_server where
  "mk_WebSocketServer = \<lparr>wsv_listening = False, wsv_objects = [], wsv_active = [], wsv_signals = []\<rparr>"

definition wsv_listen :: "bool \<Rightarrow> ws_server \<Rightarrow> bool \<times> ws_server" where
  "wsv_listen ok s = (ok, if ok then s\<lparr>wsv_listening := True\<rparr> else s)"

text \<open>The first data of a connection: the answer, and the new session with its number when the upgrade succeeds. The callback \<open>onOpen\<close> acts on the session.\<close>

definition wsv_firstData :: "(string \<Rightarrow> string) \<Rightarrow> (ws_session \<Rightarrow> ws_session) option \<Rightarrow> nat \<Rightarrow> string \<Rightarrow> ws_server \<Rightarrow> string \<times> ws_server" where
  "wsv_firstData sha1_base64 onOpen n request s =
     (case performUpgrade sha1_base64 request of
        (False, reply) \<Rightarrow> (reply, s)
      | (True, reply) \<Rightarrow> (reply, s\<lparr>wsv_objects := (n, case onOpen of Some f \<Rightarrow> f mk_WebSocketSession | None \<Rightarrow> mk_WebSocketSession) # wsv_objects s,
          wsv_active := List.insert n (wsv_active s), wsv_signals := wsv_signals s @ [(True, n)]\<rparr>))"

definition on_session :: "(ws_session \<Rightarrow> ws_session) \<Rightarrow> nat \<Rightarrow> ws_server \<Rightarrow> ws_server" where
  "on_session f n s = s\<lparr>wsv_objects := map (\<lambda>(i, x). if i = n then (i, f x) else (i, x)) (wsv_objects s)\<rparr>"

definition wsv_broadcast :: "byte list \<Rightarrow> bool \<Rightarrow> ws_server \<Rightarrow> ws_server" where
  "wsv_broadcast message isText s = fold (on_session (\<lambda>x. if ws_isOpen x then ws_send message isText x else x)) (wsv_active s) s"

definition wsv_close :: "ws_server \<Rightarrow> ws_server" where
  "wsv_close s = fold (on_session (ws_close 1001 ''Server shutting down'')) (wsv_active s) (s\<lparr>wsv_listening := False, wsv_active := []\<rparr>)"

definition wsv_removeSession :: "nat \<Rightarrow> ws_server \<Rightarrow> ws_server" where
  "wsv_removeSession n s = s\<lparr>wsv_objects := AList.delete n (wsv_objects s), wsv_active := remove1 n (wsv_active s), wsv_signals := wsv_signals s @ [(False, n)]\<rparr>"

definition activeSessionCount :: "ws_server \<Rightarrow> nat" where
  "activeSessionCount s = length (wsv_active s)"

lemma on_session_lookup: "map_of (wsv_objects (on_session f n s)) i = (if i = n then map_option f (map_of (wsv_objects s) i) else map_of (wsv_objects s) i)"
proof -
  have "map_of (map (\<lambda>(j, x). if j = n then (j, f x) else (j, x)) xs) i = (if i = n then map_option f (map_of xs i) else map_of xs i)" for xs :: "(nat \<times> ws_session) list"
    by (induction xs) auto
  then show ?thesis by (simp add: on_session_def)
qed

lemma on_sessions_lookup:
  "distinct ns \<Longrightarrow> map_of (wsv_objects (fold (on_session f) ns s)) i = (if i \<in> set ns then map_option f (map_of (wsv_objects s) i) else map_of (wsv_objects s) i)"
  by (induction ns arbitrary: s) (auto simp: on_session_lookup)

lemma on_sessions_frame: "wsv_active (fold (on_session f) ns s) = wsv_active s" "wsv_signals (fold (on_session f) ns s) = wsv_signals s"
  by (induction ns arbitrary: s) (simp_all add: on_session_def)

text \<open>A broadcast writes one frame to every active session that is open and not closing, and nothing else; closing the server closes every active session.\<close>

theorem ws_broadcast_once:
  assumes "distinct (wsv_active s)" "map_of (wsv_objects s) i = Some x"
  shows "map_of (wsv_objects (wsv_broadcast message isText s)) i
    = Some (if i \<in> set (wsv_active s) \<and> ws_isOpen x \<and> \<not> ws_closing x then x\<lparr>ws_sent := ws_sent x @ [encode_frame (if isText then OpText else OpBinary) message]\<rparr> else x)"
  using assms by (auto simp: wsv_broadcast_def on_sessions_lookup ws_send_def ws_isOpen_def sendFrame_def)

theorem ws_server_close_all:
  assumes "distinct (wsv_active s)" "map_of (wsv_objects s) i = Some x" "i \<in> set (wsv_active s)" "ws_isOpen x" "\<not> ws_closing x"
  shows "\<exists>y. map_of (wsv_objects (wsv_close s)) i = Some y \<and> \<not> ws_isOpen y \<and> ws_closing y
    \<and> ws_sent y = ws_sent x @ [encode_frame OpClose ([3, 0xE9] @ utf8 ''Server shutting down'')]"
  using assms by (auto simp: wsv_close_def on_sessions_lookup ws_close_def ws_isOpen_def disconnectFromHost_def sendCloseFrame_def sendFrame_def)

text \<open>After a session is closed nothing more is sent on it, and its frames are not read.\<close>

theorem ws_closed_is_silent:
  assumes "\<not> ws_open s"
  shows "ws_send data isText s = s" "ws_close code reason s = s" "ws_onReadyRead cb bytes s = Some (s\<lparr>ws_buffer := ws_buffer s @ bytes\<rparr>)"
  using assms by (simp_all add: ws_send_def ws_close_def ws_onReadyRead_def parse_loop.simps)

text \<open>The request of the RFC is accepted; frames that came with it are lost, since the session starts with an empty buffer.\<close>

theorem ws_upgrade_example:
  "performUpgrade (\<lambda>k. k) (join CRLF [''GET /chat HTTP/1.1'', ''Host: x'', ''upgrade: WebSocket'', ''Connection: keep-alive, Upgrade'', ''Sec-WebSocket-Key: abc='', ''Sec-WebSocket-Version: 13'', [], []])
     = (True, ''HTTP/1.1 101 Switching Protocols'' @ CRLF @ ''Upgrade: websocket'' @ CRLF @ ''Connection: Upgrade'' @ CRLF @ ''Sec-WebSocket-Accept: abc=258EAFA5-E914-47DA-95CA-C5AB0DC85B11'' @ CRLF @ CRLF)"
  by code_simp

end
