(* ===== verification/SK_Aop.thy ===== *)
theory SK_Aop
  imports SK_Text
begin

text \<open>
  Aspects, \<^verbatim>\<open>src/soul/aop/aop.cpp\<close> and \<^verbatim>\<open>include/soul/aop/aop.h\<close>: pointcuts, aspects, the registry of the weaver and \<open>weave\<close>. Advice is code of the application: it acts on a
  world \<open>'w\<close> and may throw. The values that \<^verbatim>\<open>std::any\<close> holds are \<open>'v\<close>; an empty one is \<open>None\<close>. An empty \<^verbatim>\<open>std::function\<close> is \<open>None\<close> too.
\<close>

section \<open>Join points, pointcuts and aspects\<close>

text \<open>An exception keeps its type. Only those derived from \<^verbatim>\<open>std::exception\<close> have a message.\<close>

datatype exn = StdException (exn_type: string) string | OtherException (exn_type: string)

fun exn_message :: "exn \<Rightarrow> string" where
  "exn_message (StdException ty what) = what"
| "exn_message (OtherException ty) = ''unknown exception''"

record 'v joinpoint =
  jp_methodName :: string
  jp_args :: "'v list"
  jp_returnValue :: "'v option"
  jp_hasException :: bool
  jp_exceptionMsg :: string

definition mk_JoinPoint :: "string \<Rightarrow> 'v list \<Rightarrow> 'v joinpoint" where
  "mk_JoinPoint methodName args = \<lparr>jp_methodName = methodName, jp_args = args, jp_returnValue = None, jp_hasException = False, jp_exceptionMsg = []\<rparr>"

type_synonym ('v, 'w) proceed = "'v joinpoint \<Rightarrow> 'w \<Rightarrow> (exn + 'v option) \<times> 'v joinpoint \<times> 'w"
type_synonym ('v, 'w) advice = "'v joinpoint \<Rightarrow> 'w \<Rightarrow> exn option \<times> 'w"
type_synonym ('v, 'w) around = "'v joinpoint \<Rightarrow> ('v, 'w) proceed \<Rightarrow> 'w \<Rightarrow> (exn + 'v option) \<times> 'v joinpoint \<times> 'w"

datatype MatchMode = PrefixMode | SuffixMode | ContainsMode | ExactMode

record pointcut =
  pc_mode :: MatchMode
  pc_pattern :: string

definition pc_matches :: "pointcut \<Rightarrow> string \<Rightarrow> bool" where
  "pc_matches pc methodName =
     (let pat = pc_pattern pc
      in case pc_mode pc of
           PrefixMode \<Rightarrow> length methodName \<ge> length pat \<and> take (length pat) methodName = pat
         | SuffixMode \<Rightarrow> length methodName \<ge> length pat \<and> take (length pat) (drop (length methodName - length pat) methodName) = pat
         | ContainsMode \<Rightarrow> str_contains pat methodName
         | ExactMode \<Rightarrow> methodName = pat)"

record ('v, 'w) aspect =
  as_name :: string
  as_pointcut :: "pointcut option"
  as_before :: "('v, 'w) advice option"
  as_after :: "('v, 'w) advice option"
  as_afterReturning :: "('v, 'w) advice option"
  as_afterThrowing :: "('v, 'w) advice option"
  as_around :: "('v, 'w) around option"

definition mk_Aspect :: "string \<Rightarrow> ('v, 'w) aspect" where
  "mk_Aspect name = \<lparr>as_name = name, as_pointcut = None, as_before = None, as_after = None, as_afterReturning = None, as_afterThrowing = None, as_around = None\<rparr>"

definition as_matches :: "string \<Rightarrow> ('v, 'w) aspect \<Rightarrow> bool" where
  "as_matches methodName a = (case as_pointcut a of Some pc \<Rightarrow> pc_matches pc methodName | None \<Rightarrow> False)"

section \<open>The weaver\<close>

type_synonym ('v, 'w) weaver = "('v, 'w) aspect list"

definition unregisterAspect :: "string \<Rightarrow> ('v, 'w) weaver \<Rightarrow> ('v, 'w) weaver" where
  "unregisterAspect name s = filter (\<lambda>a. as_name a \<noteq> name) s"

definition registerAspect :: "('v, 'w) aspect \<Rightarrow> ('v, 'w) weaver \<Rightarrow> ('v, 'w) weaver" where
  "registerAspect a s = filter (\<lambda>b. as_name b \<noteq> as_name a) s @ [a]"

definition aop_clear :: "('v, 'w) weaver \<Rightarrow> ('v, 'w) weaver" where
  "aop_clear s = []"

definition aspectCount :: "('v, 'w) weaver \<Rightarrow> nat" where
  "aspectCount s = length s"

text \<open>One loop over the advice of a kind; a throw ends it.\<close>

fun run_advice :: "('v, 'w) advice option list \<Rightarrow> 'v joinpoint \<Rightarrow> 'w \<Rightarrow> exn option \<times> 'w" where
  "run_advice [] jp w = (None, w)"
| "run_advice (None # fs) jp w = run_advice fs jp w"
| "run_advice (Some f # fs) jp w = (case f jp w of (Some e, w1) \<Rightarrow> (Some e, w1) | (None, w1) \<Rightarrow> run_advice fs jp w1)"

text \<open>Calling an empty function throws.\<close>

definition call_function :: "('v, 'w) proceed option \<Rightarrow> ('v, 'w) proceed" where
  "call_function p = (case p of Some f \<Rightarrow> f | None \<Rightarrow> (\<lambda>jp w. (Inl (StdException ''std::bad_function_call'' ''bad_function_call''), jp, w)))"

definition wrap_one :: "('v, 'w) aspect \<Rightarrow> ('v, 'w) proceed option \<Rightarrow> ('v, 'w) proceed option" where
  "wrap_one a inner = (case as_around a of None \<Rightarrow> inner | Some aroundFunc \<Rightarrow> Some (\<lambda>jp w. aroundFunc jp (call_function inner) w))"

text \<open>The loop runs from the last aspect to the first, so the first is outermost.\<close>

definition wrap_around :: "('v, 'w) aspect list \<Rightarrow> ('v, 'w) proceed option \<Rightarrow> ('v, 'w) proceed option" where
  "wrap_around matched target = foldr wrap_one matched target"

definition run_target :: "('v, 'w) aspect list \<Rightarrow> ('v, 'w) proceed option \<Rightarrow> ('v, 'w) proceed" where
  "run_target matched target jp w =
     (case wrap_around matched target of
        None \<Rightarrow> (Inr None, jp, w)
      | Some innerProceed \<Rightarrow>
          (case innerProceed jp w of
             (Inr r, jp1, w1) \<Rightarrow> (Inr r, jp1\<lparr>jp_returnValue := r\<rparr>, w1)
           | (Inl e, jp1, w1) \<Rightarrow> (Inl e, jp1\<lparr>jp_hasException := True, jp_exceptionMsg := exn_message e\<rparr>, w1)))"

definition weave :: "string \<Rightarrow> ('v, 'w) proceed option \<Rightarrow> 'v list \<Rightarrow> ('v, 'w) weaver \<Rightarrow> 'w \<Rightarrow> (exn + 'v option) \<times> 'w" where
  "weave methodName target args s w =
     (let matched = filter (as_matches methodName) s;
          jp = mk_JoinPoint methodName args
      in case run_advice (map as_before matched) jp w of
           (Some e, w1) \<Rightarrow> (Inl e, w1)
         | (None, w1) \<Rightarrow>
             (case run_target matched target jp w1 of (res, jp1, w2) \<Rightarrow>
                (case run_advice (map (case res of Inr _ \<Rightarrow> as_afterReturning | Inl _ \<Rightarrow> as_afterThrowing) matched) jp1 w2 of
                   (Some e, w3) \<Rightarrow> (Inl e, w3)
                 | (None, w3) \<Rightarrow>
                     (case run_advice (map as_after matched) jp1 w3 of
                        (Some e, w4) \<Rightarrow> (Inl e, w4)
                      | (None, w4) \<Rightarrow> (res, w4)))))"

section \<open>What the weaver promises\<close>

text \<open>The registry: one aspect per name, the last registered wins and goes to the end.\<close>

definition names_distinct :: "('v, 'w) weaver \<Rightarrow> bool" where
  "names_distinct s = distinct (map as_name s)"

theorem registry_names_distinct:
  assumes "names_distinct s"
  shows "names_distinct (registerAspect a s)" "names_distinct (unregisterAspect n s)" "names_distinct (aop_clear s)"
  using assms by (auto simp: names_distinct_def registerAspect_def unregisterAspect_def aop_clear_def distinct_map_filter)

text \<open>The pointcut modes are the relations on strings of their names.\<close>

theorem pc_matches_meaning:
  "pc_matches pc m = (case pc_mode pc of PrefixMode \<Rightarrow> prefix (pc_pattern pc) m | SuffixMode \<Rightarrow> suffix (pc_pattern pc) m
     | ContainsMode \<Rightarrow> sublist (pc_pattern pc) m | ExactMode \<Rightarrow> m = pc_pattern pc)"
proof -
  let ?p = "pc_pattern pc"
  have pre: "length m \<ge> length ?p \<and> take (length ?p) m = ?p \<longleftrightarrow> prefix ?p m"
    by (metis append_eq_conv_conj prefix_def prefix_length_le take_is_prefix)
  have suf: "length m \<ge> length ?p \<and> take (length ?p) (drop (length m - length ?p) m) = ?p \<longleftrightarrow> suffix ?p m"
    by (auto simp: suffix_def) (metis append_take_drop_id length_drop diff_diff_cancel take_all order_refl)
  show ?thesis by (cases "pc_mode pc") (simp_all only: pc_matches_def Let_def pre suf str_contains_iff MatchMode.case)
qed

text \<open>Advice that only writes down its kind and the name of its aspect. An around writes before and after it proceeds; an exception passes it by.\<close>

datatype mark = MBefore | MIn | MTarget | MOut | MReturning | MThrowing | MAfter

definition writes :: "mark \<Rightarrow> string \<Rightarrow> ('v, (mark \<times> string) list) advice" where
  "writes k n jp w = (None, w @ [(k, n)])"

definition writes_around :: "string \<Rightarrow> ('v, (mark \<times> string) list) around" where
  "writes_around n jp proceed w =
     (case proceed jp (w @ [(MIn, n)]) of (Inr r, jp1, w1) \<Rightarrow> (Inr r, jp1, w1 @ [(MOut, n)]) | (Inl e, jp1, w1) \<Rightarrow> (Inl e, jp1, w1))"

definition logs_only :: "('v, (mark \<times> string) list) aspect \<Rightarrow> bool" where
  "logs_only a \<longleftrightarrow> as_before a \<in> {None, Some (writes MBefore (as_name a))} \<and> as_after a \<in> {None, Some (writes MAfter (as_name a))}
     \<and> as_afterReturning a \<in> {None, Some (writes MReturning (as_name a))} \<and> as_afterThrowing a \<in> {None, Some (writes MThrowing (as_name a))}
     \<and> as_around a \<in> {None, Some (writes_around (as_name a))}"

definition marks :: "mark \<Rightarrow> (('v, 'w) aspect \<Rightarrow> 'b option) \<Rightarrow> ('v, 'w) aspect list \<Rightarrow> (mark \<times> string) list" where
  "marks k kind as = map (\<lambda>a. (k, as_name a)) (filter (\<lambda>a. kind a \<noteq> None) as)"

lemma run_advice_writes:
  assumes "\<forall>a\<in>set as. kind a \<in> {None, Some (writes k (as_name a))}"
  shows "run_advice (map kind as) jp w = (None, w @ marks k kind as)"
  using assms
proof (induction as arbitrary: w)
  case (Cons a as)
  then show ?case by (cases "kind a") (auto simp: marks_def writes_def)
qed (simp add: marks_def)

lemma run_advice_quiet:
  assumes "\<forall>a\<in>set as. \<forall>g jp w. kind a = Some g \<longrightarrow> fst (g jp w) = None"
  shows "fst (run_advice (map kind as) jp w) = None"
  using assms
proof (induction as arbitrary: w)
  case (Cons a as)
  then show ?case
  proof (cases "kind a")
    case (Some g)
    with Cons.prems have "fst (g jp w) = None" by simp
    with Cons Some show ?thesis by (cases "g jp w") simp
  qed simp
qed simp

lemma wrap_around_Some: "wrap_around as (Some f) \<noteq> None"
  by (induction as) (auto simp: wrap_around_def wrap_one_def split: option.splits)

lemma wrap_around_writes:
  assumes "\<forall>a\<in>set as. as_around a \<in> {None, Some (writes_around (as_name a))}"
    and "\<And>w. f jp w = (r, jp, w @ [(MTarget, [])])"
  shows "call_function (wrap_around as (Some f)) jp w
    = (r, jp, w @ marks MIn as_around as @ [(MTarget, [])] @ (case r of Inr _ \<Rightarrow> rev (marks MOut as_around as) | Inl _ \<Rightarrow> []))"
  using assms(1)
proof (induction as arbitrary: w)
  case Nil
  then show ?case by (simp add: wrap_around_def call_function_def assms(2) marks_def split: sum.splits)
next
  case (Cons a as)
  show ?case
  proof (cases "as_around a")
    case None
    with Cons show ?thesis by (simp add: wrap_around_def wrap_one_def marks_def split: sum.splits)
  next
    case (Some g)
    with Cons.prems have g: "g = writes_around (as_name a)" by simp
    have "call_function (wrap_around (a # as) (Some f)) jp w = writes_around (as_name a) jp (call_function (wrap_around as (Some f))) w"
      using Some g by (simp add: wrap_around_def wrap_one_def call_function_def)
    with Cons Some show ?thesis by (simp add: writes_around_def marks_def split: sum.splits)
  qed
qed

text \<open>The order of the comments: befores, the first halves of the arounds in order of registration, the target, their second halves in reverse, then the advice for a return or an exception, then the
  afters; aspects that do not match take no part, and the value or the exception of the target comes out as it is.\<close>

theorem weave_order:
  assumes "\<forall>a\<in>set s. logs_only a" "\<And>jp w. f jp w = (r, jp, w @ [(MTarget, [])])" "ms = filter (as_matches m) s"
  shows "weave m (Some f) args s w = (r, w @ marks MBefore as_before ms @ marks MIn as_around ms @ [(MTarget, [])]
    @ (case r of Inr _ \<Rightarrow> rev (marks MOut as_around ms) @ marks MReturning as_afterReturning ms | Inl _ \<Rightarrow> marks MThrowing as_afterThrowing ms) @ marks MAfter as_after ms)"
proof -
  have l: "\<forall>a\<in>set ms. logs_only a" using assms(1,3) by auto
  have adv: "run_advice (map as_before ms) jp w = (None, w @ marks MBefore as_before ms)" "run_advice (map as_after ms) jp w = (None, w @ marks MAfter as_after ms)"
    "run_advice (map as_afterReturning ms) jp w = (None, w @ marks MReturning as_afterReturning ms)" "run_advice (map as_afterThrowing ms) jp w = (None, w @ marks MThrowing as_afterThrowing ms)" for jp w
    using l by (auto simp: logs_only_def intro!: run_advice_writes)
  obtain p where p: "wrap_around ms (Some f) = Some p" using wrap_around_Some by fastforce
  have "p jp w = (r, jp, w @ marks MIn as_around ms @ [(MTarget, [])] @ (case r of Inr _ \<Rightarrow> rev (marks MOut as_around ms) | Inl _ \<Rightarrow> []))" for jp w
    using wrap_around_writes [of ms f jp r] l assms(2) p by (auto simp: logs_only_def call_function_def)
  then show ?thesis
    by (cases r) (simp_all add: weave_def Let_def adv run_target_def p flip: assms(3))
qed

text \<open>Whatever the advice does, an exception of the target is the one that comes out, unless advice throws. Here no aspect has an around.\<close>

theorem weave_keeps_exception:
  assumes "\<forall>a\<in>set s. as_around a = None" "\<And>jp w. fst (f jp w) = Inl e"
    and "\<forall>a\<in>set s. \<forall>g jp w. as_before a = Some g \<or> as_afterThrowing a = Some g \<or> as_after a = Some g \<longrightarrow> fst (g jp w) = None"
  shows "fst (weave m (Some f) args s w) = Inl e"
proof -
  let ?ms = "filter (as_matches m) s"
  have q: "fst (run_advice (map as_before ?ms) jp w) = None" "fst (run_advice (map as_afterThrowing ?ms) jp w) = None" "fst (run_advice (map as_after ?ms) jp w) = None" for jp w
    using assms(3) by (auto intro!: run_advice_quiet)
  have wr: "wrap_around as (Some f) = Some f" if "\<forall>a\<in>set as. as_around a = None" for as
    using that by (induction as) (simp_all add: wrap_around_def wrap_one_def)
  have wr: "wrap_around ?ms (Some f) = Some f" using assms(1) by (simp add: wr)
  obtain w1 where w1: "run_advice (map as_before ?ms) (mk_JoinPoint m args) w = (None, w1)" using q(1) by (metis prod.collapse)
  obtain jp1 w2 where t: "run_target ?ms (Some f) (mk_JoinPoint m args) w1 = (Inl e, jp1, w2)"
    using assms(2) [of "mk_JoinPoint m args" w1] by (cases "f (mk_JoinPoint m args) w1") (auto simp: run_target_def wr)
  obtain w3 where w3: "run_advice (map as_afterThrowing ?ms) jp1 w2 = (None, w3)" using q(2) by (metis prod.collapse)
  obtain w4 where w4: "run_advice (map as_after ?ms) jp1 w3 = (None, w4)" using q(3) by (metis prod.collapse)
  show ?thesis by (simp add: weave_def Let_def w1 t w3 w4)
qed

text \<open>\<open>After\<close> does not run whatever happens: advice for a return that throws makes the call fail although the target returned, and the \<open>After\<close> advice is skipped.\<close>

definition throwing_aspect :: "(nat, (mark \<times> string) list) aspect" where
  "throwing_aspect = (mk_Aspect ''audit'')\<lparr>as_pointcut := Some \<lparr>pc_mode = PrefixMode, pc_pattern = ''Svc::''\<rparr>,
     as_afterReturning := Some (\<lambda>jp w. (Some (OtherException ''E''), w @ [(MReturning, ''audit'')])), as_after := Some (writes MAfter ''audit'')\<rparr>"

theorem weave_after_skipped:
  "weave ''Svc::run'' (Some (\<lambda>jp w. (Inr (Some 7), jp, w @ [(MTarget, [])]))) [] [throwing_aspect] [] = (Inl (OtherException ''E''), [(MTarget, []), (MReturning, ''audit'')])"
  by code_simp

end
