(* ===== verification/SK_Validation.thy ===== *)
theory SK_Validation
  imports SK_SqlDialect SK_Text
begin

text \<open>
  The validator, \<^verbatim>\<open>src/soul/validation/validator.cpp\<close> and \<^verbatim>\<open>include/soul/validation/validator.h\<close>. A rule is a closure that is called by \<open>validate\<close>: it keeps the values it was given; a custom
  check also looks at the world \<open>'w\<close> of that moment. Regular expressions belong to the C++ library: \<open>compile\<close> gives the compiled expression or the message of a \<^verbatim>\<open>std::regex_error\<close>, and
  \<open>rmatch\<close> whether it matches the whole text, or such a message.
\<close>

section \<open>Errors and results\<close>

record ValidationError =
  ve_field :: string
  ve_rule :: string
  ve_message :: string
  ve_value :: string

definition ve_toString :: "ValidationError \<Rightarrow> string" where
  "ve_toString e = ve_field e @ ''['' @ ve_rule e @ '']: '' @ ve_message e @ '' (value='' @ ve_value e @ '')''"

type_synonym ValidationResult = "ValidationError list"

definition isValid :: "ValidationResult \<Rightarrow> bool" where
  "isValid r \<longleftrightarrow> r = []"

definition firstError :: "ValidationResult \<Rightarrow> string" where
  "firstError r = (case r of [] \<Rightarrow> [] | e # _ \<Rightarrow> ve_message e)"

definition fieldErrors :: "string \<Rightarrow> ValidationResult \<Rightarrow> ValidationError list" where
  "fieldErrors field r = filter (\<lambda>e. ve_field e = field) r"

type_synonym 'w rule = "'w \<Rightarrow> ValidationError option"
type_synonym 'w Validator = "'w rule list"

definition validate :: "'w Validator \<Rightarrow> 'w \<Rightarrow> ValidationResult" where
  "validate v w = fold (\<lambda>rule result. case rule w of Some e \<Rightarrow> result @ [e] | None \<Rightarrow> result) v []"

section \<open>The built-in rules\<close>

definition truncateValue :: "string \<Rightarrow> string" where
  "truncateValue s = (if length s > 50 then take 47 s @ ''...'' else s)"

definition or_message :: "string \<Rightarrow> string \<Rightarrow> string" where
  "or_message message default_message = (if message = [] then default_message else message)"

definition vd_required :: "string \<Rightarrow> string \<Rightarrow> string \<Rightarrow> 'w Validator \<Rightarrow> 'w Validator" where
  "vd_required field value message v = v @ [\<lambda>w.
     if trimmed value = [] then Some \<lparr>ve_field = field, ve_rule = ''required'', ve_message = or_message message (field @ '' is required and must not be empty''), ve_value = ''(empty)''\<rparr> else None]"

definition vd_range :: "('t::linorder \<Rightarrow> string) \<Rightarrow> string \<Rightarrow> 't \<Rightarrow> 't \<Rightarrow> 't \<Rightarrow> string \<Rightarrow> 'w Validator \<Rightarrow> 'w Validator" where
  "vd_range to_string field value lo hi message v = v @ [\<lambda>w.
     if value < lo \<or> value > hi then Some \<lparr>ve_field = field, ve_rule = ''range'', ve_message = or_message message (field @ '' must be between '' @ to_string lo @ '' and '' @ to_string hi), ve_value = to_string value\<rparr>
     else None]"

definition vd_length :: "string \<Rightarrow> string \<Rightarrow> int \<Rightarrow> int \<Rightarrow> string \<Rightarrow> 'w Validator \<Rightarrow> 'w Validator" where
  "vd_length field value minLen maxLen message v = v @ [\<lambda>w.
     let len = int (length value)
     in if len < minLen \<or> len > maxLen
        then Some \<lparr>ve_field = field, ve_rule = ''length'', ve_message = or_message message (field @ '' length must be between '' @ dec_int minLen @ '' and '' @ dec_int maxLen), ve_value = truncateValue value\<rparr>
        else None]"

text \<open>The expression is compiled when the rule is added, outside of the handler for errors: there the error leaves \<open>pattern\<close>, which is \<open>Inl\<close>.\<close>

definition vd_pattern :: "(string \<Rightarrow> string + 'r) \<Rightarrow> ('r \<Rightarrow> string \<Rightarrow> string + bool) \<Rightarrow> string \<Rightarrow> string \<Rightarrow> string \<Rightarrow> string \<Rightarrow> 'w Validator \<Rightarrow> string + 'w Validator" where
  "vd_pattern compile rmatch field value regex message v =
     (case compile regex of
        Inl what \<Rightarrow> Inl what
      | Inr re \<Rightarrow> Inr (v @ [\<lambda>w.
          case rmatch re value of
            Inr True \<Rightarrow> None
          | Inr False \<Rightarrow> Some \<lparr>ve_field = field, ve_rule = ''pattern'', ve_message = or_message message (field @ '' does not match required pattern''), ve_value = truncateValue value\<rparr>
          | Inl what \<Rightarrow> Some \<lparr>ve_field = field, ve_rule = ''pattern'', ve_message = ''Invalid regex pattern: '' @ what, ve_value = regex\<rparr>]))"

definition EMAIL :: string where "EMAIL = ''^[a-zA-Z0-9._%+-]+@[a-zA-Z0-9.-]+'' @ [bslash] @ ''.[a-zA-Z]{2,}$''"
definition ALPHANUMERIC :: string where "ALPHANUMERIC = ''^[a-zA-Z0-9_]+$''"
definition DIGITS :: string where "DIGITS = ''^'' @ [bslash] @ ''d+$''"

definition vd_email :: "(string \<Rightarrow> string + 'r) \<Rightarrow> ('r \<Rightarrow> string \<Rightarrow> string + bool) \<Rightarrow> string \<Rightarrow> string \<Rightarrow> string \<Rightarrow> 'w Validator \<Rightarrow> string + 'w Validator" where
  "vd_email compile rmatch field value message v = vd_pattern compile rmatch field value EMAIL (or_message message (field @ '' must be a valid email address'')) v"

definition digitsOnly :: "(string \<Rightarrow> string + 'r) \<Rightarrow> ('r \<Rightarrow> string \<Rightarrow> string + bool) \<Rightarrow> string \<Rightarrow> string \<Rightarrow> string \<Rightarrow> 'w Validator \<Rightarrow> string + 'w Validator" where
  "digitsOnly compile rmatch field value message v = vd_pattern compile rmatch field value DIGITS (or_message message (field @ '' must contain only digits'')) v"

definition alphanumeric :: "(string \<Rightarrow> string + 'r) \<Rightarrow> ('r \<Rightarrow> string \<Rightarrow> string + bool) \<Rightarrow> string \<Rightarrow> string \<Rightarrow> string \<Rightarrow> 'w Validator \<Rightarrow> string + 'w Validator" where
  "alphanumeric compile rmatch field value message v = vd_pattern compile rmatch field value ALPHANUMERIC (or_message message (field @ '' must contain only letters, digits and underscores'')) v"

definition vd_custom :: "string \<Rightarrow> string \<Rightarrow> 'w rule \<Rightarrow> 'w Validator \<Rightarrow> 'w Validator" where
  "vd_custom field ruleName check v = v @ [\<lambda>w. map_option (\<lambda>e. e\<lparr>ve_field := field, ve_rule := ruleName\<rparr>) (check w)]"

definition sql_feature :: "string \<Rightarrow> bool" where
  "sql_feature s \<longleftrightarrow> str_contains '';'' s \<or> str_contains squote s \<or> str_contains [CHR 0x22] s \<or> str_contains ''--'' s \<or> str_contains ''/*'' s"

definition xss_feature :: "string \<Rightarrow> bool" where
  "xss_feature s \<longleftrightarrow> (let lower = map lower_char s in str_contains ''<script'' lower \<or> str_contains ''javascript:'' lower \<or> str_contains ''onerror='' lower \<or> str_contains ''onload='' lower)"

definition safeString :: "string \<Rightarrow> string \<Rightarrow> string \<Rightarrow> 'w Validator \<Rightarrow> 'w Validator" where
  "safeString field value message v = v @ [\<lambda>w.
     if sql_feature value
     then Some \<lparr>ve_field = field, ve_rule = ''safeString'', ve_message = or_message message (field @ '' contains potentially dangerous characters''), ve_value = truncateValue value\<rparr>
     else if xss_feature value
     then Some \<lparr>ve_field = field, ve_rule = ''safeString'', ve_message = or_message message (field @ '' contains potentially dangerous XSS content''), ve_value = truncateValue value\<rparr>
     else None]"

definition vd_clear :: "'w Validator \<Rightarrow> 'w Validator" where
  "vd_clear v = []"

section \<open>What the rules accept\<close>

theorem validate_reports_in_order: "validate v w = List.map_filter (\<lambda>rule. rule w) v"
proof -
  have "fold (\<lambda>rule result. case rule w of Some e \<Rightarrow> result @ [e] | None \<Rightarrow> result) v acc = acc @ List.map_filter (\<lambda>rule. rule w) v" for acc
    by (induction v arbitrary: acc) (auto simp: map_filter_simps split: option.splits)
  then show ?thesis by (simp add: validate_def)
qed

text \<open>Every failing rule is reported once, in the order of the rules: what a further rule adds is its own error.\<close>

lemma validate_append: "validate (v @ [rule]) w = validate v w @ (case rule w of None \<Rightarrow> [] | Some e \<Rightarrow> [e])"
  by (simp add: validate_def split: option.splits)

lemma isValid_append [simp]: "isValid (validate (v @ [rule]) w) \<longleftrightarrow> isValid (validate v w) \<and> rule w = None"
  by (auto simp: isValid_def validate_append split: option.splits)

lemma trimmed_empty_iff: "trimmed s = [] \<longleftrightarrow> (\<forall>c\<in>set s. is_blank c)"
proof -
  have "trimmed s = [] \<longleftrightarrow> (\<forall>c\<in>set (dropWhile is_blank s). is_blank c)" by (simp add: trimmed_def)
  also have "\<dots> \<longleftrightarrow> (\<forall>c\<in>set s. is_blank c)"
    by (induction s) auto
  finally show ?thesis .
qed

theorem validator_accepts:
  "isValid (validate (vd_required field value msg v) w) \<longleftrightarrow> isValid (validate v w) \<and> (\<exists>c\<in>set value. \<not> is_blank c)"
  "isValid (validate (vd_range to_string field x lo hi msg v) w) \<longleftrightarrow> isValid (validate v w) \<and> lo \<le> x \<and> x \<le> hi"
  "isValid (validate (vd_length field value minLen maxLen msg v) w) \<longleftrightarrow> isValid (validate v w) \<and> minLen \<le> int (length value) \<and> int (length value) \<le> maxLen"
  "isValid (validate (vd_custom field rule check v) w) \<longleftrightarrow> isValid (validate v w) \<and> check w = None"
  by (auto simp: vd_required_def vd_range_def vd_length_def vd_custom_def trimmed_empty_iff Let_def)

text \<open>No error shows more than fifty characters of a value that a length, a pattern or a safety rule refuses.\<close>

theorem truncate_bounded: "length (truncateValue s) \<le> 50"
  by (simp add: truncateValue_def)

text \<open>A text that \<open>safeString\<close> accepts, put between single quotes by hand, is one literal of SQLite and PostgreSQL and means itself.\<close>

theorem safe_string_is_literal:
  assumes "isValid (validate (safeString field s msg v) w)" "rest = [] \<or> hd rest \<noteq> CHR 0x27" "type \<noteq> MySQL"
  shows "read_literal type (squote @ s @ squote @ rest) = Some (s, rest)"
proof -
  have "\<not> sql_feature s" using assms(1) by (auto simp: safeString_def split: if_splits)
  then have "CHR 0x27 \<notin> set s" by (simp add: sql_feature_def str_contains_char)
  then have "read_std (s @ squote @ rest) = Some (s, rest)" using assms(2) by (induction s) (auto split: list.splits)
  with assms(3) show ?thesis by (simp add: read_literal_def)
qed

text \<open>Not so in MySQL, where a backslash at its end makes the quote part of the text: the literal goes on behind it. Nor are all the characters refused that the comment names: here \<open><\<close>, \<open>>\<close> and \<^verbatim>\<open>*/\<close>.\<close>

theorem safe_string_mysql_breaks:
  "isValid (validate (safeString ''name'' [CHR ''a'', bslash] [] []) ())"
  "read_literal MySQL (squote @ [CHR ''a'', bslash] @ squote @ '' OR id = '' @ squote @ ''1'') = Some (''a'' @ squote @ '' OR id = '', ''1'')"
  by code_simp+

theorem safe_string_lets_markup_through: "isValid (validate (safeString ''name'' ''<b>*/'' [] []) ())"
  by code_simp

text \<open>An invalid expression is not reported by \<open>validate\<close>: adding the rule fails.\<close>

theorem invalid_pattern_escapes: "compile regex = Inl what \<Longrightarrow> vd_pattern compile rmatch field value regex msg v = Inl what"
  by (simp add: vd_pattern_def)

end
