(* ===== verification/SK_Health.thy ===== *)
theory SK_Health
  imports SK_OrderedMap SK_Config
begin

text \<open>
  The health endpoint, \<^verbatim>\<open>src/soul/server/health.cpp\<close> and \<^verbatim>\<open>include/soul/server/health.h\<close>: the indicators by name, the two probes and the built-in indicators. The functions the application
  gives to the indicators look at a world \<open>'w\<close>, which one report sees throughout, and may throw: \<open>Inl (Some what)\<close> for a \<^verbatim>\<open>std::exception\<close>, \<open>Inl None\<close> for anything else. Elapsed times are
  arguments. JSON objects keep their keys in order, as the library's do; printing them is left to it.
\<close>

section \<open>Reports\<close>

datatype HealthStatus = HS_UP | HS_DOWN | HS_UNKNOWN

fun hs_toString :: "HealthStatus \<Rightarrow> string" where
  "hs_toString HS_UP = ''UP''"
| "hs_toString HS_DOWN = ''DOWN''"
| "hs_toString HS_UNKNOWN = ''UNKNOWN''"

record HealthDetail =
  dt_name :: string
  dt_status :: HealthStatus
  dt_message :: string
  dt_responseTime :: int

record HealthReport =
  hr_overall :: HealthStatus
  hr_details :: "HealthDetail list"
  hr_totalTime :: int

definition detail_json :: "HealthDetail \<Rightarrow> json" where
  "detail_json d =
     (let o1 = omap_put ''status'' (JString (hs_toString (dt_status d))) (omap_put ''name'' (JString (dt_name d)) []);
          o2 = (if dt_message d \<noteq> [] then omap_put ''message'' (JString (dt_message d)) o1 else o1)
      in JObject (omap_put ''responseTimeMs'' (JInteger (dt_responseTime d)) o2))"

definition hr_toJson :: "HealthReport \<Rightarrow> json" where
  "hr_toJson r = JObject (omap_put ''totalTimeMs'' (JInteger (hr_totalTime r)) (omap_put ''details'' (JArray (map detail_json (hr_details r)))
     (omap_put ''status'' (JString (hs_toString (hr_overall r))) [])))"

section \<open>The endpoint\<close>

type_synonym 'a thrown = "string option + 'a"

record 'w indicator =
  in_name :: string
  in_critical :: bool
  in_check :: "'w \<Rightarrow> HealthDetail thrown"

type_synonym 'w endpoint = "(string \<times> 'w indicator) list"

definition addIndicator :: "'w indicator \<Rightarrow> 'w endpoint \<Rightarrow> 'w endpoint" where
  "addIndicator i s = omap_put (in_name i) i s"

definition removeIndicator :: "string \<Rightarrow> 'w endpoint \<Rightarrow> 'w endpoint" where
  "removeIndicator name s = omap_del name s"

definition indicatorNames :: "'w endpoint \<Rightarrow> string list" where
  "indicatorNames s = map fst s"

definition health_clear :: "'w endpoint \<Rightarrow> 'w endpoint" where
  "health_clear s = []"

definition check_one :: "'w \<Rightarrow> 'w indicator \<Rightarrow> HealthDetail" where
  "check_one w i =
     (case in_check i w of
        Inr detail \<Rightarrow> detail
      | Inl (Some what) \<Rightarrow> \<lparr>dt_name = in_name i, dt_status = HS_DOWN, dt_message = ''Exception: '' @ what, dt_responseTime = 0\<rparr>
      | Inl None \<Rightarrow> \<lparr>dt_name = in_name i, dt_status = HS_DOWN, dt_message = ''Unknown exception'', dt_responseTime = 0\<rparr>)"

fun check_loop :: "'w \<Rightarrow> 'w indicator list \<Rightarrow> HealthDetail list \<times> bool \<times> bool \<Rightarrow> HealthDetail list \<times> bool \<times> bool" where
  "check_loop w [] acc = acc"
| "check_loop w (i # is) (details, hasDown, hasUp) =
     (let d = check_one w i in check_loop w is (details @ [d], hasDown \<or> dt_status d = HS_DOWN, hasUp \<or> dt_status d = HS_UP))"

definition examined :: "bool \<Rightarrow> 'w endpoint \<Rightarrow> 'w indicator list" where
  "examined criticalOnly s = filter (\<lambda>i. \<not> criticalOnly \<or> in_critical i) (map snd s)"

definition doCheck :: "bool \<Rightarrow> 'w \<Rightarrow> int \<Rightarrow> 'w endpoint \<Rightarrow> HealthReport" where
  "doCheck criticalOnly w elapsed s =
     (let snapshot = examined criticalOnly s
      in if snapshot = [] then \<lparr>hr_overall = HS_UP, hr_details = [], hr_totalTime = elapsed\<rparr>
         else case check_loop w snapshot ([], False, False) of (details, hasDown, hasUp) \<Rightarrow>
           \<lparr>hr_overall = (if hasDown then HS_DOWN else if hasUp then HS_UP else HS_UNKNOWN), hr_details = details, hr_totalTime = elapsed\<rparr>)"

definition readiness :: "'w \<Rightarrow> int \<Rightarrow> 'w endpoint \<Rightarrow> HealthReport" where
  "readiness = doCheck False"

definition liveness :: "'w \<Rightarrow> int \<Rightarrow> 'w endpoint \<Rightarrow> HealthReport" where
  "liveness = doCheck True"

section \<open>Built-in indicators\<close>

text \<open>The three indicators of connections differ in the first word of their messages and in whether they are critical.\<close>

definition connection_check :: "string \<Rightarrow> string \<Rightarrow> bool thrown \<Rightarrow> int \<Rightarrow> HealthDetail" where
  "connection_check kind name outcome elapsed =
     (case outcome of
        Inr True \<Rightarrow> \<lparr>dt_name = name, dt_status = HS_UP, dt_message = kind @ '' connection is healthy'', dt_responseTime = elapsed\<rparr>
      | Inr False \<Rightarrow> \<lparr>dt_name = name, dt_status = HS_DOWN, dt_message = kind @ '' connection check failed'', dt_responseTime = elapsed\<rparr>
      | Inl (Some what) \<Rightarrow> \<lparr>dt_name = name, dt_status = HS_DOWN, dt_message = kind @ '' check exception: '' @ what, dt_responseTime = elapsed\<rparr>
      | Inl None \<Rightarrow> \<lparr>dt_name = name, dt_status = HS_DOWN, dt_message = kind @ '' check unknown exception'', dt_responseTime = elapsed\<rparr>)"

definition DatabaseHealthIndicator :: "('w \<Rightarrow> bool thrown) \<Rightarrow> string \<Rightarrow> ('w \<Rightarrow> int) \<Rightarrow> 'w indicator" where
  "DatabaseHealthIndicator checkFunc name elapsed = \<lparr>in_name = name, in_critical = True, in_check = (\<lambda>w. Inr (connection_check ''Database'' name (checkFunc w) (elapsed w)))\<rparr>"

definition MqHealthIndicator :: "('w \<Rightarrow> bool thrown) \<Rightarrow> string \<Rightarrow> ('w \<Rightarrow> int) \<Rightarrow> 'w indicator" where
  "MqHealthIndicator checkFunc name elapsed = \<lparr>in_name = name, in_critical = False, in_check = (\<lambda>w. Inr (connection_check ''MQ'' name (checkFunc w) (elapsed w)))\<rparr>"

definition NetworkHealthIndicator :: "('w \<Rightarrow> bool thrown) \<Rightarrow> string \<Rightarrow> ('w \<Rightarrow> int) \<Rightarrow> 'w indicator" where
  "NetworkHealthIndicator checkFunc name elapsed = \<lparr>in_name = name, in_critical = False, in_check = (\<lambda>w. Inr (connection_check ''Network'' name (checkFunc w) (elapsed w)))\<rparr>"

text \<open>Numbers are printed by \<open>show\<close>, the stream of the C++ library.\<close>

definition pool_check :: "(real \<Rightarrow> string) \<Rightarrow> string \<Rightarrow> real \<Rightarrow> real thrown \<Rightarrow> int \<Rightarrow> HealthDetail" where
  "pool_check show poolName threshold outcome elapsed =
     (case outcome of
        Inr utilization \<Rightarrow>
          (let msg = ''Utilization: '' @ show (utilization * 100) @ ''%''
           in if utilization < threshold then \<lparr>dt_name = poolName, dt_status = HS_UP, dt_message = msg, dt_responseTime = elapsed\<rparr>
              else \<lparr>dt_name = poolName, dt_status = HS_DOWN, dt_message = msg @ '' (exceeds threshold '' @ show (threshold * 100) @ ''%)'', dt_responseTime = elapsed\<rparr>)
      | Inl (Some what) \<Rightarrow> \<lparr>dt_name = poolName, dt_status = HS_DOWN, dt_message = ''Resource pool check exception: '' @ what, dt_responseTime = elapsed\<rparr>
      | Inl None \<Rightarrow> \<lparr>dt_name = poolName, dt_status = HS_DOWN, dt_message = ''Resource pool check unknown exception'', dt_responseTime = elapsed\<rparr>)"

definition ResourcePoolHealthIndicator :: "(real \<Rightarrow> string) \<Rightarrow> string \<Rightarrow> ('w \<Rightarrow> real thrown) \<Rightarrow> real \<Rightarrow> ('w \<Rightarrow> int) \<Rightarrow> 'w indicator" where
  "ResourcePoolHealthIndicator show poolName getUtilization threshold elapsed =
     \<lparr>in_name = poolName, in_critical = False, in_check = (\<lambda>w. Inr (pool_check show poolName threshold (getUtilization w) (elapsed w)))\<rparr>"

section \<open>What the probes say\<close>

text \<open>The indicators are in the order of their names, one for each name, and each is kept under its own name.\<close>

definition endpoint_inv :: "'w endpoint \<Rightarrow> bool" where
  "endpoint_inv s \<longleftrightarrow> omap_inv s \<and> (\<forall>(k, i)\<in>set s. in_name i = k)"

lemma set_omap_put_sub: "set (omap_put k x m) \<subseteq> insert (k, x) (set m)"
  by (induction k x m rule: omap_put.induct) auto

theorem endpoint_inv_kept:
  assumes "endpoint_inv s"
  shows "endpoint_inv (addIndicator i s)" "endpoint_inv (removeIndicator n s)" "endpoint_inv (health_clear s)"
  using assms set_omap_put_sub [of "in_name i" i s]
  by (auto simp: endpoint_inv_def addIndicator_def removeIndicator_def health_clear_def omap_put_inv omap_del_inv omap_empty_inv)
    (auto simp: omap_del_def)

lemma check_loop_eq:
  "check_loop w is (ds, down, up) = (ds @ map (check_one w) is, down \<or> (\<exists>i\<in>set is. dt_status (check_one w i) = HS_DOWN), up \<or> (\<exists>i\<in>set is. dt_status (check_one w i) = HS_UP))"
  by (induction "is" arbitrary: ds down up) (auto simp: Let_def)

text \<open>A probe asks each indicator it is for once and in order; it is down when one of them is down or throws, up when none is and one is up or there is none, and unknown otherwise.\<close>

theorem health_verdict:
  "hr_details (doCheck c w t s) = map (check_one w) (examined c s)"
  "hr_overall (doCheck c w t s) = HS_DOWN \<longleftrightarrow> (\<exists>i\<in>set (examined c s). dt_status (check_one w i) = HS_DOWN)"
  "hr_overall (doCheck c w t s) = HS_UP \<longleftrightarrow> (\<forall>i\<in>set (examined c s). dt_status (check_one w i) \<noteq> HS_DOWN) \<and> (examined c s = [] \<or> (\<exists>i\<in>set (examined c s). dt_status (check_one w i) = HS_UP))"
  by (auto simp: doCheck_def Let_def check_loop_eq)

text \<open>A process that is ready is not reported dead.\<close>

theorem ready_not_dead: "hr_overall (readiness w t s) = HS_UP \<Longrightarrow> hr_overall (liveness w t' s) \<noteq> HS_DOWN"
  by (auto simp: readiness_def liveness_def health_verdict examined_def)

text \<open>A dependency that is not critical makes the readiness down as well, though \<open>isCritical\<close> is documented to decide that; and one indicator that is up hides any number that are unknown.\<close>

theorem noncritical_brings_down:
  assumes "map_of s k = Some i" "in_check i w = Inr d" "dt_status d = HS_DOWN"
  shows "hr_overall (readiness w t s) = HS_DOWN"
proof -
  have "i \<in> set (examined False s)" using assms(1) by (force simp: examined_def dest: map_of_SomeD)
  moreover have "dt_status (check_one w i) = HS_DOWN" using assms(2,3) by (simp add: check_one_def)
  ultimately show ?thesis unfolding readiness_def health_verdict by blast
qed

theorem unknown_counts_as_up:
  "hr_overall (readiness () 0 (addIndicator \<lparr>in_name = ''b'', in_critical = True, in_check = (\<lambda>_. Inr \<lparr>dt_name = ''b'', dt_status = HS_UNKNOWN, dt_message = [], dt_responseTime = 0\<rparr>)\<rparr>
     (addIndicator (DatabaseHealthIndicator (\<lambda>_. Inr True) ''a'' (\<lambda>_. 1)) []))) = HS_UP"
  by code_simp

text \<open>The report of the two as JSON.\<close>

theorem health_json_example:
  "hr_toJson (readiness () 5 (addIndicator (MqHealthIndicator (\<lambda>_. Inl None) ''mq'' (\<lambda>_. 2)) [])) =
     JObject [(''details'', JArray [JObject [(''message'', JString ''MQ check unknown exception''), (''name'', JString ''mq''), (''responseTimeMs'', JInteger 2), (''status'', JString ''DOWN'')]]),
       (''status'', JString ''DOWN''), (''totalTimeMs'', JInteger 5)]"
  by (simp add: hr_toJson_def readiness_def doCheck_def addIndicator_def MqHealthIndicator_def check_one_def connection_check_def detail_json_def Let_def) code_simp

end
