(* ===== verification/SK_NetPolicy.thy ===== *)
theory SK_NetPolicy
  imports SK_Prelude SK_Int32 "HOL-Library.AList"
begin

text \<open>
  The policies for retries, reconnections and time-outs, \<^verbatim>\<open>src/soul/network/policy/\<close>. Their delays are products at a fixed width; C++ gives no meaning to a product or a shift that does not fit, so
  such a delay is \<open>None\<close>; the counter of retries wraps. The settings of a policy go into the metadata of a message.
\<close>

section \<open>Arithmetic that may have no meaning\<close>

text \<open>A product of signed numbers of \<open>w\<close> bits, and a power of two as a shift of 1 of that width.\<close>

definition signed_mult :: "nat \<Rightarrow> int \<Rightarrow> int \<Rightarrow> int option" where
  "signed_mult w a b = (if - (2 ^ (w - 1)) \<le> a * b \<and> a * b < 2 ^ (w - 1) then Some (a * b) else None)"

definition shift_one :: "nat \<Rightarrow> int \<Rightarrow> int option" where
  "shift_one w n = (if 0 \<le> n \<and> n < int w - 1 then Some (2 ^ nat n) else None)"

datatype metadata = MetaInt int | MetaBool bool

type_synonym message = "(string \<times> metadata) list"

section \<open>Reconnection\<close>

record reconnect_policy =
  rp_enabled :: bool
  rp_baseInterval :: int
  rp_maxInterval :: int
  rp_maxRetries :: int
  rp_currentRetry :: int

definition default_ReconnectPolicy :: reconnect_policy where
  "default_ReconnectPolicy = \<lparr>rp_enabled = True, rp_baseInterval = 1000, rp_maxInterval = 60000, rp_maxRetries = 0, rp_currentRetry = 0\<rparr>"

definition mk_ReconnectPolicy :: "bool \<Rightarrow> int \<Rightarrow> int \<Rightarrow> reconnect_policy" where
  "mk_ReconnectPolicy enabled interval maxRetries = default_ReconnectPolicy\<lparr>rp_enabled := enabled, rp_baseInterval := interval, rp_maxRetries := maxRetries\<rparr>"

definition rp_shouldReconnect :: "reconnect_policy \<Rightarrow> bool" where
  "rp_shouldReconnect p = (if \<not> rp_enabled p then False else if rp_maxRetries p \<le> 0 then True else rp_currentRetry p < rp_maxRetries p)"

definition rp_resetRetry :: "reconnect_policy \<Rightarrow> reconnect_policy" where
  "rp_resetRetry p = p\<lparr>rp_currentRetry := 0\<rparr>"

definition rp_incrementRetry :: "reconnect_policy \<Rightarrow> reconnect_policy" where
  "rp_incrementRetry p = p\<lparr>rp_currentRetry := to_int32 (rp_currentRetry p + 1)\<rparr>"

definition rp_nextRetryInterval :: "reconnect_policy \<Rightarrow> int option" where
  "rp_nextRetryInterval p =
     (if rp_currentRetry p \<le> 0 then Some (rp_baseInterval p)
      else case shift_one 64 (rp_currentRetry p) of
        None \<Rightarrow> None
      | Some f \<Rightarrow> (case signed_mult 64 (rp_baseInterval p) f of None \<Rightarrow> None | Some i \<Rightarrow> Some (min i (rp_maxInterval p))))"

definition rp_apply :: "reconnect_policy \<Rightarrow> message \<Rightarrow> message" where
  "rp_apply p msg = AList.update ''maxRetries'' (MetaInt (rp_maxRetries p)) (AList.update ''reconnectInterval'' (MetaInt (to_int32 (rp_baseInterval p))) (AList.update ''reconnectEnabled'' (MetaBool (rp_enabled p)) msg))"

section \<open>Retries and time-outs\<close>

datatype RetryStrategy = FixedInterval | ExponentialBackoff | LinearBackoff

fun strategy_number :: "RetryStrategy \<Rightarrow> int" where
  "strategy_number FixedInterval = 0"
| "strategy_number ExponentialBackoff = 1"
| "strategy_number LinearBackoff = 2"

record retry_policy =
  rt_maxRetries :: int
  rt_strategy :: RetryStrategy
  rt_baseDelay :: int

definition mk_RetryPolicy :: "int \<Rightarrow> RetryStrategy \<Rightarrow> retry_policy" where
  "mk_RetryPolicy maxRetries strategy = \<lparr>rt_maxRetries = maxRetries, rt_strategy = strategy, rt_baseDelay = 1000\<rparr>"

definition rt_nextDelay :: "int \<Rightarrow> retry_policy \<Rightarrow> int option" where
  "rt_nextDelay attempt p =
     (if attempt \<ge> rt_maxRetries p then Some (- 1)
      else case rt_strategy p of
        FixedInterval \<Rightarrow> Some (rt_baseDelay p)
      | ExponentialBackoff \<Rightarrow> (case shift_one 32 attempt of None \<Rightarrow> None | Some f \<Rightarrow> signed_mult 32 (rt_baseDelay p) f)
      | LinearBackoff \<Rightarrow> signed_mult 32 (rt_baseDelay p) (attempt + 1))"

definition rt_apply :: "retry_policy \<Rightarrow> message \<Rightarrow> message" where
  "rt_apply p msg = AList.update ''baseDelay'' (MetaInt (rt_baseDelay p)) (AList.update ''retryStrategy'' (MetaInt (strategy_number (rt_strategy p))) (AList.update ''maxRetries'' (MetaInt (rt_maxRetries p)) msg))"

definition tp_apply :: "int \<Rightarrow> message \<Rightarrow> message" where
  "tp_apply timeout msg = AList.update ''timeout'' (MetaInt timeout) msg"

section \<open>Delays\<close>

lemma scaled_power_fits:
  fixes b :: int
  assumes "0 < b" "b * 2 ^ n < 2 ^ k"
  shows "n < k" "- (2 ^ k) \<le> b * 2 ^ n"
proof -
  have "(2::int) ^ n \<le> b * 2 ^ n" using assms(1) by simp
  then have "(2::int) ^ n < 2 ^ k" using assms(2) by (rule le_less_trans)
  then show "n < k" by (rule power_less_imp_less_exp [rotated]) simp
  have "0 \<le> b * 2 ^ n" using assms(1) by simp
  then show "- (2 ^ k) \<le> b * 2 ^ n" using zero_le_power [of "2::int" k] by linarith
qed

text \<open>Doubling from the base, never above the maximum.\<close>

theorem reconnect_interval:
  assumes "0 \<le> rp_currentRetry p" "0 < rp_baseInterval p" "rp_baseInterval p \<le> rp_maxInterval p" "rp_baseInterval p * 2 ^ nat (rp_currentRetry p) < 2 ^ 63"
  shows "rp_nextRetryInterval p = Some (min (rp_baseInterval p * 2 ^ nat (rp_currentRetry p)) (rp_maxInterval p))"
proof (cases "rp_currentRetry p = 0")
  case True
  with assms(3) show ?thesis by (simp add: rp_nextRetryInterval_def)
next
  case False
  have "nat (rp_currentRetry p) < 63" "- (2 ^ 63) \<le> rp_baseInterval p * 2 ^ nat (rp_currentRetry p)" using assms(2,4) by (rule scaled_power_fits)+
  with False assms show ?thesis by (simp add: rp_nextRetryInterval_def shift_one_def signed_mult_def)
qed

lemma reconnect_interval_step:
  assumes "0 < b" "b * 2 ^ n \<ge> (2::int) ^ 63" "0 < n"
  shows "rp_nextRetryInterval (p\<lparr>rp_baseInterval := b, rp_currentRetry := int n\<rparr>) = None"
  using assms by (auto simp: rp_nextRetryInterval_def shift_one_def signed_mult_def)

text \<open>The default policy never gives up, and its back-off stops having a meaning at the fifty-fourth failure in a row; until then it is the minute of its maximum from the sixth on.\<close>

theorem reconnect_default_breaks:
  assumes "6 \<le> n" "n < 2 ^ 31"
  shows "rp_nextRetryInterval (((rp_incrementRetry ^^ n)) default_ReconnectPolicy) = (if n < 54 then Some 60000 else None)"
    and "rp_shouldReconnect ((rp_incrementRetry ^^ n) default_ReconnectPolicy)"
proof -
  have it: "(rp_incrementRetry ^^ n) default_ReconnectPolicy = default_ReconnectPolicy\<lparr>rp_currentRetry := int n\<rparr>"
    using assms(2)
  proof (induction n)
    case (Suc n)
    then show ?case by (simp add: rp_incrementRetry_def default_ReconnectPolicy_def to_int32_small)
  qed (simp add: default_ReconnectPolicy_def)
  then show "rp_shouldReconnect ((rp_incrementRetry ^^ n) default_ReconnectPolicy)" by (simp add: rp_shouldReconnect_def default_ReconnectPolicy_def)
  show "rp_nextRetryInterval ((rp_incrementRetry ^^ n) default_ReconnectPolicy) = (if n < 54 then Some 60000 else None)"
  proof (cases "n < 54")
    case True
    have "(2::int) ^ 6 \<le> 2 ^ n" "(2::int) ^ n \<le> 2 ^ 53" using assms True by (intro power_increasing; simp)+
    with True assms reconnect_interval [of "default_ReconnectPolicy\<lparr>rp_currentRetry := int n\<rparr>"] show ?thesis
      by (simp add: it) (simp add: default_ReconnectPolicy_def)
  next
    case False
    then have "(2::int) ^ 54 \<le> 2 ^ n" by (intro power_increasing) simp_all
    with False reconnect_interval_step [of 1000 n default_ReconnectPolicy] show ?thesis
      by (simp add: it) (simp add: default_ReconnectPolicy_def)
  qed
qed

text \<open>The delays of the retry policy; \<open>- 1\<close> exactly when no retry is left. Exponential delays have a meaning as long as they fit.\<close>

theorem retry_delay:
  assumes "0 \<le> attempt" "0 < rt_baseDelay p" "rt_baseDelay p * (case rt_strategy p of FixedInterval \<Rightarrow> 1 | ExponentialBackoff \<Rightarrow> 2 ^ nat attempt | LinearBackoff \<Rightarrow> attempt + 1) < 2 ^ 31"
  shows "rt_nextDelay attempt p = Some (if attempt \<ge> rt_maxRetries p then - 1
    else rt_baseDelay p * (case rt_strategy p of FixedInterval \<Rightarrow> 1 | ExponentialBackoff \<Rightarrow> 2 ^ nat attempt | LinearBackoff \<Rightarrow> attempt + 1))"
proof (cases "rt_strategy p")
  case ExponentialBackoff
  have "rt_baseDelay p * 2 ^ nat attempt < 2 ^ 31" using assms(3) ExponentialBackoff by simp
  with assms(2) have "nat attempt < 31" "- (2 ^ 31) \<le> rt_baseDelay p * 2 ^ nat attempt" by (rule scaled_power_fits)+
  moreover from this(1) have "attempt < 31" by linarith
  ultimately show ?thesis using ExponentialBackoff assms by (simp add: rt_nextDelay_def shift_one_def signed_mult_def)
next
  case LinearBackoff
  moreover have "- (2 ^ 31) \<le> rt_baseDelay p * (attempt + 1)" using assms(1,2) by (smt (verit) mult_pos_pos zero_less_power)
  ultimately show ?thesis using assms by (simp add: rt_nextDelay_def signed_mult_def)
qed (simp add: rt_nextDelay_def)

theorem retry_default_breaks: "rt_nextDelay 21 (mk_RetryPolicy 30 ExponentialBackoff) = Some 2097152000" "rt_nextDelay 22 (mk_RetryPolicy 30 ExponentialBackoff) = None"
  by code_simp+

text \<open>The retry and the reconnection policy write the same key: on one message the later one decides.\<close>

theorem policies_share_key: "map_of (rt_apply r (rp_apply p msg)) ''maxRetries'' = Some (MetaInt (rt_maxRetries r))" "map_of (rp_apply p (rt_apply r msg)) ''maxRetries'' = Some (MetaInt (rp_maxRetries p))"
  by (simp_all add: rt_apply_def rp_apply_def update_conv')

end
