(* ===== verification/SK_Rpc.thy ===== *)
theory SK_Rpc
  imports SK_Config SK_Int32 "HOL-Library.AList"
begin

text \<open>
  Remote calls, \<^verbatim>\<open>src/soul/rpc/\<close>: the dispatcher, the registry of instances with the load balancer, the serializer, the transport over HTTP and the client proxy. Printing and parsing of JSON,
  base64 and percent encoding belong to libraries and are parameters, as is the network, which answers a posted request. Conversions of JSON values throw the library's \<^verbatim>\<open>type_error\<close> with
  a message \<open>what\<close>; doubles are reals.
\<close>

section \<open>Requests and the dispatcher\<close>

record RpcRequest =
  rr_serviceName :: string
  rr_methodName :: string
  rr_params :: json
  rr_requestId :: string

record RpcResponse =
  rs_success :: bool
  rs_data :: json
  rs_errorMessage :: string
  rs_requestId :: string

type_synonym 'w handler = "RpcRequest \<Rightarrow> 'w \<Rightarrow> RpcResponse \<times> 'w"
type_synonym 'w dispatcher = "(string \<times> 'w handler) list"

definition registerService :: "string \<Rightarrow> 'w handler \<Rightarrow> 'w dispatcher \<Rightarrow> 'w dispatcher" where
  "registerService serviceName h d = AList.update serviceName h d"

definition unregisterService :: "string \<Rightarrow> 'w dispatcher \<Rightarrow> 'w dispatcher" where
  "unregisterService serviceName d = AList.delete serviceName d"

definition dispatch :: "RpcRequest \<Rightarrow> 'w dispatcher \<Rightarrow> 'w \<Rightarrow> RpcResponse \<times> 'w" where
  "dispatch request d w =
     (case map_of d (rr_serviceName request) of
        None \<Rightarrow> (\<lparr>rs_success = False, rs_data = JNull, rs_errorMessage = ''Service not found: '' @ rr_serviceName request, rs_requestId = rr_requestId request\<rparr>, w)
      | Some h \<Rightarrow> h request w)"

definition registeredServices :: "'w dispatcher \<Rightarrow> string list" where
  "registeredServices d = map fst d"

section \<open>The registry of instances\<close>

record ServiceInstance =
  si_serviceName :: string
  si_host :: string
  si_port :: int
  si_timestamp :: int

type_synonym instance_registry = "(string \<times> ServiceInstance list) list"

definition registerInstance :: "ServiceInstance \<Rightarrow> instance_registry \<Rightarrow> unit result \<times> instance_registry" where
  "registerInstance i r = (Ok (), AList.update (si_serviceName i) ((case map_of r (si_serviceName i) of Some is \<Rightarrow> is | None \<Rightarrow> []) @ [i]) r)"

fun remove_instance :: "string \<Rightarrow> int \<Rightarrow> ServiceInstance list \<Rightarrow> ServiceInstance list option" where
  "remove_instance host port [] = None"
| "remove_instance host port (i # is) = (if si_host i = host \<and> si_port i = port then Some is else map_option ((#) i) (remove_instance host port is))"

definition unregisterInstance :: "string \<Rightarrow> string \<Rightarrow> int \<Rightarrow> instance_registry \<Rightarrow> unit result \<times> instance_registry" where
  "unregisterInstance serviceName host port r =
     (case map_of r serviceName of
        None \<Rightarrow> (Err (mk_error EC_NotFound (''Service not found: '' @ serviceName)), r)
      | Some instances \<Rightarrow>
          (case remove_instance host port instances of
             None \<Rightarrow> (Err (mk_error EC_NotFound ''Instance not found''), r)
           | Some rest \<Rightarrow> (Ok (), if rest = [] then AList.delete serviceName r else AList.update serviceName rest r)))"

definition getInstances :: "string \<Rightarrow> instance_registry \<Rightarrow> ServiceInstance list result" where
  "getInstances serviceName r = Ok (case map_of r serviceName of Some is \<Rightarrow> is | None \<Rightarrow> [])"

section \<open>The load balancer\<close>

record load_balancer =
  lb_roundRobin :: bool
  lb_counter :: int

definition mk_LoadBalancer :: load_balancer where
  "mk_LoadBalancer = \<lparr>lb_roundRobin = True, lb_counter = 0\<rparr>"

text \<open>The remainder of C++ has the sign of the dividend.\<close>

definition c_rem :: "int \<Rightarrow> int \<Rightarrow> int" where
  "c_rem a b = (if a < 0 then - ((- a) mod b) else a mod b)"

datatype 'a selection = NoInstance | Selected 'a | OutOfRange

definition at_index :: "int \<Rightarrow> 'a list \<Rightarrow> 'a selection" where
  "at_index idx xs = (if 0 \<le> idx \<and> idx < int (length xs) then Selected (xs ! nat idx) else OutOfRange)"

text \<open>\<open>random\<close> is what the generator gives for the bound. The counter wraps, as it does where overflow is not trapped.\<close>

definition lb_select :: "(int \<Rightarrow> int) \<Rightarrow> 'a list \<Rightarrow> load_balancer \<Rightarrow> 'a selection \<times> load_balancer" where
  "lb_select random instances b =
     (if instances = [] then (NoInstance, b)
      else let sz = to_int32 (int (length instances))
           in if lb_roundRobin b then (at_index (c_rem (lb_counter b) sz) instances, b\<lparr>lb_counter := to_int32 (lb_counter b + 1)\<rparr>)
              else (at_index (random sz) instances, b))"

definition lb_setRoundRobin :: "load_balancer \<Rightarrow> load_balancer" where
  "lb_setRoundRobin b = b\<lparr>lb_roundRobin := True\<rparr>"

definition lb_setRandom :: "load_balancer \<Rightarrow> load_balancer" where
  "lb_setRandom b = b\<lparr>lb_roundRobin := False\<rparr>"

section \<open>The serializer\<close>

datatype RpcValue = RpcNull | RpcInt int | RpcDouble real | RpcBool bool | RpcString string | RpcBytes string

fun value_json :: "(string \<Rightarrow> string) \<Rightarrow> RpcValue \<Rightarrow> json" where
  "value_json toBase64 RpcNull = JObject [(''type'', JString ''null''), (''value'', JNull)]"
| "value_json toBase64 (RpcInt i) = JObject [(''type'', JString ''int64''), (''value'', JInteger i)]"
| "value_json toBase64 (RpcDouble x) = JObject [(''type'', JString ''double''), (''value'', JFloat x)]"
| "value_json toBase64 (RpcBool b) = JObject [(''type'', JString ''bool''), (''value'', JBoolean b)]"
| "value_json toBase64 (RpcString s) = JObject [(''type'', JString ''string''), (''value'', JString s)]"
| "value_json toBase64 (RpcBytes s) = JObject [(''type'', JString ''bytes''), (''value'', JString (toBase64 s))]"

definition serializeValue :: "(json \<Rightarrow> string) \<Rightarrow> (string \<Rightarrow> string) \<Rightarrow> RpcValue \<Rightarrow> string" where
  "serializeValue dump toBase64 v = dump (value_json toBase64 v)"

text \<open>\<^verbatim>\<open>get<T>\<close>: numbers convert into each other, everything else must have the type asked for. \<open>Inl\<close> is the exception.\<close>

definition truncate_real :: "real \<Rightarrow> int" where
  "truncate_real x = (if x < 0 then \<lceil>x\<rceil> else \<lfloor>x\<rfloor>)"

definition get_int64 :: "string \<Rightarrow> json \<Rightarrow> string + int" where
  "get_int64 what j = (case j of JInteger i \<Rightarrow> Inr i | JFloat x \<Rightarrow> Inr (truncate_real x) | _ \<Rightarrow> Inl what)"

definition get_double :: "string \<Rightarrow> json \<Rightarrow> string + real" where
  "get_double what j = (case j of JInteger i \<Rightarrow> Inr (of_int i) | JFloat x \<Rightarrow> Inr x | _ \<Rightarrow> Inl what)"

definition get_bool :: "string \<Rightarrow> json \<Rightarrow> string + bool" where
  "get_bool what j = (case j of JBoolean b \<Rightarrow> Inr b | _ \<Rightarrow> Inl what)"

definition get_string :: "string \<Rightarrow> json \<Rightarrow> string + string" where
  "get_string what j = (case j of JString s \<Rightarrow> Inr s | _ \<Rightarrow> Inl what)"

definition map_get :: "('a \<Rightarrow> 'b) \<Rightarrow> string + 'a \<Rightarrow> string + 'b result" where
  "map_get f r = (case r of Inl what \<Rightarrow> Inl what | Inr v \<Rightarrow> Inr (Ok (f v)))"

text \<open>An exception of a conversion leaves the function (\<open>Inl\<close>).\<close>

definition deserializeValue :: "(string \<Rightarrow> json result) \<Rightarrow> (string \<Rightarrow> string) \<Rightarrow> string \<Rightarrow> string \<Rightarrow> string + RpcValue result" where
  "deserializeValue parse fromBase64 what data =
     (case parse data of
        Inl e \<Rightarrow> Inr (Err e)
      | Inr (JObject o1) \<Rightarrow>
          (case (case map_of o1 ''type'' of None \<Rightarrow> Inr [] | Some t \<Rightarrow> get_string what t) of
             Inl e \<Rightarrow> Inl e
           | Inr type \<Rightarrow>
               (let val = (case map_of o1 ''value'' of Some v \<Rightarrow> v | None \<Rightarrow> JNull)
                in if type = ''null'' then Inr (Ok RpcNull)
                   else if type = ''int64'' then map_get RpcInt (get_int64 what val)
                   else if type = ''double'' then map_get RpcDouble (get_double what val)
                   else if type = ''bool'' then map_get RpcBool (get_bool what val)
                   else if type = ''string'' then map_get RpcString (get_string what val)
                   else if type = ''bytes'' then map_get (\<lambda>s. RpcBytes (fromBase64 s)) (get_string what val)
                   else Inr (Err (mk_error EC_DeserializationError (''Unknown RpcValue type: '' @ type)))))
      | Inr _ \<Rightarrow> Inr (Err (mk_error EC_DeserializationError ''Expected JSON object for RpcValue'')))"

section \<open>The transport and the proxy\<close>

text \<open>The helpers of \<^verbatim>\<open>json_helper.h\<close>: a value of another type counts as missing.\<close>

definition json_find :: "json \<Rightarrow> string \<Rightarrow> json option" where
  "json_find j key = (case j of JObject o1 \<Rightarrow> map_of o1 key | _ \<Rightarrow> None)"

definition jh_getBool :: "json \<Rightarrow> string \<Rightarrow> bool \<Rightarrow> bool" where
  "jh_getBool j key d = (case json_find j key of Some (JBoolean b) \<Rightarrow> b | _ \<Rightarrow> d)"

definition jh_getString :: "json \<Rightarrow> string \<Rightarrow> string" where
  "jh_getString j key = (case json_find j key of Some (JString s) \<Rightarrow> s | _ \<Rightarrow> [])"

definition jh_getObject :: "json \<Rightarrow> string \<Rightarrow> json" where
  "jh_getObject j key = (case json_find j key of Some (JObject o1) \<Rightarrow> JObject o1 | _ \<Rightarrow> JObject [])"

datatype net_reply = ReplyTimeout | ReplyError string | ReplyBody string

record http_transport =
  ht_baseUrl :: string
  ht_headers :: "(string \<times> string) list"
  ht_running :: bool
  ht_readTimeout :: int
  ht_http2 :: bool

definition mk_HttpTransport :: "string \<Rightarrow> (string \<times> string) list \<Rightarrow> http_transport" where
  "mk_HttpTransport baseUrl headers = \<lparr>ht_baseUrl = baseUrl, ht_headers = headers, ht_running = False, ht_readTimeout = 30000, ht_http2 = True\<rparr>"

definition ht_start :: "http_transport \<Rightarrow> http_transport" where
  "ht_start t = t\<lparr>ht_running := True\<rparr>"

definition ht_stop :: "http_transport \<Rightarrow> http_transport" where
  "ht_stop t = t\<lparr>ht_running := False\<rparr>"

record posted =
  ps_url :: string
  ps_headers :: "(string \<times> string) list"
  ps_http2 :: bool
  ps_body :: string
  ps_timeout :: int

definition envelope :: "RpcRequest \<Rightarrow> json" where
  "envelope r = JObject [(''method'', JString (rr_methodName r)), (''params'', rr_params r), (''requestId'', JString (rr_requestId r)), (''service'', JString (rr_serviceName r))]"

definition post_of :: "(json \<Rightarrow> string) \<Rightarrow> (string \<Rightarrow> string) \<Rightarrow> RpcRequest \<Rightarrow> http_transport \<Rightarrow> posted" where
  "post_of dump percent r t = \<lparr>ps_url = ht_baseUrl t @ ''/rpc/'' @ percent (rr_serviceName r) @ ''/'' @ percent (rr_methodName r),
     ps_headers = fold (\<lambda>(k, v). AList.update k v) (ht_headers t) [(''Content-Type'', ''application/json'')], ps_http2 = ht_http2 t, ps_body = dump (envelope r), ps_timeout = ht_readTimeout t\<rparr>"

definition read_rpc_response :: "(string \<Rightarrow> json result) \<Rightarrow> string \<Rightarrow> RpcResponse result" where
  "read_rpc_response parse body =
     (case parse body of
        Inl e \<Rightarrow> Err (mk_error EC_DeserializationError (err_message e))
      | Inr (JObject o1) \<Rightarrow> Ok \<lparr>rs_success = jh_getBool (JObject o1) ''success'' False, rs_data = jh_getObject (JObject o1) ''data'',
          rs_errorMessage = jh_getString (JObject o1) ''errorMessage'', rs_requestId = jh_getString (JObject o1) ''requestId''\<rparr>
      | Inr _ \<Rightarrow> Err (mk_error EC_DeserializationError ''Invalid response format''))"

definition ht_sendRequest :: "(json \<Rightarrow> string) \<Rightarrow> (string \<Rightarrow> json result) \<Rightarrow> (string \<Rightarrow> string) \<Rightarrow> (posted \<Rightarrow> net_reply) \<Rightarrow> http_transport \<Rightarrow> RpcRequest \<Rightarrow> RpcResponse result" where
  "ht_sendRequest dump parse percent net t r =
     (if \<not> ht_running t then Err (mk_error EC_NetworkError ''Transport not running'')
      else case net (post_of dump percent r t) of
        ReplyTimeout \<Rightarrow> Err (mk_error EC_Timeout ''HTTP request timed out'')
      | ReplyError errorStr \<Rightarrow> Err (mk_error EC_NetworkError errorStr)
      | ReplyBody responseBody \<Rightarrow> read_rpc_response parse responseBody)"

definition rpc_call :: "(RpcRequest \<Rightarrow> RpcResponse result) \<Rightarrow> string \<Rightarrow> string \<Rightarrow> string \<Rightarrow> json \<Rightarrow> json result" where
  "rpc_call sendRequest requestId service meth params =
     (case sendRequest \<lparr>rr_serviceName = service, rr_methodName = meth, rr_params = params, rr_requestId = requestId\<rparr> of
        Inl e \<Rightarrow> Err e
      | Inr response \<Rightarrow> if \<not> rs_success response then Err (mk_error EC_InternalError (rs_errorMessage response)) else Ok (rs_data response))"

text \<open>\<open>get\<close> is the conversion to the type of the template.\<close>

definition callAndParse :: "(json \<Rightarrow> string + 'a) \<Rightarrow> (RpcRequest \<Rightarrow> RpcResponse result) \<Rightarrow> string \<Rightarrow> string \<Rightarrow> string \<Rightarrow> json \<Rightarrow> 'a result" where
  "callAndParse get sendRequest requestId service meth params =
     (case rpc_call sendRequest requestId service meth params of
        Inl e \<Rightarrow> Err e
      | Inr data \<Rightarrow>
          (case json_find data ''result'' of
             None \<Rightarrow> Err (mk_error EC_InternalError (''Response missing '' @ squote @ ''result'' @ squote @ '' field''))
           | Some val \<Rightarrow> (case get val of Inl what \<Rightarrow> Err (mk_error EC_InternalError what) | Inr x \<Rightarrow> Ok x)))"

section \<open>What calls promise\<close>

text \<open>A service is called exactly when it is registered, by the handler registered last; registering others does not matter.\<close>

theorem dispatch_routes:
  "rr_serviceName req = name \<Longrightarrow> dispatch req (registerService name h d) w = h req w"
  "rr_serviceName req \<noteq> name \<Longrightarrow> dispatch req (registerService name h d) w = dispatch req d w"
  "rr_serviceName req \<noteq> name \<Longrightarrow> dispatch req (unregisterService name d) w = dispatch req d w"
  "rr_serviceName req = name \<Longrightarrow> \<not> rs_success (fst (dispatch req (unregisterService name d) w)) \<and> snd (dispatch req (unregisterService name d) w) = w"
  by (simp_all add: dispatch_def registerService_def unregisterService_def update_conv' delete_conv')

text \<open>The registry: one list for each service, none empty, with instances of that service only.\<close>

definition instances_inv :: "instance_registry \<Rightarrow> bool" where
  "instances_inv r \<longleftrightarrow> distinct (map fst r) \<and> (\<forall>k l. map_of r k = Some l \<longrightarrow> l \<noteq> [] \<and> (\<forall>i\<in>set l. si_serviceName i = k))"

definition instances_of :: "string \<Rightarrow> instance_registry \<Rightarrow> ServiceInstance list" where
  "instances_of k r = (case map_of r k of Some is \<Rightarrow> is | None \<Rightarrow> [])"

lemma getInstances_eq: "getInstances k r = Ok (instances_of k r)"
  by (simp add: getInstances_def instances_of_def)

lemma remove_instance_shape: "remove_instance h p xs = Some ys \<Longrightarrow> \<exists>a x b. xs = a @ x # b \<and> ys = a @ b \<and> si_host x = h \<and> si_port x = p \<and> (\<forall>i\<in>set a. \<not> (si_host i = h \<and> si_port i = p))"
proof (induction xs arbitrary: ys)
  case (Cons i xs)
  show ?case
  proof (cases "si_host i = h \<and> si_port i = p")
    case True
    with Cons.prems show ?thesis by (intro exI [of _ "[]"]) auto
  next
    case False
    with Cons.prems obtain zs where zs: "remove_instance h p xs = Some zs" "ys = i # zs" by auto
    then obtain a x b where "xs = a @ x # b" "zs = a @ b" "si_host x = h" "si_port x = p" "\<forall>i\<in>set a. \<not> (si_host i = h \<and> si_port i = p)" using Cons.IH by blast
    with zs False show ?thesis by (intro exI [of _ "i # a"] exI [of _ x] exI [of _ b]) auto
  qed
qed simp

lemma registerInstance_of: "instances_of k (snd (registerInstance i r)) = (if k = si_serviceName i then instances_of k r @ [i] else instances_of k r)"
  by (simp add: instances_of_def registerInstance_def update_conv')

lemma unregisterInstance_of:
  "instances_of k (snd (unregisterInstance s h p r)) = (if k = s then (case remove_instance h p (instances_of k r) of Some rest \<Rightarrow> rest | None \<Rightarrow> instances_of k r) else instances_of k r)"
  by (auto simp: instances_of_def unregisterInstance_def update_conv' delete_conv' split: option.splits)

lemma registerInstance_inv [sk_inv]: "instances_inv r \<Longrightarrow> instances_inv (snd (registerInstance i r))"
  by (auto simp: instances_inv_def registerInstance_def distinct_update update_conv' split: option.splits)

lemma unregisterInstance_inv [sk_inv]:
  assumes "instances_inv r"
  shows "instances_inv (snd (unregisterInstance s h p r))"
proof -
  have keep: "\<forall>i\<in>set rest. si_serviceName i = s" if "map_of r s = Some l" "remove_instance h p l = Some rest" for l rest
    using assms that(1) remove_instance_shape [OF that(2)] by (auto simp: instances_inv_def simp del: map_of_eq_Some_iff)
  with assms show ?thesis
    by (auto simp: instances_inv_def unregisterInstance_def distinct_update distinct_delete update_conv' delete_conv' simp del: map_of_eq_Some_iff split: option.splits if_splits)
qed

text \<open>Registering an instance at a new address and unregistering it leaves every service with the instances it had.\<close>

lemma remove_instance_last: "\<forall>j\<in>set xs. \<not> (si_host j = si_host i \<and> si_port j = si_port i) \<Longrightarrow> remove_instance (si_host i) (si_port i) (xs @ [i]) = Some xs"
  by (induction xs) auto

theorem register_unregister:
  assumes "\<forall>j\<in>set (instances_of (si_serviceName i) r). \<not> (si_host j = si_host i \<and> si_port j = si_port i)"
  shows "getInstances k (snd (unregisterInstance (si_serviceName i) (si_host i) (si_port i) (snd (registerInstance i r)))) = getInstances k r"
  using assms by (simp add: getInstances_eq unregisterInstance_of registerInstance_of remove_instance_last)

text \<open>Registering twice makes two entries, and one unregistration leaves the other: the balancer goes on choosing an address that was taken down.\<close>

theorem double_registration_stays:
  "getInstances ''s'' (snd (unregisterInstance ''s'' ''h'' 80 (snd (registerInstance \<lparr>si_serviceName = ''s'', si_host = ''h'', si_port = 80, si_timestamp = 2\<rparr>
     (snd (registerInstance \<lparr>si_serviceName = ''s'', si_host = ''h'', si_port = 80, si_timestamp = 1\<rparr> [])))))) = Ok [\<lparr>si_serviceName = ''s'', si_host = ''h'', si_port = 80, si_timestamp = 2\<rparr>]"
  by code_simp

text \<open>Round robin: as many choices in a row as there are instances choose each position once, whatever the counter, until it overflows.\<close>

fun lb_picks :: "nat \<Rightarrow> 'a list \<Rightarrow> load_balancer \<Rightarrow> 'a selection list \<times> load_balancer" where
  "lb_picks 0 xs b = ([], b)"
| "lb_picks (Suc n) xs b = (case lb_select (\<lambda>_. 0) xs b of (p, b1) \<Rightarrow> (case lb_picks n xs b1 of (ps, b2) \<Rightarrow> (p # ps, b2)))"

lemma lb_select_round:
  assumes "xs \<noteq> []" "length xs < 2 ^ 31" "lb_roundRobin b" "0 \<le> lb_counter b" "lb_counter b < 2 ^ 31 - 1"
  shows "lb_select r xs b = (Selected (xs ! (nat (lb_counter b) mod length xs)), b\<lparr>lb_counter := lb_counter b + 1\<rparr>)"
proof -
  have sz: "to_int32 (int (length xs)) = int (length xs)" using assms(2) by (intro to_int32_small) simp_all
  have inc: "to_int32 (lb_counter b + 1) = lb_counter b + 1" using assms(4,5) by (intro to_int32_small) simp_all
  have "nat (lb_counter b mod int (length xs)) = nat (lb_counter b) mod length xs" using assms(4) by (simp add: nat_mod_distrib)
  moreover have "0 \<le> lb_counter b mod int (length xs)" "lb_counter b mod int (length xs) < int (length xs)" using assms(1) by simp_all
  ultimately show ?thesis using assms by (simp add: lb_select_def sz inc c_rem_def at_index_def Let_def)
qed

lemma lb_picks_round:
  assumes "xs \<noteq> []" "length xs < 2 ^ 31" "lb_roundRobin b" "0 \<le> lb_counter b" "lb_counter b + int n < 2 ^ 31"
  shows "lb_picks n xs b = (map (\<lambda>j. Selected (xs ! ((nat (lb_counter b) + j) mod length xs))) [0..<n], b\<lparr>lb_counter := lb_counter b + int n\<rparr>)"
  using assms(3-5)
proof (induction n arbitrary: b)
  case (Suc n)
  let ?b = "b\<lparr>lb_counter := lb_counter b + 1\<rparr>"
  have "lb_picks n xs ?b = (map (\<lambda>j. Selected (xs ! ((nat (lb_counter b) + Suc j) mod length xs))) [0..<n], ?b\<lparr>lb_counter := lb_counter b + 1 + int n\<rparr>)"
  proof -
    have "nat (lb_counter b + 1) = Suc (nat (lb_counter b))" using Suc.prems by simp
    then show ?thesis using Suc.IH [of ?b] Suc.prems by simp
  qed
  moreover have "lb_select (\<lambda>_. 0) xs b = (Selected (xs ! (nat (lb_counter b) mod length xs)), ?b)"
    using assms(1,2) Suc.prems by (intro lb_select_round) simp_all
  moreover have "[0..<Suc n] = 0 # map Suc [0..<n]" by (simp add: map_Suc_upt upt_conv_Cons del: upt_Suc)
  ultimately show ?case by (simp add: add.assoc del: upt_Suc)
qed simp

theorem round_robin_fair:
  assumes "xs \<noteq> []" "length xs < 2 ^ 31" "lb_roundRobin b" "0 \<le> lb_counter b" "lb_counter b + int (length xs) < 2 ^ 31"
  shows "fst (lb_picks (length xs) xs b) = map Selected (rotate (nat (lb_counter b)) xs)"
proof -
  have "fst (lb_picks (length xs) xs b) = map (\<lambda>j. Selected (xs ! ((nat (lb_counter b) + j) mod length xs))) [0..<length xs]"
    using lb_picks_round [OF assms] by simp
  also have "\<dots> = map Selected (rotate (nat (lb_counter b)) xs)"
    by (rule nth_equalityI) (simp_all add: nth_rotate)
  finally show ?thesis .
qed

text \<open>After \<open>2 ^ 31\<close> choices the counter is negative, and so is the index.\<close>

theorem round_robin_overflow:
  "fst (lb_select r [a, b, c] (snd (lb_select r [a, b, c] \<lparr>lb_roundRobin = True, lb_counter = 2 ^ 31 - 1\<rparr>))) = OutOfRange"
proof -
  have "to_int32 2147483648 = - 2147483648" "to_int32 3 = 3" by (simp_all add: to_int32_def)
  then show ?thesis by (simp add: lb_select_def Let_def c_rem_def at_index_def)
qed

text \<open>Values come back, if JSON and base64 do.\<close>

theorem rpc_value_roundtrip:
  assumes "\<And>j. parse (dump j) = Ok j" "\<And>s. fromBase64 (toBase64 s) = s"
  shows "deserializeValue parse fromBase64 what (serializeValue dump toBase64 v) = Inr (Ok v)"
  using assms(2) by (cases v) (simp_all add: serializeValue_def deserializeValue_def assms(1) map_get_def get_string_def get_int64_def get_double_def get_bool_def)

text \<open>A value that lacks its field is not refused: the exception of the JSON library leaves the function.\<close>

theorem rpc_value_throws:
  assumes "parse data = Ok (JObject [(''type'', JString ''int64'')])"
  shows "deserializeValue parse fromBase64 what data = Inl what"
  using assms by (simp add: deserializeValue_def map_get_def get_string_def get_int64_def)

text \<open>A peer that dispatches the request it reads and answers with the four fields of a response.\<close>

definition read_envelope :: "json \<Rightarrow> RpcRequest" where
  "read_envelope j = \<lparr>rr_serviceName = jh_getString j ''service'', rr_methodName = jh_getString j ''method'', rr_params = (case json_find j ''params'' of Some p \<Rightarrow> p | None \<Rightarrow> JNull), rr_requestId = jh_getString j ''requestId''\<rparr>"

definition response_json :: "RpcResponse \<Rightarrow> json" where
  "response_json r = JObject [(''data'', rs_data r), (''errorMessage'', JString (rs_errorMessage r)), (''requestId'', JString (rs_requestId r)), (''success'', JBoolean (rs_success r))]"

definition peer :: "(json \<Rightarrow> string) \<Rightarrow> (string \<Rightarrow> json result) \<Rightarrow> 'w dispatcher \<Rightarrow> 'w \<Rightarrow> posted \<Rightarrow> net_reply" where
  "peer dump parse d w p = (case parse (ps_body p) of Inl e \<Rightarrow> ReplyError (err_message e) | Inr j \<Rightarrow> ReplyBody (dump (response_json (fst (dispatch (read_envelope j) d w)))))"

lemma envelope_read: "read_envelope (envelope r) = r"
  by (simp add: read_envelope_def envelope_def jh_getString_def json_find_def)

lemma response_read: "(\<And>j. parse (dump j) = Ok j) \<Longrightarrow> read_rpc_response parse (dump (response_json r)) = Ok (r\<lparr>rs_data := (case rs_data r of JObject o1 \<Rightarrow> JObject o1 | _ \<Rightarrow> JObject [])\<rparr>)"
  by (cases r) (simp add: read_rpc_response_def response_json_def jh_getBool_def jh_getString_def jh_getObject_def json_find_def split: json.splits)

text \<open>A call goes through the transport to the handler of its service and brings back its data or its error. Data that is not an object is lost: the caller gets an empty object.\<close>

theorem rpc_call_end_to_end:
  assumes "\<And>j. parse (dump j) = Ok j" "ht_running t" "req = \<lparr>rr_serviceName = service, rr_methodName = meth, rr_params = params, rr_requestId = rid\<rparr>" "resp = fst (dispatch req d w)"
  shows "rpc_call (ht_sendRequest dump parse percent (peer dump parse d w) t) rid service meth params
    = (if rs_success resp then Ok (case rs_data resp of JObject o1 \<Rightarrow> JObject o1 | _ \<Rightarrow> JObject []) else Err (mk_error EC_InternalError (rs_errorMessage resp)))"
  using assms by (simp add: rpc_call_def ht_sendRequest_def peer_def post_of_def envelope_read response_read)

text \<open>A transport that is not running asks nobody; so does one that was stopped.\<close>

theorem stopped_transport_fails: "rpc_call (ht_sendRequest dump parse percent net (ht_stop t)) rid service meth params = Err (mk_error EC_NetworkError ''Transport not running'')"
  by (simp add: rpc_call_def ht_sendRequest_def ht_stop_def)

end
